(* ===== verification/Prelude.thy ===== *)
theory Prelude
  imports
    Main
    "HOL-Library.Word"
    "HOL-Library.Char_ord"
    "HOL-Library.List_Lexorder"
    "HOL-Library.Product_Lexorder"
    "HOL-Library.Sublist"
    "HOL-Library.Multiset"
begin

text \<open>
  Shared vocabulary of the development: the exception classes the extension throws, results that
  carry them, the integer bounds of \<open>int64_t\<close> and \<open>idx_t\<close>, the few standard-library algorithms
  the sources call (\<open>std::to_string\<close>, \<open>std::sort\<close> followed by \<open>std::unique\<close>,
  \<open>std::lower_bound\<close>) and the lemmas on them that every component uses.

  A C++ function that can throw returns \<open>exn + 'a\<close>. The string of an exception is the fixed part
  of its message, shortened; the interpolated arguments of a message are not modelled.
  \<open>std::string\<close> is a byte string: \<open>string\<close> is a list of 8-bit characters, and the library
  order on it (\<open>List_Lexorder\<close> over \<open>Char_ord\<close>) is the unsigned byte order of
  \<open>std::string::operator<\<close>.
\<close>

section \<open>Collections of facts\<close>

declare dropWhile_eq_Nil_conv [simp del]

named_theorems result_simps \<open>evaluation of results that carry exceptions\<close>
named_theorems invariant_intros \<open>introduction rules for the invariants of the components\<close>

section \<open>Exceptions and results\<close>

datatype exn =
    BinderException string
  | InvalidInputException string
  | InternalException string
  | IOException string
  | NotImplementedException string
  | MissingExtensionException string
  | ConversionException string
  | OutOfMemoryException string
  | PermissionException string
  | InterruptException

type_synonym 'a result = "exn + 'a"

fun bindE :: "'a result \<Rightarrow> ('a \<Rightarrow> 'b result) \<Rightarrow> 'b result" where
  "bindE (Inl e) f = Inl e"
| "bindE (Inr x) f = f x"

declare bindE.simps [result_simps]

lemma bindE_Inr_iff [simp]: "bindE m f = Inr y \<longleftrightarrow> (\<exists>x. m = Inr x \<and> f x = Inr y)"
  by (cases m) auto

lemma bindE_Inl_iff: "bindE m f = Inl e \<longleftrightarrow> m = Inl e \<or> (\<exists>x. m = Inr x \<and> f x = Inl e)"
  by (cases m) auto

lemma bindE_assoc: "bindE (bindE m f) g = bindE m (\<lambda>x. bindE (f x) g)"
  by (cases m) auto

text \<open>\<open>if (!ok) throw BinderException(message);\<close> and the code after it.\<close>

definition require :: "bool \<Rightarrow> string \<Rightarrow> 'a result \<Rightarrow> 'a result" where
  "require ok message k = (if ok then k else Inl (BinderException message))"

lemma require_Inr_iff [simp]: "require ok message k = Inr y \<longleftrightarrow> ok \<and> k = Inr y"
  by (simp add: require_def)

text \<open>A loop over a list that may throw: the state is threaded, the first exception stops it.\<close>

fun foldE :: "('a \<Rightarrow> 's \<Rightarrow> 's result) \<Rightarrow> 'a list \<Rightarrow> 's \<Rightarrow> 's result" where
  "foldE f [] s = Inr s"
| "foldE f (x # xs) s = (case f x s of Inl e \<Rightarrow> Inl e | Inr s' \<Rightarrow> foldE f xs s')"

text \<open>A loop that builds a vector with one element per input, and stops at the first exception.\<close>

fun mapE :: "('a \<Rightarrow> 'b result) \<Rightarrow> 'a list \<Rightarrow> 'b list result" where
  "mapE f [] = Inr []"
| "mapE f (x # xs) =
     (case f x of Inl e \<Rightarrow> Inl e
      | Inr y \<Rightarrow> (case mapE f xs of Inl e \<Rightarrow> Inl e | Inr ys \<Rightarrow> Inr (y # ys)))"

lemma foldE_append [simp]:
  "foldE f (xs @ ys) s = (case foldE f xs s of Inl e \<Rightarrow> Inl e | Inr s' \<Rightarrow> foldE f ys s')"
  by (induction xs arbitrary: s) (auto split: sum.splits)

lemma foldE_invariant:
  assumes "foldE f xs s = Inr s'" and "P s"
    and "\<And>x s s'. x \<in> set xs \<Longrightarrow> P s \<Longrightarrow> f x s = Inr s' \<Longrightarrow> P s'"
  shows "P s'"
  using assms
proof (induction xs arbitrary: s)
  case Nil
  then show ?case by simp
next
  case (Cons x xs)
  then obtain t where t: "f x s = Inr t" "foldE f xs t = Inr s'"
    by (auto split: sum.splits)
  then have "P t" using Cons.prems by auto
  from Cons.IH [OF t(2) this] Cons.prems(3) show ?case by auto
qed

lemma mapE_Inr_iff: "mapE f xs = Inr ys \<longleftrightarrow> list_all2 (\<lambda>x y. f x = Inr y) xs ys"
proof (induction xs arbitrary: ys)
  case Nil
  then show ?case by auto
next
  case (Cons x xs)
  have "mapE f (x # xs) = Inr ys \<longleftrightarrow> (\<exists>y zs. ys = y # zs \<and> f x = Inr y \<and> mapE f xs = Inr zs)"
    by (auto split: sum.splits)
  then show ?case by (auto simp: list_all2_Cons1 Cons.IH)
qed

lemma mapE_length: "mapE f xs = Inr ys \<Longrightarrow> length ys = length xs"
  by (auto simp: mapE_Inr_iff list_all2_lengthD)

lemma mapE_nth: "mapE f xs = Inr ys \<Longrightarrow> i < length xs \<Longrightarrow> f (xs ! i) = Inr (ys ! i)"
  by (auto simp: mapE_Inr_iff list_all2_conv_all_nth)

lemma mapE_set: "mapE f xs = Inr ys \<Longrightarrow> y \<in> set ys \<Longrightarrow> \<exists>x\<in>set xs. f x = Inr y"
  by (metis in_set_conv_nth mapE_length mapE_nth)

lemma mapE_all_Inr: "(\<And>x. x \<in> set xs \<Longrightarrow> f x = Inr (g x)) \<Longrightarrow> mapE f xs = Inr (map g xs)"
  by (induction xs) auto

lemma mapE_cong: "(\<And>x. x \<in> set xs \<Longrightarrow> f x = g x) \<Longrightarrow> mapE f xs = mapE g xs"
  by (induction xs) (auto split: sum.splits)

lemma mapE_Inl: "mapE f xs = Inl e \<Longrightarrow> \<exists>x\<in>set xs. f x = Inl e"
  by (induction xs) (auto split: sum.splits)

lemma zip_index_bound: "x \<in> set (zip [0 ..< n] ys) \<Longrightarrow> fst x < n"
  by (metis atLeastLessThan_iff prod.collapse set_upt set_zip_leftD)

lemma mapE_append:
  "mapE f (xs @ ys) =
     (case mapE f xs of Inl e \<Rightarrow> Inl e
      | Inr us \<Rightarrow> (case mapE f ys of Inl e \<Rightarrow> Inl e | Inr vs \<Rightarrow> Inr (us @ vs)))"
  by (induction xs) (auto split: sum.splits)

section \<open>Integer widths\<close>

text \<open>
  \<open>int64_t\<close> values are \<open>int\<close> with their range, \<open>idx_t\<close> (\<open>uint64_t\<close>) values are \<open>nat\<close> with
  theirs; where the sources let an unsigned counter wrap, the model uses \<open>64 word\<close>.
\<close>

definition INT64_MAX :: int where "INT64_MAX = 9223372036854775807"
definition INT64_MIN :: int where "INT64_MIN = - 9223372036854775808"
definition IDX_MAX :: nat where "IDX_MAX = 18446744073709551615"

definition is_int64 :: "int \<Rightarrow> bool" where
  "is_int64 x \<longleftrightarrow> INT64_MIN \<le> x \<and> x \<le> INT64_MAX"

lemmas int64_defs = INT64_MAX_def INT64_MIN_def is_int64_def

section \<open>Decimal numbers: std::to_string\<close>

definition digit_char :: "nat \<Rightarrow> char" where
  "digit_char d = char_of (48 + d)"

fun to_string :: "nat \<Rightarrow> string" where
  "to_string n = (if n < 10 then [digit_char n] else to_string (n div 10) @ [digit_char (n mod 10)])"

declare to_string.simps [simp del]

definition to_string_int :: "int \<Rightarrow> string" where
  "to_string_int i = (if i < 0 then CHR ''-'' # to_string (nat (- i)) else to_string (nat i))"

definition is_digit :: "char \<Rightarrow> bool" where
  "is_digit c \<longleftrightarrow> CHR ''0'' \<le> c \<and> c \<le> CHR ''9''"

definition digit_val :: "char \<Rightarrow> nat" where
  "digit_val c = of_char c - 48"

lemma of_digit_char [simp]: "d < 10 \<Longrightarrow> of_char (digit_char d) = 48 + d"
  by (simp add: digit_char_def)

lemma digit_val_char [simp]: "d < 10 \<Longrightarrow> digit_val (digit_char d) = d"
  by (simp add: digit_val_def)

lemma is_digit_char [simp]: "d < 10 \<Longrightarrow> is_digit (digit_char d)"
  by (simp add: is_digit_def less_eq_char_def)

lemma to_string_nonempty [simp]: "to_string n \<noteq> []"
  by (subst to_string.simps) simp

lemma to_string_digits: "c \<in> set (to_string n) \<Longrightarrow> is_digit c"
proof (induction n rule: to_string.induct)
  case (1 n)
  then show ?case
    by (subst (asm) (2) to_string.simps) (auto split: if_splits)
qed

text \<open>Reading the digits back, most significant first, gives the number.\<close>

definition parse_nat :: "string \<Rightarrow> nat" where
  "parse_nat s = foldl (\<lambda>n c. 10 * n + digit_val c) 0 s"

lemma parse_nat_snoc [simp]: "parse_nat (s @ [c]) = 10 * parse_nat s + digit_val c"
  by (simp add: parse_nat_def)

lemma parse_to_string [simp]: "parse_nat (to_string n) = n"
proof (induction n rule: to_string.induct)
  case (1 n)
  show ?case
  proof (cases "n < 10")
    case True
    then show ?thesis
      by (subst to_string.simps) (simp add: parse_nat_def)
  next
    case False
    with 1 have "parse_nat (to_string (n div 10)) = n div 10" by simp
    with False show ?thesis
      by (subst to_string.simps) simp
  qed
qed

lemma to_string_inj [simp]: "to_string m = to_string n \<longleftrightarrow> m = n"
  by (metis parse_to_string)

lemma parse_nat_zeros [simp]: "parse_nat (replicate k (CHR ''0'') @ s) = parse_nat s"
proof -
  have "foldl (\<lambda>n c. 10 * n + digit_val c) 0 (replicate k (CHR ''0'')) = 0"
    by (induction k) (auto simp: digit_val_def)
  then show ?thesis by (simp add: parse_nat_def)
qed

section \<open>Splitting on a character\<close>

text \<open>
  The sources walk a string with \<open>find(separator, begin)\<close> and \<open>substr\<close>; \<open>split_on\<close> is the
  list of the substrings they visit (one more than there are separators).
\<close>

fun split_on :: "'a \<Rightarrow> 'a list \<Rightarrow> 'a list list" where
  "split_on c [] = [[]]"
| "split_on c (x # xs) =
     (if x = c then [] # split_on c xs
      else (case split_on c xs of [] \<Rightarrow> [[x]] | y # ys \<Rightarrow> (x # y) # ys))"

lemma split_on_nonempty [simp]: "split_on c xs \<noteq> []"
  by (induction xs) (auto split: list.splits)

lemma split_on_no_sep: "c \<notin> set xs \<Longrightarrow> split_on c xs = [xs]"
  by (induction xs) auto

lemma split_on_append: "c \<notin> set xs \<Longrightarrow> split_on c (xs @ c # ys) = xs # split_on c ys"
  by (induction xs) auto

lemma split_on_rec:
  "split_on c s =
     (case dropWhile (\<lambda>x. x \<noteq> c) s of
        [] \<Rightarrow> [takeWhile (\<lambda>x. x \<noteq> c) s]
      | _ # rest \<Rightarrow> takeWhile (\<lambda>x. x \<noteq> c) s # split_on c rest)"
  by (induction s) (auto split: list.splits)

lemma split_on_sep_free: "ys \<in> set (split_on c xs) \<Longrightarrow> c \<notin> set ys"
  by (induction xs arbitrary: ys) (fastforce split: list.splits if_splits)+

lemma set_split_on: "set xs \<subseteq> insert c (\<Union> (set ` set (split_on c xs)))"
  by (induction xs) (fastforce split: list.splits if_splits)+

section \<open>Sorted containers\<close>

text \<open>\<open>std::sort\<close> and then \<open>erase(std::unique(...))\<close>.\<close>

definition sort_unique :: "'a::linorder list \<Rightarrow> 'a list" where
  "sort_unique xs = remdups_adj (sort xs)"

lemma set_sort_unique [simp]: "set (sort_unique xs) = set xs"
  by (simp add: sort_unique_def)

lemma sorted_sort_unique [simp]: "sorted (sort_unique xs)"
  by (simp add: sort_unique_def sorted_remdups_adj)

lemma sorted_remdups_adj_distinct: "sorted xs \<Longrightarrow> distinct (remdups_adj xs)"
proof (induction xs rule: remdups_adj.induct)
  case (3 x y xs)
  show ?case
  proof (cases "x = y")
    case True
    with 3 show ?thesis by simp
  next
    case False
    with "3.prems" have "x < y" and "\<forall>z \<in> set (y # xs). y \<le> z" by auto
    then have "x \<notin> set (y # xs)" by force
    with False 3 show ?thesis by simp
  qed
qed simp_all

lemma distinct_sort_unique [simp]: "distinct (sort_unique xs)"
  by (simp add: sort_unique_def sorted_remdups_adj_distinct)

lemma sort_unique_Nil [simp]: "sort_unique [] = []"
  by (simp add: sort_unique_def)

lemma sort_unique_eq_sorted_list_of_set: "sort_unique xs = sorted_list_of_set (set xs)"
  by (rule sorted_distinct_set_unique) auto

text \<open>
  \<open>std::lower_bound\<close> on a sequence whose elements below the key come first: the index of the
  first element that is not below it.
\<close>

definition lower_bound :: "('a \<Rightarrow> bool) \<Rightarrow> 'a list \<Rightarrow> nat" where
  "lower_bound below xs = length (takeWhile below xs)"

lemma lower_bound_le [simp]: "lower_bound below xs \<le> length xs"
  by (simp add: lower_bound_def length_takeWhile_le)

lemma lower_bound_sorted_find:
  assumes "sorted (map key xs)" and "x \<in> set xs" and "key x = k" and "distinct (map key xs)"
  shows "lower_bound (\<lambda>y. key y < k) xs < length xs \<and> xs ! lower_bound (\<lambda>y. key y < k) xs = x"
  using assms
proof (induction xs)
  case Nil
  then show ?case by simp
next
  case (Cons a xs)
  show ?case
  proof (cases "key a < k")
    case True
    with Cons have "x \<in> set xs" by auto
    with True Cons show ?thesis by (simp add: lower_bound_def)
  next
    case False
    have "x = a"
    proof (rule ccontr)
      assume "x \<noteq> a"
      with Cons.prems have "x \<in> set xs" by simp
      with Cons.prems False have "key a = key x"
        by (metis order.order_iff_strict list.simps(9) image_eqI list.set_map sorted_simps(2))
      with Cons.prems \<open>x \<in> set xs\<close> show False by auto
    qed
    with False show ?thesis by (simp add: lower_bound_def)
  qed
qed

lemma nth_lower_bound: "lower_bound below xs < length xs \<Longrightarrow> \<not> below (xs ! lower_bound below xs)"
  unfolding lower_bound_def by (rule nth_length_takeWhile)

end
