(* ===== verification/Paths.thy ===== *)
theory Paths
  imports Prelude
begin

text \<open>
  Dataset roots and relative paths: \<open>src/lerobot_path.cpp\<close>.

  The functions of DuckDB the file calls (the file system, \<open>StringUtil::Lower\<close>, SQL quoting,
  SHA-256, the secret manager and the settings) are parameters: \<open>lower\<close> where only the case
  conversion is needed, and the record \<open>path_host\<close> for the rest. \<open>StringUtil::StartsWith\<close> and
  \<open>Contains\<close> are \<open>prefix\<close> and \<open>sublist\<close>.
\<close>

section \<open>Portable path components\<close>

definition forbidden_chars :: "char list" where
  "forbidden_chars =
     [CHR ''/'', CHR 0x5C, CHR '':'', CHR ''*'', CHR ''?'', CHR 0x22, CHR ''<'', CHR ''>'',
      CHR ''|'', CHR ''['', CHR '']'', CHR ''%'', CHR ''#'']"

definition strip_trailing :: "char \<Rightarrow> string \<Rightarrow> string" where
  "strip_trailing c s = rev (dropWhile (\<lambda>x. x = c) (rev s))"

definition IsPortablePathComponent :: "(string \<Rightarrow> string) \<Rightarrow> string \<Rightarrow> bool" where
  "IsPortablePathComponent lower component =
     (if component = [] \<or> component = ''.'' \<or> component = ''..'' \<or>
         last component = CHR ''.'' \<or> last component = CHR '' '' \<or>
         list_ex (\<lambda>c. c \<in> set forbidden_chars) component
      then False
      else if list_ex (\<lambda>ch. of_char ch < (32::nat) \<or> of_char ch = (127::nat)) component then False
      else
        let basename =
          strip_trailing (CHR '' '') (lower (takeWhile (\<lambda>c. c \<noteq> CHR ''.'') component))
        in if basename \<in> {''con'', ''prn'', ''aux'', ''nul'', ''conin$'', ''conout$''} then False
           else if prefix ''com'' basename \<or> prefix ''lpt'' basename then
             let number = drop 3 basename
             in \<not> (length number = 1 \<and> CHR ''1'' \<le> hd number \<and> hd number \<le> CHR ''9'' \<or>
                   number = [CHR 0xC2, CHR 0xB9] \<or> number = [CHR 0xC2, CHR 0xB2] \<or>
                   number = [CHR 0xC2, CHR 0xB3])
           else True)"

definition ValidateLerobotFeatureName :: "(string \<Rightarrow> string) \<Rightarrow> string \<Rightarrow> unit result" where
  "ValidateLerobotFeatureName lower name =
     (if \<not> IsPortablePathComponent lower name
      then Inl (BinderException ''feature name must be a portable path component'')
      else Inr ())"

text \<open>
  The loop of \<open>ResolveLerobotRelativePath\<close> over \<open>relative_path.find('/', begin)\<close>: it checks
  one component after the other and stops at the first that is not portable.
\<close>

function check_components :: "(string \<Rightarrow> string) \<Rightarrow> string \<Rightarrow> unit result" where
  "check_components lower s =
     (if \<not> IsPortablePathComponent lower (takeWhile (\<lambda>c. c \<noteq> CHR ''/'') s)
      then Inl (BinderException ''path must stay relative to the dataset root'')
      else (case dropWhile (\<lambda>c. c \<noteq> CHR ''/'') s of
              [] \<Rightarrow> Inr ()
            | _ # rest \<Rightarrow> check_components lower rest))"
  by pat_completeness auto
termination
proof (relation "measure (\<lambda>(lower, s). length s)", goal_cases)
  case 1
  show ?case by simp
next
  case (2 lower s y rest)
  then show ?case
    using length_dropWhile_le [of "\<lambda>c. c \<noteq> CHR ''/''" s] by simp
qed

declare check_components.simps [simp del]

definition ResolveLerobotRelativePath :: "(string \<Rightarrow> string) \<Rightarrow> string \<Rightarrow> string \<Rightarrow> string result" where
  "ResolveLerobotRelativePath lower root relative_path =
     (case check_components lower relative_path of
        Inl e \<Rightarrow> Inl e
      | Inr _ \<Rightarrow> Inr (root @ ''/'' @ relative_path))"

lemma portable_component_dots:
  "IsPortablePathComponent lower c \<Longrightarrow> c \<noteq> [] \<and> c \<noteq> ''.'' \<and> c \<noteq> ''..''"
  by (auto simp: IsPortablePathComponent_def split: if_splits)

lemma portable_component_checks:
  "IsPortablePathComponent lower c \<Longrightarrow> \<not> list_ex (\<lambda>x. x \<in> set forbidden_chars) c"
  "IsPortablePathComponent lower c \<Longrightarrow>
     \<not> list_ex (\<lambda>ch. of_char ch < (32::nat) \<or> of_char ch = (127::nat)) c"
  unfolding IsPortablePathComponent_def by presburger+

lemma portable_component_chars:
  assumes "IsPortablePathComponent lower c" and "x \<in> set c"
  shows "x \<notin> set forbidden_chars \<and> 32 \<le> (of_char x :: nat) \<and> of_char x \<noteq> (127 :: nat)"
proof -
  from portable_component_checks(1) [OF assms(1)] assms(2) have "x \<notin> set forbidden_chars"
    unfolding list_ex_iff by blast
  moreover from portable_component_checks(2) [OF assms(1)] assms(2)
  have "\<not> ((of_char x :: nat) < 32 \<or> of_char x = (127 :: nat))"
    unfolding list_ex_iff by blast
  ultimately show ?thesis by linarith
qed

lemma check_components_iff:
  "check_components lower s = Inr () \<longleftrightarrow>
     list_all (IsPortablePathComponent lower) (split_on (CHR ''/'') s)"
proof (induction lower s rule: check_components.induct)
  case (1 lower s)
  show ?case
  proof (cases "dropWhile (\<lambda>c. c \<noteq> CHR ''/'') s")
    case Nil
    then show ?thesis
      by (simp add: check_components.simps [of lower s] split_on_rec [of _ s])
  next
    case (Cons y rest)
    with 1 show ?thesis
      by (simp add: check_components.simps [of lower s] split_on_rec [of _ s])
  qed
qed

text \<open>
  What a path means to a file system: components are followed from a directory, \<open>..\<close> leaves
  it, \<open>.\<close> and the empty component stay.
\<close>

fun follow :: "string list \<Rightarrow> string list \<Rightarrow> string list" where
  "follow dir [] = dir"
| "follow dir (c # cs) =
     (if c = ''..'' then follow (butlast dir) cs
      else if c = ''.'' \<or> c = [] then follow dir cs
      else follow (dir @ [c]) cs)"

lemma follow_portable:
  "list_all (IsPortablePathComponent lower) cs \<Longrightarrow> follow dir cs = dir @ cs"
  by (induction cs arbitrary: dir) (auto dest: portable_component_dots)

section \<open>Dataset roots\<close>

definition ascii_space :: "char \<Rightarrow> bool" where
  "ascii_space c \<longleftrightarrow> c \<in> {CHR '' '', CHR 0x0C, CHR 0x0A, CHR 0x0D, CHR 0x09, CHR 0x0B}"

text \<open>\<open>while (root.size() > 1 && root.back() == '/') root.pop_back();\<close>\<close>

function pop_slashes :: "string \<Rightarrow> string" where
  "pop_slashes root =
     (if 1 < length root \<and> last root = CHR ''/'' then pop_slashes (butlast root) else root)"
  by pat_completeness auto
termination by (relation "measure length") auto

declare pop_slashes.simps [simp del]

definition NormalizeLerobotRoot :: "string \<Rightarrow> string result" where
  "NormalizeLerobotRoot root =
     (let from_first = dropWhile ascii_space root
      in if from_first = []
         then Inl (BinderException ''dataset root must not be empty'')
         else
           let trimmed = rev (dropWhile ascii_space (rev from_first));
               popped = pop_slashes trimmed
           in if popped = [] then Inl (BinderException ''dataset root must not be empty'')
              else Inr popped)"

lemma pop_slashes_nonempty: "root \<noteq> [] \<Longrightarrow> pop_slashes root \<noteq> []"
proof (induction root rule: pop_slashes.induct)
  case (1 root)
  then show ?case
    by (subst pop_slashes.simps) (auto simp flip: length_greater_0_conv)
qed

lemma pop_slashes_prefix: "\<exists>n. root = pop_slashes root @ replicate n (CHR ''/'')"
proof (induction root rule: pop_slashes.induct)
  case (1 root)
  show ?case
  proof (cases "1 < length root \<and> last root = CHR ''/''")
    case True
    with 1 obtain n where "butlast root = pop_slashes (butlast root) @ replicate n (CHR ''/'')"
      by blast
    with True have "root = pop_slashes (butlast root) @ replicate n (CHR ''/'') @ [CHR ''/'']"
      by (metis append_assoc append_butlast_last_id list.size(3) not_less_zero)
    with True show ?thesis
      by (subst pop_slashes.simps) (metis replicate_append_same replicate_Suc)
  next
    case False
    then have "root = pop_slashes root @ replicate 0 (CHR ''/'')"
      by (subst pop_slashes.simps) auto
    then show ?thesis ..
  qed
qed

lemma pop_slashes_end: "root \<noteq> [] \<Longrightarrow> pop_slashes root = ''/'' \<or> last (pop_slashes root) \<noteq> CHR ''/''"
proof (induction root rule: pop_slashes.induct)
  case (1 root)
  show ?case
  proof (cases "1 < length root \<and> last root = CHR ''/''")
    case True
    then have "butlast root \<noteq> []" by (cases root) auto
    with True 1 show ?thesis by (subst (1 2) pop_slashes.simps) simp
  next
    case False
    with 1(2) have "root = ''/'' \<or> last root \<noteq> CHR ''/''"
      by (cases root rule: rev_cases) auto
    with False show ?thesis by (subst (1 2) pop_slashes.simps) auto
  qed
qed

lemma trimmed_nonempty:
  "dropWhile P s \<noteq> [] \<Longrightarrow> rev (dropWhile P (rev (dropWhile P s))) \<noteq> []"
  by (metis dropWhile_eq_Nil_conv hd_dropWhile hd_in_set rev_is_Nil_conv set_rev)

lemma hd_trimmed:
  assumes "dropWhile P s \<noteq> []"
  shows "hd (rev (dropWhile P (rev (dropWhile P s)))) = hd (dropWhile P s)"
proof -
  let ?d = "dropWhile P s"
  have "?d = rev (dropWhile P (rev ?d)) @ rev (takeWhile P (rev ?d))"
    by (metis rev_append rev_rev_ident takeWhile_dropWhile_id)
  then show ?thesis
    by (metis assms hd_append2 trimmed_nonempty)
qed

lemma NormalizeLerobotRoot_Inl:
  "NormalizeLerobotRoot root = Inl e \<longleftrightarrow>
     e = BinderException ''dataset root must not be empty'' \<and> list_all ascii_space root"
proof -
  have "dropWhile ascii_space root = [] \<longleftrightarrow> list_all ascii_space root"
    by (simp add: dropWhile_eq_Nil_conv list_all_iff)
  then show ?thesis
    using trimmed_nonempty [of ascii_space root]
    by (auto simp: NormalizeLerobotRoot_def Let_def pop_slashes_nonempty)
qed

lemma dropWhile_split:
  "\<exists>pre. s = pre @ dropWhile P s \<and> list_all P pre"
  by (metis list_all_iff set_takeWhileD takeWhile_dropWhile_id)

lemma rev_dropWhile_split:
  "\<exists>post. s = rev (dropWhile P (rev s)) @ post \<and> list_all P post"
proof -
  obtain pre where "rev s = pre @ dropWhile P (rev s)" "list_all P pre"
    using dropWhile_split by blast
  then have "s = rev (dropWhile P (rev s)) @ rev pre" "list_all P (rev pre)"
    by (metis rev_append rev_rev_ident) (simp add: \<open>list_all P pre\<close>)
  then show ?thesis by blast
qed

lemma NormalizeLerobotRoot_Inr:
  assumes "NormalizeLerobotRoot root = Inr r"
  shows "r \<noteq> []" and "\<not> ascii_space (hd r)" and "r = ''/'' \<or> last r \<noteq> CHR ''/''"
    and "\<exists>pre n post. root = pre @ r @ replicate n (CHR ''/'') @ post \<and>
           list_all ascii_space pre \<and> list_all ascii_space post"
proof -
  let ?d = "dropWhile ascii_space root"
  let ?t = "rev (dropWhile ascii_space (rev ?d))"
  from assms have d: "?d \<noteq> []" and r: "r = pop_slashes ?t" and ne: "r \<noteq> []"
    by (auto simp: NormalizeLerobotRoot_def Let_def split: if_splits)
  have t: "?t \<noteq> []" using d by (rule trimmed_nonempty)
  show "r \<noteq> []" by (rule ne)
  obtain n where n: "?t = r @ replicate n (CHR ''/'')"
    using pop_slashes_prefix r by blast
  have "hd r = hd ?t" using n ne by (metis hd_append2)
  also have "\<dots> = hd ?d" using d by (rule hd_trimmed)
  finally show "\<not> ascii_space (hd r)" using d hd_dropWhile by metis
  show "r = ''/'' \<or> last r \<noteq> CHR ''/''" using pop_slashes_end [OF t] r by simp
  obtain pre where pre: "root = pre @ ?d" "list_all ascii_space pre"
    using dropWhile_split by blast
  obtain post where post: "?d = ?t @ post" "list_all ascii_space post"
    using rev_dropWhile_split by blast
  have "root = pre @ r @ replicate n (CHR ''/'') @ post"
    using pre(1) post(1) n by (metis append.assoc)
  with pre(2) post(2) show "\<exists>pre n post. root = pre @ r @ replicate n (CHR ''/'') @ post \<and>
           list_all ascii_space pre \<and> list_all ascii_space post"
    by blast
qed

section \<open>The host: file system, secrets, settings\<close>

record secret =
  storage_mode :: string
  secret_type :: string
  secret_name :: string
  secret_provider :: string
  secret_scope :: "string list"
  secret_map :: "(string \<times> string \<times> string) list"
    \<comment> \<open>key, type name and SQL text of each value, in map order\<close>

record path_host =
  IsPathAbsolute :: "string \<Rightarrow> bool"
  ExpandPath :: "string \<Rightarrow> string"
  JoinPath :: "string \<Rightarrow> string \<Rightarrow> string"
  GetFilePath :: "string \<Rightarrow> string"
  WorkingDirectory :: string
  GlobFiles :: "string \<Rightarrow> string list"
  file_search_path :: "string option"
  ToSQLString :: "string \<Rightarrow> string"
  SplitComma :: "string \<Rightarrow> string list"
  SHA256 :: "string \<Rightarrow> string"
  lance_loaded :: bool
  AllSecrets :: "secret list"
  CurrentSetting :: "string \<Rightarrow> nat option \<times> string"
    \<comment> \<open>scope of the setting if it is set, SQL text of its value\<close>

definition IsQualifiedRoot :: "path_host \<Rightarrow> string \<Rightarrow> bool" where
  "IsQualifiedRoot h root \<longleftrightarrow> IsPathAbsolute h root \<or> sublist ''://'' root"

definition GetFileSearchPath :: "path_host \<Rightarrow> string" where
  "GetFileSearchPath h = (case file_search_path h of None \<Rightarrow> [] | Some p \<Rightarrow> p)"

text \<open>
  \<open>ResolveLerobotRoot\<close>: the loop over the glob matches keeps one candidate and refuses a
  second, different one.
\<close>

definition match_root :: "path_host \<Rightarrow> string \<Rightarrow> string" where
  "match_root h m =
     (let path = ExpandPath h m;
          path = (if \<not> IsQualifiedRoot h path then JoinPath h (WorkingDirectory h) path else path)
      in GetFilePath h (GetFilePath h path))"

definition resolve_match :: "path_host \<Rightarrow> string \<Rightarrow> string \<Rightarrow> string result" where
  "resolve_match h m resolved =
     (let candidate = match_root h m
      in if resolved \<noteq> [] \<and> candidate \<noteq> resolved
         then Inl (BinderException ''dataset root matches multiple datasets'')
         else Inr candidate)"

definition ResolveLerobotRoot :: "path_host \<Rightarrow> string \<Rightarrow> string result" where
  "ResolveLerobotRoot h root =
     (case NormalizeLerobotRoot root of
        Inl e \<Rightarrow> Inl e
      | Inr normalized \<Rightarrow>
          let expanded = ExpandPath h normalized
          in if IsQualifiedRoot h expanded then Inr expanded
             else
               let local_root = JoinPath h (WorkingDirectory h) expanded
               in if GetFileSearchPath h = [] then Inr local_root
                  else
                    let matches = GlobFiles h (expanded @ ''/meta/info.json'')
                    in if matches = [] then Inr local_root
                       else foldE (resolve_match h) matches [])"

lemma resolve_matches:
  assumes "foldE (resolve_match h) ms r = Inr r'" and "\<forall>m \<in> set ms. match_root h m \<noteq> []"
  shows "(\<forall>m \<in> set ms. match_root h m = r') \<and> (r \<noteq> [] \<longrightarrow> r' = r) \<and> (ms = [] \<longrightarrow> r' = r)"
  using assms
proof (induction ms arbitrary: r)
  case Nil
  then show ?case by simp
next
  case (Cons m ms)
  then show ?case
    by (auto simp: resolve_match_def Let_def split: if_splits)
qed

section \<open>Cache keys\<close>

definition AppendCacheComponent :: "string \<Rightarrow> string \<Rightarrow> string" where
  "AppendCacheComponent key v = key @ to_string (length v) @ '':'' @ v"

definition append_components :: "string \<Rightarrow> string list \<Rightarrow> string" where
  "append_components key vs = foldl AppendCacheComponent key vs"

definition hex_digits :: string where "hex_digits = ''0123456789abcdef''"

definition hex_byte :: "char \<Rightarrow> string" where
  "hex_byte b = [hex_digits ! (of_char b div 16), hex_digits ! (of_char b mod 16)]"

definition CacheDigest :: "path_host \<Rightarrow> string \<Rightarrow> string" where
  "CacheDigest h input = concat (map hex_byte (SHA256 h input))"

definition secret_relevant :: "bool \<Rightarrow> string \<Rightarrow> secret \<Rightarrow> bool" where
  "secret_relevant lance_only root s \<longleftrightarrow>
     (if lance_only then secret_type s = ''lance''
      else secret_type s \<in> {''s3'', ''r2'', ''gcs'', ''aws''}) \<and>
     list_ex (\<lambda>scope. prefix scope root \<or> prefix (root @ ''/'') scope) (secret_scope s)"

definition secret_components :: "secret \<Rightarrow> string list" where
  "secret_components s =
     [storage_mode s, secret_type s, secret_name s, secret_provider s,
      to_string (length (secret_scope s))] @ secret_scope s @
     concat (map (\<lambda>(k, t, v). [k, t, v]) (secret_map s))"

definition encode_secret :: "secret \<Rightarrow> string" where
  "encode_secret s = append_components [] (secret_components s)"

definition StorageSecretsCacheKey :: "path_host \<Rightarrow> string \<Rightarrow> bool \<Rightarrow> string" where
  "StorageSecretsCacheKey h root lance_only =
     append_components []
       (sort (map (\<lambda>s. CacheDigest h (encode_secret s))
          (filter (secret_relevant lance_only root) (AllSecrets h))))"

definition LanceStorageCacheKey :: "path_host \<Rightarrow> string \<Rightarrow> string" where
  "LanceStorageCacheKey h root =
     (if \<not> lance_loaded h then []
      else let secrets = StorageSecretsCacheKey h root True
           in if secrets = [] then [] else '',lance_access='' @ CacheDigest h secrets)"

definition s3_settings :: "string list" where
  "s3_settings =
     [''s3_endpoint'', ''s3_region'', ''s3_url_style'', ''s3_use_ssl'', ''s3_access_key_id'',
      ''s3_secret_access_key'', ''s3_session_token'', ''s3_kms_key_id'', ''s3_requester_pays'',
      ''s3_url_compatibility_mode'', ''enable_global_s3_configuration'']"

definition setting_components :: "path_host \<Rightarrow> string \<Rightarrow> string list" where
  "setting_components h name =
     (case CurrentSetting h name of
        (None, v) \<Rightarrow> [''unset'', v]
      | (Some scope, v) \<Rightarrow> [to_string scope, v])"

definition S3StorageCacheKey :: "path_host \<Rightarrow> string \<Rightarrow> string" where
  "S3StorageCacheKey h root =
     (if \<not> list_ex (\<lambda>p. prefix p root)
            [''s3://'', ''s3a://'', ''s3n://'', ''r2://'', ''gcs://'', ''gs://'']
      then []
      else
        let key = append_components ''lerobot_s3_access_v1''
                    (concat (map (setting_components h) s3_settings))
        in '',s3_access='' @ CacheDigest h (key @ StorageSecretsCacheKey h root False))"

definition LerobotRootCacheKey :: "path_host \<Rightarrow> string \<Rightarrow> string result" where
  "LerobotRootCacheKey h root =
     (case NormalizeLerobotRoot root of
        Inl e \<Rightarrow> Inl e
      | Inr normalized \<Rightarrow>
          let expanded = ExpandPath h normalized
          in if IsQualifiedRoot h expanded
             then Inr (ToSQLString h expanded @ S3StorageCacheKey h expanded @
                       LanceStorageCacheKey h expanded)
             else
               let local_root = JoinPath h (WorkingDirectory h) expanded;
                   key = ToSQLString h local_root @ LanceStorageCacheKey h local_root;
                   search_path = GetFileSearchPath h
               in Inr (if search_path = [] then key
                       else foldl (\<lambda>key path.
                              let search_root = ExpandPath h path
                              in key @ '','' @ ToSQLString h search_root @
                                 LanceStorageCacheKey h (JoinPath h search_root expanded))
                            key (SplitComma h search_path)))"

text \<open>The length prefixes make a list of components uniquely readable from its encoding.\<close>

lemma append_components_Nil [simp]: "append_components key [] = key"
  by (simp add: append_components_def)

lemma append_components_key: "append_components key vs = key @ append_components [] vs"
proof (induction vs arbitrary: key)
  case (Cons v vs)
  show ?case
    using Cons [of "AppendCacheComponent key v"] Cons [of "AppendCacheComponent [] v"]
    by (simp add: append_components_def AppendCacheComponent_def)
qed simp

lemma append_components_Cons:
  "append_components [] (v # vs) = to_string (length v) @ CHR '':'' # v @ append_components [] vs"
  using append_components_key [of "AppendCacheComponent [] v" vs]
  by (simp add: append_components_def AppendCacheComponent_def)

lemma colon_not_digit: "CHR '':'' \<notin> set (to_string n)"
  using to_string_digits [of "CHR '':''" n] by (auto simp: is_digit_def less_eq_char_def)

lemma append_eq_append_sep:
  "c \<notin> set xs \<Longrightarrow> c \<notin> set ys \<Longrightarrow> xs @ c # us = ys @ c # vs \<longleftrightarrow> xs = ys \<and> us = vs"
  by (induction xs arbitrary: ys) (case_tac ys; auto)+

lemma append_components_inj: "append_components [] us = append_components [] vs \<Longrightarrow> us = vs"
proof (induction us arbitrary: vs)
  case Nil
  then show ?case
    by (cases vs) (auto simp: append_components_Cons)
next
  case (Cons u us)
  then obtain v vs' where vs: "vs = v # vs'"
    by (cases vs) (auto simp: append_components_Cons)
  with Cons.prems have "to_string (length u) @ CHR '':'' # u @ append_components [] us =
      to_string (length v) @ CHR '':'' # v @ append_components [] vs'"
    by (simp add: append_components_Cons)
  then have "length u = length v" and eq: "u @ append_components [] us = v @ append_components [] vs'"
    by (simp_all add: append_eq_append_sep colon_not_digit)
  from eq this(1) have "u = v" and "append_components [] us = append_components [] vs'"
    by simp_all
  with Cons.IH vs show ?case by blast
qed

lemma concat_triples_inj:
  "concat (map (\<lambda>(k, t, v). [k, t, v]) xs) = concat (map (\<lambda>(k, t, v). [k, t, v]) ys) \<Longrightarrow> xs = ys"
proof (induction xs arbitrary: ys)
  case Nil
  then show ?case by (cases ys) auto
next
  case (Cons x xs)
  then show ?case by (cases x; cases ys) auto
qed

lemma encode_secret_inj: "encode_secret s = encode_secret t \<Longrightarrow> s = t"
proof -
  assume "encode_secret s = encode_secret t"
  then have eq: "secret_components s = secret_components t"
    unfolding encode_secret_def by (rule append_components_inj)
  then have "length (secret_scope s) = length (secret_scope t)"
    by (simp add: secret_components_def)
  with eq show "s = t"
    by (cases s; cases t) (auto simp: secret_components_def dest: concat_triples_inj)
qed

lemma hex_byte_inj: "hex_byte a = hex_byte b \<Longrightarrow> a = b"
proof -
  assume eq: "hex_byte a = hex_byte b"
  have lt: "(of_char a :: nat) < 256" "(of_char b :: nat) < 256"
    by (simp_all add: of_char_eq_iff)
  have "distinct hex_digits" "length hex_digits = 16"
    by (simp_all add: hex_digits_def)
  then have "\<And>i j. i < 16 \<Longrightarrow> j < 16 \<Longrightarrow> hex_digits ! i = hex_digits ! j \<Longrightarrow> i = j"
    by (simp add: nth_eq_iff_index_eq)
  with eq lt have "(of_char a :: nat) div 16 = of_char b div 16"
    "(of_char a :: nat) mod 16 = of_char b mod 16"
    by (auto simp: hex_byte_def less_mult_imp_div_less)
  then have "(of_char a :: nat) = of_char b"
    by (metis div_mult_mod_eq)
  then show "a = b" by simp
qed

lemma concat_hex_inj: "concat (map hex_byte xs) = concat (map hex_byte ys) \<Longrightarrow> xs = ys"
proof (induction xs arbitrary: ys)
  case Nil
  then show ?case by (cases ys) (auto simp: hex_byte_def)
next
  case (Cons x xs)
  then obtain y ys' where ys: "ys = y # ys'" by (cases ys) (auto simp: hex_byte_def)
  have "length (hex_byte x) = length (hex_byte y)" by (simp add: hex_byte_def)
  with Cons.prems ys
  have "hex_byte x = hex_byte y" "concat (map hex_byte xs) = concat (map hex_byte ys')"
    by simp_all
  with Cons.IH ys hex_byte_inj show ?case by blast
qed

lemma CacheDigest_inj: "CacheDigest h a = CacheDigest h b \<longleftrightarrow> SHA256 h a = SHA256 h b"
  by (auto simp: CacheDigest_def dest: concat_hex_inj)

section \<open>Properties\<close>


text \<open>\<open>NormalizeLerobotRoot\<close> throws exactly on an all-blank root; otherwise its result is the root
  with ASCII blanks removed at both ends and trailing slashes removed, it is not empty, does not
  start with a blank and does not end in a slash unless it is the file system root itself.
\<close>
lemma normalize_root_shape:
  "(case NormalizeLerobotRoot root of
      Inl e \<Rightarrow> e = BinderException ''dataset root must not be empty'' \<and> list_all ascii_space root
    | Inr r \<Rightarrow> r \<noteq> [] \<and> \<not> ascii_space (hd r) \<and> (last r = CHR ''/'') = (r = ''/'') \<and>
        (\<exists>pre n post. root = pre @ r @ replicate n (CHR ''/'') @ post \<and>
           list_all ascii_space pre \<and> list_all ascii_space post))"
proof (cases "NormalizeLerobotRoot root")
  case (Inl e)
  then show ?thesis using NormalizeLerobotRoot_Inl [of root e] by simp
next
  case (Inr r)
  show ?thesis using NormalizeLerobotRoot_Inr [OF Inr] unfolding Inr by auto
qed

text \<open>\<open>NormalizeLerobotRoot\<close> is not idempotent: a slash removed after a blank exposes the blank. The
  table functions normalise the root they are given and \<open>ResolveLerobotRoot\<close> normalises it again, so
  the root \<open>"data /"\<close> (a directory whose name ends in a blank) is resolved as \<open>"data"\<close>.
\<close>
lemma normalize_root_not_idempotent:
  "NormalizeLerobotRoot ''data /'' = Inr ''data '' \<and> NormalizeLerobotRoot ''data '' = Inr ''data''"
  by code_simp

text \<open>A local root that is looked up in several search directories resolves to one dataset: if
  \<open>ResolveLerobotRoot\<close> returns, every glob match belongs to the returned directory, and two matches in
  different directories make it throw. (\<open>GetFilePath\<close> of a match is never the empty path.)
\<close>
lemma resolved_root_unique:
  assumes "NormalizeLerobotRoot root = Inr r"
    and "\<not> IsQualifiedRoot h (ExpandPath h r)" and "GetFileSearchPath h \<noteq> []"
    and "GlobFiles h (ExpandPath h r @ ''/meta/info.json'') = ms" and "ms \<noteq> []"
    and "\<forall>m \<in> set ms. match_root h m \<noteq> []"
  shows "(\<forall>p. ResolveLerobotRoot h root = Inr p \<longleftrightarrow> (\<forall>m \<in> set ms. match_root h m = p))"
proof -
  have eq: "ResolveLerobotRoot h root = foldE (resolve_match h) ms []"
    using assms by (simp add: ResolveLerobotRoot_def Let_def)
  have "foldE (resolve_match h) ms q = Inr p"
    if "\<forall>m \<in> set ms. match_root h m = p" "q = [] \<or> q = p" "ms = [] \<longrightarrow> q = p" for ms p q
    using that by (induction ms arbitrary: q) (auto simp: resolve_match_def)
  with resolve_matches [of h ms "[]"] assms(5,6) eq show ?thesis
    by (metis (no_types, lifting))
qed

definition example_host :: path_host where
  "example_host =
     \<lparr>IsPathAbsolute = (\<lambda>p. prefix ''/'' p), ExpandPath = (\<lambda>p. p), JoinPath = (\<lambda>a b. a @ ''/'' @ b),
      GetFilePath = (\<lambda>p. rev (tl (dropWhile (\<lambda>c. c \<noteq> CHR ''/'') (rev p)))),
      WorkingDirectory = ''/w'', GlobFiles = (\<lambda>p. [''/a/d/meta/info.json'']),
      file_search_path = Some ''/a'', ToSQLString = (\<lambda>s. s), SplitComma = (\<lambda>s. [s]),
      SHA256 = (\<lambda>s. s), lance_loaded = True,
      AllSecrets = [\<lparr>storage_mode = ''m'', secret_type = ''lance'', secret_name = ''n'',
        secret_provider = ''p'', secret_scope = [''/w''], secret_map = []\<rparr>],
      CurrentSetting = (\<lambda>s. (None, ''NULL''))\<rparr>"

lemma example_host_match: "match_root example_host ''/a/d/meta/info.json'' = ''/a/d''"
  by code_simp

lemma resolved_root_unique_witness:
  "ResolveLerobotRoot example_host ''d'' = Inr ''/a/d''"
proof -
  have "NormalizeLerobotRoot ''d'' = Inr ''d''"
    by code_simp
  then have "\<forall>p. ResolveLerobotRoot example_host ''d'' = Inr p \<longleftrightarrow>
      (\<forall>m \<in> set [''/a/d/meta/info.json'']. match_root example_host m = p)"
    by (rule resolved_root_unique)
       (simp_all add: example_host_match,
        simp_all add: example_host_def IsQualifiedRoot_def GetFileSearchPath_def, code_simp)
  then show ?thesis by (simp add: example_host_match)
qed

text \<open>The secrets part of a cache key separates access configurations: with a digest that does not
  collide on the secrets involved, two hosts have the same key for a root only if exactly the same
  secrets (type, name, provider, scopes and every value) overlap the dataset, whatever order the
  secret manager lists them in.
\<close>
lemma secrets_cache_key_separates:
  assumes "StorageSecretsCacheKey h root lance_only = StorageSecretsCacheKey h' root lance_only"
    and "SHA256 h' = SHA256 h"
    and "inj_on (SHA256 h) (encode_secret ` (set (AllSecrets h) \<union> set (AllSecrets h')))"
  shows "mset (filter (secret_relevant lance_only root) (AllSecrets h)) =
         mset (filter (secret_relevant lance_only root) (AllSecrets h'))"
proof -
  let ?d = "\<lambda>s. CacheDigest h (encode_secret s)"
  let ?S = "filter (secret_relevant lance_only root) (AllSecrets h)"
  let ?S' = "filter (secret_relevant lance_only root) (AllSecrets h')"
  have "CacheDigest h' = CacheDigest h" using assms(2) by (simp add: CacheDigest_def fun_eq_iff)
  with assms(1) have "sort (map ?d ?S) = sort (map ?d ?S')"
    by (auto simp: StorageSecretsCacheKey_def dest: append_components_inj)
  then have "mset (map ?d ?S) = mset (map ?d ?S')" by (metis mset_sort)
  then have "image_mset ?d (mset ?S) = image_mset ?d (mset ?S')" by simp
  moreover have "inj_on ?d (set_mset (mset ?S) \<union> set_mset (mset ?S'))"
    using assms(3) by (auto simp: inj_on_def CacheDigest_inj dest: encode_secret_inj)
  ultimately have "mset ?S = mset ?S'"
    using image_mset_eq_image_mset_plusD [of ?d "mset ?S" "mset ?S'" "{#}"] by auto
  then show ?thesis .
qed

lemma secrets_cache_key_separates_witness:
  "StorageSecretsCacheKey example_host ''/w'' True =
     StorageSecretsCacheKey (example_host\<lparr>lance_loaded := False\<rparr>) ''/w'' True \<and>
   mset (filter (secret_relevant True ''/w'') (AllSecrets example_host)) =
     mset (filter (secret_relevant True ''/w'') (AllSecrets (example_host\<lparr>lance_loaded := False\<rparr>)))"
proof -
  have k: "StorageSecretsCacheKey example_host ''/w'' True =
     StorageSecretsCacheKey (example_host\<lparr>lance_loaded := False\<rparr>) ''/w'' True"
    by (simp add: StorageSecretsCacheKey_def CacheDigest_def)
  show ?thesis
    using k secrets_cache_key_separates [OF k] by (simp add: example_host_def inj_on_def encode_secret_inj)
qed

end
