(* ===== verification/Templates.thy ===== *)
theory Templates
  imports Paths
begin

text \<open>
  Text formats that a dataset's paths and metadata use: the path templates of \<open>info.json\<close> as the
  reader expands them (\<open>src/storage/lerobot_metadata_cache.cpp\<close>: \<open>FormatDecimal\<close>,
  \<open>FormatPathTemplate\<close>, \<open>ResolveDataPath\<close>, \<open>ResolveVideoPath\<close>), SQL identifiers
  (\<open>QuoteIdentifier\<close>), and the file names and JSON strings as the writer produces them
  (\<open>src/function/copy/lerobot_copy.cpp\<close>: \<open>PadIndex\<close>, \<open>DataRelativePath\<close>,
  \<open>EpisodesRelativePath\<close>, \<open>VideoRelativePath\<close>, \<open>AdvanceFileIndex\<close>, \<open>JsonEscape\<close>).
  The lemmas connect both sides: what the writer names, the reader's templates expand to.
\<close>

section \<open>Path templates\<close>

fun parse_width :: "string \<Rightarrow> nat \<Rightarrow> nat result" where
  "parse_width [] width = Inr width"
| "parse_width (ch # cs) width =
     (if \<not> is_digit ch then Inl (BinderException ''Unsupported path format specifier'')
      else if width > 1000 then Inl (BinderException ''path format width is too large'')
      else parse_width cs (width * 10 + digit_val ch))"

definition FormatDecimal :: "int \<Rightarrow> string \<Rightarrow> string result" where
  "FormatDecimal v format_spec =
     (if v < 0 then Inl (BinderException ''index must be non-negative'')
      else
        let res = to_string_int v
        in if format_spec = [] then Inr res
           else if last format_spec \<noteq> CHR ''d''
             then Inl (BinderException ''Unsupported path format specifier'')
           else
             let width_spec = butlast format_spec
             in if width_spec = [] then Inr res
                else (case parse_width width_spec 0 of
                        Inl e \<Rightarrow> Inl e
                      | Inr width \<Rightarrow>
                          if width > 1000 then Inl (BinderException ''path format width is too large'')
                          else if width \<le> length res then Inr res
                          else
                            let fill = (if width_spec ! 0 = CHR ''0'' then CHR ''0'' else CHR '' '')
                            in Inr (replicate (width - length res) fill @ res)))"

definition expand_placeholder :: "int \<Rightarrow> int \<Rightarrow> string option \<Rightarrow> string \<Rightarrow> string result" where
  "expand_placeholder chunk_index file_index video_key placeholder =
     (let field_name = takeWhile (\<lambda>c. c \<noteq> CHR '':'') placeholder;
          format_spec = (case dropWhile (\<lambda>c. c \<noteq> CHR '':'') placeholder of [] \<Rightarrow> [] | _ # spec \<Rightarrow> spec)
      in if field_name = ''chunk_index'' then FormatDecimal chunk_index format_spec
         else if field_name = ''file_index'' then FormatDecimal file_index format_spec
         else (case (field_name = ''video_key'', video_key) of
                 (True, Some key) \<Rightarrow>
                   if format_spec \<noteq> []
                   then Inl (BinderException ''Unsupported path format specifier for video_key'')
                   else Inr key
               | _ \<Rightarrow> Inl (BinderException ''Unsupported placeholder'')))"

definition prepend :: "string \<Rightarrow> string result \<Rightarrow> string result" where
  "prepend t r = (case r of Inl e \<Rightarrow> Inl e | Inr s \<Rightarrow> Inr (t @ s))"

function FormatPathTemplate :: "string \<Rightarrow> int \<Rightarrow> int \<Rightarrow> string option \<Rightarrow> string result" where
  "FormatPathTemplate [] chunk_index file_index video_key = Inr []"
| "FormatPathTemplate (ch # rest) chunk_index file_index video_key =
     (if ch = CHR ''{'' then
        (if rest \<noteq> [] \<and> hd rest = CHR ''{''
         then prepend [CHR ''{''] (FormatPathTemplate (tl rest) chunk_index file_index video_key)
         else (case dropWhile (\<lambda>c. c \<noteq> CHR ''}'') rest of
                 [] \<Rightarrow> Inl (BinderException ''Unclosed placeholder'')
               | _ # after \<Rightarrow>
                   (case expand_placeholder chunk_index file_index video_key
                           (takeWhile (\<lambda>c. c \<noteq> CHR ''}'') rest) of
                      Inl e \<Rightarrow> Inl e
                    | Inr t \<Rightarrow> prepend t (FormatPathTemplate after chunk_index file_index video_key))))
      else if ch = CHR ''}'' then
        (if rest \<noteq> [] \<and> hd rest = CHR ''}''
         then prepend [CHR ''}''] (FormatPathTemplate (tl rest) chunk_index file_index video_key)
         else Inl (BinderException ''Unmatched closing brace''))
      else prepend [ch] (FormatPathTemplate rest chunk_index file_index video_key))"
  by pat_completeness auto
termination
proof (relation "measure (\<lambda>(t, c, f, k). length t)", goal_cases)
  case (3 ch rest chunk_index file_index video_key a after)
  then show ?case
    using length_dropWhile_le [of "\<lambda>c. c \<noteq> CHR ''}''" rest] by simp
qed (auto simp: less_Suc_eq_le)

declare FormatPathTemplate.simps(2) [simp del]

definition ResolveDatasetPath ::
  "(string \<Rightarrow> string) \<Rightarrow> string \<Rightarrow> string \<Rightarrow> int \<Rightarrow> int \<Rightarrow> string option \<Rightarrow> string result" where
  "ResolveDatasetPath lower root path_template chunk_index file_index video_key =
     (case FormatPathTemplate path_template chunk_index file_index video_key of
        Inl e \<Rightarrow> Inl e
      | Inr relative_path \<Rightarrow> ResolveLerobotRelativePath lower root relative_path)"

definition ResolveDataPath ::
  "(string \<Rightarrow> string) \<Rightarrow> string \<Rightarrow> string \<Rightarrow> int \<Rightarrow> int \<Rightarrow> string result" where
  "ResolveDataPath lower root path_template chunk_index file_index =
     ResolveDatasetPath lower root path_template chunk_index file_index None"

definition ResolveVideoPath ::
  "(string \<Rightarrow> string) \<Rightarrow> string \<Rightarrow> string \<Rightarrow> string \<Rightarrow> int \<Rightarrow> int \<Rightarrow> string result" where
  "ResolveVideoPath lower root path_template video_key chunk_index file_index =
     ResolveDatasetPath lower root path_template chunk_index file_index (Some video_key)"

subsection \<open>Templates as sequences of segments\<close>

text \<open>
  What a template means: literal characters and fields. \<open>print_segments\<close> writes it in the format
  language (a brace is doubled), \<open>render_segments\<close> is its expansion.
\<close>

datatype segment = Lit char | ChunkField "string option" | FileField "string option" | KeyField

definition spec_text :: "string option \<Rightarrow> string" where
  "spec_text spec = (case spec of None \<Rightarrow> [] | Some s \<Rightarrow> CHR '':'' # s)"

fun print_segment :: "segment \<Rightarrow> string" where
  "print_segment (Lit c) = (if c = CHR ''{'' \<or> c = CHR ''}'' then [c, c] else [c])"
| "print_segment (ChunkField spec) = ''{chunk_index'' @ spec_text spec @ ''}''"
| "print_segment (FileField spec) = ''{file_index'' @ spec_text spec @ ''}''"
| "print_segment KeyField = ''{video_key}''"

fun render_segment :: "int \<Rightarrow> int \<Rightarrow> string \<Rightarrow> segment \<Rightarrow> string result" where
  "render_segment c f key (Lit ch) = Inr [ch]"
| "render_segment c f key (ChunkField spec) = FormatDecimal c (case spec of None \<Rightarrow> [] | Some s \<Rightarrow> s)"
| "render_segment c f key (FileField spec) = FormatDecimal f (case spec of None \<Rightarrow> [] | Some s \<Rightarrow> s)"
| "render_segment c f key KeyField = Inr key"

fun print_segments :: "segment list \<Rightarrow> string" where
  "print_segments [] = []"
| "print_segments (s # ss) = print_segment s @ print_segments ss"

fun render_segments :: "int \<Rightarrow> int \<Rightarrow> string \<Rightarrow> segment list \<Rightarrow> string result" where
  "render_segments c f key [] = Inr []"
| "render_segments c f key (s # ss) =
     (case render_segment c f key s of
        Inl e \<Rightarrow> Inl e
      | Inr t \<Rightarrow> prepend t (render_segments c f key ss))"

fun spec_ok :: "segment \<Rightarrow> bool" where
  "spec_ok (ChunkField (Some s)) = (CHR ''}'' \<notin> set s)"
| "spec_ok (FileField (Some s)) = (CHR ''}'' \<notin> set s)"
| "spec_ok _ = True"

lemma takeWhile_sep: "c \<notin> set xs \<Longrightarrow> takeWhile (\<lambda>x. x \<noteq> c) (xs @ c # ys) = xs"
  by (induction xs) auto

lemma dropWhile_sep: "c \<notin> set xs \<Longrightarrow> dropWhile (\<lambda>x. x \<noteq> c) (xs @ c # ys) = c # ys"
  by (induction xs) auto

lemma takeWhile_no_sep: "c \<notin> set xs \<Longrightarrow> takeWhile (\<lambda>x. x \<noteq> c) xs = xs"
  by (induction xs) auto

lemma dropWhile_no_sep: "c \<notin> set xs \<Longrightarrow> dropWhile (\<lambda>x. x \<noteq> c) xs = []"
  by (induction xs) auto

lemmas sep_simps = takeWhile_sep dropWhile_sep takeWhile_no_sep dropWhile_no_sep

lemma expand_field:
  assumes "CHR '':'' \<notin> set name"
  shows "expand_placeholder c f key (name @ spec_text spec) =
    (let s = (case spec of None \<Rightarrow> [] | Some s \<Rightarrow> s)
     in if name = ''chunk_index'' then FormatDecimal c s
        else if name = ''file_index'' then FormatDecimal f s
        else (case (name = ''video_key'', key) of
                 (True, Some key) \<Rightarrow>
                   if s \<noteq> []
                   then Inl (BinderException ''Unsupported path format specifier for video_key'')
                   else Inr key
               | _ \<Rightarrow> Inl (BinderException ''Unsupported placeholder'')))"
  using assms
  by (cases spec) (simp_all add: expand_placeholder_def spec_text_def sep_simps Let_def)

lemma format_placeholder:
  assumes "CHR ''}'' \<notin> set p" and "p \<noteq> []" and "hd p \<noteq> CHR ''{''"
  shows "FormatPathTemplate (CHR ''{'' # p @ CHR ''}'' # rest) c f key =
    (case expand_placeholder c f key p of
       Inl e \<Rightarrow> Inl e | Inr t \<Rightarrow> prepend t (FormatPathTemplate rest c f key))"
  using assms by (simp add: FormatPathTemplate.simps sep_simps)

lemma format_literal:
  "FormatPathTemplate (print_segment (Lit ch) @ rest) c f key =
     prepend [ch] (FormatPathTemplate rest c f key)"
  by (simp add: FormatPathTemplate.simps)

lemma field_chars:
  "CHR ''}'' \<notin> set ''chunk_index''" "CHR ''}'' \<notin> set ''file_index''" "CHR ''}'' \<notin> set ''video_key''"
  "CHR '':'' \<notin> set ''chunk_index''" "CHR '':'' \<notin> set ''file_index''" "CHR '':'' \<notin> set ''video_key''"
  by code_simp+

lemma format_field:
  assumes "CHR ''}'' \<notin> set name" and "CHR '':'' \<notin> set name" and "name \<noteq> []" and "hd name \<noteq> CHR ''{''"
    and "case spec of None \<Rightarrow> True | Some s \<Rightarrow> CHR ''}'' \<notin> set s"
  shows "FormatPathTemplate ((CHR ''{'' # name @ spec_text spec @ ''}'') @ rest) c f key =
    (case expand_placeholder c f key (name @ spec_text spec) of
       Inl e \<Rightarrow> Inl e | Inr t \<Rightarrow> prepend t (FormatPathTemplate rest c f key))"
proof -
  have "CHR ''}'' \<notin> set (name @ spec_text spec)"
    using assms(1,5) by (cases spec) (auto simp: spec_text_def)
  from format_placeholder [OF this, of rest c f key] assms(3,4) show ?thesis by simp
qed

lemma format_segment:
  assumes "spec_ok s"
  shows "FormatPathTemplate (print_segment s @ rest) c f (Some key) =
    (case render_segment c f key s of
       Inl e \<Rightarrow> Inl e | Inr t \<Rightarrow> prepend t (FormatPathTemplate rest c f (Some key)))"
proof (cases s)
  case (Lit ch)
  then show ?thesis using format_literal by simp
next
  case (ChunkField spec)
  with assms have "case spec of None \<Rightarrow> True | Some s \<Rightarrow> CHR ''}'' \<notin> set s"
    by (cases spec) auto
  from format_field [OF field_chars(1) field_chars(4) _ _ this, of rest c f "Some key"]
  show ?thesis
    by (simp add: ChunkField expand_field [OF field_chars(4), simplified] Let_def)
next
  case (FileField spec)
  with assms have "case spec of None \<Rightarrow> True | Some s \<Rightarrow> CHR ''}'' \<notin> set s"
    by (cases spec) auto
  from format_field [OF field_chars(2) field_chars(5) _ _ this, of rest c f "Some key"]
  show ?thesis
    by (simp add: FileField expand_field [OF field_chars(5), simplified] Let_def)
next
  case KeyField
  from format_field [OF field_chars(3) field_chars(6), of None rest c f "Some key"]
  show ?thesis
    using expand_field [OF field_chars(6), of c f "Some key" None]
    by (simp add: KeyField spec_text_def)
qed

lemma format_segments:
  "list_all spec_ok ss \<Longrightarrow>
     FormatPathTemplate (print_segments ss) c f (Some key) = render_segments c f key ss"
  by (induction ss) (simp_all add: format_segment split: sum.splits)

lemma format_segment_no_key:
  assumes "spec_ok s" and "s \<noteq> KeyField"
  shows "FormatPathTemplate (print_segment s @ rest) c f None =
    (case render_segment c f key s of
       Inl e \<Rightarrow> Inl e | Inr t \<Rightarrow> prepend t (FormatPathTemplate rest c f None))"
proof (cases s)
  case (Lit ch)
  then show ?thesis using format_literal by simp
next
  case (ChunkField spec)
  with assms have "case spec of None \<Rightarrow> True | Some s \<Rightarrow> CHR ''}'' \<notin> set s"
    by (cases spec) auto
  from format_field [OF field_chars(1) field_chars(4) _ _ this, of rest c f None]
  show ?thesis
    by (simp add: ChunkField expand_field [OF field_chars(4), simplified] Let_def)
next
  case (FileField spec)
  with assms have "case spec of None \<Rightarrow> True | Some s \<Rightarrow> CHR ''}'' \<notin> set s"
    by (cases spec) auto
  from format_field [OF field_chars(2) field_chars(5) _ _ this, of rest c f None]
  show ?thesis
    by (simp add: FileField expand_field [OF field_chars(5), simplified] Let_def)
qed (use assms in simp)

lemma format_segments_no_key:
  "list_all (\<lambda>s. spec_ok s \<and> s \<noteq> KeyField) ss \<Longrightarrow>
     FormatPathTemplate (print_segments ss) c f None = render_segments c f key ss"
  by (induction ss) (simp_all add: format_segment_no_key [where key = key] split: sum.splits)

subsection \<open>Formatted numbers\<close>

definition decimal_spec :: "nat \<Rightarrow> string" where
  "decimal_spec w = CHR ''0'' # to_string w @ ''d''"

lemma foldl_digits_mono: "(w::nat) \<le> foldl (\<lambda>n c. 10 * n + digit_val c) w cs"
proof (induction cs arbitrary: w)
  case (Cons c cs)
  have "w \<le> 10 * w + digit_val c" by simp
  also have "\<dots> \<le> foldl (\<lambda>n c. 10 * n + digit_val c) (10 * w + digit_val c) cs" by (rule Cons)
  finally show ?case by simp
qed simp

lemma parse_width_digits:
  assumes "list_all is_digit cs" and "foldl (\<lambda>n c. 10 * n + digit_val c) w cs \<le> 1000"
  shows "parse_width cs w = Inr (foldl (\<lambda>n c. 10 * n + digit_val c) w cs)"
  using assms
proof (induction cs arbitrary: w)
  case (Cons c cs)
  from Cons.prems(2) foldl_digits_mono [of "10 * w + digit_val c" cs] have "w \<le> 1000" by simp
  with Cons show ?case by (simp add: mult.commute)
qed simp

lemma decimal_spec_width: "w \<le> 1000 \<Longrightarrow> parse_width (CHR ''0'' # to_string w) 0 = Inr w"
proof -
  assume w: "w \<le> 1000"
  have "list_all is_digit (CHR ''0'' # to_string w)"
    by (auto simp: list_all_iff is_digit_def less_eq_char_def dest: to_string_digits)
  moreover have "foldl (\<lambda>n c. 10 * n + digit_val c) 0 (CHR ''0'' # to_string w) = w"
    using parse_nat_zeros [of 1 "to_string w"] parse_to_string [of w]
    unfolding parse_nat_def by simp
  ultimately show ?thesis using w parse_width_digits by metis
qed

lemma FormatDecimal_padded:
  assumes "w \<le> 1000"
  shows "FormatDecimal (int n) (decimal_spec w) =
    Inr (replicate (w - length (to_string n)) (CHR ''0'') @ to_string n)"
proof -
  have b: "butlast (decimal_spec w) = CHR ''0'' # to_string w"
    by (simp add: decimal_spec_def butlast_append)
  have l: "last (decimal_spec w) = CHR ''d''" by (simp add: decimal_spec_def)
  show ?thesis
    using assms unfolding FormatDecimal_def Let_def b l decimal_spec_width [OF assms]
    by (simp add: to_string_int_def decimal_spec_def del: parse_width.simps)
qed

section \<open>File names of the writer\<close>

definition PadIndex :: "nat \<Rightarrow> string" where
  "PadIndex v = replicate (3 - length (to_string v)) (CHR ''0'') @ to_string v"

definition DataRelativePath :: "nat \<Rightarrow> nat \<Rightarrow> string" where
  "DataRelativePath chunk_index file_index =
     ''data/chunk-'' @ PadIndex chunk_index @ ''/file-'' @ PadIndex file_index @ ''.parquet''"

definition EpisodesRelativePath :: "nat \<Rightarrow> nat \<Rightarrow> string" where
  "EpisodesRelativePath chunk_index file_index =
     ''meta/episodes/chunk-'' @ PadIndex chunk_index @ ''/file-'' @ PadIndex file_index @ ''.parquet''"

definition VideoRelativePath :: "string \<Rightarrow> nat \<Rightarrow> nat \<Rightarrow> string" where
  "VideoRelativePath video_key chunk_index file_index =
     ''videos/'' @ video_key @ ''/chunk-'' @ PadIndex chunk_index @ ''/file-'' @ PadIndex file_index @
     ''.mp4''"

definition FrameFileName :: "nat \<Rightarrow> bool \<Rightarrow> string" where
  "FrameFileName frame_index depth =
     ''frame-'' @ replicate (6 - length (to_string frame_index)) (CHR ''0'') @ to_string frame_index @
     (if depth then ''.tiff'' else ''.png'')"

definition LEROBOT_DATA_PATH :: string where
  "LEROBOT_DATA_PATH = ''data/chunk-{chunk_index:03d}/file-{file_index:03d}.parquet''"

definition LEROBOT_VIDEO_PATH :: string where
  "LEROBOT_VIDEO_PATH = ''videos/{video_key}/chunk-{chunk_index:03d}/file-{file_index:03d}.mp4''"

definition AdvanceFileIndex :: "nat \<Rightarrow> nat \<times> nat \<Rightarrow> nat \<times> nat" where
  "AdvanceFileIndex chunk_size index =
     (let (chunk_index, file_index) = index;
          last_index = (if chunk_size = 0 then IDX_MAX else chunk_size - 1)
      in if file_index = last_index then (chunk_index + 1, 0) else (chunk_index, file_index + 1))"

lemma PadIndex_format: "FormatDecimal (int n) ''03d'' = Inr (PadIndex n)"
proof -
  have "''03d'' = decimal_spec 3" by code_simp
  then show ?thesis by (simp add: FormatDecimal_padded PadIndex_def)
qed

lemma PadIndex_inj [simp]: "PadIndex m = PadIndex n \<longleftrightarrow> m = n"
  unfolding PadIndex_def by (metis parse_nat_zeros parse_to_string)

lemma PadIndex_digits: "c \<in> set (PadIndex n) \<Longrightarrow> is_digit c"
  by (auto simp: PadIndex_def is_digit_def less_eq_char_def split: if_splits dest: to_string_digits)

lemma render_chars:
  "render_segments c f key (map Lit s @ ss) = prepend s (render_segments c f key ss)"
  by (induction s) (auto simp: prepend_def split: sum.splits)

lemma print_chars:
  "CHR ''{'' \<notin> set s \<Longrightarrow> CHR ''}'' \<notin> set s \<Longrightarrow>
     print_segments (map Lit s @ ss) = s @ print_segments ss"
  by (induction s) auto

definition data_segments :: "segment list" where
  "data_segments = map Lit ''data/chunk-'' @ ChunkField (Some ''03d'') # map Lit ''/file-'' @
     FileField (Some ''03d'') # map Lit ''.parquet''"

definition video_segments :: "segment list" where
  "video_segments = map Lit ''videos/'' @ KeyField # map Lit ''/chunk-'' @ ChunkField (Some ''03d'') #
     map Lit ''/file-'' @ FileField (Some ''03d'') # map Lit ''.mp4''"

lemma print_data_segments: "print_segments data_segments = LEROBOT_DATA_PATH"
  by code_simp

lemma print_video_segments: "print_segments video_segments = LEROBOT_VIDEO_PATH"
  by code_simp

lemma segments_ok: "list_all spec_ok data_segments" "list_all spec_ok video_segments"
  by code_simp+

lemma render_literal: "render_segments c f key (map Lit s) = Inr s"
  using render_chars [of c f key s "[]"] by (simp add: prepend_def)

lemma data_segments_expand:
  "render_segments (int c) (int f) key data_segments = Inr (DataRelativePath c f)"
  unfolding data_segments_def
  by (simp only: render_chars render_segments.simps render_segment.simps option.case PadIndex_format
      sum.case render_literal prepend_def DataRelativePath_def append_assoc)

lemma video_segments_expand:
  "render_segments (int c) (int f) key video_segments = Inr (VideoRelativePath key c f)"
  unfolding video_segments_def
  by (simp only: render_chars render_segments.simps render_segment.simps option.case PadIndex_format
      sum.case render_literal prepend_def VideoRelativePath_def append_assoc)

lemma data_path_expands:
  "FormatPathTemplate LEROBOT_DATA_PATH (int c) (int f) (Some key) = Inr (DataRelativePath c f)"
  using format_segments [OF segments_ok(1), of "int c" "int f" key]
  unfolding print_data_segments data_segments_expand .

lemma video_path_expands:
  "FormatPathTemplate LEROBOT_VIDEO_PATH (int c) (int f) (Some key) = Inr (VideoRelativePath key c f)"
  using format_segments [OF segments_ok(2), of "int c" "int f" key]
  unfolding print_video_segments video_segments_expand .

lemma data_segments_no_key: "list_all (\<lambda>s. spec_ok s \<and> s \<noteq> KeyField) data_segments"
  by code_simp

lemma data_path_expands_no_key:
  "FormatPathTemplate LEROBOT_DATA_PATH (int c) (int f) None = Inr (DataRelativePath c f)"
  using format_segments_no_key [OF data_segments_no_key, of "int c" "int f" "[]"]
  unfolding print_data_segments data_segments_expand .

subsection \<open>The writer's paths are relative paths the reader accepts\<close>

text \<open>The characters of the names the writer makes, and what is relied on of \<open>StringUtil::Lower\<close>.\<close>

definition plain_char :: "char \<Rightarrow> bool" where
  "plain_char ch \<longleftrightarrow> (CHR ''a'' \<le> ch \<and> ch \<le> CHR ''z'') \<or> is_digit ch \<or> ch = CHR ''-''"

definition lower_keeps_plain :: "(string \<Rightarrow> string) \<Rightarrow> bool" where
  "lower_keeps_plain lower \<longleftrightarrow> (\<forall>s. list_all plain_char s \<longrightarrow> lower s = s)"

lemma plain_char_allowed:
  assumes "plain_char ch"
  shows "ch \<notin> set forbidden_chars" "\<not> ((of_char ch :: nat) < 32 \<or> of_char ch = (127 :: nat))"
    "ch \<noteq> CHR ''.''" "ch \<noteq> CHR '' ''" "ch \<noteq> CHR ''/''"
  using assms
  by (auto simp: plain_char_def is_digit_def forbidden_chars_def less_eq_char_def)

lemma plain_digit: "is_digit ch \<Longrightarrow> plain_char ch"
  by (simp add: plain_char_def)

lemma plain_PadIndex: "list_all plain_char (PadIndex n)"
  by (auto simp: list_all_iff plain_digit PadIndex_digits)

lemma strip_trailing_plain: "list_all plain_char s \<Longrightarrow> strip_trailing (CHR '' '') s = s"
proof (cases s rule: rev_cases)
  case (snoc ys y)
  assume "list_all plain_char s"
  with snoc have "y \<noteq> CHR '' ''" using plain_char_allowed by auto
  with snoc show ?thesis by (simp add: strip_trailing_def)
qed (simp add: strip_trailing_def)

lemma plain_component_portable:
  assumes low: "lower_keeps_plain lower"
    and stem: "list_all plain_char stem" and ext: "list_all plain_char ext"
    and head: "take 2 stem = [a, b]" "[a, b] \<notin> {''co'', ''pr'', ''au'', ''nu'', ''lp''}"
    and comp: "c = stem \<or> c = stem @ CHR ''.'' # ext \<and> ext \<noteq> []"
  shows "IsPortablePathComponent lower c"
proof -
  have stem2: "\<exists>rest. stem = a # b # rest"
    using head(1) by (cases stem; cases "tl stem") auto
  have "CHR ''.'' \<notin> set stem" "CHR ''.'' \<notin> set ext"
    using stem ext plain_char_allowed(3) unfolding list_all_iff by blast+
  then have tw: "takeWhile (\<lambda>x. x \<noteq> CHR ''.'') c = stem"
    using comp by (auto simp: sep_simps)
  have base: "strip_trailing (CHR '' '') (lower stem) = stem"
    using low stem strip_trailing_plain by (simp add: lower_keeps_plain_def)
  have lastp: "plain_char (last c)"
    using comp stem ext stem2 unfolding list_all_iff by (metis last.simps last_appendR last_in_set list.distinct(1))
  have chars: "x \<in> set c \<Longrightarrow> plain_char x \<or> x = CHR ''.''" for x
    using comp stem ext unfolding list_all_iff by auto
  have dot: "CHR ''.'' \<notin> set forbidden_chars" by code_simp
  have 1: "\<not> list_ex (\<lambda>x. x \<in> set forbidden_chars) c"
    unfolding list_ex_iff using chars plain_char_allowed(1) dot by metis
  have 2: "\<not> list_ex (\<lambda>ch. of_char ch < (32::nat) \<or> of_char ch = (127::nat)) c"
    unfolding list_ex_iff using chars plain_char_allowed(2) by fastforce
  have l: "last c \<noteq> CHR ''.''" "last c \<noteq> CHR '' ''"
    using plain_char_allowed(3,4) [OF lastp] by blast+
  have 3: "c \<noteq> []" using comp stem2 by auto
  have 5: "c \<noteq> ''.''" "c \<noteq> ''..''" using l(1) by auto
  have 4: "stem \<notin> {''con'', ''prn'', ''aux'', ''nul'', ''conin$'', ''conout$''}"
    "\<not> prefix ''com'' stem" "\<not> prefix ''lpt'' stem"
    using stem2 head(2) by auto
  show ?thesis
    unfolding IsPortablePathComponent_def Let_def tw base using 1 2 3 4 5 l by auto
qed

lemma plain_names:
  "list_all plain_char ''data''" "list_all plain_char ''videos''" "list_all plain_char ''parquet''"
  "list_all plain_char ''mp4''" "list_all plain_char ''chunk-''" "list_all plain_char ''file-''"
  by code_simp+

lemma plain_portable:
  assumes "lower_keeps_plain lower"
  shows "IsPortablePathComponent lower ''data''" "IsPortablePathComponent lower ''videos''"
    "IsPortablePathComponent lower (''chunk-'' @ PadIndex n)"
    "IsPortablePathComponent lower (''file-'' @ PadIndex n @ ''.parquet'')"
    "IsPortablePathComponent lower (''file-'' @ PadIndex n @ ''.mp4'')"
proof -
  note comp = plain_component_portable [OF assms]
  have stems: "list_all plain_char (''chunk-'' @ PadIndex n)" "list_all plain_char (''file-'' @ PadIndex n)"
    using plain_names plain_PadIndex by (simp_all only: list_all_append)
  show "IsPortablePathComponent lower ''data''"
    by (rule comp [OF plain_names(1) plain_names(1), where a = "CHR ''d''" and b = "CHR ''a''"]) simp_all
  show "IsPortablePathComponent lower ''videos''"
    by (rule comp [OF plain_names(2) plain_names(2), where a = "CHR ''v''" and b = "CHR ''i''"]) simp_all
  show "IsPortablePathComponent lower (''chunk-'' @ PadIndex n)"
    by (rule comp [OF stems(1) plain_names(1), where a = "CHR ''c''" and b = "CHR ''h''"]) simp_all
  show "IsPortablePathComponent lower (''file-'' @ PadIndex n @ ''.parquet'')"
    by (rule comp [OF stems(2) plain_names(3), where a = "CHR ''f''" and b = "CHR ''i''"]) simp_all
  show "IsPortablePathComponent lower (''file-'' @ PadIndex n @ ''.mp4'')"
    by (rule comp [OF stems(2) plain_names(4), where a = "CHR ''f''" and b = "CHR ''i''"]) simp_all
qed

lemma no_slash_plain: "list_all plain_char s \<Longrightarrow> CHR ''/'' \<notin> set s"
  using plain_char_allowed(5) unfolding list_all_iff by blast

lemma portable_no_slash: "IsPortablePathComponent lower c \<Longrightarrow> CHR ''/'' \<notin> set c"
  using portable_component_chars [of lower c "CHR ''/''"] by (auto simp: forbidden_chars_def)

lemma split_components:
  "list_all (IsPortablePathComponent lower) cs \<Longrightarrow> cs \<noteq> [] \<Longrightarrow>
     split_on (CHR ''/'') (concat (map (\<lambda>c. c @ ''/'') (butlast cs)) @ last cs) = cs"
proof (induction cs)
  case (Cons c cs)
  show ?case
  proof (cases "cs = []")
    case True
    with Cons show ?thesis by (simp add: split_on_no_sep portable_no_slash)
  next
    case False
    have "CHR ''/'' \<notin> set c" using Cons.prems(1) by (auto dest: portable_no_slash)
    from split_on_append [OF this] Cons False show ?thesis by simp
  qed
qed simp

lemma resolve_components:
  assumes "list_all (IsPortablePathComponent lower) cs" and "cs \<noteq> []"
  shows "ResolveLerobotRelativePath lower root (concat (map (\<lambda>c. c @ ''/'') (butlast cs)) @ last cs) =
    Inr (root @ ''/'' @ concat (map (\<lambda>c. c @ ''/'') (butlast cs)) @ last cs)"
proof -
  have "check_components lower (concat (map (\<lambda>c. c @ ''/'') (butlast cs)) @ last cs) = Inr ()"
    unfolding check_components_iff split_components [OF assms] by (rule assms(1))
  then show ?thesis by (simp add: ResolveLerobotRelativePath_def)
qed

lemma resolve_data_path:
  assumes "lower_keeps_plain lower"
  shows "ResolveDataPath lower root LEROBOT_DATA_PATH (int c) (int f) =
    Inr (root @ ''/'' @ DataRelativePath c f)"
proof -
  let ?cs = "[''data'', ''chunk-'' @ PadIndex c, ''file-'' @ PadIndex f @ ''.parquet'']"
  have "list_all (IsPortablePathComponent lower) ?cs"
    using plain_portable [OF assms] by (simp only: list.pred_inject simp_thms)
  from resolve_components [OF this, of root] show ?thesis
    by (simp add: ResolveDataPath_def ResolveDatasetPath_def data_path_expands_no_key DataRelativePath_def)
qed

lemma resolve_video_path:
  assumes "lower_keeps_plain lower" and "IsPortablePathComponent lower key"
  shows "ResolveVideoPath lower root LEROBOT_VIDEO_PATH key (int c) (int f) =
    Inr (root @ ''/'' @ VideoRelativePath key c f)"
proof -
  let ?cs = "[''videos'', key, ''chunk-'' @ PadIndex c, ''file-'' @ PadIndex f @ ''.mp4'']"
  have "list_all (IsPortablePathComponent lower) ?cs"
    using plain_portable [OF assms(1)] assms(2) by (simp only: list.pred_inject simp_thms)
  from resolve_components [OF this, of root] show ?thesis
    by (simp add: ResolveVideoPath_def ResolveDatasetPath_def video_path_expands VideoRelativePath_def)
qed

subsection \<open>Shards are numbered without repetition\<close>

lemma AdvanceFileIndex_iterate:
  assumes "0 < chunk_size"
  shows "(AdvanceFileIndex chunk_size ^^ n) (0, 0) = (n div chunk_size, n mod chunk_size)"
proof (induction n)
  case (Suc n)
  have "n mod chunk_size < chunk_size" using assms by simp
  with Suc assms show ?case
    by (auto simp: AdvanceFileIndex_def div_Suc mod_Suc)
qed simp

lemma FileName_inj:
  assumes "a @ PadIndex c @ b @ PadIndex f @ e = a @ PadIndex c' @ b @ PadIndex f' @ e"
    and "b = CHR ''/'' # b'"
  shows "c = c' \<and> f = f'"
proof -
  have "CHR ''/'' \<notin> set (PadIndex n)" for n
    using plain_PadIndex no_slash_plain by blast
  with assms show ?thesis by (simp add: append_eq_append_sep)
qed

lemma DataRelativePath_inj: "DataRelativePath c f = DataRelativePath c' f' \<longleftrightarrow> c = c' \<and> f = f'"
  using FileName_inj [of "''data/chunk-''" c "''/file-''" f "''.parquet''" c' f' "''file-''"]
  by (auto simp: DataRelativePath_def)

lemma VideoRelativePath_inj:
  assumes "CHR ''/'' \<notin> set k" and "CHR ''/'' \<notin> set k'"
  shows "VideoRelativePath k c f = VideoRelativePath k' c' f' \<longleftrightarrow> k = k' \<and> c = c' \<and> f = f'"
proof
  assume eq: "VideoRelativePath k c f = VideoRelativePath k' c' f'"
  then have k: "k = k'"
    using append_eq_append_sep [OF assms] by (simp add: VideoRelativePath_def)
  with eq FileName_inj [of "''videos/'' @ k @ ''/chunk-''" c "''/file-''" f "''.mp4''" c' f' "''file-''"]
  show "k = k' \<and> c = c' \<and> f = f'" by (simp add: VideoRelativePath_def)
qed simp

section \<open>SQL identifiers\<close>

definition QuoteIdentifier :: "string \<Rightarrow> string" where
  "QuoteIdentifier ident =
     CHR 0x22 # concat (map (\<lambda>ch. if ch = CHR 0x22 then [CHR 0x22, ch] else [ch]) ident) @ [CHR 0x22]"

text \<open>The SQL lexer on a quoted identifier: its name and the text after it.\<close>

fun lex_quoted :: "string \<Rightarrow> (string \<times> string) option" where
  "lex_quoted [] = None"
| "lex_quoted [c] = (if c = CHR 0x22 then Some ([], []) else None)"
| "lex_quoted (c # d # rest) =
     (if c = CHR 0x22 then
        (if d = CHR 0x22 then map_option (\<lambda>(name, r). (c # name, r)) (lex_quoted rest)
         else Some ([], d # rest))
      else map_option (\<lambda>(name, r). (c # name, r)) (lex_quoted (d # rest)))"

definition lex_identifier :: "string \<Rightarrow> (string \<times> string) option" where
  "lex_identifier s = (case s of [] \<Rightarrow> None | c # rest \<Rightarrow> if c = CHR 0x22 then lex_quoted rest else None)"

lemma lex_quoted_end:
  "rest = [] \<or> hd rest \<noteq> CHR 0x22 \<Longrightarrow> lex_quoted (CHR 0x22 # rest) = Some ([], rest)"
  by (cases rest) auto

lemma lex_quoted_char: "c \<noteq> CHR 0x22 \<Longrightarrow> lex_quoted (c # rest) = map_option (\<lambda>(name, r). (c # name, r)) (lex_quoted rest)"
  by (cases rest) auto

lemma lex_quoted_body:
  assumes "rest = [] \<or> hd rest \<noteq> CHR 0x22"
  shows "lex_quoted (concat (map (\<lambda>ch. if ch = CHR 0x22 then [CHR 0x22, ch] else [ch]) ident) @
    CHR 0x22 # rest) = Some (ident, rest)"
proof (induction ident)
  case Nil
  show ?case using lex_quoted_end [OF assms] by simp
next
  case (Cons c ident)
  then show ?case by (cases "c = CHR 0x22") (simp_all add: lex_quoted_char)
qed

lemma lex_QuoteIdentifier:
  "rest = [] \<or> hd rest \<noteq> CHR 0x22 \<Longrightarrow> lex_identifier (QuoteIdentifier ident @ rest) = Some (ident, rest)"
  using lex_quoted_body [of rest ident] by (simp add: lex_identifier_def QuoteIdentifier_def)

definition IsV3Version :: "string \<Rightarrow> bool" where
  "IsV3Version version \<longleftrightarrow>
     version = ''v3'' \<or> version = ''3'' \<or> prefix ''v3.'' version \<or> prefix ''3.'' version"

section \<open>JSON strings\<close>

definition json_char :: "char \<Rightarrow> string" where
  "json_char ch =
     (if ch = CHR 0x22 then [CHR 0x5C, CHR 0x22]
      else if ch = CHR 0x5C then [CHR 0x5C, CHR 0x5C]
      else if ch = CHR 0x08 then [CHR 0x5C, CHR ''b'']
      else if ch = CHR 0x0C then [CHR 0x5C, CHR ''f'']
      else if ch = CHR 0x0A then [CHR 0x5C, CHR ''n'']
      else if ch = CHR 0x0D then [CHR 0x5C, CHR ''r'']
      else if ch = CHR 0x09 then [CHR 0x5C, CHR ''t'']
      else if of_char ch < (0x20 :: nat) then CHR 0x5C # ''u00'' @ hex_byte ch
      else [ch])"

definition JsonEscape :: "string \<Rightarrow> string" where
  "JsonEscape input = CHR 0x22 # concat (map json_char input) @ [CHR 0x22]"

text \<open>
  A JSON reader on a string literal, after RFC 8259: the raw control characters are refused, the
  escapes are decoded (\<open>\u\<close> only for the code points below 128, the only ones a byte stands for).
\<close>

definition hex_value :: "char \<Rightarrow> nat option" where
  "hex_value c =
     (if is_digit c then Some (of_char c - 48)
      else if CHR ''a'' \<le> c \<and> c \<le> CHR ''f'' then Some (of_char c - 87)
      else if CHR ''A'' \<le> c \<and> c \<le> CHR ''F'' then Some (of_char c - 55)
      else None)"

definition hex4 :: "string \<Rightarrow> nat option" where
  "hex4 ds =
     (case map hex_value ds of
        [Some a, Some b, Some c, Some d] \<Rightarrow> Some (((a * 16 + b) * 16 + c) * 16 + d)
      | _ \<Rightarrow> None)"

definition unescape :: "char \<Rightarrow> char option" where
  "unescape e =
     (if e = CHR 0x22 \<or> e = CHR 0x5C \<or> e = CHR ''/'' then Some e
      else if e = CHR ''b'' then Some (CHR 0x08)
      else if e = CHR ''f'' then Some (CHR 0x0C)
      else if e = CHR ''n'' then Some (CHR 0x0A)
      else if e = CHR ''r'' then Some (CHR 0x0D)
      else if e = CHR ''t'' then Some (CHR 0x09)
      else None)"

function read_json_chars :: "string \<Rightarrow> (string \<times> string) option" where
  "read_json_chars [] = None"
| "read_json_chars (c # rest) =
     (if c = CHR 0x22 then Some ([], rest)
      else if c = CHR 0x5C then
        (case rest of
           [] \<Rightarrow> None
         | e # rest' \<Rightarrow>
             if e = CHR ''u'' then
               (case hex4 (take 4 rest') of
                  None \<Rightarrow> None
                | Some n \<Rightarrow> if n < 128 then map_option (\<lambda>(t, r). (char_of n # t, r)) (read_json_chars (drop 4 rest'))
                            else None)
             else (case unescape e of
                     None \<Rightarrow> None
                   | Some ch \<Rightarrow> map_option (\<lambda>(t, r). (ch # t, r)) (read_json_chars rest')))
      else if of_char c < (0x20 :: nat) then None
      else map_option (\<lambda>(t, r). (c # t, r)) (read_json_chars rest))"
  by pat_completeness auto
termination by (relation "measure length") auto

declare read_json_chars.simps(2) [simp del]

definition read_json_string :: "string \<Rightarrow> (string \<times> string) option" where
  "read_json_string s = (case s of [] \<Rightarrow> None | c # rest \<Rightarrow> if c = CHR 0x22 then read_json_chars rest else None)"

lemma hex_byte_decode:
  assumes "(of_char ch :: nat) < 32"
  shows "hex4 (''00'' @ hex_byte ch) = Some (of_char ch)"
proof -
  have v: "hex_value (hex_digits ! d) = Some d" if "d < 16" for d
  proof -
    have "list_all (\<lambda>d. hex_value (hex_digits ! d) = Some d) [0 ..< 16]"
      by code_simp
    with that show ?thesis unfolding list_all_iff by simp
  qed
  have z: "hex_value (CHR ''0'') = Some 0" by code_simp
  have "(of_char ch :: nat) div 16 < 16" "(of_char ch :: nat) mod 16 < 16"
    using assms by simp_all
  then show ?thesis by (simp add: hex4_def hex_byte_def z v)
qed

lemma read_json_char: "read_json_chars (json_char ch @ rest) = map_option (\<lambda>(t, r). (ch # t, r)) (read_json_chars rest)"
proof -
  have u: "unescape (CHR 0x22) = Some (CHR 0x22)" "unescape (CHR 0x5C) = Some (CHR 0x5C)"
    "unescape (CHR ''b'') = Some (CHR 0x08)" "unescape (CHR ''f'') = Some (CHR 0x0C)"
    "unescape (CHR ''n'') = Some (CHR 0x0A)" "unescape (CHR ''r'') = Some (CHR 0x0D)"
    "unescape (CHR ''t'') = Some (CHR 0x09)"
    by code_simp+
  have h: "(of_char ch :: nat) < 32 \<Longrightarrow> hex4 (take 4 (''00'' @ hex_byte ch @ rest)) = Some (of_char ch)"
    "drop 4 (''00'' @ hex_byte ch @ rest) = rest"
    using hex_byte_decode by (simp_all add: hex_byte_def)
  show ?thesis
    unfolding json_char_def using h
    by (simp add: u read_json_chars.simps(2))
qed

lemma read_json_body: "read_json_chars (concat (map json_char s) @ CHR 0x22 # rest) = Some (s, rest)"
  by (induction s) (simp_all add: read_json_char read_json_chars.simps(2))

section \<open>Properties\<close>

text \<open>A path template means what its segments mean: expanding the printed form of any sequence of
  literal characters and \<open>chunk_index\<close>, \<open>file_index\<close>, \<open>video_key\<close> fields (braces of the literal
  text doubled) gives the concatenation of the literals and of the formatted fields, or the exception
  of the first field whose format specifier is not supported.
\<close>
lemma template_expansion:
  assumes "list_all spec_ok ss"
  shows "FormatPathTemplate (print_segments ss) c f (Some key) = render_segments c f key ss"
  using assms by (rule format_segments)

lemma template_expansion_witness:
  "list_all spec_ok [Lit (CHR ''{''), ChunkField (Some ''04d''), Lit (CHR ''}''), FileField None, KeyField] \<and>
   FormatPathTemplate ''{{{chunk_index:04d}}}{file_index}{video_key}'' 17 5 (Some ''cam'') =
     Inr ''{0017}5cam''"
proof -
  let ?ss = "[Lit (CHR ''{''), ChunkField (Some ''04d''), Lit (CHR ''}''), FileField None, KeyField]"
  have ok: "list_all spec_ok ?ss" by code_simp
  have p: "print_segments ?ss = ''{{{chunk_index:04d}}}{file_index}{video_key}''" by code_simp
  have r: "render_segments 17 5 ''cam'' ?ss = Inr ''{0017}5cam''" by code_simp
  from template_expansion [OF ok, of 17 5 "''cam''"] have
    "FormatPathTemplate ''{{{chunk_index:04d}}}{file_index}{video_key}'' 17 5 (Some ''cam'') =
      Inr ''{0017}5cam''"
    unfolding p r .
  with ok show ?thesis by (rule conjI)
qed

text \<open>
  C30. What \<open>COPY\<close> writes, the reader finds: with the templates that the writer stores in \<open>info.json\<close>,
  \<open>ResolveDataPath\<close> and \<open>ResolveVideoPath\<close> give exactly the relative paths the writer used for the
  shard of any chunk and file index and any feature name it accepts, below the dataset root, and never
  refuse them. (\<open>StringUtil::Lower\<close> leaves lower-case letters, digits and hyphens alone.)
\<close>
theorem writer_paths_resolve:
  assumes "lower_keeps_plain lower" and "ValidateLerobotFeatureName lower key = Inr ()"
  shows "ResolveDataPath lower root LEROBOT_DATA_PATH (int c) (int f) =
      Inr (root @ ''/'' @ DataRelativePath c f) \<and>
    ResolveVideoPath lower root LEROBOT_VIDEO_PATH key (int c) (int f) =
      Inr (root @ ''/'' @ VideoRelativePath key c f)"
proof -
  have "IsPortablePathComponent lower key"
    using assms(2) by (auto simp: ValidateLerobotFeatureName_def split: if_splits)
  with resolve_data_path [OF assms(1)] resolve_video_path [OF assms(1)] show ?thesis by blast
qed

theorem writer_paths_resolve_witness:
  "ResolveVideoPath (\<lambda>s. s) ''/data/set'' LEROBOT_VIDEO_PATH ''observation.images.top'' (int 0) (int 1234) =
     Inr ''/data/set/videos/observation.images.top/chunk-000/file-1234.mp4''"
proof -
  have v: "ValidateLerobotFeatureName (\<lambda>s. s) ''observation.images.top'' = Inr ()" by code_simp
  have l: "lower_keeps_plain (\<lambda>s. s)" by (simp add: lower_keeps_plain_def)
  have p: "''/data/set'' @ ''/'' @ VideoRelativePath ''observation.images.top'' 0 1234 =
      ''/data/set/videos/observation.images.top/chunk-000/file-1234.mp4''"
    by code_simp
  show ?thesis
    using writer_paths_resolve [OF l v, of "''/data/set''" 0 1234, THEN conjunct2] unfolding p .
qed

text \<open>Rotating files never reuses a name: after \<open>n\<close> calls of \<open>AdvanceFileIndex\<close> the writer is at
  chunk \<open>n div chunks_size\<close>, file \<open>n mod chunks_size\<close>, and different positions, and different video
  keys, have different relative paths, for any indices, the ones of more than three digits included.
\<close>
lemma shard_paths_distinct:
  assumes "0 < chunk_size" and "CHR ''/'' \<notin> set k" and "CHR ''/'' \<notin> set k'"
    and "(c, f) = (AdvanceFileIndex chunk_size ^^ m) (0, 0)"
    and "(c', f') = (AdvanceFileIndex chunk_size ^^ n) (0, 0)"
  shows "f < chunk_size \<and> c * chunk_size + f = m \<and>
    (DataRelativePath c f = DataRelativePath c' f' \<longleftrightarrow> m = n) \<and>
    (VideoRelativePath k c f = VideoRelativePath k' c' f' \<longleftrightarrow> k = k' \<and> m = n)"
proof -
  have 1: "c = m div chunk_size" "f = m mod chunk_size" "c' = n div chunk_size" "f' = n mod chunk_size"
    using assms(4,5) by (simp_all add: AdvanceFileIndex_iterate [OF assms(1)])
  then have "c = c' \<and> f = f' \<longleftrightarrow> m = n" by (metis div_mult_mod_eq)
  with 1 assms(1) show ?thesis
    by (simp add: DataRelativePath_inj VideoRelativePath_inj [OF assms(2,3)])
qed

lemma shard_paths_distinct_witness:
  "DataRelativePath 0 999 \<noteq> DataRelativePath 1 0"
proof -
  have a: "(AdvanceFileIndex 1000 ^^ n) (0, 0) = (n div 1000, n mod 1000)" for n
    by (rule AdvanceFileIndex_iterate) simp
  show ?thesis
    using shard_paths_distinct [of 1000 "[]" "[]" 0 999 999 1 0 1000] by (simp add: a)
qed

text \<open>A quoted identifier reads back as one identifier with the same name, whatever characters the
  name holds and whatever follows it in the statement (but another quotation mark).
\<close>
lemma quoted_identifier_roundtrip:
  assumes "rest = [] \<or> hd rest \<noteq> CHR 0x22"
  shows "lex_identifier (QuoteIdentifier ident @ rest) = Some (ident, rest)"
  using assms by (rule lex_QuoteIdentifier)

lemma quoted_identifier_roundtrip_witness:
  "lex_identifier (QuoteIdentifier [CHR 0x22, CHR '';''] @ '', x'') = Some ([CHR 0x22, CHR '';''], '', x'')"
  by (rule quoted_identifier_roundtrip) simp

text \<open>A string written into the JSON metadata by \<open>JsonEscape\<close> is a JSON string literal that reads back
  as the same bytes, and the reader continues right after it, for every byte string.
\<close>
lemma json_string_roundtrip:
  "read_json_string (JsonEscape s @ rest) = Some (s, rest)"
  using read_json_body [of s rest] by (simp add: read_json_string_def JsonEscape_def)

end
