(* ===== verification/Floats.thy ===== *)
theory Floats
  imports
    Prelude
    Complex_Main
    "HOL-Library.Log_Nat"
begin

text \<open>
  \<open>double\<close> and \<open>float\<close> values and the operations of IEEE 754 the sources apply to them, as executable
  definitions: a finite value is the rational number it denotes, an operation is the exact operation
  followed by rounding to the nearest representable number, ties to even (the rounding mode the
  process runs with). The two zeros are one value, since no source operation modelled here tells them
  apart. Functions of the C library without an exact result (\<open>pow\<close>, \<open>log\<close>, \<open>exp\<close>) are parameters
  where they occur.
\<close>

section \<open>Values\<close>

datatype fp = Fin rat | PInf | NInf | NaN

text \<open>\<open>rat_exponent x\<close> is the binary exponent of a non-zero number, rounded down.\<close>

definition rat_exponent :: "rat \<Rightarrow> int" where
  "rat_exponent x =
     (let (n, d) = quotient_of \<bar>x\<bar>;
          k = bitlen n - bitlen d
      in if 2 powi k \<le> \<bar>x\<bar> then k else k - 1)"

text \<open>Rounding to an integer, ties to even.\<close>

definition rne :: "rat \<Rightarrow> int" where
  "rne x =
     (let f = \<lfloor>x\<rfloor>; r = x - of_int f
      in if r < 1 / 2 then f else if 1 / 2 < r then f + 1 else if even f then f else f + 1)"

definition round_rat :: "nat \<Rightarrow> int \<Rightarrow> rat \<Rightarrow> rat" where
  "round_rat p emin x =
     (if x = 0 then 0
      else
        let e = max (rat_exponent x - int p + 1) emin
        in of_int (rne (x / 2 powi e)) * 2 powi e)"

definition overflow_to :: "int \<Rightarrow> rat \<Rightarrow> fp" where
  "overflow_to emax r =
     (if r \<noteq> 0 \<and> emax \<le> rat_exponent r then (if 0 < r then PInf else NInf) else Fin r)"

definition rnd64 :: "rat \<Rightarrow> fp" where
  "rnd64 x = overflow_to 1024 (round_rat 53 (-1074) x)"

definition rnd32 :: "rat \<Rightarrow> fp" where
  "rnd32 x = overflow_to 128 (round_rat 24 (-149) x)"

section \<open>Operations\<close>

fun fneg :: "fp \<Rightarrow> fp" where
  "fneg (Fin x) = Fin (- x)"
| "fneg PInf = NInf"
| "fneg NInf = PInf"
| "fneg NaN = NaN"

fun fabs :: "fp \<Rightarrow> fp" where
  "fabs (Fin x) = Fin \<bar>x\<bar>"
| "fabs NaN = NaN"
| "fabs _ = PInf"

fun add_with :: "(rat \<Rightarrow> fp) \<Rightarrow> fp \<Rightarrow> fp \<Rightarrow> fp" where
  "add_with rnd (Fin x) (Fin y) = rnd (x + y)"
| "add_with rnd NaN _ = NaN"
| "add_with rnd _ NaN = NaN"
| "add_with rnd PInf NInf = NaN"
| "add_with rnd NInf PInf = NaN"
| "add_with rnd PInf _ = PInf"
| "add_with rnd _ PInf = PInf"
| "add_with rnd NInf _ = NInf"
| "add_with rnd _ NInf = NInf"

definition inf_signed :: "bool \<Rightarrow> fp" where
  "inf_signed negative = (if negative then NInf else PInf)"

fun mul_with :: "(rat \<Rightarrow> fp) \<Rightarrow> fp \<Rightarrow> fp \<Rightarrow> fp" where
  "mul_with rnd (Fin x) (Fin y) = rnd (x * y)"
| "mul_with rnd NaN _ = NaN"
| "mul_with rnd _ NaN = NaN"
| "mul_with rnd (Fin x) PInf = (if x = 0 then NaN else inf_signed (x < 0))"
| "mul_with rnd (Fin x) NInf = (if x = 0 then NaN else inf_signed (0 < x))"
| "mul_with rnd PInf (Fin x) = (if x = 0 then NaN else inf_signed (x < 0))"
| "mul_with rnd NInf (Fin x) = (if x = 0 then NaN else inf_signed (0 < x))"
| "mul_with rnd PInf PInf = PInf"
| "mul_with rnd NInf NInf = PInf"
| "mul_with rnd _ _ = NInf"

text \<open>Division; by a zero it is taken as by \<open>+0\<close>.\<close>

fun div_with :: "(rat \<Rightarrow> fp) \<Rightarrow> fp \<Rightarrow> fp \<Rightarrow> fp" where
  "div_with rnd (Fin x) (Fin y) =
     (if y = 0 then (if x = 0 then NaN else inf_signed (x < 0)) else rnd (x / y))"
| "div_with rnd NaN _ = NaN"
| "div_with rnd _ NaN = NaN"
| "div_with rnd (Fin x) _ = Fin 0"
| "div_with rnd PInf (Fin y) = inf_signed (y < 0)"
| "div_with rnd NInf (Fin y) = inf_signed (0 \<le> y)"
| "div_with rnd _ _ = NaN"

definition dadd :: "fp \<Rightarrow> fp \<Rightarrow> fp" where "dadd = add_with rnd64"
definition dsub :: "fp \<Rightarrow> fp \<Rightarrow> fp" where "dsub x y = add_with rnd64 x (fneg y)"
definition dmul :: "fp \<Rightarrow> fp \<Rightarrow> fp" where "dmul = mul_with rnd64"
definition ddiv :: "fp \<Rightarrow> fp \<Rightarrow> fp" where "ddiv = div_with rnd64"
definition sadd :: "fp \<Rightarrow> fp \<Rightarrow> fp" where "sadd = add_with rnd32"
definition ssub :: "fp \<Rightarrow> fp \<Rightarrow> fp" where "ssub x y = add_with rnd32 x (fneg y)"
definition smul :: "fp \<Rightarrow> fp \<Rightarrow> fp" where "smul = mul_with rnd32"
definition sdiv :: "fp \<Rightarrow> fp \<Rightarrow> fp" where "sdiv = div_with rnd32"

text \<open>Comparisons: false when a NaN takes part.\<close>

fun flt :: "fp \<Rightarrow> fp \<Rightarrow> bool" where
  "flt (Fin x) (Fin y) = (x < y)"
| "flt NaN _ = False"
| "flt _ NaN = False"
| "flt NInf NInf = False"
| "flt NInf _ = True"
| "flt _ PInf = True"
| "flt _ _ = False"

definition feq :: "fp \<Rightarrow> fp \<Rightarrow> bool" where
  "feq x y \<longleftrightarrow> x \<noteq> NaN \<and> x = y"

definition fle :: "fp \<Rightarrow> fp \<Rightarrow> bool" where
  "fle x y \<longleftrightarrow> flt x y \<or> feq x y"

definition fis_finite :: "fp \<Rightarrow> bool" where
  "fis_finite x \<longleftrightarrow> (case x of Fin _ \<Rightarrow> True | _ \<Rightarrow> False)"

definition int_to_double :: "int \<Rightarrow> fp" where
  "int_to_double i = rnd64 (of_int i)"

text \<open>\<open>static_cast<float>\<close> of a double.\<close>

fun to_float :: "fp \<Rightarrow> fp" where
  "to_float (Fin x) = rnd32 x"
| "to_float x = x"

fun ffloor :: "fp \<Rightarrow> fp" where
  "ffloor (Fin x) = Fin (of_int \<lfloor>x\<rfloor>)"
| "ffloor x = x"

section \<open>Representable numbers\<close>

definition dyadic :: "nat \<Rightarrow> int \<Rightarrow> rat \<Rightarrow> bool" where
  "dyadic p emin x \<longleftrightarrow> (\<exists>m e. x = of_int m * 2 powi e \<and> \<bar>m\<bar> \<le> 2 ^ p \<and> emin \<le> e)"

definition is_double :: "rat \<Rightarrow> bool" where
  "is_double x \<longleftrightarrow> dyadic 53 (-1074) x \<and> \<bar>x\<bar> < 2 ^ 1024"

lemma rat_exponent_bounds:
  assumes "x \<noteq> 0"
  shows "2 powi (rat_exponent x) \<le> \<bar>x\<bar>" and "\<bar>x\<bar> < 2 powi (rat_exponent x + 1)"
proof -
  obtain n d where q: "quotient_of \<bar>x\<bar> = (n, d)" by (cases "quotient_of \<bar>x\<bar>")
  have d: "d > 0" using q quotient_of_denom_pos by blast
  have x: "\<bar>x\<bar> = of_int n / of_int d" using q by (rule quotient_of_div)
  have n: "n > 0"
  proof -
    have "(0::rat) < of_int n / of_int d" using assms x by (simp flip: x)
    with d show ?thesis by (simp add: zero_less_divide_iff)
  qed
  have pw: "(2::rat) powi (bitlen k - 1) \<le> of_int k \<and> of_int k < (2::rat) powi (bitlen k)" if k: "k > 0" for k
  proof -
    from bitlen_bounds [OF k] have bb: "(2::int) ^ nat (bitlen k - 1) \<le> k" "k < 2 ^ nat (bitlen k)" by auto
    have b: "bitlen k \<ge> 1"
    proof (rule ccontr)
      assume "\<not> 1 \<le> bitlen k"
      then have "nat (bitlen k) = 0" by simp
      with bb(2) k show False by simp
    qed
    note bb
    then have "(of_int ((2::int) ^ nat (bitlen k - 1)) :: rat) \<le> of_int k"
      "(of_int k :: rat) < of_int (2 ^ nat (bitlen k))"
      by (simp_all only: of_int_le_iff of_int_less_iff)
    with b show ?thesis by (simp add: power_int_def)
  qed
  let ?k = "bitlen n - bitlen d"
  have dp: "(0::rat) < of_int d" using d by simp
  have lo: "2 powi (?k - 1) \<le> \<bar>x\<bar>"
  proof -
    have "(2::rat) powi (?k - 1) * of_int d \<le> 2 powi (?k - 1) * 2 powi (bitlen d)"
      using pw [OF d] by (simp add: mult_left_mono less_imp_le)
    also have "\<dots> = 2 powi (bitlen n - 1)" by (simp flip: power_int_add)
    also have "\<dots> \<le> of_int n" using pw [OF n] by simp
    finally show ?thesis using dp x by (simp add: pos_le_divide_eq)
  qed
  have hi: "\<bar>x\<bar> < 2 powi (?k + 1)"
  proof -
    have "of_int n < (2::rat) powi (bitlen n)" using pw [OF n] by simp
    also have "\<dots> = 2 powi (?k + 1) * 2 powi (bitlen d - 1)" by (simp flip: power_int_add)
    also have "\<dots> \<le> 2 powi (?k + 1) * of_int d" using pw [OF d] by (simp add: mult_left_mono)
    finally show ?thesis using dp x by (simp add: pos_divide_less_eq)
  qed
  show "2 powi (rat_exponent x) \<le> \<bar>x\<bar>" "\<bar>x\<bar> < 2 powi (rat_exponent x + 1)"
    using lo hi by (simp_all add: rat_exponent_def q Let_def)
qed

lemma rat_exponent_less: "x \<noteq> 0 \<Longrightarrow> \<bar>x\<bar> < 2 powi k \<Longrightarrow> rat_exponent x < k"
proof -
  assume "x \<noteq> 0" "\<bar>x\<bar> < 2 powi k"
  with rat_exponent_bounds(1) [of x] have "(2::rat) powi (rat_exponent x) < 2 powi k" by simp
  then show ?thesis using power_int_increasing [of k "rat_exponent x" "2::rat"] by force
qed

lemma rne_of_int [simp]: "rne (of_int n) = n"
  by (simp add: rne_def)

text \<open>A rounding step leaves a representable number alone.\<close>

lemma dyadic_strict:
  assumes "dyadic p emin x" and "0 < p"
  obtains m e where "x = of_int m * 2 powi e" "\<bar>m\<bar> < 2 ^ p" "emin \<le> e"
proof -
  obtain m e where me: "x = of_int m * 2 powi e" "\<bar>m\<bar> \<le> 2 ^ p" "emin \<le> e"
    using assms(1) by (auto simp: dyadic_def)
  show thesis
  proof (cases "\<bar>m\<bar> < 2 ^ p")
    case True
    with me that show ?thesis by blast
  next
    case False
    with me(2) have m: "m = 2 ^ p \<or> m = - (2 ^ p)" by linarith
    obtain q where p: "p = Suc q" using assms(2) by (cases p) auto
    define k :: int where "k = (if m = 2 ^ p then 2 ^ q else - (2 ^ q))"
    have "m = 2 * k" using m p by (auto simp: k_def)
    then have "x = of_int k * 2 powi (e + 1)" using me(1) by (simp add: power_int_add)
    moreover have "\<bar>k\<bar> < 2 ^ p" by (simp add: k_def p)
    ultimately show ?thesis using me(3) by (intro that [of k "e + 1"]) auto
  qed
qed

lemma round_rat_exact:
  assumes "dyadic p emin x" and "0 < p"
  shows "round_rat p emin x = x"
proof (cases "x = 0")
  case True
  then show ?thesis by (simp add: round_rat_def)
next
  case False
  obtain m e where me: "x = of_int m * 2 powi e" "\<bar>m\<bar> < 2 ^ p" "emin \<le> e"
    using dyadic_strict [OF assms] by blast
  have "\<bar>x\<bar> = of_int \<bar>m\<bar> * 2 powi e" using me(1) by (simp add: abs_mult)
  also have "\<dots> < of_int (2 ^ p) * 2 powi e"
    using me(2) by (intro mult_strict_right_mono) (simp_all only: of_int_less_iff, simp)
  also have "\<dots> = 2 powi (int p + e)" by (simp add: power_int_add)
  finally have "rat_exponent x < int p + e" using False by (rule rat_exponent_less [rotated])
  then have le: "max (rat_exponent x - int p + 1) emin \<le> e" (is "?e \<le> e") using me(3) by simp
  have "x / 2 powi ?e = of_int m * 2 powi (e - ?e)" by (simp add: me(1) power_int_diff)
  also have "(2::rat) powi (e - ?e) = of_int (2 ^ nat (e - ?e))" using le by (simp add: power_int_def)
  finally have "x / 2 powi ?e = of_int (m * 2 ^ nat (e - ?e))" by simp
  then have "of_int (rne (x / 2 powi ?e)) = x / 2 powi ?e" by (simp only: rne_of_int)
  with False show ?thesis by (simp add: round_rat_def Let_def)
qed

lemma rnd64_exact: "is_double x \<Longrightarrow> rnd64 x = Fin x"
  using rat_exponent_less [of x 1024]
  by (force simp: rnd64_def is_double_def round_rat_exact overflow_to_def)

lemma dyadic_int: "\<bar>n\<bar> \<le> 2 ^ p \<Longrightarrow> emin \<le> 0 \<Longrightarrow> dyadic p emin (of_int n)"
  unfolding dyadic_def by (rule exI [of _ n], rule exI [of _ 0]) simp

lemma is_double_int: "\<bar>n\<bar> \<le> 2 ^ 53 \<Longrightarrow> is_double (of_int n)"
proof -
  assume n: "\<bar>n\<bar> \<le> 2 ^ 53"
  then have "(of_int \<bar>n\<bar> :: rat) \<le> of_int (2 ^ 53)" by (simp only: of_int_le_iff)
  also have "\<dots> < 2 ^ 1024" by simp
  finally have "\<bar>of_int n :: rat\<bar> < 2 ^ 1024" by simp
  with n show ?thesis by (simp add: is_double_def dyadic_int)
qed

lemma int_to_double_exact: "\<bar>n\<bar> \<le> 2 ^ 53 \<Longrightarrow> int_to_double n = Fin (of_int n)"
  by (simp add: int_to_double_def rnd64_exact is_double_int)

section \<open>Rounding errors\<close>

lemma rne_ge: "of_int n \<le> x \<Longrightarrow> n \<le> rne x"
proof -
  assume "of_int n \<le> x"
  then have "n \<le> \<lfloor>x\<rfloor>" by (simp add: le_floor_iff)
  then show ?thesis by (simp add: rne_def Let_def)
qed

lemma rne_le: "x \<le> of_int n \<Longrightarrow> rne x \<le> n"
proof (cases "x = of_int n")
  case False
  assume "x \<le> of_int n"
  with False have "\<lfloor>x\<rfloor> < n" by (simp add: floor_less_iff)
  then show ?thesis by (simp add: rne_def Let_def)
qed simp

lemma rne_error: "\<bar>of_int (rne x) - x\<bar> \<le> 1 / 2"
proof -
  define r where "r = x - of_int \<lfloor>x\<rfloor>"
  have "0 \<le> r" "r < 1" unfolding r_def by linarith+
  moreover have "x = of_int \<lfloor>x\<rfloor> + r" by (simp add: r_def)
  ultimately show ?thesis
    unfolding rne_def Let_def r_def [symmetric] by (simp add: abs_le_iff)
qed

lemma rne_unique: "\<bar>x - of_int n\<bar> < 1 / 2 \<Longrightarrow> rne x = n"
proof -
  assume "\<bar>x - of_int n\<bar> < 1 / 2"
  with rne_error [of x] have "\<bar>of_int (rne x) - of_int n :: rat\<bar> < 1" by linarith
  then have "\<bar>rne x - n\<bar> < 1" by (metis of_int_1 of_int_abs of_int_diff of_int_less_iff)
  then show ?thesis by simp
qed

lemma round_rat_error:
  assumes "x \<noteq> 0" and "2 powi (emin + int p - 1) \<le> \<bar>x\<bar>"
  shows "\<bar>round_rat p emin x - x\<bar> \<le> \<bar>x\<bar> * 2 powi (- int p)"
proof -
  have "emin + int p - 1 \<le> rat_exponent x"
  proof (rule ccontr)
    assume "\<not> ?thesis"
    then have "(2::rat) powi (rat_exponent x + 1) \<le> 2 powi (emin + int p - 1)"
      by (intro power_int_increasing) auto
    with assms(2) rat_exponent_bounds(2) [OF assms(1)] show False by linarith
  qed
  then have m: "max (rat_exponent x - int p + 1) emin = rat_exponent x - int p + 1" by simp
  let ?u = "(2::rat) powi (rat_exponent x - int p + 1)"
  have u: "?u > 0" by simp
  have "round_rat p emin x - x = (of_int (rne (x / ?u)) - x / ?u) * ?u"
    using assms(1) u by (simp add: round_rat_def m Let_def left_diff_distrib)
  then have "\<bar>round_rat p emin x - x\<bar> = \<bar>of_int (rne (x / ?u)) - x / ?u\<bar> * ?u"
    using u by (simp add: abs_mult)
  also have "\<dots> \<le> 1 / 2 * ?u" using rne_error u by (intro mult_right_mono) auto
  also have "?u = 2 powi (rat_exponent x) * 2 powi (- int p) * 2"
    using power_int_add [of "2::rat" "rat_exponent x" "- int p"]
      power_int_add [of "2::rat" "rat_exponent x - int p" 1] by simp
  also have "1 / 2 * (2 powi (rat_exponent x) * 2 powi (- int p) * 2) =
      (2::rat) powi (rat_exponent x) * 2 powi (- int p)" by simp
  also have "\<dots> \<le> \<bar>x\<bar> * 2 powi (- int p)"
    using rat_exponent_bounds(1) [OF assms(1)] by (intro mult_right_mono) auto
  finally show ?thesis .
qed

lemma rnd64_error:
  assumes "2 powi (- 1022) \<le> \<bar>x\<bar>" and "\<bar>x\<bar> \<le> 2 ^ 1000"
  obtains y where "rnd64 x = Fin y" and "\<bar>y - x\<bar> \<le> \<bar>x\<bar> / 2 ^ 53"
proof -
  let ?y = "round_rat 53 (-1074) x"
  have x: "x \<noteq> 0" using assms(1) by auto
  have a: "- 1074 + int 53 - 1 = - 1022" by simp
  have b: "\<bar>x\<bar> * 2 powi (- int 53) = \<bar>x\<bar> / 2 ^ 53"
    by (simp only: power_int_minus power_int_of_nat divide_inverse)
  have err: "\<bar>?y - x\<bar> \<le> \<bar>x\<bar> / 2 ^ 53"
    by (rule round_rat_error [OF x, of "- 1074" 53, unfolded a b, OF assms(1)])
  also have "\<dots> \<le> \<bar>x\<bar>" by simp
  finally have "\<bar>?y\<bar> \<le> 2 * \<bar>x\<bar>" by linarith
  also have "\<dots> \<le> 2 * 2 ^ 1000" using assms(2) by simp
  also have "\<dots> < 2 powi 1024" by simp
  finally have "?y \<noteq> 0 \<Longrightarrow> rat_exponent ?y < 1024" using rat_exponent_less by blast
  then have "rnd64 x = Fin ?y" by (auto simp: rnd64_def overflow_to_def)
  with err show thesis by (rule that [rotated])
qed

lemma rnd64_0 [simp]: "rnd64 0 = Fin 0"
  by (simp add: rnd64_def round_rat_def overflow_to_def)

lemma rnd64_half:
  assumes "1 / 2 \<le> x" and "x < 1"
  obtains y where "rnd64 x = Fin y" and "1 / 2 \<le> y" and "y \<le> 1"
proof -
  have x0: "x \<noteq> 0" using assms by simp
  have lt: "rat_exponent x < 0" by (rule rat_exponent_less) (use assms in auto)
  have "(2::rat) powi (-1) < 2 powi (rat_exponent x + 1)"
    using rat_exponent_bounds(2) [OF x0] assms by (simp add: power_int_minus)
  then have "- 1 < rat_exponent x + 1"
    using power_int_increasing [of "rat_exponent x + 1" "-1" "2::rat"] by force
  with lt have e: "rat_exponent x = - 1" by simp
  let ?n = "rne (x * 2 ^ 53)"
  have r: "round_rat 53 (-1074) x = of_int ?n / 2 ^ 53"
    using x0 by (simp add: round_rat_def e power_int_minus)
  have "(of_int (2 ^ 52) :: rat) \<le> x * 2 ^ 53" "x * 2 ^ 53 \<le> of_int (2 ^ 53)" using assms by simp_all
  then have n: "2 ^ 52 \<le> ?n" "?n \<le> 2 ^ 53" by (blast intro: rne_ge rne_le)+
  then have "(of_int (2 ^ 52) :: rat) \<le> of_int ?n" "(of_int ?n :: rat) \<le> of_int (2 ^ 53)"
    by (simp_all only: of_int_le_iff)
  then have b: "1 / 2 \<le> round_rat 53 (-1074) x" "round_rat 53 (-1074) x \<le> 1"
    by (simp_all add: r)
  then have "\<bar>round_rat 53 (-1074) x\<bar> < 2 powi 1024"
    by (auto intro: le_less_trans [of _ 1])
  then have "rat_exponent (round_rat 53 (-1074) x) < 1024"
    using b by (intro rat_exponent_less) auto
  then have "rnd64 x = Fin (round_rat 53 (-1074) x)"
    by (simp add: rnd64_def overflow_to_def)
  then show thesis using b by (rule that)
qed

section \<open>Truncation to integers\<close>

text \<open>
  \<open>static_cast<int64_t>\<close> of a double whose truncated value is in range; the sources check the range
  before the cast (the behaviour of C++ is undefined outside it, the model then gives \<open>INT64_MIN\<close>,
  the result of the x86 and ARM conversions on NaN).
\<close>

fun to_int64 :: "fp \<Rightarrow> int" where
  "to_int64 (Fin x) = (if x < 0 then - \<lfloor>- x\<rfloor> else \<lfloor>x\<rfloor>)"
| "to_int64 _ = INT64_MIN"

text \<open>\<open>std::fmod(x, 2.0) == 0.0\<close>: the remainder of the truncated division is exact.\<close>

fun fmod2_is_zero :: "fp \<Rightarrow> bool" where
  "fmod2_is_zero (Fin x) = (x = 2 * of_int (if x < 0 then - \<lfloor>- x / 2\<rfloor> else \<lfloor>x / 2\<rfloor>))"
| "fmod2_is_zero _ = False"

lemma to_int64_of_int [simp]: "to_int64 (Fin (of_int n)) = n"
  by (simp flip: of_int_minus)

lemma fmod2_of_int [simp]: "fmod2_is_zero (Fin (of_int n)) \<longleftrightarrow> even n"
proof -
  have half: "\<lfloor>(of_int m :: rat) / 2\<rfloor> = m div 2" for m :: int
    using floor_divide_of_int_eq [of m 2, where ?'a = rat] by simp
  have eq: "(of_int n :: rat) = 2 * of_int k \<longleftrightarrow> n = 2 * k" for k
    by (metis of_int_eq_iff of_int_mult of_int_numeral)
  have neg: "\<lfloor>- (of_int n :: rat) / 2\<rfloor> = (- n) div 2"
    using half [of "- n"] by (simp only: of_int_minus)
  have "fmod2_is_zero (Fin (of_int n)) \<longleftrightarrow>
      n = 2 * (if n < 0 then - ((- n) div 2) else n div 2)"
    unfolding fmod2_is_zero.simps neg half eq by (simp only: of_int_less_0_iff)
  also have "\<dots> \<longleftrightarrow> even n" by presburger
  finally show ?thesis .
qed

section \<open>Results of rounding are representable\<close>

lemma round_rat_dyadic: "dyadic p emin (round_rat p emin x)"
proof (cases "x = 0")
  case True
  then show ?thesis
    unfolding dyadic_def by (intro exI [of _ 0] exI [of _ emin]) (simp add: round_rat_def)
next
  case False
  define e where "e = max (rat_exponent x - int p + 1) emin"
  have u: "(0::rat) < 2 powi e" by simp
  have "\<bar>x\<bar> < 2 powi (rat_exponent x + 1)" by (rule rat_exponent_bounds(2) [OF False])
  also have "\<dots> \<le> 2 powi (int p + e)" by (rule power_int_increasing) (auto simp: e_def)
  also have "\<dots> = of_int (2 ^ p) * 2 powi e" by (simp add: power_int_add)
  finally have b: "\<bar>x\<bar> < of_int (2 ^ p) * 2 powi e" .
  then have "x < of_int (2 ^ p) * 2 powi e" "- (of_int (2 ^ p) * 2 powi e) < x" by linarith+
  then have "x / 2 powi e \<le> of_int (2 ^ p)" "of_int (- (2 ^ p)) \<le> x / 2 powi e"
    using u by (simp_all add: pos_divide_le_eq pos_le_divide_eq)
  then have "rne (x / 2 powi e) \<le> 2 ^ p" "- (2 ^ p) \<le> rne (x / 2 powi e)"
    by (blast intro: rne_le rne_ge)+
  then have "\<bar>rne (x / 2 powi e)\<bar> \<le> 2 ^ p" by linarith
  then show ?thesis
    unfolding dyadic_def
    by (intro exI [of _ "rne (x / 2 powi e)"] exI [of _ e]) (simp add: round_rat_def False Let_def e_def)
qed

lemma rnd64_dyadic: "rnd64 x = Fin y \<Longrightarrow> dyadic 53 (- 1074) y"
  using round_rat_dyadic [of 53 "- 1074" x] by (simp add: rnd64_def overflow_to_def split: if_splits)

end
