(* ===== verification/Schema.thy ===== *)
theory Schema
  imports Templates Floats
begin

text \<open>
  The types of dataset columns (\<open>src/function/lerobot_schema.cpp\<close>), the values and named parameters
  the table functions receive, the validation of depth quantisation parameters
  (\<open>src/include/lerobot_depth.hpp\<close>) and of the video options
  (\<open>src/function/video/lerobot_video_options.cpp\<close>).
\<close>

section \<open>Logical types\<close>

datatype logical_type =
    FLOAT | DOUBLE | TINYINT | SMALLINT | INTEGER | BIGINT
  | UTINYINT | USMALLINT | UINTEGER | UBIGINT | BOOLEAN | VARCHAR | BLOB | ANY
  | LIST logical_type
  | ARRAY logical_type nat
  | STRUCT "(string \<times> logical_type) list"

fun IsIntegral :: "logical_type \<Rightarrow> bool" where
  "IsIntegral t = (t \<in> {TINYINT, SMALLINT, INTEGER, BIGINT, UTINYINT, USMALLINT, UINTEGER, UBIGINT})"

definition LerobotDtypeToLogicalType :: "string \<Rightarrow> logical_type result" where
  "LerobotDtypeToLogicalType dtype =
     (if dtype = ''float32'' then Inr FLOAT
      else if dtype = ''float64'' then Inr DOUBLE
      else if dtype = ''int8'' then Inr TINYINT
      else if dtype = ''int16'' then Inr SMALLINT
      else if dtype = ''int32'' then Inr INTEGER
      else if dtype = ''int64'' then Inr BIGINT
      else if dtype = ''uint8'' then Inr UTINYINT
      else if dtype = ''uint16'' then Inr USMALLINT
      else if dtype = ''uint32'' then Inr UINTEGER
      else if dtype = ''uint64'' then Inr UBIGINT
      else if dtype = ''bool'' then Inr BOOLEAN
      else if dtype = ''string'' then Inr VARCHAR
      else Inl (BinderException ''Unsupported LeRobot v3 feature dtype''))"

definition image_struct :: logical_type where
  "image_struct = STRUCT [(''bytes'', BLOB), (''path'', VARCHAR)]"

definition LerobotFeatureStorageType :: "string \<Rightarrow> nat list \<Rightarrow> logical_type result" where
  "LerobotFeatureStorageType dtype shape =
     (if dtype = ''image'' \<or> dtype = ''video'' then Inr BLOB
      else (case LerobotDtypeToLogicalType dtype of
              Inl e \<Rightarrow> Inl e
            | Inr t \<Rightarrow> if length shape = 1 \<and> shape ! 0 = 1 then Inr t
                       else Inr (foldl ARRAY t (rev shape))))"

definition LerobotFeatureOutputType :: "string \<Rightarrow> nat list \<Rightarrow> logical_type result" where
  "LerobotFeatureOutputType dtype shape =
     (if dtype = ''image'' then Inr image_struct else LerobotFeatureStorageType dtype shape)"

fun LerobotNestedListType :: "logical_type \<Rightarrow> nat \<Rightarrow> logical_type" where
  "LerobotNestedListType leaf 0 = leaf"
| "LerobotNestedListType leaf (Suc n) = LIST (LerobotNestedListType leaf n)"

definition LerobotFeatureScanType :: "string \<Rightarrow> nat list \<Rightarrow> logical_type result" where
  "LerobotFeatureScanType dtype shape =
     (if dtype = ''image'' then Inr image_struct
      else (case LerobotDtypeToLogicalType dtype of
              Inl e \<Rightarrow> Inl e
            | Inr t \<Rightarrow> if length shape = 1 \<and> shape ! 0 = 1 then Inr t
                       else Inr (LerobotNestedListType t (length shape))))"

definition LerobotHasIntegerExtrema :: "string \<Rightarrow> bool result" where
  "LerobotHasIntegerExtrema dtype =
     (if dtype = ''image'' \<or> dtype = ''video'' \<or> dtype = ''string'' then Inr False
      else (case LerobotDtypeToLogicalType dtype of Inl e \<Rightarrow> Inl e | Inr t \<Rightarrow> Inr (IsIntegral t)))"

definition LerobotStatExtremaLeafType :: "string \<Rightarrow> logical_type result" where
  "LerobotStatExtremaLeafType dtype =
     (case LerobotHasIntegerExtrema dtype of
        Inl e \<Rightarrow> Inl e
      | Inr b \<Rightarrow> if \<not> b then Inr DOUBLE else Inr (if dtype = ''uint64'' then UBIGINT else BIGINT))"

text \<open>What Parquet keeps of a type: an \<open>ARRAY\<close> becomes a \<open>LIST\<close>.\<close>

fun erase_arrays :: "logical_type \<Rightarrow> logical_type" where
  "erase_arrays (ARRAY t n) = LIST (erase_arrays t)"
| "erase_arrays (LIST t) = LIST (erase_arrays t)"
| "erase_arrays t = t"

lemma erase_array_nest: "erase_arrays (foldl ARRAY t (rev shape)) = LerobotNestedListType (erase_arrays t) (length shape)"
  by (induction shape) auto

lemma dtype_flat: "LerobotDtypeToLogicalType dtype = Inr t \<Longrightarrow> erase_arrays t = t"
  by (auto simp: LerobotDtypeToLogicalType_def split: if_splits)

section \<open>Values and named parameters\<close>

datatype sqlvalue =
    VNull
  | VBool bool
  | VInt int
  | VDouble fp
  | VString string
  | VList "sqlvalue list"

text \<open>
  A named parameter has the type its function declares (the binder casts it), so a value of another
  type is an internal error here.
\<close>

type_synonym named_params = "string \<Rightarrow> sqlvalue option"

definition wrong_type :: exn where "wrong_type = InternalException ''parameter type''"

definition GetNamedInteger :: "named_params \<Rightarrow> string \<Rightarrow> int \<Rightarrow> int result" where
  "GetNamedInteger params name default_value =
     (case params name of
        None \<Rightarrow> Inr default_value
      | Some VNull \<Rightarrow> Inl (BinderException (name @ '' must not be NULL''))
      | Some (VInt i) \<Rightarrow> Inr i
      | Some _ \<Rightarrow> Inl wrong_type)"

definition GetNamedDouble :: "named_params \<Rightarrow> string \<Rightarrow> fp \<Rightarrow> fp result" where
  "GetNamedDouble params name default_value =
     (case params name of
        None \<Rightarrow> Inr default_value
      | Some VNull \<Rightarrow> Inl (BinderException (name @ '' must not be NULL''))
      | Some (VDouble d) \<Rightarrow> Inr d
      | Some _ \<Rightarrow> Inl wrong_type)"

definition GetNamedString :: "named_params \<Rightarrow> string \<Rightarrow> string \<Rightarrow> string result" where
  "GetNamedString params name default_value =
     (case params name of
        None \<Rightarrow> Inr default_value
      | Some VNull \<Rightarrow> Inl (BinderException (name @ '' must not be NULL''))
      | Some (VString s) \<Rightarrow> Inr s
      | Some _ \<Rightarrow> Inl wrong_type)"

section \<open>Depth quantisation parameters\<close>

text \<open>\<open>log_d\<close> is \<open>std::log\<close> on doubles.\<close>

definition LerobotValidFloat32DepthParameters ::
  "(fp \<Rightarrow> fp) \<Rightarrow> fp \<Rightarrow> fp \<Rightarrow> fp \<Rightarrow> bool \<Rightarrow> bool" where
  "LerobotValidFloat32DepthParameters log_d depth_min depth_max shift use_log =
     (let depth_min_float = to_float depth_min;
          depth_max_float = to_float depth_max;
          shift_float = to_float shift
      in if \<not> fis_finite depth_min_float \<or> \<not> fis_finite depth_max_float \<or> \<not> fis_finite shift_float \<or>
            fle depth_max_float depth_min_float
         then False
         else
           let shifted_min = dadd depth_min shift;
               shifted_max = dadd depth_max shift
           in if use_log \<and> (\<not> fis_finite shifted_min \<or> \<not> fis_finite shifted_max \<or>
                             fle shifted_min (Fin 0) \<or> fle shifted_max shifted_min)
              then False
              else
                let scale = (if use_log then ddiv (dsub (log_d shifted_max) (log_d shifted_min)) (Fin 4095)
                             else ddiv (dsub depth_max depth_min) (Fin 4095));
                    offset = (if use_log then log_d shifted_min else depth_min);
                    scale_float = to_float scale;
                    offset_float = to_float offset
                in fis_finite scale \<and> fis_finite offset \<and> fis_finite scale_float \<and>
                   flt (Fin 0) scale_float \<and> fis_finite offset_float)"

section \<open>Video options\<close>

datatype depth_unit = METERS | MILLIMETERS

record video_options =
  tolerance :: fp
  cluster_gap :: fp
  width :: int
  height :: int
  output_batch_size :: nat
  target_buffer_size :: nat
  max_cached_decoders :: nat
  decode_threads :: nat
  producer_threads :: nat
  max_pending_targets :: nat
  max_output_bytes :: nat
  codec_threads :: int
  depth_output_unit :: depth_unit

definition STANDARD_VECTOR_SIZE :: int where "STANDARD_VECTOR_SIZE = 2048"
definition LEROBOT_MAX_TARGET_BUFFER_SIZE :: int where "LEROBOT_MAX_TARGET_BUFFER_SIZE = 1024 * 1024"
definition LEROBOT_MAX_CACHED_DECODERS :: int where "LEROBOT_MAX_CACHED_DECODERS = 1024"
definition LEROBOT_MAX_DECODE_THREADS :: int where "LEROBOT_MAX_DECODE_THREADS = 1024"
definition LEROBOT_MAX_PRODUCER_THREADS :: int where "LEROBOT_MAX_PRODUCER_THREADS = 1024"
definition LEROBOT_MAX_PENDING_TARGETS :: int where "LEROBOT_MAX_PENDING_TARGETS = 10 * 1024 * 1024"

definition LEROBOT_DEFAULT_TEMPORAL_TOLERANCE_SECONDS :: fp where
  "LEROBOT_DEFAULT_TEMPORAL_TOLERANCE_SECONDS = rnd64 (1 / 10000)"

definition GetLerobotVideoOptions :: "named_params \<Rightarrow> video_options result" where
  "GetLerobotVideoOptions params =
     bindE (GetNamedInteger params ''width'' 0) (\<lambda>width_value.
     bindE (GetNamedInteger params ''height'' 0) (\<lambda>height_value.
     require ((width_value = 0) = (height_value = 0))
       ''width and height must either both be zero or both be positive'' (
     require (\<not> (width_value < 0 \<or> height_value < 0 \<or> width_value > 32768 \<or> height_value > 32768))
       ''width and height must be between 0 and 32768'' (
     bindE (GetNamedDouble params ''tolerance'' LEROBOT_DEFAULT_TEMPORAL_TOLERANCE_SECONDS) (\<lambda>tol.
     require (\<not> (\<not> fis_finite tol \<or> fle tol (Fin 0))) ''tolerance must be finite and positive'' (
     bindE (GetNamedDouble params ''cluster_gap'' (Fin 10)) (\<lambda>gap.
     require (\<not> (\<not> fis_finite gap \<or> flt gap (Fin 0))) ''cluster_gap must be finite and non-negative'' (
     bindE (GetNamedInteger params ''batch_size'' 16) (\<lambda>batch_size_value.
     require (\<not> (batch_size_value \<le> 0 \<or> batch_size_value > STANDARD_VECTOR_SIZE))
       ''batch_size out of range'' (
     bindE (GetNamedInteger params ''target_buffer_size'' 256) (\<lambda>target_buffer_size_value.
     require (\<not> (target_buffer_size_value \<le> 0 \<or>
               target_buffer_size_value > LEROBOT_MAX_TARGET_BUFFER_SIZE))
       ''target_buffer_size out of range'' (
     bindE (GetNamedInteger params ''max_cached_decoders'' 8) (\<lambda>max_cached_decoders_value.
     require (\<not> (max_cached_decoders_value \<le> 0 \<or>
               max_cached_decoders_value > LEROBOT_MAX_CACHED_DECODERS))
       ''max_cached_decoders out of range'' (
     bindE (GetNamedInteger params ''decode_threads'' 8) (\<lambda>decode_threads_value.
     require (\<not> (decode_threads_value \<le> 0 \<or> decode_threads_value > LEROBOT_MAX_DECODE_THREADS))
       ''decode_threads out of range'' (
     bindE (GetNamedInteger params ''producer_threads'' 4) (\<lambda>producer_threads_value.
     require (\<not> (producer_threads_value \<le> 0 \<or> producer_threads_value > LEROBOT_MAX_PRODUCER_THREADS))
       ''producer_threads out of range'' (
     bindE (GetNamedInteger params ''max_pending_targets'' 0) (\<lambda>max_pending_targets_value.
     require (\<not> (max_pending_targets_value < 0 \<or> max_pending_targets_value > LEROBOT_MAX_PENDING_TARGETS))
       ''max_pending_targets out of range'' (
     bindE (GetNamedInteger params ''max_output_bytes'' (64 * 1024 * 1024)) (\<lambda>max_output_bytes_value.
     require (\<not> max_output_bytes_value \<le> 0) ''max_output_bytes must be positive'' (
     bindE (GetNamedInteger params ''codec_threads'' 1) (\<lambda>codec_threads_value.
     require (\<not> (codec_threads_value < 0 \<or> codec_threads_value > 64)) ''codec_threads out of range'' (
     bindE (GetNamedString params ''depth_output_unit'' ''mm'') (\<lambda>unit_value.
     require (unit_value = ''m'' \<or> unit_value = ''mm'') ''depth_output_unit must be m or mm'' (
     Inr \<lparr>tolerance = tol, cluster_gap = gap, width = width_value, height = height_value,
          output_batch_size = nat batch_size_value,
          target_buffer_size = nat target_buffer_size_value,
          max_cached_decoders = nat max_cached_decoders_value,
          decode_threads = nat decode_threads_value,
          producer_threads = nat producer_threads_value,
          max_pending_targets =
            (if max_pending_targets_value = 0
             then min (nat target_buffer_size_value * nat decode_threads_value * 2)
                      (nat LEROBOT_MAX_PENDING_TARGETS)
             else nat max_pending_targets_value),
          max_output_bytes = nat max_output_bytes_value,
          codec_threads = codec_threads_value,
          depth_output_unit = (if unit_value = ''m'' then METERS else MILLIMETERS)\<rparr>
     ))))))))))))))))))))))))))"

lemmas video_limit_defs =
  STANDARD_VECTOR_SIZE_def LEROBOT_MAX_TARGET_BUFFER_SIZE_def LEROBOT_MAX_CACHED_DECODERS_def
  LEROBOT_MAX_DECODE_THREADS_def LEROBOT_MAX_PRODUCER_THREADS_def LEROBOT_MAX_PENDING_TARGETS_def

definition video_options_ok :: "video_options \<Rightarrow> bool" where
  "video_options_ok o' \<longleftrightarrow>
     fis_finite (tolerance o') \<and> flt (Fin 0) (tolerance o') \<and>
     fis_finite (cluster_gap o') \<and> fle (Fin 0) (cluster_gap o') \<and>
     (0 = width o' \<and> 0 = height o' \<or> 0 < width o' \<and> 0 < height o') \<and>
     width o' \<le> 32768 \<and> height o' \<le> 32768 \<and>
     1 \<le> output_batch_size o' \<and> int (output_batch_size o') \<le> STANDARD_VECTOR_SIZE \<and>
     1 \<le> target_buffer_size o' \<and> 1 \<le> max_cached_decoders o' \<and> max_cached_decoders o' \<le> 1024 \<and>
     1 \<le> decode_threads o' \<and> decode_threads o' \<le> 1024 \<and>
     1 \<le> producer_threads o' \<and> producer_threads o' \<le> 1024 \<and>
     1 \<le> max_pending_targets o' \<and> max_pending_targets o' \<le> 10 * 1024 * 1024 \<and>
     1 \<le> max_output_bytes o' \<and> 0 \<le> codec_threads o' \<and> codec_threads o' \<le> 64 \<and>
     target_buffer_size o' * decode_threads o' * 2 \<le> IDX_MAX"

lemma fp_pos: "fis_finite x \<Longrightarrow> \<not> fle x (Fin 0) \<Longrightarrow> flt (Fin 0) x"
  by (cases x) (auto simp: fis_finite_def fle_def feq_def)

lemma fp_nonneg: "fis_finite x \<Longrightarrow> \<not> flt x (Fin 0) \<Longrightarrow> fle (Fin 0) x"
  by (cases x) (auto simp: fis_finite_def fle_def feq_def)

lemma GetLerobotVideoOptions_fields:
  assumes "GetLerobotVideoOptions params = Inr o'"
  obtains w h tol gap b t m d p v ob c u where
    "(w = 0) = (h = 0)" "\<not> (w < 0 \<or> h < 0 \<or> w > 32768 \<or> h > 32768)"
    "\<not> (\<not> fis_finite tol \<or> fle tol (Fin 0))" "\<not> (\<not> fis_finite gap \<or> flt gap (Fin 0))"
    "\<not> (b \<le> 0 \<or> b > STANDARD_VECTOR_SIZE)" "\<not> (t \<le> 0 \<or> t > LEROBOT_MAX_TARGET_BUFFER_SIZE)"
    "\<not> (m \<le> 0 \<or> m > LEROBOT_MAX_CACHED_DECODERS)" "\<not> (d \<le> 0 \<or> d > LEROBOT_MAX_DECODE_THREADS)"
    "\<not> (p \<le> 0 \<or> p > LEROBOT_MAX_PRODUCER_THREADS)" "\<not> (v < 0 \<or> v > LEROBOT_MAX_PENDING_TARGETS)"
    "\<not> ob \<le> 0" "\<not> (c < 0 \<or> c > 64)"
    "\<lparr>tolerance = tol, cluster_gap = gap, width = w, height = h, output_batch_size = nat b,
      target_buffer_size = nat t, max_cached_decoders = nat m, decode_threads = nat d,
      producer_threads = nat p,
      max_pending_targets =
        (if v = 0 then min (nat t * nat d * 2) (nat LEROBOT_MAX_PENDING_TARGETS) else nat v),
      max_output_bytes = nat ob, codec_threads = c,
      depth_output_unit = (if u = ''m'' then METERS else MILLIMETERS)\<rparr> = o'"
  using assms unfolding GetLerobotVideoOptions_def bindE_Inr_iff require_Inr_iff sum.inject
  by (elim exE conjE) (rule that; assumption)

lemma GetLerobotVideoOptions_ok:
  assumes "GetLerobotVideoOptions params = Inr o'"
  shows "video_options_ok o'"
  using assms
proof (cases rule: GetLerobotVideoOptions_fields)
  case (1 w h tol gap b t m d p v ob c u)
  have td: "1 \<le> nat t" "nat t \<le> 1024 * 1024" "1 \<le> nat d" "nat d \<le> 1024"
    using 1(6,8) unfolding video_limit_defs by linarith+
  have prod: "1 \<le> nat t * nat d * 2" "nat t * nat d * 2 \<le> IDX_MAX"
  proof -
    show "1 \<le> nat t * nat d * 2" using td mult_le_mono [of 1 "nat t" 1 "nat d"] by simp
    have "nat t * nat d \<le> (1024 * 1024) * 1024" using td by (intro mult_le_mono) auto
    then show "nat t * nat d * 2 \<le> IDX_MAX" by (simp add: IDX_MAX_def)
  qed
  let ?v = "if v = 0 then min (nat t * nat d * 2) (nat LEROBOT_MAX_PENDING_TARGETS) else nat v"
  have v: "1 \<le> ?v" "?v \<le> 10 * 1024 * 1024"
    using prod(1) 1(10) by (auto simp: video_limit_defs)
  have f: "flt (Fin 0) tol" "fle (Fin 0) gap" "fis_finite tol" "fis_finite gap"
    using 1(3,4) fp_pos fp_nonneg by blast+
  have r: "0 = w \<and> 0 = h \<or> 0 < w \<and> 0 < h" "w \<le> 32768" "h \<le> 32768"
    using 1(1,2) by linarith+
  have n: "1 \<le> nat b" "int (nat b) \<le> STANDARD_VECTOR_SIZE" "1 \<le> nat m" "nat m \<le> 1024"
    "1 \<le> nat p" "nat p \<le> 1024" "1 \<le> nat ob" "0 \<le> c" "c \<le> 64"
    using 1(5,7,9,11,12) unfolding video_limit_defs by linarith+
  show ?thesis
    unfolding 1(13) [symmetric] video_options_ok_def video_options.simps
    using td prod v f r n by blast
qed

section \<open>Properties\<close>

text \<open>Every set of named parameters that \<open>GetLerobotVideoOptions\<close> accepts gives usable options: finite
  tolerances, both or no target dimension, at least one worker, one decoder and one target of each
  buffer, all counts within their limits, and the product that sizes the default target budget does
  not wrap around in \<open>idx_t\<close>; the defaults are accepted.
\<close>
lemma video_options_accepted:
  "(case GetLerobotVideoOptions params of Inl e \<Rightarrow> params \<noteq> (\<lambda>name. None) | Inr o' \<Rightarrow> video_options_ok o')"
proof (cases "GetLerobotVideoOptions params")
  case (Inl e)
  have "fis_finite LEROBOT_DEFAULT_TEMPORAL_TOLERANCE_SECONDS"
    "\<not> fle LEROBOT_DEFAULT_TEMPORAL_TOLERANCE_SECONDS (Fin 0)"
    by code_simp+
  then have "GetLerobotVideoOptions (\<lambda>name. None) \<noteq> Inl e"
    by (simp add: GetLerobotVideoOptions_def GetNamedInteger_def GetNamedDouble_def GetNamedString_def
        require_def video_limit_defs fis_finite_def)
  with Inl show ?thesis by auto
next
  case (Inr o')
  then show ?thesis using GetLerobotVideoOptions_ok [OF Inr] by simp
qed

text \<open>
  The type rebuilt for a column of an empty dataset is the type Parquet exposes for the column the
  writer would have stored: for every feature that is not visual the scan type is the storage type
  with its fixed-size arrays turned into lists, and both fail on the same dtypes.
\<close>
lemma scan_type_matches_storage:
  "dtype = ''image'' \<or> dtype = ''video'' \<or>
     LerobotFeatureScanType dtype shape =
       (case LerobotFeatureStorageType dtype shape of Inl e \<Rightarrow> Inl e | Inr t \<Rightarrow> Inr (erase_arrays t))"
proof (cases "dtype = ''image'' \<or> dtype = ''video''")
  case False
  then show ?thesis
    by (cases "LerobotDtypeToLogicalType dtype")
       (auto simp: LerobotFeatureScanType_def LerobotFeatureStorageType_def erase_array_nest dtype_flat
         simp del: One_nat_def)
qed blast

end
