(* ===== verification/Lookup.thy ===== *)
theory Lookup
  imports Prelude
begin

text \<open>
  The interface of the immutable lookup tables of the program (episode routes, video routes, frame
  timestamps): a table holds entries under distinct keys, and \<open>find\<close> returns the entry of a key. The
  clients' facts are proved here once, from the two laws every provider discharges.
\<close>

locale lookup_table =
  fixes inv :: "'t \<Rightarrow> bool"
    and entries :: "'t \<Rightarrow> 'v list"
    and key :: "'t \<Rightarrow> 'v \<Rightarrow> 'k"
    and find_in :: "'t \<Rightarrow> 'k \<Rightarrow> 'v option"
  assumes keys_distinct: "inv t \<Longrightarrow> distinct (map (key t) (entries t))"
    and find_iff: "inv t \<Longrightarrow> find_in t k = Some v \<longleftrightarrow> v \<in> set (entries t) \<and> key t v = k"
begin

lemma find_none_iff: "inv t \<Longrightarrow> find_in t k = None \<longleftrightarrow> k \<notin> key t ` set (entries t)"
proof
  assume "inv t" and "find_in t k = None"
  then have "v \<in> set (entries t) \<Longrightarrow> key t v \<noteq> k" for v using find_iff [of t k v] by auto
  then show "k \<notin> key t ` set (entries t)" by blast
next
  assume "inv t" and "k \<notin> key t ` set (entries t)"
  then have "find_in t k \<noteq> Some v" for v using find_iff [of t k v] by blast
  then show "find_in t k = None" by (cases "find_in t k") auto
qed

lemma find_entry: "inv t \<Longrightarrow> v \<in> set (entries t) \<Longrightarrow> find_in t (key t v) = Some v"
  by (simp add: find_iff)

lemma find_key: "inv t \<Longrightarrow> find_in t k = Some v \<Longrightarrow> key t v = k"
  by (simp add: find_iff)

lemma find_map_of: "inv t \<Longrightarrow> find_in t k = map_of (map (\<lambda>v. (key t v, v)) (entries t)) k"
proof -
  assume inv: "inv t"
  have fst: "map fst (map (\<lambda>v. (key t v, v)) (entries t)) = map (key t) (entries t)"
    by (simp add: comp_def)
  have d: "distinct (map fst (map (\<lambda>v. (key t v, v)) (entries t)))"
    using keys_distinct [OF inv] unfolding fst .
  show ?thesis
  proof (cases "find_in t k")
    case None
    with find_none_iff [OF inv] have "k \<notin> fst ` set (map (\<lambda>v. (key t v, v)) (entries t))"
      by (auto simp: image_iff)
    with None show ?thesis by (simp only: map_of_eq_None_iff [symmetric])
  next
    case (Some v)
    with find_iff [OF inv, of k v] have "(k, v) \<in> set (map (\<lambda>v. (key t v, v)) (entries t))"
      by auto
    with Some map_of_is_SomeI [OF d] show ?thesis by metis
  qed
qed

lemma entries_inj: "inv t \<Longrightarrow> v \<in> set (entries t) \<Longrightarrow> w \<in> set (entries t) \<Longrightarrow> key t v = key t w \<Longrightarrow> v = w"
  by (metis find_entry option.inject)

end

section \<open>Binary search\<close>

text \<open>The pattern \<open>lower_bound(...)\<close>, then a comparison of the key of the element found.\<close>

definition find_sorted :: "('v \<Rightarrow> 'k::linorder) \<Rightarrow> 'v list \<Rightarrow> 'k \<Rightarrow> 'v option" where
  "find_sorted key xs k =
     (let i = lower_bound (\<lambda>y. key y < k) xs
      in if i < length xs \<and> key (xs ! i) = k then Some (xs ! i) else None)"

lemma find_sorted_iff:
  assumes "sorted (map key xs)" and "distinct (map key xs)"
  shows "find_sorted key xs k = Some x \<longleftrightarrow> x \<in> set xs \<and> key x = k"
proof
  assume "find_sorted key xs k = Some x"
  then show "x \<in> set xs \<and> key x = k"
    unfolding find_sorted_def Let_def using nth_mem by (metis option.distinct(1) option.inject)
next
  assume "x \<in> set xs \<and> key x = k"
  with lower_bound_sorted_find [OF assms(1) _ _ assms(2), of x k]
  show "find_sorted key xs k = Some x"
    by (simp add: find_sorted_def Let_def)
qed

text \<open>The check for adjacent equal keys that the loaders make after sorting.\<close>

fun has_adjacent :: "('a \<Rightarrow> 'a \<Rightarrow> bool) \<Rightarrow> 'a list \<Rightarrow> bool" where
  "has_adjacent P (x # y # ys) = (P x y \<or> has_adjacent P (y # ys))"
| "has_adjacent P _ = False"

lemma no_adjacent_distinct:
  "sorted (map key xs) \<Longrightarrow> \<not> has_adjacent (\<lambda>x y. key x = key y) xs \<Longrightarrow> distinct (map key xs)"
proof (induction "\<lambda>x y. key x = key y" xs rule: has_adjacent.induct)
  case (1 x y ys)
  then have "key x < key y" and "\<forall>z \<in> set (y # ys). key y \<le> key z" by auto
  then have "key x \<notin> key ` set (y # ys)" by force
  with 1 show ?case by auto
qed auto

lemma distinct_no_adjacent: "distinct (map key xs) \<Longrightarrow> \<not> has_adjacent (\<lambda>x y. key x = key y) xs"
  by (induction "\<lambda>x y. key x = key y" xs rule: has_adjacent.induct) auto

section \<open>Interning strings in a vector\<close>

text \<open>A vector of distinct values together with the map from a value to its position.\<close>

definition position :: "'a \<Rightarrow> 'a list \<Rightarrow> nat" where
  "position x xs = length (takeWhile (\<lambda>y. y \<noteq> x) xs)"

definition intern :: "'a \<Rightarrow> 'a list \<Rightarrow> nat \<times> 'a list" where
  "intern x xs = (if x \<in> set xs then (position x xs, xs) else (length xs, xs @ [x]))"

lemma position_nth: "x \<in> set xs \<Longrightarrow> position x xs < length xs \<and> xs ! position x xs = x"
  by (induction xs) (auto simp: position_def)

lemma intern_result:
  assumes "intern x xs = (i, ys)"
  shows "i < length ys" "ys ! i = x" "set ys = insert x (set xs)"
    "distinct xs \<Longrightarrow> distinct ys" "\<And>j. j < length xs \<Longrightarrow> j < length ys \<and> ys ! j = xs ! j"
  using assms position_nth [of x xs] by (auto simp: intern_def nth_append split: if_splits)

end
