(* ===== verification/DatasetInfo.thy ===== *)
theory DatasetInfo
  imports Schema Lookup
begin

text \<open>
  The manifest of a dataset, \<open>info.json\<close>: \<open>ParseLerobotInfo\<close> and the schemas it builds
  (\<open>src/storage/lerobot_metadata_cache.cpp\<close>). DuckDB reads the JSON; the model takes the rows of the
  query (one per record and feature, in order), with \<open>None\<close> for a NULL.
\<close>

section \<open>Data\<close>

record info_row =
  record_index :: "int option"
  row_codebase_version :: "string option"
  row_data_path :: "string option"
  row_video_path :: "string option"
  row_fps :: "int option"
  row_total_episodes :: "int option"
  row_total_frames :: "int option"
  row_total_tasks :: "int option"
  row_feature_key :: "string option"
  row_dtype :: "string option"
  row_shape :: "int option list option"
  row_is_depth_map :: "bool option"
  row_depth_min :: "fp option"
  row_depth_max :: "fp option"
  row_shift :: "fp option"
  row_use_log :: "bool option"
  row_pix_fmt :: "string option"
  row_legacy_info :: "string option"
  row_legacy_video_info :: "string option"
  row_storage_format :: "string option"

record parsed_feature =
  feature_name :: string
  feature_dtype :: string
  feature_shape :: "nat list"
  feature_is_depth :: bool

record video_feature =
  is_depth_map :: bool
  depth_min :: fp
  depth_max :: fp
  depth_shift :: fp
  use_log :: bool

definition rgb_video_feature :: video_feature where
  "rgb_video_feature = \<lparr>is_depth_map = False, depth_min = Fin 0, depth_max = Fin 0, depth_shift = Fin 0,
     use_log = False\<rparr>"

type_synonym scan_schema = "(string \<times> logical_type) list"

record dataset_info =
  storage_format :: string
  codebase_version :: string
  data_path_template :: string
  video_path_template :: string
  info_fps :: int
  total_episodes :: int
  total_frames :: int
  total_tasks :: int
  video_keys :: "string list"
  video_feature_metadata :: "video_feature list"
  frame_schema :: scan_schema
  episode_schema :: scan_schema

definition empty_info :: dataset_info where
  "empty_info = \<lparr>storage_format = ''lerobot'', codebase_version = [], data_path_template = [],
     video_path_template = [], info_fps = 0, total_episodes = 0, total_frames = 0, total_tasks = 0,
     video_keys = [], video_feature_metadata = [], frame_schema = [], episode_schema = []\<rparr>"

record parse_state =
  p_info :: dataset_info
  p_features :: "parsed_feature list"
  p_names_seen :: "string list"
  p_videos :: "(string \<times> video_feature) list"
  p_found :: bool

section \<open>Schemas\<close>

definition AppendColumn :: "scan_schema \<Rightarrow> string \<Rightarrow> logical_type \<Rightarrow> scan_schema" where
  "AppendColumn schema name type = schema @ [(name, type)]"

definition frame_column :: "dataset_info \<Rightarrow> parsed_feature \<Rightarrow> scan_schema \<Rightarrow> scan_schema result" where
  "frame_column info feature schema =
     (let shape = feature_shape feature;
          dtype = feature_dtype feature;
          is_visual = (dtype = ''image'' \<or> dtype = ''video'')
      in require (\<not> (shape = [] \<or> length shape > 5)) ''feature requires a shape with one to five dimensions'' (
         require (\<not> (feature_is_depth feature \<and> \<not> is_visual)) ''feature marks is_depth_map but is not visual'' (
         require (\<not> (is_visual \<and> length shape \<noteq> 3)) ''visual feature requires an HWC shape'' (
         require (\<not> (is_visual \<and> shape ! 2 \<noteq> (if feature_is_depth feature then 1 else 3)))
           ''visual feature requires its channels'' (
         if dtype = ''language'' \<and> storage_format info = ''lance'' \<and> total_episodes info > 0 \<and>
            (feature_name feature = ''language_persistent'' \<or> feature_name feature = ''language_events'') \<and>
            length shape = 1 \<and> shape ! 0 = 1
         then Inr (AppendColumn schema (feature_name feature) ANY)
         else if dtype \<noteq> ''video'' then
           (case LerobotFeatureScanType dtype shape of
              Inl e \<Rightarrow> Inl e
            | Inr t \<Rightarrow> Inr (AppendColumn schema (feature_name feature) t))
         else Inr schema)))))"

definition BuildFrameSchema :: "dataset_info \<Rightarrow> parsed_feature list \<Rightarrow> dataset_info result" where
  "BuildFrameSchema info features =
     require (features \<noteq> []) ''info.json features must not be empty'' (
       case foldE (frame_column info) features (frame_schema info) of
         Inl e \<Rightarrow> Inl e
       | Inr schema \<Rightarrow> Inr (info\<lparr>frame_schema := schema\<rparr>))"

definition base_episode_columns :: scan_schema where
  "base_episode_columns =
     [(''episode_index'', BIGINT), (''tasks'', LIST VARCHAR), (''length'', BIGINT),
      (''data/chunk_index'', BIGINT), (''data/file_index'', BIGINT),
      (''dataset_from_index'', BIGINT), (''dataset_to_index'', BIGINT)]"

definition video_columns :: "parsed_feature \<Rightarrow> scan_schema" where
  "video_columns feature =
     (if feature_dtype feature \<noteq> ''video'' then []
      else
        let pre = ''videos/'' @ feature_name feature @ ''/''
        in [(pre @ ''chunk_index'', BIGINT), (pre @ ''file_index'', BIGINT),
            (pre @ ''from_timestamp'', DOUBLE), (pre @ ''to_timestamp'', DOUBLE)])"

definition stat_names :: "string list" where
  "stat_names = [''min'', ''max'', ''mean'', ''std'', ''count'', ''q01'', ''q10'', ''q50'', ''q90'', ''q99'']"

definition stat_columns :: "parsed_feature \<Rightarrow> scan_schema \<Rightarrow> scan_schema result" where
  "stat_columns feature schema =
     (if feature_dtype feature = ''string'' then Inr schema
      else
        let dimensions = (if feature_dtype feature = ''image'' \<or> feature_dtype feature = ''video'' then 3
                          else length (feature_shape feature))
        in (case LerobotStatExtremaLeafType (feature_dtype feature) of
              Inl e \<Rightarrow> Inl e
            | Inr leaf \<Rightarrow>
                Inr (schema @ map (\<lambda>name.
                  (''stats/'' @ feature_name feature @ ''/'' @ name,
                   if name = ''count'' then LIST BIGINT
                   else if name = ''min'' \<or> name = ''max'' then LerobotNestedListType leaf dimensions
                   else LerobotNestedListType DOUBLE dimensions)) stat_names)))"

definition BuildEmptyDatasetSchemas :: "dataset_info \<Rightarrow> parsed_feature list \<Rightarrow> dataset_info result" where
  "BuildEmptyDatasetSchemas info features =
     (case BuildFrameSchema info features of
        Inl e \<Rightarrow> Inl e
      | Inr info \<Rightarrow>
          (case foldE stat_columns features
             (episode_schema info @ base_episode_columns @ concat (map video_columns features)) of
             Inl e \<Rightarrow> Inl e
           | Inr schema \<Rightarrow>
               Inr (info\<lparr>episode_schema :=
                 AppendColumn (AppendColumn schema ''meta/episodes/chunk_index'' BIGINT)
                   ''meta/episodes/file_index'' BIGINT\<rparr>)))"

section \<open>Parsing the rows\<close>

definition parse_header :: "info_row \<Rightarrow> parse_state \<Rightarrow> parse_state result" where
  "parse_header row st =
     (let format = (case row_storage_format row of Some f \<Rightarrow> f | None \<Rightarrow> storage_format (p_info st))
      in require (format = ''lerobot'' \<or> format = ''lance'') ''Unsupported storage_format'' (
         case (row_codebase_version row, row_data_path row, row_fps row, row_total_episodes row,
               row_total_frames row, row_total_tasks row) of
           (Some version, Some data_path, Some fps, Some episodes, Some frames, Some tasks) \<Rightarrow>
             Inr (st\<lparr>p_found := True, p_info := (p_info st)
               \<lparr>storage_format := format, codebase_version := version, data_path_template := data_path,
                video_path_template := (case row_video_path row of Some p \<Rightarrow> p
                                        | None \<Rightarrow> video_path_template (p_info st)),
                info_fps := fps, total_episodes := episodes, total_frames := frames,
                total_tasks := tasks\<rparr>\<rparr>)
         | _ \<Rightarrow> Inl (BinderException ''info.json requires non-NULL fields'')))"

definition parse_dimension :: "int option \<Rightarrow> nat result" where
  "parse_dimension d =
     (case d of
        None \<Rightarrow> Inl (BinderException ''shape dimensions must be positive'')
      | Some n \<Rightarrow> require (\<not> n \<le> 0) ''shape dimensions must be positive'' (Inr (nat n)))"

definition parse_shape :: "info_row \<Rightarrow> nat list result" where
  "parse_shape row = (case row_shape row of None \<Rightarrow> Inr [] | Some ds \<Rightarrow> mapE parse_dimension ds)"

definition legacy_claim :: "string option \<Rightarrow> bool" where
  "legacy_claim marker \<longleftrightarrow> (case marker of None \<Rightarrow> False | Some m \<Rightarrow> m \<noteq> ''false'')"

definition parse_video_metadata ::
  "(fp \<Rightarrow> fp) \<Rightarrow> info_row \<Rightarrow> parsed_feature \<Rightarrow> video_feature result" where
  "parse_video_metadata log_d row feature =
     require (\<not> (legacy_claim (row_legacy_info row) \<or> legacy_claim (row_legacy_video_info row)))
       ''video feature uses a legacy depth marker'' (
     if feature_is_depth feature then
       (case (row_depth_min row, row_depth_max row, row_shift row, row_use_log row, row_pix_fmt row) of
          (Some lo, Some hi, Some shift, Some logarithmic, Some pixel_format) \<Rightarrow>
            require (length (feature_shape feature) = 3) ''depth video feature requires its metadata'' (
            require (\<not> (\<not> fis_finite lo \<or> \<not> fis_finite hi \<or> \<not> fis_finite shift \<or> fle hi lo \<or>
                      \<not> LerobotValidFloat32DepthParameters log_d lo hi shift logarithmic))
              ''depth video feature has invalid quantization parameters'' (
            require (pixel_format = ''gray12le'') ''depth video feature requires gray12le'' (
            require (feature_shape feature ! 2 = 1) ''depth video feature requires exactly one channel'' (
            Inr \<lparr>is_depth_map = True, depth_min = lo, depth_max = hi, depth_shift = shift,
                 use_log = logarithmic\<rparr>))))
        | _ \<Rightarrow> Inl (BinderException ''depth video feature requires its metadata''))
     else
       require (\<not> (row_depth_min row \<noteq> None \<or> row_depth_max row \<noteq> None \<or> row_shift row \<noteq> None \<or>
                 row_use_log row \<noteq> None \<or> row_pix_fmt row = Some ''gray12le'' \<or>
                 (length (feature_shape feature) = 3 \<and> feature_shape feature ! 2 = 1)))
         ''video feature uses depth-only metadata'' (Inr rgb_video_feature))"

definition parse_feature ::
  "(string \<Rightarrow> string) \<Rightarrow> (fp \<Rightarrow> fp) \<Rightarrow> info_row \<Rightarrow> string \<Rightarrow> parse_state \<Rightarrow> parse_state result" where
  "parse_feature lower log_d row name st =
     (case row_dtype row of
        None \<Rightarrow> Inl (BinderException ''Each feature requires a non-NULL dtype field'')
      | Some dtype \<Rightarrow>
          bindE (ValidateLerobotFeatureName lower name) (\<lambda>_.
          require (lower name \<notin> set (p_names_seen st)) ''Duplicate feature key'' (
          bindE (parse_shape row) (\<lambda>shape.
            let feature = \<lparr>feature_name = name, feature_dtype = dtype, feature_shape = shape,
                           feature_is_depth = (row_is_depth_map row = Some True)\<rparr>;
                st' = st\<lparr>p_names_seen := lower name # p_names_seen st,
                        p_features := p_features st @ [feature]\<rparr>
            in if dtype \<noteq> ''video'' then Inr st'
               else bindE (parse_video_metadata log_d row feature) (\<lambda>meta.
                      Inr (st'\<lparr>p_videos := p_videos st @ [(name, meta)]\<rparr>))))))"

definition parse_info_row ::
  "(string \<Rightarrow> string) \<Rightarrow> (fp \<Rightarrow> fp) \<Rightarrow> info_row \<Rightarrow> parse_state \<Rightarrow> parse_state result" where
  "parse_info_row lower log_d row st =
     (case record_index row of
        None \<Rightarrow> Inl (BinderException ''info.json produced a NULL metadata record index'')
      | Some i \<Rightarrow>
          require (i = 1) ''info.json must contain exactly one metadata record'' (
          bindE (if p_found st then Inr st else parse_header row st) (\<lambda>st.
            (case row_feature_key row of
               None \<Rightarrow> Inr st
             | Some name \<Rightarrow> parse_feature lower log_d row name st))))"

definition lance_name :: "string \<Rightarrow> string" where
  "lance_name name = map (\<lambda>c. if c = CHR ''.'' then CHR ''_'' else c) name"

definition check_lance_names :: "(string \<Rightarrow> string) \<Rightarrow> scan_schema \<Rightarrow> unit result" where
  "check_lance_names lower schema =
     require (distinct (map (\<lambda>(name, t). lower (lance_name name)) schema))
       ''Lance feature names collide'' (Inr ())"

definition build_schemas ::
  "(string \<Rightarrow> string) \<Rightarrow> dataset_info \<Rightarrow> parsed_feature list \<Rightarrow> dataset_info result" where
  "build_schemas lower info features =
     bindE (if total_episodes info = 0 then BuildEmptyDatasetSchemas info features
            else if storage_format info = ''lance'' then BuildFrameSchema info features
            else Inr info) (\<lambda>info.
     if storage_format info = ''lance''
     then bindE (check_lance_names lower (frame_schema info)) (\<lambda>_. Inr info)
     else Inr info)"

definition finish_info ::
  "(string \<Rightarrow> string) \<Rightarrow> parse_state \<Rightarrow> dataset_info result" where
  "finish_info lower st =
     (let info = p_info st
      in require (p_found st) ''info.json contains no metadata record'' (
         require (\<not> (codebase_version info = [] \<or> data_path_template info = []))
           ''codebase_version and data_path must not be empty'' (
         require (IsV3Version (codebase_version info)) ''route pruning requires a v3 dataset'' (
         require (\<not> info_fps info \<le> 0) ''fps must be positive'' (
         require (\<not> (total_episodes info < 0 \<or> total_frames info < 0 \<or> total_tasks info < 0))
           ''total counts must be non-negative'' (
         require ((total_episodes info = 0) = (total_frames info = 0))
           ''total_episodes and total_frames must either both be zero or both be positive'' (
         let videos = sort_key fst (p_videos st);
             info = info\<lparr>video_keys := map fst videos, video_feature_metadata := map snd videos\<rparr>
         in require (\<not> (video_keys info \<noteq> [] \<and> video_path_template info = [])) ''info.json requires video_path'' (
            build_schemas lower info (p_features st)))))))))"

definition ParseLerobotInfo ::
  "(string \<Rightarrow> string) \<Rightarrow> (fp \<Rightarrow> fp) \<Rightarrow> info_row list \<Rightarrow> dataset_info result" where
  "ParseLerobotInfo lower log_d rows =
     bindE (foldE (parse_info_row lower log_d) rows
       \<lparr>p_info = empty_info, p_features = [], p_names_seen = [], p_videos = [], p_found = False\<rparr>)
       (finish_info lower)"

section \<open>What an accepted manifest guarantees\<close>

definition video_feature_ok :: "(fp \<Rightarrow> fp) \<Rightarrow> video_feature \<Rightarrow> bool" where
  "video_feature_ok log_d v \<longleftrightarrow>
     (if is_depth_map v
      then LerobotValidFloat32DepthParameters log_d (depth_min v) (depth_max v) (depth_shift v) (use_log v)
      else v = rgb_video_feature)"

definition info_ok :: "(string \<Rightarrow> string) \<Rightarrow> (fp \<Rightarrow> fp) \<Rightarrow> dataset_info \<Rightarrow> bool" where
  "info_ok lower log_d info \<longleftrightarrow>
     IsV3Version (codebase_version info) \<and> data_path_template info \<noteq> [] \<and>
     (storage_format info = ''lerobot'' \<or> storage_format info = ''lance'') \<and>
     0 < info_fps info \<and> 0 \<le> total_episodes info \<and> 0 \<le> total_frames info \<and> 0 \<le> total_tasks info \<and>
     (total_episodes info = 0) = (total_frames info = 0) \<and>
     sorted (video_keys info) \<and> distinct (map lower (video_keys info)) \<and>
     list_all (IsPortablePathComponent lower) (video_keys info) \<and>
     length (video_feature_metadata info) = length (video_keys info) \<and>
     list_all (video_feature_ok log_d) (video_feature_metadata info) \<and>
     (video_keys info \<noteq> [] \<longrightarrow> video_path_template info \<noteq> [])"

definition parse_inv :: "(string \<Rightarrow> string) \<Rightarrow> (fp \<Rightarrow> fp) \<Rightarrow> parse_state \<Rightarrow> bool" where
  "parse_inv lower log_d st \<longleftrightarrow>
     p_names_seen st = rev (map (\<lambda>f. lower (feature_name f)) (p_features st)) \<and>
     distinct (map (\<lambda>f. lower (feature_name f)) (p_features st)) \<and>
     list_all (\<lambda>f. IsPortablePathComponent lower (feature_name f)) (p_features st) \<and>
     map fst (p_videos st) = map feature_name (filter (\<lambda>f. feature_dtype f = ''video'') (p_features st)) \<and>
     list_all (\<lambda>(name, v). video_feature_ok log_d v) (p_videos st) \<and>
     (storage_format (p_info st) = ''lerobot'' \<or> storage_format (p_info st) = ''lance'')"

lemma parse_video_metadata_ok:
  "parse_video_metadata log_d row feature = Inr v \<Longrightarrow> video_feature_ok log_d v"
  by (auto simp: parse_video_metadata_def video_feature_ok_def rgb_video_feature_def split: if_splits option.splits)

lemma parse_header_inv:
  assumes "parse_header row st = Inr st'" and "parse_inv lower log_d st"
  shows "parse_inv lower log_d st'"
  using assms by (auto simp: parse_header_def parse_inv_def Let_def split: option.splits)

lemma parse_feature_inv:
  assumes "parse_feature lower log_d row name st = Inr st'" and "parse_inv lower log_d st"
  shows "parse_inv lower log_d st'"
proof -
  obtain dtype where dtype: "row_dtype row = Some dtype"
    using assms(1) by (auto simp: parse_feature_def split: option.splits)
  from assms(1) dtype have port: "IsPortablePathComponent lower name"
    and fresh: "lower name \<notin> set (p_names_seen st)"
    by (auto simp: parse_feature_def ValidateLerobotFeatureName_def split: if_splits)
  from assms(1) dtype obtain shape where shape: "parse_shape row = Inr shape"
    by (auto simp: parse_feature_def)
  let ?f = "\<lparr>feature_name = name, feature_dtype = dtype, feature_shape = shape,
             feature_is_depth = (row_is_depth_map row = Some True)\<rparr>"
  show ?thesis
  proof (cases "dtype = ''video''")
    case True
    with assms(1) dtype shape obtain v where v: "parse_video_metadata log_d row ?f = Inr v"
      and st': "st' = st\<lparr>p_names_seen := lower name # p_names_seen st,
        p_features := p_features st @ [?f], p_videos := p_videos st @ [(name, v)]\<rparr>"
      by (auto simp: parse_feature_def Let_def)
    show ?thesis
      using assms(2) port fresh parse_video_metadata_ok [OF v] True
      by (simp add: st' parse_inv_def)
  next
    case False
    with assms(1) dtype shape have "st' = st\<lparr>p_names_seen := lower name # p_names_seen st,
        p_features := p_features st @ [?f]\<rparr>"
      by (auto simp: parse_feature_def Let_def)
    then show ?thesis using assms(2) port fresh False by (simp add: parse_inv_def)
  qed
qed

lemma parse_info_row_inv:
  assumes "parse_info_row lower log_d row st = Inr st'" and "parse_inv lower log_d st"
  shows "parse_inv lower log_d st'"
proof -
  from assms(1) obtain st1 where st1: "(if p_found st then Inr st else parse_header row st) = Inr st1"
    and rest: "(case row_feature_key row of None \<Rightarrow> Inr st1
                | Some name \<Rightarrow> parse_feature lower log_d row name st1) = Inr st'"
    by (auto simp: parse_info_row_def split: option.splits)
  have "parse_inv lower log_d st1"
    using st1 assms(2) parse_header_inv by (auto split: if_splits)
  with rest show ?thesis using parse_feature_inv by (auto split: option.splits)
qed

definition same_but_schemas :: "dataset_info \<Rightarrow> dataset_info \<Rightarrow> bool" where
  "same_but_schemas a b \<longleftrightarrow> (\<exists>s1 s2. b = a\<lparr>frame_schema := s1, episode_schema := s2\<rparr>)"

lemma same_but_schemas_refl: "same_but_schemas a a"
  unfolding same_but_schemas_def
  by (rule exI [of _ "frame_schema a"], rule exI [of _ "episode_schema a"]) simp

lemma same_but_schemas_frame: "same_but_schemas a (a\<lparr>frame_schema := s\<rparr>)"
  unfolding same_but_schemas_def
  by (rule exI [of _ s], rule exI [of _ "episode_schema a"]) simp

lemma BuildFrameSchema_only:
  "BuildFrameSchema info features = Inr info' \<Longrightarrow> same_but_schemas info info'"
  by (auto simp: BuildFrameSchema_def same_but_schemas_frame split: sum.splits)

lemma same_but_schemas_episode: "same_but_schemas a b \<Longrightarrow> same_but_schemas a (b\<lparr>episode_schema := s\<rparr>)"
proof -
  assume "same_but_schemas a b"
  then obtain s1 s2 where "b = a\<lparr>frame_schema := s1, episode_schema := s2\<rparr>"
    by (auto simp: same_but_schemas_def)
  then have "b\<lparr>episode_schema := s\<rparr> = a\<lparr>frame_schema := s1, episode_schema := s\<rparr>" by simp
  then show ?thesis unfolding same_but_schemas_def by blast
qed

lemma BuildEmptyDatasetSchemas_only:
  "BuildEmptyDatasetSchemas info features = Inr info' \<Longrightarrow> same_but_schemas info info'"
  by (auto simp: BuildEmptyDatasetSchemas_def same_but_schemas_episode split: sum.splits
      dest!: BuildFrameSchema_only)

lemma build_schemas_only:
  "build_schemas lower info features = Inr info' \<Longrightarrow> same_but_schemas info info'"
  by (auto simp: build_schemas_def same_but_schemas_refl split: if_splits
      dest: BuildFrameSchema_only BuildEmptyDatasetSchemas_only)

lemma finish_info_ok:
  assumes fin: "finish_info lower st = Inr info" and inv: "parse_inv lower log_d st"
  shows "info_ok lower log_d info"
proof -
  let ?v = "sort_key fst (p_videos st)"
  let ?i = "p_info st\<lparr>video_keys := map fst ?v, video_feature_metadata := map snd ?v\<rparr>"
  from fin have "same_but_schemas ?i info"
    unfolding finish_info_def Let_def require_Inr_iff by (elim conjE) (rule build_schemas_only)
  then obtain s1 s2 where info: "info = ?i\<lparr>frame_schema := s1, episode_schema := s2\<rparr>"
    by (auto simp: same_but_schemas_def)
  from fin have checks: "codebase_version ?i \<noteq> []" "data_path_template ?i \<noteq> []" "IsV3Version (codebase_version ?i)"
    "0 < info_fps ?i" "0 \<le> total_episodes ?i" "0 \<le> total_frames ?i" "0 \<le> total_tasks ?i"
    "(total_episodes ?i = 0) = (total_frames ?i = 0)"
    "video_keys ?i \<noteq> [] \<longrightarrow> video_path_template ?i \<noteq> []"
    by (simp_all add: finish_info_def Let_def) blast
  have names: "map fst (p_videos st) = map feature_name (filter (\<lambda>f. feature_dtype f = ''video'') (p_features st))"
    and dist: "distinct (map (\<lambda>f. lower (feature_name f)) (p_features st))"
    and port: "list_all (\<lambda>f. IsPortablePathComponent lower (feature_name f)) (p_features st)"
    and ok: "list_all (\<lambda>(name, v). video_feature_ok log_d v) (p_videos st)"
    and fmt: "storage_format (p_info st) = ''lerobot'' \<or> storage_format (p_info st) = ''lance''"
    using inv by (simp_all add: parse_inv_def)
  have "distinct (map lower (map fst (p_videos st)))"
    unfolding names map_map comp_def using dist by (rule distinct_map_filter)
  moreover have "mset (map lower (map fst ?v)) = mset (map lower (map fst (p_videos st)))"
    by (simp add: mset_sort)
  ultimately have d: "distinct (map lower (map fst ?v))" by (metis mset_eq_imp_distinct_iff)
  have "set (map fst ?v) = set (map fst (p_videos st))" by simp
  then have "list_all (IsPortablePathComponent lower) (map fst ?v)"
    using port unfolding names list_all_iff by auto
  moreover have "list_all (video_feature_ok log_d) (map snd ?v)"
    using ok by (auto simp: list_all_iff)
  ultimately show ?thesis
    using checks d fmt by (simp add: info_ok_def info)
qed

lemma ParseLerobotInfo_ok:
  assumes "ParseLerobotInfo lower log_d rows = Inr info"
  shows "info_ok lower log_d info"
proof -
  let ?st0 = "\<lparr>p_info = empty_info, p_features = [], p_names_seen = [], p_videos = [], p_found = False\<rparr>"
  from assms obtain st where st: "foldE (parse_info_row lower log_d) rows ?st0 = Inr st"
    and fin: "finish_info lower st = Inr info"
    by (auto simp: ParseLerobotInfo_def)
  have "parse_inv lower log_d ?st0" by (simp add: parse_inv_def empty_info_def)
  from foldE_invariant [where P = "parse_inv lower log_d", OF st this] parse_info_row_inv
  have "parse_inv lower log_d st" by blast
  with fin show ?thesis by (rule finish_info_ok)
qed

section \<open>Properties\<close>

text \<open>An accepted \<open>info.json\<close> is a usable v3 manifest: positive frame rate, non-negative totals that are
  both zero or both positive, a data path, a video path when there are videos; its video keys are
  sorted, portable path components and distinct even up to case (what the binary searches over them
  and the file systems need), each with its own metadata, and every depth feature has parameters that
  \<open>LerobotValidFloat32DepthParameters\<close> accepts, while the other videos carry no depth parameters.
\<close>
lemma parsed_info_ok:
  assumes "ParseLerobotInfo lower log_d rows = Inr info"
  shows "info_ok lower log_d info"
  using assms by (rule ParseLerobotInfo_ok)

definition example_info_row :: info_row where
  "example_info_row = \<lparr>record_index = Some 1, row_codebase_version = Some ''v3.0'',
     row_data_path = Some LEROBOT_DATA_PATH, row_video_path = Some LEROBOT_VIDEO_PATH, row_fps = Some 30,
     row_total_episodes = Some 2, row_total_frames = Some 5, row_total_tasks = Some 1,
     row_feature_key = Some ''cam.b'', row_dtype = Some ''video'',
     row_shape = Some [Some 4, Some 6, Some 3], row_is_depth_map = None, row_depth_min = None,
     row_depth_max = None, row_shift = None, row_use_log = None, row_pix_fmt = Some ''yuv420p'',
     row_legacy_info = Some ''false'', row_legacy_video_info = None, row_storage_format = None\<rparr>"

definition example_info_rows :: "info_row list" where
  "example_info_rows =
     [example_info_row, example_info_row\<lparr>row_feature_key := Some ''cam.a''\<rparr>,
      example_info_row\<lparr>row_feature_key := Some ''action'', row_dtype := Some ''float32'',
        row_shape := Some [Some 7]\<rparr>]"

definition example_info :: dataset_info where
  "example_info = \<lparr>storage_format = ''lerobot'', codebase_version = ''v3.0'',
     data_path_template = LEROBOT_DATA_PATH, video_path_template = LEROBOT_VIDEO_PATH, info_fps = 30,
     total_episodes = 2, total_frames = 5, total_tasks = 1, video_keys = [''cam.a'', ''cam.b''],
     video_feature_metadata = [rgb_video_feature, rgb_video_feature], frame_schema = [],
     episode_schema = []\<rparr>"

lemma example_info_parsed:
  "ParseLerobotInfo (\<lambda>s. s) (\<lambda>x. x) example_info_rows = Inr example_info"
  by code_simp

lemma parsed_info_ok_witness:
  "ParseLerobotInfo (\<lambda>s. s) (\<lambda>x. x) example_info_rows = Inr example_info \<and>
   info_ok (\<lambda>s. s) (\<lambda>x. x) example_info"
  using parsed_info_ok [OF example_info_parsed] example_info_parsed by simp

end
