(* ===== verification/MetadataCache.thy ===== *)
theory MetadataCache
  imports DatasetInfo
begin

text \<open>
  The metadata of a dataset and of its videos (\<open>src/storage/lerobot_metadata_cache.cpp\<close>,
  \<open>src/include/storage/lerobot_metadata_cache.hpp\<close>): loading the episode routes and the video routes,
  looking them up, and the cache protocol of the two \<open>Get\<close> functions. The rows of the nested queries
  are inputs of the model.
\<close>

section \<open>Data\<close>

record fingerprint =
  fp_size :: int
  last_modified :: int
  version_tag :: string

type_synonym metadata_file = "string \<times> fingerprint"

record episode_route =
  episode_index :: int
  episode_length :: int
  data_file_index :: nat

record dataset_metadata =
  md_root :: string
  md_info :: dataset_info
  md_routes :: "episode_route list"
  md_data_files :: "string list"
  md_fingerprint :: fingerprint
  md_episode_files :: "metadata_file list"

record video_route =
  vr_episode_index :: int
  vr_episode_length :: int
  vr_key_index :: nat
  vr_file_index :: nat
  vr_chunk :: int
  vr_file :: int
  vr_from :: fp
  vr_to :: fp

record video_metadata =
  vm_root :: string
  vm_path_template :: string
  vm_fps :: int
  vm_keys :: "string list"
  vm_features :: "video_feature list"
  vm_routes :: "video_route list"
  vm_files :: "string list"
  vm_fingerprint :: fingerprint
  vm_episode_files :: "metadata_file list"

definition IsLance :: "dataset_metadata \<Rightarrow> bool" where
  "IsLance m \<longleftrightarrow> storage_format (md_info m) = ''lance''"

definition GetFPS :: "dataset_metadata \<Rightarrow> int" where
  "GetFPS m = info_fps (md_info m)"

section \<open>Episode routes\<close>

text \<open>One row of the episode metadata: index, length and, for Parquet data, chunk and file index.\<close>

record episode_row =
  er_index :: "int option"
  er_length :: "int option"
  er_chunk :: "int option"
  er_file :: "int option"

definition load_episode_row ::
  "(string \<Rightarrow> string) \<Rightarrow> string \<Rightarrow> dataset_info \<Rightarrow> episode_row \<Rightarrow>
   episode_route list \<times> string list \<Rightarrow> (episode_route list \<times> string list) result" where
  "load_episode_row lower root_p info row acc =
     (let (routes, data_files) = acc;
          is_lance = (storage_format info = ''lance'')
      in case (er_index row, er_length row, if is_lance then Some 0 else er_chunk row,
               if is_lance then Some 0 else er_file row) of
           (Some index, Some len, Some chunk_index, Some file_index) \<Rightarrow>
             require (\<not> index < 0) ''episode indices must be non-negative'' (
             require (\<not> len \<le> 0) ''episode length must be positive'' (
             if is_lance
             then Inr (routes @ [\<lparr>episode_index = index, episode_length = len, data_file_index = 0\<rparr>], data_files)
             else bindE (ResolveDataPath lower root_p (data_path_template info) chunk_index file_index) (\<lambda>data_file.
                    let (i, data_files) = intern data_file data_files
                    in Inr (routes @ [\<lparr>episode_index = index, episode_length = len, data_file_index = i\<rparr>],
                            data_files))))
         | _ \<Rightarrow> Inl (BinderException ''episode routing columns must not contain NULL''))"

fun sum_lengths :: "int \<Rightarrow> episode_route list \<Rightarrow> int result" where
  "sum_lengths routed [] = Inr routed"
| "sum_lengths routed (r # rs) =
     (if episode_length r > INT64_MAX - routed
      then Inl (BinderException ''episode lengths overflow total_frames'')
      else sum_lengths (routed + episode_length r) rs)"

definition check_routes :: "dataset_info \<Rightarrow> episode_route list \<Rightarrow> unit result" where
  "check_routes info routes =
     require (\<not> has_adjacent (\<lambda>a b. episode_index a = episode_index b) routes) ''Duplicate episode_index'' (
     require (length routes = nat (total_episodes info)) ''total_episodes differs from the episode metadata'' (
     bindE (sum_lengths 0 routes) (\<lambda>routed_frames.
     require (routed_frames = total_frames info) ''total_frames differs from the episode metadata'' (Inr ()))))"

definition load_routes ::
  "(string \<Rightarrow> string) \<Rightarrow> string \<Rightarrow> dataset_info \<Rightarrow> episode_row list \<Rightarrow>
   (episode_route list \<times> string list) result" where
  "load_routes lower root_p info rows =
     (let initial = (if storage_format info = ''lance'' then [root_p @ ''/frames.lance''] else [])
      in bindE (foldE (load_episode_row lower root_p info) rows ([], initial)) (\<lambda>(routes, data_files).
         let routes = sort_key episode_index routes
         in bindE (check_routes info routes) (\<lambda>_. Inr (routes, data_files))))"

definition FindEpisodeRoute :: "dataset_metadata \<Rightarrow> int \<Rightarrow> episode_route option" where
  "FindEpisodeRoute m index = find_sorted episode_index (md_routes m) index"

definition resolve_data_file :: "dataset_metadata \<Rightarrow> int \<Rightarrow> string list \<Rightarrow> string list" where
  "resolve_data_file m index acc =
     (case find_sorted episode_index (md_routes m) index of
        None \<Rightarrow> acc
      | Some route \<Rightarrow>
          let path = md_data_files m ! data_file_index route
          in if path \<in> set acc then acc else acc @ [path])"

definition ResolveDataFiles :: "dataset_metadata \<Rightarrow> int list \<Rightarrow> string list" where
  "ResolveDataFiles m indices = sort (fold (resolve_data_file m) indices [])"

subsection \<open>The invariant of loaded metadata\<close>

definition routes_inv :: "dataset_metadata \<Rightarrow> bool" where
  "routes_inv m \<longleftrightarrow>
     sorted (map episode_index (md_routes m)) \<and> distinct (map episode_index (md_routes m)) \<and>
     list_all (\<lambda>r. 0 \<le> episode_index r \<and> 0 < episode_length r \<and> episode_length r \<le> INT64_MAX \<and>
                  data_file_index r < length (md_data_files m)) (md_routes m) \<and>
     distinct (md_data_files m)"

lemma FindEpisodeRoute_iff:
  "routes_inv m \<Longrightarrow> FindEpisodeRoute m e = Some r \<longleftrightarrow> r \<in> set (md_routes m) \<and> episode_index r = e"
  by (simp add: FindEpisodeRoute_def routes_inv_def find_sorted_iff)

interpretation episodes: lookup_table routes_inv md_routes "\<lambda>m. episode_index" FindEpisodeRoute
  by unfold_locales (simp add: routes_inv_def, rule FindEpisodeRoute_iff)

lemma sum_lengths_total:
  assumes "sum_lengths n rs = Inr s" and "list_all (\<lambda>r. 0 < episode_length r) rs" and "0 \<le> n"
  shows "s = n + sum_list (map episode_length rs) \<and> n \<le> s \<and> (n \<le> INT64_MAX \<longrightarrow> s \<le> INT64_MAX)"
  using assms
proof (induction rs arbitrary: n)
  case (Cons r rs)
  then have "sum_lengths (n + episode_length r) rs = Inr s" "n + episode_length r \<le> INT64_MAX"
    by (auto split: if_splits)
  with Cons.IH [of "n + episode_length r"] Cons.prems show ?case by simp
qed simp

lemma sum_lengths_each:
  assumes "sum_lengths n rs = Inr s" and "list_all (\<lambda>r. 0 < episode_length r) rs" and "0 \<le> n"
  shows "list_all (\<lambda>r. episode_length r \<le> INT64_MAX) rs"
  using assms by (induction rs arbitrary: n) (auto split: if_splits)

text \<open>The rows in terms of the routes they become.\<close>

definition row_route :: "(string \<Rightarrow> string) \<Rightarrow> string \<Rightarrow> dataset_info \<Rightarrow> string list \<Rightarrow>
    episode_row \<Rightarrow> episode_route \<Rightarrow> bool" where
  "row_route lower root_p info data_files row r \<longleftrightarrow>
     er_index row = Some (episode_index r) \<and> er_length row = Some (episode_length r) \<and>
     0 \<le> episode_index r \<and> 0 < episode_length r \<and> data_file_index r < length data_files \<and>
     (if storage_format info = ''lance'' then data_file_index r = 0
      else \<exists>c f. er_chunk row = Some c \<and> er_file row = Some f \<and>
        ResolveDataPath lower root_p (data_path_template info) c f = Inr (data_files ! data_file_index r))"

lemma row_route_mono:
  assumes "row_route lower root_p info xs row r" and "\<And>j. j < length xs \<Longrightarrow> j < length ys \<and> ys ! j = xs ! j"
  shows "row_route lower root_p info ys row r"
  using assms(1) assms(2) [of "data_file_index r"] by (auto simp: row_route_def)

lemma load_episode_row_step:
  assumes "load_episode_row lower root_p info row (routes, data_files) = Inr (routes', data_files')"
    and "list_all2 (row_route lower root_p info data_files) rows routes" and "distinct data_files"
    and "storage_format info = ''lance'' \<longrightarrow> data_files \<noteq> []"
  shows "list_all2 (row_route lower root_p info data_files') (rows @ [row]) routes' \<and> distinct data_files' \<and>
    (storage_format info = ''lance'' \<longrightarrow> data_files' = data_files)"
proof (cases "storage_format info = ''lance''")
  case True
  with assms(1) obtain i l where "er_index row = Some i" "er_length row = Some l" "0 \<le> i" "0 < l"
    "routes' = routes @ [\<lparr>episode_index = i, episode_length = l, data_file_index = 0\<rparr>]" "data_files' = data_files"
    by (auto simp: load_episode_row_def split: option.splits)
  with True assms(2,3,4) show ?thesis by (auto simp: row_route_def intro!: list_all2_appendI)
next
  case False
  with assms(1) obtain i l c f p where row: "er_index row = Some i" "er_length row = Some l" "0 \<le> i" "0 < l"
    "er_chunk row = Some c" "er_file row = Some f"
    and p: "ResolveDataPath lower root_p (data_path_template info) c f = Inr p"
    and out: "routes' = routes @ [\<lparr>episode_index = i, episode_length = l, data_file_index = fst (intern p data_files)\<rparr>]"
      "data_files' = snd (intern p data_files)"
    by (auto simp: load_episode_row_def Let_def case_prod_beta split: option.splits)
  note int = intern_result [of p data_files "fst (intern p data_files)" "snd (intern p data_files)", simplified]
  have "list_all2 (row_route lower root_p info data_files') rows routes"
    using assms(2) by (rule list_all2_mono) (rule row_route_mono, assumption, simp add: out int(5))
  moreover have "row_route lower root_p info data_files' row
      \<lparr>episode_index = i, episode_length = l, data_file_index = fst (intern p data_files)\<rparr>"
    using False row p int(1,2) by (simp add: row_route_def out)
  ultimately show ?thesis using False int(4) assms(3) out by (auto intro!: list_all2_appendI)
qed

lemma load_rows:
  assumes "foldE (load_episode_row lower root_p info) rows ([], initial) = Inr (routes, data_files)"
    and "initial = (if storage_format info = ''lance'' then [root_p @ ''/frames.lance''] else [])"
  shows "list_all2 (row_route lower root_p info data_files) rows routes \<and> distinct data_files \<and>
    (storage_format info = ''lance'' \<longrightarrow> data_files = [root_p @ ''/frames.lance''])"
  using assms(1)
proof (induction rows arbitrary: routes data_files rule: rev_induct)
  case Nil
  then show ?case by (auto simp: assms(2))
next
  case (snoc row rows)
  from snoc.prems obtain routes1 files1 where
    1: "foldE (load_episode_row lower root_p info) rows ([], initial) = Inr (routes1, files1)"
    and 2: "load_episode_row lower root_p info row (routes1, files1) = Inr (routes, data_files)"
    by (auto split: sum.splits)
  from snoc.IH [OF 1] load_episode_row_step [OF 2] show ?case by auto
qed

lemma check_routes_ok:
  assumes "check_routes info routes = Inr ()" and "sorted (map episode_index routes)"
    and "list_all (\<lambda>r. 0 < episode_length r) routes"
  shows "distinct (map episode_index routes)" "length routes = nat (total_episodes info)"
    "sum_list (map episode_length routes) = total_frames info" "total_frames info \<le> INT64_MAX"
    "list_all (\<lambda>r. episode_length r \<le> INT64_MAX) routes"
proof -
  from assms(1) have a: "\<not> has_adjacent (\<lambda>a b. episode_index a = episode_index b) routes"
    and l: "length routes = nat (total_episodes info)"
    and s: "sum_lengths 0 routes = Inr (total_frames info)"
    by (simp_all add: check_routes_def)
  show "distinct (map episode_index routes)" using assms(2) a by (rule no_adjacent_distinct)
  show "length routes = nat (total_episodes info)" by (rule l)
  from sum_lengths_total [OF s assms(3)]
  show "sum_list (map episode_length routes) = total_frames info" "total_frames info \<le> INT64_MAX"
    by (simp_all add: INT64_MAX_def)
  from sum_lengths_each [OF s assms(3)] show "list_all (\<lambda>r. episode_length r \<le> INT64_MAX) routes" by simp
qed

lemma row_route_sets:
  assumes "list_all2 (row_route lower root_p info files) rows routes"
  shows "row \<in> set rows \<Longrightarrow> \<exists>r \<in> set routes. row_route lower root_p info files row r"
    and "r \<in> set routes \<Longrightarrow> \<exists>row \<in> set rows. row_route lower root_p info files row r"
  using assms by (metis in_set_conv_nth list_all2_conv_all_nth)+

lemma load_routes_ok:
  assumes "load_routes lower root_p info rows = Inr (routes, data_files)"
  shows "sorted (map episode_index routes)" "distinct (map episode_index routes)" "distinct data_files"
    "length rows = length routes" "length routes = nat (total_episodes info)"
    "sum_list (map episode_length routes) = total_frames info"
    "list_all (\<lambda>r. 0 \<le> episode_index r \<and> 0 < episode_length r \<and> episode_length r \<le> INT64_MAX \<and>
       data_file_index r < length data_files) routes"
    "row \<in> set rows \<Longrightarrow> \<exists>r \<in> set routes. row_route lower root_p info data_files row r"
    "r \<in> set routes \<Longrightarrow> \<exists>row \<in> set rows. row_route lower root_p info data_files row r"
    "storage_format info = ''lance'' \<Longrightarrow> data_files = [root_p @ ''/frames.lance'']"
proof -
  let ?init = "if storage_format info = ''lance'' then [root_p @ ''/frames.lance''] else []"
  from assms obtain rs where f: "foldE (load_episode_row lower root_p info) rows ([], ?init) = Inr (rs, data_files)"
    and routes: "routes = sort_key episode_index rs" and c: "check_routes info routes = Inr ()"
    by (auto simp: load_routes_def Let_def)
  from load_rows [OF f refl] have rel: "list_all2 (row_route lower root_p info data_files) rows rs"
    and d: "distinct data_files"
    and lance: "storage_format info = ''lance'' \<longrightarrow> data_files = [root_p @ ''/frames.lance'']" by auto
  have each: "list_all (\<lambda>r. 0 \<le> episode_index r \<and> 0 < episode_length r \<and> data_file_index r < length data_files) routes"
    using row_route_sets(2) [OF rel] by (auto simp: list_all_iff routes row_route_def)
  then have pos: "list_all (\<lambda>r. 0 < episode_length r) routes" by (auto simp: list_all_iff)
  have srt: "sorted (map episode_index routes)" by (simp add: routes)
  note ck = check_routes_ok [OF c srt pos]
  show "sorted (map episode_index routes)" by (rule srt)
  show "distinct (map episode_index routes)" by (rule ck(1))
  show "distinct data_files" by (rule d)
  show "length rows = length routes" using list_all2_lengthD [OF rel] by (simp add: routes)
  show "length routes = nat (total_episodes info)" by (rule ck(2))
  show "sum_list (map episode_length routes) = total_frames info" by (rule ck(3))
  show "list_all (\<lambda>r. 0 \<le> episode_index r \<and> 0 < episode_length r \<and> episode_length r \<le> INT64_MAX \<and>
       data_file_index r < length data_files) routes"
    using each ck(5) by (auto simp: list_all_iff)
  show "row \<in> set rows \<Longrightarrow> \<exists>r \<in> set routes. row_route lower root_p info data_files row r"
    using row_route_sets(1) [OF rel] by (simp add: routes)
  show "r \<in> set routes \<Longrightarrow> \<exists>row \<in> set rows. row_route lower root_p info data_files row r"
    using row_route_sets(2) [OF rel] by (simp add: routes)
  show "storage_format info = ''lance'' \<Longrightarrow> data_files = [root_p @ ''/frames.lance'']" using lance by simp
qed

subsection \<open>Files of a set of episodes\<close>

lemma resolve_data_file_step:
  "set (resolve_data_file m e acc) = set acc \<union>
     (case FindEpisodeRoute m e of None \<Rightarrow> {} | Some r \<Rightarrow> {md_data_files m ! data_file_index r})"
  "distinct acc \<Longrightarrow> distinct (resolve_data_file m e acc)"
  by (auto simp: resolve_data_file_def FindEpisodeRoute_def Let_def split: option.splits)

lemma resolve_data_files_fold:
  "set (fold (resolve_data_file m) es acc) = set acc \<union>
     {md_data_files m ! data_file_index r | e r. e \<in> set es \<and> FindEpisodeRoute m e = Some r}"
  "distinct acc \<Longrightarrow> distinct (fold (resolve_data_file m) es acc)"
  by (induction es arbitrary: acc)
     (auto simp: resolve_data_file_step split: option.splits)

lemma ResolveDataFiles_set:
  "set (ResolveDataFiles m es) =
     {md_data_files m ! data_file_index r | e r. e \<in> set es \<and> FindEpisodeRoute m e = Some r}"
  "distinct (ResolveDataFiles m es)" "sorted (ResolveDataFiles m es)"
  using resolve_data_files_fold [where m = m and es = es and acc = "[]"] by (simp_all add: ResolveDataFiles_def)

section \<open>Video routes\<close>

text \<open>One row of \<open>videos.lance\<close>, and one row of the episode metadata with four columns per video key.\<close>

record lance_video_row =
  lv_key :: "string option"
  lv_chunk :: "int option"
  lv_file :: "int option"
  lv_size :: "int option"
  lv_blob_size :: "int option"
  lv_uri :: "string option"

record video_row =
  vw_index :: "int option"
  vw_length :: "int option"
  vw_columns :: "(int option \<times> int option \<times> fp option \<times> fp option) list"

type_synonym lance_videos = "((string \<times> int \<times> int) \<times> string) list"

definition load_lance_video :: "lance_video_row \<Rightarrow> lance_videos \<Rightarrow> lance_videos result" where
  "load_lance_video row videos =
     (case (lv_key row, lv_chunk row, lv_file row, lv_size row, lv_blob_size row, lv_uri row) of
        (Some key, Some chunk_index, Some file_index, Some file_size, Some blob_size, Some uri) \<Rightarrow>
          require (\<not> (key = [] \<or> chunk_index < 0 \<or> file_index < 0 \<or> file_size \<le> 0 \<or> file_size \<noteq> blob_size))
            ''Invalid videos.lance route or file_size'' (
          require (map_of videos (key, chunk_index, file_index) = None) ''Duplicate videos.lance route'' (
          Inr (videos @ [((key, chunk_index, file_index), uri)])))
      | _ \<Rightarrow> Inl (BinderException ''videos.lance routing columns and blobs must not be NULL''))"

type_synonym video_acc = "video_route list \<times> string list \<times> nat list"

definition load_video_key ::
  "(string \<Rightarrow> string) \<Rightarrow> dataset_metadata \<Rightarrow> lance_videos \<Rightarrow> int \<Rightarrow> int \<Rightarrow>
   nat \<times> int option \<times> int option \<times> fp option \<times> fp option \<Rightarrow> video_acc \<Rightarrow> video_acc result" where
  "load_video_key lower d lance episode len column acc =
     (case acc of (routes, files, file_keys) \<Rightarrow>
      (case column of
         (key_index, None, None, None, None) \<Rightarrow> Inr acc
       | (key_index, Some chunk_index, Some file_index, Some from_timestamp, Some to_timestamp) \<Rightarrow>
           require (\<not> (chunk_index < 0 \<or> file_index < 0)) ''video chunk and file indices must be non-negative'' (
           require (\<not> (\<not> fis_finite from_timestamp \<or> \<not> fis_finite to_timestamp \<or>
                     flt from_timestamp (Fin 0) \<or> flt to_timestamp from_timestamp))
             ''Invalid video timestamp range'' (
           let key = video_keys (md_info d) ! key_index
           in bindE (if IsLance d
                     then (case map_of lance (key, chunk_index, file_index) of
                             None \<Rightarrow> Inl (BinderException ''videos.lance has no route'')
                           | Some uri \<Rightarrow> Inr uri)
                     else ResolveVideoPath lower (md_root d) (video_path_template (md_info d)) key
                            chunk_index file_index) (\<lambda>video_file.
              let (i, files') = intern video_file files;
                  file_keys' = (if video_file \<in> set files then file_keys else file_keys @ [key_index])
              in require (file_keys' ! i = key_index) ''video path is shared by feature keys'' (
                 Inr (routes @ [\<lparr>vr_episode_index = episode, vr_episode_length = len,
                                 vr_key_index = key_index, vr_file_index = i, vr_chunk = chunk_index,
                                 vr_file = file_index, vr_from = from_timestamp, vr_to = to_timestamp\<rparr>],
                      files', file_keys')))))
       | _ \<Rightarrow> Inl (BinderException ''video route is partially NULL'')))"

definition load_video_row ::
  "(string \<Rightarrow> string) \<Rightarrow> dataset_metadata \<Rightarrow> lance_videos \<Rightarrow> video_row \<Rightarrow> video_acc \<Rightarrow> video_acc result" where
  "load_video_row lower d lance row acc =
     (case (vw_index row, vw_length row) of
        (Some episode, Some len) \<Rightarrow>
          require (\<not> episode < 0) ''episode indices must be non-negative'' (
          require (\<not> len \<le> 0) ''episode length must be positive'' (
          foldE (load_video_key lower d lance episode len)
            (zip [0 ..< length (video_keys (md_info d))] (vw_columns row)) acc))
      | _ \<Rightarrow> Inl (BinderException ''episode_index and length must not be NULL in video metadata''))"

definition route_key :: "video_route \<Rightarrow> int \<times> nat" where
  "route_key r = (vr_episode_index r, vr_key_index r)"

definition video_metadata_of :: "dataset_metadata \<Rightarrow> video_route list \<Rightarrow> string list \<Rightarrow> video_metadata" where
  "video_metadata_of d routes files =
     \<lparr>vm_root = md_root d, vm_path_template = video_path_template (md_info d), vm_fps = GetFPS d,
      vm_keys = video_keys (md_info d), vm_features = video_feature_metadata (md_info d),
      vm_routes = routes, vm_files = files, vm_fingerprint = md_fingerprint d,
      vm_episode_files = md_episode_files d\<rparr>"

definition load_videos ::
  "(string \<Rightarrow> string) \<Rightarrow> dataset_metadata \<Rightarrow> lance_video_row list result \<Rightarrow> video_row list result \<Rightarrow>
   video_metadata result" where
  "load_videos lower d lance_rows rows =
     (if total_episodes (md_info d) = 0 \<or> video_keys (md_info d) = [] then Inr (video_metadata_of d [] [])
      else
        bindE (if IsLance d then bindE lance_rows (\<lambda>vs. foldE load_lance_video vs []) else Inr []) (\<lambda>lance.
        bindE rows (\<lambda>vrows.
        bindE (foldE (load_video_row lower d lance) vrows ([], [], [])) (\<lambda>(routes, files, file_keys).
          let routes = sort_key route_key routes
          in require (\<not> has_adjacent (\<lambda>a b. route_key a = route_key b) routes) ''Duplicate video route'' (
             Inr (video_metadata_of d routes files))))))"

subsection \<open>Lookups\<close>

fun scan_episode :: "int \<Rightarrow> nat \<Rightarrow> video_route list \<Rightarrow> video_route option" where
  "scan_episode e k [] = None"
| "scan_episode e k (r # rs) =
     (if vr_episode_index r = e then
        (if vr_key_index r = k then Some r
         else if vr_key_index r > k then None
         else scan_episode e k rs)
      else None)"

definition key_position :: "video_metadata \<Rightarrow> string \<Rightarrow> nat option" where
  "key_position vm key =
     (let i = lower_bound (\<lambda>k. k < key) (vm_keys vm)
      in if i = length (vm_keys vm) \<or> vm_keys vm ! i \<noteq> key then None else Some i)"

definition routes_from :: "video_metadata \<Rightarrow> int \<Rightarrow> video_route list" where
  "routes_from vm e = drop (lower_bound (\<lambda>r. vr_episode_index r < e) (vm_routes vm)) (vm_routes vm)"

definition FindRoute :: "video_metadata \<Rightarrow> int \<Rightarrow> string \<Rightarrow> video_route option" where
  "FindRoute vm e key =
     (case key_position vm key of None \<Rightarrow> None | Some k \<Rightarrow> scan_episode e k (routes_from vm e))"

definition ResolveRoutes :: "video_metadata \<Rightarrow> int list \<Rightarrow> string list \<Rightarrow> video_route list result" where
  "ResolveRoutes vm episodes requested =
     bindE (mapE (\<lambda>key. case key_position vm key of
                         None \<Rightarrow> Inl (BinderException ''Unknown video key'') | Some i \<Rightarrow> Inr i) requested)
       (\<lambda>indices.
          let keys = sort_unique indices
          in Inr (concat (map (\<lambda>e. filter (\<lambda>r. vr_key_index r \<in> set keys)
               (takeWhile (\<lambda>r. vr_episode_index r = e) (routes_from vm e))) episodes)))"

definition video_routes_inv :: "video_metadata \<Rightarrow> bool" where
  "video_routes_inv vm \<longleftrightarrow>
     sorted (vm_keys vm) \<and> distinct (vm_keys vm) \<and>
     sorted (map route_key (vm_routes vm)) \<and> distinct (map route_key (vm_routes vm)) \<and>
     list_all (\<lambda>r. 0 \<le> vr_episode_index r \<and> 0 < vr_episode_length r \<and>
        vr_key_index r < length (vm_keys vm) \<and> vr_file_index r < length (vm_files vm) \<and>
        fis_finite (vr_from r) \<and> fle (Fin 0) (vr_from r) \<and> fle (vr_from r) (vr_to r)) (vm_routes vm) \<and>
     distinct (vm_files vm) \<and>
     list_all (\<lambda>r. list_all (\<lambda>s. vr_file_index s = vr_file_index r \<longrightarrow> vr_key_index s = vr_key_index r)
        (vm_routes vm)) (vm_routes vm)"

lemma key_position_iff:
  assumes "sorted (vm_keys vm)" and "distinct (vm_keys vm)"
  shows "key_position vm key = Some i \<longleftrightarrow> i < length (vm_keys vm) \<and> vm_keys vm ! i = key"
proof
  assume "key_position vm key = Some i"
  then show "i < length (vm_keys vm) \<and> vm_keys vm ! i = key"
    using lower_bound_le [of "\<lambda>k. k < key" "vm_keys vm"]
    by (auto simp: key_position_def Let_def le_eq_less_or_eq simp del: lower_bound_le split: if_splits)
next
  assume i: "i < length (vm_keys vm) \<and> vm_keys vm ! i = key"
  from lower_bound_sorted_find [where key = "\<lambda>k. k" and xs = "vm_keys vm" and x = key and k = key] assms i
  have "lower_bound (\<lambda>k. k < key) (vm_keys vm) < length (vm_keys vm)"
    "vm_keys vm ! lower_bound (\<lambda>k. k < key) (vm_keys vm) = vm_keys vm ! i"
    by (auto intro: nth_mem)
  moreover from this i assms(2) have "lower_bound (\<lambda>k. k < key) (vm_keys vm) = i"
    using nth_eq_iff_index_eq [OF assms(2)] by metis
  ultimately show "key_position vm key = Some i" using i by (simp add: key_position_def)
qed

lemma routes_from_split:
  assumes "sorted (map route_key (vm_routes vm))"
  shows "routes_from vm e = filter (\<lambda>r. e \<le> vr_episode_index r) (vm_routes vm)"
proof -
  have srt: "sorted (map vr_episode_index (vm_routes vm))"
  proof (rule sorted_wrt_mono_rel [of _ "\<lambda>a b. route_key a \<le> route_key b", THEN iffD2 [OF sorted_map]])
    show "sorted_wrt (\<lambda>a b. route_key a \<le> route_key b) (vm_routes vm)"
      using assms by (simp add: sorted_map)
  qed (auto simp: route_key_def less_eq_prod_def)
  have "drop (lower_bound (\<lambda>r. vr_episode_index r < e) rs) rs = filter (\<lambda>r. e \<le> vr_episode_index r) rs"
    if "sorted (map vr_episode_index rs)" for rs
    using that
  proof (induction rs)
    case (Cons r rs)
    show ?case
    proof (cases "vr_episode_index r < e")
      case True
      with Cons show ?thesis by (simp add: lower_bound_def)
    next
      case False
      with Cons.prems have "filter (\<lambda>r. e \<le> vr_episode_index r) rs = rs"
        by (intro filter_True) auto
      with False show ?thesis by (simp add: lower_bound_def)
    qed
  qed simp
  with srt show ?thesis by (simp add: routes_from_def)
qed

lemma video_routes_invD:
  assumes "video_routes_inv vm"
  shows "sorted (vm_keys vm)" "distinct (vm_keys vm)" "sorted (map route_key (vm_routes vm))"
    "distinct (map route_key (vm_routes vm))"
    "\<And>r. r \<in> set (vm_routes vm) \<Longrightarrow> vr_key_index r < length (vm_keys vm)"
  using assms unfolding video_routes_inv_def list_all_iff by blast+

lemma scan_episode_iff:
  assumes "sorted (map route_key rs)" and "distinct (map route_key rs)"
    and "list_all (\<lambda>r. e \<le> vr_episode_index r) rs"
  shows "scan_episode e k rs = Some r \<longleftrightarrow> r \<in> set rs \<and> route_key r = (e, k)"
  using assms
proof (induction rs)
  case (Cons x rs)
  have later: "route_key x < route_key s" if "s \<in> set rs" for s
    using Cons.prems(1,2) that by (auto simp: order.strict_iff_order)
  have IH: "scan_episode e k rs = Some r \<longleftrightarrow> r \<in> set rs \<and> route_key r = (e, k)"
    using Cons by simp
  consider "vr_episode_index x = e" "vr_key_index x = k" | "vr_episode_index x = e" "vr_key_index x > k"
    | "vr_episode_index x = e" "vr_key_index x < k" | "e < vr_episode_index x"
    using Cons.prems(3) by fastforce
  then show ?case
  proof cases
    case 1
    with later show ?thesis by (force simp: route_key_def)
  next
    case 2
    with later show ?thesis by (force simp: route_key_def)
  next
    case 3
    with IH show ?thesis by (auto simp: route_key_def)
  next
    case 4
    with later show ?thesis by (force simp: route_key_def)
  qed
qed simp

lemma FindRoute_iff:
  assumes inv: "video_routes_inv vm"
  shows "FindRoute vm e key = Some r \<longleftrightarrow>
    r \<in> set (vm_routes vm) \<and> (vr_episode_index r, vm_keys vm ! vr_key_index r) = (e, key)"
proof -
  let ?rs = "filter (\<lambda>r. e \<le> vr_episode_index r) (vm_routes vm)"
  have srt: "sorted (map route_key (vm_routes vm))" "distinct (map route_key (vm_routes vm))"
    and keys: "sorted (vm_keys vm)" "distinct (vm_keys vm)"
    and idx: "\<And>r. r \<in> set (vm_routes vm) \<Longrightarrow> vr_key_index r < length (vm_keys vm)"
    using video_routes_invD [OF inv] by blast+
  have rf: "routes_from vm e = ?rs" using srt(1) by (rule routes_from_split)
  have scan: "scan_episode e k ?rs = Some r \<longleftrightarrow> r \<in> set ?rs \<and> route_key r = (e, k)" for k
    by (rule scan_episode_iff)
       (use srt in \<open>simp_all add: sorted_filter distinct_map_filter list_all_iff\<close>)
  show ?thesis
  proof (cases "key_position vm key")
    case None
    then have "\<not> (i < length (vm_keys vm) \<and> vm_keys vm ! i = key)" for i
      using key_position_iff [OF keys, of key i] by simp
    with None idx show ?thesis by (auto simp: FindRoute_def)
  next
    case (Some k)
    then have k: "k < length (vm_keys vm)" "vm_keys vm ! k = key"
      using key_position_iff [OF keys] by blast+
    have "vm_keys vm ! vr_key_index r = key \<longleftrightarrow> vr_key_index r = k" if "r \<in> set (vm_routes vm)"
      using idx [OF that] k nth_eq_iff_index_eq [OF keys(2)] by blast
    then show ?thesis
      unfolding FindRoute_def Some option.case rf scan by (auto simp: route_key_def)
  qed
qed

lemma video_keys_distinct:
  assumes inv: "video_routes_inv vm"
  shows "distinct (map (\<lambda>r. (vr_episode_index r, vm_keys vm ! vr_key_index r)) (vm_routes vm))"
proof -
  have "distinct (map route_key (vm_routes vm))" "distinct (vm_keys vm)"
    "\<And>r. r \<in> set (vm_routes vm) \<Longrightarrow> vr_key_index r < length (vm_keys vm)"
    using video_routes_invD [OF inv] by blast+
  then show ?thesis
    by (auto simp: distinct_map inj_on_def route_key_def nth_eq_iff_index_eq)
qed

interpretation videos: lookup_table video_routes_inv vm_routes
    "\<lambda>vm r. (vr_episode_index r, vm_keys vm ! vr_key_index r)" "\<lambda>vm (e, key). FindRoute vm e key"
  by unfold_locales (simp add: video_keys_distinct, simp add: FindRoute_iff split: prod.splits)

lemma takeWhile_episode:
  assumes "sorted (map route_key (vm_routes vm))"
  shows "takeWhile (\<lambda>r. vr_episode_index r = e) (routes_from vm e) =
    filter (\<lambda>r. vr_episode_index r = e) (vm_routes vm)"
proof -
  have "takeWhile (\<lambda>r. vr_episode_index r = e) (filter (\<lambda>r. e \<le> vr_episode_index r) rs) =
      filter (\<lambda>r. vr_episode_index r = e) rs" if "sorted (map route_key rs)" for rs
    using that
  proof (induction rs)
    case (Cons r rs)
    show ?case
    proof (cases "e < vr_episode_index r")
      case True
      with Cons.prems have "\<forall>s \<in> set rs. e < vr_episode_index s"
        by (auto simp: route_key_def less_eq_prod_def)
      with True have "filter (\<lambda>r. vr_episode_index r = e) (r # rs) = []"
        by (auto simp: filter_empty_conv)
      with True show ?thesis by simp
    next
      case False
      with Cons show ?thesis by auto
    qed
  qed simp
  with routes_from_split [OF assms] assms show ?thesis by simp
qed

lemma ResolveRoutes_spec:
  assumes inv: "video_routes_inv vm" and keys: "set requested \<subseteq> set (vm_keys vm)"
  shows "ResolveRoutes vm es requested =
    Inr (concat (map (\<lambda>e. filter (\<lambda>r. vr_episode_index r = e \<and> vm_keys vm ! vr_key_index r \<in> set requested)
      (vm_routes vm)) es))"
proof -
  have k: "sorted (vm_keys vm)" "distinct (vm_keys vm)" and srt: "sorted (map route_key (vm_routes vm))"
    and idx: "\<And>r. r \<in> set (vm_routes vm) \<Longrightarrow> vr_key_index r < length (vm_keys vm)"
    using video_routes_invD [OF inv] by blast+
  let ?g = "\<lambda>key. the (key_position vm key)"
  have pos: "key_position vm key = Some (?g key) \<and> ?g key < length (vm_keys vm) \<and> vm_keys vm ! ?g key = key"
    if "key \<in> set requested" for key
  proof -
    from that keys obtain i where "i < length (vm_keys vm)" "vm_keys vm ! i = key"
      by (metis in_set_conv_nth subsetD)
    with key_position_iff [OF k, of key i] show ?thesis by simp
  qed
  have m: "mapE (\<lambda>key. case key_position vm key of
      None \<Rightarrow> Inl (BinderException ''Unknown video key'') | Some i \<Rightarrow> Inr i) requested = Inr (map ?g requested)"
    by (rule mapE_all_Inr) (auto dest: pos split: option.splits)
  have mem: "vr_key_index r \<in> set (map ?g requested) \<longleftrightarrow> vm_keys vm ! vr_key_index r \<in> set requested"
    if "r \<in> set (vm_routes vm)" for r
  proof
    assume "vr_key_index r \<in> set (map ?g requested)"
    then obtain key where "key \<in> set requested" "vr_key_index r = ?g key" by auto
    with pos show "vm_keys vm ! vr_key_index r \<in> set requested" by metis
  next
    assume a: "vm_keys vm ! vr_key_index r \<in> set requested"
    from pos [OF this] idx [OF that]
      nth_eq_iff_index_eq [OF k(2), of "?g (vm_keys vm ! vr_key_index r)" "vr_key_index r"]
    have "?g (vm_keys vm ! vr_key_index r) = vr_key_index r" by simp
    moreover have "?g (vm_keys vm ! vr_key_index r) \<in> ?g ` set requested" using a by (rule imageI)
    ultimately show "vr_key_index r \<in> set (map ?g requested)" by simp
  qed
  have f: "filter (\<lambda>r. vr_key_index r \<in> set (map ?g requested))
      (filter (\<lambda>r. vr_episode_index r = e) (vm_routes vm)) =
    filter (\<lambda>r. vr_episode_index r = e \<and> vm_keys vm ! vr_key_index r \<in> set requested) (vm_routes vm)" for e
    unfolding filter_filter by (rule filter_cong [OF refl]) (use mem in blast)
  show ?thesis
    unfolding ResolveRoutes_def m bindE.simps Let_def set_sort_unique takeWhile_episode [OF srt] f ..
qed

subsection \<open>Loading keeps the routes consistent\<close>

text \<open>
  The accumulator of the loader: every file is used by the one key recorded for it, and every route
  points to a file of its own key.
\<close>

definition route_fits :: "nat \<Rightarrow> nat \<Rightarrow> nat list \<Rightarrow> video_route \<Rightarrow> bool" where
  "route_fits n_keys n_files file_keys r \<longleftrightarrow>
     0 \<le> vr_episode_index r \<and> 0 < vr_episode_length r \<and> vr_key_index r < n_keys \<and>
     vr_file_index r < n_files \<and> file_keys ! vr_file_index r = vr_key_index r \<and>
     fis_finite (vr_from r) \<and> fle (Fin 0) (vr_from r) \<and> fle (vr_from r) (vr_to r)"

definition video_acc_inv :: "dataset_metadata \<Rightarrow> video_acc \<Rightarrow> bool" where
  "video_acc_inv d acc \<longleftrightarrow>
     (case acc of (routes, files, file_keys) \<Rightarrow>
       distinct files \<and> length file_keys = length files \<and>
       list_all (route_fits (length (video_keys (md_info d))) (length files) file_keys) routes)"

lemma route_fits_mono:
  assumes "route_fits n m fk r" and "\<And>j. j < m \<Longrightarrow> j < m' \<and> fk' ! j = fk ! j"
  shows "route_fits n m' fk' r"
  using assms(1) assms(2) [of "vr_file_index r"] by (simp add: route_fits_def)

lemma fle_finite: "fis_finite x \<Longrightarrow> fis_finite y \<Longrightarrow> \<not> flt y x \<Longrightarrow> fle x y"
  by (cases x; cases y) (auto simp: fis_finite_def fle_def feq_def)

lemma load_video_key_inv:
  assumes step: "load_video_key lower d lance episode len column acc = Inr acc'"
    and inv: "video_acc_inv d acc" and "0 \<le> episode" and "0 < len"
    and key: "fst column < length (video_keys (md_info d))"
  shows "video_acc_inv d acc'"
proof -
  obtain routes files file_keys where acc: "acc = (routes, files, file_keys)" by (cases acc)
  obtain k c f a b where col: "column = (k, c, f, a, b)" by (cases column)
  show ?thesis
  proof (cases "c = None \<and> f = None \<and> a = None \<and> b = None")
    case True
    with step col acc have "acc' = acc" by (simp add: load_video_key_def)
    with inv show ?thesis by simp
  next
    case False
    with step obtain c' f' x y where some: "c = Some c'" "f = Some f'" "a = Some x" "b = Some y"
      by (cases c; cases f; cases a; cases b) (simp_all add: load_video_key_def col acc)
    let ?key = "video_keys (md_info d) ! k"
    from step obtain vf where
      time: "\<not> (\<not> fis_finite x \<or> \<not> fis_finite y \<or> flt x (Fin 0) \<or> flt y x)"
      and shared: "(if vf \<in> set files then file_keys else file_keys @ [k]) ! fst (intern vf files) = k"
      and acc': "acc' = (routes @ [\<lparr>vr_episode_index = episode, vr_episode_length = len, vr_key_index = k,
            vr_file_index = fst (intern vf files), vr_chunk = c', vr_file = f', vr_from = x, vr_to = y\<rparr>],
          snd (intern vf files), if vf \<in> set files then file_keys else file_keys @ [k])"
      by (auto simp: load_video_key_def col acc some Let_def case_prod_beta cong: if_cong)
    let ?fk = "if vf \<in> set files then file_keys else file_keys @ [k]"
    note int = intern_result [of vf files "fst (intern vf files)" "snd (intern vf files)", simplified]
    from inv have d: "distinct files" "length file_keys = length files"
      and rs: "list_all (route_fits (length (video_keys (md_info d))) (length files) file_keys) routes"
      unfolding acc video_acc_inv_def prod.case by blast+
    have len': "length ?fk = length (snd (intern vf files))" using d by (simp add: intern_def)
    have keep: "j < length files \<Longrightarrow> j < length (snd (intern vf files)) \<and> ?fk ! j = file_keys ! j" for j
      using d int(5) [of j] by (simp add: nth_append)
    have t: "fle (Fin 0) x" "fle x y" "fis_finite x"
      using time fp_nonneg fle_finite by blast+
    have old: "list_all (route_fits (length (video_keys (md_info d))) (length (snd (intern vf files))) ?fk) routes"
      using rs by (rule list.pred_mono_strong) (rule route_fits_mono [OF _ keep])
    have new: "route_fits (length (video_keys (md_info d))) (length (snd (intern vf files))) ?fk
        \<lparr>vr_episode_index = episode, vr_episode_length = len, vr_key_index = k,
         vr_file_index = fst (intern vf files), vr_chunk = c', vr_file = f', vr_from = x, vr_to = y\<rparr>"
      unfolding route_fits_def video_route.simps
      by (intro conjI t shared int(1) assms(3,4)) (use key col in simp)
    show ?thesis
      unfolding acc' video_acc_inv_def prod.case list_all_append list.pred_inject
      by (intro conjI TrueI int(4) [OF d(1)] len' old new) (simp only: list.pred_inject)
  qed
qed

lemma load_video_row_inv:
  assumes step: "load_video_row lower d lance row acc = Inr acc'" and inv: "video_acc_inv d acc"
  shows "video_acc_inv d acc'"
proof -
  from step obtain e l where el: "0 \<le> e" "0 < l" and
    f: "foldE (load_video_key lower d lance e l) (zip [0 ..< length (video_keys (md_info d))] (vw_columns row)) acc
      = Inr acc'"
    by (auto simp: load_video_row_def linorder_not_less linorder_not_le split: option.splits)
  show ?thesis
  proof (rule foldE_invariant [where P = "video_acc_inv d", OF f inv])
    fix col s s'
    assume "col \<in> set (zip [0 ..< length (video_keys (md_info d))] (vw_columns row))"
    then have "fst col < length (video_keys (md_info d))"       by (metis atLeastLessThan_iff prod.collapse set_upt set_zip_leftD)
    moreover assume "video_acc_inv d s" "load_video_key lower d lance e l col s = Inr s'"
    ultimately show "video_acc_inv d s'" using load_video_key_inv el by blast
  qed
qed

lemma load_videos_inv:
  assumes ld: "load_videos lower d lance_rows rows = Inr vm"
    and keys: "sorted (video_keys (md_info d))" "distinct (video_keys (md_info d))"
  shows "video_routes_inv vm \<and> vm_keys vm = video_keys (md_info d)"
proof (cases "total_episodes (md_info d) = 0 \<or> video_keys (md_info d) = []")
  case True
  with ld have "vm = video_metadata_of d [] []" by (simp add: load_videos_def)
  with keys show ?thesis by (simp add: video_routes_inv_def video_metadata_of_def)
next
  case False
  with ld obtain lance vrows routes files file_keys where
    f: "foldE (load_video_row lower d lance) vrows ([], [], []) = Inr (routes, files, file_keys)"
    and adj: "\<not> has_adjacent (\<lambda>a b. route_key a = route_key b) (sort_key route_key routes)"
    and vm: "vm = video_metadata_of d (sort_key route_key routes) files"
    by (auto simp: load_videos_def Let_def)
  have "video_acc_inv d ([], [], [])" by (simp add: video_acc_inv_def)
  from foldE_invariant [where P = "video_acc_inv d", OF f this] load_video_row_inv
  have inv: "video_acc_inv d (routes, files, file_keys)" by blast
  have dist: "distinct (map route_key (sort_key route_key routes))"
    by (rule no_adjacent_distinct [OF _ adj]) simp
  have fk: "\<And>r. r \<in> set routes \<Longrightarrow> file_keys ! vr_file_index r = vr_key_index r"
    using inv by (simp add: video_acc_inv_def list_all_iff route_fits_def)
  have excl: "list_all (\<lambda>r. list_all (\<lambda>s. vr_file_index s = vr_file_index r \<longrightarrow> vr_key_index s = vr_key_index r)
      (sort_key route_key routes)) (sort_key route_key routes)"
    unfolding list_all_iff set_sort by (metis fk)
  have ok: "list_all (\<lambda>r. 0 \<le> vr_episode_index r \<and> 0 < vr_episode_length r \<and>
      vr_key_index r < length (video_keys (md_info d)) \<and> vr_file_index r < length files \<and>
      fis_finite (vr_from r) \<and> fle (Fin 0) (vr_from r) \<and> fle (vr_from r) (vr_to r)) (sort_key route_key routes)"
    using inv unfolding video_acc_inv_def prod.case list_all_iff set_sort route_fits_def by blast
  have "distinct files" using inv unfolding video_acc_inv_def prod.case by blast
  with ok keys dist excl show ?thesis
    unfolding vm video_routes_inv_def video_metadata_of_def video_metadata.simps
    by (intro conjI refl) (assumption | rule sorted_sort_key)+
qed

section \<open>Properties\<close>

lemma load_routes_inv:
  assumes "load_routes lower root_p info rows = Inr (md_routes m, md_data_files m)"
  shows "routes_inv m"
  using load_routes_ok [OF assms] by (simp add: routes_inv_def)

text \<open>
  C10. After loading, episode lookup is the episode table: no two rows share an index, \<open>FindEpisodeRoute\<close>
  finds a route exactly for the indices of the rows, with the length of its row and a data file that is
  the expansion of the data path template for the chunk and file of that row; and the lengths sum to
  \<open>total_frames\<close>, in \<open>int64_t\<close>.
\<close>
theorem episode_lookup_after_load:
  assumes "load_routes lower root_p info rows = Inr (md_routes m, md_data_files m)"
    and "storage_format info = ''lerobot''"
  shows "(FindEpisodeRoute m e = None \<longleftrightarrow> Some e \<notin> er_index ` set rows) \<and>
    (FindEpisodeRoute m e = Some r \<longrightarrow>
       (\<exists>row \<in> set rows. \<exists>c f. er_index row = Some e \<and> er_length row = Some (episode_length r) \<and>
          er_chunk row = Some c \<and> er_file row = Some f \<and>
          ResolveDataPath lower root_p (data_path_template info) c f =
            Inr (md_data_files m ! data_file_index r))) \<and>
    distinct (map episode_index (md_routes m)) \<and> length rows = nat (total_episodes info) \<and>
    sum_list (map episode_length (md_routes m)) = total_frames info \<and> length (md_routes m) = length rows"
proof -
  note ld = load_routes_ok [OF assms(1)]
  have inv: "routes_inv m" using assms(1) by (rule load_routes_inv)
  have nolance: "storage_format info \<noteq> ''lance''" using assms(2) by simp
  have of_route: "\<exists>row \<in> set rows. \<exists>c f. er_index row = Some (episode_index r) \<and>
      er_length row = Some (episode_length r) \<and> er_chunk row = Some c \<and> er_file row = Some f \<and>
      ResolveDataPath lower root_p (data_path_template info) c f = Inr (md_data_files m ! data_file_index r)"
    if "r \<in> set (md_routes m)" for r
    using ld(9) [OF that] nolance unfolding row_route_def by metis
  have "FindEpisodeRoute m e = None \<longleftrightarrow> e \<notin> episode_index ` set (md_routes m)"
    using inv by (rule episodes.find_none_iff)
  also have "\<dots> \<longleftrightarrow> Some e \<notin> er_index ` set rows"
  proof
    have to_route: "e \<in> episode_index ` set (md_routes m)" if "row \<in> set rows" "er_index row = Some e" for row
    proof -
      from ld(8) [OF that(1)] obtain r where "r \<in> set (md_routes m)"
        "row_route lower root_p info (md_data_files m) row r" by blast
      with that(2) show ?thesis by (auto simp: row_route_def)
    qed
    then show "e \<notin> episode_index ` set (md_routes m) \<Longrightarrow> Some e \<notin> er_index ` set rows"
      by (metis imageE)
    show "e \<notin> episode_index ` set (md_routes m)" if none: "Some e \<notin> er_index ` set rows"
    proof
      assume "e \<in> episode_index ` set (md_routes m)"
      then obtain r where "r \<in> set (md_routes m)" "e = episode_index r" by blast
      with of_route [of r] none show False by force
    qed
  qed
  finally show ?thesis
    using of_route [of r] FindEpisodeRoute_iff [OF inv, of e r] ld(2,4,5,6) by auto
qed

definition example_episode_rows :: "episode_row list" where
  "example_episode_rows =
     [\<lparr>er_index = Some 1, er_length = Some 2, er_chunk = Some 0, er_file = Some 0\<rparr>,
      \<lparr>er_index = Some 0, er_length = Some 3, er_chunk = Some 0, er_file = Some 7\<rparr>]"

definition example_metadata :: dataset_metadata where
  "example_metadata = \<lparr>md_root = ''/d'', md_info = example_info,
     md_routes = [\<lparr>episode_index = 0, episode_length = 3, data_file_index = 1\<rparr>,
                  \<lparr>episode_index = 1, episode_length = 2, data_file_index = 0\<rparr>],
     md_data_files = [''/d/data/chunk-000/file-000.parquet'', ''/d/data/chunk-000/file-007.parquet''],
     md_fingerprint = \<lparr>fp_size = 1, last_modified = 1, version_tag = []\<rparr>, md_episode_files = []\<rparr>"

lemma example_load:
  "load_routes (\<lambda>s. s) ''/d'' example_info example_episode_rows =
     Inr (md_routes example_metadata, md_data_files example_metadata)"
  by code_simp

theorem episode_lookup_after_load_witness:
  "FindEpisodeRoute example_metadata 5 = None \<and>
   load_routes (\<lambda>s. s) ''/d'' example_info example_episode_rows =
     Inr (md_routes example_metadata, md_data_files example_metadata)"
proof -
  have f: "storage_format example_info = ''lerobot''" by (simp add: example_info_def)
  show ?thesis
    using episode_lookup_after_load [OF example_load f, of 5] example_load
    by (simp add: example_episode_rows_def)
qed

text \<open>
  C14. \<open>ResolveDataFiles\<close> prunes exactly: for loaded Parquet metadata and any list of episodes, the
  result is the sorted list, without repetition, of the data files of those episodes that exist, and
  nothing else is opened.
\<close>
theorem resolve_data_files_exact:
  assumes "load_routes lower root_p info rows = Inr (md_routes m, md_data_files m)"
    and "storage_format info = ''lerobot''"
  shows "ResolveDataFiles m es = sorted_list_of_set
    {p. \<exists>row \<in> set rows. \<exists>e c f. e \<in> set es \<and> er_index row = Some e \<and> er_chunk row = Some c \<and>
      er_file row = Some f \<and> ResolveDataPath lower root_p (data_path_template info) c f = Inr p}"
    (is "_ = sorted_list_of_set ?S")
proof -
  note ld = load_routes_ok [OF assms(1)]
  have inv: "routes_inv m" using assms(1) by (rule load_routes_inv)
  have nolance: "storage_format info \<noteq> ''lance''" using assms(2) by simp
  have "set (ResolveDataFiles m es) = ?S"
  proof (intro set_eqI iffI)
    fix p assume "p \<in> set (ResolveDataFiles m es)"
    then obtain e r where r: "e \<in> set es" "r \<in> set (md_routes m)" "episode_index r = e"
      "p = md_data_files m ! data_file_index r"
      by (auto simp: ResolveDataFiles_set FindEpisodeRoute_iff [OF inv])
    from ld(9) [OF r(2)] r nolance show "p \<in> ?S" unfolding row_route_def by auto
  next
    fix p assume "p \<in> ?S"
    then obtain row e c f where row: "row \<in> set rows" "e \<in> set es" "er_index row = Some e"
      "er_chunk row = Some c" "er_file row = Some f"
      "ResolveDataPath lower root_p (data_path_template info) c f = Inr p" by blast
    from ld(8) [OF row(1)] obtain r where "r \<in> set (md_routes m)"
      "row_route lower root_p info (md_data_files m) row r" by blast
    with row nolance have "FindEpisodeRoute m e = Some r" "p = md_data_files m ! data_file_index r"
      by (auto simp: row_route_def FindEpisodeRoute_iff [OF inv])
    with row(2) show "p \<in> set (ResolveDataFiles m es)" by (auto simp: ResolveDataFiles_set)
  qed
  then show ?thesis
    using ResolveDataFiles_set(2,3) [of m es] sorted_list_of_set.idem_if_sorted_distinct by metis
qed

theorem resolve_data_files_exact_witness:
  "ResolveDataFiles example_metadata [] = []"
proof -
  have f: "storage_format example_info = ''lerobot''" by (simp add: example_info_def)
  show ?thesis using resolve_data_files_exact [OF example_load f, of "[]"] by simp
qed

text \<open>
  C12. Loaded video metadata is a function from episode and video key to at most one route, with valid
  time ranges, and a video file belongs to one key only; \<open>FindRoute\<close> returns that route, and
  \<open>ResolveRoutes\<close> returns, for known keys, the routes of the requested episodes in order, those of the
  requested keys only.
\<close>
theorem video_lookup_after_load:
  assumes "load_videos lower d lance_rows rows = Inr vm" and "info_ok lower log_d (md_info d)"
  shows "(FindRoute vm e key = Some r \<longleftrightarrow>
      r \<in> set (vm_routes vm) \<and> vr_episode_index r = e \<and> vm_keys vm ! vr_key_index r = key) \<and>
    vm_keys vm = video_keys (md_info d) \<and>
    list_all (\<lambda>r. fle (Fin 0) (vr_from r) \<and> fle (vr_from r) (vr_to r) \<and>
      FindRoute vm (vr_episode_index r) (vm_keys vm ! vr_key_index r) = Some r \<and>
      list_all (\<lambda>s. vr_file_index s \<noteq> vr_file_index r \<or> vr_key_index s = vr_key_index r) (vm_routes vm))
      (vm_routes vm) \<and>
    (set requested \<subseteq> set (vm_keys vm) \<longrightarrow>
      ResolveRoutes vm es requested = Inr (concat (map (\<lambda>e. filter (\<lambda>r. vr_episode_index r = e \<and>
        vm_keys vm ! vr_key_index r \<in> set requested) (vm_routes vm)) es)))"
proof -
  have "distinct (map lower (video_keys (md_info d)))" "sorted (video_keys (md_info d))"
    using assms(2) by (simp_all add: info_ok_def)
  then have "sorted (video_keys (md_info d))" "distinct (video_keys (md_info d))"
    by (simp_all add: distinct_map)
  from load_videos_inv [OF assms(1) this]
  have inv: "video_routes_inv vm" and k: "vm_keys vm = video_keys (md_info d)" by simp_all
  have each: "list_all (\<lambda>r. fle (Fin 0) (vr_from r) \<and> fle (vr_from r) (vr_to r) \<and>
      FindRoute vm (vr_episode_index r) (vm_keys vm ! vr_key_index r) = Some r \<and>
      list_all (\<lambda>s. vr_file_index s \<noteq> vr_file_index r \<or> vr_key_index s = vr_key_index r) (vm_routes vm))
      (vm_routes vm)"
    using inv FindRoute_iff [OF inv] unfolding video_routes_inv_def list_all_iff by blast
  show ?thesis using FindRoute_iff [OF inv, of e key r] k each ResolveRoutes_spec [OF inv] by auto
qed

definition example_video_rows :: "video_row list" where
  "example_video_rows =
     [\<lparr>vw_index = Some 1, vw_length = Some 2,
       vw_columns = [(Some 0, Some 0, Some (Fin 3), Some (Fin 5)), (None, None, None, None)]\<rparr>,
      \<lparr>vw_index = Some 0, vw_length = Some 3,
       vw_columns = [(Some 0, Some 0, Some (Fin 0), Some (Fin 3)), (Some 0, Some 1, Some (Fin 0), Some (Fin 3))]\<rparr>]"

definition example_videos :: video_metadata where
  "example_videos = video_metadata_of example_metadata
     [\<lparr>vr_episode_index = 0, vr_episode_length = 3, vr_key_index = 0, vr_file_index = 0, vr_chunk = 0,
       vr_file = 0, vr_from = Fin 0, vr_to = Fin 3\<rparr>,
      \<lparr>vr_episode_index = 0, vr_episode_length = 3, vr_key_index = 1, vr_file_index = 1, vr_chunk = 0,
       vr_file = 1, vr_from = Fin 0, vr_to = Fin 3\<rparr>,
      \<lparr>vr_episode_index = 1, vr_episode_length = 2, vr_key_index = 0, vr_file_index = 0, vr_chunk = 0,
       vr_file = 0, vr_from = Fin 3, vr_to = Fin 5\<rparr>]
     [''/d/videos/cam.a/chunk-000/file-000.mp4'', ''/d/videos/cam.b/chunk-000/file-001.mp4'']"

lemma example_videos_loaded:
  "load_videos (\<lambda>s. s) example_metadata (Inr []) (Inr example_video_rows) = Inr example_videos"
  by code_simp

theorem video_lookup_after_load_witness:
  "FindRoute example_videos 1 ''cam.b'' = None \<and>
   load_videos (\<lambda>s. s) example_metadata (Inr []) (Inr example_video_rows) = Inr example_videos"
proof -
  have ok: "info_ok (\<lambda>s. s) (\<lambda>x. x) (md_info example_metadata)"
    using ParseLerobotInfo_ok [OF example_info_parsed] by (simp add: example_metadata_def)
  have "FindRoute example_videos 1 ''cam.b'' \<noteq> Some r" for r
  proof
    assume "FindRoute example_videos 1 ''cam.b'' = Some r"
    with video_lookup_after_load [OF example_videos_loaded ok, of 1 "''cam.b''" r "[]" "[]"]
    have "r \<in> set (vm_routes example_videos)" "vr_episode_index r = 1" "vm_keys example_videos ! vr_key_index r = ''cam.b''"
      by blast+
    then show False
      by (auto simp: example_videos_def video_metadata_of_def example_metadata_def example_info_def)
  qed
  then show ?thesis using example_videos_loaded by (cases "FindRoute example_videos 1 ''cam.b''") auto
qed

end
