(* ===== verification/CacheProtocol.thy ===== *)
theory CacheProtocol
  imports MetadataCache
begin

text \<open>
  How metadata enter and leave the object cache (\<open>LerobotDatasetMetadata::Get\<close>,
  \<open>LerobotVideoMetadata::Get\<close>, \<open>Invalidate\<close>, \<open>Peek\<close> and the reads they make, in
  \<open>src/storage/lerobot_metadata_cache.cpp\<close>).

  The storage and the access configuration can change while a \<open>Get\<close> runs. A \<open>world\<close> gives their state
  at every tick; each call that observes them takes one tick and sees the state of that tick. The
  object cache is a pair of maps from the keys.
\<close>

section \<open>Observations\<close>

record snapshot =
  sn_host :: path_host
  sn_interrupted :: bool
  sn_remote :: "string \<Rightarrow> bool"
  sn_open :: "string \<Rightarrow> fingerprint result"
    \<comment> \<open>open a file; its size, modification time and version tag\<close>
  sn_probe :: "string \<Rightarrow> unit result"
    \<comment> \<open>read the first byte of an open file\<close>
  sn_glob :: "string \<Rightarrow> string list result"
  sn_info_rows :: "string \<Rightarrow> info_row list result"
  sn_episode_rows :: "string \<Rightarrow> episode_row list result"
  sn_video_rows :: "string \<Rightarrow> string list \<Rightarrow> video_row list result"
  sn_lance_videos :: "string \<Rightarrow> lance_video_row list result"
  sn_replacement_scans :: bool
  sn_autoload_fails :: bool
  sn_lance_blob_uri :: bool

type_synonym world = "nat \<Rightarrow> snapshot"

record cache_state =
  clock :: nat
  ds_cache :: "string \<Rightarrow> dataset_metadata option"
  vm_cache :: "string \<Rightarrow> video_metadata option"

type_synonym 'a io = "cache_state \<Rightarrow> 'a result \<times> cache_state"

definition returnS :: "'a \<Rightarrow> 'a io" where
  "returnS x st = (Inr x, st)"

definition throwS :: "exn \<Rightarrow> 'a io" where
  "throwS e st = (Inl e, st)"

definition bindS :: "'a io \<Rightarrow> ('a \<Rightarrow> 'b io) \<Rightarrow> 'b io" where
  "bindS m k st = (case m st of (Inl e, st') \<Rightarrow> (Inl e, st') | (Inr x, st') \<Rightarrow> k x st')"

definition liftS :: "'a result \<Rightarrow> 'a io" where
  "liftS r st = (r, st)"

definition observe :: "world \<Rightarrow> (snapshot \<Rightarrow> 'a result) \<Rightarrow> 'a io" where
  "observe w f st = (f (w (clock st)), st\<lparr>clock := clock st + 1\<rparr>)"

lemma bindS_Inr [simp]:
  "bindS m k st = (Inr y, st') \<longleftrightarrow> (\<exists>x st1. m st = (Inr x, st1) \<and> k x st1 = (Inr y, st'))"
  by (auto simp: bindS_def split: prod.splits sum.splits)

lemma observe_Inr [simp]:
  "observe w f st = (Inr x, st') \<longleftrightarrow> f (w (clock st)) = Inr x \<and> st' = st\<lparr>clock := clock st + 1\<rparr>"
  by (auto simp: observe_def)

lemma returnS_Inr [simp]: "returnS x st = (Inr y, st') \<longleftrightarrow> y = x \<and> st' = st"
  by (auto simp: returnS_def)

lemma throwS_Inr [simp]: "throwS e st = (Inr y, st') \<longleftrightarrow> False"
  by (simp add: throwS_def)

lemma liftS_Inr [simp]: "liftS r st = (Inr y, st') \<longleftrightarrow> r = Inr y \<and> st' = st"
  by (auto simp: liftS_def)

section \<open>Reads\<close>

definition info_path :: "string \<Rightarrow> string" where "info_path rt = rt @ ''/meta/info.json''"
definition episodes_path :: "string \<Rightarrow> string" where "episodes_path rt = rt @ ''/meta/episodes/**/*.parquet''"

definition EnsureLerobotLanceExtension :: "snapshot \<Rightarrow> unit result" where
  "EnsureLerobotLanceExtension s =
     (if \<not> sn_replacement_scans s then Inl (BinderException ''Lance datasets require replacement scans'')
      else if sn_autoload_fails s then
        (if sn_interrupted s then Inl InterruptException
         else Inl (MissingExtensionException ''Lance datasets require the lance extension''))
      else if \<not> lance_loaded (sn_host s)
        then Inl (MissingExtensionException ''Lance datasets require the lance extension'')
      else Inr ())"

definition CheckVideoStorageFormat :: "string \<Rightarrow> bool \<Rightarrow> snapshot \<Rightarrow> unit result" where
  "CheckVideoStorageFormat format for_video s =
     (if \<not> for_video \<or> format \<noteq> ''lance'' then Inr ()
      else bindE (EnsureLerobotLanceExtension s) (\<lambda>_.
        if sn_lance_blob_uri s then Inr ()
        else Inl (NotImplementedException ''Lance videos require lance_blob_uri'')))"

definition ReadInfoFingerprint :: "string \<Rightarrow> snapshot \<Rightarrow> fingerprint result" where
  "ReadInfoFingerprint rt s =
     (if sn_interrupted s then Inl InterruptException
      else bindE (sn_open s (info_path rt)) (\<lambda>f.
        if sn_remote s rt \<and> fp_size f > 0 then bindE (sn_probe s (info_path rt)) (\<lambda>_. Inr f) else Inr f))"

definition ReadEpisodeFiles :: "string \<Rightarrow> snapshot \<Rightarrow> metadata_file list result" where
  "ReadEpisodeFiles rt s =
     (if sn_interrupted s then Inl InterruptException
      else bindE (sn_glob s (episodes_path rt)) (\<lambda>files.
        mapE (\<lambda>path. bindE (sn_open s path) (\<lambda>f.
          if fp_size f > 0 then bindE (sn_probe s path) (\<lambda>_. Inr (path, f)) else Inr (path, f))) (sort files)))"

definition EpisodeFilesAreValid :: "dataset_metadata \<Rightarrow> snapshot \<Rightarrow> bool result" where
  "EpisodeFilesAreValid m s =
     (if md_episode_files m = [] then Inr True
      else bindE (ReadEpisodeFiles (md_root m) s) (\<lambda>files. Inr (md_episode_files m = files)))"

definition ReadLerobotDatasetInfo ::
  "(string \<Rightarrow> string) \<Rightarrow> (fp \<Rightarrow> fp) \<Rightarrow> string \<Rightarrow> snapshot \<Rightarrow> dataset_info result" where
  "ReadLerobotDatasetInfo lower log_d rt s =
     bindE (ResolveLerobotRoot (sn_host s) rt) (\<lambda>resolved.
     bindE (sn_info_rows s (info_path resolved)) (\<lambda>rows. ParseLerobotInfo lower log_d rows))"

definition dataset_key :: "string \<Rightarrow> snapshot \<Rightarrow> string result" where
  "dataset_key rt s =
     bindE (LerobotRootCacheKey (sn_host s) rt) (\<lambda>k. Inr (''lerobot_dataset_metadata:'' @ k))"

definition video_key_of :: "string \<Rightarrow> snapshot \<Rightarrow> string result" where
  "video_key_of rt s =
     bindE (LerobotRootCacheKey (sn_host s) rt) (\<lambda>k. Inr (''lerobot_video_metadata:'' @ k))"

section \<open>Dataset metadata\<close>

definition LoadDataset ::
  "(string \<Rightarrow> string) \<Rightarrow> (fp \<Rightarrow> fp) \<Rightarrow> world \<Rightarrow> string \<Rightarrow> fingerprint \<Rightarrow> bool \<Rightarrow> dataset_metadata io" where
  "LoadDataset lower log_d w rt fpr for_video =
     bindS (observe w (ReadLerobotDatasetInfo lower log_d rt)) (\<lambda>info.
     bindS (observe w (CheckVideoStorageFormat (storage_format info) for_video)) (\<lambda>_.
     if total_episodes info = 0
     then returnS \<lparr>md_root = rt, md_info = info, md_routes = [], md_data_files = [],
                   md_fingerprint = fpr, md_episode_files = []\<rparr>
     else
       bindS (observe w (\<lambda>s. if sn_remote s rt then ReadEpisodeFiles rt s else Inr [])) (\<lambda>episode_files.
       bindS (observe w (\<lambda>s. sn_episode_rows s (episodes_path rt))) (\<lambda>rows.
       bindS (liftS (load_routes lower rt info rows)) (\<lambda>(routes, data_files).
       returnS \<lparr>md_root = rt, md_info = info, md_routes = routes, md_data_files = data_files,
                md_fingerprint = fpr, md_episode_files = episode_files\<rparr>)))))"

definition IsValid :: "world \<Rightarrow> dataset_metadata \<Rightarrow> bool io" where
  "IsValid w m =
     bindS (observe w (ReadInfoFingerprint (md_root m))) (\<lambda>f.
     if md_fingerprint m = f then observe w (EpisodeFilesAreValid m) else returnS False)"

definition InvalidateVideo :: "world \<Rightarrow> string \<Rightarrow> unit io" where
  "InvalidateVideo w rt =
     bindS (observe w (video_key_of rt)) (\<lambda>k st. (Inr (), st\<lparr>vm_cache := (vm_cache st)(k := None)\<rparr>))"

definition Invalidate :: "world \<Rightarrow> string \<Rightarrow> unit io" where
  "Invalidate w rt =
     bindS (observe w (dataset_key rt)) (\<lambda>k.
     bindS (\<lambda>st. (Inr (), st\<lparr>ds_cache := (ds_cache st)(k := None)\<rparr>)) (\<lambda>_.
     InvalidateVideo w rt))"

definition PeekDataset :: "world \<Rightarrow> string \<Rightarrow> dataset_metadata option io" where
  "PeekDataset w rt = bindS (observe w (dataset_key rt)) (\<lambda>k st. (Inr (ds_cache st k), st))"

definition PeekVideo :: "world \<Rightarrow> string \<Rightarrow> video_metadata option io" where
  "PeekVideo w rt = bindS (observe w (video_key_of rt)) (\<lambda>k st. (Inr (vm_cache st k), st))"

text \<open>The loop of two attempts: an attempt returns \<open>None\<close> to continue.\<close>

fun attempts :: "nat \<Rightarrow> (nat \<Rightarrow> 'a option io) \<Rightarrow> nat \<Rightarrow> 'a io" where
  "attempts 0 f i = throwS (IOException ''access configuration changed while metadata was being loaded'')"
| "attempts (Suc n) f i =
     bindS (f i) (\<lambda>r. case r of Some x \<Rightarrow> returnS x | None \<Rightarrow> attempts n f (i + 1))"

definition load_attempt ::
  "(string \<Rightarrow> string) \<Rightarrow> (fp \<Rightarrow> fp) \<Rightarrow> world \<Rightarrow> string \<Rightarrow> bool \<Rightarrow> string \<Rightarrow> string \<Rightarrow>
   dataset_metadata option io" where
  "load_attempt lower log_d w rt for_video cache_key resolved =
     bindS (observe w (ReadInfoFingerprint resolved)) (\<lambda>before.
     bindS (LoadDataset lower log_d w resolved before for_video) (\<lambda>loaded.
     bindS (observe w (EpisodeFilesAreValid loaded)) (\<lambda>files_valid.
     bindS (observe w (ReadInfoFingerprint resolved)) (\<lambda>after.
     if before = after \<and> files_valid
     then bindS (observe w (dataset_key rt)) (\<lambda>key2.
            if cache_key = key2
            then (\<lambda>st. (Inr (Some loaded), st\<lparr>ds_cache := (ds_cache st)(cache_key \<mapsto> loaded)\<rparr>))
            else returnS None)
     else returnS None))))"

definition cached_attempt ::
  "world \<Rightarrow> string \<Rightarrow> bool \<Rightarrow> string \<Rightarrow> dataset_metadata \<Rightarrow> dataset_metadata option io \<Rightarrow>
   dataset_metadata option io" where
  "cached_attempt w rt for_video cache_key cached otherwise =
     bindS (IsValid w cached) (\<lambda>valid.
     bindS (observe w (dataset_key rt)) (\<lambda>key2.
     if cache_key \<noteq> key2 then returnS None
     else if valid then
       bindS (observe w (CheckVideoStorageFormat (storage_format (md_info cached)) for_video)) (\<lambda>_.
       returnS (Some cached))
     else otherwise))"

definition dataset_attempt ::
  "(string \<Rightarrow> string) \<Rightarrow> (fp \<Rightarrow> fp) \<Rightarrow> world \<Rightarrow> string \<Rightarrow> bool \<Rightarrow> bool \<Rightarrow> nat \<Rightarrow>
   dataset_metadata option io" where
  "dataset_attempt lower log_d w rt refresh for_video i =
     bindS (observe w (dataset_key rt)) (\<lambda>cache_key.
     bindS (observe w (\<lambda>s. ResolveLerobotRoot (sn_host s) rt)) (\<lambda>resolved.
     if refresh
     then bindS (Invalidate w rt) (\<lambda>_. load_attempt lower log_d w rt for_video cache_key resolved)
     else (\<lambda>st.
       case ds_cache st cache_key of
         None \<Rightarrow> load_attempt lower log_d w rt for_video cache_key resolved st
       | Some cached \<Rightarrow>
           (if md_root cached = resolved
            then cached_attempt w rt for_video cache_key cached
                   (load_attempt lower log_d w rt for_video cache_key resolved)
            else load_attempt lower log_d w rt for_video cache_key resolved) st)))"

definition GetDataset ::
  "(string \<Rightarrow> string) \<Rightarrow> (fp \<Rightarrow> fp) \<Rightarrow> world \<Rightarrow> string \<Rightarrow> bool \<Rightarrow> bool \<Rightarrow> dataset_metadata io" where
  "GetDataset lower log_d w rt refresh for_video =
     attempts 2 (dataset_attempt lower log_d w rt refresh for_video) 0"

section \<open>Video metadata\<close>

definition VideoIsValid :: "video_metadata \<Rightarrow> dataset_metadata \<Rightarrow> bool" where
  "VideoIsValid vm d \<longleftrightarrow>
     vm_root vm = md_root d \<and> vm_fingerprint vm = md_fingerprint d \<and> vm_episode_files vm = md_episode_files d"

definition LoadVideo :: "(string \<Rightarrow> string) \<Rightarrow> world \<Rightarrow> dataset_metadata \<Rightarrow> video_metadata io" where
  "LoadVideo lower w d =
     bindS (observe w (\<lambda>s. Inr (sn_lance_videos s (md_root d @ ''/videos.lance'')))) (\<lambda>lance_rows.
     bindS (observe w (\<lambda>s. Inr (sn_video_rows s (episodes_path (md_root d)) (video_keys (md_info d))))) (\<lambda>rows.
     liftS (load_videos lower d lance_rows rows)))"

definition video_attempt ::
  "(string \<Rightarrow> string) \<Rightarrow> (fp \<Rightarrow> fp) \<Rightarrow> world \<Rightarrow> string \<Rightarrow> bool \<Rightarrow> nat \<Rightarrow> video_metadata option io" where
  "video_attempt lower log_d w rt refresh i =
     bindS (observe w (video_key_of rt)) (\<lambda>cache_key.
     bindS (GetDataset lower log_d w rt (refresh \<and> i = 0) True) (\<lambda>d.
     bindS (observe w (video_key_of rt)) (\<lambda>key2.
     if cache_key \<noteq> key2 then returnS None
     else (\<lambda>st.
       let load = bindS (LoadVideo lower w d) (\<lambda>loaded.
             bindS (GetDataset lower log_d w rt False True) (\<lambda>current.
             if VideoIsValid loaded current
             then bindS (observe w (video_key_of rt)) (\<lambda>key3.
                    if cache_key = key3
                    then (\<lambda>st. (Inr (Some loaded), st\<lparr>vm_cache := (vm_cache st)(cache_key \<mapsto> loaded)\<rparr>))
                    else returnS None)
             else returnS None))
       in if \<not> refresh \<and> \<not> IsLance d
          then (case vm_cache st cache_key of
                  Some cached \<Rightarrow> if VideoIsValid cached d then returnS (Some cached) st else load st
                | None \<Rightarrow> load st)
          else load st))))"

definition GetVideo ::
  "(string \<Rightarrow> string) \<Rightarrow> (fp \<Rightarrow> fp) \<Rightarrow> world \<Rightarrow> string \<Rightarrow> bool \<Rightarrow> video_metadata io" where
  "GetVideo lower log_d w rt refresh = attempts 2 (video_attempt lower log_d w rt refresh) 0"

section \<open>What every cached entry satisfies\<close>

definition metadata_ok :: "(string \<Rightarrow> string) \<Rightarrow> (fp \<Rightarrow> fp) \<Rightarrow> dataset_metadata \<Rightarrow> bool" where
  "metadata_ok lower log_d m \<longleftrightarrow>
     info_ok lower log_d (md_info m) \<and> routes_inv m \<and>
     length (md_routes m) = nat (total_episodes (md_info m)) \<and>
     sum_list (map episode_length (md_routes m)) = total_frames (md_info m)"

definition video_metadata_ok :: "video_metadata \<Rightarrow> bool" where
  "video_metadata_ok vm \<longleftrightarrow> video_routes_inv vm"

definition cache_ok :: "(string \<Rightarrow> string) \<Rightarrow> (fp \<Rightarrow> fp) \<Rightarrow> cache_state \<Rightarrow> bool" where
  "cache_ok lower log_d st \<longleftrightarrow>
     (\<forall>k m. ds_cache st k = Some m \<longrightarrow> metadata_ok lower log_d m) \<and>
     (\<forall>k vm. vm_cache st k = Some vm \<longrightarrow> video_metadata_ok vm)"

text \<open>Triples: an operation keeps \<open>P\<close>, also when it throws, and its result satisfies \<open>Q\<close>.\<close>

definition keeps :: "(cache_state \<Rightarrow> bool) \<Rightarrow> 'a io \<Rightarrow> ('a \<Rightarrow> bool) \<Rightarrow> bool" where
  "keeps P m Q \<longleftrightarrow>
     (\<forall>st r st'. P st \<longrightarrow> m st = (r, st') \<longrightarrow> P st' \<and> (\<forall>x. r = Inr x \<longrightarrow> Q x))"

lemma keepsI: "(\<And>st r st'. P st \<Longrightarrow> m st = (r, st') \<Longrightarrow> P st' \<and> (\<forall>x. r = Inr x \<longrightarrow> Q x)) \<Longrightarrow> keeps P m Q"
  by (simp add: keeps_def)

lemma keepsD: "keeps P m Q \<Longrightarrow> P st \<Longrightarrow> m st = (r, st') \<Longrightarrow> P st' \<and> (\<forall>x. r = Inr x \<longrightarrow> Q x)"
  by (simp add: keeps_def)

lemma keeps_bind:
  assumes m: "keeps P m Q" and k: "\<And>x. Q x \<Longrightarrow> keeps P (k x) R"
  shows "keeps P (bindS m k) R"
proof (rule keepsI)
  fix st r st' assume P: "P st" and run: "bindS m k st = (r, st')"
  obtain r1 st1 where 1: "m st = (r1, st1)" by (cases "m st")
  note 2 = keepsD [OF m P 1]
  show "P st' \<and> (\<forall>x. r = Inr x \<longrightarrow> R x)"
  proof (cases r1)
    case (Inl e)
    with run 1 2 show ?thesis by (auto simp: bindS_def)
  next
    case (Inr x)
    with run 1 have "k x st1 = (r, st')" by (simp add: bindS_def)
    with 2 Inr k show ?thesis using keepsD [of P "k x" R st1 r st'] by simp
  qed
qed

lemma keeps_weaken: "keeps P m Q \<Longrightarrow> (\<And>x. Q x \<Longrightarrow> R x) \<Longrightarrow> keeps P m R"
  by (auto simp: keeps_def)

lemma keeps_return: "Q x \<Longrightarrow> keeps P (returnS x) Q"
  by (simp add: keeps_def returnS_def)

lemma keeps_throw: "keeps P (throwS e) Q"
  by (simp add: keeps_def throwS_def)

lemma keeps_lift: "(\<And>x. r = Inr x \<Longrightarrow> Q x) \<Longrightarrow> keeps P (liftS r) Q"
  by (simp add: keeps_def liftS_def)

lemma cache_ok_clock [simp]: "cache_ok lower log_d (st\<lparr>clock := n\<rparr>) = cache_ok lower log_d st"
  by (simp add: cache_ok_def)

lemma keeps_observe:
  "(\<And>s x. f s = Inr x \<Longrightarrow> Q x) \<Longrightarrow> keeps (cache_ok lower log_d) (observe w f) Q"
  by (auto simp: keeps_def observe_def)

lemma keeps_observe_any: "keeps (cache_ok lower log_d) (observe w f) (\<lambda>_. True)"
  by (rule keeps_observe) simp

lemma keeps_delete:
  "keeps (cache_ok lower log_d) (\<lambda>st. (Inr (), st\<lparr>ds_cache := (ds_cache st)(k := None)\<rparr>)) (\<lambda>_. True)"
  "keeps (cache_ok lower log_d) (\<lambda>st. (Inr (), st\<lparr>vm_cache := (vm_cache st)(k := None)\<rparr>)) (\<lambda>_. True)"
  by (auto simp: keeps_def cache_ok_def)

lemma keeps_put:
  "metadata_ok lower log_d m \<Longrightarrow>
     keeps (cache_ok lower log_d) (\<lambda>st. (Inr (Some m), st\<lparr>ds_cache := (ds_cache st)(k \<mapsto> m)\<rparr>))
       (\<lambda>r. \<forall>m. r = Some m \<longrightarrow> metadata_ok lower log_d m)"
  "video_metadata_ok vm \<Longrightarrow>
     keeps (cache_ok lower log_d) (\<lambda>st. (Inr (Some vm), st\<lparr>vm_cache := (vm_cache st)(k \<mapsto> vm)\<rparr>))
       (\<lambda>r. \<forall>vm. r = Some vm \<longrightarrow> video_metadata_ok vm)"
  by (auto simp: keeps_def cache_ok_def)

lemma LoadDataset_Inr:
  assumes "LoadDataset lower log_d w rt fpr for_video st = (Inr m, st')"
  shows "md_root m = rt" "md_fingerprint m = fpr" "ds_cache st' = ds_cache st" "vm_cache st' = vm_cache st"
    "clock st < clock st'" "metadata_ok lower log_d m"
proof -
  from assms obtain info where info: "ReadLerobotDatasetInfo lower log_d rt (w (clock st)) = Inr info"
    by (auto simp: LoadDataset_def)
  then have ok: "info_ok lower log_d info"
    using ParseLerobotInfo_ok by (auto simp: ReadLerobotDatasetInfo_def)
  consider "total_episodes info = 0"
      "m = \<lparr>md_root = rt, md_info = info, md_routes = [], md_data_files = [], md_fingerprint = fpr,
        md_episode_files = []\<rparr>" "st' = st\<lparr>clock := clock st + 2\<rparr>"
    | rows routes files efiles where "load_routes lower rt info rows = Inr (routes, files)"
      "m = \<lparr>md_root = rt, md_info = info, md_routes = routes, md_data_files = files, md_fingerprint = fpr,
        md_episode_files = efiles\<rparr>" "st' = st\<lparr>clock := clock st + 4\<rparr>"
    using assms info by (auto simp: LoadDataset_def numeral_eq_Suc split: if_splits)
  then show "md_root m = rt" "md_fingerprint m = fpr" "ds_cache st' = ds_cache st" "vm_cache st' = vm_cache st"
    "clock st < clock st'" "metadata_ok lower log_d m"
    using ok load_routes_ok [of lower rt info]
    by (atomize (full), cases) (auto simp: metadata_ok_def routes_inv_def info_ok_def)
qed

lemma keeps_if: "(b \<Longrightarrow> keeps P m Q) \<Longrightarrow> (\<not> b \<Longrightarrow> keeps P n Q) \<Longrightarrow> keeps P (if b then m else n) Q"
  by simp

lemma keeps_lift_any: "keeps P (liftS r) (\<lambda>_. True)"
  by (rule keeps_lift) simp

lemmas keeps_intros =
  keeps_if keeps_bind [OF keeps_observe_any] keeps_bind [OF keeps_lift_any] keeps_return

lemma keeps_LoadDataset:
  "keeps (cache_ok lower log_d) (LoadDataset lower log_d w rt fpr for_video) (metadata_ok lower log_d)"
proof (rule keepsI)
  fix st r st' assume P: "cache_ok lower log_d st" and run: "LoadDataset lower log_d w rt fpr for_video st = (r, st')"
  have "keeps (cache_ok lower log_d) (LoadDataset lower log_d w rt fpr for_video) (\<lambda>_. True)"
    unfolding LoadDataset_def case_prod_beta
    by (intro keeps_intros) simp_all
  from keepsD [OF this P run] LoadDataset_Inr(6) run
  show "cache_ok lower log_d st' \<and> (\<forall>m. r = Inr m \<longrightarrow> metadata_ok lower log_d m)" by blast
qed

lemma keeps_attempts:
  assumes "\<And>i. keeps P (f i) (\<lambda>r. \<forall>x. r = Some x \<longrightarrow> Q x)"
  shows "keeps P (attempts n f i) Q"
proof (induction n arbitrary: i)
  case 0
  show ?case by (simp add: keeps_throw)
next
  case (Suc n)
  show ?case
    unfolding attempts.simps
    by (rule keeps_bind [OF assms]) (use Suc in \<open>auto intro: keeps_return split: option.splits\<close>)
qed

abbreviation (input) some_ok :: "('a \<Rightarrow> bool) \<Rightarrow> 'a option \<Rightarrow> bool" where
  "some_ok Q r \<equiv> \<forall>x. r = Some x \<longrightarrow> Q x"

lemma keeps_load_attempt:
  "keeps (cache_ok lower log_d) (load_attempt lower log_d w rt for_video k resolved) (some_ok (metadata_ok lower log_d))"
  unfolding load_attempt_def
proof (rule keeps_bind [OF keeps_observe_any], rule keeps_bind [OF keeps_LoadDataset],
    rule keeps_bind [OF keeps_observe_any], rule keeps_bind [OF keeps_observe_any], goal_cases)
  case (1 before loaded files_valid after)
  have none: "keeps (cache_ok lower log_d) (returnS None) (some_ok (metadata_ok lower log_d))"
    by (rule keeps_return) simp
  show ?case
    by (intro keeps_if keeps_bind [OF keeps_observe_any] keeps_put(1) [OF 1(2)] none)
qed

lemma keeps_Invalidate: "keeps (cache_ok lower log_d) (Invalidate w rt) (\<lambda>_. True)"
  unfolding Invalidate_def InvalidateVideo_def
  by (intro keeps_bind [OF keeps_observe_any] keeps_bind [OF keeps_delete(1)] keeps_delete(2))

lemma keeps_dataset_attempt:
  "keeps (cache_ok lower log_d) (dataset_attempt lower log_d w rt refresh for_video i)
     (some_ok (metadata_ok lower log_d))"
proof -
  have load: "keeps (cache_ok lower log_d) (load_attempt lower log_d w rt for_video k r) (some_ok (metadata_ok lower log_d))"
    for k r by (rule keeps_load_attempt)
  have none: "keeps (cache_ok lower log_d) (returnS None) (some_ok (metadata_ok lower log_d))"
    by (rule keeps_return) simp
  have valid: "keeps (cache_ok lower log_d) (IsValid w m) (\<lambda>_. True)" for m
    unfolding IsValid_def
    by (intro keeps_bind [OF keeps_observe_any]) (simp add: keeps_return keeps_observe_any)
  have cached: "keeps (cache_ok lower log_d) (cached_attempt w rt for_video k m other) (some_ok (metadata_ok lower log_d))"
    if "metadata_ok lower log_d m" "keeps (cache_ok lower log_d) other (some_ok (metadata_ok lower log_d))" for k m other
    unfolding cached_attempt_def
    by (intro keeps_bind [OF valid] keeps_bind [OF keeps_observe_any])
       (use that none in \<open>auto intro!: keeps_bind [OF keeps_observe_any] keeps_return\<close>)
  show ?thesis
    unfolding dataset_attempt_def
  proof (rule keeps_bind [OF keeps_observe_any], rule keeps_bind [OF keeps_observe_any], goal_cases)
    case (1 k resolved)
    show ?case
    proof (cases refresh)
      case True
      then show ?thesis using keeps_bind [OF keeps_Invalidate load] by simp
    next
      case False
      show ?thesis
      proof (rule keepsI)
        fix st r st' assume P: "cache_ok lower log_d st" and
          run: "(if refresh then bindS (Invalidate w rt) (\<lambda>_. load_attempt lower log_d w rt for_video k resolved)
             else (\<lambda>st. case ds_cache st k of None \<Rightarrow> load_attempt lower log_d w rt for_video k resolved st
                | Some cached \<Rightarrow> (if md_root cached = resolved
                    then cached_attempt w rt for_video k cached (load_attempt lower log_d w rt for_video k resolved)
                    else load_attempt lower log_d w rt for_video k resolved) st)) st = (r, st')"
        show "cache_ok lower log_d st' \<and> (\<forall>x. r = Inr x \<longrightarrow> some_ok (metadata_ok lower log_d) x)"
        proof (cases "ds_cache st k")
          case None
          with run False keepsD [OF load P] show ?thesis by simp
        next
          case (Some m)
          with P have "metadata_ok lower log_d m" by (auto simp: cache_ok_def)
          note c = cached [OF this load]
          show ?thesis
          proof (cases "md_root m = resolved")
            case True
            with run False Some keepsD [OF c P] show ?thesis by simp
          next
            case root_differs: False
            with run False Some keepsD [OF load P] show ?thesis by simp
          qed
        qed
      qed
    qed
  qed
qed

lemma keeps_GetDataset:
  "keeps (cache_ok lower log_d) (GetDataset lower log_d w rt refresh for_video) (metadata_ok lower log_d)"
  unfolding GetDataset_def by (rule keeps_attempts) (rule keeps_dataset_attempt)

lemma keeps_LoadVideo:
  assumes "metadata_ok lower log_d d"
  shows "keeps (cache_ok lower log_d) (LoadVideo lower w d) video_metadata_ok"
proof -
  have "sorted (video_keys (md_info d))" "distinct (video_keys (md_info d))"
    using assms by (auto simp: metadata_ok_def info_ok_def distinct_map)
  from load_videos_inv [OF _ this]
  have "load_videos lower d lr rows = Inr vm \<Longrightarrow> video_metadata_ok vm" for lr rows vm
    by (auto simp: video_metadata_ok_def)
  then show ?thesis
    unfolding LoadVideo_def by (intro keeps_bind [OF keeps_observe_any] keeps_lift)
qed

lemma keeps_video_attempt:
  "keeps (cache_ok lower log_d) (video_attempt lower log_d w rt refresh i) (some_ok video_metadata_ok)"
  unfolding video_attempt_def Let_def
proof (rule keeps_bind [OF keeps_observe_any], rule keeps_bind [OF keeps_GetDataset],
    rule keeps_bind [OF keeps_observe_any], goal_cases)
  case (1 k d key2)
  have none: "keeps (cache_ok lower log_d) (returnS None) (some_ok video_metadata_ok)"
    by (rule keeps_return) simp
  let ?load = "bindS (LoadVideo lower w d) (\<lambda>loaded.
      bindS (GetDataset lower log_d w rt False True) (\<lambda>current.
      if VideoIsValid loaded current
      then bindS (observe w (video_key_of rt)) (\<lambda>key3.
             if k = key3
             then (\<lambda>st. (Inr (Some loaded), st\<lparr>vm_cache := (vm_cache st)(k \<mapsto> loaded)\<rparr>))
             else returnS None)
      else returnS None))"
  have load: "keeps (cache_ok lower log_d) ?load (some_ok video_metadata_ok)"
    by (intro keeps_bind [OF keeps_LoadVideo [OF 1(2)]] keeps_bind [OF keeps_GetDataset] keeps_if
        keeps_bind [OF keeps_observe_any] none keeps_put(2))
  show ?case
  proof (rule keeps_if [OF none], rule keepsI)
    fix st r st' assume P: "cache_ok lower log_d st"
      and run: "(if \<not> refresh \<and> \<not> IsLance d
           then case vm_cache st k of None \<Rightarrow> ?load st
                | Some cached \<Rightarrow> if VideoIsValid cached d then returnS (Some cached) st else ?load st
           else ?load st) = (r, st')"
    consider "?load st = (r, st')" | vm where "vm_cache st k = Some vm" "returnS (Some vm) st = (r, st')"
      using run by (auto split: if_splits option.splits)
    then show "cache_ok lower log_d st' \<and> (\<forall>x. r = Inr x \<longrightarrow> some_ok video_metadata_ok x)"
    proof cases
      case 1
      with keepsD [OF load P] show ?thesis by blast
    next
      case 2
      with P show ?thesis by (auto simp: returnS_def cache_ok_def)
    qed
  qed
qed

lemma keeps_GetVideo: "keeps (cache_ok lower log_d) (GetVideo lower log_d w rt refresh) video_metadata_ok"
  unfolding GetVideo_def by (rule keeps_attempts) (rule keeps_video_attempt)

section \<open>What a returned entry was checked against\<close>

definition loaded_between ::
  "(string \<Rightarrow> string) \<Rightarrow> (fp \<Rightarrow> fp) \<Rightarrow> world \<Rightarrow> nat \<Rightarrow> nat \<Rightarrow> bool \<Rightarrow> dataset_metadata \<Rightarrow> bool" where
  "loaded_between lower log_d w lo hi for_video m \<longleftrightarrow>
     (\<exists>s s'. lo < clock s \<and> clock s' + 1 < hi \<and> clock s < clock s' \<and>
        LoadDataset lower log_d w (md_root m) (md_fingerprint m) for_video s = (Inr m, s') \<and>
        ReadInfoFingerprint (md_root m) (w (clock s - 1)) = Inr (md_fingerprint m) \<and>
        EpisodeFilesAreValid m (w (clock s')) = Inr True \<and>
        ReadInfoFingerprint (md_root m) (w (clock s' + 1)) = Inr (md_fingerprint m))"

definition served :: "world \<Rightarrow> string \<Rightarrow> nat \<Rightarrow> cache_state \<Rightarrow> dataset_metadata \<Rightarrow> bool" where
  "served w rt lo st' m \<longleftrightarrow>
     (\<exists>k t0 t t1. lo \<le> t0 \<and> t0 < t \<and> t < t1 \<and> t1 < clock st' \<and>
        dataset_key rt (w t0) = Inr k \<and> dataset_key rt (w t1) = Inr k \<and>
        ResolveLerobotRoot (sn_host (w (t0 + 1))) rt = Inr (md_root m) \<and>
        ReadInfoFingerprint (md_root m) (w t) = Inr (md_fingerprint m) \<and>
        ds_cache st' k = Some m)"

lemma load_attempt_Some:
  assumes "load_attempt lower log_d w rt for_video k resolved st = (Inr (Some m), st')"
  obtains s s' where "clock s = clock st + 1" "LoadDataset lower log_d w resolved (md_fingerprint m) for_video s = (Inr m, s')"
    "md_root m = resolved" "clock s < clock s'"
    "ReadInfoFingerprint resolved (w (clock st)) = Inr (md_fingerprint m)"
    "EpisodeFilesAreValid m (w (clock s')) = Inr True"
    "ReadInfoFingerprint resolved (w (clock s' + 1)) = Inr (md_fingerprint m)"
    "dataset_key rt (w (clock s' + 2)) = Inr k" "clock st' = clock s' + 3" "ds_cache st' k = Some m"
proof -
  let ?s = "st\<lparr>clock := clock st + 1\<rparr>"
  from assms obtain f s' where f: "ReadInfoFingerprint resolved (w (clock st)) = Inr f"
    and l: "LoadDataset lower log_d w resolved f for_video ?s = (Inr m, s')"
    and rest: "EpisodeFilesAreValid m (w (clock s')) = Inr True"
      "ReadInfoFingerprint resolved (w (clock s' + 1)) = Inr f"
      "dataset_key rt (w (clock s' + 2)) = Inr k" "clock st' = clock s' + 3" "ds_cache st' k = Some m"
    by (auto simp: load_attempt_def split: if_splits)
  from LoadDataset_Inr [OF l] have "md_root m = resolved" "md_fingerprint m = f" "clock ?s < clock s'" by auto
  with f l rest show thesis by (intro that [of ?s s']) simp_all
qed

lemma load_attempt_None:
  assumes "load_attempt lower log_d w rt for_video k resolved st = (Inr None, st')"
  shows "clock st \<le> clock st' \<and> ds_cache st' = ds_cache st"
proof -
  let ?s = "st\<lparr>clock := clock st + 1\<rparr>"
  from assms obtain f m s' where l: "LoadDataset lower log_d w resolved f for_video ?s = (Inr m, s')"
    and "clock s' \<le> clock st'" "ds_cache st' = ds_cache s'"
    by (auto simp: load_attempt_def split: if_splits)
  with LoadDataset_Inr(3,5) [OF l] show ?thesis by simp
qed

lemma Invalidate_Inr:
  assumes "Invalidate w rt st = (Inr x, st')"
  shows "clock st' = clock st + 2" "\<And>k m. ds_cache st' k = Some m \<Longrightarrow> ds_cache st k = Some m"
  using assms by (auto simp: Invalidate_def InvalidateVideo_def split: if_splits)

lemma load_attempt_served:
  assumes run: "load_attempt lower log_d w rt for_video k resolved s1 = (Inr (Some m), st')"
    and key: "dataset_key rt (w (clock st)) = Inr k"
    and res: "ResolveLerobotRoot (sn_host (w (clock st + 1))) rt = Inr resolved"
    and later: "clock st + 2 \<le> clock s1"
  shows "served w rt (clock st) st' m \<and> loaded_between lower log_d w (clock st) (clock st') for_video m"
proof -
  from load_attempt_Some [OF run] obtain s s' where 1: "clock s = clock s1 + 1"
    "LoadDataset lower log_d w resolved (md_fingerprint m) for_video s = (Inr m, s')"
    "md_root m = resolved" "clock s < clock s'"
    "ReadInfoFingerprint resolved (w (clock s1)) = Inr (md_fingerprint m)"
    "EpisodeFilesAreValid m (w (clock s')) = Inr True"
    "ReadInfoFingerprint resolved (w (clock s' + 1)) = Inr (md_fingerprint m)"
    "dataset_key rt (w (clock s' + 2)) = Inr k" "clock st' = clock s' + 3" "ds_cache st' k = Some m" .
  have "served w rt (clock st) st' m"
    unfolding served_def
    by (rule exI [of _ k], rule exI [of _ "clock st"], rule exI [of _ "clock s1"], rule exI [of _ "clock s' + 2"])
       (use 1 key res later in simp)
  moreover have "loaded_between lower log_d w (clock st) (clock st') for_video m"
    unfolding loaded_between_def
    by (rule exI [of _ s], rule exI [of _ s']) (use 1 later in simp)
  ultimately show ?thesis ..
qed

lemma cached_attempt_Inr:
  assumes "cached_attempt w rt for_video k cached other s1 = (Inr r, st')"
  obtains (changed) "r = None" "clock s1 < clock st'" "ds_cache st' = ds_cache s1"
  | (hit) "r = Some cached" "ReadInfoFingerprint (md_root cached) (w (clock s1)) = Inr (md_fingerprint cached)"
      "EpisodeFilesAreValid cached (w (clock s1 + 1)) = Inr True"
      "dataset_key rt (w (clock s1 + 2)) = Inr k" "clock st' = clock s1 + 4" "ds_cache st' = ds_cache s1"
  | (stale) s2 where "other s2 = (Inr r, st')" "clock s1 < clock s2" "ds_cache s2 = ds_cache s1"
proof -
  from assms obtain valid s2 k2 where v: "IsValid w cached s1 = (Inr valid, s2)"
    and k2: "dataset_key rt (w (clock s2)) = Inr k2"
    and rest: "(if k \<noteq> k2 then returnS None
      else if valid then bindS (observe w (CheckVideoStorageFormat (storage_format (md_info cached)) for_video))
             (\<lambda>_. returnS (Some cached)) else other) (s2\<lparr>clock := clock s2 + 1\<rparr>) = (Inr r, st')"
    by (auto simp: cached_attempt_def)
  have s2: "clock s1 < clock s2" "ds_cache s2 = ds_cache s1"
    using v by (auto simp: IsValid_def split: if_splits)
  show thesis
  proof (cases "k = k2")
    case False
    with rest s2 show ?thesis by (intro changed) auto
  next
    case k: True
    show ?thesis
    proof (cases valid)
      case False
      with rest k s2 show ?thesis by (intro stale [of "s2\<lparr>clock := clock s2 + 1\<rparr>"]) simp_all
    next
      case True
      with v have "ReadInfoFingerprint (md_root cached) (w (clock s1)) = Inr (md_fingerprint cached)"
        "EpisodeFilesAreValid cached (w (clock s1 + 1)) = Inr True" "clock s2 = clock s1 + 2"
        by (auto simp: IsValid_def split: if_splits)
      with rest k True s2 k2 show ?thesis by (intro hit) auto
    qed
  qed
qed

lemma dataset_attempt_Inr:
  assumes "dataset_attempt lower log_d w rt refresh for_video i st = (Inr r, st')"
  shows "clock st \<le> clock st'"
    and "r = None \<Longrightarrow> ds_cache st' k = Some m \<Longrightarrow> ds_cache st k = Some m"
    and "r = Some m \<Longrightarrow> served w rt (clock st) st' m \<and>
      (\<not> refresh \<and> (\<exists>k. ds_cache st k = Some m) \<or> loaded_between lower log_d w (clock st) (clock st') for_video m)"
proof -
  let ?s2 = "st\<lparr>clock := Suc (Suc (clock st))\<rparr>"
  from assms obtain key resolved where key: "dataset_key rt (w (clock st)) = Inr key"
    and res: "ResolveLerobotRoot (sn_host (w (clock st + 1))) rt = Inr resolved"
    and rest: "(if refresh
      then bindS (Invalidate w rt) (\<lambda>_. load_attempt lower log_d w rt for_video key resolved) ?s2
      else (case ds_cache ?s2 key of
         None \<Rightarrow> load_attempt lower log_d w rt for_video key resolved ?s2
       | Some cached \<Rightarrow>
           (if md_root cached = resolved
            then cached_attempt w rt for_video key cached (load_attempt lower log_d w rt for_video key resolved)
            else load_attempt lower log_d w rt for_video key resolved) ?s2)) = (Inr r, st')"
    by (auto simp: dataset_attempt_def split: if_splits)
  have load: "clock st \<le> clock st' \<and> (r = None \<longrightarrow> ds_cache st' = ds_cache s) \<and>
      (\<forall>m. r = Some m \<longrightarrow> served w rt (clock st) st' m \<and> loaded_between lower log_d w (clock st) (clock st') for_video m)"
    if "load_attempt lower log_d w rt for_video key resolved s = (Inr r, st')" "clock st + 2 \<le> clock s" for s
  proof (cases r)
    case None
    with load_attempt_None that show ?thesis by fastforce
  next
    case (Some m)
    with load_attempt_served [OF _ key res that(2)] that(1) have
      "served w rt (clock st) st' m \<and> loaded_between lower log_d w (clock st) (clock st') for_video m" by blast
    with Some show ?thesis by (auto simp: served_def)
  qed
  have "clock st \<le> clock st' \<and> (r = None \<longrightarrow> (\<forall>k m. ds_cache st' k = Some m \<longrightarrow> ds_cache st k = Some m)) \<and>
      (\<forall>m. r = Some m \<longrightarrow> served w rt (clock st) st' m \<and>
      (\<not> refresh \<and> (\<exists>k. ds_cache st k = Some m) \<or> loaded_between lower log_d w (clock st) (clock st') for_video m))"
  proof (cases refresh)
    case True
    with rest obtain s where inv: "Invalidate w rt ?s2 = (Inr (), s)"
      and run: "load_attempt lower log_d w rt for_video key resolved s = (Inr r, st')" by auto
    from Invalidate_Inr [OF inv] load [OF run] show ?thesis by auto
  next
    case False
    note nr = this
    show ?thesis
    proof (cases "ds_cache st key")
      case None
      with rest nr have "load_attempt lower log_d w rt for_video key resolved ?s2 = (Inr r, st')" by simp
      from load [OF this] show ?thesis by auto
    next
      case (Some cached)
      show ?thesis
      proof (cases "md_root cached = resolved")
        case False
        with rest nr Some have "load_attempt lower log_d w rt for_video key resolved ?s2 = (Inr r, st')" by simp
        from load [OF this] show ?thesis by auto
      next
        case True
        with rest nr Some have "cached_attempt w rt for_video key cached
            (load_attempt lower log_d w rt for_video key resolved) ?s2 = (Inr r, st')" by simp
        then show ?thesis
        proof (cases rule: cached_attempt_Inr)
          case changed
          then show ?thesis by auto
        next
          case hit
          have "served w rt (clock st) st' cached"
            unfolding served_def
            by (rule exI [of _ key], rule exI [of _ "clock st"], rule exI [of _ "clock st + 2"],
                rule exI [of _ "Suc (Suc (Suc (Suc (clock st))))"]) (use hit key res True Some in simp)
          with hit nr Some show ?thesis by auto
        next
          case (stale s2)
          from load [OF stale(1)] stale(2,3) show ?thesis by auto
        qed
      qed
    qed
  qed
  then show "clock st \<le> clock st'"
    and "r = None \<Longrightarrow> ds_cache st' k = Some m \<Longrightarrow> ds_cache st k = Some m"
    and "r = Some m \<Longrightarrow> served w rt (clock st) st' m \<and>
      (\<not> refresh \<and> (\<exists>k. ds_cache st k = Some m) \<or> loaded_between lower log_d w (clock st) (clock st') for_video m)"
    by blast+
qed

lemma GetDataset_Inr:
  assumes "GetDataset lower log_d w rt refresh for_video st = (Inr m, st')"
  shows "served w rt (clock st) st' m \<and>
    (\<not> refresh \<and> (\<exists>k. ds_cache st k = Some m) \<or> loaded_between lower log_d w (clock st) (clock st') for_video m)"
proof -
  let ?a = "dataset_attempt lower log_d w rt refresh for_video"
  have "GetDataset lower log_d w rt refresh for_video =
      bindS (?a 0) (\<lambda>r. case r of Some x \<Rightarrow> returnS x | None \<Rightarrow> attempts 1 ?a 1)"
    unfolding GetDataset_def numeral_2_eq_2 attempts.simps(2) [of "Suc 0"] One_nat_def add_0 ..
  with assms obtain r st1 where 1: "?a 0 st = (Inr r, st1)"
    and rest: "(case r of Some x \<Rightarrow> returnS x | None \<Rightarrow> attempts 1 ?a 1) st1 = (Inr m, st')"
    by (auto simp only: bindS_Inr)
  show ?thesis
  proof (cases r)
    case (Some x)
    with rest have "x = m" "st' = st1" by auto
    with dataset_attempt_Inr(3) [OF 1] Some show ?thesis by blast
  next
    case None
    with rest have "?a 1 st1 = (Inr (Some m), st')"
      by (auto split: option.splits)
    from dataset_attempt_Inr(3) [OF this] have
      2: "served w rt (clock st1) st' m \<and> (\<not> refresh \<and> (\<exists>k. ds_cache st1 k = Some m) \<or>
        loaded_between lower log_d w (clock st1) (clock st') for_video m)" by simp
    have c: "clock st \<le> clock st1" using dataset_attempt_Inr(1) [OF 1] .
    have "ds_cache st1 k = Some m \<Longrightarrow> ds_cache st k = Some m" for k
      using dataset_attempt_Inr(2) [OF 1 None] .
    moreover have "served w rt (clock st1) st' m \<Longrightarrow> served w rt (clock st) st' m"
      using c unfolding served_def by (meson le_trans)
    moreover have "loaded_between lower log_d w (clock st1) (clock st') for_video m \<Longrightarrow>
        loaded_between lower log_d w (clock st) (clock st') for_video m"
      using c unfolding loaded_between_def by (meson le_less_trans)
    ultimately show ?thesis using 2 by blast
  qed
qed

lemma LoadDataset_check:
  "LoadDataset lower log_d (\<lambda>_. s) rt fpr for_video st = (Inr m, st') \<Longrightarrow>
     CheckVideoStorageFormat (storage_format (md_info m)) for_video s = Inr ()"
  by (auto simp: LoadDataset_def split: if_splits)

lemma GetDataset_hit:
  assumes "dataset_key rt s = Inr k" and "ResolveLerobotRoot (sn_host s) rt = Inr (md_root m)"
    and "ReadInfoFingerprint (md_root m) s = Inr (md_fingerprint m)" and "EpisodeFilesAreValid m s = Inr True"
    and "CheckVideoStorageFormat (storage_format (md_info m)) for_video s = Inr ()"
    and "ds_cache st k = Some m"
  shows "GetDataset lower log_d (\<lambda>_. s) rt False for_video st = (Inr m, st\<lparr>clock := clock st + 6\<rparr>)"
proof -
  have "dataset_attempt lower log_d (\<lambda>_. s) rt False for_video 0 st = (Inr (Some m), st\<lparr>clock := clock st + 6\<rparr>)"
    using assms
    by (simp add: dataset_attempt_def bindS_def observe_def cached_attempt_def IsValid_def returnS_def)
  then show ?thesis
    by (simp add: GetDataset_def numeral_2_eq_2 bindS_def returnS_def)
qed

section \<open>Properties\<close>

text \<open>
  C13. Whatever happens to the storage and the secrets while metadata are being loaded, and whether a
  call returns or throws, every entry of the cache, and every result of \<open>GetDataset\<close> and \<open>GetVideo\<close>,
  is well-formed metadata: an accepted manifest, routes sorted by distinct episode indices whose number
  and total length agree with the manifest, routes of videos that never share a file between keys.
\<close>
theorem cache_well_formed:
  "keeps (cache_ok lower log_d) (GetDataset lower log_d w rt refresh for_video) (metadata_ok lower log_d) \<and>
   keeps (cache_ok lower log_d) (GetVideo lower log_d w rt refresh') video_metadata_ok"
  using keeps_GetDataset keeps_GetVideo by blast

text \<open>
  C11. The protocol of \<open>GetDataset\<close> in a changing world: metadata it returns are stored under a key that
  was the key of the access configuration both before and after the manifest was checked, the root was
  resolved in between, and the fingerprint of the manifest was read during the call and equals the one
  of the metadata. Metadata that were not in the cache, and all metadata of a refresh, were loaded
  between two reads of the manifest with the same fingerprint, with the episode files unchanged.
\<close>
theorem get_dataset_consistent:
  assumes "GetDataset lower log_d w rt refresh for_video st = (Inr m, st')"
  shows "served w rt (clock st) st' m \<and>
    (\<not> refresh \<and> (\<exists>k. ds_cache st k = Some m) \<or>
     loaded_between lower log_d w (clock st) (clock st') for_video m)"
  using assms by (rule GetDataset_Inr)

text \<open>
  C15. In a world that does not change, a refreshed \<open>GetDataset\<close> fills the cache: the next call with the
  same root returns the same metadata from the cache, without loading and without touching the cache.
\<close>
theorem get_dataset_cached:
  assumes "GetDataset lower log_d (\<lambda>_. s) rt True for_video st = (Inr m, st')"
    and "ds_cache st2 = ds_cache st'"
  shows "GetDataset lower log_d (\<lambda>_. s) rt False for_video st2 = (Inr m, st2\<lparr>clock := clock st2 + 6\<rparr>)"
proof -
  from GetDataset_Inr [OF assms(1)] obtain k where
    "dataset_key rt s = Inr k" "ResolveLerobotRoot (sn_host s) rt = Inr (md_root m)"
    "ReadInfoFingerprint (md_root m) s = Inr (md_fingerprint m)" "ds_cache st' k = Some m"
    "EpisodeFilesAreValid m s = Inr True"
    "CheckVideoStorageFormat (storage_format (md_info m)) for_video s = Inr ()"
    by (auto simp: served_def loaded_between_def dest: LoadDataset_check)
  with assms(2) show ?thesis by (intro GetDataset_hit) simp_all
qed

definition example_snapshot :: snapshot where
  "example_snapshot = \<lparr>sn_host = example_host, sn_interrupted = False, sn_remote = (\<lambda>p. False),
     sn_open = (\<lambda>p. Inr \<lparr>fp_size = 1, last_modified = 1, version_tag = []\<rparr>), sn_probe = (\<lambda>p. Inr ()),
     sn_glob = (\<lambda>p. Inr []), sn_info_rows = (\<lambda>p. Inr example_info_rows),
     sn_episode_rows = (\<lambda>p. Inr example_episode_rows), sn_video_rows = (\<lambda>p keys. Inr example_video_rows),
     sn_lance_videos = (\<lambda>p. Inr []), sn_replacement_scans = True, sn_autoload_fails = False,
     sn_lance_blob_uri = True\<rparr>"

definition empty_cache :: cache_state where
  "empty_cache = \<lparr>clock = 0, ds_cache = (\<lambda>k. None), vm_cache = (\<lambda>k. None)\<rparr>"

lemma example_get:
  "fst (GetDataset (\<lambda>s. s) (\<lambda>x. x) (\<lambda>_. example_snapshot) ''/d'' True False empty_cache) = Inr example_metadata"
  by code_simp

theorem get_dataset_consistent_witness:
  "\<exists>st'. GetDataset (\<lambda>s. s) (\<lambda>x. x) (\<lambda>_. example_snapshot) ''/d'' True False empty_cache = (Inr example_metadata, st') \<and>
     loaded_between (\<lambda>s. s) (\<lambda>x. x) (\<lambda>_. example_snapshot) 0 (clock st') False example_metadata"
proof -
  obtain st' where run: "GetDataset (\<lambda>s. s) (\<lambda>x. x) (\<lambda>_. example_snapshot) ''/d'' True False empty_cache =
      (Inr example_metadata, st')"
    using example_get by (metis prod.collapse)
  from get_dataset_consistent [OF run] run show ?thesis by (auto simp: empty_cache_def)
qed

theorem get_dataset_cached_witness:
  "\<exists>st'. GetDataset (\<lambda>s. s) (\<lambda>x. x) (\<lambda>_. example_snapshot) ''/d'' True False empty_cache = (Inr example_metadata, st') \<and>
     fst (GetDataset (\<lambda>s. s) (\<lambda>x. x) (\<lambda>_. example_snapshot) ''/d'' False False st') = Inr example_metadata"
proof -
  obtain st' where run: "GetDataset (\<lambda>s. s) (\<lambda>x. x) (\<lambda>_. example_snapshot) ''/d'' True False empty_cache =
      (Inr example_metadata, st')"
    using example_get by (metis prod.collapse)
  from get_dataset_cached [OF run refl] run show ?thesis by auto
qed

end
