(* ===== verification/Temporal.thy ===== *)
theory Temporal
  imports CacheProtocol
begin

text \<open>
  Frame offsets from timestamps and the targets of temporal windows
  (\<open>src/function/temporal/lerobot_temporal_targets.cpp\<close>): rounding of the requested time deltas, the
  binding of \<open>lerobot_temporal_targets\<close>, its claim of target ordinals and its function on a chunk of
  rows.
\<close>

section \<open>Rounding half to even\<close>

definition RoundHalfToEven :: "fp \<Rightarrow> int" where
  "RoundHalfToEven v =
     (let lower = ffloor v;
          fraction = dsub v lower
      in if flt fraction (Fin (1 / 2)) then to_int64 lower
         else if flt (Fin (1 / 2)) fraction then to_int64 (dadd lower (Fin 1))
         else to_int64 (if fmod2_is_zero lower then lower else dadd lower (Fin 1)))"

lemma dyadic_fraction:
  assumes "dyadic 53 (-1074) v" and "v \<noteq> of_int \<lfloor>v\<rfloor>"
  obtains m n where "v = of_int m / 2 ^ n" "\<bar>m\<bar> \<le> 2 ^ 53" "n \<le> 1074" "0 < n"
proof -
  obtain m e where me: "v = of_int m * 2 powi e" "\<bar>m\<bar> \<le> 2 ^ 53" "-1074 \<le> e"
    using assms(1) by (auto simp: dyadic_def)
  have "e < 0"
  proof (rule ccontr)
    assume "\<not> e < 0"
    then have "v = of_int (m * 2 ^ nat e)" by (simp add: me(1) power_int_def)
    with assms(2) show False by (metis floor_of_int)
  qed
  have "(2::rat) powi e = inverse (2 ^ nat (- e))"
    unfolding power_int_def power_inverse using \<open>e < 0\<close> by simp
  then have "v = of_int m / 2 ^ nat (- e)" unfolding me(1) divide_inverse by (rule arg_cong)
  moreover have "nat (- e) \<le> 1074" "0 < nat (- e)" using me(3) \<open>e < 0\<close> by linarith+
  ultimately show ?thesis using me(2) that by blast
qed

lemma dyadic_of_fraction:
  assumes "x = of_int k / 2 ^ n" and "\<bar>k\<bar> \<le> 2 ^ 53" and "n \<le> 1074"
  shows "dyadic 53 (-1074) x"
  unfolding dyadic_def
  by (rule exI [of _ k], rule exI [of _ "- int n"])
     (use assms in \<open>simp add: power_int_minus divide_inverse\<close>)

lemma small_is_double: "dyadic 53 (-1074) x \<Longrightarrow> \<bar>x\<bar> \<le> 1 \<Longrightarrow> is_double x"
  unfolding is_double_def by (auto intro: le_less_trans [of _ 1])

lemma fraction_small:
  assumes "v = of_int m / 2 ^ n" and "\<bar>m\<bar> \<le> 2 ^ 53" and "0 < n"
  shows "\<bar>v\<bar> \<le> (2::rat) ^ 52"
proof -
  have "\<bar>of_int m :: rat\<bar> \<le> 2 ^ 53"
    using assms(2) by (metis of_int_abs of_int_le_iff of_int_numeral of_int_power)
  also have "\<dots> = 2 ^ 52 * 2" by simp
  also have "\<dots> \<le> 2 ^ 52 * 2 ^ n"
    using assms(3) self_le_power [of "2::rat" n] by (intro mult_left_mono) auto
  finally show ?thesis by (simp add: assms(1) abs_divide divide_le_eq)
qed

lemma rne_cases:
  "rne v = (let f = \<lfloor>v\<rfloor>; r = v - of_int f
    in if r < 1 / 2 then f else if 1 / 2 < r then f + 1 else if even f then f else f + 1)"
  by (simp add: rne_def Let_def)

text \<open>
  The subtraction \<open>value - lower\<close> is exact except for values in \<open>(-1/2, 0)\<close>, where it rounds to at
  least one half.
\<close>

lemma fraction_exact_or_large:
  assumes d: "dyadic 53 (-1074) v" and frac: "v \<noteq> of_int \<lfloor>v\<rfloor>"
  obtains (exact) "dsub (Fin v) (Fin (of_int \<lfloor>v\<rfloor>)) = Fin (v - of_int \<lfloor>v\<rfloor>)"
  | (large) y where "\<lfloor>v\<rfloor> = - 1" "1 / 2 < v - of_int \<lfloor>v\<rfloor>" "dsub (Fin v) (Fin (of_int \<lfloor>v\<rfloor>)) = Fin y" "1 / 2 \<le> y"
proof -
  obtain m n where v: "v = of_int m / 2 ^ n" "\<bar>m\<bar> \<le> 2 ^ 53" "n \<le> 1074" "0 < n"
    using dyadic_fraction [OF d frac] .
  define f where "f = \<lfloor>v\<rfloor>"
  define r where "r = v - of_int f"
  have r: "0 < r" "r < 1"
    using frac unfolding r_def f_def by linarith+
  have sub: "dsub (Fin v) (Fin (of_int f)) = rnd64 r" by (simp add: dsub_def r_def)
  define k where "k = m - f * 2 ^ n"
  have rk: "r = of_int k / 2 ^ n" by (simp add: r_def k_def v(1) field_simps)
  show thesis
  proof (cases "r \<le> \<bar>v\<bar>")
    case True
    have p: "(0::rat) < 2 ^ n" by simp
    from r(1) have "0 < of_int k / (2::rat) ^ n" unfolding rk .
    then have k0: "0 < k" using p by (simp add: zero_less_divide_iff)
    have "of_int k / (2::rat) ^ n \<le> \<bar>of_int m / 2 ^ n\<bar>" using True unfolding rk v(1) .
    then have "of_int k / (2::rat) ^ n \<le> of_int \<bar>m\<bar> / 2 ^ n" by (simp add: abs_divide)
    then have "(of_int k :: rat) \<le> of_int \<bar>m\<bar>" using p by (simp add: divide_le_cancel)
    then have "k \<le> \<bar>m\<bar>" by (simp only: of_int_le_iff)
    with k0 v(2) have "\<bar>k\<bar> \<le> 2 ^ 53" by linarith
    from dyadic_of_fraction [OF rk this v(3)] r have "is_double r" by (intro small_is_double) auto
    then show ?thesis using exact sub by (simp add: rnd64_exact r_def f_def)
  next
    case False
    have fl: "of_int f \<le> v" "v < of_int f + 1" unfolding f_def by linarith+
    have "f = - 1"
    proof (rule ccontr)
      assume "f \<noteq> - 1"
      then consider "0 \<le> f" | "f \<le> - 2" by linarith
      then show False
      proof cases
        case 1
        then have "(0::rat) \<le> of_int f" by simp
        with False fl show False by (simp add: r_def)
      next
        case 2
        then have "(of_int f :: rat) \<le> of_int (- 2)" by (simp only: of_int_le_iff)
        with False fl r show False by (simp add: r_def)
      qed
    qed
    with False fl have half: "1 / 2 < r" by (simp add: r_def)
    obtain y where "rnd64 r = Fin y" "1 / 2 \<le> y"
      by (rule rnd64_half [of r]) (use half r(2) in auto)
    with sub have "dsub (Fin v) (Fin (of_int \<lfloor>v\<rfloor>)) = Fin y" by (simp add: f_def)
    moreover have "1 / 2 < v - of_int \<lfloor>v\<rfloor>" using half unfolding r_def f_def .
    moreover have "\<lfloor>v\<rfloor> = - 1" using \<open>f = - 1\<close> unfolding f_def .
    ultimately show ?thesis using large \<open>1 / 2 \<le> y\<close> by blast
  qed
qed

lemma int_plus_one_double: "\<bar>n\<bar> \<le> 2 ^ 52 + 1 \<Longrightarrow> dadd (Fin (of_int n)) (Fin 1) = Fin (of_int (n + 1))"
proof -
  assume "\<bar>n\<bar> \<le> 2 ^ 52 + 1"
  then have "\<bar>n + 1\<bar> \<le> 2 ^ 53" by simp
  from rnd64_exact [OF is_double_int [OF this]] show ?thesis by (simp add: dadd_def)
qed

lemma RoundHalfToEven_rne:
  assumes "dyadic 53 (-1074) v"
  shows "RoundHalfToEven (Fin v) = rne v"
proof (cases "v = of_int \<lfloor>v\<rfloor>")
  case True
  then obtain n where n: "v = of_int n" by blast
  have floor: "ffloor (Fin (of_int n)) = Fin (of_int n)" by simp
  have zero: "dsub (Fin (of_int n)) (Fin (of_int n)) = Fin 0" by (simp add: dsub_def)
  show ?thesis
    unfolding n RoundHalfToEven_def Let_def floor zero rne_of_int to_int64_of_int by simp
next
  case False
  define f where "f = \<lfloor>v\<rfloor>"
  obtain m n where v: "v = of_int m / 2 ^ n" "\<bar>m\<bar> \<le> 2 ^ 53" "0 < n"
    using dyadic_fraction [OF assms False] by blast
  have "\<bar>v\<bar> \<le> 2 ^ 52" using fraction_small [OF v] .
  then have "\<bar>of_int f :: rat\<bar> \<le> of_int (2 ^ 52 + 1)" unfolding f_def by simp linarith
  then have "\<bar>f\<bar> \<le> 2 ^ 52 + 1" by (metis of_int_abs of_int_le_iff)
  note plus = int_plus_one_double [OF this]
  have floor: "ffloor (Fin v) = Fin (of_int f)" by (simp add: f_def)
  show ?thesis
    using assms False
  proof (cases rule: fraction_exact_or_large)
    case exact
    then have "dsub (Fin v) (Fin (of_int f)) = Fin (v - of_int f)" by (simp add: f_def)
    then show ?thesis
      unfolding RoundHalfToEven_def Let_def floor plus rne_cases f_def [symmetric]
      by (simp only: flt.simps if_distrib [of to_int64] to_int64_of_int fmod2_of_int)
  next
    case (large y)
    then have "dsub (Fin v) (Fin (of_int f)) = Fin y" "f = - 1" "1 / 2 < v - of_int f" by (simp_all add: f_def)
    then show ?thesis
      unfolding RoundHalfToEven_def Let_def floor plus rne_cases f_def [symmetric]
      using large(4) fmod2_of_int [of f]
      by (simp only: flt.simps if_distrib [of to_int64] to_int64_of_int) auto
  qed
qed

section \<open>Delta timestamps\<close>

record temporal_delta =
  delta_timestamp :: fp
  frame_offset :: int

definition read_delta_timestamps :: "named_params \<Rightarrow> fp list result" where
  "read_delta_timestamps params =
     (case params ''delta_timestamps'' of
        None \<Rightarrow> Inr [Fin 0]
      | Some (VList children) \<Rightarrow>
          mapE (\<lambda>child. case child of
              VNull \<Rightarrow> Inl (BinderException ''delta_timestamps must not contain NULL'')
            | VDouble d \<Rightarrow> Inr d
            | _ \<Rightarrow> Inl wrong_type) children
      | Some VNull \<Rightarrow> Inl (BinderException ''delta_timestamps must not be NULL'')
      | Some _ \<Rightarrow> Inl wrong_type)"

definition delta_of :: "int \<Rightarrow> fp \<Rightarrow> fp \<Rightarrow> temporal_delta result" where
  "delta_of fps tol timestamp =
     require (fis_finite timestamp) ''delta_timestamps must be finite'' (
     let scaled = dmul timestamp (int_to_double fps);
         int64_upper_bound = Fin (2 ^ 63)
     in require (\<not> (\<not> fis_finite scaled \<or> flt scaled (fneg int64_upper_bound) \<or> fle int64_upper_bound scaled))
          ''delta timestamp is too large'' (
        let offset = RoundHalfToEven scaled;
            canonical_timestamp = ddiv (int_to_double offset) (int_to_double fps)
        in require (\<not> flt tol (fabs (dsub timestamp canonical_timestamp)))
             ''delta timestamp is not a multiple of 1/fps'' (
           Inr \<lparr>delta_timestamp = timestamp, frame_offset = offset\<rparr>)))"

definition GetLerobotTemporalDeltas :: "named_params \<Rightarrow> int \<Rightarrow> fp \<Rightarrow> temporal_delta list result" where
  "GetLerobotTemporalDeltas params fps tol =
     bindE (read_delta_timestamps params) (\<lambda>timestamps. mapE (delta_of fps tol) timestamps)"

text \<open>A finite double is a dyadic number: what the offset of an accepted timestamp is.\<close>

lemma delta_of_Inr:
  assumes "delta_of fps tol t = Inr d"
  shows "delta_timestamp d = t"
    and "\<exists>v. dmul t (int_to_double fps) = Fin v \<and> - (2 ^ 63) \<le> v \<and> v < 2 ^ 63 \<and>
      frame_offset d = RoundHalfToEven (Fin v)"
    and "\<not> flt tol (fabs (dsub t (ddiv (int_to_double (frame_offset d)) (int_to_double fps))))"
proof -
  let ?s = "dmul t (int_to_double fps)"
  from assms have d: "d = \<lparr>delta_timestamp = t, frame_offset = RoundHalfToEven ?s\<rparr>"
    and fin: "fis_finite ?s" and lo: "\<not> flt ?s (fneg (Fin (2 ^ 63)))" and hi: "\<not> fle (Fin (2 ^ 63)) ?s"
    and tl: "\<not> flt tol (fabs (dsub t (ddiv (int_to_double (RoundHalfToEven ?s)) (int_to_double fps))))"
    unfolding delta_of_def Let_def require_Inr_iff by blast+
  from fin obtain v where v: "?s = Fin v" by (cases ?s) (auto simp: fis_finite_def)
  from lo hi have "- (2 ^ 63) \<le> v" "v < 2 ^ 63"
    unfolding v fle_def feq_def fneg.simps flt.simps by auto
  with v d show "\<exists>v. dmul t (int_to_double fps) = Fin v \<and> - (2 ^ 63) \<le> v \<and> v < 2 ^ 63 \<and>
      frame_offset d = RoundHalfToEven (Fin v)" by auto
  show "delta_timestamp d = t" by (simp add: d)
  show "\<not> flt tol (fabs (dsub t (ddiv (int_to_double (frame_offset d)) (int_to_double fps))))"
    using tl by (simp add: d)
qed

text \<open>
  A timestamp \<open>k / fps\<close>, as Python or SQL computes it in double precision, is recognised as frame
  offset \<open>k\<close>.
\<close>

lemma quotient_of_ints:
  assumes k: "k \<noteq> 0" "\<bar>k\<bar> \<le> 2 ^ 50" and f: "0 < fps" "fps \<le> 2 ^ 50"
  shows "2 powi (- 1022) \<le> \<bar>of_int k / of_int fps :: rat\<bar>" "\<bar>of_int k / of_int fps :: rat\<bar> \<le> 2 ^ 50"
proof -
  have fr: "(1::rat) \<le> of_int fps" "of_int fps \<le> (2::rat) ^ 50"
    using f by (simp, metis of_int_le_iff of_int_numeral of_int_power)
  have kr: "(1::rat) \<le> of_int \<bar>k\<bar>" "of_int \<bar>k\<bar> \<le> (2::rat) ^ 50"
    using k by (simp, metis of_int_le_iff of_int_numeral of_int_power)
  have eq: "\<bar>of_int k / of_int fps :: rat\<bar> = of_int \<bar>k\<bar> / of_int fps"
    using f(1) by (simp add: abs_divide)
  have "(2::rat) powi (- 1022) \<le> 2 powi (- 50)" by (rule power_int_increasing) auto
  also have "(2::rat) powi (- 50) = 1 / 2 ^ 50"
    by (simp only: power_int_minus power_int_numeral inverse_eq_divide)
  also have "\<dots> \<le> 1 / of_int fps" using fr by (intro divide_left_mono) auto
  also have "\<dots> \<le> of_int \<bar>k\<bar> / of_int fps" using fr kr by (intro divide_right_mono) auto
  finally show "2 powi (- 1022) \<le> \<bar>of_int k / of_int fps :: rat\<bar>" unfolding eq .
  have "of_int \<bar>k\<bar> / of_int fps \<le> of_int \<bar>k\<bar> / (1::rat)" using fr kr by (intro divide_left_mono) auto
  with kr(2) show "\<bar>of_int k / of_int fps :: rat\<bar> \<le> 2 ^ 50" unfolding eq by simp
qed

lemma scaled_quotient:
  assumes k: "k \<noteq> 0" "\<bar>k\<bar> \<le> 2 ^ 50" and f: "0 < fps" "fps \<le> 2 ^ 50"
  obtains x y where "rnd64 (of_int k / of_int fps) = Fin x" "rnd64 (x * of_int fps) = Fin y"
    "\<bar>y - of_int k\<bar> < 1 / 2"
proof -
  let ?q = "of_int k / of_int fps :: rat"
  have fr: "(0::rat) < of_int fps" using f(1) by simp
  have kr: "(1::rat) \<le> \<bar>of_int k\<bar>" "\<bar>of_int k\<bar> \<le> (2::rat) ^ 50"
    using k by (metis of_int_abs of_int_1_le_iff int_one_le_iff_zero_less zero_less_abs_iff,
        metis of_int_abs of_int_le_iff of_int_numeral of_int_power)
  note q = quotient_of_ints [OF k f]
  have "\<bar>?q\<bar> \<le> 2 ^ 1000" using q(2) by (rule order_trans) simp
  from rnd64_error [OF q(1) this] obtain x where x: "rnd64 ?q = Fin x" "\<bar>x - ?q\<bar> \<le> \<bar>?q\<bar> / 2 ^ 53" .
  have "x * of_int fps - of_int k = (x - ?q) * of_int fps" using fr by (simp add: left_diff_distrib)
  then have "\<bar>x * of_int fps - of_int k\<bar> = \<bar>x - ?q\<bar> * of_int fps" using fr by (simp add: abs_mult)
  also have "\<dots> \<le> \<bar>?q\<bar> / 2 ^ 53 * of_int fps" using x(2) fr by (intro mult_right_mono) auto
  also have "\<dots> = \<bar>of_int k\<bar> / 2 ^ 53" using fr by (simp add: abs_divide)
  also have "\<dots> \<le> 2 ^ 50 / 2 ^ 53" using kr(2) by (intro divide_right_mono) auto
  finally have e1: "\<bar>x * of_int fps - of_int k\<bar> \<le> 1 / 8" by simp
  then have b: "7 / 8 \<le> \<bar>x * of_int fps\<bar>" "\<bar>x * of_int fps\<bar> \<le> 2 ^ 50 + 1 / 8"
    using kr by linarith+
  have "(2::rat) powi (- 1022) \<le> 2 powi (- 1)" by (rule power_int_increasing) auto
  also have "(2::rat) powi (- 1) \<le> 7 / 8" by (simp add: power_int_minus)
  finally have lo: "2 powi (- 1022) \<le> \<bar>x * of_int fps\<bar>" using b(1) by linarith
  have "(2::rat) ^ 50 + 1 / 8 \<le> 2 ^ 1000" by simp
  then have hi: "\<bar>x * of_int fps\<bar> \<le> 2 ^ 1000" using b(2) by linarith
  from rnd64_error [OF lo hi] obtain y where
    y: "rnd64 (x * of_int fps) = Fin y" "\<bar>y - x * of_int fps\<bar> \<le> \<bar>x * of_int fps\<bar> / 2 ^ 53" .
  have "\<bar>x * of_int fps\<bar> / 2 ^ 53 \<le> (2 ^ 50 + 1 / 8) / 2 ^ 53" using b(2) by (intro divide_right_mono) auto
  also have "\<dots> \<le> 1 / 4" by simp
  finally have "\<bar>y - x * of_int fps\<bar> \<le> 1 / 4" using y(2) by linarith
  with e1 have "\<bar>y - of_int k\<bar> < 1 / 2" by linarith
  with x(1) y(1) show thesis by (rule that)
qed

lemma offset_in_range: "\<bar>y - of_int k\<bar> < 1 / 2 \<Longrightarrow> \<bar>k\<bar> \<le> 2 ^ 50 \<Longrightarrow> \<bar>y\<bar> < (2::rat) ^ 63"
proof -
  assume y: "\<bar>y - of_int k\<bar> < 1 / 2" and k: "\<bar>k\<bar> \<le> 2 ^ 50"
  from k have "\<bar>of_int k :: rat\<bar> \<le> 2 ^ 50" by (metis of_int_abs of_int_le_iff of_int_numeral of_int_power)
  moreover have "(2::rat) ^ 50 + 1 / 2 < 2 ^ 63" by simp
  ultimately show ?thesis using y by linarith
qed

lemma delta_of_quotient:
  assumes k: "\<bar>k\<bar> \<le> 2 ^ 50" and f: "0 < fps" "fps \<le> 2 ^ 50" and tl: "flt (Fin 0) tol"
  shows "delta_of fps tol (ddiv (int_to_double k) (int_to_double fps)) =
    Inr \<lparr>delta_timestamp = ddiv (int_to_double k) (int_to_double fps), frame_offset = k\<rparr>"
proof -
  have ke: "int_to_double k = Fin (of_int k)" and fe: "int_to_double fps = Fin (of_int fps)"
    using k f by (intro int_to_double_exact; simp)+
  obtain x y where x: "ddiv (int_to_double k) (int_to_double fps) = Fin x"
    and y: "dmul (Fin x) (int_to_double fps) = Fin y" and round: "RoundHalfToEven (Fin y) = k"
    and range: "\<bar>y\<bar> < 2 ^ 63"
  proof (cases "k = 0")
    case True
    have "RoundHalfToEven (Fin 0) = 0" by code_simp
    with True f show thesis
      by (intro that [of 0 0]) (simp_all add: fe ddiv_def dmul_def int_to_double_def [of 0])
  next
    case False
    from scaled_quotient [OF False k f] obtain x y where
      xy: "rnd64 (of_int k / of_int fps) = Fin x" "rnd64 (x * of_int fps) = Fin y" "\<bar>y - of_int k\<bar> < 1 / 2" .
    have "RoundHalfToEven (Fin y) = k"
      using RoundHalfToEven_rne [OF rnd64_dyadic [OF xy(2)]] rne_unique [OF xy(3)] by simp
    with xy f offset_in_range [OF xy(3) k] show thesis
      by (intro that [of x y]) (simp_all add: ke fe ddiv_def dmul_def)
  qed
  have canon: "ddiv (int_to_double (RoundHalfToEven (Fin y))) (int_to_double fps) = Fin x"
    by (simp only: round x)
  have zero: "fabs (dsub (Fin x) (Fin x)) = Fin 0" by (simp add: dsub_def)
  have tol0: "\<not> flt tol (Fin 0)" using tl by (cases tol) auto
  have lo: "\<not> flt (Fin y) (fneg (Fin (2 ^ 63)))" and hi: "\<not> fle (Fin (2 ^ 63)) (Fin y)"
    using range unfolding fle_def feq_def fneg.simps flt.simps by auto
  show ?thesis
    unfolding delta_of_def x y canon zero Let_def require_def fis_finite_def
    using lo hi tol0 round by simp
qed

section \<open>Binding\<close>

record temporal_bind =
  tb_metadata :: dataset_metadata
  tb_deltas :: "temporal_delta list"
  tb_columns :: "nat list"
    \<comment> \<open>positions of request_id, episode_index, frame_index, delta_index and, if present, target_id\<close>

definition GetRefreshParameter :: "named_params \<Rightarrow> bool result" where
  "GetRefreshParameter params =
     (case params ''refresh'' of
        None \<Rightarrow> Inr False
      | Some VNull \<Rightarrow> Inl (BinderException ''refresh must not be NULL'')
      | Some (VBool b) \<Rightarrow> Inr b
      | Some _ \<Rightarrow> Inl wrong_type)"

definition GetToleranceParameter :: "named_params \<Rightarrow> fp result" where
  "GetToleranceParameter params =
     (case params ''tolerance'' of
        None \<Rightarrow> Inr LEROBOT_DEFAULT_TEMPORAL_TOLERANCE_SECONDS
      | Some VNull \<Rightarrow> Inl (BinderException ''tolerance must not be NULL'')
      | Some (VDouble d) \<Rightarrow>
          require (\<not> (\<not> fis_finite d \<or> fle d (Fin 0))) ''tolerance must be finite and positive'' (Inr d)
      | Some _ \<Rightarrow> Inl wrong_type)"

definition find_column_step :: "(string \<Rightarrow> string) \<Rightarrow> string \<Rightarrow> nat \<times> string \<Rightarrow> nat option \<Rightarrow> nat option result" where
  "find_column_step lower name entry found =
     (if lower (snd entry) \<noteq> lower name then Inr found
      else require (found = None) ''input relation contains duplicate column'' (Inr (Some (fst entry))))"

definition FindInputColumn :: "(string \<Rightarrow> string) \<Rightarrow> string list \<Rightarrow> string \<Rightarrow> nat result" where
  "FindInputColumn lower names name =
     (case foldE (find_column_step lower name) (zip [0 ..< length names] names) None of
        Inl e \<Rightarrow> Inl e
      | Inr None \<Rightarrow> Inl (BinderException ''input relation requires column'')
      | Inr (Some i) \<Rightarrow> Inr i)"

definition target_column_names :: "string list" where
  "target_column_names =
     [''request_id'', ''target_ordinal'', ''episode_index'', ''frame_index'', ''delta_index'',
      ''delta_timestamp'', ''delta_frame_offset'', ''is_padding'', ''target_frame_index'']"

definition target_column_types :: "logical_type list" where
  "target_column_types = [BIGINT, BIGINT, BIGINT, BIGINT, BIGINT, DOUBLE, BIGINT, BOOLEAN, BIGINT]"

text \<open>\<open>get_metadata\<close> is \<open>LerobotDatasetMetadata::Get\<close> on the normalised root.\<close>

definition LerobotTemporalTargetsBind ::
  "(string \<Rightarrow> string) \<Rightarrow> (string \<Rightarrow> bool \<Rightarrow> dataset_metadata result) \<Rightarrow> sqlvalue list \<Rightarrow> string list \<Rightarrow>
   nat \<Rightarrow> named_params \<Rightarrow> (temporal_bind \<times> (string \<times> logical_type) list) result" where
  "LerobotTemporalTargetsBind lower get_metadata inputs names n_types params =
     (case inputs of
        VString given_root # _ \<Rightarrow>
          require (\<not> (n_types \<noteq> 4 \<and> n_types \<noteq> 5 \<or> n_types \<noteq> length names)) ''input relation columns'' (
          bindE (mapE (FindInputColumn lower names)
                   [''request_id'', ''episode_index'', ''frame_index'', ''delta_index'']) (\<lambda>columns.
          bindE (if n_types = 5
                 then require (list_ex (\<lambda>name. lower name = lower ''target_id'') names) ''input relation columns'' (
                      bindE (FindInputColumn lower names ''target_id'') (\<lambda>c. Inr (columns @ [c])))
                 else Inr columns) (\<lambda>columns.
          bindE (NormalizeLerobotRoot given_root) (\<lambda>normalized.
          bindE (GetRefreshParameter params) (\<lambda>refresh.
          bindE (get_metadata normalized refresh) (\<lambda>metadata.
          bindE (GetToleranceParameter params) (\<lambda>tol.
          bindE (GetLerobotTemporalDeltas params (GetFPS metadata) tol) (\<lambda>deltas.
          Inr (\<lparr>tb_metadata = metadata, tb_deltas = deltas, tb_columns = columns\<rparr>,
               zip target_column_names target_column_types @
               (if length columns = 5 then [(''target_id'', BIGINT)] else [])))))))))
        ) | _ \<Rightarrow> Inl (BinderException ''root must not be NULL''))"

section \<open>Targets\<close>

text \<open>\<open>std::atomic<uint64_t>::fetch_add\<close>: the first ordinal of a chunk, and the counter after it.\<close>

definition ClaimTargetOrdinals :: "nat \<Rightarrow> 64 word \<Rightarrow> 64 word \<times> 64 word" where
  "ClaimTargetOrdinals n counter = (counter, counter + of_nat n)"

type_synonym input_row = "int option list"

definition ReadInputInteger :: "input_row \<Rightarrow> nat \<Rightarrow> int result" where
  "ReadInputInteger row column =
     (case row ! column of
        None \<Rightarrow> Inl (InvalidInputException ''input column must not contain NULL'')
      | Some i \<Rightarrow> Inr i)"

record temporal_target =
  tt_request_id :: int
  tt_target_ordinal :: int
  tt_target_id :: int
  tt_episode_index :: int
  tt_frame_index :: int
  tt_delta_index :: int
  tt_delta_timestamp :: fp
  tt_delta_frame_offset :: int
  tt_is_padding :: bool
  tt_target_frame_index :: int

text \<open>The clamping of a target to the episode, as the source compares without leaving \<open>int64_t\<close>.\<close>

definition clamp_target :: "int \<Rightarrow> int \<Rightarrow> int \<Rightarrow> int \<times> bool" where
  "clamp_target episode_len frame offset =
     (let last_frame_index = episode_len - 1
      in if offset < - frame then (0, True)
         else if offset > last_frame_index - frame then (last_frame_index, True)
         else (frame + offset, False))"

definition invalid_unless :: "bool \<Rightarrow> string \<Rightarrow> 'a result \<Rightarrow> 'a result" where
  "invalid_unless ok message k = (if ok then k else Inl (InvalidInputException message))"

lemma invalid_unless_Inr [simp]: "invalid_unless ok message k = Inr y \<longleftrightarrow> ok \<and> k = Inr y"
  by (simp add: invalid_unless_def)

definition temporal_row :: "temporal_bind \<Rightarrow> int \<Rightarrow> input_row \<Rightarrow> temporal_target result" where
  "temporal_row bind ordinal row =
     (let columns = tb_columns bind
      in bindE (ReadInputInteger row (columns ! 0)) (\<lambda>request_id.
         bindE (if length columns = 5 then ReadInputInteger row (columns ! 4) else Inr 0) (\<lambda>target_id.
         bindE (ReadInputInteger row (columns ! 1)) (\<lambda>episode.
         bindE (ReadInputInteger row (columns ! 2)) (\<lambda>frame.
         bindE (ReadInputInteger row (columns ! 3)) (\<lambda>delta_index.
         invalid_unless (\<not> (episode < 0 \<or> frame < 0)) ''episode_index and frame_index must be non-negative'' (
         invalid_unless (\<not> (delta_index < 0 \<or> delta_index \<ge> int (length (tb_deltas bind))))
           ''delta_index is outside delta_timestamps'' (
         (case FindEpisodeRoute (tb_metadata bind) episode of
            None \<Rightarrow> Inl (InvalidInputException ''episode does not exist'')
          | Some route \<Rightarrow>
              invalid_unless (\<not> frame \<ge> episode_length route) ''frame is outside the episode'' (
              let delta = tb_deltas bind ! nat delta_index;
                  (target, padding) = clamp_target (episode_length route) frame (frame_offset delta)
              in Inr \<lparr>tt_request_id = request_id, tt_target_ordinal = ordinal, tt_target_id = target_id,
                      tt_episode_index = episode, tt_frame_index = frame, tt_delta_index = delta_index,
                      tt_delta_timestamp = delta_timestamp delta,
                      tt_delta_frame_offset = frame_offset delta, tt_is_padding = padding,
                      tt_target_frame_index = target\<rparr>))))))))))"

definition temporal_chunk ::
  "temporal_bind \<Rightarrow> input_row list \<Rightarrow> 64 word \<Rightarrow> temporal_target list result \<times> 64 word" where
  "temporal_chunk bind rows counter =
     (let (first_ordinal, counter') = ClaimTargetOrdinals (length rows) counter
      in (if first_ordinal > of_int INT64_MAX - of_nat (length rows)
          then Inl (InvalidInputException ''too many rows for target_ordinal'')
          else mapE (\<lambda>(row_index, row). temporal_row bind (sint (first_ordinal + of_nat row_index)) row)
                 (zip [0 ..< length rows] rows),
          counter'))"

text \<open>The projected columns of a target, in \<open>WriteTargetColumn\<close>.\<close>

datatype out_value = OInt int | ODouble fp | OBool bool

definition WriteTargetColumn :: "temporal_target \<Rightarrow> nat \<Rightarrow> out_value result" where
  "WriteTargetColumn t column =
     (if column = 0 then Inr (OInt (tt_request_id t))
      else if column = 1 then Inr (OInt (tt_target_ordinal t))
      else if column = 9 then Inr (OInt (tt_target_id t))
      else if column = 2 then Inr (OInt (tt_episode_index t))
      else if column = 3 then Inr (OInt (tt_frame_index t))
      else if column = 4 then Inr (OInt (tt_delta_index t))
      else if column = 5 then Inr (ODouble (tt_delta_timestamp t))
      else if column = 6 then Inr (OInt (tt_delta_frame_offset t))
      else if column = 7 then Inr (OBool (tt_is_padding t))
      else if column = 8 then Inr (OInt (tt_target_frame_index t))
      else Inl (InternalException ''Invalid projected column''))"

definition InitGlobalColumns :: "nat list \<Rightarrow> nat list result" where
  "InitGlobalColumns column_ids =
     (if list_ex (\<lambda>c. c \<ge> 10) column_ids then Inl (InternalException ''Invalid projected column'')
      else Inr column_ids)"

section \<open>Windows and ordinals\<close>

lemma clamp_target_spec:
  assumes "0 \<le> frame" and "frame < len"
  shows "clamp_target len frame offset =
    (max 0 (min (len - 1) (frame + offset)), \<not> (0 \<le> frame + offset \<and> frame + offset < len))"
  using assms by (auto simp: clamp_target_def Let_def)

lemma temporal_row_Inr:
  assumes "temporal_row bind ordinal row = Inr t"
  obtains route delta where "FindEpisodeRoute (tb_metadata bind) (tt_episode_index t) = Some route"
    "0 \<le> tt_episode_index t" "0 \<le> tt_frame_index t" "tt_frame_index t < episode_length route"
    "0 \<le> tt_delta_index t" "nat (tt_delta_index t) < length (tb_deltas bind)"
    "delta = tb_deltas bind ! nat (tt_delta_index t)"
    "tt_delta_timestamp t = delta_timestamp delta" "tt_delta_frame_offset t = frame_offset delta"
    "(tt_target_frame_index t, tt_is_padding t) = clamp_target (episode_length route) (tt_frame_index t) (frame_offset delta)"
    "tt_target_ordinal t = ordinal"
    "row ! (tb_columns bind ! 0) = Some (tt_request_id t)" "row ! (tb_columns bind ! 1) = Some (tt_episode_index t)"
    "row ! (tb_columns bind ! 2) = Some (tt_frame_index t)" "row ! (tb_columns bind ! 3) = Some (tt_delta_index t)"
  using assms
  unfolding temporal_row_def Let_def ReadInputInteger_def
  by (auto simp: case_prod_beta split: option.splits if_splits)

lemma sint_of_nat_small: "n < 2 ^ 63 \<Longrightarrow> sint (of_nat n :: 64 word) = int n"
  by (simp add: sint_uint uint_nat unat_of_nat signed_take_bit_int_eq_self)

lemma unat_of_nat_small: "n < 2 ^ 64 \<Longrightarrow> unat (of_nat n :: 64 word) = n"
  by (simp add: unat_of_nat)

fun run_chunks :: "temporal_bind \<Rightarrow> input_row list list \<Rightarrow> 64 word \<Rightarrow> temporal_target list result list" where
  "run_chunks bind [] counter = []"
| "run_chunks bind (rows # chunks) counter =
     (let (r, counter') = temporal_chunk bind rows counter in r # run_chunks bind chunks counter')"

lemma temporal_chunk_ordinals:
  assumes "temporal_chunk bind rows (of_nat s) = (r, counter')" and "s + length rows < 2 ^ 63"
  shows "counter' = of_nat (s + length rows)"
    and "r = mapE (\<lambda>(i, row). temporal_row bind (int (s + i)) row) (zip [0 ..< length rows] rows)"
proof -
  have m: "(of_int INT64_MAX :: 64 word) = of_nat (2 ^ 63 - 1)"
    by (simp add: INT64_MAX_def)
  have sub: "(of_int INT64_MAX :: 64 word) - of_nat (length rows) = of_nat (2 ^ 63 - 1 - length rows)"
    unfolding m using assms(2) by (subst of_nat_diff) auto
  have le: "\<not> (of_nat s :: 64 word) > of_int INT64_MAX - of_nat (length rows)"
    unfolding sub word_less_nat_alt using assms(2)
    by (subst (1 2) unat_of_nat_small) auto
  show "counter' = of_nat (s + length rows)"
    using assms(1) by (simp add: temporal_chunk_def ClaimTargetOrdinals_def)
  have "mapE (\<lambda>(i, row). temporal_row bind (sint (of_nat s + of_nat i :: 64 word)) row) (zip [0 ..< length rows] rows) =
      mapE (\<lambda>(i, row). temporal_row bind (int (s + i)) row) (zip [0 ..< length rows] rows)"
  proof (rule mapE_cong)
    fix x assume "x \<in> set (zip [0 ..< length rows] rows)"
    then obtain i row where x: "x = (i, row)" "i < length rows"
      by (metis atLeastLessThan_iff prod.collapse set_upt set_zip_leftD)
    have "of_nat s + of_nat i = (of_nat (s + i) :: 64 word)" by simp
    moreover have "s + i < 2 ^ 63" using x(2) assms(2) by simp
    ultimately have "sint (of_nat s + of_nat i :: 64 word) = int (s + i)"
      using sint_of_nat_small [of "s + i"] by simp
    then show "(case x of (i, row) \<Rightarrow> temporal_row bind (sint (of_nat s + of_nat i :: 64 word)) row) =
        (case x of (i, row) \<Rightarrow> temporal_row bind (int (s + i)) row)" by (simp only: x prod.case)
  qed
  with assms(1) le show "r = mapE (\<lambda>(i, row). temporal_row bind (int (s + i)) row) (zip [0 ..< length rows] rows)"
    by (simp add: temporal_chunk_def ClaimTargetOrdinals_def)
qed

lemma mapE_ordinals:
  assumes "mapE (\<lambda>(i, row). temporal_row bind (int (s + i)) row) (zip [0 ..< length rows] rows) = Inr ts"
  shows "map tt_target_ordinal ts = map int [s ..< s + length rows]"
proof (rule nth_equalityI)
  have len: "length ts = length rows" using mapE_length [OF assms] by simp
  then show "length (map tt_target_ordinal ts) = length (map int [s ..< s + length rows])" by simp
  fix i assume i: "i < length (map tt_target_ordinal ts)"
  then have "temporal_row bind (int (s + i)) (rows ! i) = Inr (ts ! i)"
    using mapE_nth [OF assms, of i] len by simp
  then have "tt_target_ordinal (ts ! i) = int (s + i)" by (rule temporal_row_Inr) simp
  with i len show "map tt_target_ordinal ts ! i = map int [s ..< s + length rows] ! i" by simp
qed

fun chunk_starts :: "nat \<Rightarrow> 'a list list \<Rightarrow> nat list" where
  "chunk_starts s [] = []"
| "chunk_starts s (rows # chunks) = s # chunk_starts (s + length rows) chunks"

lemma run_chunks_ordinals:
  assumes "s + length (concat chunks) < 2 ^ 63"
  shows "list_all2 (\<lambda>r (first, rows).
      r = mapE (\<lambda>(i, row). temporal_row bind (int (first + i)) row) (zip [0 ..< length rows] rows))
    (run_chunks bind chunks (of_nat s)) (zip (chunk_starts s chunks) chunks)"
  using assms
proof (induction chunks arbitrary: s)
  case (Cons rows chunks)
  obtain r c' where run: "temporal_chunk bind rows (of_nat s) = (r, c')"
    by (cases "temporal_chunk bind rows (of_nat s)")
  have "s + length rows < 2 ^ 63" using Cons.prems by simp
  note step = temporal_chunk_ordinals [OF run this]
  have "s + length rows + length (concat chunks) < 2 ^ 63" using Cons.prems by simp
  from Cons.IH [OF this] step run show ?case by simp
qed simp

section \<open>Properties\<close>

text \<open>\<open>RoundHalfToEven\<close>, computed with a floor and a rounded subtraction in double precision, is the
  exact rounding to the nearest integer, ties to even, for every finite double, also where the
  subtraction itself rounds.
\<close>
lemma round_half_to_even_exact:
  assumes "is_double v"
  shows "RoundHalfToEven (Fin v) = rne v \<and> \<bar>of_int (RoundHalfToEven (Fin v)) - v\<bar> \<le> 1 / 2"
  using RoundHalfToEven_rne [of v] rne_error [of v] assms by (simp add: is_double_def)

lemma tie_is_double: "is_double (of_int 5 / 2 ^ 1)"
  using dyadic_of_fraction [of _ 5 1, OF refl] by (simp add: is_double_def)

lemma round_half_to_even_exact_witness:
  "RoundHalfToEven (Fin (of_int 5 / 2 ^ 1)) = 2"
proof -
  have "rne (of_int 5 / 2 ^ 1) = 2" by code_simp
  with round_half_to_even_exact [OF tie_is_double] show ?thesis by simp
qed

text \<open>
  C40. A delta timestamp that is the double nearest to a multiple \<open>k / fps\<close> of the frame period is
  always accepted, at any positive tolerance, and recognised as frame offset \<open>k\<close>, whatever the two
  rounded operations did, for offsets and rates up to \<open>2^50\<close>.
\<close>
theorem delta_timestamps_roundtrip:
  assumes "\<bar>k\<bar> \<le> 2 ^ 50" and "0 < fps" and "fps \<le> 2 ^ 50" and "flt (Fin 0) tol"
  shows "delta_of fps tol (ddiv (int_to_double k) (int_to_double fps)) =
    Inr \<lparr>delta_timestamp = ddiv (int_to_double k) (int_to_double fps), frame_offset = k\<rparr>"
  using assms by (rule delta_of_quotient)

theorem delta_timestamps_roundtrip_witness:
  "delta_of 30 (Fin 1) (ddiv (int_to_double (- 7)) (int_to_double 30)) =
    Inr \<lparr>delta_timestamp = ddiv (int_to_double (- 7)) (int_to_double 30), frame_offset = - 7\<rparr>"
  by (rule delta_timestamps_roundtrip) simp_all

text \<open>
  C39. The target of a row is the frame at the requested offset, clamped to the episode: the target
  lies in the episode, it is marked as padding exactly when the requested frame does not, and none of
  the integer operations leaves \<open>int64_t\<close>; episode, frame and delta are checked before.
\<close>
theorem temporal_target_clamped:
  assumes "temporal_row bind ordinal row = Inr t" and "routes_inv (tb_metadata bind)"
  shows "\<exists>route. FindEpisodeRoute (tb_metadata bind) (tt_episode_index t) = Some route \<and>
    (let n = episode_length route; f = tt_frame_index t;
         wanted = f + frame_offset (tb_deltas bind ! nat (tt_delta_index t))
     in 0 \<le> f \<and> f < n \<and> tt_target_frame_index t = max 0 (min (n - 1) wanted) \<and>
        tt_is_padding t = (\<not> (0 \<le> wanted \<and> wanted < n)) \<and>
        0 \<le> tt_target_frame_index t \<and> tt_target_frame_index t < n \<and>
        is_int64 (- f) \<and> is_int64 (n - 1 - f) \<and> is_int64 (tt_target_frame_index t))"
proof -
  from assms(1) obtain route delta where r: "FindEpisodeRoute (tb_metadata bind) (tt_episode_index t) = Some route"
    "0 \<le> tt_frame_index t" "tt_frame_index t < episode_length route"
    "delta = tb_deltas bind ! nat (tt_delta_index t)"
    "(tt_target_frame_index t, tt_is_padding t) = clamp_target (episode_length route) (tt_frame_index t) (frame_offset delta)"
    by (rule temporal_row_Inr)
  have "episode_length route \<le> INT64_MAX"
    using r(1) assms(2) by (auto simp: FindEpisodeRoute_iff routes_inv_def list_all_iff)
  then show ?thesis
    using r clamp_target_spec [OF r(2,3), of "frame_offset delta"]
    by (intro exI [of _ route]) (auto simp: Let_def int64_defs)
qed

definition example_bind :: temporal_bind where
  "example_bind = \<lparr>tb_metadata = example_metadata,
     tb_deltas = [\<lparr>delta_timestamp = Fin (- 1), frame_offset = - 30\<rparr>, \<lparr>delta_timestamp = Fin 0, frame_offset = 0\<rparr>],
     tb_columns = [0, 1, 2, 3]\<rparr>"

definition example_target :: temporal_target where
  "example_target = \<lparr>tt_request_id = 7, tt_target_ordinal = 0, tt_target_id = 0, tt_episode_index = 0,
     tt_frame_index = 2, tt_delta_index = 0, tt_delta_timestamp = Fin (- 1), tt_delta_frame_offset = - 30,
     tt_is_padding = True, tt_target_frame_index = 0\<rparr>"

lemma example_target_row: "temporal_row example_bind 0 [Some 7, Some 0, Some 2, Some 0] = Inr example_target"
  by code_simp

theorem temporal_target_clamped_witness:
  "temporal_row example_bind 0 [Some 7, Some 0, Some 2, Some 0] = Inr example_target \<and>
   0 \<le> tt_target_frame_index example_target"
proof -
  have "routes_inv example_metadata" using example_load by (rule load_routes_inv)
  then have "routes_inv (tb_metadata example_bind)" by (simp add: example_bind_def)
  from temporal_target_clamped [OF example_target_row this] example_target_row
  show ?thesis by (auto simp: Let_def)
qed

text \<open>Target ordinals are unique across the chunks of a query: while fewer than \<open>2^63\<close> rows have been
  seen, the rows of every chunk that succeeds get the consecutive numbers that start at the number of
  rows of the chunks claimed before, and no chunk is refused for the counter.
\<close>
lemma target_ordinals_consecutive:
  assumes "length (concat chunks) < 2 ^ 63"
  shows "list_all2 (\<lambda>r (first, rows). case r of
      Inl e \<Rightarrow> list_ex (\<lambda>(i, row). temporal_row bind (int (first + i)) row = Inl e) (zip [0 ..< length rows] rows)
    | Inr ts \<Rightarrow> map tt_target_ordinal ts = map int [first ..< first + length rows])
    (run_chunks bind chunks 0) (zip (chunk_starts 0 chunks) chunks)"
proof -
  have "list_all2 (\<lambda>r (first, rows).
      r = mapE (\<lambda>(i, row). temporal_row bind (int (first + i)) row) (zip [0 ..< length rows] rows))
    (run_chunks bind chunks 0) (zip (chunk_starts 0 chunks) chunks)"
    using run_chunks_ordinals [of 0 chunks bind] assms by (simp only: semiring_1_class.of_nat_0 add_0 simp_thms)
  then show ?thesis
  proof (rule list_all2_mono, goal_cases)
    case (1 r p)
    obtain first rows where p: "p = (first, rows)" by (cases p)
    with 1 have r: "r = mapE (\<lambda>(i, row). temporal_row bind (int (first + i)) row) (zip [0 ..< length rows] rows)"
      by simp
    show ?case
    proof (cases r)
      case (Inl e)
      with r have "\<exists>x \<in> set (zip [0 ..< length rows] rows).
          (case x of (i, row) \<Rightarrow> temporal_row bind (int (first + i)) row) = Inl e"
        by (intro mapE_Inl) simp
      then show ?thesis unfolding Inl p sum.case list_ex_iff case_prod_beta fst_conv snd_conv .
    next
      case (Inr ts)
      have "map tt_target_ordinal ts = map int [first ..< first + length rows]"
        by (rule mapE_ordinals) (use r Inr in simp)
      then show ?thesis by (simp add: p Inr)
    qed
  qed
qed

definition example_chunks :: "input_row list list" where
  "example_chunks = [[[Some 7, Some 0, Some 2, Some 0]], [[Some 8, Some 1, Some 0, Some 1]]]"

lemma target_ordinals_consecutive_witness:
  "list_all2 (\<lambda>r (first, rows). case r of
      Inl e \<Rightarrow> list_ex (\<lambda>(i, row). temporal_row example_bind (int (first + i)) row = Inl e) (zip [0 ..< length rows] rows)
    | Inr ts \<Rightarrow> map tt_target_ordinal ts = map int [first ..< first + length rows])
    (run_chunks example_bind example_chunks 0) (zip (chunk_starts 0 example_chunks) example_chunks)"
  by (rule target_ordinals_consecutive) (simp add: example_chunks_def)

end
