(* ===== verification/Machine.thy ===== *)
theory Machine
  imports Prelude
begin

text \<open>
  The contract of the components that threads share under a lock: a step relation whose steps are the
  critical sections of the code, an initial state, and an invariant that every step keeps. What a
  client knows of a reachable state is proved here once.
\<close>

locale state_machine =
  fixes init :: "'s \<Rightarrow> bool"
    and step :: "'s \<Rightarrow> 's \<Rightarrow> bool"
    and inv :: "'s \<Rightarrow> bool"
  assumes init_inv: "init s \<Longrightarrow> inv s"
    and step_inv: "inv s \<Longrightarrow> step s t \<Longrightarrow> inv t"
begin

lemma steps_inv: "step\<^sup>*\<^sup>* s t \<Longrightarrow> inv s \<Longrightarrow> inv t"
  by (induction rule: rtranclp_induct) (auto intro: step_inv)

lemma reachable_inv: "init s \<Longrightarrow> step\<^sup>*\<^sup>* s t \<Longrightarrow> inv t"
  by (blast intro: steps_inv init_inv)

end

text \<open>
  A machine whose steps use up a measure: no run from a state takes more steps than its measure.
\<close>

locale terminating_machine = state_machine init step inv
  for init :: "'s \<Rightarrow> bool" and step :: "'s \<Rightarrow> 's \<Rightarrow> bool" and inv :: "'s \<Rightarrow> bool" +
  fixes work :: "'s \<Rightarrow> nat"
  assumes step_work: "inv s \<Longrightarrow> step s t \<Longrightarrow> work t < work s"
begin

lemma relpowp_work: "(step ^^ n) s t \<Longrightarrow> inv s \<Longrightarrow> n + work t \<le> work s"
proof (induction n arbitrary: t)
  case 0
  then show ?case by simp
next
  case (Suc n)
  then obtain u where u: "(step ^^ n) s u" "step u t" by auto
  then have "inv u" using Suc.prems(2) steps_inv [of s u] relpowp_imp_rtranclp by metis
  with Suc.IH [OF u(1) Suc.prems(2)] step_work [OF _ u(2)] show ?case by simp
qed

text \<open>A run goes on until no step is possible.\<close>

lemma runs_end: "inv s \<Longrightarrow> \<exists>t. step\<^sup>*\<^sup>* s t \<and> (\<nexists>u. step t u)"
proof (induction "work s" arbitrary: s rule: less_induct)
  case less
  show ?case
  proof (cases "\<exists>u. step s u")
    case True
    then obtain u where u: "step s u" by blast
    from less.hyps [OF step_work [OF less.prems u] step_inv [OF less.prems u]] u show ?thesis
      by (meson converse_rtranclp_into_rtranclp)
  qed blast
qed

lemma no_infinite_run: "inv (f 0) \<Longrightarrow> \<exists>i. \<not> step (f i) (f (Suc i))"
proof (rule ccontr)
  assume inv: "inv (f 0)" and "\<nexists>i. \<not> step (f i) (f (Suc i))"
  then have all: "step (f i) (f (Suc i))" for i by auto
  have "(step ^^ n) (f 0) (f n)" for n
    by (induction n) (auto intro: all)
  from relpowp_work [OF this [of "Suc (work (f 0))"] inv] show False by simp
qed

end

end
