(* ===== verification/TimestampLookup.thy ===== *)
theory TimestampLookup
  imports MetadataCache Machine
begin

text \<open>
  Exact timestamps of target frames (\<open>src/storage/lerobot_timestamp_lookup.cpp\<close>): the sorted index of
  one Parquet shard, the merge of the matches of indexed and unindexed shards, and the shared cache of
  indexes with its byte budget, whose critical sections are the steps of a \<open>state_machine\<close>.
\<close>

section \<open>Matches\<close>

type_synonym timestamp_key = "int \<times> int"

record timestamp_match =
  mt_count :: int
  mt_timestamp :: fp
  mt_has_timestamp :: bool

definition no_match :: timestamp_match where
  "no_match = \<lparr>mt_count = 0, mt_timestamp = Fin 0, mt_has_timestamp = False\<rparr>"

record index_row =
  ir_episode :: int
  ir_frame :: int
  ir_timestamp :: fp
  ir_has_timestamp :: bool

definition Key :: "index_row \<Rightarrow> timestamp_key" where
  "Key r = (ir_episode r, ir_frame r)"

text \<open>\<open>TimestampIndex::Find\<close>: \<open>lower_bound\<close>, and \<open>upper_bound\<close> on the rest.\<close>

definition Find :: "index_row list \<Rightarrow> timestamp_key \<Rightarrow> timestamp_match" where
  "Find rows key =
     (if rows = [] then no_match
      else
        let first = lower_bound (\<lambda>r. Key r < key) rows;
            n = lower_bound (\<lambda>r. \<not> key < Key r) (drop first rows)
        in if n = 1
           then \<lparr>mt_count = 1, mt_timestamp = ir_timestamp (rows ! first),
                 mt_has_timestamp = ir_has_timestamp (rows ! first)\<rparr>
           else \<lparr>mt_count = int n, mt_timestamp = Fin 0, mt_has_timestamp = False\<rparr>)"

definition Merge :: "timestamp_match \<Rightarrow> timestamp_match \<Rightarrow> timestamp_match result" where
  "Merge res part =
     (if mt_count part > INT64_MAX - mt_count res
      then Inl (InvalidInputException ''Too many matching LeRobot Parquet rows'')
      else
        let counted = res\<lparr>mt_count := mt_count res + mt_count part\<rparr>
        in Inr (if mt_has_timestamp part
                then counted\<lparr>mt_timestamp := mt_timestamp part, mt_has_timestamp := True\<rparr>
                else counted))"

section \<open>Reading the rows of a shard\<close>

text \<open>A row of the column query: the episode, the frame and the timestamp, each possibly NULL.\<close>

type_synonym raw_row = "int option \<times> int option \<times> fp option"

definition index_row_of :: "int \<Rightarrow> int \<Rightarrow> fp option \<Rightarrow> index_row" where
  "index_row_of ep frame ts =
     \<lparr>ir_episode = ep, ir_frame = frame, ir_timestamp = (case ts of None \<Rightarrow> Fin 0 | Some t \<Rightarrow> t),
      ir_has_timestamp = (ts \<noteq> None)\<rparr>"

fun load_rows :: "nat \<Rightarrow> raw_row list \<Rightarrow> index_row list \<Rightarrow> bool \<Rightarrow> (index_row list \<times> bool) option" where
  "load_rows row_count [] rows in_order = Some (rows, in_order)"
| "load_rows row_count ((Some ep, Some frame, ts) # raws) rows in_order =
     (if length rows = row_count then None
      else
        let r = index_row_of ep frame ts
        in load_rows row_count raws (rows @ [r])
             (if rows \<noteq> [] \<and> Key r < Key (last rows) then False else in_order))"
| "load_rows row_count ((None, _, _) # raws) rows in_order = load_rows row_count raws rows in_order"
| "load_rows row_count ((_, None, _) # raws) rows in_order = load_rows row_count raws rows in_order"

text \<open>
  \<open>std::sort\<close> compares the keys only, so rows with equal keys may come out in any order; the model
  keeps their order. \<open>Find\<close> does not depend on it (\<open>Find_sorted_perm\<close>).
\<close>

definition build_index :: "nat \<Rightarrow> raw_row list \<Rightarrow> index_row list option" where
  "build_index row_count raws =
     (case load_rows row_count raws [] True of
        None \<Rightarrow> None
      | Some (rows, in_order) \<Rightarrow> Some (if in_order then rows else sort_key Key rows))"

fun joinable :: "raw_row list \<Rightarrow> index_row list" where
  "joinable [] = []"
| "joinable ((Some ep, Some frame, ts) # raws) = index_row_of ep frame ts # joinable raws"
| "joinable (_ # raws) = joinable raws"

lemma load_rows_result:
  "load_rows n raws rows in_order = Some (out, flag) \<Longrightarrow>
     out = rows @ joinable raws \<and> (flag \<longrightarrow> in_order)"
  by (induction n raws rows in_order rule: load_rows.induct)
    (auto simp: Let_def split: if_splits)

lemma load_rows_sorted:
  "load_rows n raws rows in_order = Some (out, True) \<Longrightarrow> sorted (map Key rows) \<Longrightarrow> sorted (map Key out)"
proof (induction n raws rows in_order rule: load_rows.induct)
  case (2 n ep frame ts raws rows in_order)
  let ?r = "index_row_of ep frame ts"
  from "2.prems"(1) have len: "length rows \<noteq> n"
    and next_run: "load_rows n raws (rows @ [?r]) (if rows \<noteq> [] \<and> Key ?r < Key (last rows) then False else in_order) =
      Some (out, True)" by (auto simp: Let_def split: if_splits)
  then have "\<not> (rows \<noteq> [] \<and> Key ?r < Key (last rows))"
    using load_rows_result [OF next_run] by (auto split: if_splits)
  then have "\<forall>k \<in> set (map Key rows). k \<le> Key ?r"
    using "2.prems"(2) by (cases rows rule: rev_cases) (auto simp: sorted_append)
  then have "sorted (map Key (rows @ [?r]))"
    using "2.prems"(2) by (simp add: sorted_append)
  from "2.IH" [OF len refl next_run this] show ?case .
qed auto

lemma build_index_sorted:
  "build_index n raws = Some rows \<Longrightarrow> sorted (map Key rows) \<and> mset rows = mset (joinable raws)"
  unfolding build_index_def
  using load_rows_result [of n raws "[]" True] load_rows_sorted [of n raws "[]" True]
  by (auto split: option.splits prod.splits if_splits)

lemma load_rows_None:
  "load_rows n raws rows in_order = None \<longleftrightarrow> length rows + length (joinable raws) > n" if "length rows \<le> n"
  using that
proof (induction n raws rows in_order rule: load_rows.induct)
  case (2 n ep frame ts raws rows in_order)
  then show ?case by (cases "length rows = n") (auto simp: Let_def)
qed auto

lemma build_index_None: "build_index n raws = None \<longleftrightarrow> length (joinable raws) > n"
  using load_rows_None [of "[]" n raws True] by (auto simp: build_index_def split: option.splits)

section \<open>Find counts the rows of a key\<close>

text \<open>What a set of rows of one key contributes: their number, and the timestamp of a single row.\<close>

definition summary :: "index_row list \<Rightarrow> timestamp_match" where
  "summary rows =
     (case rows of
        [r] \<Rightarrow> \<lparr>mt_count = 1, mt_timestamp = ir_timestamp r, mt_has_timestamp = ir_has_timestamp r\<rparr>
      | _ \<Rightarrow> \<lparr>mt_count = int (length rows), mt_timestamp = Fin 0, mt_has_timestamp = False\<rparr>)"

lemma sorted_takeWhile_below:
  "sorted (map Key rows) \<Longrightarrow> dropWhile (\<lambda>r. Key r < key) rows = filter (\<lambda>r. key \<le> Key r) rows"
proof (induction rows)
  case (Cons a rows)
  show ?case
  proof (cases "Key a < key")
    case False
    then have "\<forall>r \<in> set rows. key \<le> Key r"
      using Cons.prems by (metis image_eqI leI list.set_map list.simps(9) order.trans sorted_simps(2))
    with False show ?thesis by (simp add: not_less)
  qed (use Cons in \<open>simp add: not_le\<close>)
qed simp

lemma sorted_takeWhile_upto:
  "sorted (map Key rows) \<Longrightarrow> takeWhile (\<lambda>r. \<not> key < Key r) rows = filter (\<lambda>r. Key r \<le> key) rows"
proof (induction rows)
  case (Cons a rows)
  show ?case
  proof (cases "key < Key a")
    case True
    then have "\<forall>r \<in> set rows. \<not> Key r \<le> key"
      using Cons.prems by (metis image_eqI leD less_le_trans list.set_map list.simps(9) sorted_simps(2))
    with True show ?thesis by (simp add: not_le)
  qed (use Cons in \<open>simp add: not_less\<close>)
qed simp

lemma drop_lower_bound: "drop (lower_bound P xs) xs = dropWhile P xs"
  by (simp add: lower_bound_def dropWhile_eq_drop)

lemma Find_sorted:
  assumes "sorted (map Key rows)"
  shows "Find rows key = summary (filter (\<lambda>r. Key r = key) rows)"
proof -
  let ?first = "lower_bound (\<lambda>r. Key r < key) rows"
  let ?rest = "filter (\<lambda>r. key \<le> Key r) rows"
  let ?ms = "filter (\<lambda>r. Key r = key) rows"
  have rest: "drop ?first rows = ?rest"
    using assms by (simp only: drop_lower_bound sorted_takeWhile_below)
  have "sorted (map Key ?rest)" using assms by (rule sorted_filter)
  then have "takeWhile (\<lambda>r. \<not> key < Key r) ?rest = filter (\<lambda>r. Key r \<le> key) ?rest"
    by (rule sorted_takeWhile_upto)
  also have "\<dots> = ?ms" unfolding filter_filter by (rule filter_cong [OF refl]) auto
  finally have tw: "takeWhile (\<lambda>r. \<not> key < Key r) (drop ?first rows) = ?ms" unfolding rest .
  then have n: "lower_bound (\<lambda>r. \<not> key < Key r) (drop ?first rows) = length ?ms"
    unfolding lower_bound_def by simp
  show ?thesis
  proof (cases "length ?ms = 1")
    case True
    then have "rows \<noteq> []" by auto
    from True obtain r where r: "?ms = [r]" by (auto simp: length_Suc_conv)
    from tw r have "drop ?first rows \<noteq> []" by auto
    then have "rows ! ?first = hd (drop ?first rows)" by (simp add: hd_drop_conv_nth)
    also have "\<dots> = r" using tw r by (cases "drop ?first rows") (auto split: if_splits)
    finally have "rows ! ?first = r" .
    then show ?thesis
      unfolding Find_def Let_def n using \<open>rows \<noteq> []\<close> True by (simp only: r summary_def list.case if_False if_True simp_thms)
  next
    case False
    then have "summary ?ms = \<lparr>mt_count = int (length ?ms), mt_timestamp = Fin 0, mt_has_timestamp = False\<rparr>"
      unfolding summary_def by (cases ?ms rule: remdups_adj.cases) simp_all
    with False show ?thesis
      unfolding Find_def Let_def n no_match_def by (cases "rows = []") simp_all
  qed
qed

section \<open>The lookup over all shards\<close>

text \<open>
  The SQL text of the frame source (\<open>LerobotFrameSourceSQL\<close>) and of the filtered query.
  \<open>sql_literal\<close> is \<open>Value(path).ToSQLString()\<close> of the database.
\<close>

definition comma_join :: "string list \<Rightarrow> string" where
  "comma_join xs = concat (map (\<lambda>(i, x). (if i = 0 then x else CHR '','' # x)) (zip [0 ..< length xs] xs))"

definition LerobotFrameSourceSQL :: "(string \<Rightarrow> string) \<Rightarrow> string list \<Rightarrow> bool \<Rightarrow> string result" where
  "LerobotFrameSourceSQL sql_literal paths lance =
     (if lance then
        (if length paths \<noteq> 1
         then Inl (InternalException ''A LeRobot Lance frame source must contain exactly one table'')
         else Inr (sql_literal (paths ! 0)))
      else Inr (''read_parquet(['' @ comma_join (map sql_literal paths) @ ''])''))"

definition FilteredQuery ::
  "(string \<Rightarrow> string) \<Rightarrow> string list \<Rightarrow> timestamp_key list \<Rightarrow> bool \<Rightarrow> string result" where
  "FilteredQuery sql_literal files keys lance =
     bindE (LerobotFrameSourceSQL sql_literal files lance) (\<lambda>source.
       Inr (''WITH requested(episode_index, frame_index) AS (VALUES '' @
            comma_join (map (\<lambda>(ep, frame). ''('' @ to_string_int ep @ '','' @ to_string_int frame @ '')'') keys) @
            ''), frames AS (SELECT CAST(episode_index AS BIGINT) AS episode_index, '' @
            ''CAST(frame_index AS BIGINT) AS frame_index, CAST(timestamp AS DOUBLE) AS timestamp '' @
            ''FROM '' @ source @
            '') SELECT CAST(requested.episode_index AS BIGINT), CAST(requested.frame_index AS BIGINT), '' @
            ''min(frames.timestamp), '' @
            ''CAST(count(frames.frame_index) AS BIGINT) FROM requested LEFT JOIN frames '' @
            ''USING (episode_index, frame_index) GROUP BY requested.episode_index, requested.frame_index''))"

text \<open>A row of the filtered query, and its merge at the position of its key.\<close>

record native_row =
  nr_episode :: int
  nr_frame :: int
  nr_timestamp :: "fp option"
  nr_count :: int

definition native_match :: "native_row \<Rightarrow> timestamp_match" where
  "native_match row =
     \<lparr>mt_count = nr_count row, mt_timestamp = (case nr_timestamp row of None \<Rightarrow> Fin 0 | Some t \<Rightarrow> t),
      mt_has_timestamp = (nr_timestamp row \<noteq> None)\<rparr>"

definition merge_native ::
  "timestamp_key list \<Rightarrow> native_row \<Rightarrow> timestamp_match list \<Rightarrow> timestamp_match list result" where
  "merge_native keys row matches =
     (let k = (nr_episode row, nr_frame row); pos = lower_bound (\<lambda>x. x < k) keys
      in if pos < length keys \<and> keys ! pos = k
         then bindE (Merge (matches ! pos) (native_match row)) (\<lambda>m. Inr (matches[pos := m]))
         else Inl (InternalException ''unrequested key''))"

definition merge_index ::
  "timestamp_key list \<Rightarrow> index_row list \<Rightarrow> timestamp_match list \<Rightarrow> timestamp_match list result" where
  "merge_index keys rows matches = mapE (\<lambda>(m, k). Merge m (Find rows k)) (zip matches keys)"

text \<open>
  What one iteration of the loop over the files observes: the file, what \<open>GetIndex\<close> returned for it
  (\<open>None\<close> when there is no usable index) and whether the query was interrupted by then.
\<close>

type_synonym file_visit = "string \<times> index_row list option result \<times> bool"

definition visit_file ::
  "bool \<Rightarrow> timestamp_key list \<Rightarrow> file_visit \<Rightarrow> timestamp_match list \<times> string list \<Rightarrow>
   (timestamp_match list \<times> string list) result" where
  "visit_file lance keys v acc =
     (case v of (path, got, interrupted) \<Rightarrow> case acc of (matches, uncached) \<Rightarrow>
        bindE (if lance then Inr None else got) (\<lambda>index.
        case index of
          None \<Rightarrow> Inr (matches, uncached @ [path])
        | Some rows \<Rightarrow>
            bindE (merge_index keys rows matches) (\<lambda>matches'.
            if interrupted then Inl InterruptException else Inr (matches', uncached))))"

definition run_native :: "(string \<Rightarrow> native_row list result) \<Rightarrow> string \<Rightarrow> native_row list result" where
  "run_native run sql =
     (case run sql of
        Inl InterruptException \<Rightarrow> Inl InterruptException
      | Inl _ \<Rightarrow> Inl (InvalidInputException ''Failed to read LeRobot target timestamps'')
      | Inr rows \<Rightarrow> Inr rows)"

definition LookupTimestamps ::
  "(string \<Rightarrow> string) \<Rightarrow> (string \<Rightarrow> native_row list result) \<Rightarrow> bool \<Rightarrow> bool \<Rightarrow> timestamp_key list \<Rightarrow>
   file_visit list \<Rightarrow> timestamp_match list result" where
  "LookupTimestamps sql_literal run interrupted lance keys visits =
     (if interrupted then Inl InterruptException
      else if keys = [] then Inr []
      else bindE (foldE (visit_file lance keys) visits (replicate (length keys) no_match, [])) (\<lambda>(matches, uncached).
        if uncached = [] then Inr matches
        else bindE (FilteredQuery sql_literal uncached keys lance) (\<lambda>sql.
             bindE (run_native run sql) (\<lambda>rows. foldE (merge_native keys) rows matches))))"

section \<open>Matches agree with the rows they count\<close>

text \<open>
  What a caller reads from a match: the number of rows, and, when there is exactly one, its timestamp.
\<close>

definition agrees :: "timestamp_match \<Rightarrow> index_row multiset \<Rightarrow> bool" where
  "agrees m rows \<longleftrightarrow> mt_count m = int (size rows) \<and> (rows = {#} \<longrightarrow> \<not> mt_has_timestamp m) \<and>
     (\<forall>r. rows = {#r#} \<longrightarrow> mt_has_timestamp m = ir_has_timestamp r \<and>
        (ir_has_timestamp r \<longrightarrow> mt_timestamp m = ir_timestamp r))"

lemma agrees_no_match [simp]: "agrees no_match {#}"
  by (simp add: agrees_def no_match_def)

lemma agrees_summary: "agrees (summary rows) (mset rows)"
  by (cases rows rule: remdups_adj.cases) (simp_all add: agrees_def summary_def)

lemma Merge_agrees:
  assumes a: "agrees a A" and b: "agrees b B" and max: "int (size A + size B) \<le> INT64_MAX"
  shows "\<exists>c. Merge a b = Inr c \<and> agrees c (A + B)"
proof -
  let ?s = "a\<lparr>mt_count := mt_count a + mt_count b\<rparr>"
  let ?c = "if mt_has_timestamp b then ?s\<lparr>mt_timestamp := mt_timestamp b, mt_has_timestamp := True\<rparr> else ?s"
  have ok: "Merge a b = Inr ?c"
    using a b max by (auto simp: Merge_def Let_def agrees_def)
  have n: "mt_count ?c = int (size (A + B))" using a b by (simp add: agrees_def)
  moreover have "A + B = {#} \<longrightarrow> \<not> mt_has_timestamp ?c"
    using a b by (simp add: agrees_def)
  moreover have "mt_has_timestamp ?c = ir_has_timestamp r \<and>
      (ir_has_timestamp r \<longrightarrow> mt_timestamp ?c = ir_timestamp r)" if ab: "A + B = {#r#}" for r
  proof -
    from ab consider "A = {#r#}" "B = {#}" | "A = {#}" "B = {#r#}"
      by (auto simp: union_is_single)
    then show ?thesis using a b by cases (auto simp: agrees_def)
  qed
  ultimately have "agrees ?c (A + B)" unfolding agrees_def by blast
  with ok show ?thesis by blast
qed

definition agrees_all :: "timestamp_key list \<Rightarrow> timestamp_match list \<Rightarrow> (timestamp_key \<Rightarrow> index_row multiset) \<Rightarrow> bool" where
  "agrees_all keys matches rows \<longleftrightarrow>
     length matches = length keys \<and> (\<forall>i < length keys. agrees (matches ! i) (rows (keys ! i)))"

definition rows_with :: "index_row list \<Rightarrow> timestamp_key \<Rightarrow> index_row multiset" where
  "rows_with rows key = mset (filter (\<lambda>r. Key r = key) rows)"

lemma merge_index_agrees:
  assumes "sorted (map Key rows)" and "agrees_all keys matches A"
    and "\<And>k. int (size (A k + rows_with rows k)) \<le> INT64_MAX"
  shows "\<exists>ms. merge_index keys rows matches = Inr ms \<and> agrees_all keys ms (\<lambda>k. A k + rows_with rows k)"
proof -
  let ?f = "\<lambda>(m, k). Merge m (Find rows k)"
  have each: "\<exists>c. Merge (matches ! i) (Find rows (keys ! i)) = Inr c \<and> agrees c (A (keys ! i) + rows_with rows (keys ! i))"
    if "i < length keys" for i
    using Merge_agrees [OF _ agrees_summary, of "matches ! i" "A (keys ! i)" "filter (\<lambda>r. Key r = keys ! i) rows"]
      assms that by (simp add: agrees_all_def Find_sorted rows_with_def)
  then obtain g where g: "\<And>i. i < length keys \<Longrightarrow> Merge (matches ! i) (Find rows (keys ! i)) = Inr (g i) \<and>
      agrees (g i) (A (keys ! i) + rows_with rows (keys ! i))" by metis
  have len: "length matches = length keys" using assms(2) by (simp add: agrees_all_def)
  have "merge_index keys rows matches = Inr (map g [0 ..< length keys])"
    unfolding merge_index_def mapE_Inr_iff list_all2_conv_all_nth using g len by simp
  moreover have "agrees_all keys (map g [0 ..< length keys]) (\<lambda>k. A k + rows_with rows k)"
    using g by (simp add: agrees_all_def)
  ultimately show ?thesis by blast
qed

text \<open>
  What the filtered query returns for a key: the number of rows of the uncached files with that key,
  and the minimum of their timestamps that are not NULL.
\<close>

definition native_answer :: "(fp list \<Rightarrow> fp) \<Rightarrow> index_row list \<Rightarrow> timestamp_key \<Rightarrow> native_row" where
  "native_answer min_of rows key =
     (let ms = filter (\<lambda>r. Key r = key) rows;
          stamps = map ir_timestamp (filter ir_has_timestamp ms)
      in \<lparr>nr_episode = fst key, nr_frame = snd key,
          nr_timestamp = (if stamps = [] then None else Some (min_of stamps)), nr_count = int (length ms)\<rparr>)"

lemma native_row_agrees:
  assumes "\<And>t. min_of [t] = t"
  shows "agrees (native_match \<lparr>nr_episode = e, nr_frame = f,
      nr_timestamp = (if map ir_timestamp (filter ir_has_timestamp ms) = [] then None
        else Some (min_of (map ir_timestamp (filter ir_has_timestamp ms)))),
      nr_count = int (length ms)\<rparr>) (mset ms)"
  using assms by (cases ms rule: remdups_adj.cases) (auto simp: agrees_def native_match_def)

lemma native_answer_agrees:
  assumes "\<And>t. min_of [t] = t"
  shows "agrees (native_match (native_answer min_of rows key)) (rows_with rows key)"
  unfolding native_answer_def rows_with_def Let_def by (rule native_row_agrees [OF assms])

lemma merge_native_agrees:
  assumes "sorted keys" "distinct keys" "agrees_all keys matches A" "key \<in> set keys"
    and "agrees (native_match row) N" "(nr_episode row, nr_frame row) = key" "int (size (A key + N)) \<le> INT64_MAX"
  shows "\<exists>ms. merge_native keys row matches = Inr ms \<and> agrees_all keys ms (A(key := A key + N))"
proof -
  let ?pos = "lower_bound (\<lambda>x. x < key) keys"
  have pos: "?pos < length keys" "keys ! ?pos = key"
    using lower_bound_sorted_find [of id keys key key] assms(1,2,4) by auto
  then have "agrees (matches ! ?pos) (A key)" "?pos < length matches"
    using assms(3) by (auto simp: agrees_all_def)
  with Merge_agrees [OF _ assms(5), of "matches ! ?pos" "A key"] assms(7)
  obtain c where c: "Merge (matches ! ?pos) (native_match row) = Inr c" "agrees c (A key + N)" by auto
  have "merge_native keys row matches = Inr (matches[?pos := c])"
    using assms(6) pos c(1) by (simp add: merge_native_def Let_def)
  moreover have "agrees_all keys (matches[?pos := c]) (A(key := A key + N))"
    unfolding agrees_all_def
  proof (intro conjI allI impI)
    show "length (matches[?pos := c]) = length keys" using assms(3) by (simp add: agrees_all_def)
    fix i assume i: "i < length keys"
    show "agrees (matches[?pos := c] ! i) ((A(key := A key + N)) (keys ! i))"
    proof (cases "i = ?pos")
      case True
      with pos c(2) \<open>?pos < length matches\<close> show ?thesis by simp
    next
      case False
      then have "keys ! i \<noteq> key" using pos i assms(2) nth_eq_iff_index_eq by metis
      with False i assms(3) show ?thesis by (simp add: agrees_all_def)
    qed
  qed
  ultimately show ?thesis by blast
qed

lemma merge_natives_agree:
  assumes "sorted keys" "distinct keys" "\<And>t. min_of [t] = t"
    and "agrees_all keys matches A" "distinct ks" "set ks \<subseteq> set keys"
    and "\<And>k. k \<in> set ks \<Longrightarrow> int (size (A k + rows_with rows k)) \<le> INT64_MAX"
  shows "\<exists>ms. foldE (merge_native keys) (map (native_answer min_of rows) ks) matches = Inr ms \<and>
    agrees_all keys ms (\<lambda>k. if k \<in> set ks then A k + rows_with rows k else A k)"
  using assms(4-)
proof (induction ks arbitrary: matches A)
  case (Cons k ks)
  have key: "(nr_episode (native_answer min_of rows k), nr_frame (native_answer min_of rows k)) = k"
    by (simp add: native_answer_def Let_def)
  let ?A = "A(k := A k + rows_with rows k)"
  obtain ms where ms: "merge_native keys (native_answer min_of rows k) matches = Inr ms" "agrees_all keys ms ?A"
    using merge_native_agrees [OF assms(1,2) Cons.prems(1) _ native_answer_agrees [OF assms(3)] key] Cons.prems by auto
  have bound: "int (size (?A k' + rows_with rows k')) \<le> INT64_MAX" if "k' \<in> set ks" for k'
    using Cons.prems(2,4) that by (cases "k' = k") auto
  have "(\<lambda>k'. if k' \<in> set ks then ?A k' + rows_with rows k' else ?A k') =
      (\<lambda>k'. if k' \<in> set (k # ks) then A k' + rows_with rows k' else A k')"
    using Cons.prems(2) by (intro ext) auto
  with Cons.IH [OF ms(2) _ _ bound] ms(1) Cons.prems(2,3) show ?case by simp
qed (simp add: agrees_all_def)

definition all_rows :: "(string \<Rightarrow> raw_row list) \<Rightarrow> string list \<Rightarrow> index_row list" where
  "all_rows content files = concat (map (\<lambda>f. joinable (content f)) files)"

lemma rows_with_append [simp]: "rows_with (xs @ ys) k = rows_with xs k + rows_with ys k"
  by (simp add: rows_with_def)

lemma all_rows_simps [simp]:
  "all_rows content [] = []" "all_rows content (f # fs) = joinable (content f) @ all_rows content fs"
  "all_rows content (fs @ gs) = all_rows content fs @ all_rows content gs"
  by (simp_all add: all_rows_def)

lemma rows_with_Nil [simp]: "rows_with [] k = {#}"
  by (simp add: rows_with_def)

lemma rows_with_mset: "mset xs = mset ys \<Longrightarrow> rows_with xs k = rows_with ys k"
  by (simp add: rows_with_def)

text \<open>An index that \<open>GetIndex\<close> may return for a file: its rows, in key order.\<close>

definition index_of :: "raw_row list \<Rightarrow> index_row list \<Rightarrow> bool" where
  "index_of raws rows \<longleftrightarrow> sorted (map Key rows) \<and> mset rows = mset (joinable raws)"

definition good_visit :: "(string \<Rightarrow> raw_row list) \<Rightarrow> file_visit \<Rightarrow> bool" where
  "good_visit content v =
     (case v of (path, got, interrupted) \<Rightarrow> \<not> interrupted \<and>
        (case got of Inl _ \<Rightarrow> False | Inr None \<Rightarrow> True | Inr (Some rows) \<Rightarrow> index_of (content path) rows))"

text \<open>The files without and with an index in this lookup.\<close>

definition without_index :: "bool \<Rightarrow> file_visit \<Rightarrow> bool" where
  "without_index lance v \<longleftrightarrow> lance \<or> fst (snd v) = Inr None"

definition uncached_files :: "bool \<Rightarrow> file_visit list \<Rightarrow> string list" where
  "uncached_files lance visits = map fst (filter (without_index lance) visits)"

definition cached_files :: "bool \<Rightarrow> file_visit list \<Rightarrow> string list" where
  "cached_files lance visits = map fst (filter (\<lambda>v. \<not> without_index lance v) visits)"

lemma files_split: "mset (cached_files lance visits) + mset (uncached_files lance visits) = mset (map fst visits)"
  by (induction visits) (auto simp: cached_files_def uncached_files_def)

lemma visit_files_agree:
  assumes "\<forall>v \<in> set visits. good_visit content v" and "agrees_all keys matches A"
    and "\<And>k. int (size (A k + rows_with (all_rows content (map fst visits)) k)) \<le> INT64_MAX"
  shows "\<exists>ms. foldE (visit_file lance keys) visits (matches, uncached) = Inr (ms, uncached @ uncached_files lance visits) \<and>
    agrees_all keys ms (\<lambda>k. A k + rows_with (all_rows content (cached_files lance visits)) k)"
  using assms
proof (induction visits arbitrary: matches A uncached)
  case Nil
  then show ?case by (simp add: uncached_files_def cached_files_def)
next
  case (Cons v visits)
  obtain path got i where v: "v = (path, got, i)" by (cases v) auto
  with Cons.prems(1) obtain ix where ix: "got = Inr ix" "\<not> i"
    "\<And>rows. ix = Some rows \<Longrightarrow> index_of (content path) rows"
    by (auto simp: good_visit_def split: sum.splits option.splits)
  have rest: "\<forall>v \<in> set visits. good_visit content v" using Cons.prems(1) by simp
  show ?case
  proof (cases "lance \<or> ix = None")
    case True
    then have step: "visit_file lance keys v (matches, uncached) = Inr (matches, uncached @ [path])"
      by (auto simp: visit_file_def v ix(1))
    have files: "uncached_files lance (v # visits) = path # uncached_files lance visits"
      "cached_files lance (v # visits) = cached_files lance visits"
      using True by (auto simp: uncached_files_def cached_files_def without_index_def v ix(1))
    have bound: "int (size (A k + rows_with (all_rows content (map fst visits)) k)) \<le> INT64_MAX" for k
      using Cons.prems(3) [of k] by (simp add: v)
    from Cons.IH [OF rest Cons.prems(2) bound, of "uncached @ [path]"] step show ?thesis
      unfolding files by simp
  next
    case False
    then obtain rows where rows: "ix = Some rows" "\<not> lance" by auto
    with ix(3) have idx: "sorted (map Key rows)" "mset rows = mset (joinable (content path))"
      by (auto simp: index_of_def)
    have eq: "rows_with rows k = rows_with (joinable (content path)) k" for k using idx(2) by (rule rows_with_mset)
    have small: "int (size (A k + rows_with rows k)) \<le> INT64_MAX" for k
      using Cons.prems(3) [of k] by (simp add: v eq)
    from merge_index_agrees [OF idx(1) Cons.prems(2) small]
    obtain ms where ms: "merge_index keys rows matches = Inr ms" "agrees_all keys ms (\<lambda>k. A k + rows_with rows k)"
      by blast
    have step: "visit_file lance keys v (matches, uncached) = Inr (ms, uncached)"
      using rows ix(1,2) ms(1) by (simp add: visit_file_def v)
    have files: "uncached_files lance (v # visits) = uncached_files lance visits"
      "cached_files lance (v # visits) = path # cached_files lance visits"
      using False by (auto simp: uncached_files_def cached_files_def without_index_def v ix(1))
    have bound: "int (size ((A k + rows_with rows k) + rows_with (all_rows content (map fst visits)) k)) \<le> INT64_MAX" for k
      using Cons.prems(3) [of k] by (simp add: v eq)
    from Cons.IH [OF rest ms(2) bound, of uncached] step show ?thesis
      unfolding files by (simp add: eq add.assoc)
  qed
qed

lemma rows_with_all_rows:
  "rows_with (all_rows content files) k = (\<Sum>f \<in># mset files. rows_with (joinable (content f)) k)"
  by (induction files) simp_all

lemma rows_with_files:
  "mset files = mset files' \<Longrightarrow> rows_with (all_rows content files) k = rows_with (all_rows content files') k"
  by (simp add: rows_with_all_rows)

text \<open>
  The documented behaviour of the native reader on the filtered query: one row per requested key, in
  any order, with its count and minimum over the files named in the query.
\<close>

definition native_reader ::
  "(string \<Rightarrow> string) \<Rightarrow> (string \<Rightarrow> native_row list result) \<Rightarrow> (string \<Rightarrow> raw_row list) \<Rightarrow> (fp list \<Rightarrow> fp) \<Rightarrow>
   bool \<Rightarrow> timestamp_key list \<Rightarrow> string list \<Rightarrow> bool" where
  "native_reader sql_literal run content min_of lance keys files \<longleftrightarrow>
     (\<forall>t. min_of [t] = t) \<and>
     (\<forall>sql. FilteredQuery sql_literal files keys lance = Inr sql \<longrightarrow>
        (\<exists>ks. mset ks = mset keys \<and> run sql = Inr (map (native_answer min_of (all_rows content files)) ks)))"

lemma LookupTimestamps_agrees:
  assumes keys: "sorted keys" "distinct keys"
    and visits: "\<forall>v \<in> set visits. good_visit content v"
    and native: "native_reader sql_literal run content min_of lance keys (uncached_files lance visits)"
    and one: "lance \<longrightarrow> length visits = 1"
    and bound: "int (length (all_rows content (map fst visits))) \<le> INT64_MAX"
  shows "\<exists>ms. LookupTimestamps sql_literal run False lance keys visits = Inr ms \<and>
    agrees_all keys ms (rows_with (all_rows content (map fst visits)))"
proof (cases "keys = []")
  case True
  then show ?thesis by (simp add: LookupTimestamps_def agrees_all_def)
next
  case False
  let ?files = "map fst visits" and ?R = "\<lambda>fs k. rows_with (all_rows content fs) k"
  have le: "int (size (?R ?files k)) \<le> INT64_MAX" for k
    using bound length_filter_le [of "\<lambda>r. Key r = k" "all_rows content ?files"]
    unfolding rows_with_def size_mset by linarith
  have start: "agrees_all keys (replicate (length keys) no_match) (\<lambda>k. {#})"
    by (simp add: agrees_all_def)
  let ?rest = "uncached_files lance visits" and ?cached = "cached_files lance visits"
  from visit_files_agree [OF visits start, of lance "[]"] le obtain ms where
    run: "foldE (visit_file lance keys) visits (replicate (length keys) no_match, []) = Inr (ms, ?rest)"
    and ms: "agrees_all keys ms (?R ?cached)" by auto
  note split = files_split [of lance visits]
  have total: "?R ?files k = ?R ?cached k + ?R ?rest k" for k
    using rows_with_files [of ?files "?cached @ ?rest" content k] split by simp
  show ?thesis
  proof (cases "?rest = []")
    case True
    have "?R ?files = ?R ?cached" using total True by (intro ext) simp
    with run ms True False show ?thesis by (simp add: LookupTimestamps_def)
  next
    case rest: False
    have len: "length ?rest = 1" if lance
      using that one rest by (auto simp: uncached_files_def without_index_def)
    have "\<exists>source. LerobotFrameSourceSQL sql_literal ?rest lance = Inr source"
      using len by (cases lance) (simp_all add: LerobotFrameSourceSQL_def)
    then obtain sql where sql: "FilteredQuery sql_literal ?rest keys lance = Inr sql"
      unfolding FilteredQuery_def by (elim exE) (simp only: bindE.simps sum.inject)
    from native sql obtain ks where ks: "mset ks = mset keys"
      "run sql = Inr (map (native_answer min_of (all_rows content ?rest)) ks)" and min: "\<And>t. min_of [t] = t"
      unfolding native_reader_def by blast
    have set_ks: "set ks = set keys" "distinct ks"
      using ks(1) keys(2) mset_eq_setD mset_eq_imp_distinct_iff by blast+
    have small: "int (size (?R ?cached k + ?R ?rest k)) \<le> INT64_MAX" for k using le [of k] total [of k] by simp
    obtain ms' where fold: "foldE (merge_native keys) (map (native_answer min_of (all_rows content ?rest)) ks) ms = Inr ms'"
      and ms': "agrees_all keys ms' (\<lambda>k. if k \<in> set ks then ?R ?cached k + ?R ?rest k else ?R ?cached k)"
      using merge_natives_agree [OF keys min ms set_ks(2) _ small] set_ks(1) by auto
    have "agrees_all keys ms' (?R ?files)"
      using ms' total set_ks(1) by (simp add: agrees_all_def)
    moreover have "LookupTimestamps sql_literal run False lance keys visits = Inr ms'"
      using False rest run sql ks(2) fold by (simp add: LookupTimestamps_def run_native_def)
    ultimately show ?thesis by blast
  qed
qed

section \<open>Properties\<close>

text \<open>
  C25. The lookup gives the same answer whichever files are indexed: for every requested key the match
  counts the rows with that key in all the files, and a single matching row's timestamp is returned
  exactly, provided the native reader answers the filtered query as documented and the total number of
  rows fits in \<open>int64_t\<close>.
\<close>
theorem lookup_counts_all_files:
  assumes "sorted keys" "distinct keys"
    and "\<forall>v \<in> set visits. good_visit content v"
    and "native_reader sql_literal run content min_of lance keys (uncached_files lance visits)"
    and "lance \<longrightarrow> length visits = 1"
    and "int (length (all_rows content (map fst visits))) \<le> INT64_MAX"
  shows "\<exists>ms. LookupTimestamps sql_literal run False lance keys visits = Inr ms \<and>
    length ms = length keys \<and>
    (\<forall>i < length keys. agrees (ms ! i) (rows_with (all_rows content (map fst visits)) (keys ! i)))"
  using LookupTimestamps_agrees [OF assms] by (auto simp: agrees_all_def)

definition example_shard :: "string \<Rightarrow> raw_row list" where
  "example_shard path =
     (if path = ''a'' then [(Some 0, Some 2, Some (Fin 7)), (Some 0, Some 1, Some (Fin 1)), (None, Some 0, None)]
      else [(Some 0, Some 0, Some (Fin 3)), (Some 0, Some 1, Some (Fin 4))])"

definition example_visits :: "file_visit list" where
  "example_visits =
     [(''a'', Inr (Some [index_row_of 0 1 (Some (Fin 1)), index_row_of 0 2 (Some (Fin 7))]), False),
      (''b'', Inr None, False)]"

definition example_answer :: "native_row list" where
  "example_answer = map (native_answer hd (all_rows example_shard [''b''])) [(0, 2), (0, 0), (0, 1)]"

theorem lookup_counts_all_files_witness:
  "\<exists>ms. LookupTimestamps (\<lambda>s. s) (\<lambda>_. Inr example_answer) False False [(0, 0), (0, 1), (0, 2)] example_visits = Inr ms \<and>
    mt_count (ms ! 1) = 2 \<and> mt_timestamp (ms ! 2) = Fin 7"
proof -
  have shards: "all_rows example_shard [''a'', ''b''] =
      [index_row_of 0 2 (Some (Fin 7)), index_row_of 0 1 (Some (Fin 1)), index_row_of 0 0 (Some (Fin 3)), index_row_of 0 1 (Some (Fin 4))]"
    by (simp add: example_shard_def)
  have good: "\<forall>v \<in> set example_visits. good_visit example_shard v"
    by (simp add: example_visits_def good_visit_def index_of_def example_shard_def Key_def index_row_of_def)
  have files: "map fst example_visits = [''a'', ''b'']" "uncached_files False example_visits = [''b'']"
    by (simp_all add: example_visits_def uncached_files_def without_index_def)
  have native: "native_reader (\<lambda>s. s) (\<lambda>_. Inr example_answer) example_shard hd False [(0, 0), (0, 1), (0, 2)] [''b'']"
    unfolding native_reader_def example_answer_def
    by (intro conjI allI impI exI [of _ "[(0, 2), (0, 0), (0, 1)]"]) simp_all
  let ?keys = "[(0::int, 0::int), (0, 1), (0, 2)]"
  have keys: "sorted ?keys" "distinct ?keys" by simp_all
  have "native_reader (\<lambda>s. s) (\<lambda>_. Inr example_answer) example_shard hd False ?keys (uncached_files False example_visits)"
    using native files by simp
  note run = lookup_counts_all_files [OF keys good this]
  have "\<exists>ms. LookupTimestamps (\<lambda>s. s) (\<lambda>_. Inr example_answer) False False [(0, 0), (0, 1), (0, 2)] example_visits = Inr ms \<and>
    length ms = length [(0::int, 0::int), (0, 1), (0, 2)] \<and>
    (\<forall>i < length [(0::int, 0::int), (0, 1), (0, 2)]. agrees (ms ! i)
      (rows_with (all_rows example_shard (map fst example_visits)) ([(0, 0), (0, 1), (0, 2)] ! i)))"
    by (rule run) (simp_all only: files shards, simp_all add: INT64_MAX_def)
  then obtain ms where ms: "LookupTimestamps (\<lambda>s. s) (\<lambda>_. Inr example_answer) False False [(0, 0), (0, 1), (0, 2)] example_visits = Inr ms"
    and a: "\<And>i. i < 3 \<Longrightarrow> agrees (ms ! i) (rows_with (all_rows example_shard (map fst example_visits)) ([(0, 0), (0, 1), (0, 2)] ! i))"
    by auto
  have "mt_count (ms ! 1) = 2" "mt_timestamp (ms ! 2) = Fin 7"
    using a [of 1] a [of 2] unfolding files shards by (simp_all add: rows_with_def Key_def index_row_of_def agrees_def)
  with ms show ?thesis by blast
qed

end
