(* ===== verification/IndexCache.thy ===== *)
theory IndexCache
  imports TimestampLookup
begin

text \<open>
  The cache of shard indexes that the workers of one operator share (\<open>LerobotTimestampLookup::Impl\<close> in
  \<open>src/storage/lerobot_timestamp_lookup.cpp\<close>). Every critical section of \<open>GetIndex\<close>, \<open>Reserve\<close> and
  the loader is one step; the steps of different workers interleave freely.

  Slots and indexes are shared objects: the model gives them numbers and keeps them in heaps. An index
  that no slot and no worker refers to is destroyed at once, which gives its bytes back
  (\<open>collect\<close>, the destructor of \<open>TimestampIndex\<close>).
\<close>

section \<open>State\<close>

definition MAX_INDEX_BYTES :: nat where "MAX_INDEX_BYTES = 32 * 1024 * 1024"
definition MAX_TRACKED_SHARDS :: nat where "MAX_TRACKED_SHARDS = 64"
definition INDEX_ON_VISIT :: nat where "INDEX_ON_VISIT = 3"
definition MIN_INDEX_REQUESTS :: nat where "MIN_INDEX_REQUESTS = 4096"
definition INDEX_ROW_SIZE :: nat where "INDEX_ROW_SIZE = 32"

record shard_slot =
  sl_fingerprint :: "fingerprint option"
  sl_visits :: nat
  sl_last_use :: nat
  sl_loading :: bool
  sl_skipped :: bool
  sl_index :: "nat option"

definition new_slot :: shard_slot where
  "new_slot = \<lparr>sl_fingerprint = None, sl_visits = 0, sl_last_use = 0, sl_loading = False,
     sl_skipped = False, sl_index = None\<rparr>"

text \<open>An index; \<open>ix_read\<close> is a ghost field, the rows of the column query it was built from.\<close>

record timestamp_index =
  ix_bytes :: nat
  ix_rows :: "index_row list"
  ix_read :: "raw_row list"

text \<open>
  Where a worker is in \<open>GetIndex\<close>: outside, between the two critical sections (\<open>Checking\<close>), loading
  (before and after \<open>Reserve\<close>), done loading, or back in \<open>Lookup\<close> with an index.
\<close>

datatype worker =
    Idle
  | Checking string nat
  | Loading string nat fingerprint
  | Filling string nat fingerprint nat nat
  | Loaded string nat fingerprint "nat option"
  | Holding string fingerprint nat

fun worker_slot :: "worker \<Rightarrow> nat option" where
  "worker_slot (Checking _ sid) = Some sid"
| "worker_slot (Loading _ sid _) = Some sid"
| "worker_slot (Filling _ sid _ _ _) = Some sid"
| "worker_slot (Loaded _ sid _ _) = Some sid"
| "worker_slot _ = None"

fun loading_slot :: "worker \<Rightarrow> nat option" where
  "loading_slot (Loading _ sid _) = Some sid"
| "loading_slot (Filling _ sid _ _ _) = Some sid"
| "loading_slot (Loaded _ sid _ _) = Some sid"
| "loading_slot _ = None"

fun worker_index :: "worker \<Rightarrow> nat option" where
  "worker_index (Filling _ _ _ iid _) = Some iid"
| "worker_index (Loaded _ _ _ ix) = ix"
| "worker_index (Holding _ _ iid) = Some iid"
| "worker_index _ = None"

record index_cache =
  slots :: "(string \<times> nat) list"
  slot_heap :: "nat \<Rightarrow> shard_slot"
  next_slot :: nat
  indexes :: "(nat \<times> timestamp_index) list"
  next_index :: nat
  budget_limit :: nat
  budget_bytes :: nat
  budget_peak :: nat
  use_clock :: nat
  min_requests :: nat
  requests :: nat
  workers :: "worker list"
  index_loads :: nat
  index_hits :: nat
  evictions :: nat
  indexed_rows :: nat

definition new_cache :: "nat \<Rightarrow> nat \<Rightarrow> nat \<Rightarrow> index_cache" where
  "new_cache max_bytes min_reqs threads =
     \<lparr>slots = [], slot_heap = (\<lambda>_. new_slot), next_slot = 0, indexes = [], next_index = 0,
      budget_limit = min max_bytes MAX_INDEX_BYTES, budget_bytes = 0, budget_peak = 0, use_clock = 0,
      min_requests = min_reqs, requests = 0, workers = replicate threads Idle,
      index_loads = 0, index_hits = 0, evictions = 0, indexed_rows = 0\<rparr>"

section \<open>Shared objects\<close>

definition holds_index :: "index_cache \<Rightarrow> nat \<Rightarrow> nat \<Rightarrow> bool" where
  "holds_index st sid i \<longleftrightarrow> sl_index (slot_heap st sid) = Some i"

definition referenced :: "index_cache \<Rightarrow> nat \<Rightarrow> bool" where
  "referenced st i \<longleftrightarrow>
     list_ex (\<lambda>(p, sid). holds_index st sid i) (slots st) \<or>
     list_ex (\<lambda>w. worker_index w = Some i \<or>
       (case worker_slot w of None \<Rightarrow> False | Some sid \<Rightarrow> holds_index st sid i)) (workers st)"

definition index_bytes :: "(nat \<times> timestamp_index) list \<Rightarrow> nat" where
  "index_bytes xs = sum_list (map (\<lambda>x. ix_bytes (snd x)) xs)"

text \<open>The destructors that run when references go away.\<close>

definition collect :: "index_cache \<Rightarrow> index_cache" where
  "collect st =
     st\<lparr>indexes := filter (\<lambda>x. referenced st (fst x)) (indexes st),
        budget_bytes := budget_bytes st - index_bytes (filter (\<lambda>x. \<not> referenced st (fst x)) (indexes st))\<rparr>"

definition set_worker :: "nat \<Rightarrow> worker \<Rightarrow> index_cache \<Rightarrow> index_cache" where
  "set_worker w pc st = st\<lparr>workers := (workers st)[w := pc]\<rparr>"

definition set_slot :: "nat \<Rightarrow> shard_slot \<Rightarrow> index_cache \<Rightarrow> index_cache" where
  "set_slot sid s st = st\<lparr>slot_heap := (slot_heap st)(sid := s)\<rparr>"

section \<open>Operations\<close>

text \<open>The request counter of \<open>Lookup\<close>, which saturates at the threshold.\<close>

definition CountRequests :: "nat \<Rightarrow> index_cache \<Rightarrow> index_cache" where
  "CountRequests n st =
     (if requests st < min_requests st
      then st\<lparr>requests := requests st + min (min_requests st - requests st) n\<rparr> else st)"

text \<open>The entry of the slot with the least \<open>last_use\<close> among those that satisfy a condition.\<close>

fun oldest :: "(nat \<Rightarrow> shard_slot) \<Rightarrow> (string \<times> nat) list \<Rightarrow> (string \<times> nat) option" where
  "oldest heap [] = None"
| "oldest heap (x # xs) =
     (case oldest heap xs of
        None \<Rightarrow> Some x
      | Some y \<Rightarrow> Some (if sl_last_use (heap (snd y)) < sl_last_use (heap (snd x)) then y else x))"

definition indexed_slots :: "index_cache \<Rightarrow> (string \<times> nat) list" where
  "indexed_slots st = filter (\<lambda>x. sl_index (slot_heap st (snd x)) \<noteq> None) (slots st)"

text \<open>One eviction of the loop in \<open>Reserve\<close>.\<close>

definition evict_index :: "nat \<Rightarrow> index_cache \<Rightarrow> index_cache" where
  "evict_index sid st =
     (collect (set_slot sid ((slot_heap st sid)\<lparr>sl_index := None, sl_skipped := True\<rparr>) st))
       \<lparr>evictions := evictions st + 1\<rparr>"

lemma oldest_in: "oldest heap xs = Some x \<Longrightarrow> x \<in> set xs"
  by (induction xs arbitrary: x) (auto split: option.splits if_splits)

lemma collect_simps [simp]:
  "slots (collect st) = slots st" "slot_heap (collect st) = slot_heap st" "next_slot (collect st) = next_slot st"
  "next_index (collect st) = next_index st" "budget_limit (collect st) = budget_limit st"
  "budget_peak (collect st) = budget_peak st" "use_clock (collect st) = use_clock st"
  "min_requests (collect st) = min_requests st" "requests (collect st) = requests st"
  "workers (collect st) = workers st" "indexes (collect st) = filter (\<lambda>x. referenced st (fst x)) (indexes st)"
  by (simp_all add: collect_def)

lemma evict_index_fewer:
  assumes "x \<in> set (indexed_slots st)"
  shows "length (indexed_slots (evict_index (snd x) st)) < length (indexed_slots st)"
proof -
  let ?P = "\<lambda>y. sl_index (slot_heap st (snd y)) \<noteq> None"
  have eq: "indexed_slots (evict_index (snd x) st) = filter (\<lambda>y. snd y \<noteq> snd x) (indexed_slots st)"
    by (auto simp: indexed_slots_def evict_index_def set_slot_def intro!: filter_cong)
  show ?thesis unfolding eq using assms by (intro length_filter_less) auto
qed

text \<open>\<open>Reserve\<close>: evict indexes, the least recently used first, until the bytes fit or none is left.\<close>

function reserve :: "nat \<Rightarrow> index_cache \<Rightarrow> bool \<times> index_cache" where
  "reserve bytes st =
     (if bytes > budget_limit st - budget_bytes st then
        (case oldest (slot_heap st) (indexed_slots st) of
           None \<Rightarrow> (False, st)
         | Some x \<Rightarrow> reserve bytes (evict_index (snd x) st))
      else (True, st\<lparr>budget_bytes := budget_bytes st + bytes,
                     budget_peak := max (budget_peak st) (budget_bytes st + bytes)\<rparr>))"
  by auto
termination
  by (relation "measure (\<lambda>(bytes, st). length (indexed_slots st))")
    (auto dest: oldest_in intro: evict_index_fewer)

declare reserve.simps [simp del]

text \<open>
  The first critical section of \<open>GetIndex\<close>: find or create the slot of the path (evicting the least
  recently used one when the table is full), count the visit, and go on only for an eligible one.
\<close>

definition track_slot :: "string \<Rightarrow> index_cache \<Rightarrow> nat \<times> index_cache" where
  "track_slot path st =
     (case map_of (slots st) path of
        Some sid \<Rightarrow> (sid, st)
      | None \<Rightarrow>
          let st1 =
            (if length (slots st) = MAX_TRACKED_SHARDS then
               (case oldest (slot_heap st) (slots st) of
                  None \<Rightarrow> st
                | Some x \<Rightarrow> (collect (st\<lparr>slots := filter (\<lambda>y. y \<noteq> x) (slots st)\<rparr>))\<lparr>evictions := evictions st + 1\<rparr>)
             else st);
            sid = next_slot st1
          in (sid, st1\<lparr>slots := (path, sid) # slots st1, slot_heap := (slot_heap st1)(sid := new_slot),
                       next_slot := sid + 1\<rparr>))"

definition GetIndex_visit :: "nat \<Rightarrow> string \<Rightarrow> index_cache \<Rightarrow> index_cache" where
  "GetIndex_visit w path st =
     (if budget_limit st = 0 then st
      else
        let (sid, st1) = track_slot path st;
            c = use_clock st1 + 1;
            s = (slot_heap st1 sid)\<lparr>sl_last_use := c, sl_visits := sl_visits (slot_heap st1 sid) + 1\<rparr>;
            st2 = set_slot sid s (st1\<lparr>use_clock := c\<rparr>)
        in if sl_visits s < INDEX_ON_VISIT \<or> requests st2 < min_requests st2 \<or> sl_loading s
           then st2 else set_worker w (Checking path sid) st2)"

text \<open>
  The second critical section, with the fingerprint read in between: a slot that is no longer the
  path's or is being loaded is left alone, a changed file gets a fresh slot, an index is returned, and
  otherwise this worker becomes the slot's loader.
\<close>

fun repoint :: "string \<Rightarrow> nat \<Rightarrow> (string \<times> nat) list \<Rightarrow> (string \<times> nat) list" where
  "repoint path new [] = []"
| "repoint path new ((p, i) # xs) = (if p = path then (p, new) else (p, i)) # repoint path new xs"

definition GetIndex_check :: "nat \<Rightarrow> fingerprint result \<Rightarrow> index_cache \<Rightarrow> index_cache" where
  "GetIndex_check w fpr st =
     (case workers st ! w of
        Checking path sid \<Rightarrow>
          (case fpr of
             Inl _ \<Rightarrow> collect (set_worker w Idle st)
           | Inr f \<Rightarrow>
               let s = slot_heap st sid in
               if map_of (slots st) path \<noteq> Some sid \<or> sl_loading s then collect (set_worker w Idle st)
               else if sl_fingerprint s \<noteq> None \<and> sl_fingerprint s \<noteq> Some f then
                 let new = next_slot st
                 in collect (set_worker w Idle (st\<lparr>
                      slots := repoint path new (slots st),
                      slot_heap := (slot_heap st)(new := new_slot\<lparr>sl_fingerprint := Some f, sl_visits := 1,
                                                                   sl_last_use := sl_last_use s\<rparr>),
                      next_slot := new + 1\<rparr>))
               else
                 (case sl_index s of
                    Some iid \<Rightarrow> set_worker w (Holding path f iid) (st\<lparr>index_hits := index_hits st + 1\<rparr>)
                  | None \<Rightarrow>
                      if sl_skipped s then collect (set_worker w Idle st)
                      else set_worker w (Loading path sid f)
                             (set_slot sid (s\<lparr>sl_fingerprint := Some f, sl_loading := True\<rparr>) st)))
      | _ \<Rightarrow> st)"

text \<open>
  The loader. Errors that reading a whole shard can meet although the requested rows are fine are
  suppressed (\<open>suppressed\<close>); every other exception clears the loading flag and leaves \<open>GetIndex\<close>.
\<close>

definition suppressed :: "exn \<Rightarrow> bool" where
  "suppressed e =
     (case e of OutOfMemoryException _ \<Rightarrow> True | ConversionException _ \<Rightarrow> True
      | InvalidInputException _ \<Rightarrow> True | IOException _ \<Rightarrow> True | _ \<Rightarrow> False)"

definition abort_load :: "nat \<Rightarrow> nat \<Rightarrow> index_cache \<Rightarrow> index_cache" where
  "abort_load w sid st =
     collect (set_worker w Idle (set_slot sid ((slot_heap st sid)\<lparr>sl_loading := False\<rparr>) st))"

definition give_up :: "nat \<Rightarrow> string \<Rightarrow> nat \<Rightarrow> fingerprint \<Rightarrow> index_cache \<Rightarrow> index_cache" where
  "give_up w path sid f st = collect (set_worker w (Loaded path sid f None) st)"

definition catch_load :: "bool \<Rightarrow> exn \<Rightarrow> nat \<Rightarrow> string \<Rightarrow> nat \<Rightarrow> fingerprint \<Rightarrow> index_cache \<Rightarrow> index_cache" where
  "catch_load interrupted e w path sid f st =
     (if interrupted \<or> \<not> suppressed e then abort_load w sid st else give_up w path sid f st)"

text \<open>\<open>Load\<close> up to the allocation: the row count, the budget, the allocator.\<close>

definition Load_reserve :: "nat \<Rightarrow> bool \<Rightarrow> nat result \<Rightarrow> bool \<Rightarrow> index_cache \<Rightarrow> index_cache" where
  "Load_reserve w interrupted row_count allocated st =
     (case workers st ! w of
        Loading path sid f \<Rightarrow>
          (case row_count of
             Inl e \<Rightarrow> catch_load interrupted e w path sid f st
           | Inr n \<Rightarrow>
               if n > budget_limit st div INDEX_ROW_SIZE then give_up w path sid f st
               else
                 let (ok, st1) = reserve (n * INDEX_ROW_SIZE) st; iid = next_index st1 in
                 if \<not> ok then give_up w path sid f st1
                 else
                   let st2 = set_worker w (Filling path sid f iid n)
                     (st1\<lparr>indexes := (iid, \<lparr>ix_bytes = n * INDEX_ROW_SIZE, ix_rows = [], ix_read = []\<rparr>) # indexes st1,
                          next_index := iid + 1\<rparr>)
                   in if n \<noteq> 0 \<and> \<not> allocated then give_up w path sid f st2 else st2)
      | _ \<Rightarrow> st)"

text \<open>\<open>Load\<close> after the allocation: the rows of the column query fill the index.\<close>

definition store_rows :: "nat \<Rightarrow> index_row list \<Rightarrow> raw_row list \<Rightarrow> (nat \<times> timestamp_index) list \<Rightarrow> (nat \<times> timestamp_index) list" where
  "store_rows iid rows raws xs =
     map (\<lambda>(i, x). if i = iid then (i, x\<lparr>ix_rows := rows, ix_read := raws\<rparr>) else (i, x)) xs"

definition Load_fill :: "nat \<Rightarrow> bool \<Rightarrow> raw_row list result \<Rightarrow> index_cache \<Rightarrow> index_cache" where
  "Load_fill w interrupted read st =
     (case workers st ! w of
        Filling path sid f iid n \<Rightarrow>
          (case read of
             Inl e \<Rightarrow> catch_load interrupted e w path sid f st
           | Inr raws \<Rightarrow>
               (case build_index n raws of
                  None \<Rightarrow> give_up w path sid f st
                | Some rows \<Rightarrow>
                    if interrupted then abort_load w sid st
                    else set_worker w (Loaded path sid f (Some iid))
                           (st\<lparr>indexes := store_rows iid rows raws (indexes st)\<rparr>)))
      | _ \<Rightarrow> st)"

text \<open>The third critical section: publish the index unless the file or the slot changed meanwhile.\<close>

definition GetIndex_publish :: "nat \<Rightarrow> fingerprint result \<Rightarrow> index_cache \<Rightarrow> index_cache" where
  "GetIndex_publish w fpr st =
     (case workers st ! w of
        Loaded path sid f index \<Rightarrow>
          (case fpr of
             Inl _ \<Rightarrow> abort_load w sid st
           | Inr f' \<Rightarrow>
               let st1 = set_slot sid ((slot_heap st sid)\<lparr>sl_loading := False\<rparr>) st in
               if f' \<noteq> f \<or> map_of (slots st) path \<noteq> Some sid then collect (set_worker w Idle st1)
               else
                 let st2 = set_slot sid ((slot_heap st1 sid)\<lparr>sl_skipped := (index = None), sl_index := index\<rparr>) st1
                 in (case index of
                       None \<Rightarrow> set_worker w Idle st2
                     | Some iid \<Rightarrow>
                         set_worker w (Holding path f iid)
                           (st2\<lparr>index_loads := index_loads st2 + 1,
                                indexed_rows := indexed_rows st2 +
                                  (case map_of (indexes st2) iid of None \<Rightarrow> 0 | Some x \<Rightarrow> length (ix_rows x))\<rparr>)))
      | _ \<Rightarrow> st)"

text \<open>\<open>Lookup\<close> drops its reference to an index after it has merged its matches.\<close>

definition DropIndex :: "nat \<Rightarrow> index_cache \<Rightarrow> index_cache" where
  "DropIndex w st =
     (case workers st ! w of Holding _ _ _ \<Rightarrow> collect (set_worker w Idle st) | _ \<Rightarrow> st)"

section \<open>Interleavings\<close>

text \<open>
  One step of any worker. The environment is unrestricted (fingerprints, query results, errors,
  interrupts), except that a file whose fingerprint is the same before and after it was read has the
  content of that fingerprint (\<open>content\<close>); the premise of \<open>publish\<close> says so of the rows that were read.
\<close>

definition read_by :: "index_cache \<Rightarrow> nat \<Rightarrow> raw_row list option" where
  "read_by st iid = map_option ix_read (map_of (indexes st) iid)"

inductive cache_step :: "(string \<Rightarrow> fingerprint \<Rightarrow> raw_row list) \<Rightarrow> index_cache \<Rightarrow> index_cache \<Rightarrow> bool"
  for content where
  count: "cache_step content st (CountRequests n st)"
| visit: "w < length (workers st) \<Longrightarrow> workers st ! w = Idle \<Longrightarrow> cache_step content st (GetIndex_visit w path st)"
| check: "w < length (workers st) \<Longrightarrow> workers st ! w = Checking path sid \<Longrightarrow>
    cache_step content st (GetIndex_check w fpr st)"
| reserve: "w < length (workers st) \<Longrightarrow> workers st ! w = Loading path sid f \<Longrightarrow>
    cache_step content st (Load_reserve w interrupted row_count allocated st)"
| fill: "w < length (workers st) \<Longrightarrow> workers st ! w = Filling path sid f iid n \<Longrightarrow>
    cache_step content st (Load_fill w interrupted read st)"
| publish: "w < length (workers st) \<Longrightarrow> workers st ! w = Loaded path sid f index \<Longrightarrow>
    (\<And>iid. fpr = Inr f \<Longrightarrow> index = Some iid \<Longrightarrow> read_by st iid = Some (content path f)) \<Longrightarrow>
    cache_step content st (GetIndex_publish w fpr st)"
| drop: "w < length (workers st) \<Longrightarrow> workers st ! w = Holding path f iid \<Longrightarrow>
    cache_step content st (DropIndex w st)"

section \<open>The invariant\<close>

definition budget_inv :: "index_cache \<Rightarrow> bool" where
  "budget_inv st \<longleftrightarrow> budget_bytes st = index_bytes (indexes st) \<and> budget_bytes st \<le> budget_peak st \<and>
     budget_peak st \<le> budget_limit st"

definition slot_inv :: "index_cache \<Rightarrow> bool" where
  "slot_inv st \<longleftrightarrow> length (slots st) \<le> MAX_TRACKED_SHARDS \<and> distinct (map fst (slots st)) \<and>
     distinct (map snd (slots st)) \<and> (\<forall>x \<in> set (slots st). snd x < next_slot st) \<and>
     (\<forall>sid. next_slot st \<le> sid \<longrightarrow> slot_heap st sid = new_slot)"

definition loaders :: "index_cache \<Rightarrow> nat \<Rightarrow> nat" where
  "loaders st sid = length (filter (\<lambda>pc. loading_slot pc = Some sid) (workers st))"

definition load_inv :: "index_cache \<Rightarrow> bool" where
  "load_inv st \<longleftrightarrow> (\<forall>sid. loaders st sid = (if sl_loading (slot_heap st sid) then 1 else 0))"

fun owned :: "worker \<Rightarrow> nat option" where
  "owned (Filling _ _ _ iid _) = Some iid"
| "owned (Loaded _ _ _ ix) = ix"
| "owned _ = None"

definition own_inv :: "index_cache \<Rightarrow> bool" where
  "own_inv st \<longleftrightarrow>
     (\<forall>sid i. sl_index (slot_heap st sid) = Some i \<longrightarrow> i < next_index st) \<and>
     (\<forall>w < length (workers st). \<forall>i. worker_index (workers st ! w) = Some i \<longrightarrow> i < next_index st) \<and>
     (\<forall>w < length (workers st). \<forall>i. owned (workers st ! w) = Some i \<longrightarrow>
        (\<forall>sid. sl_index (slot_heap st sid) \<noteq> Some i) \<and>
        (\<forall>v < length (workers st). v \<noteq> w \<longrightarrow> worker_index (workers st ! v) \<noteq> Some i))"

text \<open>The index with a number holds the rows of a file content, in key order.\<close>

definition holds_rows :: "index_cache \<Rightarrow> nat \<Rightarrow> raw_row list \<Rightarrow> bool" where
  "holds_rows st i raws \<longleftrightarrow> (\<exists>x. map_of (indexes st) i = Some x \<and> index_of raws (ix_rows x))"

definition slot_ok :: "(string \<Rightarrow> fingerprint \<Rightarrow> raw_row list) \<Rightarrow> index_cache \<Rightarrow> string \<times> nat \<Rightarrow> bool" where
  "slot_ok content st x \<longleftrightarrow>
     (\<forall>i. sl_index (slot_heap st (snd x)) = Some i \<longrightarrow>
        (\<exists>f. sl_fingerprint (slot_heap st (snd x)) = Some f \<and> holds_rows st i (content (fst x) f)))"

fun worker_ok :: "(string \<Rightarrow> fingerprint \<Rightarrow> raw_row list) \<Rightarrow> index_cache \<Rightarrow> worker \<Rightarrow> bool" where
  "worker_ok content st Idle = True"
| "worker_ok content st (Checking path sid) = (sid < next_slot st)"
| "worker_ok content st (Loading path sid f) =
     (sid < next_slot st \<and> sl_fingerprint (slot_heap st sid) = Some f)"
| "worker_ok content st (Filling path sid f iid n) =
     (sid < next_slot st \<and> sl_fingerprint (slot_heap st sid) = Some f \<and> map_of (indexes st) iid \<noteq> None)"
| "worker_ok content st (Loaded path sid f index) =
     (sid < next_slot st \<and> sl_fingerprint (slot_heap st sid) = Some f \<and>
      (case index of None \<Rightarrow> True
       | Some iid \<Rightarrow> (\<exists>x. map_of (indexes st) iid = Some x \<and> index_of (ix_read x) (ix_rows x))))"
| "worker_ok content st (Holding path f iid) = holds_rows st iid (content path f)"

definition cache_inv :: "(string \<Rightarrow> fingerprint \<Rightarrow> raw_row list) \<Rightarrow> index_cache \<Rightarrow> bool" where
  "cache_inv content st \<longleftrightarrow> budget_inv st \<and> slot_inv st \<and> load_inv st \<and> own_inv st \<and>
     (\<forall>x \<in> set (slots st). slot_ok content st x) \<and> (\<forall>pc \<in> set (workers st). worker_ok content st pc)"

lemma cache_invD:
  assumes "cache_inv content st"
  shows "budget_inv st" "slot_inv st" "load_inv st" "own_inv st"
    "\<And>x. x \<in> set (slots st) \<Longrightarrow> slot_ok content st x"
    "\<And>pc. pc \<in> set (workers st) \<Longrightarrow> worker_ok content st pc"
  using assms by (auto simp: cache_inv_def)

lemma cache_invI [invariant_intros]:
  assumes "budget_inv st" "slot_inv st" "load_inv st" "own_inv st"
    and "\<And>x. x \<in> set (slots st) \<Longrightarrow> slot_ok content st x"
    and "\<And>pc. pc \<in> set (workers st) \<Longrightarrow> worker_ok content st pc"
  shows "cache_inv content st"
  using assms by (simp add: cache_inv_def)

lemma budget_inv_cong:
  "budget_bytes st' = budget_bytes st \<Longrightarrow> indexes st' = indexes st \<Longrightarrow> budget_peak st' = budget_peak st \<Longrightarrow>
   budget_limit st' = budget_limit st \<Longrightarrow> budget_inv st \<Longrightarrow> budget_inv st'"
  by (simp add: budget_inv_def)

lemma slot_inv_cong:
  "slots st' = slots st \<Longrightarrow> next_slot st' = next_slot st \<Longrightarrow>
   (\<And>sid. next_slot st \<le> sid \<Longrightarrow> slot_heap st' sid = slot_heap st sid) \<Longrightarrow> slot_inv st \<Longrightarrow> slot_inv st'"
  unfolding slot_inv_def by (elim conjE) (intro conjI allI impI; simp)

lemma in_update: "x \<in> set (xs[w := y]) \<Longrightarrow> x = y \<or> x \<in> set xs"
  using set_update_subset_insert [of xs w y] by blast

subsection \<open>Dropping references\<close>

lemma map_of_filter_key: "map_of (filter (\<lambda>x. P (fst x)) xs) i = (if P i then map_of xs i else None)"
  by (induction xs) auto

lemma index_bytes_filter:
  "index_bytes (filter P xs) + index_bytes (filter (\<lambda>x. \<not> P x) xs) = index_bytes xs"
  by (induction xs) (auto simp: index_bytes_def)

lemma map_of_collect: "map_of (indexes (collect st)) i = (if referenced st i then map_of (indexes st) i else None)"
  by (simp add: map_of_filter_key)

lemma referenced_slot: "x \<in> set (slots st) \<Longrightarrow> sl_index (slot_heap st (snd x)) = Some i \<Longrightarrow> referenced st i"
  by (force simp: referenced_def list_ex_iff holds_index_def)

lemma referenced_worker: "pc \<in> set (workers st) \<Longrightarrow> worker_index pc = Some i \<Longrightarrow> referenced st i"
  by (auto simp: referenced_def list_ex_iff)

lemma holds_rows_collect: "holds_rows st i raws \<Longrightarrow> referenced st i \<Longrightarrow> holds_rows (collect st) i raws"
  by (simp only: holds_rows_def map_of_collect if_True)

lemma worker_ok_collect:
  assumes "pc \<in> set (workers st)" and "worker_ok content st pc"
  shows "worker_ok content (collect st) pc"
  using assms(2) referenced_worker [OF assms(1)]
  by (cases pc) (auto simp: map_of_filter_key holds_rows_collect split: option.splits)

lemma collect_inv:
  assumes "cache_inv content st"
  shows "cache_inv content (collect st)"
proof -
  note D = cache_invD [OF assms]
  have "budget_inv (collect st)"
    using D(1) index_bytes_filter [of "\<lambda>x. referenced st (fst x)" "indexes st"]
    by (auto simp: budget_inv_def collect_def)
  moreover have "slot_inv (collect st)" "load_inv (collect st)" "own_inv (collect st)"
    using D(2-4) by (simp_all add: slot_inv_def load_inv_def loaders_def own_inv_def)
  moreover have "slot_ok content (collect st) x" if "x \<in> set (slots st)" for x
    using D(5) [OF that] referenced_slot [OF that] holds_rows_collect
    unfolding slot_ok_def collect_simps by blast
  moreover have "worker_ok content (collect st) pc" if "pc \<in> set (workers st)" for pc
    using D(6) [OF that] by (rule worker_ok_collect [OF that])
  ultimately show ?thesis by (simp add: cache_inv_def)
qed

subsection \<open>Moving a worker, changing a slot\<close>

lemma length_filter_update:
  assumes "w < length xs"
  shows "length (filter P (xs[w := y])) + (if P (xs ! w) then 1 else 0) = length (filter P xs) + (if P y then 1 else 0)"
  using assms
proof (induction xs arbitrary: w)
  case (Cons x xs)
  then show ?case by (cases w) auto
qed simp

lemma own_invI:
  assumes "\<And>sid i. sl_index (slot_heap st sid) = Some i \<Longrightarrow> i < next_index st"
    and "\<And>w i. w < length (workers st) \<Longrightarrow> worker_index (workers st ! w) = Some i \<Longrightarrow> i < next_index st"
    and "\<And>w i sid. w < length (workers st) \<Longrightarrow> owned (workers st ! w) = Some i \<Longrightarrow>
      sl_index (slot_heap st sid) = Some i \<Longrightarrow> False"
    and "\<And>w i v. w < length (workers st) \<Longrightarrow> owned (workers st ! w) = Some i \<Longrightarrow> v < length (workers st) \<Longrightarrow>
      v \<noteq> w \<Longrightarrow> worker_index (workers st ! v) = Some i \<Longrightarrow> False"
  shows "own_inv st"
  using assms unfolding own_inv_def by blast

lemma own_invD:
  assumes "own_inv st"
  shows "sl_index (slot_heap st sid) = Some i \<Longrightarrow> i < next_index st"
    and "w < length (workers st) \<Longrightarrow> worker_index (workers st ! w) = Some i \<Longrightarrow> i < next_index st"
    and "w < length (workers st) \<Longrightarrow> owned (workers st ! w) = Some i \<Longrightarrow> sl_index (slot_heap st sid) \<noteq> Some i"
    and "w < length (workers st) \<Longrightarrow> owned (workers st ! w) = Some i \<Longrightarrow> v < length (workers st) \<Longrightarrow>
      v \<noteq> w \<Longrightarrow> worker_index (workers st ! v) \<noteq> Some i"
  using assms unfolding own_inv_def by blast+

lemma owned_index: "owned pc = Some i \<Longrightarrow> worker_index pc = Some i"
  by (cases pc) auto

lemma set_worker_simps [simp]:
  "slots (set_worker w pc st) = slots st" "slot_heap (set_worker w pc st) = slot_heap st"
  "next_slot (set_worker w pc st) = next_slot st" "indexes (set_worker w pc st) = indexes st"
  "next_index (set_worker w pc st) = next_index st" "budget_limit (set_worker w pc st) = budget_limit st"
  "budget_bytes (set_worker w pc st) = budget_bytes st" "budget_peak (set_worker w pc st) = budget_peak st"
  "workers (set_worker w pc st) = (workers st)[w := pc]"
  by (simp_all add: set_worker_def)

lemma set_slot_simps [simp]:
  "slots (set_slot sid s st) = slots st" "slot_heap (set_slot sid s st) = (slot_heap st)(sid := s)"
  "next_slot (set_slot sid s st) = next_slot st" "indexes (set_slot sid s st) = indexes st"
  "next_index (set_slot sid s st) = next_index st" "budget_limit (set_slot sid s st) = budget_limit st"
  "budget_bytes (set_slot sid s st) = budget_bytes st" "budget_peak (set_slot sid s st) = budget_peak st"
  "workers (set_slot sid s st) = workers st"
  by (simp_all add: set_slot_def)

text \<open>What the parts of the invariant depend on.\<close>

lemma worker_ok_cong:
  "next_slot st \<le> next_slot st' \<Longrightarrow>
   (\<And>sid. loading_slot pc = Some sid \<Longrightarrow> sl_fingerprint (slot_heap st' sid) = sl_fingerprint (slot_heap st sid)) \<Longrightarrow>
   (\<And>i. worker_index pc = Some i \<Longrightarrow> map_of (indexes st') i = map_of (indexes st) i) \<Longrightarrow>
   worker_ok content st pc \<Longrightarrow> worker_ok content st' pc"
  by (cases pc) (auto simp: holds_rows_def split: option.splits)

lemma loaders_set_worker:
  "w < length (workers st) \<Longrightarrow> loading_slot pc = loading_slot (workers st ! w) \<Longrightarrow>
   loaders (set_worker w pc st) sid = loaders st sid"
  using length_filter_update [of w "workers st" "\<lambda>pc. loading_slot pc = Some sid" pc]
  by (simp add: loaders_def split: if_splits)

lemma set_worker_inv:
  assumes inv: "cache_inv content st" and w: "w < length (workers st)"
    and ok: "worker_ok content st pc" and same: "loading_slot pc = loading_slot (workers st ! w)"
    and old: "owned pc = None \<or> owned pc = owned (workers st ! w)"
    and ref: "\<And>i. worker_index pc = Some i \<Longrightarrow> worker_index (workers st ! w) = Some i \<or>
      (\<exists>sid. sl_index (slot_heap st sid) = Some i)"
  shows "cache_inv content (set_worker w pc st)"
proof -
  note D = cache_invD [OF inv]
  note O = own_invD [OF D(4)]
  have old': "owned (workers st ! w) = Some i" if "owned pc = Some i" for i using that old by auto
  have "own_inv (set_worker w pc st)"
  proof (rule own_invI, unfold set_worker_simps length_list_update)
    fix v i assume "v < length (workers st)" "worker_index ((workers st)[w := pc] ! v) = Some i"
    then show "i < next_index st" using ref O(1,2) w by (cases "v = w") auto
  next
    fix v i sid assume "v < length (workers st)" "owned ((workers st)[w := pc] ! v) = Some i"
      "sl_index (slot_heap st sid) = Some i"
    then show False using O(3) old' w by (cases "v = w") auto
  next
    fix u i v assume *: "u < length (workers st)" "owned ((workers st)[w := pc] ! u) = Some i"
      "v < length (workers st)" "v \<noteq> u" "worker_index ((workers st)[w := pc] ! v) = Some i"
    then have u: "owned (workers st ! u) = Some i" using old' w by (cases "u = w") auto
    show False
    proof (cases "v = w")
      case True
      with * w have "worker_index pc = Some i" by simp
      from ref [OF this] show False using O(3,4) [OF *(1) u] w True *(4) by blast
    next
      case False
      with * O(4) [OF *(1) u] show False by simp
    qed
  qed (use O(1) in blast)
  moreover have "load_inv (set_worker w pc st)"
    using D(3) by (simp add: load_inv_def loaders_set_worker w same)
  moreover have "worker_ok content (set_worker w pc st) q" if "q \<in> insert pc (set (workers st))" for q
    using that ok D(6) by (auto intro: worker_ok_cong [of st])
  moreover have "slot_ok content (set_worker w pc st) x" if "x \<in> set (slots st)" for x
    using D(5) [OF that] by (simp add: slot_ok_def holds_rows_def)
  ultimately show ?thesis
    using D(1,2) set_update_subset_insert [of "workers st" w pc]
    by (auto simp: cache_inv_def budget_inv_def slot_inv_def)
qed

lemma loaders_pos:
  "w < length (workers st) \<Longrightarrow> loading_slot (workers st ! w) = Some sid \<Longrightarrow> loaders st sid \<noteq> 0"
  by (auto simp: loaders_def filter_empty_conv)

lemma not_loading:
  "load_inv st \<Longrightarrow> \<not> sl_loading (slot_heap st sid) \<Longrightarrow> pc \<in> set (workers st) \<Longrightarrow> loading_slot pc \<noteq> Some sid"
  using loaders_pos by (metis in_set_conv_nth load_inv_def)

text \<open>Changing a slot that nobody else relies on; \<open>f\<close> keeps the loading flag.\<close>

lemma set_slot_inv:
  assumes inv: "cache_inv content st" and sid: "sid < next_slot st"
    and loading: "sl_loading s = sl_loading (slot_heap st sid)"
    and index: "sl_index s = None \<or> sl_index s = sl_index (slot_heap st sid)"
    and fp: "sl_fingerprint s = sl_fingerprint (slot_heap st sid)"
  shows "cache_inv content (set_slot sid s st)"
proof -
  note D = cache_invD [OF inv]
  note O = own_invD [OF D(4)]
  have old: "\<exists>k. sl_index (slot_heap st k) = Some i" if "sl_index (slot_heap (set_slot sid s st) k) = Some i" for i k
    using that index by (auto split: if_splits)
  have "load_inv (set_slot sid s st)"
    using D(3) loading by (simp add: load_inv_def loaders_def)
  moreover have "own_inv (set_slot sid s st)"
    by (rule own_invI; unfold set_slot_simps(9,5)) (use O old in blast)+
  moreover have "worker_ok content (set_slot sid s st) q" if "q \<in> set (workers st)" for q
    using that D(6) fp by (auto intro: worker_ok_cong [of st])
  moreover have "slot_ok content (set_slot sid s st) x" if "x \<in> set (slots st)" for x
    using D(5) [OF that] index fp by (auto simp: slot_ok_def holds_rows_def)
  moreover have "slot_inv (set_slot sid s st)" using D(2) sid by (auto simp: slot_inv_def)
  ultimately show ?thesis using D(1) by (simp add: cache_inv_def budget_inv_def)
qed

text \<open>Fields the invariant does not read.\<close>

lemma ghost_inv [simp]:
  "cache_inv content (st\<lparr>evictions := n\<rparr>) = cache_inv content st"
  "cache_inv content (st\<lparr>use_clock := n\<rparr>) = cache_inv content st"
  "cache_inv content (st\<lparr>requests := n\<rparr>) = cache_inv content st"
  "cache_inv content (st\<lparr>index_hits := n\<rparr>) = cache_inv content st"
  "cache_inv content (st\<lparr>index_loads := n, indexed_rows := k\<rparr>) = cache_inv content st"
proof -
  have eq: "cache_inv content st' = cache_inv content st" if "slots st' = slots st" "slot_heap st' = slot_heap st"
    "next_slot st' = next_slot st" "indexes st' = indexes st" "next_index st' = next_index st"
    "budget_limit st' = budget_limit st" "budget_bytes st' = budget_bytes st" "budget_peak st' = budget_peak st"
    "workers st' = workers st" for st' :: index_cache
  proof -
    have "worker_ok content st' pc = worker_ok content st pc" for pc
      using that by (cases pc) (auto simp: holds_rows_def split: option.splits)
    then show ?thesis using that
      by (simp add: cache_inv_def budget_inv_def slot_inv_def load_inv_def loaders_def own_inv_def slot_ok_def holds_rows_def)
  qed
  show "cache_inv content (st\<lparr>evictions := n\<rparr>) = cache_inv content st"
    "cache_inv content (st\<lparr>use_clock := n\<rparr>) = cache_inv content st"
    "cache_inv content (st\<lparr>requests := n\<rparr>) = cache_inv content st"
    "cache_inv content (st\<lparr>index_hits := n\<rparr>) = cache_inv content st"
    "cache_inv content (st\<lparr>index_loads := n, indexed_rows := k\<rparr>) = cache_inv content st"
    by (rule eq; simp)+
qed

text \<open>A worker becomes the loader of an idle slot, and a loader leaves its slot.\<close>

lemma slot_ok_cong:
  "slot_heap st' (snd x) = slot_heap st (snd x) \<Longrightarrow> indexes st' = indexes st \<Longrightarrow>
   slot_ok content st x \<Longrightarrow> slot_ok content st' x"
  by (simp add: slot_ok_def holds_rows_def)

lemma start_load_inv:
  assumes inv: "cache_inv content st" and w: "w < length (workers st)" "workers st ! w = Checking path sid"
    and s: "\<not> sl_loading (slot_heap st sid)" "sl_index (slot_heap st sid) = None"
  shows "cache_inv content (set_worker w (Loading path sid f)
    (set_slot sid ((slot_heap st sid)\<lparr>sl_fingerprint := Some f, sl_loading := True\<rparr>) st))"
    (is "cache_inv content ?st")
proof -
  note D = cache_invD [OF inv]
  have sid: "sid < next_slot st" using D(6) [OF nth_mem [OF w(1)]] w by simp
  have load: "loaders ?st k = (if k = sid then 1 else loaders st k)" for k
    using length_filter_update [of w "workers st" "\<lambda>pc. loading_slot pc = Some k" "Loading path sid f"]
      D(3) w s(1) by (auto simp: loaders_def load_inv_def split: if_splits)
  have "load_inv ?st" using D(3) by (simp add: load_inv_def load)
  moreover have "own_inv ?st"
  proof -
    have "sl_index (slot_heap ?st k) = sl_index (slot_heap st k)" for k by simp
    moreover have "worker_index (workers ?st ! v) = worker_index (workers st ! v)" for v
      using w by (cases "v = w") auto
    moreover have "owned (workers ?st ! v) = owned (workers st ! v)" for v using w by (cases "v = w") auto
    ultimately show ?thesis using D(4) unfolding own_inv_def by simp
  qed
  moreover have W: "worker_ok content ?st q" if "q \<in> set (workers st)" for q
    by (rule worker_ok_cong [OF _ _ _ D(6) [OF that]]) (use not_loading [OF D(3) s(1) that] in auto)
  moreover have "worker_ok content ?st (Loading path sid f)" using sid by simp
  then have "worker_ok content ?st q" if "q \<in> set (workers ?st)" for q
    using W in_update [of q "workers st" w] that unfolding set_worker_simps set_slot_simps by blast
  moreover have "slot_ok content ?st x" if x: "x \<in> set (slots ?st)" for x
    using D(5) [of x] x s(2) by (auto simp: slot_ok_def holds_rows_def)
  moreover have "slot_inv ?st" using sid by (intro slot_inv_cong [OF _ _ _ D(2)]) auto
  moreover have "budget_inv ?st" by (rule budget_inv_cong [OF _ _ _ _ D(1)]) simp_all
  ultimately show ?thesis by (intro cache_invI) blast+
qed

lemma stop_load_inv:
  assumes inv: "cache_inv content st" and w: "w < length (workers st)" "loading_slot (workers st ! w) = Some sid"
    and s: "\<not> sl_loading s" "sl_fingerprint s = sl_fingerprint (slot_heap st sid)"
    and index: "sl_index s = None \<or> sl_index s = sl_index (slot_heap st sid) \<or> sl_index s = owned (workers st ! w)"
    and ok: "\<And>x. x \<in> set (slots st) \<Longrightarrow> snd x = sid \<Longrightarrow> slot_ok content (set_slot sid s st) x"
    and pc: "pc = Idle \<or> (\<exists>path f i. pc = Holding path f i \<and> owned (workers st ! w) = Some i \<and>
      holds_rows st i (content path f))"
  shows "cache_inv content (set_worker w pc (set_slot sid s st))" (is "cache_inv content ?st")
proof -
  note D = cache_invD [OF inv] and O = own_invD [OF cache_invD(4) [OF inv]]
  have sid: "sid < next_slot st"
    using D(6) [OF nth_mem [OF w(1)]] w by (cases "workers st ! w") auto
  have one: "loaders st sid = 1" using loaders_pos [OF w] D(3) by (auto simp: load_inv_def split: if_splits)
  have none: "loading_slot pc = None" "owned pc = None" using pc by auto
  have load: "loaders ?st k = (if k = sid then 0 else loaders st k)" for k
    using length_filter_update [of w "workers st" "\<lambda>pc. loading_slot pc = Some k" pc] one w none
    by (auto simp: loaders_def split: if_splits)
  have "load_inv ?st" using D(3) s(1) by (simp add: load_inv_def load)
  moreover have "own_inv ?st"
  proof (rule own_invI, unfold set_worker_simps set_slot_simps length_list_update)
    fix k i assume "sl_index (((slot_heap st)(sid := s)) k) = Some i"
    then show "i < next_index st" using O(1) O(2) [OF w(1) owned_index] index by (auto split: if_splits)
  next
    fix v i assume "v < length (workers st)" "worker_index ((workers st)[w := pc] ! v) = Some i"
    then show "i < next_index st" using O(2) pc w(1) owned_index by (cases "v = w") auto
  next
    fix v i k assume *: "v < length (workers st)" "owned ((workers st)[w := pc] ! v) = Some i"
      "sl_index (((slot_heap st)(sid := s)) k) = Some i"
    then have "v \<noteq> w" using none w by auto
    with * have own: "owned (workers st ! v) = Some i" by simp
    have "owned (workers st ! w) \<noteq> Some i" using O(4) [OF *(1) own w(1)] \<open>v \<noteq> w\<close> owned_index by metis
    then show False using O(3) [OF *(1) own] index *(3) by (auto split: if_splits)
  next
    fix u i v assume *: "u < length (workers st)" "owned ((workers st)[w := pc] ! u) = Some i"
      "v < length (workers st)" "v \<noteq> u" "worker_index ((workers st)[w := pc] ! v) = Some i"
    then have "u \<noteq> w" using none w by auto
    with * have own: "owned (workers st ! u) = Some i" by simp
    show False
    proof (cases "v = w")
      case True
      with * w pc have "owned (workers st ! w) = Some i" by auto
      with O(4) [OF *(1) own w(1)] \<open>u \<noteq> w\<close> owned_index show False by blast
    next
      case False
      with * O(4) [OF *(1) own *(3)] show False by simp
    qed
  qed
  moreover have W: "worker_ok content ?st q" if "q \<in> set (workers st)" for q
    by (rule worker_ok_cong [OF _ _ _ D(6) [OF that]]) (use s(2) in auto)
  moreover have "worker_ok content ?st pc" using pc by (auto simp: holds_rows_def)
  then have "worker_ok content ?st q" if "q \<in> set (workers ?st)" for q
    using W in_update [of q "workers st" w] that unfolding set_worker_simps set_slot_simps by blast
  moreover have "slot_ok content ?st x" if x: "x \<in> set (slots ?st)" for x
    using D(5) [of x] x ok [of x] by (cases "snd x = sid") (auto simp: slot_ok_def holds_rows_def)
  moreover have "slot_inv ?st" using sid by (intro slot_inv_cong [OF _ _ _ D(2)]) auto
  moreover have "budget_inv ?st" by (rule budget_inv_cong [OF _ _ _ _ D(1)]) simp_all
  ultimately show ?thesis by (intro cache_invI) blast+
qed

subsection \<open>Slots come and go\<close>

lemma shrink_slots_inv:
  assumes "cache_inv content st"
  shows "cache_inv content (st\<lparr>slots := filter P (slots st)\<rparr>)" (is "cache_inv content ?st")
proof -
  note D = cache_invD [OF assms]
  have "slot_inv ?st"
    using D(2) order_trans [OF length_filter_le [of P "slots st"]]
    unfolding slot_inv_def by (elim conjE) (intro conjI; simp add: distinct_map_filter)
  moreover have "worker_ok content ?st q" if "q \<in> set (workers st)" for q
    by (rule worker_ok_cong [OF _ _ _ D(6) [OF that]]) auto
  moreover have "slot_ok content ?st x" if "x \<in> set (slots st)" for x
    by (rule slot_ok_cong [OF _ _ D(5) [OF that]]) auto
  moreover have "load_inv ?st" "own_inv ?st" using D(3,4) by (simp_all add: load_inv_def loaders_def own_inv_def)
  moreover have "budget_inv ?st" by (rule budget_inv_cong [OF _ _ _ _ D(1)]) simp_all
  ultimately show ?thesis by (intro cache_invI) auto
qed

text \<open>A fresh slot \<open>s\<close> (without an index, not loading) enters the table.\<close>

lemma fresh_slot_inv:
  assumes inv: "cache_inv content st" and s: "sl_index s = None" "\<not> sl_loading s"
    and table: "length xs \<le> MAX_TRACKED_SHARDS" "distinct (map fst xs)" "distinct (map snd xs)"
      "set xs \<subseteq> insert (path, next_slot st) (set (slots st))"
  shows "cache_inv content (st\<lparr>slots := xs, slot_heap := (slot_heap st)(next_slot st := s), next_slot := next_slot st + 1\<rparr>)"
    (is "cache_inv content ?st")
proof -
  note D = cache_invD [OF inv]
  have old: "slot_heap st (next_slot st) = new_slot" using D(2) by (simp add: slot_inv_def)
  have below: "x \<in> set (slots st) \<Longrightarrow> snd x < next_slot st" for x using D(2) by (simp add: slot_inv_def)
  have "snd x < next_slot st + 1" if "x \<in> set xs" for x
    using below [of x] that table(4) by auto
  then have "slot_inv ?st" using D(2) table(1-3)
    unfolding slot_inv_def by (elim conjE) (intro conjI; simp)
  moreover have "load_inv ?st"
    using D(3) s(2) old by (auto simp: load_inv_def loaders_def new_slot_def split: if_splits)
  moreover have "own_inv ?st"
    using own_invD [OF D(4)] s(1) by (intro own_invI) (auto split: if_splits)
  moreover have "worker_ok content ?st q" if "q \<in> set (workers st)" for q
  proof (rule worker_ok_cong [of st])
    have "sid < next_slot st" if "loading_slot q = Some sid" for sid
      using D(6) [OF \<open>q \<in> set (workers st)\<close>] that by (cases q) auto
    then show "sl_fingerprint (slot_heap ?st sid) = sl_fingerprint (slot_heap st sid)"
      if "loading_slot q = Some sid" for sid using that by auto
  qed (use D(6) [OF that] in auto)
  moreover have "slot_ok content ?st x" if "x \<in> set xs" for x
  proof (cases "snd x = next_slot st")
    case True
    then show ?thesis using s(1) by (simp add: slot_ok_def)
  next
    case False
    with that table(4) have "x \<in> set (slots st)" by auto
    from D(5) [OF this] show ?thesis by (rule slot_ok_cong [rotated -1]) (use False in auto)
  qed
  moreover have "budget_inv ?st" by (rule budget_inv_cong [OF _ _ _ _ D(1)]) simp_all
  ultimately show ?thesis by (intro cache_invI) auto
qed

lemma set_slot_bump_inv:
  "cache_inv content st \<Longrightarrow> sid < next_slot st \<Longrightarrow>
   cache_inv content (set_slot sid ((slot_heap st sid)\<lparr>sl_last_use := a, sl_visits := b\<rparr>) st)"
  by (rule set_slot_inv) auto

lemma track_slot_inv:
  assumes inv: "cache_inv content st" and run: "track_slot path st = (sid, st1)"
  shows "cache_inv content st1 \<and> sid < next_slot st1 \<and> workers st1 = workers st"
proof (cases "map_of (slots st) path")
  case (Some i)
  with run have "sid = i" "st1 = st" by (simp_all add: track_slot_def)
  with Some map_of_SomeD [OF Some] inv show ?thesis by (force simp: cache_inv_def slot_inv_def)
next
  case None
  define st0 where "st0 = (if length (slots st) = MAX_TRACKED_SHARDS then
      (case oldest (slot_heap st) (slots st) of None \<Rightarrow> st
       | Some x \<Rightarrow> (collect (st\<lparr>slots := filter (\<lambda>y. y \<noteq> x) (slots st)\<rparr>))\<lparr>evictions := evictions st + 1\<rparr>)
    else st)"
  have inv0: "cache_inv content st0"
    using inv by (auto simp: st0_def split: option.splits intro: collect_inv shrink_slots_inv)
  have ws: "workers st0 = workers st" by (auto simp: st0_def split: option.splits)
  have sub: "set (slots st0) \<subseteq> set (slots st)" by (auto simp: st0_def split: option.splits)
  have slots0: "slot_inv st" "slot_inv st0" using inv inv0 by (simp_all add: cache_inv_def)
  have "length (slots st0) < MAX_TRACKED_SHARDS"
  proof (cases "length (slots st) = MAX_TRACKED_SHARDS")
    case True
    then obtain y ys where "slots st = y # ys" by (cases "slots st") (auto simp: MAX_TRACKED_SHARDS_def)
    then obtain x where x: "oldest (slot_heap st) (slots st) = Some x"
      by (cases "oldest (slot_heap st) (slots st)") (auto split: option.splits)
    from oldest_in [OF x] have "length (filter (\<lambda>y. y \<noteq> x) (slots st)) < length (slots st)"
      by (intro length_filter_less) auto
    with True x show ?thesis by (simp add: st0_def)
  next
    case False
    then have "st0 = st" by (simp add: st0_def)
    with False slots0(1) show ?thesis by (simp add: slot_inv_def)
  qed
  moreover have "path \<notin> fst ` set (slots st0)"
    using None sub by (auto simp: map_of_eq_None_iff)
  moreover have "next_slot st0 \<notin> snd ` set (slots st0)" using slots0(2) by (auto simp: slot_inv_def)
  ultimately have "cache_inv content (st0\<lparr>slots := (path, next_slot st0) # slots st0,
      slot_heap := (slot_heap st0)(next_slot st0 := new_slot), next_slot := next_slot st0 + 1\<rparr>)"
    using slots0(2) by (intro fresh_slot_inv [OF inv0]) (auto simp: new_slot_def slot_inv_def)
  moreover have "track_slot path st = (next_slot st0, st0\<lparr>slots := (path, next_slot st0) # slots st0,
      slot_heap := (slot_heap st0)(next_slot st0 := new_slot), next_slot := next_slot st0 + 1\<rparr>)"
    unfolding track_slot_def None option.case Let_def st0_def by (rule refl)
  ultimately show ?thesis using ws run by auto
qed

lemma evict_index_inv:
  assumes inv: "cache_inv content st" and x: "x \<in> set (slots st)"
  shows "cache_inv content (evict_index (snd x) st)"
proof -
  have "snd x < next_slot st" using inv x by (simp add: cache_inv_def slot_inv_def)
  then show ?thesis
    unfolding evict_index_def ghost_inv by (intro collect_inv set_slot_inv [OF inv]) auto
qed

lemma reserve_inv:
  assumes "cache_inv content st" and "reserve bytes st = (ok, st1)"
  shows "\<exists>st0. cache_inv content st0 \<and> workers st0 = workers st \<and>
    (if ok then bytes \<le> budget_limit st0 - budget_bytes st0 \<and>
       st1 = st0\<lparr>budget_bytes := budget_bytes st0 + bytes, budget_peak := max (budget_peak st0) (budget_bytes st0 + bytes)\<rparr>
     else st1 = st0)"
  using assms
proof (induction bytes st rule: reserve.induct)
  case (1 bytes st)
  show ?case
  proof (cases "bytes > budget_limit st - budget_bytes st")
    case False
    with 1(3) show ?thesis
      by (subst (asm) reserve.simps) (use "1.prems"(1) in auto)
  next
    case True
    show ?thesis
    proof (cases "oldest (slot_heap st) (indexed_slots st)")
      case None
      with True 1(3) show ?thesis
        by (subst (asm) reserve.simps) (use "1.prems"(1) in auto)
    next
      case (Some x)
      then have "x \<in> set (slots st)" using oldest_in by (fastforce simp: indexed_slots_def)
      then have inv: "cache_inv content (evict_index (snd x) st)" using "1.prems"(1) by (intro evict_index_inv)
      have "reserve bytes (evict_index (snd x) st) = (ok, st1)"
        using 1(3) True Some by (subst (asm) reserve.simps) simp
      from "1.IH" [OF True Some inv this] show ?thesis by (simp add: evict_index_def)
    qed
  qed
qed

subsection \<open>Every step keeps the invariant\<close>

lemma GetIndex_visit_inv:
  assumes inv: "cache_inv content st" and w: "w < length (workers st)" "workers st ! w = Idle"
  shows "cache_inv content (GetIndex_visit w path st)"
proof -
  obtain sid st1 where run: "track_slot path st = (sid, st1)" by (cases "track_slot path st")
  from track_slot_inv [OF inv run] have t: "cache_inv content st1" "sid < next_slot st1" "workers st1 = workers st"
    by auto
  let ?s = "(slot_heap st1 sid)\<lparr>sl_last_use := use_clock st1 + 1, sl_visits := sl_visits (slot_heap st1 sid) + 1\<rparr>"
  let ?st2 = "set_slot sid ?s (st1\<lparr>use_clock := use_clock st1 + 1\<rparr>)"
  have i2: "cache_inv content ?st2" by (rule set_slot_inv) (use t in simp_all)
  have i3: "cache_inv content (set_worker w (Checking path sid) ?st2)"
    by (rule set_worker_inv [OF i2]) (use t w in simp_all)
  from i2 i3 inv show ?thesis unfolding GetIndex_visit_def run prod.case Let_def by (simp only: if_split simp_thms)
qed

lemma release_inv:
  assumes "cache_inv content st" and "w < length (workers st)" and "loading_slot (workers st ! w) = None"
  shows "cache_inv content (collect (set_worker w Idle st))"
  by (rule collect_inv [OF set_worker_inv]) (use assms in simp_all)

lemma repoint_id: "path \<notin> fst ` set xs \<Longrightarrow> repoint path new xs = xs"
  by (induction path new xs rule: repoint.induct) auto

lemma repoint_props:
  "map fst (repoint path new xs) = map fst xs"
  "set (repoint path new xs) \<subseteq> insert (path, new) (set xs)"
  "distinct (map fst xs) \<Longrightarrow> distinct (map snd xs) \<Longrightarrow> new \<notin> snd ` set xs \<Longrightarrow> distinct (map snd (repoint path new xs))"
proof -
  show "map fst (repoint path new xs) = map fst xs" by (induction path new xs rule: repoint.induct) auto
  show "set (repoint path new xs) \<subseteq> insert (path, new) (set xs)"
    by (induction path new xs rule: repoint.induct) auto
  show "distinct (map fst xs) \<Longrightarrow> distinct (map snd xs) \<Longrightarrow> new \<notin> snd ` set xs \<Longrightarrow> distinct (map snd (repoint path new xs))"
  proof (induction path new xs rule: repoint.induct)
    case (2 path new p i xs)
    have "snd ` set (repoint path new xs) \<subseteq> insert new (snd ` set xs)"
      by (induction path new xs rule: repoint.induct) auto
    with 2 show ?case
      by (cases "p = path") (use repoint_id in auto)
  qed simp
qed

lemma GetIndex_check_inv:
  assumes inv: "cache_inv content st" and w: "w < length (workers st)" "workers st ! w = Checking path sid"
  shows "cache_inv content (GetIndex_check w fpr st)"
proof (cases fpr)
  case (Inl e)
  then show ?thesis using release_inv [OF inv] w by (simp add: GetIndex_check_def)
next
  case (Inr f)
  note D = cache_invD [OF inv]
  let ?s = "slot_heap st sid" and ?new = "next_slot st"
  consider (stale) "map_of (slots st) path \<noteq> Some sid \<or> sl_loading ?s"
    | (changed) "map_of (slots st) path = Some sid" "\<not> sl_loading ?s" "sl_fingerprint ?s \<noteq> None" "sl_fingerprint ?s \<noteq> Some f"
    | (hit) iid where "map_of (slots st) path = Some sid" "\<not> sl_loading ?s" "sl_fingerprint ?s = None \<or> sl_fingerprint ?s = Some f" "sl_index ?s = Some iid"
    | (load) "map_of (slots st) path = Some sid" "\<not> sl_loading ?s" "sl_fingerprint ?s = None \<or> sl_fingerprint ?s = Some f" "sl_index ?s = None"
    using option.exhaust [of "sl_index ?s"] by metis
  then show ?thesis
  proof cases
    case stale
    then show ?thesis using release_inv [OF inv] w Inr by (auto simp: GetIndex_check_def Let_def)
  next
    case changed
    let ?xs = "repoint path ?new (slots st)"
    let ?st = "st\<lparr>slots := ?xs, slot_heap := (slot_heap st)(?new := new_slot\<lparr>sl_fingerprint := Some f, sl_visits := 1,
      sl_last_use := sl_last_use ?s\<rparr>), next_slot := ?new + 1\<rparr>"
    have S: "length (slots st) \<le> MAX_TRACKED_SHARDS" "distinct (map fst (slots st))" "distinct (map snd (slots st))"
      "?new \<notin> snd ` set (slots st)" using D(2) by (auto simp: slot_inv_def)
    have len: "length ?xs = length (slots st)"
      using arg_cong [OF repoint_props(1) [where path = path and new = ?new and xs = "slots st"], of length] by simp
    have "cache_inv content ?st"
      by (rule fresh_slot_inv [OF inv])
        (use S len repoint_props [where path = path and new = ?new and xs = "slots st"] in \<open>simp_all add: new_slot_def\<close>)
    from release_inv [OF this, of w] w changed Inr show ?thesis by (simp add: GetIndex_check_def Let_def)
  next
    case hit
    have "slot_ok content st (path, sid)" using D(5) map_of_SomeD [OF hit(1)] .
    with hit(3,4) have "holds_rows st iid (content path f)" by (auto simp: slot_ok_def)
    then have "cache_inv content (set_worker w (Holding path f iid) (st\<lparr>index_hits := index_hits st + 1\<rparr>))"
      by (intro set_worker_inv) (use inv w hit(4) in \<open>auto simp: holds_rows_def\<close>)
    with hit w Inr show ?thesis by (auto simp: GetIndex_check_def Let_def)
  next
    case load
    from start_load_inv [OF inv w load(2,4)] release_inv [OF inv w(1)] w load Inr
    show ?thesis by (auto simp: GetIndex_check_def Let_def)
  qed
qed

lemma loader_sid:
  assumes "cache_inv content st" and "w < length (workers st)" and "loading_slot (workers st ! w) = Some sid"
  shows "sid < next_slot st"
  using cache_invD(6) [OF assms(1) nth_mem [OF assms(2)]] assms(3) by (cases "workers st ! w") auto

lemma abort_load_inv:
  assumes "cache_inv content st" and "w < length (workers st)" and "loading_slot (workers st ! w) = Some sid"
  shows "cache_inv content (abort_load w sid st)"
  unfolding abort_load_def
proof (rule collect_inv, rule stop_load_inv [OF assms])
  fix x assume "x \<in> set (slots st)" "snd x = sid"
  then show "slot_ok content (set_slot sid (slot_heap st sid\<lparr>sl_loading := False\<rparr>) st) x"
    using cache_invD(5) [OF assms(1)] by (auto simp: slot_ok_def holds_rows_def)
qed auto

lemma give_up_inv:
  assumes inv: "cache_inv content st" and w: "w < length (workers st)" "loading_slot (workers st ! w) = Some sid"
    and f: "sl_fingerprint (slot_heap st sid) = Some f"
  shows "cache_inv content (give_up w path sid f st)"
  unfolding give_up_def
  by (rule collect_inv [OF set_worker_inv [OF inv w(1)]]) (use w f loader_sid [OF inv w] in auto)

lemma catch_load_inv:
  assumes "cache_inv content st" and "w < length (workers st)" "loading_slot (workers st ! w) = Some sid"
    and "sl_fingerprint (slot_heap st sid) = Some f"
  shows "cache_inv content (catch_load interrupted e w path sid f st)"
  using abort_load_inv give_up_inv assms by (simp add: catch_load_def)

text \<open>The reserved bytes become a new index that only its loader refers to.\<close>

lemma new_index_inv:
  assumes inv: "cache_inv content st" and w: "w < length (workers st)" "workers st ! w = Loading path sid f"
    and fit: "bytes \<le> budget_limit st - budget_bytes st"
    and x: "ix_bytes x = bytes"
  shows "cache_inv content (set_worker w (Filling path sid f (next_index st) n)
    (st\<lparr>budget_bytes := budget_bytes st + bytes, budget_peak := max (budget_peak st) (budget_bytes st + bytes),
        indexes := (next_index st, x) # indexes st, next_index := next_index st + 1\<rparr>))"
    (is "cache_inv content ?st")
proof -
  note D = cache_invD [OF inv] and O = own_invD [OF cache_invD(4) [OF inv]]
  let ?i = "next_index st"
  have B: "budget_inv ?st"
    using D(1) fit x by (auto simp: budget_inv_def index_bytes_def)
  have S: "slot_inv ?st" by (rule slot_inv_cong [OF _ _ _ D(2)]) simp_all
  have L: "load_inv ?st"
    using D(3) w loaders_set_worker [of w st "Filling path sid f ?i n"]
    by (simp add: load_inv_def loaders_def)
  have workers: "worker_index (workers ?st ! v) = (if v = w then Some ?i else worker_index (workers st ! v))"
    "owned (workers ?st ! v) = (if v = w then Some ?i else owned (workers st ! v))" if "v < length (workers st)" for v
    using w that by (auto simp: nth_list_update)
  have W: "own_inv ?st"
  proof (rule own_invI)
    fix k i assume "sl_index (slot_heap ?st k) = Some i"
    then show "i < next_index ?st" using O(1) [of k i] by simp
  next
    fix v i assume *: "v < length (workers ?st)" "worker_index (workers ?st ! v) = Some i"
    then show "i < next_index ?st" using workers(1) [of v] O(2) [of v i] by (auto split: if_splits)
  next
    fix v i k assume *: "v < length (workers ?st)" "owned (workers ?st ! v) = Some i" "sl_index (slot_heap ?st k) = Some i"
    then show False using workers(2) [of v] O(1) [of k i] O(3) [of v i k] by (auto split: if_splits)
  next
    fix u i v assume *: "u < length (workers ?st)" "owned (workers ?st ! u) = Some i" "v < length (workers ?st)" "v \<noteq> u"
      "worker_index (workers ?st ! v) = Some i"
    then have len: "u < length (workers st)" "v < length (workers st)" by auto
    show False
    proof (cases "u = w")
      case True
      then have "worker_index (workers st ! v) = Some ?i"
        using * workers [OF len(1)] workers(1) [OF len(2)] by simp
      then show False using O(2) [OF len(2)] by blast
    next
      case False
      then have own: "owned (workers st ! u) = Some i" using *(2) workers(2) [OF len(1)] by simp
      show False
      proof (cases "v = w")
        case True
        with *(5) workers(1) [OF len(2)] have "i = ?i" by simp
        with O(2) [OF len(1) owned_index [OF own]] show False by simp
      next
        case False
        with *(5) workers(1) [OF len(2)] O(4) [OF len(1) own len(2) *(4)] show False by simp
      qed
    qed
  qed
  have keep: "map_of (indexes ?st) i = map_of (indexes st) i" if "i < next_index st" for i using that by auto
  have Q: "worker_ok content ?st q" if q: "q \<in> set (workers st)" for q
  proof (rule worker_ok_cong [OF _ _ _ D(6) [OF q]])
    fix i assume "worker_index q = Some i"
    then have "i < next_index st" using O(2) q by (auto simp: in_set_conv_nth)
    then show "map_of (indexes ?st) i = map_of (indexes st) i" by (rule keep)
  qed auto
  have F: "worker_ok content ?st (Filling path sid f ?i n)"
    using D(6) [OF nth_mem [OF w(1)]] w(2) by simp
  have P: "worker_ok content ?st q" if "q \<in> set (workers ?st)" for q
  proof -
    have "q = Filling path sid f ?i n \<or> q \<in> set (workers st)"
      by (rule in_update [of _ _ w]) (use that in simp)
    with F Q show ?thesis by blast
  qed
  have X: "slot_ok content ?st y" if "y \<in> set (slots ?st)" for y
    using D(5) [of y] that O(1) keep by (fastforce simp: slot_ok_def holds_rows_def)
  show ?thesis by (rule cache_invI [OF B S L W X P])
qed

lemma Load_reserve_inv:
  assumes inv: "cache_inv content st" and w: "w < length (workers st)" "workers st ! w = Loading path sid f"
  shows "cache_inv content (Load_reserve w interrupted row_count allocated st)"
proof -
  have fp: "sl_fingerprint (slot_heap st sid) = Some f"
    using cache_invD(6) [OF inv nth_mem [OF w(1)]] w(2) by simp
  show ?thesis
  proof (cases row_count)
    case (Inl e)
    then show ?thesis using catch_load_inv [OF inv w(1) _ fp] w(2) by (simp add: Load_reserve_def)
  next
    case (Inr n)
    obtain ok st1 where run: "reserve (n * INDEX_ROW_SIZE) st = (ok, st1)" by (cases "reserve (n * INDEX_ROW_SIZE) st")
    from reserve_inv [OF inv run] obtain st0 where st0: "cache_inv content st0" "workers st0 = workers st"
      "if ok then n * INDEX_ROW_SIZE \<le> budget_limit st0 - budget_bytes st0 \<and>
         st1 = st0\<lparr>budget_bytes := budget_bytes st0 + n * INDEX_ROW_SIZE,
                   budget_peak := max (budget_peak st0) (budget_bytes st0 + n * INDEX_ROW_SIZE)\<rparr>
       else st1 = st0" by blast
    have w0: "w < length (workers st0)" "workers st0 ! w = Loading path sid f" using w st0(2) by simp_all
    have fp0: "sl_fingerprint (slot_heap st0 sid) = Some f"
      using cache_invD(6) [OF st0(1) nth_mem [OF w0(1)]] w0(2) by simp
    have up: "cache_inv content (give_up w path sid f st)" "cache_inv content (give_up w path sid f st0)"
      using give_up_inv [OF inv w(1) _ fp] give_up_inv [OF st0(1) w0(1) _ fp0] w(2) w0(2) by simp_all
    show ?thesis
    proof (cases ok)
      case False
      then show ?thesis using w Inr run st0(3) up by (simp add: Load_reserve_def Let_def)
    next
      case True
      let ?x = "\<lparr>ix_bytes = n * INDEX_ROW_SIZE, ix_rows = [], ix_read = []\<rparr>"
      define st2 where "st2 = set_worker w (Filling path sid f (next_index st0) n)
        (st1\<lparr>indexes := (next_index st1, ?x) # indexes st1, next_index := next_index st1 + 1\<rparr>)"
      have inv2: "cache_inv content st2"
        using new_index_inv [OF st0(1) w0, of "n * INDEX_ROW_SIZE" ?x n] st0(3) True by (simp add: st2_def)
      have fp2: "sl_fingerprint (slot_heap st2 sid) = Some f" using fp0 st0(3) True by (simp add: st2_def)
      have w2: "w < length (workers st2)" "loading_slot (workers st2 ! w) = Some sid"
        using w0 st0(3) True by (simp_all add: st2_def)
      have nxt: "next_index st1 = next_index st0" using st0(3) True by simp
      show ?thesis
        using w Inr run True inv2 up(1) give_up_inv [OF inv2 w2 fp2] nxt
        by (simp add: Load_reserve_def Let_def st2_def)
    qed
  qed
qed

lemma map_of_store_rows:
  "map_of (store_rows iid rows raws xs) i =
     (if i = iid then map_option (\<lambda>x. x\<lparr>ix_rows := rows, ix_read := raws\<rparr>) (map_of xs i) else map_of xs i)"
  by (induction xs) (auto simp: store_rows_def)

lemma index_bytes_store_rows: "index_bytes (store_rows iid rows raws xs) = index_bytes xs"
  by (induction xs) (auto simp: index_bytes_def store_rows_def)

lemma filled_inv:
  assumes inv: "cache_inv content st" and w: "w < length (workers st)" "workers st ! w = Filling path sid f iid n"
    and rows: "index_of raws rows"
  shows "cache_inv content (set_worker w (Loaded path sid f (Some iid))
    (st\<lparr>indexes := store_rows iid rows raws (indexes st)\<rparr>))" (is "cache_inv content ?st")
proof -
  note D = cache_invD [OF inv] and O = own_invD [OF cache_invD(4) [OF inv]]
  have ok: "sid < next_slot st" "sl_fingerprint (slot_heap st sid) = Some f" "map_of (indexes st) iid \<noteq> None"
    using D(6) [OF nth_mem [OF w(1)]] w(2) by simp_all
  have own: "owned (workers st ! w) = Some iid" using w(2) by simp
  let ?t = "st\<lparr>indexes := store_rows iid rows raws (indexes st)\<rparr>"
  have keep: "map_of (indexes ?st) i = map_of (indexes st) i" if "i \<noteq> iid" for i
    using that by (simp add: map_of_store_rows)
  have B: "budget_inv ?st" using D(1) by (simp add: budget_inv_def index_bytes_store_rows)
  have S: "slot_inv ?st" by (rule slot_inv_cong [OF _ _ _ D(2)]) simp_all
  have L: "load_inv ?st"
    using D(3) w loaders_set_worker [of w st "Loaded path sid f (Some iid)"] by (simp add: load_inv_def loaders_def)
  have eq: "worker_index (workers ?st ! v) = worker_index (workers st ! v)"
    "owned (workers ?st ! v) = owned (workers st ! v)" for v
    using w by (cases "v = w"; simp)+
  have W: "own_inv ?st" using D(4) eq unfolding own_inv_def by simp
  have F: "worker_ok content ?st (Loaded path sid f (Some iid))"
    using ok rows by (auto simp: map_of_store_rows)
  have P: "worker_ok content ?st q" if q: "q \<in> set (workers ?st)" for q
  proof -
    from q obtain v where v: "v < length (workers st)" "q = workers ?st ! v"
      by (auto simp: in_set_conv_nth)
    show ?thesis
    proof (cases "v = w")
      case True
      with v w F show ?thesis by simp
    next
      case False
      then have q': "q = workers st ! v" using v by simp
      have "worker_index q \<noteq> Some iid" using O(4) [OF w(1) own v(1) False] q' by simp
      then have "worker_index q = Some i \<Longrightarrow> map_of (indexes ?st) i = map_of (indexes st) i" for i
        by (intro keep) auto
      with D(6) [OF nth_mem [OF v(1)]] q' show ?thesis by (intro worker_ok_cong [where st = st and st' = ?st]) auto
    qed
  qed
  have X: "slot_ok content ?st y" if y: "y \<in> set (slots ?st)" for y
  proof -
    have "sl_index (slot_heap st (snd y)) \<noteq> Some iid" using O(3) [OF w(1) own] .
    then have "sl_index (slot_heap st (snd y)) = Some i \<Longrightarrow> map_of (indexes ?st) i = map_of (indexes st) i" for i
      by (intro keep) auto
    moreover have "slot_ok content st y" using D(5) y by simp
    ultimately show ?thesis unfolding slot_ok_def holds_rows_def by auto
  qed
  show ?thesis by (rule cache_invI [OF B S L W X P])
qed

lemma Load_fill_inv:
  assumes inv: "cache_inv content st" and w: "w < length (workers st)" "workers st ! w = Filling path sid f iid n"
  shows "cache_inv content (Load_fill w interrupted read st)"
proof -
  have fp: "sl_fingerprint (slot_heap st sid) = Some f" and l: "loading_slot (workers st ! w) = Some sid"
    using cache_invD(6) [OF inv nth_mem [OF w(1)]] w(2) by simp_all
  note out = catch_load_inv [OF inv w(1) l fp] give_up_inv [OF inv w(1) l fp] abort_load_inv [OF inv w(1) l]
  show ?thesis
  proof (cases read)
    case (Inl e)
    with w out show ?thesis by (simp add: Load_fill_def)
  next
    case (Inr raws)
    show ?thesis
    proof (cases "build_index n raws")
      case None
      with w out Inr show ?thesis by (simp add: Load_fill_def)
    next
      case (Some rows)
      from filled_inv [OF inv w, of raws rows] build_index_sorted [OF Some] w out Inr Some
      show ?thesis by (simp add: Load_fill_def index_of_def)
    qed
  qed
qed

lemma GetIndex_publish_inv:
  assumes inv: "cache_inv content st" and w: "w < length (workers st)" "workers st ! w = Loaded path sid f index"
    and stable: "\<And>iid. fpr = Inr f \<Longrightarrow> index = Some iid \<Longrightarrow> read_by st iid = Some (content path f)"
  shows "cache_inv content (GetIndex_publish w fpr st)"
proof -
  have l: "loading_slot (workers st ! w) = Some sid" using w(2) by simp
  have ok: "sl_fingerprint (slot_heap st sid) = Some f" "worker_ok content st (Loaded path sid f index)"
    using cache_invD(6) [OF inv nth_mem [OF w(1)]] w(2) by simp_all
  note D = cache_invD [OF inv]
  show ?thesis
  proof (cases fpr)
    case (Inl e)
    with w abort_load_inv [OF inv w(1) l] show ?thesis by (simp add: GetIndex_publish_def)
  next
    case (Inr f')
    show ?thesis
    proof (cases "f' \<noteq> f \<or> map_of (slots st) path \<noteq> Some sid")
      case True
      with w Inr abort_load_inv [OF inv w(1) l] show ?thesis
        by (simp add: GetIndex_publish_def Let_def abort_load_def)
    next
      case False
      let ?s = "(slot_heap st sid)\<lparr>sl_loading := False, sl_skipped := (index = None), sl_index := index\<rparr>"
      have rows: "holds_rows st iid (content path f)" if "index = Some iid" for iid
        using stable [of iid] that ok(2) Inr False by (auto simp: read_by_def holds_rows_def)
      have slot: "slot_ok content (set_slot sid ?s st) x" if "x \<in> set (slots st)" "snd x = sid" for x
      proof -
        have "(path, sid) \<in> set (slots st)" using map_of_SomeD False by fastforce
        with that D(2) have "fst x = path"
          by (metis distinct_map fst_conv inj_onD snd_conv slot_inv_def)
        with that ok(1) rows show ?thesis by (auto simp: slot_ok_def holds_rows_def)
      qed
      have own: "sl_index ?s = owned (workers st ! w)" using w(2) by simp
      have st': "set_slot sid ((slot_heap st1 sid)\<lparr>sl_skipped := (index = None), sl_index := index\<rparr>) st1 = set_slot sid ?s st"
        if "st1 = set_slot sid ((slot_heap st sid)\<lparr>sl_loading := False\<rparr>) st" for st1
        using that by (simp add: set_slot_def)
      note stop = stop_load_inv [OF inv w(1) l, of ?s]
      show ?thesis
      proof (cases index)
        case None
        have "cache_inv content (set_worker w Idle (set_slot sid ?s st))"
          by (rule stop) (use slot own ok(1) None in auto)
        with w Inr False None st' [OF refl] show ?thesis by (simp add: GetIndex_publish_def Let_def)
      next
        case (Some iid)
        have "cache_inv content (set_worker w (Holding path f iid) (set_slot sid ?s st))"
          by (rule stop) (use slot own ok(1) Some rows w(2) in auto)
        moreover have "set_worker w (Holding path f iid) (st1\<lparr>index_loads := a, indexed_rows := b\<rparr>) =
            (set_worker w (Holding path f iid) st1)\<lparr>index_loads := a, indexed_rows := b\<rparr>" for st1 a b
          by (simp add: set_worker_def)
        ultimately show ?thesis using w Inr False Some st' [OF refl]
          by (simp add: GetIndex_publish_def Let_def)
      qed
    qed
  qed
qed

lemma DropIndex_inv:
  "cache_inv content st \<Longrightarrow> w < length (workers st) \<Longrightarrow> workers st ! w = Holding path f iid \<Longrightarrow>
   cache_inv content (DropIndex w st)"
  using release_inv [of content st w] by (simp add: DropIndex_def)

lemma CountRequests_inv: "cache_inv content st \<Longrightarrow> cache_inv content (CountRequests n st)"
  by (simp add: CountRequests_def)

lemma cache_step_inv:
  assumes "cache_step content st st'" and "cache_inv content st"
  shows "cache_inv content st'"
  using assms
proof induction
  case (publish w st path sid f index fpr)
  from publish(4,1-3) show ?case by (rule GetIndex_publish_inv)
qed (erule (2) GetIndex_visit_inv GetIndex_check_inv Load_reserve_inv Load_fill_inv DropIndex_inv
     | erule CountRequests_inv)+

lemma new_cache_inv: "cache_inv content (new_cache max_bytes min_reqs threads)"
proof (rule cache_invI)
  fix pc assume "pc \<in> set (workers (new_cache max_bytes min_reqs threads))"
  then show "worker_ok content (new_cache max_bytes min_reqs threads) pc" by (simp add: new_cache_def)
qed (auto simp: budget_inv_def index_bytes_def slot_inv_def load_inv_def loaders_def own_inv_def new_cache_def new_slot_def)

interpretation index_cache: state_machine "\<lambda>st. \<exists>b r n. st = new_cache b r n" "cache_step content" "cache_inv content"
  for content
  by unfold_locales (blast intro: new_cache_inv cache_step_inv)+

section \<open>The budget never changes\<close>

lemma reserve_limit: "reserve bytes st = (ok, st1) \<Longrightarrow> budget_limit st1 = budget_limit st"
proof (induction bytes st arbitrary: ok st1 rule: reserve.induct)
  case (1 bytes st)
  from 1(2) show ?case
    by (subst (asm) reserve.simps)
      (auto simp: evict_index_def split: if_splits option.splits dest!: 1(1))
qed

lemma track_slot_limit: "track_slot path st = (sid, st1) \<Longrightarrow> budget_limit st1 = budget_limit st"
  by (auto simp: track_slot_def Let_def split: option.splits if_splits)

lemma load_exits_limit [simp]:
  "budget_limit (abort_load w sid st) = budget_limit st" "budget_limit (give_up w path sid f st) = budget_limit st"
  "budget_limit (catch_load interrupted e w path sid f st) = budget_limit st"
  by (simp_all add: abort_load_def give_up_def catch_load_def)

lemma cache_step_limit: "cache_step content st st' \<Longrightarrow> budget_limit st' = budget_limit st"
proof (induction rule: cache_step.induct)
  case (visit w st path)
  then show ?case
    by (auto simp: GetIndex_visit_def Let_def split: prod.splits dest: track_slot_limit)
next
  case (reserve w st path sid f interrupted row_count allocated)
  then show ?case
    by (auto simp: Load_reserve_def Let_def split: sum.splits prod.splits dest: reserve_limit)
qed (simp_all add: CountRequests_def GetIndex_check_def Load_fill_def GetIndex_publish_def DropIndex_def Let_def
    split: sum.split option.split)

lemma cache_steps_limit: "(cache_step content)\<^sup>*\<^sup>* st st' \<Longrightarrow> budget_limit st' = budget_limit st"
  by (induction rule: rtranclp_induct) (simp_all add: cache_step_limit)

section \<open>Properties\<close>

text \<open>
  C16. In every interleaving of the workers, an index that a worker holds answers every key with the
  number of the matching rows of the file content it was opened for, and with the timestamp of a single
  one, also when the slot was evicted, the file changed or other loads failed in between.
\<close>
theorem shared_index_exact:
  assumes "(cache_step content)\<^sup>*\<^sup>* (new_cache max_bytes min_reqs threads) st"
    and "Holding path f iid \<in> set (workers st)"
  shows "\<exists>x. map_of (indexes st) iid = Some x \<and>
    (\<forall>key. agrees (Find (ix_rows x) key) (rows_with (joinable (content path f)) key))"
proof -
  have "cache_inv content st" using assms(1) by (intro index_cache.reachable_inv) blast
  then have "holds_rows st iid (content path f)" using assms(2) cache_invD(6) by fastforce
  then obtain x where x: "map_of (indexes st) iid = Some x" "sorted (map Key (ix_rows x))"
    "mset (ix_rows x) = mset (joinable (content path f))" by (auto simp: holds_rows_def index_of_def)
  have "agrees (Find (ix_rows x) key) (rows_with (joinable (content path f)) key)" for key
    using agrees_summary [of "filter (\<lambda>r. Key r = key) (ix_rows x)"] Find_sorted [OF x(2)] rows_with_mset [OF x(3)]
    by (simp add: rows_with_def)
  with x(1) show ?thesis by blast
qed

definition example_fingerprint :: fingerprint where
  "example_fingerprint = \<lparr>fp_size = 100, last_modified = 5, version_tag = ''v1''\<rparr>"

definition example_raws :: "raw_row list" where
  "example_raws = [(Some 1, Some 0, Some (Fin 2)), (Some 0, Some 1, Some (Fin 1)), (None, Some 0, None), (Some 0, Some 0, None)]"

text \<open>One worker visits a file three times, loads it, and holds its index.\<close>

definition example_state ::
  "shard_slot \<Rightarrow> (nat \<times> timestamp_index) list \<Rightarrow> nat \<Rightarrow> nat \<Rightarrow> nat \<Rightarrow> nat \<Rightarrow> worker \<Rightarrow> index_cache" where
  "example_state sl ixs bytes clk loads nrows wk =
     \<lparr>slots = [(''f'', 0)], slot_heap = (\<lambda>_. new_slot)(0 := sl), next_slot = 1, indexes = ixs,
      next_index = length ixs, budget_limit = 1000, budget_bytes = bytes, budget_peak = bytes, use_clock = clk,
      min_requests = 0, requests = 0, workers = [wk], index_loads = loads, index_hits = 0, evictions = 0,
      indexed_rows = nrows\<rparr>"

definition example_slot :: "nat \<Rightarrow> bool \<Rightarrow> fingerprint option \<Rightarrow> nat option \<Rightarrow> shard_slot" where
  "example_slot n loading fp index = \<lparr>sl_fingerprint = fp, sl_visits = n, sl_last_use = n, sl_loading = loading,
     sl_skipped = False, sl_index = index\<rparr>"

definition example_index :: "index_row list \<Rightarrow> raw_row list \<Rightarrow> timestamp_index" where
  "example_index rows raws = \<lparr>ix_bytes = 96, ix_rows = rows, ix_read = raws\<rparr>"

definition example_rows :: "index_row list" where
  "example_rows = [index_row_of 0 0 None, index_row_of 0 1 (Some (Fin 1)), index_row_of 1 0 (Some (Fin 2))]"

abbreviation "exf \<equiv> example_fingerprint"

lemmas example_defs = example_state_def example_slot_def example_index_def set_worker_def set_slot_def
  INDEX_ON_VISIT_def INDEX_ROW_SIZE_def MAX_INDEX_BYTES_def MAX_TRACKED_SHARDS_def new_slot_def

lemma example_visits:
  "GetIndex_visit 0 ''f'' (new_cache 1000 0 1) = example_state (example_slot 1 False None None) [] 0 1 0 0 Idle"
  "GetIndex_visit 0 ''f'' (example_state (example_slot 1 False None None) [] 0 1 0 0 Idle) =
    example_state (example_slot 2 False None None) [] 0 2 0 0 Idle"
  "GetIndex_visit 0 ''f'' (example_state (example_slot 2 False None None) [] 0 2 0 0 Idle) =
    example_state (example_slot 3 False None None) [] 0 3 0 0 (Checking ''f'' 0)"
  by (simp_all add: example_defs new_cache_def GetIndex_visit_def track_slot_def Let_def numeral_2_eq_2 numeral_3_eq_3)

lemma example_check:
  "GetIndex_check 0 (Inr exf) (example_state (example_slot 3 False None None) [] 0 3 0 0 (Checking ''f'' 0)) =
    example_state (example_slot 3 True (Some exf) None) [] 0 3 0 0 (Loading ''f'' 0 exf)"
  by (simp add: example_defs GetIndex_check_def Let_def)

lemma example_reserve:
  "Load_reserve 0 False (Inr 3) True (example_state (example_slot 3 True (Some exf) None) [] 0 3 0 0 (Loading ''f'' 0 exf)) =
    example_state (example_slot 3 True (Some exf) None) [(0, example_index [] [])] 96 3 0 0 (Filling ''f'' 0 exf 0 3)"
  by (simp add: example_defs Load_reserve_def Let_def) (subst reserve.simps, simp add: example_defs)

lemma example_fill:
  "Load_fill 0 False (Inr example_raws)
     (example_state (example_slot 3 True (Some exf) None) [(0, example_index [] [])] 96 3 0 0 (Filling ''f'' 0 exf 0 3)) =
    example_state (example_slot 3 True (Some exf) None) [(0, example_index example_rows example_raws)] 96 3 0 0
      (Loaded ''f'' 0 exf (Some 0))"
proof -
  have "build_index 3 example_raws = Some example_rows" by code_simp
  then show ?thesis by (simp add: example_defs Load_fill_def store_rows_def)
qed

lemma example_publish:
  "GetIndex_publish 0 (Inr exf)
     (example_state (example_slot 3 True (Some exf) None) [(0, example_index example_rows example_raws)] 96 3 0 0
       (Loaded ''f'' 0 exf (Some 0))) =
    example_state (example_slot 3 False (Some exf) (Some 0)) [(0, example_index example_rows example_raws)] 96 3 1 3
      (Holding ''f'' exf 0)"
  by (simp add: example_defs GetIndex_publish_def Let_def example_rows_def)

abbreviation "example_final \<equiv>
  example_state (example_slot 3 False (Some exf) (Some 0)) [(0, example_index example_rows example_raws)] 96 3 1 3
    (Holding ''f'' exf 0)"

lemma example_run: "(cache_step (\<lambda>_ _. example_raws))\<^sup>*\<^sup>* (new_cache 1000 0 1) example_final"
proof -
  let ?step = "cache_step (\<lambda>_ _. example_raws)"
  have idle: "workers (new_cache 1000 0 1) = [Idle]" by (simp add: new_cache_def)
  have w: "workers (example_state sl ixs b c l n wk) = [wk]" for sl ixs b c l n wk by (simp add: example_state_def)
  have visit: "workers st = [Idle] \<Longrightarrow> GetIndex_visit 0 ''f'' st = st' \<Longrightarrow> ?step st st'" for st st'
    using cache_step.visit [where w = 0 and st = st and path = "''f''" and content = "\<lambda>_ _. example_raws"] by auto
  have "?step\<^sup>*\<^sup>* (new_cache 1000 0 1) (example_state (example_slot 1 False None None) [] 0 1 0 0 Idle)"
    by (rule r_into_rtranclp) (rule visit [OF idle example_visits(1)])
  also have "?step \<dots> (example_state (example_slot 2 False None None) [] 0 2 0 0 Idle)"
    by (rule visit [OF w example_visits(2)])
  also have "?step \<dots> (example_state (example_slot 3 False None None) [] 0 3 0 0 (Checking ''f'' 0))"
    by (rule visit [OF w example_visits(3)])
  also have "?step \<dots> (example_state (example_slot 3 True (Some exf) None) [] 0 3 0 0 (Loading ''f'' 0 exf))"
    unfolding example_check [symmetric] by (rule cache_step.check) (simp_all add: w)
  also have "?step \<dots> (example_state (example_slot 3 True (Some exf) None) [(0, example_index [] [])] 96 3 0 0 (Filling ''f'' 0 exf 0 3))"
    unfolding example_reserve [symmetric] by (rule cache_step.reserve) (simp_all add: w)
  also have "?step \<dots> (example_state (example_slot 3 True (Some exf) None)
      [(0, example_index example_rows example_raws)] 96 3 0 0 (Loaded ''f'' 0 exf (Some 0)))"
    unfolding example_fill [symmetric] by (rule cache_step.fill) (simp_all add: w)
  also have "?step \<dots> example_final"
    unfolding example_publish [symmetric]
    by (rule cache_step.publish) (auto simp: w read_by_def example_state_def example_index_def)
  finally show ?thesis .
qed

theorem shared_index_exact_witness:
  "\<exists>x. map_of (indexes example_final) 0 = Some x \<and>
    (\<forall>key. agrees (Find (ix_rows x) key) (rows_with (joinable example_raws) key))"
  by (rule shared_index_exact [OF example_run, of "''f''" exf]) (simp add: example_state_def)

text \<open>
  C17. The cache stays within its bounds in every interleaving: the bytes counted are those of the live
  indexes and never exceed the smaller of the caller's and the fixed limit (the peak neither), at most
  64 shards are tracked, and a slot is flagged as loading exactly while one worker loads it, so that no
  error path leaves it stuck.
\<close>
theorem index_cache_bounded:
  assumes "(cache_step content)\<^sup>*\<^sup>* (new_cache max_bytes min_reqs threads) st"
  shows "budget_bytes st = index_bytes (indexes st) \<and> budget_bytes st \<le> budget_peak st \<and>
    budget_peak st \<le> min max_bytes MAX_INDEX_BYTES \<and> length (slots st) \<le> MAX_TRACKED_SHARDS \<and>
    (\<forall>sid. loaders st sid = (if sl_loading (slot_heap st sid) then 1 else 0))"
proof -
  have "cache_inv content st" using assms by (intro index_cache.reachable_inv) blast
  moreover have "budget_limit st = min max_bytes MAX_INDEX_BYTES"
    using cache_steps_limit [OF assms] by (simp add: new_cache_def)
  ultimately show ?thesis by (simp add: cache_inv_def budget_inv_def slot_inv_def load_inv_def)
qed

theorem index_cache_bounded_witness:
  "budget_bytes example_final = index_bytes (indexes example_final) \<and> budget_peak example_final \<le> 1000"
  using index_cache_bounded [OF example_run] by auto

end
