(* ===== verification/CodecExecutor.thy ===== *)
theory CodecExecutor
  imports Machine
begin

text \<open>
  The executor of encoding jobs that all COPY statements of a database share
  (\<open>src/function/copy/lerobot_codec_executor.cpp\<close>): batches of jobs with a worker limit and a thread
  budget, one queue, and a pool of workers that take the first admissible job. Each critical section
  under the executor's lock, and each under a batch's result lock, is a step.
\<close>

section \<open>State\<close>

text \<open>What the encoder returns (\<open>LerobotEncodedVideoInfo\<close>) is not inspected: a type variable.\<close>

record 'v codec_result =
  cr_feature_index :: nat
  cr_output_path :: string
  cr_encoded :: 'v

record 'v codec_batch =
  results :: "'v codec_result option list"
  batch_error :: "exn option"
  completed_jobs :: nat
  cancelled :: bool
  max_workers :: nat
  codec_thread_budget :: nat
  host_thread_budget :: nat
  active_workers :: nat
  batch_codec_threads :: nat
  remaining_jobs :: nat

record codec_job =
  job_batch :: nat
  job_feature_index :: nat
  job_output_path :: string
  result_index :: nat
  codec_threads :: nat

text \<open>
  \<open>running\<close> are the jobs taken by workers, with the flag \<open>reserved_budget\<close>; \<open>finishing\<close> are those that
  have released their budget and have not yet published their completion.
\<close>

record 'v executor =
  batch_heap :: "nat \<Rightarrow> 'v codec_batch"
  next_batch :: nat
  batches :: "nat list"
  queue :: "codec_job list"
  running :: "(codec_job \<times> bool) list"
  finishing :: "(codec_job \<times> 'v option) list"
  worker_count :: nat
  active_codec_threads :: nat
  stopping :: bool

definition empty_batch :: "'v codec_batch" where
  "empty_batch = \<lparr>results = [], batch_error = None, completed_jobs = 0, cancelled = False, max_workers = 0,
     codec_thread_budget = 0, host_thread_budget = 0, active_workers = 0, batch_codec_threads = 0, remaining_jobs = 0\<rparr>"

definition new_executor :: "'v executor" where
  "new_executor = \<lparr>batch_heap = (\<lambda>_. empty_batch), next_batch = 0, batches = [], queue = [], running = [],
     finishing = [], worker_count = 0, active_codec_threads = 0, stopping = False\<rparr>"

definition update_batch :: "nat \<Rightarrow> ('v codec_batch \<Rightarrow> 'v codec_batch) \<Rightarrow> 'v executor \<Rightarrow> 'v executor" where
  "update_batch b f ex = ex\<lparr>batch_heap := (batch_heap ex)(b := f (batch_heap ex b))\<rparr>"

section \<open>Admission\<close>

text \<open>\<open>GlobalCodecCapacityLocked\<close>: finished batches are forgotten, the least host budget is the capacity.\<close>

definition live_batches :: "'v executor \<Rightarrow> nat list" where
  "live_batches ex = filter (\<lambda>b. remaining_jobs (batch_heap ex b) \<noteq> 0) (batches ex)"

definition GlobalCodecCapacity :: "'v executor \<Rightarrow> nat \<times> 'v executor" where
  "GlobalCodecCapacity ex =
     (let live = live_batches ex
      in (if live = [] then 1
          else foldl (\<lambda>c b. min c (host_thread_budget (batch_heap ex b))) IDX_MAX live, ex\<lparr>batches := live\<rparr>))"

text \<open>\<open>DesiredWorkerCountLocked\<close>: the workers the live batches can use, at most the largest host budget.\<close>

fun count_workers :: "nat \<Rightarrow> nat list \<Rightarrow> nat \<Rightarrow> nat" where
  "count_workers capacity [] desired = desired"
| "count_workers capacity (n # ns) desired =
     (if n \<ge> capacity - desired then capacity else count_workers capacity ns (desired + n))"

definition DesiredWorkerCount :: "'v executor \<Rightarrow> nat" where
  "DesiredWorkerCount ex =
     (let live = map (batch_heap ex) (live_batches ex);
          capacity = foldl (\<lambda>c b. max c (host_thread_budget b)) 0 live
      in count_workers capacity (map (\<lambda>b. min (max_workers b) (remaining_jobs b)) live) 0)"

definition EnsureWorkers :: "'v executor \<Rightarrow> 'v executor" where
  "EnsureWorkers ex = ex\<lparr>worker_count := max (worker_count ex) (DesiredWorkerCount ex)\<rparr>"

text \<open>\<open>TryTakeJobLocked\<close>: the first job in the queue that is cancelled or fits all three budgets.\<close>

definition fits :: "nat \<Rightarrow> 'v executor \<Rightarrow> codec_job \<Rightarrow> bool" where
  "fits capacity ex j =
     (let b = batch_heap ex (job_batch j)
      in active_workers b < max_workers b \<and>
         batch_codec_threads b + codec_threads j \<le> codec_thread_budget b \<and>
         active_codec_threads ex + codec_threads j \<le> capacity)"

fun find_job :: "(codec_job \<Rightarrow> bool) \<Rightarrow> codec_job list \<Rightarrow> (codec_job \<times> codec_job list) option" where
  "find_job P [] = None"
| "find_job P (j # js) =
     (if P j then Some (j, js)
      else (case find_job P js of None \<Rightarrow> None | Some (k, ks) \<Rightarrow> Some (k, j # ks)))"

definition TryTakeJob :: "'v executor \<Rightarrow> (codec_job \<times> bool) option \<times> 'v executor" where
  "TryTakeJob ex =
     (let (capacity, ex1) = GlobalCodecCapacity ex in
      case find_job (\<lambda>j. cancelled (batch_heap ex (job_batch j)) \<or> fits capacity ex j) (queue ex1) of
        None \<Rightarrow> (None, ex1)
      | Some (j, rest) \<Rightarrow>
          if cancelled (batch_heap ex (job_batch j)) then (Some (j, False), ex1\<lparr>queue := rest\<rparr>)
          else (Some (j, True),
                (update_batch (job_batch j) (\<lambda>b. b\<lparr>active_workers := active_workers b + 1,
                     batch_codec_threads := batch_codec_threads b + codec_threads j\<rparr>) ex1)
                  \<lparr>queue := rest, active_codec_threads := active_codec_threads ex + codec_threads j\<rparr>))"

text \<open>A worker that takes a job.\<close>

definition take_job :: "'v executor \<Rightarrow> 'v executor" where
  "take_job ex =
     (case TryTakeJob ex of (None, ex1) \<Rightarrow> ex1 | (Some jr, ex1) \<Rightarrow> ex1\<lparr>running := jr # running ex1\<rparr>)"

section \<open>Completion\<close>

text \<open>
  \<open>CompleteJob\<close> up to the release of the budget: the first error of a batch is kept and cancels it.
  \<open>outcome\<close> is what the encoder did; a job of a cancelled batch is not encoded and has no error.
\<close>

definition record_error :: "exn \<Rightarrow> 'v codec_batch \<Rightarrow> 'v codec_batch" where
  "record_error e b = (if cancelled b then b else b\<lparr>cancelled := True, batch_error := Some e\<rparr>)"

definition release_budget :: "codec_job \<Rightarrow> bool \<Rightarrow> 'v codec_batch \<Rightarrow> 'v codec_batch" where
  "release_budget j reserved b =
     (let b1 = (if reserved then b\<lparr>active_workers := active_workers b - 1,
                                  batch_codec_threads := batch_codec_threads b - codec_threads j\<rparr> else b)
      in b1\<lparr>remaining_jobs := remaining_jobs b1 - 1\<rparr>)"

definition complete_release :: "codec_job \<Rightarrow> bool \<Rightarrow> exn + 'v \<Rightarrow> 'v executor \<Rightarrow> 'v executor" where
  "complete_release j reserved outcome ex =
     (let ex1 = (case outcome of Inl e \<Rightarrow> update_batch (job_batch j) (record_error e) ex | Inr _ \<Rightarrow> ex);
          ex2 = update_batch (job_batch j) (release_budget j reserved) ex1
      in ex2\<lparr>running := remove1 (j, reserved) (running ex),
            active_codec_threads := (if reserved then active_codec_threads ex - codec_threads j else active_codec_threads ex),
            finishing := (j, case outcome of Inl _ \<Rightarrow> None | Inr v \<Rightarrow> Some v) # finishing ex\<rparr>)"

text \<open>\<open>CompleteJob\<close>, the publication of the result and of the completion.\<close>

definition publish_result :: "codec_job \<Rightarrow> 'v option \<Rightarrow> 'v codec_batch \<Rightarrow> 'v codec_batch" where
  "publish_result j encoded b =
     (let b1 = (case encoded of
                  Some v \<Rightarrow> if cancelled b then b
                    else b\<lparr>results := (results b)[result_index j :=
                      Some \<lparr>cr_feature_index = job_feature_index j, cr_output_path = job_output_path j, cr_encoded = v\<rparr>]\<rparr>
                | None \<Rightarrow> b)
      in b1\<lparr>completed_jobs := completed_jobs b1 + 1\<rparr>)"

definition complete_publish :: "codec_job \<Rightarrow> 'v option \<Rightarrow> 'v executor \<Rightarrow> 'v executor" where
  "complete_publish j encoded ex =
     (update_batch (job_batch j) (publish_result j encoded) ex)\<lparr>finishing := remove1 (j, encoded) (finishing ex)\<rparr>"

text \<open>\<open>DiscardCancelledJobs\<close>: the queued jobs of a cancelled batch count as completed.\<close>

definition DiscardCancelledJobs :: "nat \<Rightarrow> 'v executor \<Rightarrow> 'v executor" where
  "DiscardCancelledJobs b ex =
     (let discarded = length (filter (\<lambda>j. job_batch j = b) (queue ex))
      in (update_batch b (\<lambda>x. x\<lparr>remaining_jobs := remaining_jobs x - discarded,
                              completed_jobs := completed_jobs x + discarded\<rparr>) ex)
           \<lparr>queue := filter (\<lambda>j. job_batch j \<noteq> b) (queue ex)\<rparr>)"

definition cancel_batch :: "nat \<Rightarrow> 'v executor \<Rightarrow> 'v executor" where
  "cancel_batch b ex = update_batch b (\<lambda>x. x\<lparr>cancelled := True\<rparr>) ex"

section \<open>Execute\<close>

text \<open>
  The jobs of a batch share its thread budget: worker slot \<open>k\<close> gets \<open>budget / workers\<close> threads and one
  more if it is among the first \<open>budget % workers\<close>.
\<close>

definition slot_threads :: "nat \<Rightarrow> nat \<Rightarrow> nat \<Rightarrow> nat" where
  "slot_threads budget workers slot = budget div workers + (if slot < budget mod workers then 1 else 0)"

definition make_jobs :: "nat \<Rightarrow> nat \<Rightarrow> nat \<Rightarrow> (nat \<times> string) list \<Rightarrow> codec_job list" where
  "make_jobs b workers budget jobs =
     map (\<lambda>(i, feature, path). \<lparr>job_batch = b, job_feature_index = feature, job_output_path = path,
            result_index = i, codec_threads = slot_threads budget workers (i mod workers)\<rparr>)
       (zip [0 ..< length jobs] jobs)"

definition new_batch :: "nat \<Rightarrow> nat \<Rightarrow> nat \<Rightarrow> nat \<Rightarrow> 'v codec_batch" where
  "new_batch n workers budget host =
     \<lparr>results = replicate n None, batch_error = None, completed_jobs = 0, cancelled = False,
      max_workers = workers, codec_thread_budget = budget, host_thread_budget = host,
      active_workers = 0, batch_codec_threads = 0, remaining_jobs = n\<rparr>"

text \<open>
  The start of \<open>Execute\<close>. \<open>thread_error\<close> is the exception of a worker that could not be created, with
  the number of those created before; then the jobs of the batch leave the queue again, and the batch,
  which nothing refers to any more, is destroyed.
\<close>

definition Execute_start ::
  "nat \<Rightarrow> (nat \<times> string) list \<Rightarrow> nat \<Rightarrow> nat \<Rightarrow> (exn \<times> nat) option \<Rightarrow> 'v executor \<Rightarrow>
   (exn + nat) \<times> 'v executor" where
  "Execute_start host_threads jobs workers budget thread_error ex =
     (let host = max 1 host_threads in
      if workers = 0 \<or> budget = 0 \<or> budget > host
      then (Inl (InvalidInputException ''LeRobot codec executor budget exceeds the current DuckDB thread limit''), ex)
      else
        let n = length jobs;
            w = min (min workers n) budget
        in if stopping ex then (Inl (InternalException ''LeRobot codec executor is stopping''), ex)
           else
             let b = next_batch ex;
                 ex1 = ex\<lparr>batch_heap := (batch_heap ex)(b := new_batch n w budget host), next_batch := b + 1,
                         batches := batches ex @ [b], queue := queue ex @ make_jobs b w budget jobs\<rparr>
             in case thread_error of
                  None \<Rightarrow> (Inr b, EnsureWorkers ex1)
                | Some (e, created) \<Rightarrow>
                    (Inl e,
                     ex1\<lparr>queue := filter (\<lambda>j. job_batch j \<noteq> b) (queue ex1), batches := butlast (batches ex1),
                         batch_heap := (batch_heap ex1)(b := empty_batch),
                         worker_count := worker_count ex + created\<rparr>))"

text \<open>The end of \<open>Execute\<close>, once \<open>completed_jobs == results.size()\<close>.\<close>

definition Execute_done :: "nat \<Rightarrow> 'v executor \<Rightarrow> bool" where
  "Execute_done b ex \<longleftrightarrow> completed_jobs (batch_heap ex b) = length (results (batch_heap ex b))"

definition Execute_result :: "bool \<Rightarrow> nat \<Rightarrow> 'v executor \<Rightarrow> exn + 'v codec_result option list" where
  "Execute_result interrupted b ex =
     (if interrupted then Inl InterruptException
      else (case batch_error (batch_heap ex b) of
              Some e \<Rightarrow> Inl e
            | None \<Rightarrow> Inr (results (batch_heap ex b))))"

section \<open>Interleavings\<close>

text \<open>
  The steps of the workers. A job whose batch is cancelled when its worker looks is not encoded: it
  completes with a default value; otherwise any outcome is possible.
\<close>

inductive worker_step :: "'v executor \<Rightarrow> 'v executor \<Rightarrow> bool" where
  take: "length (running ex) + length (finishing ex) < worker_count ex \<Longrightarrow>
    TryTakeJob ex = (Some jr, ex1) \<Longrightarrow> worker_step ex (take_job ex)"
| release: "(j, reserved) \<in> set (running ex) \<Longrightarrow>
    (reserved = False \<Longrightarrow> \<exists>v. outcome = Inr v) \<Longrightarrow>
    worker_step ex (complete_release j reserved outcome ex)"
| publish: "(j, encoded) \<in> set (finishing ex) \<Longrightarrow> worker_step ex (complete_publish j encoded ex)"

text \<open>The steps of the callers and of the destructor.\<close>

inductive caller_step :: "'v executor \<Rightarrow> 'v executor \<Rightarrow> bool" where
  start: "jobs \<noteq> [] \<Longrightarrow> host \<le> IDX_MAX \<Longrightarrow> caller_step ex (snd (Execute_start host jobs workers budget thread_error ex))"
| cancel: "b < next_batch ex \<Longrightarrow> caller_step ex (cancel_batch b ex)"
| discard: "b < next_batch ex \<Longrightarrow> cancelled (batch_heap ex b) \<Longrightarrow> caller_step ex (DiscardCancelledJobs b ex)"
| stop: "caller_step ex (ex\<lparr>stopping := True\<rparr>)"

inductive exec_step :: "'v executor \<Rightarrow> 'v executor \<Rightarrow> bool" where
  worker: "worker_step ex ex' \<Longrightarrow> exec_step ex ex'"
| caller: "caller_step ex ex' \<Longrightarrow> exec_step ex ex'"

inductive_cases exec_stepE: "exec_step ex ex'"
inductive_cases caller_stepE: "caller_step ex ex'"

section \<open>The invariant\<close>

definition jobs_in :: "nat \<Rightarrow> codec_job list \<Rightarrow> codec_job list" where
  "jobs_in b js = filter (\<lambda>j. job_batch j = b) js"

definition threads_of :: "codec_job list \<Rightarrow> nat" where
  "threads_of js = sum_list (map codec_threads js)"

definition reserved_jobs :: "'v executor \<Rightarrow> codec_job list" where
  "reserved_jobs ex = map fst (filter snd (running ex))"

text \<open>The books of a batch: what is queued, running, finishing and completed, and what budget is in use.\<close>

definition batch_books :: "'v executor \<Rightarrow> nat \<Rightarrow> bool" where
  "batch_books ex b \<longleftrightarrow> (let x = batch_heap ex b in
     remaining_jobs x = length (jobs_in b (queue ex)) + length (jobs_in b (map fst (running ex))) \<and>
     completed_jobs x + length (jobs_in b (map fst (finishing ex))) + remaining_jobs x = length (results x) \<and>
     active_workers x = length (jobs_in b (reserved_jobs ex)) \<and>
     batch_codec_threads x = threads_of (jobs_in b (reserved_jobs ex)))"

definition batch_limits :: "'v codec_batch \<Rightarrow> bool" where
  "batch_limits x \<longleftrightarrow> active_workers x \<le> max_workers x \<and> batch_codec_threads x \<le> codec_thread_budget x \<and>
     codec_thread_budget x \<le> host_thread_budget x \<and> host_thread_budget x \<le> IDX_MAX \<and>
     (remaining_jobs x \<noteq> 0 \<longrightarrow> max_workers x \<noteq> 0 \<and> host_thread_budget x \<noteq> 0)"

definition outstanding :: "'v executor \<Rightarrow> codec_job set" where
  "outstanding ex = set (queue ex) \<union> fst ` set (running ex) \<union> fst ` set (finishing ex)"

definition queue_inv :: "'v executor \<Rightarrow> bool" where
  "queue_inv ex \<longleftrightarrow>
     (\<forall>j \<in> outstanding ex. job_batch j < next_batch ex) \<and>
     (\<forall>j \<in> set (queue ex). codec_threads j \<le> codec_thread_budget (batch_heap ex (job_batch j))) \<and>
     (\<forall>b. remaining_jobs (batch_heap ex b) \<noteq> 0 \<longrightarrow> b \<in> set (batches ex)) \<and>
     (\<forall>b \<ge> next_batch ex. batch_heap ex b = empty_batch) \<and>
     (queue ex \<noteq> [] \<longrightarrow> worker_count ex \<noteq> 0)"

text \<open>In a batch that is not cancelled, every result is there or its job is still on the way.\<close>

definition pending_indices :: "'v executor \<Rightarrow> nat \<Rightarrow> nat set" where
  "pending_indices ex b = result_index ` {j \<in> outstanding ex. job_batch j = b}"

definition result_inv :: "'v executor \<Rightarrow> nat \<Rightarrow> bool" where
  "result_inv ex b \<longleftrightarrow> (let x = batch_heap ex b in
     (batch_error x \<noteq> None \<longrightarrow> cancelled x) \<and>
     (\<not> cancelled x \<longrightarrow>
        (\<forall>i < length (results x). results x ! i = None \<longrightarrow> i \<in> pending_indices ex b) \<and>
        (\<forall>jr \<in> set (running ex). job_batch (fst jr) = b \<longrightarrow> snd jr) \<and>
        (\<forall>jv \<in> set (finishing ex). job_batch (fst jv) = b \<longrightarrow> snd jv \<noteq> None)))"

definition exec_inv :: "'v executor \<Rightarrow> bool" where
  "exec_inv ex \<longleftrightarrow> (\<forall>b. batch_books ex b \<and> batch_limits (batch_heap ex b) \<and> result_inv ex b) \<and>
     active_codec_threads ex = threads_of (reserved_jobs ex) \<and> queue_inv ex"

lemma jobs_in_simps [simp]:
  "jobs_in b [] = []" "jobs_in b (j # js) = (if job_batch j = b then j # jobs_in b js else jobs_in b js)"
  "jobs_in b (js @ ks) = jobs_in b js @ jobs_in b ks"
  by (simp_all add: jobs_in_def)

lemma threads_of_simps [simp]:
  "threads_of [] = 0" "threads_of (j # js) = codec_threads j + threads_of js"
  "threads_of (js @ ks) = threads_of js + threads_of ks"
  by (simp_all add: threads_of_def)

lemma remove1_fst:
  assumes "x \<in> set xs"
  shows "length (jobs_in b (map fst (remove1 x xs))) + (if job_batch (fst x) = b then 1 else 0) = length (jobs_in b (map fst xs))"
  using assms by (induction xs) auto

lemma remove1_reserved:
  assumes "x \<in> set xs"
  shows "length (jobs_in b (map fst (filter snd (remove1 x xs)))) + (if job_batch (fst x) = b \<and> snd x then 1 else 0) =
      length (jobs_in b (map fst (filter snd xs)))"
    and "threads_of (jobs_in b (map fst (filter snd (remove1 x xs)))) +
      (if job_batch (fst x) = b \<and> snd x then codec_threads (fst x) else 0) = threads_of (jobs_in b (map fst (filter snd xs)))"
    and "threads_of (map fst (filter snd (remove1 x xs))) + (if snd x then codec_threads (fst x) else 0) =
      threads_of (map fst (filter snd xs))"
  using assms by (induction xs) auto

lemma find_job_Some:
  "find_job P js = Some (j, rest) \<Longrightarrow> P j \<and> (\<exists>pre post. js = pre @ j # post \<and> rest = pre @ post)"
proof (induction P js arbitrary: rest rule: find_job.induct)
  case (2 P x js)
  show ?case
  proof (cases "P x")
    case True
    with 2(2) show ?thesis by (auto intro: exI [of _ "[]"])
  next
    case False
    with 2(2) obtain ks where ks: "find_job P js = Some (j, ks)" "rest = x # ks"
      by (auto split: option.splits)
    from 2(1) [OF False ks(1)] obtain pre post where "P j" "js = pre @ j # post" "ks = pre @ post" by blast
    with ks(2) show ?thesis by (intro conjI exI [of _ "x # pre"] exI [of _ post]) auto
  qed
qed simp

lemma find_job_None: "find_job P js = None \<longleftrightarrow> (\<forall>j \<in> set js. \<not> P j)"
  by (induction P js rule: find_job.induct) (auto split: option.splits)

lemma update_batch_simps [simp]:
  "batch_heap (update_batch b f ex) = (batch_heap ex)(b := f (batch_heap ex b))"
  "next_batch (update_batch b f ex) = next_batch ex" "batches (update_batch b f ex) = batches ex"
  "queue (update_batch b f ex) = queue ex" "running (update_batch b f ex) = running ex"
  "finishing (update_batch b f ex) = finishing ex" "worker_count (update_batch b f ex) = worker_count ex"
  "active_codec_threads (update_batch b f ex) = active_codec_threads ex" "stopping (update_batch b f ex) = stopping ex"
  by (simp_all add: update_batch_def)

lemma exec_invD:
  assumes "exec_inv ex"
  shows "batch_books ex b" "batch_limits (batch_heap ex b)" "result_inv ex b"
    "active_codec_threads ex = threads_of (reserved_jobs ex)" "queue_inv ex"
  using assms by (auto simp: exec_inv_def)

lemma queue_invI:
  assumes "\<And>j. j \<in> outstanding ex \<Longrightarrow> job_batch j < next_batch ex"
    and "\<And>j. j \<in> set (queue ex) \<Longrightarrow> codec_threads j \<le> codec_thread_budget (batch_heap ex (job_batch j))"
    and "\<And>b. remaining_jobs (batch_heap ex b) \<noteq> 0 \<Longrightarrow> b \<in> set (batches ex)"
    and "\<And>b. next_batch ex \<le> b \<Longrightarrow> batch_heap ex b = empty_batch"
    and "queue ex \<noteq> [] \<Longrightarrow> worker_count ex \<noteq> 0"
  shows "queue_inv ex"
  using assms by (simp add: queue_inv_def)

lemma queue_invD:
  assumes "queue_inv ex"
  shows "j \<in> outstanding ex \<Longrightarrow> job_batch j < next_batch ex"
    and "j \<in> set (queue ex) \<Longrightarrow> codec_threads j \<le> codec_thread_budget (batch_heap ex (job_batch j))"
    and "remaining_jobs (batch_heap ex b) \<noteq> 0 \<Longrightarrow> b \<in> set (batches ex)"
    and "next_batch ex \<le> b \<Longrightarrow> batch_heap ex b = empty_batch"
    and "queue ex \<noteq> [] \<Longrightarrow> worker_count ex \<noteq> 0"
  using assms by (auto simp: queue_inv_def)

subsection \<open>Workers keep the invariant\<close>

lemma TryTakeJob_cases:
  assumes "TryTakeJob ex = (Some jr, ex1)"
  obtains pre j post where "queue ex = pre @ j # post" "fst jr = j"
    "cancelled (batch_heap ex (job_batch j))" "jr = (j, False)"
    "ex1 = ex\<lparr>batches := live_batches ex, queue := pre @ post\<rparr>"
  | pre j post where "queue ex = pre @ j # post" "fst jr = j"
    "\<not> cancelled (batch_heap ex (job_batch j))" "jr = (j, True)" "fits (fst (GlobalCodecCapacity ex)) ex j"
    "ex1 = ex\<lparr>batches := live_batches ex,
       batch_heap := (batch_heap ex)(job_batch j := (batch_heap ex (job_batch j))\<lparr>
         active_workers := active_workers (batch_heap ex (job_batch j)) + 1,
         batch_codec_threads := batch_codec_threads (batch_heap ex (job_batch j)) + codec_threads j\<rparr>),
       queue := pre @ post, active_codec_threads := active_codec_threads ex + codec_threads j\<rparr>"
proof -
  let ?P = "\<lambda>j. cancelled (batch_heap ex (job_batch j)) \<or> fits (fst (GlobalCodecCapacity ex)) ex j"
  obtain cap ex0 where cap: "GlobalCodecCapacity ex = (cap, ex0)" by (cases "GlobalCodecCapacity ex")
  have ex0: "ex0 = ex\<lparr>batches := live_batches ex\<rparr>" using cap by (auto simp: GlobalCodecCapacity_def Let_def)
  from assms cap obtain j rest where j: "find_job ?P (queue ex) = Some (j, rest)"
    by (auto simp: TryTakeJob_def ex0 split: option.splits)
  from find_job_Some [OF this] obtain pre post where split: "?P j" "queue ex = pre @ j # post" "rest = pre @ post"
    by blast
  show ?thesis
  proof (cases "cancelled (batch_heap ex (job_batch j))")
    case True
    with assms cap j split show ?thesis
      by (intro that(1)) (auto simp: TryTakeJob_def ex0 split: option.splits)
  next
    case False
    with assms cap j split show ?thesis
      by (intro that(2)) (auto simp: TryTakeJob_def ex0 update_batch_def split: option.splits)
  qed
qed

lemma live_batches_set: "queue_inv ex \<Longrightarrow> remaining_jobs (batch_heap ex b) \<noteq> 0 \<Longrightarrow> b \<in> set (live_batches ex)"
  by (simp add: queue_inv_def live_batches_def)

lemma take_job_inv:
  assumes inv: "exec_inv ex" and take: "TryTakeJob ex = (Some jr, ex1)"
  shows "exec_inv (take_job ex)"
proof -
  note D = exec_invD [OF inv]
  note Q = queue_invD [OF D(5)]
  show ?thesis
    using take
  proof (cases rule: TryTakeJob_cases)
    case (1 pre j post)
    then have st: "take_job ex = ex\<lparr>batches := live_batches ex, queue := pre @ post, running := (j, False) # running ex\<rparr>"
      using take by (simp add: take_job_def)
    have out: "outstanding (take_job ex) = outstanding ex" using 1(1) by (auto simp: outstanding_def st)
    have pi: "pending_indices (take_job ex) b = pending_indices ex b" for b by (simp add: pending_indices_def out)
    have "batch_books (take_job ex) b" "batch_limits (batch_heap (take_job ex) b)" for b
      using D(1,2) [of b] 1(1) by (auto simp: st batch_books_def Let_def reserved_jobs_def)
    moreover have "result_inv (take_job ex) b" for b
      using D(3) [of b] 1(1,3) unfolding result_inv_def Let_def pi by (auto simp: st)
    moreover have "queue_inv (take_job ex)"
      using Q 1(1) live_batches_set [OF D(5)] by (intro queue_invI) (simp_all add: out, auto simp: st)
    ultimately show ?thesis using D(4) by (simp add: exec_inv_def st reserved_jobs_def)
  next
    case (2 pre j post)
    let ?b = "job_batch j"
    let ?x = "(batch_heap ex ?b)\<lparr>active_workers := active_workers (batch_heap ex ?b) + 1,
      batch_codec_threads := batch_codec_threads (batch_heap ex ?b) + codec_threads j\<rparr>"
    have st: "take_job ex = ex\<lparr>batches := live_batches ex, batch_heap := (batch_heap ex)(?b := ?x),
        queue := pre @ post, active_codec_threads := active_codec_threads ex + codec_threads j,
        running := (j, True) # running ex\<rparr>"
      using take 2 by (simp add: take_job_def)
    have out: "outstanding (take_job ex) = outstanding ex" using 2(1) by (auto simp: outstanding_def st)
    have pi: "pending_indices (take_job ex) b = pending_indices ex b" for b by (simp add: pending_indices_def out)
    have "batch_books (take_job ex) b" for b
      using D(1) [of b] 2(1) by (auto simp: st batch_books_def Let_def reserved_jobs_def)
    moreover have "batch_limits (batch_heap (take_job ex) b)" for b
      using D(2) [of b] 2(5) by (auto simp: st batch_limits_def fits_def Let_def)
    moreover have "result_inv (take_job ex) b" for b
      using D(3) [of b] 2(1) unfolding result_inv_def Let_def pi by (auto simp: st)
    moreover have "queue_inv (take_job ex)"
    proof (rule queue_invI)
      have b: "?b < next_batch ex" using Q(1) [of j] 2(1) by (simp add: outstanding_def)
      fix b assume "next_batch (take_job ex) \<le> b"
      then show "batch_heap (take_job ex) b = empty_batch" using Q(4) [of b] b by (simp add: st)
    next
      fix k assume "k \<in> set (queue (take_job ex))"
      then show "codec_threads k \<le> codec_thread_budget (batch_heap (take_job ex) (job_batch k))"
        using Q(2) [of k] 2(1) by (auto simp: st)
    qed (use Q 2(1) live_batches_set [OF D(5)] out in \<open>auto simp: st split: if_splits\<close>)
    ultimately show ?thesis using D(4) by (simp add: exec_inv_def st reserved_jobs_def)
  qed
qed

lemma complete_release_inv:
  assumes inv: "exec_inv ex" and run: "(j, reserved) \<in> set (running ex)"
    and out: "reserved = False \<Longrightarrow> \<exists>v. outcome = Inr v"
  shows "exec_inv (complete_release j reserved outcome ex)" (is "exec_inv ?ex")
proof -
  note D = exec_invD [OF inv]
  note Q = queue_invD [OF D(5)]
  let ?b = "job_batch j"
  let ?x = "batch_heap ex ?b"
  let ?y = "case outcome of Inl e \<Rightarrow> record_error e ?x | Inr _ \<Rightarrow> ?x"
  have heap: "batch_heap ?ex b = (if b = ?b then release_budget j reserved ?y else batch_heap ex b)" for b
    by (cases outcome) (simp_all add: complete_release_def Let_def)
  have parts: "queue ?ex = queue ex" "running ?ex = remove1 (j, reserved) (running ex)"
    "finishing ?ex = (j, case outcome of Inl _ \<Rightarrow> None | Inr v \<Rightarrow> Some v) # finishing ex"
    "next_batch ?ex = next_batch ex" "batches ?ex = batches ex" "worker_count ?ex = worker_count ex"
    "active_codec_threads ?ex = (if reserved then active_codec_threads ex - codec_threads j else active_codec_threads ex)"
    by (cases outcome; simp add: complete_release_def Let_def)+
  have y: "remaining_jobs ?y = remaining_jobs ?x" "completed_jobs ?y = completed_jobs ?x" "results ?y = results ?x"
    "active_workers ?y = active_workers ?x" "batch_codec_threads ?y = batch_codec_threads ?x"
    "max_workers ?y = max_workers ?x" "codec_thread_budget ?y = codec_thread_budget ?x"
    "host_thread_budget ?y = host_thread_budget ?x" "cancelled ?x \<Longrightarrow> cancelled ?y"
    by (cases outcome; simp add: record_error_def)+
  have z: "remaining_jobs (release_budget j reserved ?y) = remaining_jobs ?x - 1"
    "completed_jobs (release_budget j reserved ?y) = completed_jobs ?x" "results (release_budget j reserved ?y) = results ?x"
    "active_workers (release_budget j reserved ?y) = (if reserved then active_workers ?x - 1 else active_workers ?x)"
    "batch_codec_threads (release_budget j reserved ?y) = (if reserved then batch_codec_threads ?x - codec_threads j else batch_codec_threads ?x)"
    "max_workers (release_budget j reserved ?y) = max_workers ?x"
    "codec_thread_budget (release_budget j reserved ?y) = codec_thread_budget ?x"
    "host_thread_budget (release_budget j reserved ?y) = host_thread_budget ?x"
    "cancelled (release_budget j reserved ?y) = cancelled ?y" "batch_error (release_budget j reserved ?y) = batch_error ?y"
    by (simp_all add: release_budget_def Let_def y)
  note cut = remove1_fst [OF run] remove1_reserved [OF run]
  have outst: "outstanding ?ex = outstanding ex"
  proof (rule set_eqI)
    fix k
    have "k \<in> fst ` set (remove1 (j, reserved) (running ex)) \<or> k = j \<longleftrightarrow> k \<in> fst ` set (running ex) \<or> k = j"
    proof (cases "k = j")
      case False
      then have "(k, r) \<in> set (remove1 (j, reserved) (running ex)) \<longleftrightarrow> (k, r) \<in> set (running ex)" for r
        by (intro in_set_remove1) simp
      then show ?thesis by force
    qed simp
    moreover have "j \<in> fst ` set (running ex)" using run by force
    ultimately show "k \<in> outstanding ?ex \<longleftrightarrow> k \<in> outstanding ex"
      by (auto simp: outstanding_def parts)
  qed
  have "batch_books ?ex b" for b
    using D(1) [of b] cut(1) [of b] cut(2) [of b] cut(3) [of b]
    by (cases "b = ?b") (auto simp: batch_books_def Let_def heap parts z reserved_jobs_def split: if_splits)
  moreover have "batch_limits (batch_heap ?ex b)" for b
    using D(2) [of b] by (cases "b = ?b") (auto simp: batch_limits_def heap z)
  moreover have "result_inv ?ex b" for b
  proof (cases "b = ?b")
    case False
    have "pending_indices ?ex b = pending_indices ex b" by (simp add: pending_indices_def outst)
    with D(3) [of b] False show ?thesis
      using set_remove1_subset [of "(j, reserved)" "running ex"]
      by (auto simp: result_inv_def Let_def heap parts)
  next
    case True
    have pend: "pending_indices ?ex b = pending_indices ex b" by (simp add: pending_indices_def outst)
    have err: "batch_error ?y \<noteq> None \<Longrightarrow> cancelled ?y"
      using D(3) [of b] True by (cases outcome) (auto simp: result_inv_def Let_def record_error_def)
    have none: "\<not> cancelled ?y \<Longrightarrow> \<not> cancelled ?x \<and> (\<exists>v. outcome = Inr v)"
      by (cases outcome) (auto simp: record_error_def split: if_splits)
    show ?thesis
      using D(3) [of b] True pend err none set_remove1_subset [of "(j, reserved)" "running ex"]
      by (auto simp: result_inv_def Let_def heap parts z)
  qed
  moreover have "queue_inv ?ex"
  proof -
    have "job_batch j < next_batch ex" using Q(1) [of j] run by (force simp: outstanding_def)
    moreover have "codec_threads k \<le> codec_thread_budget (batch_heap ?ex (job_batch k))" if "k \<in> set (queue ?ex)" for k
      using Q(2) [of k] that by (cases "job_batch k = ?b") (simp_all add: parts heap z)
    ultimately show ?thesis
      using Q by (intro queue_invI) (simp_all only: outst, auto simp: parts heap z split: if_splits)
  qed
  moreover have "active_codec_threads ?ex = threads_of (reserved_jobs ?ex)"
    using D(4) cut(4) by (auto simp: parts reserved_jobs_def)
  ultimately show ?thesis by (simp add: exec_inv_def)
qed

lemma complete_publish_inv:
  assumes inv: "exec_inv ex" and fin: "(j, encoded) \<in> set (finishing ex)"
  shows "exec_inv (complete_publish j encoded ex)" (is "exec_inv ?ex")
proof -
  note D = exec_invD [OF inv]
  note Q = queue_invD [OF D(5)]
  let ?b = "job_batch j"
  let ?x = "batch_heap ex ?b"
  let ?y = "publish_result j encoded ?x"
  have heap: "batch_heap ?ex b = (if b = ?b then ?y else batch_heap ex b)" for b
    by (simp add: complete_publish_def)
  have parts: "queue ?ex = queue ex" "running ?ex = running ex" "finishing ?ex = remove1 (j, encoded) (finishing ex)"
    "next_batch ?ex = next_batch ex" "batches ?ex = batches ex" "worker_count ?ex = worker_count ex"
    "active_codec_threads ?ex = active_codec_threads ex"
    by (simp_all add: complete_publish_def)
  have y: "remaining_jobs ?y = remaining_jobs ?x" "completed_jobs ?y = completed_jobs ?x + 1"
    "length (results ?y) = length (results ?x)" "active_workers ?y = active_workers ?x"
    "batch_codec_threads ?y = batch_codec_threads ?x" "max_workers ?y = max_workers ?x"
    "codec_thread_budget ?y = codec_thread_budget ?x" "host_thread_budget ?y = host_thread_budget ?x"
    "cancelled ?y = cancelled ?x" "batch_error ?y = batch_error ?x"
    by (auto simp: publish_result_def Let_def split: option.splits)
  have sub: "outstanding ?ex \<subseteq> outstanding ex"
    using set_remove1_subset [of "(j, encoded)" "finishing ex"] by (auto simp: outstanding_def parts)
  have keep: "k \<in> outstanding ?ex" if "k \<in> outstanding ex" "k \<noteq> j" for k
  proof -
    have "(k, v) \<in> set (remove1 (j, encoded) (finishing ex)) \<longleftrightarrow> (k, v) \<in> set (finishing ex)" for v
      by (rule in_set_remove1) (use that in simp)
    with that show ?thesis by (force simp: outstanding_def parts)
  qed
  have "batch_books ?ex b" for b
    using D(1) [of b] remove1_fst [OF fin, of b]
    by (cases "b = ?b") (auto simp: batch_books_def Let_def heap parts y reserved_jobs_def)
  moreover have "batch_limits (batch_heap ?ex b)" for b
    using D(2) [of b] by (auto simp: batch_limits_def heap y)
  moreover have "result_inv ?ex b" for b
  proof (cases "b = ?b")
    case False
    have "pending_indices ?ex b = pending_indices ex b"
      using sub keep False unfolding pending_indices_def by (intro arg_cong [where f = "image result_index"]) auto
    with D(3) [of b] False show ?thesis
      using set_remove1_subset [of "(j, encoded)" "finishing ex"]
      by (auto simp: result_inv_def Let_def heap parts)
  next
    case True
    have "i \<in> pending_indices ?ex b" if "\<not> cancelled ?x" "i < length (results ?x)" "results ?y ! i = None" for i
    proof -
      have "encoded \<noteq> None" using D(3) [of b] fin True that(1) by (auto simp: result_inv_def Let_def)
      then obtain v where v: "encoded = Some v" by blast
      have i: "i \<noteq> result_index j" using that v by (auto simp: publish_result_def Let_def)
      with that v have "results ?x ! i = None" by (auto simp: publish_result_def Let_def)
      then have "i \<in> pending_indices ex b" using D(3) [of b] that True by (auto simp: result_inv_def Let_def)
      then obtain k where "k \<in> outstanding ex" "job_batch k = b" "result_index k = i" by (auto simp: pending_indices_def)
      with i keep [of k] show ?thesis by (auto simp: pending_indices_def)
    qed
    with D(3) [of b] True show ?thesis
      using set_remove1_subset [of "(j, encoded)" "finishing ex"]
      by (auto simp: result_inv_def Let_def heap parts y)
  qed
  moreover have "queue_inv ?ex"
  proof (rule queue_invI)
    fix k assume "k \<in> set (queue ?ex)"
    then show "codec_threads k \<le> codec_thread_budget (batch_heap ?ex (job_batch k))"
      using Q(2) [of k] by (cases "job_batch k = ?b") (simp_all add: parts heap y)
  next
    fix b assume "next_batch ?ex \<le> b"
    moreover have "?b < next_batch ex" using Q(1) [of j] fin by (force simp: outstanding_def)
    ultimately show "batch_heap ?ex b = empty_batch" using Q(4) by (simp add: parts heap)
  qed (use Q sub in \<open>auto simp: parts heap y split: if_splits\<close>)
  moreover have "active_codec_threads ?ex = threads_of (reserved_jobs ?ex)"
    using D(4) by (simp add: parts reserved_jobs_def)
  ultimately show ?thesis by (simp add: exec_inv_def)
qed

lemma worker_step_inv: "worker_step ex ex' \<Longrightarrow> exec_inv ex \<Longrightarrow> exec_inv ex'"
  by (induction rule: worker_step.induct) (simp_all add: take_job_inv complete_release_inv complete_publish_inv)

subsection \<open>Callers keep the invariant\<close>

lemma cancel_batch_inv:
  assumes "exec_inv ex" and "b < next_batch ex"
  shows "exec_inv (cancel_batch b ex)"
proof -
  note D = exec_invD [OF assms(1)]
  note Q = queue_invD [OF D(5)]
  let ?ex = "cancel_batch b ex"
  have heap: "batch_heap ?ex k = (if k = b then (batch_heap ex b)\<lparr>cancelled := True\<rparr> else batch_heap ex k)" for k
    by (simp add: cancel_batch_def)
  have parts: "queue ?ex = queue ex" "running ?ex = running ex" "finishing ?ex = finishing ex"
    "next_batch ?ex = next_batch ex" "batches ?ex = batches ex" "worker_count ?ex = worker_count ex"
    "active_codec_threads ?ex = active_codec_threads ex" "reserved_jobs ?ex = reserved_jobs ex"
    by (simp_all add: cancel_batch_def reserved_jobs_def)
  have "batch_books ?ex k" "batch_limits (batch_heap ?ex k)" "result_inv ?ex k" for k
    using D(1-3) [of k] by (auto simp: batch_books_def batch_limits_def result_inv_def pending_indices_def outstanding_def
      Let_def heap parts)
  moreover have "queue_inv ?ex"
  proof (rule queue_invI)
    fix k assume "k \<in> set (queue ?ex)"
    then show "codec_threads k \<le> codec_thread_budget (batch_heap ?ex (job_batch k))"
      using Q(2) [of k] by (cases "job_batch k = b") (simp_all add: parts heap)
  qed (use Q assms(2) in \<open>auto simp: parts heap outstanding_def split: if_splits\<close>)
  ultimately show ?thesis using D(4) by (simp add: exec_inv_def parts)
qed

lemma discard_inv:
  assumes inv: "exec_inv ex" and b: "b < next_batch ex" "cancelled (batch_heap ex b)"
  shows "exec_inv (DiscardCancelledJobs b ex)" (is "exec_inv ?ex")
proof -
  note D = exec_invD [OF inv]
  note Q = queue_invD [OF D(5)]
  let ?n = "length (jobs_in b (queue ex))"
  have heap: "batch_heap ?ex k = (if k = b then (batch_heap ex b)\<lparr>remaining_jobs := remaining_jobs (batch_heap ex b) - ?n,
      completed_jobs := completed_jobs (batch_heap ex b) + ?n\<rparr> else batch_heap ex k)" for k
    by (simp add: DiscardCancelledJobs_def Let_def jobs_in_def)
  have parts: "queue ?ex = filter (\<lambda>j. job_batch j \<noteq> b) (queue ex)" "running ?ex = running ex" "finishing ?ex = finishing ex"
    "next_batch ?ex = next_batch ex" "batches ?ex = batches ex" "worker_count ?ex = worker_count ex"
    "active_codec_threads ?ex = active_codec_threads ex" "reserved_jobs ?ex = reserved_jobs ex"
    by (simp_all add: DiscardCancelledJobs_def Let_def reserved_jobs_def)
  have cut: "jobs_in k (filter (\<lambda>j. job_batch j \<noteq> b) (queue ex)) = (if k = b then [] else jobs_in k (queue ex))" for k
    by (auto simp: jobs_in_def intro!: filter_cong)
  have "batch_books ?ex k" "batch_limits (batch_heap ?ex k)" for k
    using D(1,2) [of k] by (auto simp: batch_books_def batch_limits_def Let_def heap parts cut)
  moreover have "result_inv ?ex k" for k
  proof (cases "k = b")
    case False
    then have "pending_indices ?ex k = pending_indices ex k"
      unfolding pending_indices_def by (intro arg_cong [where f = "image result_index"]) (auto simp: outstanding_def parts)
    with D(3) [of k] False show ?thesis by (simp add: result_inv_def heap parts)
  qed (use b in \<open>simp add: result_inv_def heap\<close>)
  moreover have "queue_inv ?ex"
  proof (rule queue_invI)
    fix k assume "k \<in> set (queue ?ex)"
    then show "codec_threads k \<le> codec_thread_budget (batch_heap ?ex (job_batch k))"
      using Q(2) [of k] by (auto simp: parts heap)
  next
    assume "queue ?ex \<noteq> []"
    then have "queue ex \<noteq> []" by (auto simp: parts)
    then show "worker_count ?ex \<noteq> 0" using Q(5) by (simp add: parts)
  qed (use Q(1,3,4) b in \<open>auto simp: parts heap outstanding_def split: if_splits\<close>)
  ultimately show ?thesis using D(4) by (simp add: exec_inv_def parts)
qed

lemma slot_threads_le: "0 < workers \<Longrightarrow> slot_threads budget workers slot \<le> budget"
proof -
  assume w: "0 < workers"
  show ?thesis
  proof (cases "slot < budget mod workers")
    case True
    then have "budget div workers + 1 \<le> workers * (budget div workers) + budget mod workers"
      using w by (intro add_mono) (auto simp: Suc_le_eq)
    with True show ?thesis by (simp add: slot_threads_def)
  qed (simp add: slot_threads_def)
qed

lemma make_jobs_props:
  "length (make_jobs b w budget jobs) = length jobs"
  "j \<in> set (make_jobs b w budget jobs) \<Longrightarrow> job_batch j = b"
  "0 < w \<Longrightarrow> j \<in> set (make_jobs b w budget jobs) \<Longrightarrow> codec_threads j \<le> budget"
  "i < length jobs \<Longrightarrow> i \<in> result_index ` set (make_jobs b w budget jobs)"
proof -
  show "length (make_jobs b w budget jobs) = length jobs" by (simp add: make_jobs_def)
  show "j \<in> set (make_jobs b w budget jobs) \<Longrightarrow> job_batch j = b" by (auto simp: make_jobs_def)
  show "0 < w \<Longrightarrow> j \<in> set (make_jobs b w budget jobs) \<Longrightarrow> codec_threads j \<le> budget"
    by (auto simp: make_jobs_def slot_threads_le)
  assume "i < length jobs"
  then have "result_index (make_jobs b w budget jobs ! i) = i" by (simp add: make_jobs_def case_prod_beta)
  moreover have "make_jobs b w budget jobs ! i \<in> set (make_jobs b w budget jobs)"
    using \<open>i < length jobs\<close> by (intro nth_mem) (simp add: make_jobs_def)
  ultimately show "i \<in> result_index ` set (make_jobs b w budget jobs)" by force
qed

lemma jobs_in_make_jobs: "jobs_in k (make_jobs b w budget jobs) = (if k = b then make_jobs b w budget jobs else [])"
  using make_jobs_props(2) [of _ b w budget jobs] by (auto simp: jobs_in_def filter_empty_conv filter_id_conv)

lemma count_workers_ge: "d \<le> c \<Longrightarrow> d \<le> count_workers c ns d"
proof (induction c ns d rule: count_workers.induct)
  case (2 c n ns d)
  then show ?case by (cases "c - d \<le> n") force+
qed simp

lemma foldl_max_start: "a \<le> foldl (\<lambda>c b. max c (f b)) a xs" for f :: "'a \<Rightarrow> nat"
  by (induction xs arbitrary: a) (auto intro: order_trans [OF max.cobounded1])

lemma foldl_max_ge: "x \<in> set xs \<Longrightarrow> f x \<le> foldl (\<lambda>c b. max c (f b)) a xs" for f :: "'a \<Rightarrow> nat"
  by (induction xs arbitrary: a) (auto intro: order_trans [OF max.cobounded2 foldl_max_start])

lemma DesiredWorkerCount_pos:
  assumes "live_batches ex \<noteq> []"
    and "\<And>b. b \<in> set (live_batches ex) \<Longrightarrow> max_workers (batch_heap ex b) \<noteq> 0 \<and> host_thread_budget (batch_heap ex b) \<noteq> 0"
  shows "DesiredWorkerCount ex \<noteq> 0"
proof -
  from assms(1) obtain b bs where live: "live_batches ex = b # bs" by (cases "live_batches ex") auto
  let ?xs = "map (batch_heap ex) (live_batches ex)"
  define c where "c = foldl (\<lambda>c b. max c (host_thread_budget b)) 0 ?xs"
  define n where "n = min (max_workers (batch_heap ex b)) (remaining_jobs (batch_heap ex b))"
  have "host_thread_budget (batch_heap ex b) \<le> c" unfolding c_def by (rule foldl_max_ge) (simp add: live)
  then have c: "c \<noteq> 0" using assms(2) [of b] by (auto simp: live)
  have "b \<in> set (live_batches ex)" by (simp add: live)
  then have "remaining_jobs (batch_heap ex b) \<noteq> 0" by (simp add: live_batches_def)
  then have n: "n \<noteq> 0" using assms(2) [of b] by (simp add: n_def live)
  have "DesiredWorkerCount ex = count_workers c (n # map (\<lambda>b. min (max_workers b) (remaining_jobs b)) (map (batch_heap ex) bs)) 0"
    by (simp add: DesiredWorkerCount_def Let_def c_def n_def live)
  moreover have "count_workers c (n # ns) 0 \<noteq> 0" for ns
    using c n count_workers_ge [of n c ns] by auto
  ultimately show ?thesis by simp
qed

lemma Execute_start_inv:
  assumes inv: "exec_inv ex" and jobs: "jobs \<noteq> []" and host: "host \<le> IDX_MAX"
  shows "exec_inv (snd (Execute_start host jobs workers budget thread_error ex))"
proof -
  note D = exec_invD [OF inv]
  note Q = queue_invD [OF D(5)]
  define h where "h = max 1 host"
  define n where "n = length jobs"
  define b where "b = next_batch ex"
  define w where "w = min (min workers n) budget"
  define js where "js = make_jobs b w budget jobs"
  define ex1 where "ex1 = ex\<lparr>batch_heap := (batch_heap ex)(b := new_batch n w budget h), next_batch := b + 1,
      batches := batches ex @ [b], queue := queue ex @ js\<rparr>"
  note start_defs = Execute_start_def Let_def ex1_def js_def w_def b_def n_def h_def
  have "0 < n" using jobs by (simp add: n_def)
  have h_max: "h \<le> IDX_MAX" "h \<noteq> 0" using host by (auto simp: h_def IDX_MAX_def max_def)
  have J: "length js = n" "\<And>j. j \<in> set js \<Longrightarrow> job_batch j = b" "\<And>j. 0 < w \<Longrightarrow> j \<in> set js \<Longrightarrow> codec_threads j \<le> budget"
    "\<And>i. i < n \<Longrightarrow> i \<in> result_index ` set js" "\<And>k. jobs_in k js = (if k = b then js else [])"
    unfolding js_def n_def
    by (rule make_jobs_props(1), erule make_jobs_props(2), erule (1) make_jobs_props(3), erule make_jobs_props(4),
        rule jobs_in_make_jobs)
  show ?thesis
  proof (cases "workers = 0 \<or> budget = 0 \<or> budget > h \<or> stopping ex")
    case True
    then have "snd (Execute_start host jobs workers budget thread_error ex) = ex"
      by (auto simp: start_defs)
    with inv show ?thesis by simp
  next
    case False
    then have w: "0 < w" "budget \<le> h" using \<open>0 < n\<close> by (auto simp: w_def)
    have old: "job_batch j \<noteq> b" if "j \<in> outstanding ex" for j using Q(1) [OF that] by (simp add: b_def)
    have none: "jobs_in b (queue ex) = []" "jobs_in b (map fst (running ex)) = []"
      "jobs_in b (map fst (finishing ex)) = []" "jobs_in b (reserved_jobs ex) = []"
      using old by (auto simp: jobs_in_def filter_empty_conv outstanding_def reserved_jobs_def)
    show ?thesis
    proof (cases thread_error)
      case None
      let ?ex = "EnsureWorkers ex1"
      have st: "snd (Execute_start host jobs workers budget thread_error ex) = ?ex"
        using False None by (auto simp: start_defs)
      have heap: "batch_heap ?ex k = (if k = b then new_batch n w budget h else batch_heap ex k)" for k
        by (simp add: EnsureWorkers_def ex1_def)
      have parts: "queue ?ex = queue ex @ js" "running ?ex = running ex" "finishing ?ex = finishing ex"
        "next_batch ?ex = b + 1" "batches ?ex = batches ex @ [b]" "active_codec_threads ?ex = active_codec_threads ex"
        "reserved_jobs ?ex = reserved_jobs ex" "worker_count ?ex = max (worker_count ex) (DesiredWorkerCount ex1)"
        by (simp_all add: EnsureWorkers_def reserved_jobs_def ex1_def)
      have outst: "outstanding ?ex = outstanding ex \<union> set js" by (auto simp: outstanding_def parts)
      have books: "batch_books ?ex k" "batch_limits (batch_heap ?ex k)" for k
        using D(1,2) [of k] none w J(1) h_max
        by (auto simp: batch_books_def batch_limits_def Let_def heap parts J(5) new_batch_def)
      moreover have "result_inv ?ex k" for k
      proof (cases "k = b")
        case True
        have "{j \<in> outstanding ?ex. job_batch j = b} = set js" using old J(2) by (auto simp: outst)
        then have pend: "pending_indices ?ex b = result_index ` set js" by (simp add: pending_indices_def)
        have r: "jr \<in> set (running ex) \<Longrightarrow> job_batch (fst jr) \<noteq> b" "jv \<in> set (finishing ex) \<Longrightarrow> job_batch (fst jv) \<noteq> b" for jr jv
          using old by (auto simp: outstanding_def)
        show ?thesis
          unfolding result_inv_def Let_def True pend parts heap using J(4) r by (auto simp: new_batch_def)
      next
        case False
        then have "pending_indices ?ex k = pending_indices ex k"
          using J(2) by (auto simp: pending_indices_def outst)
        with D(3) [of k] False show ?thesis by (simp add: result_inv_def Let_def heap parts)
      qed
      moreover have "queue_inv ?ex"
      proof (rule queue_invI)
        fix k assume "k \<in> outstanding ?ex"
        then show "job_batch k < next_batch ?ex"
          using Q(1) [of k] J(2) [of k] by (auto simp: outst parts b_def)
      next
        fix k assume "k \<in> set (queue ?ex)"
        then consider "k \<in> set (queue ex)" | "k \<in> set js" by (auto simp: parts)
        then show "codec_threads k \<le> codec_thread_budget (batch_heap ?ex (job_batch k))"
        proof cases
          case 1
          then have "job_batch k \<noteq> b" using old by (simp add: outstanding_def)
          with 1 Q(2) show ?thesis by (simp add: heap)
        next
          case 2
          with J(2,3) w(1) show ?thesis by (simp add: heap new_batch_def)
        qed
      next
        fix k assume "remaining_jobs (batch_heap ?ex k) \<noteq> 0"
        then show "k \<in> set (batches ?ex)" using Q(3) by (auto simp: heap parts split: if_splits)
      next
        fix k assume "next_batch ?ex \<le> k"
        then show "batch_heap ?ex k = empty_batch" using Q(4) [of k] by (simp add: heap parts b_def)
      next
        have "DesiredWorkerCount ex1 \<noteq> 0"
        proof (rule DesiredWorkerCount_pos)
          show "live_batches ex1 \<noteq> []"
            using \<open>0 < n\<close> by (simp add: live_batches_def new_batch_def ex1_def)
          fix k assume "k \<in> set (live_batches ex1)"
          then have "remaining_jobs (batch_heap ?ex k) \<noteq> 0" by (simp add: live_batches_def EnsureWorkers_def)
          with books(2) [of k] show "max_workers (batch_heap ex1 k) \<noteq> 0 \<and> host_thread_budget (batch_heap ex1 k) \<noteq> 0"
            by (simp add: batch_limits_def EnsureWorkers_def)
        qed
        then show "worker_count ?ex \<noteq> 0" by (simp add: parts)
      qed
      ultimately show ?thesis using D(4) unfolding st by (simp add: exec_inv_def parts)
    next
      case (Some ec)
      obtain e created where ec: "ec = (e, created)" by (cases ec)
      have drop: "filter (\<lambda>j. job_batch j \<noteq> b) (queue ex @ js) = queue ex"
        using old J(2) by (auto simp: outstanding_def filter_empty_conv intro!: filter_True)
      have heap: "((batch_heap ex)(b := new_batch n w budget h))(b := empty_batch) = batch_heap ex"
        using Q(4) [of b] by (auto simp: b_def)
      have st: "snd (Execute_start host jobs workers budget thread_error ex) =
          ex\<lparr>next_batch := b + 1, worker_count := worker_count ex + created\<rparr>" (is "_ = ?ex")
        using False Some ec drop heap by (auto simp: start_defs)
      have "batch_books ?ex k" "batch_limits (batch_heap ?ex k)" "result_inv ?ex k" for k
        using D(1-3) [of k] by (simp_all add: batch_books_def result_inv_def pending_indices_def outstanding_def reserved_jobs_def)
      moreover have "queue_inv ?ex"
        using Q by (intro queue_invI) (auto simp: outstanding_def less_Suc_eq b_def)
      ultimately show ?thesis using D(4) unfolding st by (simp add: exec_inv_def reserved_jobs_def)
    qed
  qed
qed

lemma stop_inv: "exec_inv (ex\<lparr>stopping := True\<rparr>) = exec_inv ex"
  by (simp add: exec_inv_def batch_books_def result_inv_def pending_indices_def outstanding_def reserved_jobs_def queue_inv_def)

lemma exec_step_inv: "exec_inv ex \<Longrightarrow> exec_step ex ex' \<Longrightarrow> exec_inv ex'"
proof (erule exec_stepE)
  assume "exec_inv ex" "worker_step ex ex'"
  then show "exec_inv ex'" by (rule worker_step_inv [rotated])
next
  assume "exec_inv ex" "caller_step ex ex'"
  then show "exec_inv ex'"
    by (elim caller_stepE) (simp_all add: Execute_start_inv cancel_batch_inv discard_inv stop_inv)
qed

lemma new_executor_inv: "exec_inv new_executor"
  by (simp add: exec_inv_def batch_books_def batch_limits_def result_inv_def queue_inv_def outstanding_def
      reserved_jobs_def new_executor_def empty_batch_def Let_def)

section \<open>Every batch completes\<close>

lemma foldl_min_in: "foldl (\<lambda>c b. min c (f b)) a xs = a \<or> (\<exists>x \<in> set xs. foldl (\<lambda>c b. min c (f b)) a xs = f x)"
  for f :: "'a \<Rightarrow> nat"
proof (induction xs arbitrary: a)
  case (Cons x xs)
  from Cons.IH [of "min a (f x)"] show ?case by (auto simp: min_def split: if_splits)
qed simp

lemma foldl_min_start: "foldl (\<lambda>c b. min c (f b)) a xs \<le> a" for f :: "'a \<Rightarrow> nat"
  by (induction xs arbitrary: a) (auto intro: order_trans [OF _ min.cobounded1])

lemma foldl_min_le: "x \<in> set xs \<Longrightarrow> foldl (\<lambda>c b. min c (f b)) a xs \<le> f x" for f :: "'a \<Rightarrow> nat"
  by (induction xs arbitrary: a) (auto intro: order_trans [OF foldl_min_start])

lemma capacity_attained:
  assumes "exec_inv ex" and "live_batches ex \<noteq> []"
  shows "\<exists>b \<in> set (live_batches ex). fst (GlobalCodecCapacity ex) = host_thread_budget (batch_heap ex b)"
proof -
  let ?f = "\<lambda>b. host_thread_budget (batch_heap ex b)"
  let ?c = "foldl (\<lambda>c b. min c (?f b)) IDX_MAX (live_batches ex)"
  have c: "fst (GlobalCodecCapacity ex) = ?c" using assms(2) by (simp add: GlobalCodecCapacity_def Let_def)
  obtain b where b: "b \<in> set (live_batches ex)" using assms(2) by (cases "live_batches ex") auto
  have "?f b \<le> IDX_MAX" using exec_invD(2) [OF assms(1)] by (simp add: batch_limits_def)
  with foldl_min_in [of ?f IDX_MAX "live_batches ex"] foldl_min_le [OF b, of ?f IDX_MAX] b c
  show ?thesis by (metis le_antisym)
qed

lemma worker_progress:
  assumes inv: "exec_inv ex" and out: "outstanding ex \<noteq> {}"
  shows "\<exists>ex'. worker_step ex ex'"
proof (cases "finishing ex = [] \<and> running ex = []")
  case False
  then consider j v where "(j, v) \<in> set (finishing ex)" | j r where "(j, r) \<in> set (running ex)"
    by (metis list.set_intros(1) neq_Nil_conv surj_pair)
  then show ?thesis
    by cases (blast intro: worker_step.publish worker_step.release [where outcome = "Inr undefined"])+
next
  case True
  note D = exec_invD [OF inv]
  note Q = queue_invD [OF D(5)]
  from True out have queue: "queue ex \<noteq> []" by (auto simp: outstanding_def)
  have idle: "reserved_jobs ex = []" using True by (simp add: reserved_jobs_def)
  have remaining: "remaining_jobs (batch_heap ex b) = length (jobs_in b (queue ex))" for b
    using D(1) [of b] True by (simp add: batch_books_def Let_def)
  obtain k where k: "k \<in> set (queue ex)" using queue by (cases "queue ex") auto
  then have "remaining_jobs (batch_heap ex (job_batch k)) \<noteq> 0"
    by (auto simp: remaining jobs_in_def filter_empty_conv)
  then have "live_batches ex \<noteq> []" using live_batches_set [OF D(5)] by force
  from capacity_attained [OF inv this] obtain b where b: "b \<in> set (live_batches ex)"
    "fst (GlobalCodecCapacity ex) = host_thread_budget (batch_heap ex b)" by blast
  from b(1) have "remaining_jobs (batch_heap ex b) \<noteq> 0" by (simp add: live_batches_def)
  then obtain j where j: "j \<in> set (queue ex)" "job_batch j = b" by (auto simp: remaining jobs_in_def filter_empty_conv)
  have books: "active_workers (batch_heap ex b) = 0" "batch_codec_threads (batch_heap ex b) = 0" "active_codec_threads ex = 0"
    using D(1) [of b] D(4) idle by (simp_all add: batch_books_def Let_def)
  have limits: "max_workers (batch_heap ex b) \<noteq> 0" "codec_thread_budget (batch_heap ex b) \<le> host_thread_budget (batch_heap ex b)"
    using D(2) [of b] \<open>remaining_jobs (batch_heap ex b) \<noteq> 0\<close> by (simp_all add: batch_limits_def)
  have "codec_threads j \<le> codec_thread_budget (batch_heap ex b)" using Q(2) j by blast
  with books limits j(2) b(2) have "fits (fst (GlobalCodecCapacity ex)) ex j" by (simp add: fits_def Let_def)
  then have "find_job (\<lambda>j. cancelled (batch_heap ex (job_batch j)) \<or> fits (fst (GlobalCodecCapacity ex)) ex j) (queue ex) \<noteq> None"
    using j(1) unfolding find_job_None by blast
  then have "fst (TryTakeJob ex) \<noteq> None"
    by (auto simp: TryTakeJob_def GlobalCodecCapacity_def Let_def)
  then obtain jr ex1 where "TryTakeJob ex = (Some jr, ex1)" by (cases "TryTakeJob ex") auto
  moreover have "length (running ex) + length (finishing ex) < worker_count ex"
    using True Q(5) [OF queue] by simp
  ultimately show ?thesis by (blast intro: worker_step.take)
qed

definition work_left :: "'v executor \<Rightarrow> nat" where
  "work_left ex = 3 * length (queue ex) + 2 * length (running ex) + length (finishing ex)"

lemma worker_step_work: "worker_step ex ex' \<Longrightarrow> work_left ex' < work_left ex"
proof (induction rule: worker_step.induct)
  case (take ex jr ex1)
  from take(2) show ?case
    by (cases rule: TryTakeJob_cases) (use take(2) in \<open>auto simp: take_job_def work_left_def\<close>)
next
  case (release j reserved ex outcome)
  then obtain n where "length (running ex) = Suc n" by (cases "running ex") auto
  with release show ?case
    by (cases outcome) (simp_all add: complete_release_def Let_def work_left_def length_remove1)
next
  case (publish j encoded ex)
  then obtain n where "length (finishing ex) = Suc n" by (cases "finishing ex") auto
  with publish show ?case by (simp add: complete_publish_def work_left_def length_remove1)
qed

interpretation executor: state_machine "\<lambda>ex. ex = new_executor" exec_step exec_inv
  by unfold_locales (auto intro: new_executor_inv exec_step_inv)

interpretation workers: terminating_machine exec_inv worker_step exec_inv work_left
  by unfold_locales (auto intro: worker_step_inv worker_step_work)

section \<open>Properties\<close>

text \<open>
  C27. The thread budgets hold in every interleaving: no batch exceeds its worker limit or its thread
  budget, the threads counted as active are those of the jobs that hold a reservation, and a job is only
  admitted when the total stays within the smallest host budget of the batches that are still alive.
\<close>
theorem codec_budgets_hold:
  assumes "exec_step\<^sup>*\<^sup>* new_executor ex"
  shows "active_workers (batch_heap ex b) \<le> max_workers (batch_heap ex b) \<and>
    batch_codec_threads (batch_heap ex b) \<le> codec_thread_budget (batch_heap ex b) \<and>
    active_codec_threads ex = threads_of (reserved_jobs ex) \<and>
    (\<forall>j ex1. TryTakeJob ex = (Some (j, True), ex1) \<longrightarrow>
      (\<forall>k \<in> set (live_batches ex). active_codec_threads ex1 \<le> host_thread_budget (batch_heap ex k)))"
proof -
  have inv: "exec_inv ex" using executor.reachable_inv [OF refl assms] .
  have "active_codec_threads ex1 \<le> host_thread_budget (batch_heap ex k)"
    if "TryTakeJob ex = (Some (j, True), ex1)" and k: "k \<in> set (live_batches ex)" for j ex1 k
    using that(1)
  proof (cases rule: TryTakeJob_cases)
    case (2 pre j' post)
    then have "active_codec_threads ex1 \<le> fst (GlobalCodecCapacity ex)" by (simp add: fits_def Let_def)
    also have "\<dots> \<le> host_thread_budget (batch_heap ex k)"
      using k foldl_min_le [OF k] by (auto simp: GlobalCodecCapacity_def Let_def)
    finally show ?thesis .
  qed simp
  then show ?thesis
    using exec_invD(2) [OF inv, of b] exec_invD(4) [OF inv] by (auto simp: batch_limits_def)
qed

lemma slot_threads_sum: "0 < w \<Longrightarrow> sum_list (map (slot_threads budget w) [0 ..< w]) = budget"
proof -
  assume w: "0 < w"
  have count: "sum_list (map (\<lambda>k. if k < m then 1 else 0) [0 ..< n]) = min m n" for m n :: nat
    by (induction n) auto
  have "sum_list (map (slot_threads budget w) xs) =
      length xs * (budget div w) + sum_list (map (\<lambda>k. if k < budget mod w then 1 else 0) xs)" for xs
    by (induction xs) (auto simp: slot_threads_def)
  then have "sum_list (map (slot_threads budget w) [0 ..< w]) = w * (budget div w) + min (budget mod w) w"
    by (simp only: count length_upt diff_zero)
  with w show ?thesis by (simp add: min_absorb1 less_imp_le)
qed

text \<open>The jobs of a batch are given threads round robin over its worker slots: the slots share the
  budget exactly and evenly, so that any set of workers of the batch that runs at once fits in it.
\<close>
lemma codec_threads_split:
  assumes "0 < workers" and "workers \<le> budget"
  shows "sum_list (map (slot_threads budget workers) [0 ..< workers]) = budget \<and>
    (\<forall>slot. 1 \<le> slot_threads budget workers slot) \<and>
    (\<forall>i j. slot_threads budget workers i \<le> slot_threads budget workers j + 1)"
proof -
  have "1 \<le> budget div workers" using assms by (simp add: Suc_le_eq div_greater_zero_iff)
  then show ?thesis using slot_threads_sum [OF assms(1)] by (auto simp: slot_threads_def)
qed

lemma codec_threads_split_witness:
  "sum_list (map (slot_threads 10 4) [0 ..< 4]) = 10 \<and> slot_threads 10 4 0 = 3 \<and> slot_threads 10 4 3 = 2"
proof -
  have "slot_threads 10 4 0 = 3" "slot_threads 10 4 3 = 2" by code_simp+
  moreover have "sum_list (map (slot_threads 10 4) [0 ..< 4]) = 10"
    using codec_threads_split [of 4 10] by linarith
  ultimately show ?thesis by blast
qed

text \<open>
  C26. The executor never gets stuck: from every reachable state the steps of its workers alone end after
  at most \<open>work_left\<close> steps, and when no worker can take, finish or publish a job, every batch is done.
  This holds although a batch with a small host budget limits the admission of the jobs of the others.
\<close>
theorem codec_batches_complete:
  assumes "exec_step\<^sup>*\<^sup>* new_executor ex"
  shows "((worker_step ^^ n) ex ex' \<longrightarrow> n \<le> work_left ex) \<and>
    (worker_step\<^sup>*\<^sup>* ex ex' \<and> (\<nexists>ex''. worker_step ex' ex'') \<longrightarrow> Execute_done b ex')"
proof (intro conjI impI)
  have inv: "exec_inv ex" using executor.reachable_inv [OF refl assms] .
  show "n \<le> work_left ex" if "(worker_step ^^ n) ex ex'"
    using workers.relpowp_work [OF that inv] by simp
  assume run: "worker_step\<^sup>*\<^sup>* ex ex' \<and> (\<nexists>ex''. worker_step ex' ex'')"
  then have inv': "exec_inv ex'" using workers.steps_inv inv by blast
  with run worker_progress have "outstanding ex' = {}" by blast
  then have "queue ex' = []" "running ex' = []" "finishing ex' = []" by (auto simp: outstanding_def)
  then show "Execute_done b ex'"
    using exec_invD(1) [OF inv', of b] by (simp add: batch_books_def Let_def Execute_done_def)
qed

text \<open>
  C28. When the caller of \<open>Execute\<close> sees its batch done, none of its jobs is queued, running or holds
  threads any more, and if it returns results and the batch was not cancelled, there is one for every job.
\<close>
theorem codec_results_complete:
  assumes "exec_step\<^sup>*\<^sup>* new_executor ex" and "Execute_done b ex"
  shows "(\<forall>j \<in> outstanding ex. job_batch j \<noteq> b) \<and> active_workers (batch_heap ex b) = 0 \<and>
    batch_codec_threads (batch_heap ex b) = 0 \<and>
    (\<forall>rs. Execute_result False b ex = Inr rs \<longrightarrow> \<not> cancelled (batch_heap ex b) \<longrightarrow> None \<notin> set rs)"
proof -
  have inv: "exec_inv ex" using executor.reachable_inv [OF refl assms(1)] .
  note D = exec_invD [OF inv]
  have none: "jobs_in b (queue ex) = []" "jobs_in b (map fst (running ex)) = []" "jobs_in b (map fst (finishing ex)) = []"
    using D(1) [of b] assms(2) by (auto simp: batch_books_def Let_def Execute_done_def)
  then have out: "\<forall>j \<in> outstanding ex. job_batch j \<noteq> b"
    by (auto simp: jobs_in_def filter_empty_conv outstanding_def)
  have "jobs_in b (reserved_jobs ex) = []"
    using none(2) by (auto simp: jobs_in_def filter_empty_conv reserved_jobs_def)
  then have idle: "active_workers (batch_heap ex b) = 0" "batch_codec_threads (batch_heap ex b) = 0"
    using D(1) [of b] by (simp_all add: batch_books_def Let_def)
  have "pending_indices ex b = {}" using out by (auto simp: pending_indices_def)
  then have "None \<notin> set (results (batch_heap ex b))" if "\<not> cancelled (batch_heap ex b)"
    using D(3) [of b] that by (auto simp: result_inv_def Let_def in_set_conv_nth)
  with out idle show ?thesis by (auto simp: Execute_result_def split: option.splits)
qed

text \<open>One COPY with one job, taken, encoded and published.\<close>

definition example_job :: codec_job where
  "example_job = \<lparr>job_batch = 0, job_feature_index = 0, job_output_path = ''v'', result_index = 0, codec_threads = 3\<rparr>"

definition example_started :: "nat executor" where
  "example_started = snd (Execute_start 4 [(0, ''v'')] 2 3 None new_executor)"

definition example_taken :: "nat executor" where "example_taken = take_job example_started"

definition example_released :: "nat executor" where
  "example_released = complete_release example_job True (Inr 9) example_taken"

definition example_published :: "nat executor" where
  "example_published = complete_publish example_job (Some 9) example_released"

lemma example_started_eq:
  "example_started = \<lparr>batch_heap = (\<lambda>_. empty_batch)(0 := new_batch 1 1 3 4), next_batch = 1, batches = [0],
     queue = [example_job], running = [], finishing = [], worker_count = 1, active_codec_threads = 0, stopping = False\<rparr>"
  by (simp add: example_started_def Execute_start_def Let_def new_executor_def make_jobs_def slot_threads_def
      EnsureWorkers_def DesiredWorkerCount_def live_batches_def new_batch_def example_job_def)

lemma example_take:
  "TryTakeJob example_started = (Some (example_job, True),
     example_started\<lparr>batch_heap := (\<lambda>_. empty_batch)(0 := (new_batch 1 1 3 4)\<lparr>active_workers := 1, batch_codec_threads := 3\<rparr>),
       queue := [], active_codec_threads := 3\<rparr>)"
  by (simp add: example_started_eq TryTakeJob_def GlobalCodecCapacity_def live_batches_def Let_def fits_def
      update_batch_def new_batch_def example_job_def IDX_MAX_def)

lemma example_taken_eq:
  "example_taken = \<lparr>batch_heap = (\<lambda>_. empty_batch)(0 := (new_batch 1 1 3 4)\<lparr>active_workers := 1, batch_codec_threads := 3\<rparr>),
     next_batch = 1, batches = [0], queue = [], running = [(example_job, True)], finishing = [], worker_count = 1,
     active_codec_threads = 3, stopping = False\<rparr>"
  by (simp add: example_taken_def take_job_def example_take) (simp add: example_started_eq)

lemma example_facts:
  "length (running example_started) + length (finishing example_started) < worker_count example_started"
  "fst (TryTakeJob example_started) = Some (example_job, True)"
  "(example_job, True) \<in> set (running example_taken)"
  "(example_job, Some 9) \<in> set (finishing example_released)"
  by (simp_all add: example_take example_taken_def take_job_def example_released_def complete_release_def Let_def)
    (simp add: example_started_eq)

lemma example_results:
  "completed_jobs (batch_heap example_published 0) = length (results (batch_heap example_published 0))"
  "Execute_result False 0 example_published = Inr [Some \<lparr>cr_feature_index = 0, cr_output_path = ''v'', cr_encoded = 9\<rparr>]"
  by (simp_all add: example_published_def complete_publish_def example_released_def complete_release_def Let_def
      example_taken_eq new_batch_def publish_result_def release_budget_def
      Execute_result_def example_job_def)

lemma example_codec_run:
  "exec_step\<^sup>*\<^sup>* new_executor example_started" "exec_step\<^sup>*\<^sup>* new_executor example_published"
proof -
  have start: "exec_step new_executor example_started"
    unfolding example_started_def by (intro exec_step.caller caller_step.start) (simp_all add: IDX_MAX_def)
  obtain jr ex1 where "TryTakeJob example_started = (Some jr, ex1)"
    using example_facts(2) by (cases "TryTakeJob example_started") auto
  then have take: "exec_step example_started example_taken"
    unfolding example_taken_def using example_facts(1) by (intro exec_step.worker worker_step.take)
  have release: "exec_step example_taken example_released"
    unfolding example_released_def using example_facts(3) by (intro exec_step.worker worker_step.release) simp_all
  have publish: "exec_step example_released example_published"
    unfolding example_published_def using example_facts(4) by (intro exec_step.worker worker_step.publish)
  from start show 1: "exec_step\<^sup>*\<^sup>* new_executor example_started" by blast
  from 1 take release publish show "exec_step\<^sup>*\<^sup>* new_executor example_published"
    by (meson rtranclp.rtrancl_into_rtrancl)
qed

theorem codec_budgets_hold_witness:
  "active_workers (batch_heap example_started 0) \<le> max_workers (batch_heap example_started 0)"
  using codec_budgets_hold [OF example_codec_run(1), of 0] by blast

theorem codec_batches_complete_witness:
  "\<not> (worker_step ^^ 4) example_started example_published"
proof -
  have "work_left example_started = 3" by (simp add: work_left_def example_started_eq)
  with codec_batches_complete [OF example_codec_run(1), of 4 example_published] show ?thesis by auto
qed

theorem codec_results_complete_witness:
  "active_workers (batch_heap example_published 0) = 0 \<and>
   Execute_result False 0 example_published = Inr [Some \<lparr>cr_feature_index = 0, cr_output_path = ''v'', cr_encoded = 9\<rparr>]"
  using codec_results_complete [OF example_codec_run(2), of 0] example_results unfolding Execute_done_def by blast

end
