(* ===== verification/CopyOptions.thy ===== *)
theory CopyOptions
  imports Schema
begin

text \<open>
  The options of \<open>COPY ... (FORMAT lerobot, ...)\<close> (\<open>src/function/copy/lerobot_copy_options.cpp\<close>):
  their declared types, the reading of one option, and the two passes that turn the option map into a
  \<open>LerobotCopyConfig\<close>, with every check and every error in the order of the source.
\<close>

section \<open>Configuration\<close>

record video_encoding =
  rgb_codec :: string
  rgb_crf :: int
  rgb_gop :: int
  enc_depth_min :: fp
  enc_depth_max :: fp
  enc_depth_shift :: fp
  depth_use_log :: bool
  depth_clip :: bool

definition default_encoding :: video_encoding where
  "default_encoding = \<lparr>rgb_codec = '''', rgb_crf = 30, rgb_gop = 2, enc_depth_min = rnd64 (1 / 100),
     enc_depth_max = Fin 10, enc_depth_shift = Fin (7 / 2), depth_use_log = True, depth_clip = True\<rparr>"

record copy_config =
  cc_fps :: nat
  chunks_size :: nat
  data_file_size_mb :: fp
  video_file_size_mb :: fp
  metadata_buffer_size :: nat
  max_visual_frame_bytes :: nat
  video_workers :: nat
  encoder_threads :: nat
  robot_type :: string
  has_robot_type :: bool
  features_json :: string
  encoding :: video_encoding

section \<open>Reading one option\<close>

text \<open>The options as the \<open>COPY\<close> statement gives them: a list of values per name.\<close>

type_synonym copy_options = "string \<Rightarrow> sqlvalue list option"

text \<open>
  \<open>Value::DefaultCastAs\<close> to the five types the options have; the casts are DuckDB's, the model only
  relies on the range of their results.
\<close>

record value_casts =
  cast_bigint :: "sqlvalue \<Rightarrow> int result"
  cast_ubigint :: "sqlvalue \<Rightarrow> nat result"
  cast_double :: "sqlvalue \<Rightarrow> fp result"
  cast_varchar :: "sqlvalue \<Rightarrow> string result"
  cast_boolean :: "sqlvalue \<Rightarrow> bool result"

definition casts_in_range :: "value_casts \<Rightarrow> bool" where
  "casts_in_range c \<longleftrightarrow>
     (\<forall>v i. cast_bigint c v = Inr i \<longrightarrow> is_int64 i) \<and> (\<forall>v n. cast_ubigint c v = Inr n \<longrightarrow> n \<le> IDX_MAX)"

definition GetSingleOption :: "copy_options \<Rightarrow> string \<Rightarrow> bool \<Rightarrow> sqlvalue result" where
  "GetSingleOption options name required =
     (case options name of
        None \<Rightarrow>
          if required then Inl (BinderException ''FORMAT lerobot requires the option'') else Inr VNull
      | Some values \<Rightarrow>
          if length values \<noteq> 1 \<or> values ! 0 = VNull
          then Inl (BinderException ''FORMAT lerobot option requires exactly one non-NULL value'')
          else Inr (values ! 0))"

definition GetNumericOption :: "value_casts \<Rightarrow> copy_options \<Rightarrow> string \<Rightarrow> fp \<Rightarrow> fp result" where
  "GetNumericOption c options name default_value =
     bindE (GetSingleOption options name False) (\<lambda>value.
     if value = VNull then Inr default_value else cast_double c value)"

definition GetPositiveIndexOption :: "value_casts \<Rightarrow> copy_options \<Rightarrow> string \<Rightarrow> nat \<Rightarrow> nat result" where
  "GetPositiveIndexOption c options name default_value =
     bindE (GetSingleOption options name False) (\<lambda>option_value.
     if option_value = VNull then Inr default_value
     else
       bindE (cast_ubigint c option_value) (\<lambda>value.
       require (\<not> (value = 0 \<or> value > IDX_MAX)) ''must be a positive integer within the supported index range'' (
       Inr value)))"

text \<open>The \<open>if (!value.IsNull())\<close> blocks: an option that overwrites a field when it is given.\<close>

definition given :: "copy_options \<Rightarrow> string \<Rightarrow> (sqlvalue \<Rightarrow> 'a result) \<Rightarrow> 'a \<Rightarrow> 'a result" where
  "given options name read current =
     bindE (GetSingleOption options name False) (\<lambda>value.
     if value = VNull then Inr current else read value)"

section \<open>The required options\<close>

definition ParseLerobotCopyRequiredConfig :: "value_casts \<Rightarrow> copy_options \<Rightarrow> copy_config result" where
  "ParseLerobotCopyRequiredConfig c options =
     bindE (GetSingleOption options ''fps'' True) (\<lambda>fps_value.
     bindE (cast_bigint c fps_value) (\<lambda>fps.
     require (\<not> fps \<le> 0) ''LeRobot FPS must be positive'' (
     require (\<not> nat fps > IDX_MAX) ''LeRobot FPS is too large'' (
     bindE (GetSingleOption options ''features'' True) (\<lambda>features_value.
     bindE (cast_varchar c features_value) (\<lambda>features.
     Inr \<lparr>cc_fps = nat fps, chunks_size = 0, data_file_size_mb = Fin 0, video_file_size_mb = Fin 0,
          metadata_buffer_size = 0, max_visual_frame_bytes = 0, video_workers = 0, encoder_threads = 0,
          robot_type = '''', has_robot_type = False, features_json = features,
          encoding = default_encoding\<rparr>))))))"

section \<open>The optional options\<close>

definition LEROBOT_DEFAULT_CHUNK_SIZE :: nat where "LEROBOT_DEFAULT_CHUNK_SIZE = 1000"
definition LEROBOT_DEFAULT_DATA_FILE_SIZE_MB :: fp where "LEROBOT_DEFAULT_DATA_FILE_SIZE_MB = Fin 100"
definition LEROBOT_DEFAULT_VIDEO_FILE_SIZE_MB :: fp where "LEROBOT_DEFAULT_VIDEO_FILE_SIZE_MB = Fin 200"
definition LEROBOT_DEFAULT_METADATA_BUFFER_SIZE :: nat where "LEROBOT_DEFAULT_METADATA_BUFFER_SIZE = 10"
definition LEROBOT_DEFAULT_MAX_VISUAL_FRAME_BYTES :: nat where
  "LEROBOT_DEFAULT_MAX_VISUAL_FRAME_BYTES = 64 * 1024 * 1024"
definition LEROBOT_DEFAULT_VIDEO_WORKERS :: nat where "LEROBOT_DEFAULT_VIDEO_WORKERS = 4"
definition LEROBOT_DEFAULT_ENCODER_THREADS :: nat where "LEROBOT_DEFAULT_ENCODER_THREADS = 4"

lemmas option_defaults =
  LEROBOT_DEFAULT_CHUNK_SIZE_def LEROBOT_DEFAULT_DATA_FILE_SIZE_MB_def LEROBOT_DEFAULT_VIDEO_FILE_SIZE_MB_def
  LEROBOT_DEFAULT_METADATA_BUFFER_SIZE_def LEROBOT_DEFAULT_MAX_VISUAL_FRAME_BYTES_def
  LEROBOT_DEFAULT_VIDEO_WORKERS_def LEROBOT_DEFAULT_ENCODER_THREADS_def

definition parse_rgb_options :: "value_casts \<Rightarrow> copy_options \<Rightarrow> video_encoding \<Rightarrow> video_encoding result" where
  "parse_rgb_options c options enc =
     bindE (given options ''rgb_codec'' (\<lambda>value.
       bindE (cast_varchar c value) (\<lambda>codec.
       require (\<not> (codec \<noteq> ''libsvtav1'' \<and> codec \<noteq> ''libaom-av1''))
         ''LeRobot RGB_CODEC must be libsvtav1 or libaom-av1'' (
       Inr codec))) (rgb_codec enc)) (\<lambda>codec.
     bindE (GetNumericOption c options ''rgb_crf'' (Fin 30)) (\<lambda>crf.
     bindE (GetNumericOption c options ''rgb_gop'' (Fin 2)) (\<lambda>gop.
     require (\<not> (\<not> fis_finite crf \<or> flt crf (Fin 0) \<or> flt (Fin 63) crf \<or> \<not> feq (ffloor crf) crf))
       ''LeRobot RGB_CRF must be an integer between 0 and 63'' (
     require (\<not> (\<not> fis_finite gop \<or> flt gop (Fin 1) \<or> flt (Fin 2147483647) gop \<or> \<not> feq (ffloor gop) gop))
       ''LeRobot RGB_GOP must be a positive 32-bit integer'' (
     Inr (enc\<lparr>rgb_codec := codec, rgb_crf := to_int64 crf, rgb_gop := to_int64 gop\<rparr>))))))"

text \<open>One round of the loop over the metre and millimetre scales; the arithmetic is \<open>float\<close>.\<close>

definition float32_scale_ok :: "video_encoding \<Rightarrow> fp \<Rightarrow> bool" where
  "float32_scale_ok enc scale =
     (let low = to_float (dmul (enc_depth_min enc) scale);
          high = to_float (dmul (enc_depth_max enc) scale);
          shift = to_float (dmul (enc_depth_shift enc) scale)
      in \<not> (\<not> fis_finite low \<or> \<not> fis_finite high \<or> \<not> fis_finite shift \<or> \<not> flt low high \<or>
            (depth_use_log enc \<and>
              (\<not> flt (Fin 0) (sadd low shift) \<or> \<not> fis_finite (sadd high shift) \<or>
               \<not> flt (sadd low shift) (sadd high shift)))))"

definition depth_domain_ok :: "video_encoding \<Rightarrow> bool" where
  "depth_domain_ok enc =
     (\<not> (\<not> fis_finite (enc_depth_min enc) \<or> \<not> fis_finite (enc_depth_max enc) \<or>
         \<not> fis_finite (enc_depth_shift enc) \<or> flt (enc_depth_min enc) (Fin 0) \<or>
         fle (enc_depth_max enc) (enc_depth_min enc) \<or>
         (depth_use_log enc \<and> fle (dadd (enc_depth_min enc) (enc_depth_shift enc)) (Fin 0))))"

definition parse_depth_options ::
  "value_casts \<Rightarrow> (fp \<Rightarrow> fp) \<Rightarrow> copy_options \<Rightarrow> video_encoding \<Rightarrow> video_encoding result" where
  "parse_depth_options c log_d options enc0 =
     bindE (GetNumericOption c options ''depth_min'' (rnd64 (1 / 100))) (\<lambda>dmin.
     bindE (GetNumericOption c options ''depth_max'' (Fin 10)) (\<lambda>dmax.
     bindE (GetNumericOption c options ''depth_shift'' (Fin (7 / 2))) (\<lambda>dshift.
     bindE (GetSingleOption options ''depth_use_log'' False) (\<lambda>use_log_value.
     bindE (GetSingleOption options ''depth_clip'' False) (\<lambda>clip_value.
     bindE (if use_log_value = VNull then Inr (depth_use_log enc0) else cast_boolean c use_log_value) (\<lambda>use_log.
     bindE (if clip_value = VNull then Inr (depth_clip enc0) else cast_boolean c clip_value) (\<lambda>clip.
     let enc = enc0\<lparr>enc_depth_min := dmin, enc_depth_max := dmax, enc_depth_shift := dshift,
                   depth_use_log := use_log, depth_clip := clip\<rparr>
     in require (depth_domain_ok enc) ''LeRobot depth parameters require finite 0 <= DEPTH_MIN < DEPTH_MAX'' (
        require (LerobotValidFloat32DepthParameters log_d dmin dmax dshift use_log)
          ''LeRobot depth parameters are not representable for float32 dequantization'' (
        foldE (\<lambda>scale enc.
          require (float32_scale_ok enc scale)
            ''LeRobot depth parameters are not representable in float32 metres and millimetres'' (
          Inr enc)) [Fin 1, Fin 1000] enc)))))))))"

definition parse_file_limits :: "value_casts \<Rightarrow> copy_options \<Rightarrow> copy_config \<Rightarrow> copy_config result" where
  "parse_file_limits c options config =
     bindE (GetPositiveIndexOption c options ''chunks_size'' LEROBOT_DEFAULT_CHUNK_SIZE) (\<lambda>chunks.
     bindE (GetPositiveIndexOption c options ''metadata_buffer_size'' LEROBOT_DEFAULT_METADATA_BUFFER_SIZE) (\<lambda>buffer.
     bindE (GetNumericOption c options ''data_files_size_in_mb'' LEROBOT_DEFAULT_DATA_FILE_SIZE_MB) (\<lambda>data_mb.
     bindE (GetNumericOption c options ''video_files_size_in_mb'' LEROBOT_DEFAULT_VIDEO_FILE_SIZE_MB) (\<lambda>video_mb.
     require (\<not> (\<not> fis_finite data_mb \<or> \<not> fis_finite video_mb \<or> \<not> flt (Fin 0) data_mb \<or> \<not> flt (Fin 0) video_mb))
       ''LeRobot data and video file size limits must be positive'' (
     bindE (GetPositiveIndexOption c options ''max_visual_frame_bytes'' LEROBOT_DEFAULT_MAX_VISUAL_FRAME_BYTES)
       (\<lambda>frame_bytes.
     Inr (config\<lparr>chunks_size := chunks, metadata_buffer_size := buffer, data_file_size_mb := data_mb,
          video_file_size_mb := video_mb, max_visual_frame_bytes := frame_bytes\<rparr>)))))))"

definition thread_option :: "value_casts \<Rightarrow> copy_options \<Rightarrow> string \<Rightarrow> nat \<Rightarrow> nat \<Rightarrow> nat result" where
  "thread_option c options name host_threads current =
     given options name (\<lambda>v.
       bindE (cast_ubigint c v) (\<lambda>value.
       require (\<not> (value = 0 \<or> value > host_threads)) ''must be between 1 and the DuckDB thread limit'' (
       Inr value))) current"

text \<open>\<open>threads\<close> is \<open>context.db->NumberOfThreads()\<close>.\<close>

definition ParseLerobotCopyOptionalConfig ::
  "value_casts \<Rightarrow> (fp \<Rightarrow> fp) \<Rightarrow> nat \<Rightarrow> copy_options \<Rightarrow> copy_config \<Rightarrow> copy_config result" where
  "ParseLerobotCopyOptionalConfig c log_d threads options config0 =
     (let host_threads = max 1 threads;
          workers = min LEROBOT_DEFAULT_VIDEO_WORKERS host_threads;
          encoders = min LEROBOT_DEFAULT_ENCODER_THREADS host_threads
      in bindE (parse_rgb_options c options (encoding config0)) (\<lambda>enc1.
         bindE (parse_depth_options c log_d options enc1) (\<lambda>enc2.
         bindE (parse_file_limits c options (config0\<lparr>encoding := enc2\<rparr>)) (\<lambda>config.
         bindE (thread_option c options ''encoder_threads'' host_threads encoders) (\<lambda>encoder_threads_value.
         bindE (thread_option c options ''video_workers'' host_threads workers) (\<lambda>video_workers_value.
         bindE (given options ''robot_type'' (\<lambda>v. bindE (cast_varchar c v) (\<lambda>s. Inr (s, True)))
                  (robot_type config, has_robot_type config)) (\<lambda>(robot, has_robot).
         Inr (config\<lparr>encoder_threads := encoder_threads_value, video_workers := video_workers_value,
              robot_type := robot, has_robot_type := has_robot\<rparr>))))))))"

section \<open>The declared options\<close>

definition LerobotCopyOptionDefinitions :: "(string \<times> logical_type) list" where
  "LerobotCopyOptionDefinitions =
     [(''fps'', BIGINT), (''features'', VARCHAR), (''robot_type'', VARCHAR), (''chunks_size'', UBIGINT),
      (''data_files_size_in_mb'', DOUBLE), (''video_files_size_in_mb'', DOUBLE),
      (''metadata_buffer_size'', UBIGINT), (''max_visual_frame_bytes'', UBIGINT),
      (''video_workers'', UBIGINT), (''encoder_threads'', UBIGINT), (''rgb_codec'', VARCHAR),
      (''rgb_crf'', DOUBLE), (''rgb_gop'', DOUBLE), (''depth_min'', DOUBLE), (''depth_max'', DOUBLE),
      (''depth_shift'', DOUBLE), (''depth_use_log'', BOOLEAN), (''depth_clip'', BOOLEAN)]"

section \<open>What the checks guarantee\<close>

text \<open>
  The contract of a parsed configuration: what the writer, the encoder and the depth quantiser rely on.
  The depth range is usable at both scales: in \<open>float\<close> the interval is not empty and, for logarithmic
  quantisation, lies in the domain of the logarithm.
\<close>

definition encoding_ok :: "video_encoding \<Rightarrow> bool" where
  "encoding_ok enc \<longleftrightarrow>
     rgb_codec enc \<in> {'''', ''libsvtav1'', ''libaom-av1''} \<and>
     0 \<le> rgb_crf enc \<and> rgb_crf enc \<le> 63 \<and> 1 \<le> rgb_gop enc \<and> rgb_gop enc \<le> 2147483647 \<and>
     fle (Fin 0) (enc_depth_min enc) \<and> flt (enc_depth_min enc) (enc_depth_max enc) \<and>
     fis_finite (enc_depth_max enc) \<and>
     (depth_use_log enc \<longrightarrow> flt (Fin 0) (dadd (enc_depth_min enc) (enc_depth_shift enc))) \<and>
     float32_scale_ok enc (Fin 1) \<and> float32_scale_ok enc (Fin 1000)"

definition copy_config_ok :: "nat \<Rightarrow> copy_config \<Rightarrow> bool" where
  "copy_config_ok threads config \<longleftrightarrow>
     1 \<le> cc_fps config \<and> int (cc_fps config) \<le> INT64_MAX \<and>
     1 \<le> chunks_size config \<and> chunks_size config \<le> IDX_MAX \<and>
     1 \<le> metadata_buffer_size config \<and> metadata_buffer_size config \<le> IDX_MAX \<and>
     1 \<le> max_visual_frame_bytes config \<and> max_visual_frame_bytes config \<le> IDX_MAX \<and>
     fis_finite (data_file_size_mb config) \<and> flt (Fin 0) (data_file_size_mb config) \<and>
     fis_finite (video_file_size_mb config) \<and> flt (Fin 0) (video_file_size_mb config) \<and>
     1 \<le> video_workers config \<and> video_workers config \<le> max 1 threads \<and>
     1 \<le> encoder_threads config \<and> encoder_threads config \<le> max 1 threads \<and>
     encoding_ok (encoding config)"

lemma GetPositiveIndexOption_range:
  "GetPositiveIndexOption c options name d = Inr n \<Longrightarrow> 1 \<le> d \<Longrightarrow> d \<le> IDX_MAX \<Longrightarrow> 1 \<le> n \<and> n \<le> IDX_MAX"
  by (auto simp: GetPositiveIndexOption_def split: if_splits)

lemma thread_option_range:
  "thread_option c options name host d = Inr n \<Longrightarrow> 1 \<le> d \<Longrightarrow> d \<le> host \<Longrightarrow> 1 \<le> n \<and> n \<le> host"
  by (auto simp: thread_option_def given_def split: if_splits)

text \<open>A finite double equal to its floor and between two integers is cast to an integer between them.\<close>

lemma to_int64_between:
  assumes "fis_finite x" and "\<not> flt x (Fin (of_int a))" and "\<not> flt (Fin (of_int b)) x" and "feq (ffloor x) x"
  shows "a \<le> to_int64 x \<and> to_int64 x \<le> b"
proof -
  obtain r where x: "x = Fin r" using assms(1) by (cases x) (auto simp: fis_finite_def)
  from assms(4) have "(of_int \<lfloor>r\<rfloor> :: rat) = r" unfolding x feq_def ffloor.simps fp.inject by (rule conjunct2)
  then have r: "r = of_int \<lfloor>r\<rfloor>" by (rule sym)
  have "(of_int a :: rat) \<le> of_int \<lfloor>r\<rfloor>" "(of_int \<lfloor>r\<rfloor> :: rat) \<le> of_int b"
    using assms(2,3) r by (simp_all add: x not_less)
  then have "a \<le> \<lfloor>r\<rfloor>" "\<lfloor>r\<rfloor> \<le> b" by (simp_all only: of_int_le_iff)
  moreover have "to_int64 x = \<lfloor>r\<rfloor>" unfolding x by (subst r) (rule to_int64_of_int)
  ultimately show ?thesis by simp
qed

lemma parse_rgb_options_ok:
  assumes "parse_rgb_options c options enc = Inr enc'" and "rgb_codec enc = ''''"
  shows "rgb_codec enc' \<in> {'''', ''libsvtav1'', ''libaom-av1''} \<and>
    0 \<le> rgb_crf enc' \<and> rgb_crf enc' \<le> 63 \<and> 1 \<le> rgb_gop enc' \<and> rgb_gop enc' \<le> 2147483647"
proof -
  from assms(1) obtain codec crf gop where
    codec: "codec \<in> {rgb_codec enc, ''libsvtav1'', ''libaom-av1''}" and
    crf: "fis_finite crf" "\<not> flt crf (Fin 0)" "\<not> flt (Fin 63) crf" "feq (ffloor crf) crf" and
    gop: "fis_finite gop" "\<not> flt gop (Fin 1)" "\<not> flt (Fin 2147483647) gop" "feq (ffloor gop) gop" and
    enc': "enc' = enc\<lparr>rgb_codec := codec, rgb_crf := to_int64 crf, rgb_gop := to_int64 gop\<rparr>"
    unfolding parse_rgb_options_def given_def by (auto split: if_splits)
  show ?thesis
    using codec assms(2) to_int64_between [of crf 0 63] to_int64_between [of gop 1 2147483647] crf gop
    by (simp add: enc')
qed

lemma fp_not_le: "fis_finite x \<Longrightarrow> fis_finite y \<Longrightarrow> \<not> fle x y \<Longrightarrow> flt y x"
  by (cases x; cases y) (auto simp: fis_finite_def fle_def feq_def)

lemma parse_depth_options_ok:
  assumes "parse_depth_options c log_d options enc = Inr enc'"
  shows "rgb_codec enc' = rgb_codec enc \<and> rgb_crf enc' = rgb_crf enc \<and> rgb_gop enc' = rgb_gop enc \<and>
    depth_domain_ok enc' \<and> float32_scale_ok enc' (Fin 1) \<and> float32_scale_ok enc' (Fin 1000)"
proof -
  have loop: "foldE (\<lambda>scale enc. require (float32_scale_ok enc scale) m (Inr enc)) [a, b] e = Inr e' \<longleftrightarrow>
      float32_scale_ok e a \<and> float32_scale_ok e b \<and> e' = e" for m a b e e'
    by (auto simp: require_def)
  show ?thesis
    using assms unfolding parse_depth_options_def Let_def bindE_Inr_iff require_Inr_iff loop
    by (elim exE conjE) simp
qed

lemma parse_file_limits_fields:
  assumes "parse_file_limits c options config = Inr config'"
  obtains chunks buffer data_mb video_mb bytes where
    "GetPositiveIndexOption c options ''chunks_size'' LEROBOT_DEFAULT_CHUNK_SIZE = Inr chunks"
    "GetPositiveIndexOption c options ''metadata_buffer_size'' LEROBOT_DEFAULT_METADATA_BUFFER_SIZE = Inr buffer"
    "GetPositiveIndexOption c options ''max_visual_frame_bytes'' LEROBOT_DEFAULT_MAX_VISUAL_FRAME_BYTES = Inr bytes"
    "fis_finite data_mb" "flt (Fin 0) data_mb" "fis_finite video_mb" "flt (Fin 0) video_mb"
    "config' = config\<lparr>chunks_size := chunks, metadata_buffer_size := buffer, data_file_size_mb := data_mb,
       video_file_size_mb := video_mb, max_visual_frame_bytes := bytes\<rparr>"
  using assms unfolding parse_file_limits_def by auto

lemma dadd_positive:
  assumes "fis_finite x" and "fis_finite y" and "\<not> fle (dadd x y) (Fin 0)"
  shows "flt (Fin 0) (dadd x y)"
proof -
  have "dadd x y \<noteq> NaN"
    using assms(1,2) by (cases x; cases y) (auto simp: fis_finite_def dadd_def rnd64_def overflow_to_def)
  with assms(3) show ?thesis by (cases "dadd x y") (auto simp: fle_def feq_def)
qed

lemma parsed_encoding_ok:
  assumes "parse_rgb_options c options default_encoding = Inr enc1"
    and "parse_depth_options c log_d options enc1 = Inr enc2"
  shows "encoding_ok enc2"
proof -
  note rgb = parse_rgb_options_ok [OF assms(1)]
  note depth = parse_depth_options_ok [OF assms(2)]
  from depth have dom: "depth_domain_ok enc2" by blast
  then have "fis_finite (enc_depth_min enc2)" "fis_finite (enc_depth_max enc2)"
    "fle (Fin 0) (enc_depth_min enc2)" "flt (enc_depth_min enc2) (enc_depth_max enc2)"
    using fp_nonneg fp_not_le unfolding depth_domain_ok_def by blast+
  moreover have "depth_use_log enc2 \<longrightarrow> flt (Fin 0) (dadd (enc_depth_min enc2) (enc_depth_shift enc2))"
  proof
    assume log: "depth_use_log enc2"
    with dom have "fis_finite (enc_depth_min enc2)" "fis_finite (enc_depth_shift enc2)"
      "\<not> fle (dadd (enc_depth_min enc2) (enc_depth_shift enc2)) (Fin 0)"
      unfolding depth_domain_ok_def by blast+
    then show "flt (Fin 0) (dadd (enc_depth_min enc2) (enc_depth_shift enc2))"
      by (rule dadd_positive)
  qed
  ultimately show ?thesis
    using rgb depth by (simp add: encoding_ok_def default_encoding_def)
qed

lemma parsed_config_ok:
  assumes "casts_in_range c"
    and "ParseLerobotCopyRequiredConfig c options = Inr config0"
    and "ParseLerobotCopyOptionalConfig c log_d threads options config0 = Inr config"
  shows "copy_config_ok threads config"
proof -
  from assms(2) obtain v fps where fps: "cast_bigint c v = Inr fps" "\<not> fps \<le> 0" "cc_fps config0 = nat fps"
    and enc0: "encoding config0 = default_encoding"
    unfolding ParseLerobotCopyRequiredConfig_def by auto
  have f: "1 \<le> nat fps" "int (nat fps) \<le> INT64_MAX"
    using fps(1,2) assms(1) by (auto simp: casts_in_range_def is_int64_def)
  from assms(3) obtain enc1 enc2 config1 et vw rb where
    e: "parse_rgb_options c options default_encoding = Inr enc1" "parse_depth_options c log_d options enc1 = Inr enc2"
    and l: "parse_file_limits c options (config0\<lparr>encoding := enc2\<rparr>) = Inr config1"
    and t: "thread_option c options ''encoder_threads'' (max 1 threads)
              (min LEROBOT_DEFAULT_ENCODER_THREADS (max 1 threads)) = Inr et"
           "thread_option c options ''video_workers'' (max 1 threads)
              (min LEROBOT_DEFAULT_VIDEO_WORKERS (max 1 threads)) = Inr vw"
    and r: "config = config1\<lparr>encoder_threads := et, video_workers := vw, robot_type := fst rb,
              has_robot_type := snd rb\<rparr>"
    unfolding ParseLerobotCopyOptionalConfig_def Let_def bindE_Inr_iff enc0 by (auto split: prod.splits)
  have "1 \<le> et \<and> et \<le> max 1 threads" "1 \<le> vw \<and> vw \<le> max 1 threads"
    using t by (auto dest!: thread_option_range simp: option_defaults)
  moreover have "encoding_ok enc2" using e by (rule parsed_encoding_ok)
  ultimately have head: "1 \<le> cc_fps config" "int (cc_fps config) \<le> INT64_MAX"
    "1 \<le> video_workers config" "video_workers config \<le> max 1 threads" "1 \<le> encoder_threads config"
    "encoder_threads config \<le> max 1 threads" "encoding_ok (encoding config)"
    using f fps(3) r l by (auto elim: parse_file_limits_fields)
  from l show ?thesis
  proof (cases rule: parse_file_limits_fields)
    case (1 chunks buffer data_mb video_mb bytes)
    have "1 \<le> chunks \<and> chunks \<le> IDX_MAX" "1 \<le> buffer \<and> buffer \<le> IDX_MAX" "1 \<le> bytes \<and> bytes \<le> IDX_MAX"
      using 1(1-3) [THEN GetPositiveIndexOption_range] by (simp_all add: option_defaults IDX_MAX_def)
    then show ?thesis
      unfolding copy_config_ok_def using head 1(4-8) r by simp
  qed
qed

section \<open>Properties\<close>

text \<open>A \<open>COPY\<close> whose options both parsers accept has a usable configuration: a positive frame rate, chunk
  size, metadata buffer and frame limit, finite positive file sizes, between one and the host's number
  of threads for workers and encoders, a known codec, quality and group size in range, and a depth
  interval that is not empty and, with logarithms, inside their domain, in \<open>double\<close> and in \<open>float\<close>
  metres and millimetres.
\<close>
lemma copy_config_accepted:
  assumes "casts_in_range c"
    and "ParseLerobotCopyRequiredConfig c options = Inr config0"
    and "ParseLerobotCopyOptionalConfig c log_d threads options config0 = Inr config"
  shows "copy_config_ok threads config"
  using assms by (rule parsed_config_ok)

text \<open>The options \<open>FPS 30, FEATURES '...'\<close> on a host with eight threads.\<close>

definition example_casts :: value_casts where
  "example_casts = \<lparr>
     cast_bigint = (\<lambda>v. case v of VInt i \<Rightarrow> if is_int64 i then Inr i else Inl (ConversionException '''')
                          | _ \<Rightarrow> Inl (ConversionException '''')),
     cast_ubigint = (\<lambda>v. case v of VInt i \<Rightarrow> if 0 \<le> i \<and> nat i \<le> IDX_MAX then Inr (nat i) else Inl (ConversionException '''')
                          | _ \<Rightarrow> Inl (ConversionException '''')),
     cast_double = (\<lambda>v. case v of VInt i \<Rightarrow> Inr (int_to_double i) | VDouble d \<Rightarrow> Inr d | _ \<Rightarrow> Inl (ConversionException '''')),
     cast_varchar = (\<lambda>v. case v of VString s \<Rightarrow> Inr s | _ \<Rightarrow> Inl (ConversionException '''')),
     cast_boolean = (\<lambda>v. case v of VBool b \<Rightarrow> Inr b | _ \<Rightarrow> Inl (ConversionException ''''))\<rparr>"

definition example_copy_options :: copy_options where
  "example_copy_options = [''fps'' \<mapsto> [VInt 30], ''features'' \<mapsto> [VString ''[]''], ''depth_use_log'' \<mapsto> [VBool False],
     ''encoder_threads'' \<mapsto> [VInt 2]]"

lemma example_config:
  "\<exists>config0 config.
     ParseLerobotCopyRequiredConfig example_casts example_copy_options = Inr config0 \<and>
     ParseLerobotCopyOptionalConfig example_casts id 8 example_copy_options config0 = Inr config \<and>
     video_workers config = 4 \<and> encoder_threads config = 2 \<and> chunks_size config = 1000"
proof -
  note defs = GetSingleOption_def GetNumericOption_def GetPositiveIndexOption_def given_def require_def
    example_copy_options_def example_casts_def option_defaults
  have rgb: "parse_rgb_options example_casts example_copy_options default_encoding = Inr default_encoding"
    by (simp add: parse_rgb_options_def defs fis_finite_def feq_def) (simp add: default_encoding_def)
  let ?enc = "default_encoding\<lparr>depth_use_log := False\<rparr>"
  have checks: "depth_domain_ok ?enc" by code_simp
  have scales: "float32_scale_ok ?enc (Fin 1)" "float32_scale_ok ?enc (Fin 1000)" by code_simp+
  have quantiser: "LerobotValidFloat32DepthParameters id (rnd64 (1 / 100)) (Fin 10) (Fin (7 / 2)) False"
    by code_simp
  have enc: "default_encoding\<lparr>enc_depth_min := rnd64 (1 / 100), enc_depth_max := Fin 10,
      enc_depth_shift := Fin (7 / 2), depth_use_log := False, depth_clip := True\<rparr> = ?enc"
    "depth_clip default_encoding"
    by (simp_all add: default_encoding_def)
  have depth: "parse_depth_options example_casts id example_copy_options default_encoding = Inr ?enc"
    by (simp add: parse_depth_options_def defs checks scales quantiser enc)
  obtain config0 where p0: "ParseLerobotCopyRequiredConfig example_casts example_copy_options = Inr config0"
    "encoding config0 = default_encoding"
    by (simp add: ParseLerobotCopyRequiredConfig_def defs int64_defs IDX_MAX_def)
  have limits: "\<exists>config'. parse_file_limits example_casts example_copy_options config = Inr config' \<and>
      chunks_size config' = 1000" for config
    by (simp add: parse_file_limits_def defs fis_finite_def)
  have threads: "thread_option example_casts example_copy_options ''encoder_threads'' (max 1 8) n = Inr 2"
    "thread_option example_casts example_copy_options ''video_workers'' (max 1 8) n = Inr n" for n
    by (simp_all add: thread_option_def defs IDX_MAX_def)
  have robot: "given example_copy_options ''robot_type'' f x = Inr x" for f :: "sqlvalue \<Rightarrow> (string \<times> bool) result" and x
    by (simp add: defs)
  obtain config1 where l: "parse_file_limits example_casts example_copy_options
      (config0\<lparr>encoding := ?enc\<rparr>) = Inr config1" "chunks_size config1 = 1000"
    using limits by blast
  obtain config where p1: "ParseLerobotCopyOptionalConfig example_casts id 8 example_copy_options config0 = Inr config"
    "video_workers config = 4 \<and> encoder_threads config = 2 \<and> chunks_size config = 1000"
    by (simp add: ParseLerobotCopyOptionalConfig_def p0(2) rgb depth l threads [simplified] robot
        LEROBOT_DEFAULT_VIDEO_WORKERS_def)
  show ?thesis using p0(1) p1 by blast
qed

lemma copy_config_accepted_witness:
  "\<exists>config0 config.
     ParseLerobotCopyRequiredConfig example_casts example_copy_options = Inr config0 \<and>
     ParseLerobotCopyOptionalConfig example_casts id 8 example_copy_options config0 = Inr config \<and>
     copy_config_ok 8 config \<and> video_workers config = 4 \<and> encoder_threads config = 2 \<and> chunks_size config = 1000"
proof -
  have casts: "casts_in_range example_casts"
    by (auto simp: casts_in_range_def example_casts_def split: sqlvalue.splits if_splits)
  from example_config show ?thesis using copy_config_accepted [OF casts] by blast
qed

end
