(* ===== verification/NumericStats.thy ===== *)
theory NumericStats
  imports Schema
begin

text \<open>
  The view of a scanned numeric column from which statistics read their rows
  (\<open>src/function/copy/lerobot_numeric_stats.cpp\<close>): nested fixed-size arrays reached through selection
  vectors and validity masks, read in place. The reference definition is the tree of values a row of
  the column denotes, and its leaves from left to right.
\<close>

section \<open>Columns\<close>

datatype numeric = NBool bool | NInt int | NReal fp

text \<open>\<open>UnifiedVectorFormat\<close>: the selection vector and the validity mask of the selected entries.\<close>

record unified_format =
  get_index :: "nat \<Rightarrow> nat"
  RowIsValid :: "nat \<Rightarrow> bool"

text \<open>
  A DuckDB vector. \<open>ArrayVec\<close> is one of type \<open>ARRAY\<close>, with its size and child vector: entry \<open>i\<close> holds
  the entries \<open>i * size ..< (i + 1) * size\<close> of the child. \<open>LeafVec\<close> is a vector of any other type.
\<close>

datatype vec =
    ArrayVec unified_format nat vec
  | LeafVec logical_type unified_format "nat \<Rightarrow> numeric"

fun child_sizes_positive :: "vec \<Rightarrow> bool" where
  "child_sizes_positive (ArrayVec f n v) = (0 < n \<and> child_sizes_positive v)"
| "child_sizes_positive (LeafVec t f data) = True"

section \<open>The view\<close>

record level =
  level_data :: unified_format
  array_size :: nat

record stats_vector =
  levels :: "level list"
  leaf_values :: "nat \<Rightarrow> numeric"

text \<open>The types \<open>Initialize\<close> has a reader for.\<close>

definition has_reader :: "logical_type \<Rightarrow> bool" where
  "has_reader t \<longleftrightarrow>
     t \<in> {BOOLEAN, TINYINT, SMALLINT, INTEGER, BIGINT, UTINYINT, USMALLINT, UINTEGER, UBIGINT, FLOAT, DOUBLE}"

fun Initialize :: "vec \<Rightarrow> stats_vector result" where
  "Initialize (ArrayVec f n child) =
     bindE (Initialize child) (\<lambda>view. Inr (view\<lparr>levels := \<lparr>level_data = f, array_size = n\<rparr> # levels view\<rparr>))"
| "Initialize (LeafVec t f data) =
     (if has_reader t then Inr \<lparr>levels = [\<lparr>level_data = f, array_size = 0\<rparr>], leaf_values = data\<rparr>
      else Inl (InvalidInputException ''Unsupported LeRobot numeric statistics type''))"

section \<open>Reading\<close>

fun numeric_double :: "numeric \<Rightarrow> fp" where
  "numeric_double (NBool b) = Fin (if b then 1 else 0)"
| "numeric_double (NInt i) = int_to_double i"
| "numeric_double (NReal d) = d"

text \<open>The two output vectors; the second is there only when exact extrema are collected.\<close>

type_synonym stats_values = "fp list \<times> numeric list option"

definition null_value :: exn where
  "null_value = InvalidInputException ''LeRobot feature values must not be NULL''"

definition push_value :: "numeric \<Rightarrow> stats_values \<Rightarrow> stats_values" where
  "push_value v out = (fst out @ [numeric_double v], map_option (\<lambda>exact. exact @ [v]) (snd out))"

definition ReadNumericValues ::
  "unified_format \<Rightarrow> (nat \<Rightarrow> numeric) \<Rightarrow> nat \<Rightarrow> nat \<Rightarrow> stats_values \<Rightarrow> stats_values result" where
  "ReadNumericValues format data offset cnt out =
     foldE (\<lambda>i out.
       let index = get_index format (offset + i)
       in if \<not> RowIsValid format index then Inl null_value else Inr (push_value (data index) out))
     [0 ..< cnt] out"

fun AppendRange ::
  "(nat \<Rightarrow> numeric) \<Rightarrow> level list \<Rightarrow> nat \<Rightarrow> nat \<Rightarrow> stats_values \<Rightarrow> stats_values result" where
  "AppendRange data [] offset cnt out = Inl (InternalException ''vector index out of range'')"
| "AppendRange data (level # rest) offset cnt out =
     (if array_size level = 0 then ReadNumericValues (level_data level) data offset cnt out
      else
        foldE (\<lambda>i out.
          let index = get_index (level_data level) (offset + i)
          in if \<not> RowIsValid (level_data level) index then Inl null_value
             else AppendRange data rest (index * array_size level) (array_size level) out)
        [0 ..< cnt] out)"

definition AppendRow :: "stats_vector \<Rightarrow> nat \<Rightarrow> stats_values \<Rightarrow> stats_values result" where
  "AppendRow view row out = AppendRange (leaf_values view) (levels view) row 1 out"

section \<open>The reference: the tree of a row and its leaves\<close>

datatype tree = Null | Scalar numeric | Node "tree list"

fun value_at :: "vec \<Rightarrow> nat \<Rightarrow> tree" where
  "value_at (ArrayVec f n child) i =
     (let index = get_index f i
      in if RowIsValid f index then Node (map (value_at child) [index * n ..< index * n + n]) else Null)"
| "value_at (LeafVec t f data) i =
     (let index = get_index f i in if RowIsValid f index then Scalar (data index) else Null)"

fun concat_options :: "'a list option list \<Rightarrow> 'a list option" where
  "concat_options [] = Some []"
| "concat_options (x # xs) =
     (case x of None \<Rightarrow> None
      | Some ys \<Rightarrow> (case concat_options xs of None \<Rightarrow> None | Some zs \<Rightarrow> Some (ys @ zs)))"

fun tree_leaves :: "tree \<Rightarrow> numeric list option" where
  "tree_leaves Null = None"
| "tree_leaves (Scalar v) = Some [v]"
| "tree_leaves (Node ts) = concat_options (map tree_leaves ts)"

definition append_leaves :: "numeric list \<Rightarrow> stats_values \<Rightarrow> stats_values" where
  "append_leaves vs out = (fst out @ map numeric_double vs, map_option (\<lambda>exact. exact @ vs) (snd out))"

definition leaves_or_null :: "numeric list option \<Rightarrow> stats_values \<Rightarrow> stats_values result" where
  "leaves_or_null leaves out = (case leaves of None \<Rightarrow> Inl null_value | Some vs \<Rightarrow> Inr (append_leaves vs out))"

lemma append_leaves_Nil [simp]: "append_leaves [] out = out"
  by (cases out) (simp add: append_leaves_def option.map_ident)

lemma append_leaves_append: "append_leaves ws (append_leaves vs out) = append_leaves (vs @ ws) out"
  by (cases "snd out") (auto simp: append_leaves_def)

lemma foldE_leaves:
  assumes "\<And>x out. x \<in> set xs \<Longrightarrow> f x out = leaves_or_null (g x) out"
  shows "foldE f xs out = leaves_or_null (concat_options (map g xs)) out"
  using assms
proof (induction xs arbitrary: out)
  case (Cons x xs)
  then have "f x out = leaves_or_null (g x) out" "foldE f xs o' = leaves_or_null (concat_options (map g xs)) o'" for o'
    by auto
  then show ?case
    by (auto simp: leaves_or_null_def append_leaves_append split: option.splits)
qed (simp add: leaves_or_null_def)

lemma foldE_offset:
  "foldE (\<lambda>i. f (k + i)) [0 ..< n] out = foldE f [k ..< k + n] out"
  by (induction n arbitrary: out) (auto split: sum.splits)

lemma read_leaf:
  "ReadNumericValues f data offset cnt out =
     leaves_or_null (concat_options (map (\<lambda>i. tree_leaves (value_at (LeafVec t f data) i)) [offset ..< offset + cnt])) out"
proof -
  let ?step = "\<lambda>i out. let index = get_index f i
    in if \<not> RowIsValid f index then Inl null_value else Inr (push_value (data index) out)"
  have "ReadNumericValues f data offset cnt out = foldE ?step [offset ..< offset + cnt] out"
    unfolding ReadNumericValues_def by (rule foldE_offset)
  also have "\<dots> = leaves_or_null
      (concat_options (map (\<lambda>i. tree_leaves (value_at (LeafVec t f data) i)) [offset ..< offset + cnt])) out"
    by (rule foldE_leaves) (auto simp: Let_def leaves_or_null_def append_leaves_def push_value_def)
  finally show ?thesis .
qed

lemma AppendRange_leaves:
  assumes "Initialize v = Inr view" and "child_sizes_positive v"
  shows "AppendRange (leaf_values view) (levels view) offset cnt out =
    leaves_or_null (concat_options (map (\<lambda>i. tree_leaves (value_at v i)) [offset ..< offset + cnt])) out"
  using assms
proof (induction v arbitrary: view offset cnt out)
  case (ArrayVec f n child)
  from ArrayVec.prems obtain sub where sub: "Initialize child = Inr sub" "0 < n" "child_sizes_positive child"
    and view: "view = sub\<lparr>levels := \<lparr>level_data = f, array_size = n\<rparr> # levels sub\<rparr>"
    by auto
  let ?step = "\<lambda>i out. let index = get_index f i
    in if \<not> RowIsValid f index then Inl null_value
       else AppendRange (leaf_values sub) (levels sub) (index * n) n out"
  have "AppendRange (leaf_values view) (levels view) offset cnt out = foldE ?step [offset ..< offset + cnt] out"
    using sub(2) by (simp add: view foldE_offset [of ?step, symmetric] cong: if_cong)
  also have "\<dots> = leaves_or_null
      (concat_options (map (\<lambda>i. tree_leaves (value_at (ArrayVec f n child) i)) [offset ..< offset + cnt])) out"
    by (rule foldE_leaves)
       (auto simp: Let_def leaves_or_null_def [of None] ArrayVec.IH [OF sub(1,3)] comp_def)
  finally show ?case .
next
  case (LeafVec t f data)
  then show ?case by (auto simp: read_leaf [of f data _ _ _ t] split: if_splits)
qed

section \<open>Properties\<close>

text \<open>
  C37. A view that \<open>Initialize\<close> builds reads a row as the reference does: \<open>AppendRow\<close> appends the leaves of the
  row's tree in row-major order, each converted to \<open>double\<close>, and the same leaves unconverted where
  exact values are collected; a NULL anywhere in the row throws.
\<close>
theorem append_row_reads_leaves:
  assumes "Initialize v = Inr view" and "child_sizes_positive v"
  shows "AppendRow view row out =
    (case tree_leaves (value_at v row) of
       None \<Rightarrow> Inl null_value
     | Some leaves \<Rightarrow>
         Inr (fst out @ map numeric_double leaves, map_option (\<lambda>exact. exact @ leaves) (snd out)))"
  using AppendRange_leaves [OF assms, of row 1 out]
  by (auto simp: AppendRow_def leaves_or_null_def append_leaves_def split: option.splits)

text \<open>Rows of two pairs, selected backwards, of a column whose last child value is NULL.\<close>

definition example_vec :: vec where
  "example_vec =
     ArrayVec \<lparr>get_index = (\<lambda>i. 1 - i), RowIsValid = (\<lambda>i. True)\<rparr> 2
       (LeafVec INTEGER \<lparr>get_index = id, RowIsValid = (\<lambda>i. i \<noteq> 3)\<rparr> (\<lambda>i. NInt (int i)))"

theorem append_row_reads_leaves_witness:
  "\<exists>view. Initialize example_vec = Inr view \<and>
     AppendRow view 0 ([], None) = Inl null_value \<and>
     AppendRow view 1 ([], Some []) = Inr ([Fin 0, Fin 1], Some [NInt 0, NInt 1])"
proof -
  obtain view where v: "Initialize example_vec = Inr view"
    by (simp add: example_vec_def has_reader_def)
  have s: "child_sizes_positive example_vec" by (simp add: example_vec_def)
  have d: "int_to_double 0 = Fin 0" "int_to_double 1 = Fin 1"
    using int_to_double_exact [of 0] int_to_double_exact [of 1] by simp_all
  have "tree_leaves (value_at example_vec 0) = None"
    "tree_leaves (value_at example_vec 1) = Some [NInt 0, NInt 1]"
    by (simp_all add: example_vec_def upt_rec)
  then show ?thesis
    using append_row_reads_leaves [OF v s, of 0 "([], None)"]
      append_row_reads_leaves [OF v s, of 1 "([], Some [])"] v d
    by simp
qed

end
