(* ===== verification/CopyStats.thy ===== *)
theory CopyStats
  imports Schema
begin

text \<open>
  The statistics of a feature as the \<open>COPY\<close> writer computes them
  (\<open>src/function/copy/lerobot_copy.cpp\<close>): the two streaming passes over the rows of a feature (NumPy's
  pairwise sums with the extrema, then the histogram of 5000 bins), quantiles, the batches of 64
  dimensions, the aggregation of episodes into the dataset and the sampling of visual frames. The
  reference definitions work on one column of values at a time, without readers or batches.
\<close>

section \<open>Arithmetic in the type of the values\<close>

text \<open>The template parameter \<open>T\<close>: \<open>float\<close> or \<open>double\<close>.\<close>

datatype precision = F32 | F64

definition rnd_with :: "precision \<Rightarrow> rat \<Rightarrow> fp" where
  "rnd_with p = (case p of F32 \<Rightarrow> rnd32 | F64 \<Rightarrow> rnd64)"

text \<open>\<open>static_cast<T>\<close> of a double and of an integer.\<close>

definition fcast :: "precision \<Rightarrow> fp \<Rightarrow> fp" where
  "fcast p x = (case p of F32 \<Rightarrow> to_float x | F64 \<Rightarrow> x)"

definition of_idx :: "precision \<Rightarrow> nat \<Rightarrow> fp" where
  "of_idx p n = rnd_with p (of_nat n)"

definition tadd :: "precision \<Rightarrow> fp \<Rightarrow> fp \<Rightarrow> fp" where "tadd p = add_with (rnd_with p)"
definition tsub :: "precision \<Rightarrow> fp \<Rightarrow> fp \<Rightarrow> fp" where "tsub p x y = add_with (rnd_with p) x (fneg y)"
definition tmul :: "precision \<Rightarrow> fp \<Rightarrow> fp \<Rightarrow> fp" where "tmul p = mul_with (rnd_with p)"
definition tdiv :: "precision \<Rightarrow> fp \<Rightarrow> fp \<Rightarrow> fp" where "tdiv p = div_with (rnd_with p)"

definition MinValue :: "fp \<Rightarrow> fp \<Rightarrow> fp" where "MinValue a b = (if flt a b then a else b)"
definition MaxValue :: "fp \<Rightarrow> fp \<Rightarrow> fp" where "MaxValue a b = (if flt b a then a else b)"

section \<open>Readers\<close>

text \<open>
  \<open>LerobotStatsRowReader\<close>: what the remaining calls of \<open>Next\<close> give, a row of doubles with the exact
  values (the integers before conversion) or an exception. A reader factory gives its \<open>k\<close>-th
  reader on its \<open>k\<close>-th call.
\<close>

type_synonym stats_row = "fp list \<times> int list"
type_synonym stats_reader = "stats_row result list"
type_synonym reader_factory = "nat \<Rightarrow> stats_reader"

definition Next :: "stats_reader \<Rightarrow> (stats_row \<times> stats_reader) result" where
  "Next reader =
     (case reader of
        [] \<Rightarrow> Inl (InternalException ''LeRobot statistics reader advanced past the collection'')
      | Inl e # _ \<Rightarrow> Inl e
      | Inr row # rest \<Rightarrow> Inr (row, rest))"

record exact_extrema =
  ex_row :: "int list"
  ex_minimum :: "int list"
  ex_maximum :: "int list"

text \<open>What a pass over the rows carries: the reader, the exact extrema, and the extrema per dimension.\<close>

record pass_state =
  ps_reader :: stats_reader
  ps_exact :: "exact_extrema option"
  ps_minimum :: "fp list"
  ps_maximum :: "fp list"

definition merge_extrema :: "nat \<Rightarrow> int list \<Rightarrow> exact_extrema \<Rightarrow> exact_extrema result" where
  "merge_extrema w row x0 =
     (let x = x0\<lparr>ex_row := row\<rparr>
      in if length row \<noteq> w
         then Inl (InternalException ''LeRobot exact statistics width changed'')
         else if ex_minimum x = [] then Inr (x\<lparr>ex_minimum := row, ex_maximum := row\<rparr>)
         else if length (ex_minimum x) \<noteq> w \<or> length (ex_maximum x) \<noteq> w
         then Inl (InternalException ''LeRobot exact extrema width changed'')
         else Inr (x\<lparr>ex_minimum := map2 (\<lambda>r m. if r < m then r else m) row (ex_minimum x),
                    ex_maximum := map2 (\<lambda>r m. if m < r then r else m) row (ex_maximum x)\<rparr>))"

definition ReadStatsRow :: "nat \<Rightarrow> pass_state \<Rightarrow> (fp list \<times> pass_state) result" where
  "ReadStatsRow w st =
     bindE (Next (ps_reader st)) (\<lambda>((row, exact_row), rest).
     if length row \<noteq> w then Inl (InternalException ''LeRobot statistics width changed'')
     else
       (case ps_exact st of
          None \<Rightarrow> Inr (row, st\<lparr>ps_reader := rest\<rparr>)
        | Some x \<Rightarrow>
            bindE (merge_extrema w exact_row x) (\<lambda>x'.
            Inr (row, st\<lparr>ps_reader := rest, ps_exact := Some x'\<rparr>))))"

definition not_finite :: exn where
  "not_finite = InvalidInputException ''LeRobot numeric features cannot contain NaN or infinity''"

definition PrepareReductionValue :: "precision \<Rightarrow> fp \<Rightarrow> fp \<Rightarrow> fp \<Rightarrow> (fp \<times> fp \<times> fp) result" where
  "PrepareReductionValue p raw_value mn mx =
     (let value = fcast p raw_value
      in if \<not> fis_finite value then Inl not_finite else Inr (value, MinValue mn value, MaxValue mx value))"

text \<open>One row of a pass: it is read, and the values of the dimensions of the batch are prepared.\<close>

definition next_values ::
  "precision \<Rightarrow> nat \<Rightarrow> nat \<Rightarrow> nat \<Rightarrow> pass_state \<Rightarrow> (fp list \<times> pass_state) result" where
  "next_values p row_width off w st =
     bindE (ReadStatsRow row_width st) (\<lambda>(row, st').
     bindE (mapE (\<lambda>(raw, mn, mx). PrepareReductionValue p raw mn mx)
              (zip (take w (drop off row)) (zip (ps_minimum st') (ps_maximum st')))) (\<lambda>prepared.
     Inr (map fst prepared,
          st'\<lparr>ps_minimum := map (fst \<circ> snd) prepared, ps_maximum := map (snd \<circ> snd) prepared\<rparr>)))"

section \<open>Pairwise sums\<close>

type_synonym reduction_totals = "fp list \<times> fp list"

definition squares :: "precision \<Rightarrow> fp list \<Rightarrow> fp list" where
  "squares p values = map (\<lambda>v. tmul p v v) values"

definition add_values :: "precision \<Rightarrow> reduction_totals \<Rightarrow> fp list \<Rightarrow> reduction_totals" where
  "add_values p totals values =
     (map2 (tadd p) (fst totals) values, map2 (tadd p) (snd totals) (squares p values))"

primrec add_rows ::
  "precision \<Rightarrow> nat \<Rightarrow> nat \<Rightarrow> nat \<Rightarrow> nat \<Rightarrow> reduction_totals \<Rightarrow> pass_state \<Rightarrow>
     (reduction_totals \<times> pass_state) result" where
  "add_rows p row_width off w 0 totals st = Inr (totals, st)"
| "add_rows p row_width off w (Suc n) totals st =
     bindE (next_values p row_width off w st) (\<lambda>(values, st').
     add_rows p row_width off w n (add_values p totals values) st')"

text \<open>The first eight rows fill the accumulators, later groups of eight are added to them in order.\<close>

primrec fill_accumulators ::
  "precision \<Rightarrow> nat \<Rightarrow> nat \<Rightarrow> nat \<Rightarrow> nat \<Rightarrow> pass_state \<Rightarrow> (reduction_totals list \<times> pass_state) result" where
  "fill_accumulators p row_width off w 0 st = Inr ([], st)"
| "fill_accumulators p row_width off w (Suc n) st =
     bindE (next_values p row_width off w st) (\<lambda>(values, st').
     bindE (fill_accumulators p row_width off w n st') (\<lambda>(accs, st'').
     Inr ((values, squares p values) # accs, st'')))"

fun add_to_accumulators ::
  "precision \<Rightarrow> nat \<Rightarrow> nat \<Rightarrow> nat \<Rightarrow> reduction_totals list \<Rightarrow> pass_state \<Rightarrow>
     (reduction_totals list \<times> pass_state) result" where
  "add_to_accumulators p row_width off w [] st = Inr ([], st)"
| "add_to_accumulators p row_width off w (acc # accs) st =
     bindE (next_values p row_width off w st) (\<lambda>(values, st').
     bindE (add_to_accumulators p row_width off w accs st') (\<lambda>(accs', st'').
     Inr (add_values p acc values # accs', st'')))"

primrec add_groups ::
  "precision \<Rightarrow> nat \<Rightarrow> nat \<Rightarrow> nat \<Rightarrow> nat \<Rightarrow> reduction_totals list \<Rightarrow> pass_state \<Rightarrow>
     (reduction_totals list \<times> pass_state) result" where
  "add_groups p row_width off w 0 accs st = Inr (accs, st)"
| "add_groups p row_width off w (Suc n) accs st =
     bindE (add_to_accumulators p row_width off w accs st) (\<lambda>(accs', st').
     add_groups p row_width off w n accs' st')"

text \<open>NumPy's order of collapsing the eight accumulators.\<close>

definition collapse8 :: "(fp \<Rightarrow> fp \<Rightarrow> fp) \<Rightarrow> fp list \<Rightarrow> fp" where
  "collapse8 add a =
     (let sum_01 = add (a ! 0) (a ! 1); sum_23 = add (a ! 2) (a ! 3);
          sum_45 = add (a ! 4) (a ! 5); sum_67 = add (a ! 6) (a ! 7);
          sum_0123 = add sum_01 sum_23; sum_4567 = add sum_45 sum_67
      in add sum_0123 sum_4567)"

definition collapse_accumulators :: "precision \<Rightarrow> nat \<Rightarrow> reduction_totals list \<Rightarrow> reduction_totals" where
  "collapse_accumulators p w accs =
     (map (\<lambda>d. collapse8 (tadd p) (map (\<lambda>acc. fst acc ! d) accs)) [0 ..< w],
      map (\<lambda>d. collapse8 (tadd p) (map (\<lambda>acc. snd acc ! d) accs)) [0 ..< w])"

definition zero_totals :: "nat \<Rightarrow> reduction_totals" where
  "zero_totals w = (replicate w (Fin 0), replicate w (Fin 0))"

function NumpyPairwiseStats ::
  "precision \<Rightarrow> nat \<Rightarrow> nat \<Rightarrow> nat \<Rightarrow> nat \<Rightarrow> pass_state \<Rightarrow> (reduction_totals \<times> pass_state) result" where
  "NumpyPairwiseStats p row_width off w cnt st =
     (if cnt < 8 then add_rows p row_width off w cnt (zero_totals w) st
      else if cnt \<le> 128 then
        bindE (fill_accumulators p row_width off w 8 st) (\<lambda>(accs, st1).
        bindE (add_groups p row_width off w (cnt div 8 - 1) accs st1) (\<lambda>(accs', st2).
        add_rows p row_width off w (cnt mod 8) (collapse_accumulators p w accs') st2))
      else
        let left_count = cnt div 2 - cnt div 2 mod 8
        in bindE (NumpyPairwiseStats p row_width off w left_count st) (\<lambda>(left, st1).
           bindE (NumpyPairwiseStats p row_width off w (cnt - left_count) st1) (\<lambda>(right, st2).
           Inr ((map2 (tadd p) (fst left) (fst right), map2 (tadd p) (snd left) (snd right)), st2))))"
  by auto

text \<open>Both halves of a block of more than 128 rows are smaller than it, and neither is empty.\<close>

lemma pairwise_halves:
  fixes cnt :: nat
  assumes "128 < cnt"
  shows "cnt div 2 - cnt div 2 mod 8 < cnt" and "0 < cnt div 2 - cnt div 2 mod 8"
proof -
  have "64 \<le> cnt div 2" "cnt div 2 mod 8 < 8" using assms by auto
  then show "0 < cnt div 2 - cnt div 2 mod 8" by linarith
  show "cnt div 2 - cnt div 2 mod 8 < cnt" using assms by linarith
qed

termination NumpyPairwiseStats
  by (relation "measure (\<lambda>(p, row_width, off, w, cnt, st). cnt)")
     (auto simp: not_le intro: pairwise_halves)

declare NumpyPairwiseStats.simps [simp del]

section \<open>Histogram and quantiles\<close>

definition LEROBOT_QUANTILE_BIN_COUNT :: nat where "LEROBOT_QUANTILE_BIN_COUNT = 5000"
definition LEROBOT_STATS_DIMENSION_BATCH_SIZE :: nat where "LEROBOT_STATS_DIMENSION_BATCH_SIZE = 64"

text \<open>The constant \<open>1e-10\<close>.\<close>

definition edge_margin :: "precision \<Rightarrow> fp" where
  "edge_margin p = fcast p (rnd64 (1 / 10000000000))"

definition histogram_edges :: "precision \<Rightarrow> fp \<Rightarrow> fp \<Rightarrow> fp list" where
  "histogram_edges p mn mx =
     (let low = tsub p (fcast p mn) (edge_margin p);
          high = tadd p (fcast p mx) (edge_margin p);
          step = tdiv p (tsub p high low) (of_idx p LEROBOT_QUANTILE_BIN_COUNT)
      in map (\<lambda>index. tadd p (tmul p (of_idx p index) step) low) [0 ..< LEROBOT_QUANTILE_BIN_COUNT] @ [high])"

text \<open>\<open>std::upper_bound\<close>: the binary search between \<open>first\<close> and \<open>first + n\<close>.\<close>

function upper_bound_loop :: "fp list \<Rightarrow> fp \<Rightarrow> nat \<Rightarrow> nat \<Rightarrow> nat" where
  "upper_bound_loop edges v first n =
     (if n = 0 then first
      else
        let half = n div 2; mid = first + half
        in if flt v (edges ! mid) then upper_bound_loop edges v first half
           else upper_bound_loop edges v (mid + 1) (n - half - 1))"
  by auto

termination upper_bound_loop
  by (relation "measure (\<lambda>(edges, v, first, n). n)") auto

declare upper_bound_loop.simps [simp del]

definition upper_bound :: "fp list \<Rightarrow> fp \<Rightarrow> nat" where
  "upper_bound edges v = upper_bound_loop edges v 0 (length edges)"

definition histogram_bin :: "fp list \<Rightarrow> fp \<Rightarrow> nat" where
  "histogram_bin edges v =
     (let position = upper_bound edges v
      in if position = 0 then 0
         else if position = length edges then LEROBOT_QUANTILE_BIN_COUNT - 1
         else position - 1)"

definition count_value :: "fp list \<Rightarrow> nat list \<Rightarrow> fp \<Rightarrow> nat list" where
  "count_value edges counts v = (let bin = histogram_bin edges v in counts[bin := counts ! bin + 1])"

primrec histogram_rows ::
  "precision \<Rightarrow> nat \<Rightarrow> nat \<Rightarrow> nat \<Rightarrow> fp list list \<Rightarrow> nat \<Rightarrow> nat list list \<Rightarrow> pass_state \<Rightarrow>
     nat list list result" where
  "histogram_rows p row_width off w edges 0 counts st = Inr counts"
| "histogram_rows p row_width off w edges (Suc n) counts st =
     bindE (ReadStatsRow row_width st) (\<lambda>(row, st').
     bindE (mapE (\<lambda>raw. let value = fcast p raw in if \<not> fis_finite value then Inl not_finite else Inr value)
              (take w (drop off row))) (\<lambda>values.
     histogram_rows p row_width off w edges n
       (map (\<lambda>(edge, hist, v). count_value edge hist v) (zip edges (zip counts values))) st'))"

text \<open>A pass without exact extrema; those per dimension start at the infinities.\<close>

definition new_pass :: "stats_reader \<Rightarrow> exact_extrema option \<Rightarrow> nat \<Rightarrow> pass_state" where
  "new_pass reader exact w = \<lparr>ps_reader = reader, ps_exact = exact, ps_minimum = replicate w PInf,
     ps_maximum = replicate w NInf\<rparr>"

definition count_changed :: exn where
  "count_changed = InternalException ''LeRobot statistics reader count changed''"

definition BuildHistogram ::
  "precision \<Rightarrow> stats_reader \<Rightarrow> nat \<Rightarrow> nat \<Rightarrow> nat \<Rightarrow> nat \<Rightarrow> fp list \<Rightarrow> fp list \<Rightarrow>
     (nat list list \<times> fp list list) result" where
  "BuildHistogram p reader row_width off w cnt minimum maximum =
     (let edges = map2 (histogram_edges p) minimum maximum;
          counts = replicate w (replicate LEROBOT_QUANTILE_BIN_COUNT 0)
      in if length reader \<noteq> cnt then Inl count_changed
         else bindE (histogram_rows p row_width off w edges cnt counts (new_pass reader None w)) (\<lambda>counts'.
              Inr (counts', edges)))"

text \<open>
  \<open>HistogramQuantile\<close>: the loop over the bins with the cumulative count; the second result is
  \<open>is_float32_result\<close>.
\<close>

fun quantile_bins ::
  "precision \<Rightarrow> nat list \<Rightarrow> fp list \<Rightarrow> fp \<Rightarrow> bool \<Rightarrow> nat \<Rightarrow> nat \<Rightarrow> fp \<times> bool" where
  "quantile_bins p [] edges target use_float32 bin cumulative = (last edges, use_float32)"
| "quantile_bins p (h # hs) edges target use_float32 bin before =
     (let cumulative = before + h
      in if flt (int_to_double (int cumulative)) target
         then quantile_bins p hs edges target use_float32 (bin + 1) cumulative
         else if bin = 0 \<or> h = 0 then (edges ! bin, use_float32)
         else
           let fraction = ddiv (dsub target (int_to_double (int before))) (int_to_double (int h));
               bin_width = tsub p (edges ! (bin + 1)) (edges ! bin);
               interpolation = dmul fraction bin_width
           in (dadd (edges ! bin) interpolation, False))"

definition HistogramQuantile ::
  "precision \<Rightarrow> nat list \<Rightarrow> fp list \<Rightarrow> nat \<Rightarrow> fp \<Rightarrow> bool \<Rightarrow> fp \<times> bool" where
  "HistogramQuantile p histogram edges cnt quantile use_float32 =
     quantile_bins p histogram edges (dmul quantile (int_to_double (int cnt))) use_float32 0 0"

section \<open>The statistics of a feature\<close>

record feature_stats =
  fs_min :: "fp list"
  fs_max :: "fp list"
  integer_min :: "int list"
  integer_max :: "int list"
  fs_mean :: "fp list"
  fs_stddev :: "fp list"
  q01 :: "fp list"
  q10 :: "fp list"
  q50 :: "fp list"
  q90 :: "fp list"
  q99 :: "fp list"
  q01_is_float32 :: bool
  q10_is_float32 :: bool
  q50_is_float32 :: bool
  q90_is_float32 :: bool
  q99_is_float32 :: bool
  stddev_is_float32 :: bool
  fs_count :: nat

definition new_stats :: "nat \<Rightarrow> bool \<Rightarrow> feature_stats" where
  "new_stats output_count use_float32 =
     \<lparr>fs_min = [], fs_max = [], integer_min = [], integer_max = [], fs_mean = [], fs_stddev = [],
      q01 = [], q10 = [], q50 = [], q90 = [], q99 = [],
      q01_is_float32 = use_float32, q10_is_float32 = use_float32, q50_is_float32 = use_float32,
      q90_is_float32 = use_float32, q99_is_float32 = use_float32, stddev_is_float32 = use_float32,
      fs_count = output_count\<rparr>"

text \<open>\<open>sqrt_t\<close> is \<open>std::sqrt\<close> in the type of the values.\<close>

definition mean_stddev :: "(precision \<Rightarrow> fp \<Rightarrow> fp) \<Rightarrow> precision \<Rightarrow> nat \<Rightarrow> fp \<Rightarrow> fp \<Rightarrow> fp \<times> fp" where
  "mean_stddev sqrt_t p cnt value_sum square_sum =
     (let mean = tdiv p value_sum (of_idx p cnt);
          average_square = tdiv p square_sum (of_idx p cnt);
          squared_mean = tmul p mean mean;
          variance = MaxValue (Fin 0) (tsub p average_square squared_mean)
      in (mean, sqrt_t p variance))"

definition append_single :: "bool \<Rightarrow> fp list \<Rightarrow> feature_stats \<Rightarrow> feature_stats" where
  "append_single preserve values stats =
     (let s = (if preserve then stats else stats\<lparr>fs_min := fs_min stats @ values, fs_max := fs_max stats @ values\<rparr>)
      in s\<lparr>fs_mean := fs_mean s @ values, fs_stddev := fs_stddev s @ replicate (length values) (Fin 0),
           q01 := q01 s @ values, q10 := q10 s @ values, q50 := q50 s @ values, q90 := q90 s @ values,
           q99 := q99 s @ values\<rparr>)"

definition append_moments ::
  "(precision \<Rightarrow> fp \<Rightarrow> fp) \<Rightarrow> precision \<Rightarrow> bool \<Rightarrow> nat \<Rightarrow> reduction_totals \<Rightarrow> pass_state \<Rightarrow>
     feature_stats \<Rightarrow> feature_stats" where
  "append_moments sqrt_t p preserve cnt totals st stats =
     (let s = (if preserve then stats
               else stats\<lparr>fs_min := fs_min stats @ ps_minimum st, fs_max := fs_max stats @ ps_maximum st\<rparr>);
          moments = map2 (mean_stddev sqrt_t p cnt) (fst totals) (snd totals)
      in s\<lparr>fs_mean := fs_mean s @ map fst moments, fs_stddev := fs_stddev s @ map snd moments\<rparr>)"

definition append_quantiles ::
  "precision \<Rightarrow> bool \<Rightarrow> nat \<Rightarrow> nat list list \<times> fp list list \<Rightarrow> feature_stats \<Rightarrow> feature_stats" where
  "append_quantiles p use_float32 cnt histogram s =
     (let quantiles = (\<lambda>q. map2 (\<lambda>hist edges. HistogramQuantile p hist edges cnt (rnd64 q) use_float32)
            (fst histogram) (snd histogram))
      in s\<lparr>q01 := q01 s @ map fst (quantiles (1 / 100)), q10 := q10 s @ map fst (quantiles (1 / 10)),
           q50 := q50 s @ map fst (quantiles (1 / 2)), q90 := q90 s @ map fst (quantiles (9 / 10)),
           q99 := q99 s @ map fst (quantiles (99 / 100)),
           q01_is_float32 := q01_is_float32 s \<and> (\<forall>r \<in> set (quantiles (1 / 100)). snd r),
           q10_is_float32 := q10_is_float32 s \<and> (\<forall>r \<in> set (quantiles (1 / 10)). snd r),
           q50_is_float32 := q50_is_float32 s \<and> (\<forall>r \<in> set (quantiles (1 / 2)). snd r),
           q90_is_float32 := q90_is_float32 s \<and> (\<forall>r \<in> set (quantiles (9 / 10)). snd r),
           q99_is_float32 := q99_is_float32 s \<and> (\<forall>r \<in> set (quantiles (99 / 100)). snd r)\<rparr>)"

text \<open>
  One batch of dimensions from \<open>off\<close>: \<open>k\<close> counts the calls of the factory, \<open>exact\<close> are the extrema of
  the integers, which the first batch collects for all dimensions.
\<close>

definition stats_batch ::
  "(precision \<Rightarrow> fp \<Rightarrow> fp) \<Rightarrow> precision \<Rightarrow> reader_factory \<Rightarrow> nat \<Rightarrow> nat \<Rightarrow> bool \<Rightarrow> bool \<Rightarrow> nat \<Rightarrow> nat \<Rightarrow>
     exact_extrema \<Rightarrow> feature_stats \<Rightarrow> (feature_stats \<times> exact_extrema \<times> nat) result" where
  "stats_batch sqrt_t p factory w cnt use_float32 preserve off k exact stats =
     (let batch_width = min LEROBOT_STATS_DIMENSION_BATCH_SIZE (w - off);
          reader = factory k;
          collect = preserve \<and> off = 0;
          st = new_pass reader (if collect then Some exact else None) batch_width;
          kept = (\<lambda>st'. if collect then the (ps_exact st') else exact)
      in if length reader \<noteq> cnt then Inl count_changed
         else if cnt = 1 then
           bindE (next_values p w off batch_width st) (\<lambda>(values, st').
           Inr (append_single preserve values stats, kept st', k + 1))
         else
           bindE (NumpyPairwiseStats p w off batch_width cnt st) (\<lambda>(totals, st').
           bindE (BuildHistogram p (factory (k + 1)) w off batch_width cnt (ps_minimum st') (ps_maximum st'))
             (\<lambda>histogram.
           Inr (append_quantiles p use_float32 cnt histogram (append_moments sqrt_t p preserve cnt totals st' stats),
                kept st', k + 2))))"

function stats_batches ::
  "(precision \<Rightarrow> fp \<Rightarrow> fp) \<Rightarrow> precision \<Rightarrow> reader_factory \<Rightarrow> nat \<Rightarrow> nat \<Rightarrow> bool \<Rightarrow> bool \<Rightarrow> nat \<Rightarrow> nat \<Rightarrow>
     exact_extrema \<Rightarrow> feature_stats \<Rightarrow> (feature_stats \<times> exact_extrema) result" where
  "stats_batches sqrt_t p factory w cnt use_float32 preserve off k exact stats =
     (if off < w
      then
        (case stats_batch sqrt_t p factory w cnt use_float32 preserve off k exact stats of
           Inl e \<Rightarrow> Inl e
         | Inr (stats', exact', k') \<Rightarrow>
             stats_batches sqrt_t p factory w cnt use_float32 preserve
               (off + min LEROBOT_STATS_DIMENSION_BATCH_SIZE (w - off)) k' exact' stats')
      else Inr (stats, exact))"
  by auto

termination stats_batches
  by (relation "measure (\<lambda>(sqrt_t, p, factory, w, cnt, use_float32, preserve, off, k, exact, stats). w - off)")
     (auto simp: LEROBOT_STATS_DIMENSION_BATCH_SIZE_def)

declare stats_batches.simps [simp del]

definition ComputeStatsTyped ::
  "(precision \<Rightarrow> fp \<Rightarrow> fp) \<Rightarrow> precision \<Rightarrow> reader_factory \<Rightarrow> nat \<Rightarrow> nat \<Rightarrow> bool \<Rightarrow> bool \<Rightarrow> feature_stats result" where
  "ComputeStatsTyped sqrt_t p factory w output_count use_float32 preserve =
     (if w = 0 \<or> output_count = 0
      then Inl (InternalException ''Cannot compute empty LeRobot feature statistics'')
      else
        let cnt = length (factory 0)
        in if cnt = 0 \<or> int cnt > INT64_MAX
           then Inl (InternalException ''LeRobot statistics value count is empty or too large'')
           else
             bindE (stats_batches sqrt_t p factory w cnt use_float32 preserve 0 1
                 \<lparr>ex_row = [], ex_minimum = [], ex_maximum = []\<rparr> (new_stats output_count use_float32))
               (\<lambda>(stats, exact).
             if \<not> preserve then Inr stats
             else if length (ex_minimum exact) \<noteq> w \<or> length (ex_maximum exact) \<noteq> w
             then Inl (InternalException ''LeRobot integer extrema did not cover the feature width'')
             else Inr (stats\<lparr>integer_min := ex_minimum exact, integer_max := ex_maximum exact\<rparr>)))"

text \<open>A feature of the dataset being written; the two indices are absent until the binding sets them.\<close>

record copy_feature =
  cf_name :: string
  cf_dtype :: string
  cf_json :: string
  names_json :: string
  cf_shape :: "nat list"
  storage_type :: logical_type
  output_type :: logical_type
  input_index :: "nat option"
  output_index :: "nat option"
  user_defined :: bool
  is_string :: bool
  is_image :: bool
  is_video :: bool
  is_depth :: bool

definition HasStatistics :: "copy_feature \<Rightarrow> bool" where
  "HasStatistics feature \<longleftrightarrow> \<not> is_string feature"

definition UsesFloat32Statistics :: "copy_feature \<Rightarrow> bool" where
  "UsesFloat32Statistics feature =
     (if \<not> user_defined feature \<and> cf_name feature = ''timestamp'' then False
      else is_image feature \<or> is_video feature \<or>
           cf_dtype feature \<in> {''float32'', ''int8'', ''int16'', ''uint8'', ''uint16'', ''bool''})"

definition HasIntegerExtrema :: "copy_feature \<Rightarrow> bool result" where
  "HasIntegerExtrema feature = LerobotHasIntegerExtrema (cf_dtype feature)"

definition ComputeStats ::
  "(precision \<Rightarrow> fp \<Rightarrow> fp) \<Rightarrow> reader_factory \<Rightarrow> nat \<Rightarrow> nat \<Rightarrow> copy_feature \<Rightarrow> feature_stats result" where
  "ComputeStats sqrt_t factory w output_count feature =
     bindE (HasIntegerExtrema feature) (\<lambda>preserve.
     if UsesFloat32Statistics feature
     then ComputeStatsTyped sqrt_t F32 factory w output_count True preserve
     else ComputeStatsTyped sqrt_t F64 factory w output_count False preserve)"

section \<open>Aggregation over the episodes\<close>

definition stddev_square :: "bool \<Rightarrow> fp \<Rightarrow> fp" where
  "stddev_square is_float32 s = (if is_float32 then smul (to_float s) (to_float s) else dmul s s)"

definition merge_moments :: "feature_stats \<Rightarrow> feature_stats \<Rightarrow> (fp \<times> fp) \<times> (fp \<times> fp) \<Rightarrow> fp \<times> fp" where
  "merge_moments target source = (\<lambda>((target_mean, target_std), (source_mean, source_std)).
     let target_count = int_to_double (int (fs_count target));
         source_count = int_to_double (int (fs_count source));
         total_count = dadd target_count source_count;
         weighted_mean_sum = dadd (dmul target_mean target_count) (dmul source_mean source_count);
         total_mean = ddiv weighted_mean_sum total_count;
         target_delta = dsub target_mean total_mean;
         source_delta = dsub source_mean total_mean;
         target_variance = stddev_square (stddev_is_float32 target) target_std;
         source_variance = stddev_square (stddev_is_float32 source) source_std;
         target_component = dadd target_variance (dmul target_delta target_delta);
         source_component = dadd source_variance (dmul source_delta source_delta);
         weighted_variance_sum = dadd (dmul target_component target_count) (dmul source_component source_count)
     in (total_mean, ddiv weighted_variance_sum total_count))"

definition MergeStats ::
  "(fp \<Rightarrow> fp) \<Rightarrow> feature_stats \<Rightarrow> feature_stats \<Rightarrow> bool \<Rightarrow> feature_stats result" where
  "MergeStats sqrt_d target source has_integer_extrema =
     (if fs_count target = 0 then Inr source
      else if length (fs_mean target) \<noteq> length (fs_mean source)
      then Inl (InternalException ''LeRobot dataset statistics width changed'')
      else if has_integer_extrema \<and>
        (fs_min target \<noteq> [] \<or> fs_max target \<noteq> [] \<or> fs_min source \<noteq> [] \<or> fs_max source \<noteq> [] \<or>
         length (integer_min target) \<noteq> length (fs_mean target) \<or> length (integer_max target) \<noteq> length (fs_mean target) \<or>
         length (integer_min source) \<noteq> length (fs_mean source) \<or> length (integer_max source) \<noteq> length (fs_mean source))
      then Inl (InternalException ''LeRobot dataset integer extrema width changed'')
      else if \<not> has_integer_extrema \<and>
        (integer_min target \<noteq> [] \<or> integer_max target \<noteq> [] \<or> integer_min source \<noteq> [] \<or> integer_max source \<noteq> [] \<or>
         length (fs_min target) \<noteq> length (fs_mean target) \<or> length (fs_max target) \<noteq> length (fs_mean target) \<or>
         length (fs_min source) \<noteq> length (fs_mean source) \<or> length (fs_max source) \<noteq> length (fs_mean source))
      then Inl (InternalException ''LeRobot dataset floating extrema width changed'')
      else
        let moments = map (merge_moments target source)
              (zip (zip (fs_mean target) (fs_stddev target)) (zip (fs_mean source) (fs_stddev source)));
            t = (if has_integer_extrema
                 then target\<lparr>integer_min := map2 (\<lambda>s t. if s < t then s else t) (integer_min source) (integer_min target),
                             integer_max := map2 (\<lambda>s t. if t < s then s else t) (integer_max source) (integer_max target)\<rparr>
                 else target\<lparr>fs_min := map2 MinValue (fs_min target) (fs_min source),
                             fs_max := map2 MaxValue (fs_max target) (fs_max source)\<rparr>)
        in Inr (t\<lparr>fs_mean := map fst moments,
                  fs_stddev := map (\<lambda>m. sqrt_d (MaxValue (Fin 0) (snd m))) moments,
                  q01 := map2 MinValue (q01 target) (q01 source), q10 := map2 MinValue (q10 target) (q10 source),
                  q50 := map2 MinValue (q50 target) (q50 source), q90 := map2 MaxValue (q90 target) (q90 source),
                  q99 := map2 MaxValue (q99 target) (q99 source),
                  fs_count := fs_count target + fs_count source, stddev_is_float32 := False\<rparr>))"

section \<open>Sampling of visual frames\<close>

text \<open>\<open>pow75 x\<close> is \<open>std::pow(x, 0.75)\<close>; \<open>std::nearbyint\<close> rounds ties to even.\<close>

definition sample_count :: "(fp \<Rightarrow> fp) \<Rightarrow> nat \<Rightarrow> nat" where
  "sample_count pow75 frame_count =
     (let minimum_samples = min 100 frame_count;
          estimated = nat (to_int64 (pow75 (int_to_double (int frame_count))))
      in max minimum_samples (min estimated 10000))"

fun nearbyint :: "fp \<Rightarrow> fp" where
  "nearbyint (Fin x) = Fin (of_int (rne x))"
| "nearbyint x = x"

definition sample_position :: "nat \<Rightarrow> nat \<Rightarrow> fp \<Rightarrow> nat \<Rightarrow> fp" where
  "sample_position frame_count samples step index =
     (if index + 1 = samples then int_to_double (int (frame_count - 1))
      else dmul (int_to_double (int index)) step)"

definition SampleVisualFrameIndices :: "(fp \<Rightarrow> fp) \<Rightarrow> nat \<Rightarrow> nat list" where
  "SampleVisualFrameIndices pow75 frame_count =
     (if frame_count = 0 then []
      else
        let samples = sample_count pow75 frame_count
        in if samples = 1 then [0]
           else
             let step = ddiv (int_to_double (int (frame_count - 1))) (int_to_double (int (samples - 1)))
             in map (\<lambda>index. nat (to_int64 (nearbyint (sample_position frame_count samples step index))))
                  [0 ..< samples])"

section \<open>Reference: one column of values\<close>

text \<open>The \<open>j\<close>-th of the eight accumulators, and NumPy's pairwise summation of a list.\<close>

definition lane_sum :: "(fp \<Rightarrow> fp \<Rightarrow> fp) \<Rightarrow> fp list \<Rightarrow> nat \<Rightarrow> fp" where
  "lane_sum add xs j = foldl add (xs ! j) (map (\<lambda>g. xs ! (8 * g + j)) [1 ..< length xs div 8])"

function np_sum :: "(fp \<Rightarrow> fp \<Rightarrow> fp) \<Rightarrow> fp list \<Rightarrow> fp" where
  "np_sum add xs =
     (if length xs < 8 then foldl add (Fin 0) xs
      else if length xs \<le> 128 then
        foldl add (collapse8 add (map (lane_sum add xs) [0 ..< 8])) (drop (8 * (length xs div 8)) xs)
      else
        let n = length xs div 2 - length xs div 2 mod 8
        in add (np_sum add (take n xs)) (np_sum add (drop n xs)))"
  by auto

termination np_sum
  by (relation "measure (\<lambda>(add, xs). length xs)") (auto simp: not_le intro: pairwise_halves)

declare np_sum.simps [simp del]

section \<open>A pass over well-formed rows\<close>

definition good_row :: "precision \<Rightarrow> nat \<Rightarrow> bool \<Rightarrow> stats_row \<Rightarrow> bool" where
  "good_row p w exact r \<longleftrightarrow>
     length (fst r) = w \<and> (\<forall>x \<in> set (fst r). fis_finite (fcast p x)) \<and> (exact \<longrightarrow> length (snd r) = w)"

definition batch :: "precision \<Rightarrow> nat \<Rightarrow> nat \<Rightarrow> stats_row \<Rightarrow> fp list" where
  "batch p off n r = map (fcast p) (take n (drop off (fst r)))"

definition merge_exact :: "int list \<Rightarrow> exact_extrema \<Rightarrow> exact_extrema" where
  "merge_exact row x =
     (if ex_minimum x = [] then x\<lparr>ex_row := row, ex_minimum := row, ex_maximum := row\<rparr>
      else x\<lparr>ex_row := row, ex_minimum := map2 min row (ex_minimum x), ex_maximum := map2 max row (ex_maximum x)\<rparr>)"

definition advance :: "precision \<Rightarrow> nat \<Rightarrow> nat \<Rightarrow> pass_state \<Rightarrow> stats_row \<Rightarrow> pass_state" where
  "advance p off n st r =
     st\<lparr>ps_reader := tl (ps_reader st), ps_exact := map_option (merge_exact (snd r)) (ps_exact st),
        ps_minimum := map2 MinValue (ps_minimum st) (batch p off n r),
        ps_maximum := map2 MaxValue (ps_maximum st) (batch p off n r)\<rparr>"

text \<open>The reader of \<open>st\<close> gives the rows \<open>rs\<close> next, all well-formed, and the extrema have their widths.\<close>

definition ready :: "precision \<Rightarrow> nat \<Rightarrow> nat \<Rightarrow> stats_row list \<Rightarrow> pass_state \<Rightarrow> bool" where
  "ready p w n rs st \<longleftrightarrow>
     (\<exists>rest. ps_reader st = map Inr rs @ rest) \<and>
     (\<forall>r \<in> set rs. good_row p w (ps_exact st \<noteq> None) r) \<and>
     length (ps_minimum st) = n \<and> length (ps_maximum st) = n \<and>
     (\<forall>x. ps_exact st = Some x \<longrightarrow>
        ex_minimum x = [] \<or> length (ex_minimum x) = w \<and> length (ex_maximum x) = w)"

lemma mapE_prepare:
  assumes "length xs = length mins" and "length mins = length maxs" and "\<forall>x \<in> set xs. fis_finite (fcast p x)"
  shows "mapE (\<lambda>(raw, mn, mx). PrepareReductionValue p raw mn mx) (zip xs (zip mins maxs)) =
    Inr (zip (map (fcast p) xs) (zip (map2 MinValue mins (map (fcast p) xs)) (map2 MaxValue maxs (map (fcast p) xs))))"
  using assms
  by (induction xs mins maxs rule: list_induct3) (auto simp: PrepareReductionValue_def Let_def)

lemma min_max_if:
  "(\<lambda>r m. if r < m then r else m) = (min :: int \<Rightarrow> int \<Rightarrow> int)"
  "(\<lambda>r m. if m < r then r else m) = (max :: int \<Rightarrow> int \<Rightarrow> int)"
  by (auto simp: fun_eq_iff min_def max_def)


lemma merge_extrema_ready:
  assumes "ready p w n (r # rs) st" and "ps_exact st = Some x"
  shows "merge_extrema w (snd r) x = Inr (merge_exact (snd r) x)"
proof -
  have l: "length (snd r) = w"
    and e: "ex_minimum x = [] \<or> length (ex_minimum x) = w \<and> length (ex_maximum x) = w"
    using assms by (auto simp: ready_def good_row_def)
  show ?thesis
  proof (cases "ex_minimum x = []")
    case True
    then show ?thesis using l by (simp add: merge_extrema_def merge_exact_def)
  next
    case False
    with e l show ?thesis by (simp add: merge_extrema_def merge_exact_def min_max_if Let_def)
  qed
qed

lemma ReadStatsRow_ready:
  assumes "ready p w n (r # rs) st"
  shows "ReadStatsRow w st = Inr (fst r, st\<lparr>ps_reader := tl (ps_reader st),
           ps_exact := map_option (merge_exact (snd r)) (ps_exact st)\<rparr>)"
proof -
  obtain rest where "ps_reader st = Inr r # rest" and "length (fst r) = w"
    using assms by (auto simp: ready_def good_row_def)
  then show ?thesis
    using merge_extrema_ready [OF assms]
    by (cases "ps_exact st"; cases r) (auto simp: ReadStatsRow_def Next_def)
qed

lemma batch_length: "length (fst r) = w \<Longrightarrow> off + n \<le> w \<Longrightarrow> length (batch p off n r) = n"
  by (simp add: batch_def)

lemma next_values_ready:
  assumes "ready p w n (r # rs) st" and "off + n \<le> w"
  shows "next_values p w off n st = Inr (batch p off n r, advance p off n st r)"
proof -
  let ?xs = "take n (drop off (fst r))"
  let ?st = "st\<lparr>ps_reader := tl (ps_reader st), ps_exact := map_option (merge_exact (snd r)) (ps_exact st)\<rparr>"
  have r: "length (fst r) = w" "\<forall>x \<in> set (fst r). fis_finite (fcast p x)"
    and st: "length (ps_minimum st) = n" "length (ps_maximum st) = n"
    using assms(1) by (auto simp: ready_def good_row_def)
  have "\<forall>x \<in> set ?xs. fis_finite (fcast p x)" using r(2) by (meson in_set_dropD in_set_takeD)
  moreover have "length ?xs = length (ps_minimum st)" "length (ps_minimum st) = length (ps_maximum st)"
    using r(1) st assms(2) by auto
  ultimately have "mapE (\<lambda>(raw, mn, mx). PrepareReductionValue p raw mn mx) (zip ?xs (zip (ps_minimum st) (ps_maximum st))) =
      Inr (zip (batch p off n r) (zip (map2 MinValue (ps_minimum st) (batch p off n r))
                                      (map2 MaxValue (ps_maximum st) (batch p off n r))))"
    unfolding batch_def by (intro mapE_prepare)
  moreover have "length (batch p off n r) = n" using r(1) assms(2) by (rule batch_length)
  ultimately show ?thesis
    using st unfolding next_values_def ReadStatsRow_ready [OF assms(1)]
    by (simp add: advance_def flip: map_map)
qed

lemma ready_advance:
  assumes "ready p w n (r # rs) st" and "off + n \<le> w"
  shows "ready p w n rs (advance p off n st r)"
proof -
  have "length (batch p off n r) = n"
    using assms by (intro batch_length [of _ w]) (auto simp: ready_def good_row_def)
  then show ?thesis
    using assms by (auto simp: ready_def advance_def good_row_def merge_exact_def)
qed

abbreviation advances :: "precision \<Rightarrow> nat \<Rightarrow> nat \<Rightarrow> stats_row list \<Rightarrow> pass_state \<Rightarrow> pass_state" where
  "advances p off n rs st \<equiv> foldl (advance p off n) st rs"

lemma ready_advances: "ready p w n (rs @ rs') st \<Longrightarrow> off + n \<le> w \<Longrightarrow> ready p w n rs' (advances p off n rs st)"
  by (induction rs arbitrary: st) (auto intro: ready_advance)

lemma ready_append: "ready p w n (rs @ rs') st \<Longrightarrow> ready p w n rs st"
  by (fastforce simp: ready_def)

section \<open>Sums of a well-formed pass, column by column\<close>

text \<open>Totals after adding the values of rows, and the values of one dimension.\<close>

abbreviation column :: "fp list list \<Rightarrow> nat \<Rightarrow> fp list" where
  "column vs d \<equiv> map (\<lambda>v. v ! d) vs"

definition totals_of :: "precision \<Rightarrow> nat \<Rightarrow> (fp list \<Rightarrow> fp) \<Rightarrow> fp list list \<Rightarrow> reduction_totals" where
  "totals_of p n f vs = (map (\<lambda>d. f (column vs d)) [0 ..< n], map (\<lambda>d. f (column (map (squares p) vs) d)) [0 ..< n])"

lemma add_rows_ready:
  assumes "ready p w n (rs @ rest) st" and "off + n \<le> w" and "length rs = k"
  shows "add_rows p w off n k totals st =
    Inr (foldl (add_values p) totals (map (batch p off n) rs), advances p off n rs st)"
  using assms
proof (induction rs arbitrary: k totals st)
  case (Cons r rs)
  then obtain k' where k: "k = Suc k'" "length rs = k'" by (cases k) auto
  have r: "ready p w n (r # rs @ rest) st" using Cons.prems(1) by simp
  show ?case
    using Cons.IH [OF ready_advance [OF r Cons.prems(2)] Cons.prems(2) k(2)]
    by (simp add: k(1) next_values_ready [OF r Cons.prems(2)])
qed simp

lemma fill_ready:
  assumes "ready p w n (rs @ rest) st" and "off + n \<le> w" and "length rs = k"
  shows "fill_accumulators p w off n k st =
    Inr (map (\<lambda>r. (batch p off n r, squares p (batch p off n r))) rs, advances p off n rs st)"
  using assms
proof (induction rs arbitrary: k st)
  case (Cons r rs)
  then obtain k' where k: "k = Suc k'" "length rs = k'" by (cases k) auto
  have r: "ready p w n (r # rs @ rest) st" using Cons.prems(1) by simp
  show ?case
    using Cons.IH [OF ready_advance [OF r Cons.prems(2)] Cons.prems(2) k(2)]
    by (simp add: k(1) next_values_ready [OF r Cons.prems(2)])
qed simp

lemma add_to_ready:
  assumes "ready p w n (rs @ rest) st" and "off + n \<le> w" and "length rs = length accs"
  shows "add_to_accumulators p w off n accs st =
    Inr (map2 (add_values p) accs (map (batch p off n) rs), advances p off n rs st)"
  using assms
proof (induction rs arbitrary: accs st)
  case (Cons r rs)
  then obtain acc accs' where a: "accs = acc # accs'" "length rs = length accs'" by (cases accs) auto
  have r: "ready p w n (r # rs @ rest) st" using Cons.prems(1) by simp
  show ?case
    using Cons.IH [OF ready_advance [OF r Cons.prems(2)] Cons.prems(2) a(2)]
    by (simp add: a(1) next_values_ready [OF r Cons.prems(2)])
qed simp

primrec group_fold :: "('a \<Rightarrow> 'b \<Rightarrow> 'a) \<Rightarrow> nat \<Rightarrow> 'a list \<Rightarrow> 'b list \<Rightarrow> 'a list" where
  "group_fold f 0 accs vs = accs"
| "group_fold f (Suc g) accs vs = group_fold f g (map2 f accs (take (length accs) vs)) (drop (length accs) vs)"

lemma add_groups_ready:
  assumes "ready p w n (rs @ rest) st" and "off + n \<le> w" and "length rs = g * length accs"
  shows "add_groups p w off n g accs st =
    Inr (group_fold (add_values p) g accs (map (batch p off n) rs), advances p off n rs st)"
  using assms
proof (induction g arbitrary: accs rs st)
  case (Suc g)
  let ?rs1 = "take (length accs) rs" and ?rs2 = "drop (length accs) rs"
  have l: "length ?rs1 = length accs" "length ?rs2 = g * length accs" using Suc.prems(3) by auto
  have rd: "ready p w n (?rs1 @ ?rs2 @ rest) st" using Suc.prems(1) by (metis append_assoc append_take_drop_id)
  note 1 = add_to_ready [OF rd Suc.prems(2) l(1)]
  let ?accs = "map2 (add_values p) accs (map (batch p off n) ?rs1)"
  have la: "length ?accs = length accs" using l(1) by simp
  have "add_groups p w off n g ?accs (advances p off n ?rs1 st) =
      Inr (group_fold (add_values p) g ?accs (map (batch p off n) ?rs2), advances p off n ?rs2 (advances p off n ?rs1 st))"
    by (rule Suc.IH [OF ready_advances [OF rd Suc.prems(2)] Suc.prems(2)]) (use l(2) la in simp)
  moreover have "advances p off n ?rs2 (advances p off n ?rs1 st) = advances p off n rs st"
    by (metis append_take_drop_id foldl_append)
  ultimately show ?case by (simp add: 1 take_map drop_map)
qed simp

lemma foldl_component:
  "fst (foldl (add_values p) t vs) = foldl (map2 (tadd p)) (fst t) vs"
  "snd (foldl (add_values p) t vs) = foldl (map2 (tadd p)) (snd t) (map (squares p) vs)"
  by (induction vs arbitrary: t) (auto simp: add_values_def)

lemma foldl_map2_nth:
  assumes "\<forall>v \<in> set vs. length v = length t" and "d < length t"
  shows "foldl (map2 f) t vs ! d = foldl f (t ! d) (column vs d) \<and> length (foldl (map2 f) t vs) = length t"
  using assms
proof (induction vs arbitrary: t)
  case (Cons v vs)
  then show ?case using Cons.IH [of "map2 f t v"] by simp
qed simp

lemma foldl_map2_length: "\<forall>v \<in> set vs. length v = length t \<Longrightarrow> length (foldl (map2 f) t vs) = length t"
  by (induction vs arbitrary: t) auto

lemma map_add_values:
  "map fst (map2 (add_values p) accs us) = map2 (map2 (tadd p)) (map fst accs) us"
  "map snd (map2 (add_values p) accs us) = map2 (map2 (tadd p)) (map snd accs) (map (squares p) us)"
  by (induction accs us rule: list_induct2') (auto simp: add_values_def)

lemma group_fold_fst:
  "map fst (group_fold (add_values p) g accs vs) = group_fold (map2 (tadd p)) g (map fst accs) vs"
  by (induction g arbitrary: accs vs) (simp_all only: group_fold.simps map_add_values length_map)

lemma group_fold_snd:
  "map snd (group_fold (add_values p) g accs vs) = group_fold (map2 (tadd p)) g (map snd accs) (map (squares p) vs)"
  by (induction g arbitrary: accs vs) (simp_all only: group_fold.simps map_add_values length_map take_map drop_map)

lemma group_fold_length: "g * length accs \<le> length vs \<Longrightarrow> length (group_fold f g accs vs) = length accs"
  by (induction g arbitrary: accs vs) auto

text \<open>Every lane of the accumulators, one dimension of it.\<close>

lemma group_fold_nth:
  assumes "g * length accs \<le> length vs" and "\<forall>v \<in> set vs. length v = n" and "\<forall>a \<in> set accs. length a = n"
    and "j < length accs" and "d < n"
  shows "group_fold (map2 f) g accs vs ! j ! d =
    foldl f (accs ! j ! d) (map (\<lambda>i. vs ! (length accs * i + j) ! d) [0 ..< g])"
  using assms
proof (induction g arbitrary: accs vs)
  case (Suc g)
  let ?l = "length accs"
  let ?accs = "map2 (map2 f) accs (take ?l vs)"
  have la: "length ?accs = ?l" using Suc.prems(1) by simp
  have a: "\<forall>a \<in> set ?accs. length a = n"
    using Suc.prems(2,3) by (auto simp: set_zip dest!: in_set_takeD)
  have j: "?accs ! j ! d = f (accs ! j ! d) (vs ! j ! d)"
    using Suc.prems by (simp add: la)
  have "group_fold (map2 f) g ?accs (drop ?l vs) ! j ! d =
      foldl f (?accs ! j ! d) (map (\<lambda>i. drop ?l vs ! (length ?accs * i + j) ! d) [0 ..< g])"
    by (rule Suc.IH) (use Suc.prems a la in \<open>auto dest: in_set_dropD\<close>)
  also have "map (\<lambda>i. drop ?l vs ! (length ?accs * i + j) ! d) [0 ..< g] =
      map (\<lambda>i. vs ! (?l * i + j) ! d) (map Suc [0 ..< g])"
    using Suc.prems(1) by (simp add: la add.assoc comp_def)
  also have "map Suc [0 ..< g] = [1 ..< Suc g]" by (simp add: map_Suc_upt)
  finally have "group_fold (map2 f) (Suc g) accs vs ! j ! d =
      foldl f (f (accs ! j ! d) (vs ! j ! d)) (map (\<lambda>i. vs ! (?l * i + j) ! d) [1 ..< Suc g])"
    by (simp add: j)
  moreover have "[0 ..< Suc g] = 0 # [1 ..< Suc g]" by (simp add: upt_rec)
  ultimately show ?case by simp
qed simp

lemma list_of_columns: "length xs = n \<Longrightarrow> (\<And>d. d < n \<Longrightarrow> xs ! d = g d) \<Longrightarrow> xs = map g [0 ..< n]"
  by (rule nth_equalityI) auto

lemma small_component:
  assumes "\<forall>v \<in> set vs. length v = n" and "length vs < 8"
  shows "foldl (map2 add) (replicate n (Fin 0)) vs = map (\<lambda>d. np_sum add (column vs d)) [0 ..< n]"
proof (rule list_of_columns)
  show "length (foldl (map2 add) (replicate n (Fin 0)) vs) = n"
    using assms(1) by (simp add: foldl_map2_length)
  show "foldl (map2 add) (replicate n (Fin 0)) vs ! d = np_sum add (column vs d)" if "d < n" for d
    using that assms foldl_map2_nth [of vs "replicate n (Fin 0)" d add] by (simp add: np_sum.simps)
qed

lemma block_lane:
  assumes "\<forall>v \<in> set vs. length v = n" and "8 \<le> length vs" and "j < 8" and "d < n"
  shows "group_fold (map2 add) (length vs div 8 - 1) (take 8 vs) (take (8 * (length vs div 8 - 1)) (drop 8 vs)) ! j ! d =
    lane_sum add (column vs d) j"
proof -
  let ?g = "length vs div 8 - 1"
  have g: "?g + 1 = length vs div 8" "8 * ?g \<le> length vs - 8" using assms(2) by auto
  have l: "length (take 8 vs) = 8" using assms(2) by simp
  have "group_fold (map2 add) ?g (take 8 vs) (take (8 * ?g) (drop 8 vs)) ! j ! d =
      foldl add (take 8 vs ! j ! d)
        (map (\<lambda>i. take (8 * ?g) (drop 8 vs) ! (length (take 8 vs) * i + j) ! d) [0 ..< ?g])"
    by (rule group_fold_nth) (use assms l g(2) in \<open>auto dest!: in_set_takeD in_set_dropD\<close>)
  also have "map (\<lambda>i. take (8 * ?g) (drop 8 vs) ! (length (take 8 vs) * i + j) ! d) [0 ..< ?g] =
      map (\<lambda>i. vs ! (8 * Suc i + j) ! d) [0 ..< ?g]"
  proof (rule map_cong)
    fix i
    assume "i \<in> set [0 ..< ?g]"
    then have "8 * i + j < 8 * ?g" using assms(3) by simp
    then show "take (8 * ?g) (drop 8 vs) ! (length (take 8 vs) * i + j) ! d = vs ! (8 * Suc i + j) ! d"
      using assms(2) by (simp add: l add.commute add.left_commute)
  qed simp
  also have "\<dots> = map (\<lambda>i. vs ! (8 * i + j) ! d) (map Suc [0 ..< ?g])" by simp
  also have "map Suc [0 ..< ?g] = [1 ..< length vs div 8]" using g(1) by (simp add: map_Suc_upt)
  also have "map (\<lambda>i. vs ! (8 * i + j) ! d) [1 ..< length vs div 8] =
      map (\<lambda>i. column vs d ! (8 * i + j)) [1 ..< length vs div 8]"
  proof (rule map_cong)
    fix i
    assume "i \<in> set [1 ..< length vs div 8]"
    then have "8 * i + j < 8 * (length vs div 8)" using assms(3) by simp
    then have "8 * i + j < length vs" by linarith
    then show "vs ! (8 * i + j) ! d = column vs d ! (8 * i + j)" by simp
  qed simp
  finally show ?thesis using assms(2,3) by (simp add: lane_sum_def)
qed

lemma block_component:
  fixes add :: "fp \<Rightarrow> fp \<Rightarrow> fp"
  assumes "\<forall>v \<in> set vs. length v = n" and "8 \<le> length vs" and "length vs \<le> 128"
  defines "accs \<equiv> group_fold (map2 add) (length vs div 8 - 1) (take 8 vs) (take (8 * (length vs div 8 - 1)) (drop 8 vs))"
  shows "foldl (map2 add) (map (\<lambda>d. collapse8 add (map (\<lambda>a. a ! d) accs)) [0 ..< n]) (drop (8 * (length vs div 8)) vs) =
    map (\<lambda>d. np_sum add (column vs d)) [0 ..< n]" (is "foldl _ ?start ?rest = _")
proof (rule list_of_columns)
  have rest: "\<forall>v \<in> set ?rest. length v = length ?start" using assms(1) by (auto dest: in_set_dropD)
  then show "length (foldl (map2 add) ?start ?rest) = n" by (simp add: foldl_map2_length)
  fix d
  assume d: "d < n"
  have "length accs = 8"
    unfolding accs_def using assms(2) by (subst group_fold_length) auto
  then have "map (\<lambda>a. a ! d) accs = map (lane_sum add (column vs d)) [0 ..< 8]"
    using block_lane [OF assms(1,2) _ d] by (intro nth_equalityI) (auto simp: accs_def)
  then have "?start ! d = collapse8 add (map (lane_sum add (column vs d)) [0 ..< 8])" using d by simp
  moreover have "foldl (map2 add) ?start ?rest ! d = foldl add (?start ! d) (column ?rest d)"
    using rest d foldl_map2_nth [of ?rest ?start d] by simp
  ultimately show "foldl (map2 add) ?start ?rest ! d = np_sum add (column vs d)"
    using assms(2,3) by (simp add: np_sum.simps [of add "column vs d"] drop_map)
qed

lemma squares_length [simp]: "length (squares p v) = length v"
  by (simp add: squares_def)

lemma batches_length:
  "ready p w n (rs @ rest) st \<Longrightarrow> off + n \<le> w \<Longrightarrow> \<forall>v \<in> set (map (batch p off n) rs). length v = n"
  by (auto simp: ready_def good_row_def batch_def)

lemma totals_of_small:
  assumes "\<forall>v \<in> set vs. length v = n" and "length vs < 8"
  shows "foldl (add_values p) (zero_totals n) vs = totals_of p n (np_sum (tadd p)) vs"
proof -
  have "\<forall>v \<in> set (map (squares p) vs). length v = n" using assms(1) by auto
  then show ?thesis
    using small_component [of vs n] small_component [of "map (squares p) vs" n] assms
    by (intro prod_eqI) (simp_all only: foldl_component totals_of_def zero_totals_def fst_conv snd_conv length_map)
qed

lemma collapse_components:
  "collapse_accumulators p n accs =
     (map (\<lambda>d. collapse8 (tadd p) (map (\<lambda>a. a ! d) (map fst accs))) [0 ..< n],
      map (\<lambda>d. collapse8 (tadd p) (map (\<lambda>a. a ! d) (map snd accs))) [0 ..< n])"
  by (simp add: collapse_accumulators_def comp_def)

lemma totals_of_block:
  fixes vs :: "fp list list"
  defines "g \<equiv> length vs div 8 - 1"
  assumes "\<forall>v \<in> set vs. length v = n" and "8 \<le> length vs" and "length vs \<le> 128"
  shows "foldl (add_values p)
      (collapse_accumulators p n
        (group_fold (add_values p) g (map (\<lambda>v. (v, squares p v)) (take 8 vs)) (take (8 * g) (drop 8 vs))))
      (drop (8 * (length vs div 8)) vs) = totals_of p n (np_sum (tadd p)) vs"
proof -
  have sq: "\<forall>v \<in> set (map (squares p) vs). length v = n" using assms(2) by auto
  have c: "map fst (map (\<lambda>v. (v, squares p v)) us) = us" "map snd (map (\<lambda>v. (v, squares p v)) us) = map (squares p) us" for us
    by (simp_all add: comp_def)
  show ?thesis
    using block_component [OF assms(2-4), of "tadd p"]
      block_component [OF sq, unfolded length_map, OF assms(3,4), of "tadd p"]
    by (intro prod_eqI)
       (simp_all only: foldl_component totals_of_def collapse_components group_fold_fst group_fold_snd c g_def
         fst_conv snd_conv take_map drop_map)
qed

lemma totals_of_halves:
  assumes "128 < length vs" and "m = length vs div 2 - length vs div 2 mod 8"
  shows "(map2 (tadd p) (fst (totals_of p n (np_sum (tadd p)) (take m vs))) (fst (totals_of p n (np_sum (tadd p)) (drop m vs))),
      map2 (tadd p) (snd (totals_of p n (np_sum (tadd p)) (take m vs))) (snd (totals_of p n (np_sum (tadd p)) (drop m vs)))) =
    totals_of p n (np_sum (tadd p)) vs"
proof -
  have "np_sum (tadd p) (column us d) = tadd p (np_sum (tadd p) (column (take m us) d)) (np_sum (tadd p) (column (drop m us) d))"
    if "length us = length vs" for us d
    using assms that by (simp add: np_sum.simps [of _ "column us d"] Let_def take_map drop_map)
  from this [of vs] this [of "map (squares p) vs"] show ?thesis
    by (simp add: totals_of_def take_map drop_map map2_map_map)
qed

lemma NumpyPairwiseStats_ready:
  assumes "ready p w n (rs @ rest) st" and "off + n \<le> w" and "length rs = cnt"
  shows "NumpyPairwiseStats p w off n cnt st =
    Inr (totals_of p n (np_sum (tadd p)) (map (batch p off n) rs), advances p off n rs st)"
  using assms
proof (induction cnt arbitrary: rs rest st rule: less_induct)
  case (less cnt)
  let ?vs = "map (batch p off n) rs"
  have vs: "\<forall>v \<in> set ?vs. length v = n" "length ?vs = cnt"
    using batches_length [OF less.prems(1,2)] less.prems(3) by auto
  consider "cnt < 8" | "8 \<le> cnt" "cnt \<le> 128" | "128 < cnt" by linarith
  then show ?case
  proof cases
    case 1
    then show ?thesis
      using add_rows_ready [OF less.prems] totals_of_small [OF vs(1)] vs(2)
      by (simp add: NumpyPairwiseStats.simps)
  next
    case 2
    define g where "g = cnt div 8 - 1"
    define rs1 where "rs1 = take 8 rs"
    define rs2 where "rs2 = take (8 * g) (drop 8 rs)"
    define rs3 where "rs3 = drop (8 * (cnt div 8)) rs"
    have g: "8 + 8 * g = 8 * (cnt div 8)" using 2 by (simp add: g_def)
    have g_eq: "cnt div 8 - Suc 0 = g" by (simp add: g_def)
    have split: "rs = rs1 @ rs2 @ rs3"
      unfolding rs1_def rs2_def rs3_def g [symmetric]
      by (metis add.commute append_take_drop_id drop_drop)
    have l: "length rs1 = 8" "length rs2 = g * 8" "length rs3 = cnt mod 8"
      using 2 less.prems(3) unfolding rs1_def rs2_def rs3_def g_def by (auto simp: minus_mod_eq_mult_div [symmetric])
    have r1: "ready p w n (rs1 @ rs2 @ rs3 @ rest) st" using less.prems(1) by (simp add: split)
    note r2 = ready_advances [OF r1 less.prems(2)]
    note r3 = ready_advances [OF r2 less.prems(2)]
    note steps = fill_ready [OF r1 less.prems(2) l(1)] add_groups_ready [OF r2 less.prems(2)]
      add_rows_ready [OF r3 less.prems(2) l(3)]
    have pairs: "map (\<lambda>r. (batch p off n r, squares p (batch p off n r))) rs1 =
        map (\<lambda>v. (v, squares p v)) (take 8 ?vs)" by (simp add: rs1_def take_map)
    have parts: "map (batch p off n) rs2 = take (8 * g) (drop 8 ?vs)" "map (batch p off n) rs3 = drop (8 * (cnt div 8)) ?vs"
      by (simp_all add: rs2_def rs3_def take_map drop_map)
    have adv: "advances p off n rs3 (advances p off n rs2 (advances p off n rs1 st)) = advances p off n rs st"
      by (simp add: split)
    have "NumpyPairwiseStats p w off n cnt st =
        Inr (foldl (add_values p) (collapse_accumulators p n
          (group_fold (add_values p) g (map (\<lambda>v. (v, squares p v)) (take 8 ?vs)) (take (8 * g) (drop 8 ?vs))))
          (drop (8 * (cnt div 8)) ?vs), advances p off n rs st)"
      using 2 steps(1,3) steps(2) [of g "map (\<lambda>v. (v, squares p v)) (take 8 ?vs)"] l less.prems(3)
      by (simp add: NumpyPairwiseStats.simps [of p w off n cnt st] pairs parts adv g_eq vs(2))
    then show ?thesis
      using totals_of_block [OF vs(1), of p] 2 vs(2) by (simp add: g_def)
  next
    case 3
    define m where "m = cnt div 2 - cnt div 2 mod 8"
    have m: "m < cnt" "0 < m" using pairwise_halves [OF 3] by (simp_all add: m_def)
    have r: "ready p w n (take m rs @ drop m rs @ rest) st" using less.prems(1) by (metis append_assoc append_take_drop_id)
    note left = less.IH [OF m(1) r less.prems(2)]
    note right = less.IH [OF _ ready_advances [OF r less.prems(2)] less.prems(2)]
    have adv: "advances p off n (drop m rs) (advances p off n (take m rs) st) = advances p off n rs st"
      by (metis append_take_drop_id foldl_append)
    show ?thesis
      using 3 left right [of "cnt - m"] m less.prems(3) totals_of_halves [of ?vs m p n]
      by (simp add: NumpyPairwiseStats.simps [of p w off n cnt st] Let_def adv m_def [symmetric] take_map drop_map)
  qed
qed

section \<open>The histogram of a well-formed pass\<close>

lemma mapE_cast:
  "\<forall>x \<in> set xs. fis_finite (fcast p x) \<Longrightarrow>
   mapE (\<lambda>raw. let value = fcast p raw in if \<not> fis_finite value then Inl not_finite else Inr value) xs =
     Inr (map (fcast p) xs)"
  by (rule mapE_all_Inr) (simp add: Let_def)

definition count_values :: "fp list list \<Rightarrow> nat list list \<Rightarrow> fp list \<Rightarrow> nat list list" where
  "count_values edges counts values =
     map (\<lambda>(edge, hist, v). count_value edge hist v) (zip edges (zip counts values))"

lemma histogram_rows_ready:
  assumes "ready p w n rs st" and "off + n \<le> w" and "length rs = k"
  shows "histogram_rows p w off n edges k counts st = Inr (foldl (count_values edges) counts (map (batch p off n) rs))"
  using assms
proof (induction rs arbitrary: k counts st)
  case (Cons r rs)
  then obtain k' where k: "k = Suc k'" "length rs = k'" by (cases k) auto
  have "\<forall>x \<in> set (take n (drop off (fst r))). fis_finite (fcast p x)"
    using Cons.prems(1) by (auto simp: ready_def good_row_def dest: in_set_takeD in_set_dropD)
  then have vals: "mapE (\<lambda>raw. let value = fcast p raw in if \<not> fis_finite value then Inl not_finite else Inr value)
      (take n (drop off (fst r))) = Inr (batch p off n r)"
    unfolding batch_def by (rule mapE_cast)
  let ?st = "st\<lparr>ps_reader := tl (ps_reader st), ps_exact := map_option (merge_exact (snd r)) (ps_exact st)\<rparr>"
  have "ready p w n rs ?st"
    using ready_advance [OF Cons.prems(1,2)] Cons.prems(1) by (simp add: ready_def advance_def)
  from Cons.IH [OF this Cons.prems(2) k(2)] show ?case
    by (simp add: k(1) ReadStatsRow_ready [OF Cons.prems(1)] vals count_values_def)
qed simp

lemma count_values_length: "length edges = n \<Longrightarrow> length counts = n \<Longrightarrow> length v = n \<Longrightarrow> length (count_values edges counts v) = n"
  by (simp add: count_values_def)

lemma count_values_nth:
  assumes "\<forall>v \<in> set vs. length v = n" and "length edges = n" and "length counts = n" and "d < n"
  shows "foldl (count_values edges) counts vs ! d = foldl (count_value (edges ! d)) (counts ! d) (column vs d) \<and>
    length (foldl (count_values edges) counts vs) = n"
  using assms(1,3)
proof (induction vs arbitrary: counts)
  case (Cons v vs)
  then have "length (count_values edges counts v) = n" using assms(2) by (simp add: count_values_length)
  moreover have "count_values edges counts v ! d = count_value (edges ! d) (counts ! d) (v ! d)"
    using Cons.prems assms(2,4) by (simp add: count_values_def)
  ultimately show ?case using Cons.IH [of "count_values edges counts v"] Cons.prems(1) by simp
qed simp

lemma foldl_count_values_length:
  "\<forall>v \<in> set vs. length v = n \<Longrightarrow> length edges = n \<Longrightarrow> length counts = n \<Longrightarrow>
   length (foldl (count_values edges) counts vs) = n"
  by (induction vs arbitrary: counts) (auto simp: count_values_length)

definition column_histogram :: "fp list \<Rightarrow> fp list \<Rightarrow> nat list" where
  "column_histogram edges xs = foldl (count_value edges) (replicate LEROBOT_QUANTILE_BIN_COUNT 0) xs"

lemma BuildHistogram_ready:
  assumes "\<forall>r \<in> set rows. good_row p w False r" and "off + n \<le> w" and "length mins = n" and "length maxs = n"
  shows "BuildHistogram p (map Inr rows) w off n (length rows) mins maxs =
    Inr (map (\<lambda>d. column_histogram (histogram_edges p (mins ! d) (maxs ! d)) (column (map (batch p off n) rows) d)) [0 ..< n],
         map (\<lambda>d. histogram_edges p (mins ! d) (maxs ! d)) [0 ..< n])"
proof -
  let ?edges = "map2 (histogram_edges p) mins maxs"
  let ?zero = "replicate n (replicate LEROBOT_QUANTILE_BIN_COUNT 0)"
  have r: "ready p w n rows (new_pass (map Inr rows) None n)"
    using assms(1) by (auto simp: ready_def new_pass_def)
  have vs: "\<forall>v \<in> set (map (batch p off n) rows). length v = n"
    using batches_length [of p w n rows "[]"] r assms(2) by simp
  have e: "?edges = map (\<lambda>d. histogram_edges p (mins ! d) (maxs ! d)) [0 ..< n]"
    using assms(3,4) by (intro list_of_columns) auto
  have "foldl (count_values ?edges) ?zero (map (batch p off n) rows) =
      map (\<lambda>d. column_histogram (histogram_edges p (mins ! d) (maxs ! d)) (column (map (batch p off n) rows) d)) [0 ..< n]"
  proof (rule list_of_columns)
    show "length (foldl (count_values ?edges) ?zero (map (batch p off n) rows)) = n"
      using vs assms(3,4) by (simp add: foldl_count_values_length)
    show "foldl (count_values ?edges) ?zero (map (batch p off n) rows) ! d =
        column_histogram (histogram_edges p (mins ! d) (maxs ! d)) (column (map (batch p off n) rows) d)" if "d < n" for d
      using count_values_nth [OF vs, of ?edges ?zero d] that assms(3,4) by (simp add: column_histogram_def)
  qed
  then show ?thesis
    unfolding BuildHistogram_def Let_def histogram_rows_ready [OF r assms(2) refl] by (simp flip: e)
qed

text \<open>
  The binary search finds the first edge above the value when the edges below and equal to it come
  first, so that the value lies in its bin.
\<close>

lemma upper_bound_loop_partition:
  assumes "m \<le> first + n" and "first \<le> m" and "first + n \<le> length edges"
    and "\<And>i. i < m \<Longrightarrow> \<not> flt v (edges ! i)" and "\<And>i. m \<le> i \<Longrightarrow> i < length edges \<Longrightarrow> flt v (edges ! i)"
  shows "upper_bound_loop edges v first n = m"
  using assms(1-3)
proof (induction n arbitrary: first rule: less_induct)
  case (less n)
  show ?case
  proof (cases "n = 0")
    case True
    then show ?thesis using less.prems by (simp add: upper_bound_loop.simps)
  next
    case False
    define half where "half = n div 2"
    have h: "half < n" using False by (simp add: half_def)
    have e: "upper_bound_loop edges v first n =
        (if flt v (edges ! (first + half)) then upper_bound_loop edges v first half
         else upper_bound_loop edges v (first + half + 1) (n - half - 1))"
      using False by (simp add: upper_bound_loop.simps [of edges v first n] half_def Let_def)
    show ?thesis
    proof (cases "flt v (edges ! (first + half))")
      case True
      then have "m \<le> first + half" using assms(4) [of "first + half"] by (meson not_le)
      then show ?thesis using e True less.IH [OF h, of first] less.prems h by simp
    next
      case False
      then have "first + half < m" using assms(5) [of "first + half"] less.prems(3) h by (meson add_less_cancel_left less_le_trans not_le)
      then show ?thesis using e False less.IH [of "n - half - 1" "first + half + 1"] less.prems h by simp
    qed
  qed
qed

section \<open>The reference statistics\<close>

definition value_column :: "precision \<Rightarrow> stats_row list \<Rightarrow> nat \<Rightarrow> fp list" where
  "value_column p rows d = map (\<lambda>r. fcast p (fst r ! d)) rows"

definition column_min :: "fp list \<Rightarrow> fp" where "column_min xs = foldl MinValue PInf xs"
definition column_max :: "fp list \<Rightarrow> fp" where "column_max xs = foldl MaxValue NInf xs"

definition column_moments :: "(precision \<Rightarrow> fp \<Rightarrow> fp) \<Rightarrow> precision \<Rightarrow> fp list \<Rightarrow> fp \<times> fp" where
  "column_moments sqrt_t p xs =
     (if length xs = 1 then (hd xs, Fin 0)
      else mean_stddev sqrt_t p (length xs) (np_sum (tadd p) xs) (np_sum (tadd p) (squares p xs)))"

definition column_quantile :: "precision \<Rightarrow> bool \<Rightarrow> rat \<Rightarrow> fp list \<Rightarrow> fp \<times> bool" where
  "column_quantile p use_float32 q xs =
     (if length xs = 1 then (hd xs, use_float32)
      else
        let edges = histogram_edges p (column_min xs) (column_max xs)
        in HistogramQuantile p (column_histogram edges xs) edges (length xs) (rnd64 q) use_float32)"

text \<open>The statistics of the first \<open>m\<close> dimensions, each from its own column.\<close>

definition reference_stats ::
  "(precision \<Rightarrow> fp \<Rightarrow> fp) \<Rightarrow> precision \<Rightarrow> bool \<Rightarrow> bool \<Rightarrow> nat \<Rightarrow> stats_row list \<Rightarrow> nat \<Rightarrow> feature_stats" where
  "reference_stats sqrt_t p use_float32 preserve output_count rows m =
     (let cols = map (value_column p rows) [0 ..< m];
          quantiles = (\<lambda>q. map (column_quantile p use_float32 q) cols);
          all_float32 = (\<lambda>q. use_float32 \<and> (\<forall>r \<in> set (quantiles q). snd r))
      in \<lparr>fs_min = (if preserve then [] else map column_min cols),
          fs_max = (if preserve then [] else map column_max cols),
          integer_min = [], integer_max = [],
          fs_mean = map (\<lambda>c. fst (column_moments sqrt_t p c)) cols,
          fs_stddev = map (\<lambda>c. snd (column_moments sqrt_t p c)) cols,
          q01 = map fst (quantiles (1 / 100)), q10 = map fst (quantiles (1 / 10)),
          q50 = map fst (quantiles (1 / 2)), q90 = map fst (quantiles (9 / 10)),
          q99 = map fst (quantiles (99 / 100)),
          q01_is_float32 = all_float32 (1 / 100), q10_is_float32 = all_float32 (1 / 10),
          q50_is_float32 = all_float32 (1 / 2), q90_is_float32 = all_float32 (9 / 10),
          q99_is_float32 = all_float32 (99 / 100), stddev_is_float32 = use_float32,
          fs_count = output_count\<rparr>)"

text \<open>The extrema of the integers, over all dimensions.\<close>

definition integer_column :: "stats_row list \<Rightarrow> nat \<Rightarrow> int list" where
  "integer_column rows d = map (\<lambda>r. snd r ! d) rows"

lemma column_batch:
  assumes "\<forall>r \<in> set rows. length (fst r) = w" and "off + n \<le> w" and "d < n"
  shows "column (map (batch p off n) rows) d = value_column p rows (off + d)"
  using assms by (auto simp: value_column_def batch_def)

lemma squares_column: "\<forall>v \<in> set vs. length v = n \<Longrightarrow> d < n \<Longrightarrow> column (map (squares p) vs) d = squares p (column vs d)"
  by (auto simp: squares_def)

lemma advances_extrema:
  "ps_minimum (advances p off n rows st) = foldl (map2 MinValue) (ps_minimum st) (map (batch p off n) rows)"
  "ps_maximum (advances p off n rows st) = foldl (map2 MaxValue) (ps_maximum st) (map (batch p off n) rows)"
  "ps_exact (advances p off n rows st) = map_option (\<lambda>x. foldl (\<lambda>x r. merge_exact (snd r) x) x rows) (ps_exact st)"
  by (induction rows arbitrary: st) (auto simp: advance_def option.map_ident option.map_comp comp_def)

lemma advances_columns:
  assumes "\<forall>r \<in> set rows. length (fst r) = w" and "off + n \<le> w"
  shows "ps_minimum (advances p off n rows (new_pass reader exact n)) =
      map (\<lambda>d. column_min (value_column p rows (off + d))) [0 ..< n]"
    and "ps_maximum (advances p off n rows (new_pass reader exact n)) =
      map (\<lambda>d. column_max (value_column p rows (off + d))) [0 ..< n]"
proof -
  let ?vs = "map (batch p off n) rows"
  have vs: "\<forall>v \<in> set ?vs. length v = n" using assms by (auto simp: batch_def)
  have "foldl (map2 f) (replicate n x) ?vs = map (\<lambda>d. foldl f x (value_column p rows (off + d))) [0 ..< n]" for f x
  proof (rule list_of_columns)
    show "length (foldl (map2 f) (replicate n x) ?vs) = n" using vs by (simp add: foldl_map2_length)
    show "foldl (map2 f) (replicate n x) ?vs ! d = foldl f x (value_column p rows (off + d))" if "d < n" for d
      using foldl_map2_nth [of ?vs "replicate n x" d f] vs that column_batch [OF assms that] by simp
  qed
  then show "ps_minimum (advances p off n rows (new_pass reader exact n)) =
      map (\<lambda>d. column_min (value_column p rows (off + d))) [0 ..< n]"
    "ps_maximum (advances p off n rows (new_pass reader exact n)) =
      map (\<lambda>d. column_max (value_column p rows (off + d))) [0 ..< n]"
    by (simp_all only: advances_extrema new_pass_def pass_state.simps column_min_def column_max_def)
qed

lemma upt_shift: "[0 ..< off + n] = [0 ..< off] @ map (\<lambda>d. off + d) [0 ..< n]"
  by (induction n) auto

lemma length_value_column [simp]: "length (value_column p rows d) = length rows"
  by (simp add: value_column_def)

text \<open>Appending the results of a batch to those of the dimensions before it.\<close>

lemma append_single_reference:
  assumes "length rows = 1"
  shows "append_single preserve (map (\<lambda>d. hd (value_column p rows (off + d))) [0 ..< n])
      (reference_stats sqrt_t p use_float32 preserve oc rows off) =
    reference_stats sqrt_t p use_float32 preserve oc rows (off + n)"
proof -
  have extrema: "column_min (value_column p rows d) = hd (value_column p rows d)"
    "column_max (value_column p rows d) = hd (value_column p rows d)" for d
    using assms
    by (cases rows; cases "fcast p (fst (hd rows) ! d)";
        simp add: column_min_def column_max_def MinValue_def MaxValue_def value_column_def)+
  have single: "column_quantile p u q (value_column p rows d) = (hd (value_column p rows d), u)"
    "column_moments sqrt_t p (value_column p rows d) = (hd (value_column p rows d), Fin 0)" for u q d
    using assms by (simp_all add: column_quantile_def column_moments_def)
  show ?thesis
    by (cases use_float32)
       (simp_all add: append_single_def reference_stats_def upt_shift [of off n] extrema single
         Let_def comp_def ball_Un map_replicate_const)
qed

lemma append_batch_reference:
  assumes "length rows \<noteq> 1"
    and "ps_minimum st = map (\<lambda>d. column_min (value_column p rows (off + d))) [0 ..< n]"
    and "ps_maximum st = map (\<lambda>d. column_max (value_column p rows (off + d))) [0 ..< n]"
    and "totals = (map (\<lambda>d. np_sum (tadd p) (value_column p rows (off + d))) [0 ..< n],
                   map (\<lambda>d. np_sum (tadd p) (squares p (value_column p rows (off + d)))) [0 ..< n])"
    and "edges = map (\<lambda>d. histogram_edges p (column_min (value_column p rows (off + d)))
                                   (column_max (value_column p rows (off + d)))) [0 ..< n]"
    and "hist = map (\<lambda>d. column_histogram (edges ! d) (value_column p rows (off + d))) [0 ..< n]"
  shows "append_quantiles p use_float32 (length rows) (hist, edges)
      (append_moments sqrt_t p preserve (length rows) totals st (reference_stats sqrt_t p use_float32 preserve oc rows off)) =
    reference_stats sqrt_t p use_float32 preserve oc rows (off + n)"
proof -
  have m: "map2 (mean_stddev sqrt_t p (length rows)) (fst totals) (snd totals) =
      map (\<lambda>d. column_moments sqrt_t p (value_column p rows (off + d))) [0 ..< n]"
    using assms(1) by (simp add: assms(4) map2_map_map column_moments_def)
  have q: "map2 (\<lambda>h e. HistogramQuantile p h e (length rows) (rnd64 q) use_float32) hist edges =
      map (\<lambda>d. column_quantile p use_float32 q (value_column p rows (off + d))) [0 ..< n]" for q
    using assms(1) by (intro list_of_columns) (simp_all add: assms(5,6) column_quantile_def Let_def)
  show ?thesis
    by (simp add: append_quantiles_def append_moments_def reference_stats_def upt_shift [of off n] m q assms(2,3)
        Let_def comp_def ball_Un conj_ac)
qed


lemma integer_column_Cons: "integer_column (r # rs) d = snd r ! d # integer_column rs d"
  by (simp add: integer_column_def)

lemma merge_exact_nth:
  assumes "\<forall>r \<in> set rs. length (snd r) = w" and "length (ex_minimum x) = w" and "length (ex_maximum x) = w"
    and "0 < w" and "d < w"
  shows "ex_minimum (foldl (\<lambda>x r. merge_exact (snd r) x) x rs) ! d = Min (insert (ex_minimum x ! d) (set (integer_column rs d))) \<and>
    ex_maximum (foldl (\<lambda>x r. merge_exact (snd r) x) x rs) ! d = Max (insert (ex_maximum x ! d) (set (integer_column rs d))) \<and>
    length (ex_minimum (foldl (\<lambda>x r. merge_exact (snd r) x) x rs)) = w \<and>
    length (ex_maximum (foldl (\<lambda>x r. merge_exact (snd r) x) x rs)) = w"
  using assms(1-3)
proof (induction rs arbitrary: x)
  case Nil
  then show ?case by (simp add: integer_column_def)
next
  case (Cons r rs)
  let ?x = "merge_exact (snd r) x"
  have "ex_minimum x \<noteq> []" using Cons.prems(2) assms(4) by auto
  then have x: "ex_minimum ?x = map2 min (snd r) (ex_minimum x)" "ex_maximum ?x = map2 max (snd r) (ex_maximum x)"
    by (simp_all add: merge_exact_def)
  have l: "length (ex_minimum ?x) = w" "length (ex_maximum ?x) = w" using Cons.prems by (simp_all add: x)
  have n: "ex_minimum ?x ! d = min (snd r ! d) (ex_minimum x ! d)" "ex_maximum ?x ! d = max (snd r ! d) (ex_maximum x ! d)"
    using Cons.prems assms(5) by (simp_all add: x)
  have "Min (insert (min a b) C) = Min (insert b (insert a C))" "Max (insert (max a b) C) = Max (insert b (insert a C))"
    if "finite C" for a b :: int and C
    using that by (cases "C = {}"; auto simp: min_def max_def insert_commute)+
  then show ?case
    using Cons.IH [of ?x] Cons.prems(1) l n by (simp add: integer_column_Cons)
qed

lemma exact_extrema_of_rows:
  assumes "\<forall>r \<in> set rows. length (snd r) = w" and "rows \<noteq> []" and "0 < w" and "ex_minimum x = []"
  defines "y \<equiv> foldl (\<lambda>x r. merge_exact (snd r) x) x rows"
  shows "ex_minimum y = map (\<lambda>d. Min (set (integer_column rows d))) [0 ..< w]"
    and "ex_maximum y = map (\<lambda>d. Max (set (integer_column rows d))) [0 ..< w]"
proof -
  obtain r rs where rows: "rows = r # rs" using assms(2) by (cases rows) auto
  have x: "ex_minimum (merge_exact (snd r) x) = snd r" "ex_maximum (merge_exact (snd r) x) = snd r"
    by (simp_all add: merge_exact_def assms(4))
  have y: "ex_minimum y ! d = Min (set (integer_column rows d)) \<and> ex_maximum y ! d = Max (set (integer_column rows d)) \<and>
      length (ex_minimum y) = w \<and> length (ex_maximum y) = w" if "d < w" for d
    using merge_exact_nth [of rs w "merge_exact (snd r) x" d] assms(1,3) that x
    by (simp add: y_def rows integer_column_Cons)
  show "ex_minimum y = map (\<lambda>d. Min (set (integer_column rows d))) [0 ..< w]"
    "ex_maximum y = map (\<lambda>d. Max (set (integer_column rows d))) [0 ..< w]"
    using y assms(3) by (auto intro!: list_of_columns)
qed

lemma stats_batch_ready:
  fixes off w :: nat
  defines "n \<equiv> min LEROBOT_STATS_DIMENSION_BATCH_SIZE (w - off)"
  assumes "\<forall>r \<in> set rows. good_row p w preserve r" and "off < w"
    and "preserve \<longrightarrow> off = 0 \<longrightarrow> ex_minimum exact = []"
  obtains k' where
    "stats_batch sqrt_t p (\<lambda>k. map Inr rows) w (length rows) use_float32 preserve off k exact
       (reference_stats sqrt_t p use_float32 preserve oc rows off) =
     Inr (reference_stats sqrt_t p use_float32 preserve oc rows (off + n),
          if preserve \<and> off = 0 then foldl (\<lambda>x r. merge_exact (snd r) x) exact rows else exact, k')"
proof -
  let ?st = "new_pass (map Inr rows) (if preserve \<and> off = 0 then Some exact else None) n"
  have bound: "off + n \<le> w" using assms(3) by (simp add: n_def)
  have len: "\<forall>r \<in> set rows. length (fst r) = w" and plain: "\<forall>r \<in> set rows. good_row p w False r"
    using assms(2) by (auto simp: good_row_def)
  have rd: "ready p w n (rows @ []) ?st"
    using assms(2,4) by (auto simp: ready_def new_pass_def good_row_def)
  have kept: "(if preserve \<and> off = 0 then the (ps_exact (advances p off n rows ?st)) else exact) =
      (if preserve \<and> off = 0 then foldl (\<lambda>x r. merge_exact (snd r) x) exact rows else exact)"
    by (simp add: advances_extrema) (simp add: new_pass_def)
  note cols = advances_columns [OF len bound]
  show thesis
  proof (cases "length rows = 1")
    case True
    then obtain r where r: "rows = [r]" by (cases rows) auto
    have b: "batch p off n r = map (\<lambda>d. hd (value_column p rows (off + d))) [0 ..< n]"
      using len bound by (intro list_of_columns) (auto simp: r batch_def value_column_def)
    have "next_values p w off n ?st = Inr (batch p off n r, advances p off n rows ?st)"
      using next_values_ready [of p w n r "[]" ?st off] rd bound by (simp add: r)
    then show ?thesis
      using True kept append_single_reference [OF True]
      by (intro that [of "k + 1"]) (simp add: stats_batch_def Let_def n_def [symmetric] b)
  next
    case False
    have vs: "\<forall>v \<in> set (map (batch p off n) rows). length v = n" using len bound by (auto simp: batch_def)
    have totals: "totals_of p n (np_sum (tadd p)) (map (batch p off n) rows) =
        (map (\<lambda>d. np_sum (tadd p) (value_column p rows (off + d))) [0 ..< n],
         map (\<lambda>d. np_sum (tadd p) (squares p (value_column p rows (off + d)))) [0 ..< n])"
      using squares_column [OF vs] column_batch [OF len bound] by (simp add: totals_of_def del: map_map)
    have hist: "BuildHistogram p (map Inr rows) w off n (length rows)
        (ps_minimum (advances p off n rows ?st)) (ps_maximum (advances p off n rows ?st)) =
      Inr (map (\<lambda>d. column_histogram (map (\<lambda>d. histogram_edges p (column_min (value_column p rows (off + d)))
                                   (column_max (value_column p rows (off + d)))) [0 ..< n] ! d) (value_column p rows (off + d))) [0 ..< n],
           map (\<lambda>d. histogram_edges p (column_min (value_column p rows (off + d)))
                                   (column_max (value_column p rows (off + d)))) [0 ..< n])"
      using BuildHistogram_ready [OF plain bound] column_batch [OF len bound] by (simp add: cols del: map_map)
    show ?thesis
      using False kept NumpyPairwiseStats_ready [OF rd bound refl] hist
        append_batch_reference [OF False cols totals refl refl]
      by (intro that [of "k + 2"]) (simp add: stats_batch_def Let_def n_def [symmetric])
  qed
qed

lemma stats_batches_ready:
  assumes "\<forall>r \<in> set rows. good_row p w preserve r" and "off \<le> w"
    and "preserve \<longrightarrow> off = 0 \<longrightarrow> ex_minimum exact = []"
  shows "stats_batches sqrt_t p (\<lambda>k. map Inr rows) w (length rows) use_float32 preserve off k exact
       (reference_stats sqrt_t p use_float32 preserve oc rows off) =
     Inr (reference_stats sqrt_t p use_float32 preserve oc rows w,
          if preserve \<and> off = 0 \<and> 0 < w then foldl (\<lambda>x r. merge_exact (snd r) x) exact rows else exact)"
  using assms(2,3)
proof (induction "w - off" arbitrary: off k exact rule: less_induct)
  case less
  show ?case
  proof (cases "off < w")
    case False
    then show ?thesis using less.prems by (auto simp: stats_batches.simps)
  next
    case True
    let ?n = "min LEROBOT_STATS_DIMENSION_BATCH_SIZE (w - off)"
    let ?exact = "if preserve \<and> off = 0 then foldl (\<lambda>x r. merge_exact (snd r) x) exact rows else exact"
    have n: "0 < ?n" "off + ?n \<le> w" using True by (auto simp: LEROBOT_STATS_DIMENSION_BATCH_SIZE_def)
    obtain k' where step: "stats_batch sqrt_t p (\<lambda>k. map Inr rows) w (length rows) use_float32 preserve off k exact
       (reference_stats sqrt_t p use_float32 preserve oc rows off) =
        Inr (reference_stats sqrt_t p use_float32 preserve oc rows (off + ?n), ?exact, k')"
      by (rule stats_batch_ready [OF assms(1) True less.prems(2)])
    have "stats_batches sqrt_t p (\<lambda>k. map Inr rows) w (length rows) use_float32 preserve (off + ?n) k' ?exact
       (reference_stats sqrt_t p use_float32 preserve oc rows (off + ?n)) =
     Inr (reference_stats sqrt_t p use_float32 preserve oc rows w, ?exact)"
      using less.hyps [of "off + ?n" ?exact k'] n True by simp
    then show ?thesis
      using True step
      by (simp add: stats_batches.simps [of sqrt_t p "\<lambda>k. map Inr rows" w "length rows" use_float32 preserve off])
  qed
qed

section \<open>Aggregated statistics\<close>

text \<open>The statistics of an episode, or of the dataset, for a feature of width \<open>w\<close>.\<close>

definition stats_shape :: "nat \<Rightarrow> bool \<Rightarrow> feature_stats \<Rightarrow> bool" where
  "stats_shape w integers s \<longleftrightarrow>
     0 < fs_count s \<and> length (fs_mean s) = w \<and> length (fs_stddev s) = w \<and>
     length (q01 s) = w \<and> length (q10 s) = w \<and> length (q50 s) = w \<and> length (q90 s) = w \<and> length (q99 s) = w \<and>
     (if integers
      then fs_min s = [] \<and> fs_max s = [] \<and> length (integer_min s) = w \<and> length (integer_max s) = w
      else integer_min s = [] \<and> integer_max s = [] \<and> length (fs_min s) = w \<and> length (fs_max s) = w \<and>
           (\<forall>x \<in> set (fs_min s) \<union> set (fs_max s). fis_finite x))"

lemma MinValue_finite: "fis_finite a \<Longrightarrow> fis_finite b \<Longrightarrow> fis_finite (MinValue a b) \<and> fle (MinValue a b) a \<and> fle (MinValue a b) b"
  by (cases a; cases b) (auto simp: MinValue_def fis_finite_def fle_def feq_def)

lemma MaxValue_finite: "fis_finite a \<Longrightarrow> fis_finite b \<Longrightarrow> fis_finite (MaxValue a b) \<and> fle a (MaxValue a b) \<and> fle b (MaxValue a b)"
  by (cases a; cases b) (auto simp: MaxValue_def fis_finite_def fle_def feq_def)

lemma fle_trans: "fle x y \<Longrightarrow> fle y z \<Longrightarrow> fle x z"
  by (cases x; cases y; cases z) (auto simp: fle_def feq_def)

lemma map2_all:
  "\<forall>x \<in> set xs. P x \<Longrightarrow> \<forall>y \<in> set ys. P y \<Longrightarrow> (\<And>a b. P a \<Longrightarrow> P b \<Longrightarrow> P (f a b)) \<Longrightarrow> \<forall>z \<in> set (map2 f xs ys). P z"
  by (auto, metis set_zip_leftD set_zip_rightD)

lemma MergeStats_shape:
  assumes "stats_shape w integers target" and "stats_shape w integers source"
  obtains t where "MergeStats sqrt_d target source integers = Inr t" "stats_shape w integers t"
    "fs_count t = fs_count target + fs_count source"
    "integers \<Longrightarrow> integer_min t = map2 min (integer_min source) (integer_min target)"
    "integers \<Longrightarrow> integer_max t = map2 max (integer_max source) (integer_max target)"
    "\<not> integers \<Longrightarrow> fs_min t = map2 MinValue (fs_min target) (fs_min source)"
    "\<not> integers \<Longrightarrow> fs_max t = map2 MaxValue (fs_max target) (fs_max source)"
proof -
  have fin: "\<forall>x \<in> set (map2 MinValue (fs_min target) (fs_min source)) \<union> set (map2 MaxValue (fs_max target) (fs_max source)). fis_finite x"
    if "\<not> integers"
    unfolding ball_Un
    by (intro conjI map2_all) (use assms that in \<open>auto simp: stats_shape_def MinValue_finite MaxValue_finite\<close>)
  have "\<exists>t. MergeStats sqrt_d target source integers = Inr t \<and> stats_shape w integers t \<and>
      fs_count t = fs_count target + fs_count source \<and>
      (if integers
       then integer_min t = map2 min (integer_min source) (integer_min target) \<and>
            integer_max t = map2 max (integer_max source) (integer_max target)
       else fs_min t = map2 MinValue (fs_min target) (fs_min source) \<and>
            fs_max t = map2 MaxValue (fs_max target) (fs_max source))"
    using assms fin by (cases integers) (simp_all add: MergeStats_def stats_shape_def Let_def min_max_if)
  then show thesis by (auto split: if_splits intro: that)
qed

text \<open>\<open>least xs x\<close>: \<open>x\<close> is one of \<open>xs\<close> and below or equal to all of them.\<close>

definition least :: "fp list \<Rightarrow> fp \<Rightarrow> bool" where
  "least xs x \<longleftrightarrow> x \<in> set xs \<and> (\<forall>y \<in> set xs. fle x y)"

definition greatest :: "fp list \<Rightarrow> fp \<Rightarrow> bool" where
  "greatest xs x \<longleftrightarrow> x \<in> set xs \<and> (\<forall>y \<in> set xs. fle y x)"

lemma least_Cons: "fis_finite a \<Longrightarrow> fis_finite b \<Longrightarrow> least (MinValue a b # xs) x \<Longrightarrow> least (a # b # xs) x"
  using MinValue_finite [of a b] by (auto simp: least_def MinValue_def intro: fle_trans split: if_splits)

lemma greatest_Cons: "fis_finite a \<Longrightarrow> fis_finite b \<Longrightarrow> greatest (MaxValue a b # xs) x \<Longrightarrow> greatest (a # b # xs) x"
  using MaxValue_finite [of a b] by (auto simp: greatest_def MaxValue_def intro: fle_trans split: if_splits)

lemma least_single: "fis_finite x \<Longrightarrow> least [x] x" "fis_finite x \<Longrightarrow> greatest [x] x"
  by (cases x; simp add: least_def greatest_def fle_def feq_def fis_finite_def)+

text \<open>What the statistics of a feature over several episodes say about its extrema and counts.\<close>

definition aggregate_of :: "nat \<Rightarrow> bool \<Rightarrow> feature_stats list \<Rightarrow> feature_stats \<Rightarrow> bool" where
  "aggregate_of w integers sources t \<longleftrightarrow>
     stats_shape w integers t \<and> fs_count t = sum_list (map fs_count sources) \<and>
     (\<forall>d < w.
        if integers
        then integer_min t ! d = Min ((\<lambda>s. integer_min s ! d) ` set sources) \<and>
             integer_max t ! d = Max ((\<lambda>s. integer_max s ! d) ` set sources)
        else least (map (\<lambda>s. fs_min s ! d) sources) (fs_min t ! d) \<and>
             greatest (map (\<lambda>s. fs_max s ! d) sources) (fs_max t ! d))"

lemma aggregate_single:
  assumes "stats_shape w integers s"
  shows "aggregate_of w integers [s] s"
proof -
  have "fis_finite (fs_min s ! d)" "fis_finite (fs_max s ! d)" if "\<not> integers" "d < w" for d
    using assms that nth_mem [of d "fs_min s"] nth_mem [of d "fs_max s"] by (auto simp: stats_shape_def)
  then show ?thesis using assms by (auto simp: aggregate_of_def least_single)
qed

lemma aggregate_step:
  assumes "stats_shape w integers a" and "stats_shape w integers b" and "MergeStats sqrt_d a b integers = Inr ab"
    and "aggregate_of w integers (ab # rest) t"
  shows "aggregate_of w integers (a # b # rest) t"
proof -
  obtain m where m: "MergeStats sqrt_d a b integers = Inr m" "fs_count m = fs_count a + fs_count b"
    "integers \<Longrightarrow> integer_min m = map2 min (integer_min b) (integer_min a)"
    "integers \<Longrightarrow> integer_max m = map2 max (integer_max b) (integer_max a)"
    "\<not> integers \<Longrightarrow> fs_min m = map2 MinValue (fs_min a) (fs_min b)"
    "\<not> integers \<Longrightarrow> fs_max m = map2 MaxValue (fs_max a) (fs_max b)"
    by (rule MergeStats_shape [OF assms(1,2), of sqrt_d]) blast
  have ab: "ab = m" using assms(3) m(1) by simp
  show ?thesis
  proof (cases integers)
    case True
    then have l: "length (integer_min a) = w" "length (integer_min b) = w" "length (integer_max a) = w" "length (integer_max b) = w"
      using assms(1,2) by (simp_all add: stats_shape_def)
    have "Min (insert (min y x) C) = Min (insert x (insert y C))" "Max (insert (max y x) C) = Max (insert x (insert y C))"
      if "finite C" for x y :: int and C
      using that by (cases "C = {}"; auto simp: min_def max_def)+
    then show ?thesis
      using assms(4) True m(2-4) l by (simp add: aggregate_of_def ab)
  next
    case False
    then have fin: "fis_finite (fs_min a ! d)" "fis_finite (fs_min b ! d)" "fis_finite (fs_max a ! d)" "fis_finite (fs_max b ! d)"
      and l: "length (fs_min a) = w" "length (fs_min b) = w" "length (fs_max a) = w" "length (fs_max b) = w"
      if "d < w" for d
      using assms(1,2) that by (auto simp: stats_shape_def)
    show ?thesis
      using assms(4) False m(2,5,6) l least_Cons [OF fin(1,2)] greatest_Cons [OF fin(3,4)]
      by (simp add: aggregate_of_def ab)
  qed
qed

lemma merge_all_shape:
  assumes "\<forall>s \<in> set sources. stats_shape w integers s" and "stats_shape w integers target"
  shows "\<exists>t. foldE (\<lambda>source target. MergeStats sqrt_d target source integers) sources target = Inr t \<and>
    aggregate_of w integers (target # sources) t"
  using assms
proof (induction sources arbitrary: target)
  case Nil
  then show ?case by (simp add: aggregate_single)
next
  case (Cons s sources)
  then have s: "stats_shape w integers s" by simp
  obtain m where m: "MergeStats sqrt_d target s integers = Inr m" "stats_shape w integers m"
    by (rule MergeStats_shape [OF Cons.prems(2) s])
  obtain t where "foldE (\<lambda>source target. MergeStats sqrt_d target source integers) sources m = Inr t"
    "aggregate_of w integers (m # sources) t"
    using Cons.IH [OF _ m(2)] Cons.prems(1) by auto
  then show ?case using aggregate_step [OF Cons.prems(2) s m(1)] m(1) by auto
qed

section \<open>Sampled frames\<close>

lemma rne_less: "x + 1 < y \<Longrightarrow> rne x < rne y"
proof -
  assume "x + 1 < y"
  then have "(of_int (rne x) :: rat) < of_int (rne y)"
    using rne_error [of x] rne_error [of y] by linarith
  then show ?thesis by simp
qed

lemma rnd64_relative:
  assumes "x = 0 \<or> 1 / 2 \<le> x \<and> x \<le> 2 ^ 40"
  obtains y where "rnd64 x = Fin y" and "\<bar>y - x\<bar> \<le> x / 2 ^ 53"
proof (cases "x = 0")
  case True
  then show ?thesis by (intro that [of 0]) simp_all
next
  case False
  with assms have x: "1 / 2 \<le> x" "x \<le> 2 ^ 40" by auto
  have "(2::rat) powi (- 1022) \<le> 2 powi (- 1)" by (rule power_int_increasing) auto
  also have "\<dots> \<le> \<bar>x\<bar>" using x(1) by (simp add: power_int_minus)
  finally have lo: "(2::rat) powi (- 1022) \<le> \<bar>x\<bar>" .
  have "\<bar>x\<bar> \<le> 2 ^ 40" using x by simp
  also have "\<dots> \<le> (2::rat) ^ 1000" by (rule power_increasing) auto
  finally have hi: "\<bar>x\<bar> \<le> 2 ^ 1000" .
  obtain y where "rnd64 x = Fin y" "\<bar>y - x\<bar> \<le> \<bar>x\<bar> / 2 ^ 53" by (rule rnd64_error [OF lo hi])
  moreover have "\<bar>x\<bar> = x" using x(1) by simp
  ultimately show ?thesis by (intro that) simp_all
qed

text \<open>The position of a sample is within \<open>3 / 2 ^ 17\<close> of the exact one.\<close>

lemma sample_position_error:
  fixes N S i :: nat
  assumes "1 \<le> S" and "S \<le> N" and "N \<le> 2 ^ 36" and "i \<le> S"
  obtains q where
    "sample_position (N + 1) (S + 1) (ddiv (int_to_double (int N)) (int_to_double (int S))) i = Fin q"
    "\<bar>q - of_nat i * (of_nat N / of_nat S)\<bar> \<le> 3 / 2 ^ 17"
proof -
  define x :: rat where "x = of_nat N / of_nat S"
  have N: "(of_nat N :: rat) \<le> 2 ^ 36" using assms(3) by (metis of_nat_le_iff of_nat_numeral of_nat_power)
  have S: "(1 :: rat) \<le> of_nat S" "(of_nat S :: rat) \<le> of_nat N" using assms(1,2) by simp_all
  have Sx: "of_nat S * x = of_nat N" using S by (simp add: x_def)
  have x: "1 \<le> x" using S by (simp add: x_def)
  have "x \<le> of_nat N / 1" unfolding x_def using S by (intro divide_left_mono) auto
  then have x36: "x \<le> 2 ^ 36" using N by simp
  have d: "int_to_double (int k) = Fin (of_nat k)" if "k \<le> 2 ^ 36" for k
    using int_to_double_exact [of "int k"] that by simp
  show ?thesis
  proof (cases "i = S")
    case True
    then show ?thesis
      using S d [OF assms(3)] by (intro that [of "of_nat N"]) (simp_all add: sample_position_def)
  next
    case False
    obtain t where t: "rnd64 x = Fin t" "\<bar>t - x\<bar> \<le> x / 2 ^ 53"
      by (rule rnd64_relative [of x]) (use x x36 in auto)
    have step: "ddiv (int_to_double (int N)) (int_to_double (int S)) = Fin t"
      using d [OF assms(3)] d [of S] assms S t(1) by (simp add: ddiv_def x_def)
    have ix: "of_nat i * x \<le> of_nat N"
    proof -
      have "of_nat i * x \<le> of_nat S * x" using assms(4) x by (intro mult_right_mono) auto
      then show ?thesis using Sx by simp
    qed
    have it: "\<bar>of_nat i * t - of_nat i * x\<bar> \<le> of_nat i * x / 2 ^ 53"
    proof -
      have "\<bar>of_nat i * t - of_nat i * x\<bar> = of_nat i * \<bar>t - x\<bar>"
        by (simp add: abs_mult flip: right_diff_distrib)
      also have "\<dots> \<le> of_nat i * (x / 2 ^ 53)" using t(2) by (intro mult_left_mono) auto
      finally show ?thesis by simp
    qed
    have err: "of_nat i * x / 2 ^ 53 \<le> 1 / 2 ^ 17"
      using order.trans [OF ix N] by (simp add: divide_le_eq mult.commute)
    have near: "\<bar>of_nat i * t - of_nat i * x\<bar> \<le> 1 / 2 ^ 17" using it err by (rule order.trans)
    then have near': "\<bar>of_nat i * t - of_nat i * x\<bar> \<le> 1 / 131072" by simp
    have range: "of_nat i * t = 0 \<or> 1 / 2 \<le> of_nat i * t \<and> of_nat i * t \<le> 2 ^ 40"
    proof (cases "i = 0")
      case False
      have "1 \<le> of_nat i * x" using False x by (metis less_one linorder_not_le mult_mono' mult_1 of_nat_0_le_iff of_nat_1 of_nat_le_iff zero_le_one)
      moreover have "of_nat i * x \<le> 68719476736" using order.trans [OF ix N] by simp
      ultimately have "1 / 2 \<le> of_nat i * t" "of_nat i * t \<le> 1099511627776" using near' by linarith+
      then have "1 / 2 \<le> of_nat i * t \<and> of_nat i * t \<le> 2 ^ 40" by simp
      then show ?thesis by blast
    qed simp
    obtain q where q: "rnd64 (of_nat i * t) = Fin q" "\<bar>q - of_nat i * t\<bar> \<le> of_nat i * t / 2 ^ 53"
      by (rule rnd64_relative [OF range])
    have "of_nat i * t \<le> of_nat i * x + 1" using near' by linarith
    also have "\<dots> \<le> 2 ^ 37" using order.trans [OF ix N] by simp
    finally have "of_nat i * t / 2 ^ 53 \<le> 1 / 65536" by (simp add: divide_le_eq mult.commute)
    then have "\<bar>q - of_nat i * x\<bar> \<le> 3 / 131072" using q(2) near' by linarith
    then have "\<bar>q - of_nat i * x\<bar> \<le> 3 / 2 ^ 17" by simp
    moreover have "sample_position (N + 1) (S + 1) (Fin t) i = Fin q"
      using False assms(3,4) d [of i] assms(2) q(1) by (simp add: sample_position_def dmul_def)
    ultimately show ?thesis using step by (intro that) (simp_all add: x_def)
  qed
qed

lemma sample_count_bounds:
  assumes "1 \<le> n" and "pow75 (int_to_double (int n)) = Fin y" and "0 \<le> y" and "y \<le> of_nat n"
  shows "min 100 n \<le> sample_count pow75 n \<and> sample_count pow75 n \<le> min n 10000 \<and> 1 \<le> sample_count pow75 n"
proof -
  have "\<lfloor>y\<rfloor> \<le> int n" using assms(4) by (simp add: floor_le_iff)
  then have "nat (to_int64 (pow75 (int_to_double (int n)))) \<le> n" using assms(2,3) by simp
  then show ?thesis using assms(1) unfolding sample_count_def Let_def by linarith
qed

definition sample_index :: "nat \<Rightarrow> nat \<Rightarrow> nat \<Rightarrow> int" where
  "sample_index N S i =
     to_int64 (nearbyint (sample_position (N + 1) (S + 1) (ddiv (int_to_double (int N)) (int_to_double (int S))) i))"

lemma sample_index_ends:
  assumes "1 \<le> S" and "S \<le> N" and "N \<le> 2 ^ 36"
  shows "sample_index N S 0 = 0" and "sample_index N S S = int N"
proof -
  obtain q where q: "sample_position (N + 1) (S + 1) (ddiv (int_to_double (int N)) (int_to_double (int S))) 0 = Fin q"
    "\<bar>q\<bar> \<le> 3 / 2 ^ 17"
    using sample_position_error [OF assms, of 0] by auto
  then have "\<bar>q - of_int 0\<bar> < 1 / 2" by simp
  then have "rne q = 0" by (rule rne_unique)
  then show "sample_index N S 0 = 0" using to_int64_of_int [of 0] q(1) by (simp add: sample_index_def)
  obtain q where q: "sample_position (N + 1) (S + 1) (ddiv (int_to_double (int N)) (int_to_double (int S))) S = Fin q"
    "\<bar>q - of_nat S * (of_nat N / of_nat S)\<bar> \<le> 3 / 2 ^ 17"
    by (rule sample_position_error [OF assms, of S]) auto
  then have "\<bar>q - of_int (int N)\<bar> < 1 / 2" using assms(1) by simp
  then have "rne q = int N" by (rule rne_unique)
  then show "sample_index N S S = int N" using q(1) by (simp add: sample_index_def)
qed

text \<open>
  Consecutive samples are different frames: with fewer samples than frames the exact positions are
  more than \<open>1 + 1 / 10000\<close> apart, with as many the step is exactly one.
\<close>

lemma sample_index_less:
  assumes "1 \<le> S" and "S \<le> N" and "N \<le> 2 ^ 36" and "S \<le> 9999" and "i < S"
  shows "sample_index N S i < sample_index N S (i + 1)"
proof (cases "S = N")
  case True
  have "sample_index N N k = int k" if "k \<le> N" for k
  proof -
    have d: "int_to_double (int j) = Fin (of_nat j)" if "j \<le> N" for j
      using int_to_double_exact [of "int j"] that assms(4) True by simp
    have "ddiv (Fin (of_nat N)) (Fin (of_nat N)) = Fin 1"
      using rnd64_exact [OF is_double_int [of 1]] assms(1) True by (simp add: ddiv_def)
    moreover have "dmul (Fin (of_nat k)) (Fin 1) = Fin (of_nat k)"
      using rnd64_exact [OF is_double_int [of "int k"]] that assms(4) True by (simp add: dmul_def)
    ultimately have "sample_position (N + 1) (N + 1) (ddiv (int_to_double (int N)) (int_to_double (int N))) k = Fin (of_int (int k))"
      using d that by (simp add: sample_position_def)
    then show ?thesis using rne_of_int [of "int k"] by (simp add: sample_index_def)
  qed
  then show ?thesis using assms(5) True by simp
next
  case False
  define x :: rat where "x = of_nat N / of_nat S"
  have "of_nat S + 1 \<le> (of_nat N :: rat)"
    using False assms(2) by (metis Suc_eq_plus1 Suc_leI le_neq_implies_less of_nat_1 of_nat_add of_nat_le_iff)
  then have "(of_nat S + 1) / of_nat S \<le> x" unfolding x_def by (intro divide_right_mono) auto
  moreover have "(of_nat S + 1) / of_nat S = 1 + 1 / (of_nat S :: rat)" using assms(1) by (simp add: add_divide_distrib)
  moreover have "1 / 9999 \<le> 1 / (of_nat S :: rat)" using assms(1,4) by (simp add: divide_simps)
  ultimately have x: "1 + 1 / 9999 \<le> x" by linarith
  obtain a where a: "sample_position (N + 1) (S + 1) (ddiv (int_to_double (int N)) (int_to_double (int S))) i = Fin a"
    "\<bar>a - of_nat i * x\<bar> \<le> 3 / 2 ^ 17"
    unfolding x_def by (rule sample_position_error [OF assms(1-3), of i]) (use assms(5) in auto)
  obtain b where b: "sample_position (N + 1) (S + 1) (ddiv (int_to_double (int N)) (int_to_double (int S))) (i + 1) = Fin b"
    "\<bar>b - of_nat (i + 1) * x\<bar> \<le> 3 / 2 ^ 17"
    unfolding x_def by (rule sample_position_error [OF assms(1-3), of "i + 1"]) (use assms(5) in auto)
  have "\<bar>a - of_nat i * x\<bar> \<le> 3 / 131072" "\<bar>b - (of_nat i * x + x)\<bar> \<le> 3 / 131072"
    using a(2) b(2) by (simp_all add: distrib_right add.commute)
  with x have "a + 1 < b" by linarith
  then have "rne a < rne b" by (rule rne_less)
  then show ?thesis using a(1) b(1) by (simp add: sample_index_def)
qed

section \<open>Properties\<close>

text \<open>
  C32. \<open>ComputeStatsTyped\<close> on a feature of any width and any number of well-formed rows returns, for each
  dimension, the statistics of its own column: extrema, mean and standard deviation from NumPy's
  pairwise sums of the column, quantiles from the column's histogram. Streaming, the batches of 64
  dimensions and the order of the two passes do not show in the result, and the extrema of integer
  features are the exact ones.
\<close>
theorem compute_stats_columnwise:
  assumes "\<forall>r \<in> set rows. good_row p w preserve r" and "rows \<noteq> []" and "int (length rows) \<le> INT64_MAX"
    and "0 < w" and "0 < output_count"
  shows "ComputeStatsTyped sqrt_t p (\<lambda>k. map Inr rows) w output_count use_float32 preserve =
    Inr ((reference_stats sqrt_t p use_float32 preserve output_count rows w)
      \<lparr>integer_min := (if preserve then map (\<lambda>d. Min (set (integer_column rows d))) [0 ..< w] else []),
       integer_max := (if preserve then map (\<lambda>d. Max (set (integer_column rows d))) [0 ..< w] else [])\<rparr>)"
proof -
  let ?empty = "\<lparr>ex_row = [], ex_minimum = [], ex_maximum = []\<rparr>"
  have start: "new_stats output_count use_float32 = reference_stats sqrt_t p use_float32 preserve output_count rows 0"
    by (simp add: new_stats_def reference_stats_def)
  have run: "stats_batches sqrt_t p (\<lambda>k. map Inr rows) w (length rows) use_float32 preserve 0 1 ?empty
      (new_stats output_count use_float32) =
    Inr (reference_stats sqrt_t p use_float32 preserve output_count rows w,
         if preserve \<and> 0 < w then foldl (\<lambda>x r. merge_exact (snd r) x) ?empty rows else ?empty)"
    unfolding start by (subst stats_batches_ready [OF assms(1)]) simp_all
  have ints: "ex_minimum (foldl (\<lambda>x r. merge_exact (snd r) x) ?empty rows) = map (\<lambda>d. Min (set (integer_column rows d))) [0 ..< w]"
    "ex_maximum (foldl (\<lambda>x r. merge_exact (snd r) x) ?empty rows) = map (\<lambda>d. Max (set (integer_column rows d))) [0 ..< w]"
    if preserve
    using exact_extrema_of_rows [of rows w ?empty] assms(1-4) that by (auto simp: good_row_def)
  show ?thesis
    using assms(2-5) ints run
    by (cases preserve) (simp_all add: ComputeStatsTyped_def reference_stats_def)
qed

text \<open>Two rows of two integers.\<close>

definition example_rows :: "stats_row list" where
  "example_rows = [([Fin 3, Fin 5], [3, 5]), ([Fin 7, Fin 4], [7, 4])]"

theorem compute_stats_columnwise_witness:
  "\<exists>stats. ComputeStatsTyped (\<lambda>p x. x) F64 (\<lambda>k. map Inr example_rows) 2 2 False True = Inr stats \<and>
     integer_min stats = [3, 4] \<and> integer_max stats = [7, 5] \<and> length (q50 stats) = 2 \<and> fs_count stats = 2"
proof -
  have good: "\<forall>r \<in> set example_rows. good_row F64 2 True r"
    by (simp add: example_rows_def good_row_def fcast_def fis_finite_def)
  have pre: "example_rows \<noteq> []" "int (length example_rows) \<le> INT64_MAX" "0 < (2::nat)"
    by (simp_all add: example_rows_def INT64_MAX_def)
  show ?thesis
    unfolding compute_stats_columnwise [OF good pre(1,2,3,3)]
    by (simp add: reference_stats_def integer_column_def example_rows_def upt_rec)
qed

text \<open>
  C36. Aggregating the statistics of the episodes of a feature into those of the dataset succeeds for any
  number of episodes of the same width: the count is the sum of their counts, and the extrema are the
  least and greatest of theirs, exact for integer features.
\<close>
theorem merged_stats_aggregate:
  assumes "sources \<noteq> []" and "\<forall>s \<in> set sources. stats_shape w integers s" and "fs_count start = 0"
  shows "\<exists>t. foldE (\<lambda>source target. MergeStats sqrt_d target source integers) sources start = Inr t \<and>
    aggregate_of w integers sources t"
proof -
  obtain s rest where s: "sources = s # rest" using assms(1) by (cases sources) auto
  then have "MergeStats sqrt_d start s integers = Inr s" using assms(3) by (simp add: MergeStats_def)
  with merge_all_shape [of rest w integers s sqrt_d] assms(2) show ?thesis by (simp add: s)
qed

definition example_stats :: "nat \<Rightarrow> int \<Rightarrow> feature_stats" where
  "example_stats n i = (new_stats n False)\<lparr>integer_min := [i], integer_max := [i], fs_mean := [Fin 1], fs_stddev := [Fin 0],
     q01 := [Fin 1], q10 := [Fin 1], q50 := [Fin 1], q90 := [Fin 1], q99 := [Fin 1]\<rparr>"

theorem merged_stats_aggregate_witness:
  "\<exists>t. foldE (\<lambda>source target. MergeStats id target source True)
       [example_stats 5 9, example_stats 2 (- 3)] (new_stats 0 False) = Inr t \<and>
     fs_count t = 7 \<and> integer_min t ! 0 = - 3 \<and> integer_max t ! 0 = 9"
proof -
  have "\<forall>s \<in> set [example_stats 5 9, example_stats 2 (- 3)]. stats_shape 1 True s"
    by (simp add: stats_shape_def example_stats_def new_stats_def)
  then show ?thesis
    using merged_stats_aggregate [of "[example_stats 5 9, example_stats 2 (- 3)]" 1 True "new_stats 0 False" id]
    by (simp add: aggregate_of_def example_stats_def new_stats_def) fastforce
qed

text \<open>
  C35. The frames sampled for the statistics of a visual feature are different frames of the episode in
  ascending order that start with the first and end with the last, between \<open>min 100 n\<close> and
  \<open>min n 10000\<close> of them: the rounded step of \<open>double\<close> arithmetic never makes two samples coincide or
  leave the episode, for up to \<open>2 ^ 36\<close> frames.
\<close>
theorem sampled_frames_distinct:
  assumes "1 \<le> n" and "n \<le> 2 ^ 36" and "pow75 (int_to_double (int n)) = Fin y" and "0 \<le> y" and "y \<le> of_nat n"
  shows "sorted_wrt (<) (SampleVisualFrameIndices pow75 n) \<and>
    hd (SampleVisualFrameIndices pow75 n) = 0 \<and> last (SampleVisualFrameIndices pow75 n) = n - 1 \<and>
    min 100 n \<le> length (SampleVisualFrameIndices pow75 n) \<and> length (SampleVisualFrameIndices pow75 n) \<le> min n 10000"
proof -
  let ?s = "sample_count pow75 n"
  note s = sample_count_bounds [of n pow75 y, OF assms(1,3-5)]
  show ?thesis
  proof (cases "?s = 1")
    case True
    then show ?thesis using s assms(1) by (simp add: SampleVisualFrameIndices_def)
  next
    case False
    obtain N S where NS: "n = N + 1" "?s = S + 1" "1 \<le> S" "S \<le> N" "S \<le> 9999" "N \<le> 2 ^ 36"
      using False s assms(1,2) by (intro that [of "n - 1" "?s - 1"]) auto
    have idx: "SampleVisualFrameIndices pow75 n = map (\<lambda>i. nat (sample_index N S i)) [0 ..< S + 1]"
      using NS(2,3) by (simp add: SampleVisualFrameIndices_def sample_index_def NS(1) Let_def del: upt_Suc)
    have less: "sample_index N S i < sample_index N S (i + 1)" if "i < S" for i
      using sample_index_less [OF NS(3,4,6,5) that] .
    have nonneg: "0 \<le> sample_index N S i" if "i \<le> S" for i
      using that
    proof (induction i)
      case 0
      then show ?case using sample_index_ends(1) [OF NS(3,4,6)] by simp
    next
      case (Suc i)
      then show ?case using less [of i] by simp
    qed
    have "0 < sample_index N S (Suc i)" if "i < S" for i
      using less [OF that] nonneg [of i] that by simp
    then have "sorted_wrt (<) (map (\<lambda>i. nat (sample_index N S i)) [0 ..< S + 1])"
      using less nonneg by (simp add: sorted_wrt_iff_nth_Suc_transp del: upt_Suc)
    moreover have "last (map (\<lambda>i. nat (sample_index N S i)) [0 ..< S + 1]) = n - 1"
      using sample_index_ends(2) [OF NS(3,4,6)] NS(1) by simp
    moreover have "hd (map (\<lambda>i. nat (sample_index N S i)) [0 ..< S + 1]) = 0"
      using sample_index_ends(1) [OF NS(3,4,6)] by (simp add: hd_map del: upt_Suc)
    ultimately show ?thesis using s NS(2) by (simp only: idx length_map length_upt) simp
  qed
qed

theorem sampled_frames_distinct_witness:
  "sorted_wrt (<) (SampleVisualFrameIndices id 250) \<and> last (SampleVisualFrameIndices id 250) = 249"
  using sampled_frames_distinct [of 250 id 250] int_to_double_exact [of 250] by simp

end
