(* ===== verification/CopyBind.thy ===== *)
theory CopyBind
  imports CopyStats CopyOptions DatasetInfo
begin

text \<open>
  The binding of \<open>COPY ... (FORMAT lerobot)\<close> (\<open>src/function/copy/lerobot_copy.cpp\<close>): the features of the
  FEATURES option, the features the writer generates, the columns of the frame and episode files it will
  write, and the JSON texts that depend on the features only. The columns are compared with the schemas
  the reader rebuilds for a dataset without episodes.
\<close>

section \<open>Features\<close>

text \<open>
  A row of the query over the FEATURES JSON: key, dtype, shape, the JSON text of the feature, its
  depth flag and its names (the query replaces absent values of the last two).
\<close>

record feature_row =
  fr_key :: "string option"
  fr_dtype :: "string option"
  fr_shape :: "int option list option"
  fr_json :: "string option"
  fr_is_depth :: bool
  fr_names :: string

definition ShapeWidth :: "nat list \<Rightarrow> nat result" where
  "ShapeWidth shape =
     foldE (\<lambda>dimension w.
       require (\<not> (dimension = 0 \<or> w > IDX_MAX div dimension)) ''LeRobot feature shape is empty or too large'' (
       Inr (w * dimension))) shape 1"

text \<open>\<open>max_array\<close> is \<open>ArrayType::MAX_ARRAY_SIZE\<close>, \<open>lower\<close> the case folding of DuckDB.\<close>

definition feature_dimension :: "nat \<Rightarrow> string \<Rightarrow> int option \<Rightarrow> nat result" where
  "feature_dimension max_array dtype dimension =
     (case dimension of
        None \<Rightarrow> Inl (BinderException ''LeRobot feature shape cannot contain NULL'')
      | Some value \<Rightarrow>
          require (\<not> value \<le> 0) ''LeRobot feature shape dimensions must be positive'' (
          require (\<not> (nat value > IDX_MAX \<or> (dtype \<noteq> ''image'' \<and> dtype \<noteq> ''video'' \<and> nat value > max_array)))
            ''LeRobot feature shape dimension is too large'' (
          Inr (nat value))))"

definition generated_names :: "string list" where
  "generated_names = [''task'', ''timestamp'', ''frame_index'', ''episode_index'', ''index'', ''task_index'']"

definition user_feature ::
  "string \<Rightarrow> string \<Rightarrow> string \<Rightarrow> string \<Rightarrow> nat list \<Rightarrow> logical_type \<Rightarrow> logical_type \<Rightarrow> bool \<Rightarrow> copy_feature" where
  "user_feature name dtype json names shape storage output depth =
     \<lparr>cf_name = name, cf_dtype = dtype, cf_json = json, names_json = names, cf_shape = shape,
      storage_type = storage, output_type = output, input_index = None, output_index = None,
      user_defined = True, is_string = (dtype = ''string''), is_image = (dtype = ''image''),
      is_video = (dtype = ''video''), is_depth = depth\<rparr>"

definition parse_user_feature ::
  "(string \<Rightarrow> string) \<Rightarrow> nat \<Rightarrow> feature_row \<Rightarrow> copy_feature list \<Rightarrow> copy_feature list result" where
  "parse_user_feature lower max_array row features =
     (case (fr_key row, fr_dtype row, fr_shape row, fr_json row) of
        (Some name, Some dtype, Some dimensions, Some json) \<Rightarrow>
          bindE (mapE (feature_dimension max_array dtype) dimensions) (\<lambda>shape.
          bindE (ValidateLerobotFeatureName lower name) (\<lambda>_.
          require (\<not> (shape = [] \<or> length shape > 5)) ''LeRobot feature requires a shape with one to five dimensions'' (
          require (lower name \<notin> set (map lower generated_names))
            ''LeRobot feature is generated by FORMAT lerobot and must not be in FEATURES'' (
          require (lower name \<notin> set (map (lower \<circ> cf_name) features)) ''Duplicate LeRobot feature name'' (
          let image = (dtype = ''image''); video = (dtype = ''video''); depth = fr_is_depth row
          in require (\<not> ((image \<or> video) \<and> length shape \<noteq> 3))
               ''LeRobot visual feature requires a three-dimensional HWC shape'' (
             require (\<not> (depth \<and> \<not> image \<and> \<not> video)) ''LeRobot feature marks is_depth_map but is not visual'' (
             require (\<not> ((image \<or> video) \<and> shape ! 2 \<noteq> (if depth then 1 else 3)))
               ''LeRobot visual feature requires HWC channels'' (
             bindE (LerobotFeatureStorageType dtype shape) (\<lambda>storage.
             bindE (LerobotFeatureOutputType dtype shape) (\<lambda>output.
             bindE (ShapeWidth shape) (\<lambda>_.
             Inr (features @ [user_feature name dtype json (fr_names row) shape storage output depth]))))))))))))
      | _ \<Rightarrow> Inl (BinderException ''Each LeRobot feature requires non-NULL dtype and shape fields''))"

definition ParseUserFeatures :: "(string \<Rightarrow> string) \<Rightarrow> nat \<Rightarrow> feature_row list \<Rightarrow> copy_feature list result" where
  "ParseUserFeatures lower max_array rows = foldE (parse_user_feature lower max_array) rows []"

definition DefaultFeature :: "string \<Rightarrow> string \<Rightarrow> copy_feature result" where
  "DefaultFeature name dtype =
     bindE (LerobotDtypeToLogicalType dtype) (\<lambda>type.
     Inr \<lparr>cf_name = name, cf_dtype = dtype,
       cf_json = ''{\"dtype\":'' @ JsonEscape dtype @ '',\"shape\":[1],\"names\":null}'', names_json = ''null'',
       cf_shape = [1], storage_type = type, output_type = type, input_index = None, output_index = None,
       user_defined = False, is_string = False, is_image = False, is_video = False, is_depth = False\<rparr>)"

section \<open>JSON of the features\<close>

fun join_comma :: "string list \<Rightarrow> string" where
  "join_comma [] = ''''"
| "join_comma [s] = s"
| "join_comma (s # t # ts) = s @ '','' @ join_comma (t # ts)"

definition FullFeaturesJSON :: "copy_feature list \<Rightarrow> string" where
  "FullFeaturesJSON features = ''{'' @ join_comma (map (\<lambda>f. JsonEscape (cf_name f) @ '':'' @ cf_json f) features) @ ''}''"

definition ShapeJSON :: "nat list \<Rightarrow> string" where
  "ShapeJSON shape = ''['' @ join_comma (map to_string shape) @ '']''"

definition HuggingFaceFeatureJSON :: "copy_feature \<Rightarrow> string" where
  "HuggingFaceFeatureJSON feature =
     (if is_video feature then ''''
      else if is_image feature then ''{\"_type\":\"Image\"}''
      else if length (cf_shape feature) = 1 \<and> cf_shape feature ! 0 = 1
      then ''{\"dtype\":'' @ JsonEscape (cf_dtype feature) @ '',\"_type\":\"Value\"}''
      else if length (cf_shape feature) = 1
      then ''{\"feature\":{\"dtype\":'' @ JsonEscape (cf_dtype feature) @ '',\"_type\":\"Value\"},\"length\":'' @
           to_string (cf_shape feature ! 0) @ '',\"_type\":\"List\"}''
      else ''{\"shape\":'' @ ShapeJSON (cf_shape feature) @ '',\"dtype\":'' @ JsonEscape (cf_dtype feature) @
           '',\"_type\":\"Array'' @ to_string (length (cf_shape feature)) @ ''D\"}'')"

definition HuggingFaceMetadataJSON :: "copy_feature list \<Rightarrow> string" where
  "HuggingFaceMetadataJSON features =
     ''{\"info\":{\"features\":{'' @
     join_comma (map (\<lambda>f. JsonEscape (cf_name f) @ '':'' @ HuggingFaceFeatureJSON f)
       (filter (\<lambda>f. HuggingFaceFeatureJSON f \<noteq> '''') features)) @ ''}}}''"

section \<open>Binding\<close>

record copy_bind =
  bd_input_names :: "string list"
  bd_input_types :: "logical_type list"
  bd_features :: "copy_feature list"
  bd_data :: scan_schema
    \<comment> \<open>\<open>data_names\<close> and \<open>data_types\<close>\<close>
  bd_episode :: scan_schema
    \<comment> \<open>\<open>episode_names\<close> and \<open>episode_types\<close>\<close>
  bd_episode_input :: nat
  bd_task_input :: nat
  bd_config :: copy_config
  bd_features_json :: string

definition stat_shape :: "copy_feature \<Rightarrow> nat list" where
  "stat_shape feature = (if is_image feature \<or> is_video feature then [cf_shape feature ! 2, 1, 1] else cf_shape feature)"

definition stat_column_names :: "string list" where
  "stat_column_names = [''min'', ''max'', ''mean'', ''std'', ''count'', ''q01'', ''q10'', ''q50'', ''q90'', ''q99'']"

definition AppendStatColumns :: "copy_feature \<Rightarrow> scan_schema \<Rightarrow> scan_schema result" where
  "AppendStatColumns feature columns =
     (if \<not> HasStatistics feature then Inr columns
      else
        bindE (LerobotStatExtremaLeafType (cf_dtype feature)) (\<lambda>leaf.
        let extrema_type = LerobotNestedListType leaf (length (stat_shape feature));
            value_type = LerobotNestedListType DOUBLE (length (stat_shape feature));
            count_type = LIST BIGINT
        in Inr (columns @ map (\<lambda>name. (''stats/'' @ cf_name feature @ ''/'' @ name,
              if name = ''count'' then count_type
              else if name = ''min'' \<or> name = ''max'' then extrema_type else value_type))
            stat_column_names)))"

definition AppendVideoColumns :: "copy_feature \<Rightarrow> scan_schema \<Rightarrow> scan_schema" where
  "AppendVideoColumns feature columns =
     (if \<not> is_video feature then columns
      else
        let pre = ''videos/'' @ cf_name feature @ ''/''
        in columns @ [(pre @ ''chunk_index'', BIGINT), (pre @ ''file_index'', BIGINT),
                      (pre @ ''from_timestamp'', DOUBLE), (pre @ ''to_timestamp'', DOUBLE)])"

text \<open>The case-insensitive map from input columns to their positions.\<close>

definition input_position :: "(string \<Rightarrow> string) \<Rightarrow> string list \<Rightarrow> string \<Rightarrow> nat option" where
  "input_position lower names name = map_of (zip (map lower names) [0 ..< length names]) (lower name)"

text \<open>One round of the loop over the features: the bound features, the data columns and the number of input columns.\<close>

definition bind_input ::
  "(string \<Rightarrow> string) \<Rightarrow> string list \<Rightarrow> logical_type list \<Rightarrow> copy_feature \<Rightarrow> nat \<Rightarrow> (copy_feature \<times> nat) result" where
  "bind_input lower names types feature expected =
     (if user_defined feature
      then (case input_position lower names (cf_name feature) of
              None \<Rightarrow> Inl (BinderException ''FORMAT lerobot input is missing feature column'')
            | Some index \<Rightarrow>
                require (types ! index = storage_type feature) ''LeRobot feature requires another DuckDB type'' (
                Inr (feature\<lparr>input_index := Some index\<rparr>, expected + 1)))
      else Inr (feature, expected))"

definition bind_feature ::
  "(string \<Rightarrow> string) \<Rightarrow> string list \<Rightarrow> logical_type list \<Rightarrow> copy_feature \<Rightarrow>
     copy_feature list \<times> scan_schema \<times> nat \<Rightarrow> (copy_feature list \<times> scan_schema \<times> nat) result" where
  "bind_feature lower names types feature = (\<lambda>(bound, columns, expected).
     bindE (bind_input lower names types feature expected) (\<lambda>(feature1, expected').
     if is_video feature1 then Inr (bound @ [feature1], columns, expected')
     else Inr (bound @ [feature1\<lparr>output_index := Some (length columns)\<rparr>],
               columns @ [(cf_name feature1, output_type feature1)], expected')))"

definition episode_base_columns :: scan_schema where
  "episode_base_columns =
     [(''episode_index'', BIGINT), (''tasks'', LIST VARCHAR), (''length'', BIGINT), (''data/chunk_index'', BIGINT),
      (''data/file_index'', BIGINT), (''dataset_from_index'', BIGINT), (''dataset_to_index'', BIGINT)]"

definition default_features :: "copy_feature list result" where
  "default_features = mapE (\<lambda>(name, dtype). DefaultFeature name dtype)
     [(''timestamp'', ''float32''), (''frame_index'', ''int64''), (''episode_index'', ''int64''),
      (''index'', ''int64''), (''task_index'', ''int64'')]"

text \<open>The part of \<open>LerobotCopyBind\<close> after the options: input columns, data columns and episode columns.\<close>

definition bind_columns ::
  "(string \<Rightarrow> string) \<Rightarrow> string list \<Rightarrow> logical_type list \<Rightarrow> copy_config \<Rightarrow> copy_feature list \<Rightarrow> copy_bind result" where
  "bind_columns lower names types config features =
     require (distinct (map lower names)) ''FORMAT lerobot input columns must be unique'' (
     case (input_position lower names ''episode_index'', input_position lower names ''task'') of
       (Some episode_entry, Some task_entry) \<Rightarrow>
         require (types ! episode_entry = BIGINT) ''FORMAT lerobot episode_index must be BIGINT'' (
         require (types ! task_entry = VARCHAR) ''FORMAT lerobot task must be VARCHAR'' (
         bindE (foldE (bind_feature lower names types) features ([], [], 2)) (\<lambda>(bound, data_columns, expected).
         require (length names = expected) ''FORMAT lerobot input has unexpected columns'' (
         bindE (foldE AppendStatColumns bound
             (foldl (\<lambda>columns f. AppendVideoColumns f columns) episode_base_columns bound)) (\<lambda>episode_columns.
         Inr \<lparr>bd_input_names = names, bd_input_types = types, bd_features = bound, bd_data = data_columns,
           bd_episode = episode_columns @ [(''meta/episodes/chunk_index'', BIGINT), (''meta/episodes/file_index'', BIGINT)],
           bd_episode_input = episode_entry, bd_task_input = task_entry, bd_config = config,
           bd_features_json = FullFeaturesJSON features\<rparr>)))))
     | _ \<Rightarrow> Inl (BinderException ''FORMAT lerobot input requires episode_index and task columns''))"

text \<open>\<open>query\<close> is the query over the FEATURES JSON.\<close>

definition LerobotCopyBind ::
  "value_casts \<Rightarrow> (fp \<Rightarrow> fp) \<Rightarrow> nat \<Rightarrow> (string \<Rightarrow> string) \<Rightarrow> nat \<Rightarrow> (string \<Rightarrow> feature_row list result) \<Rightarrow>
     copy_options \<Rightarrow> string list \<Rightarrow> logical_type list \<Rightarrow> copy_bind result" where
  "LerobotCopyBind c log_d threads lower max_array query options names types =
     (if length names \<noteq> length types then Inl (InternalException ''LeRobot COPY input names/types size mismatch'')
      else
        bindE (ParseLerobotCopyRequiredConfig c options) (\<lambda>config0.
        bindE (query (features_json config0)) (\<lambda>rows.
        bindE (ParseUserFeatures lower max_array rows) (\<lambda>user_features.
        bindE default_features (\<lambda>defaults.
        bindE (ParseLerobotCopyOptionalConfig c log_d threads options config0) (\<lambda>config.
        bind_columns lower names types config (user_features @ defaults)))))))"

section \<open>What a binding guarantees\<close>

text \<open>The checks a feature has passed, as far as the reader makes them again.\<close>

definition feature_ok :: "copy_feature \<Rightarrow> bool" where
  "feature_ok f \<longleftrightarrow>
     cf_shape f \<noteq> [] \<and> length (cf_shape f) \<le> 5 \<and>
     is_string f = (cf_dtype f = ''string'') \<and> is_image f = (cf_dtype f = ''image'') \<and>
     is_video f = (cf_dtype f = ''video'') \<and>
     (is_depth f \<longrightarrow> is_image f \<or> is_video f) \<and>
     (is_image f \<or> is_video f \<longrightarrow> length (cf_shape f) = 3 \<and> cf_shape f ! 2 = (if is_depth f then 1 else 3)) \<and>
     LerobotFeatureOutputType (cf_dtype f) (cf_shape f) = Inr (output_type f)"

lemma parse_user_feature_Inr:
  assumes "parse_user_feature lower max_array row features = Inr features'"
  obtains f where "features' = features @ [f]" "feature_ok f" "user_defined f"
    "lower (cf_name f) \<notin> set (map (lower \<circ> cf_name) features)"
    "lower (cf_name f) \<notin> set (map lower generated_names)"
    "input_index f = None" "output_index f = None"
proof -
  obtain name dtype dims json where row: "fr_key row = Some name" "fr_dtype row = Some dtype"
    "fr_shape row = Some dims" "fr_json row = Some json"
    using assms by (cases "fr_key row"; cases "fr_dtype row"; cases "fr_shape row"; cases "fr_json row")
      (simp_all add: parse_user_feature_def)
  from assms obtain shape storage out where
    new: "features' = features @ [user_feature name dtype json (fr_names row) shape storage out (fr_is_depth row)]"
    and names: "lower name \<notin> set (map lower generated_names)" "lower name \<notin> set (map (lower \<circ> cf_name) features)"
    and shape: "\<not> (shape = [] \<or> length shape > 5)"
    and visual: "\<not> ((dtype = ''image'' \<or> dtype = ''video'') \<and> length shape \<noteq> 3)"
      "\<not> (fr_is_depth row \<and> \<not> dtype = ''image'' \<and> \<not> dtype = ''video'')"
      "\<not> ((dtype = ''image'' \<or> dtype = ''video'') \<and> shape ! 2 \<noteq> (if fr_is_depth row then 1 else 3))"
    and outp: "LerobotFeatureOutputType dtype shape = Inr out"
    unfolding parse_user_feature_def row prod.case option.case bindE_Inr_iff require_Inr_iff Let_def sum.inject
    by (elim exE conjE) (rule that; (assumption | erule sym))
  let ?f = "user_feature name dtype json (fr_names row) shape storage out (fr_is_depth row)"
  have "feature_ok ?f"
    unfolding feature_ok_def user_feature_def copy_feature.select_convs
    using shape visual outp by (simp only: not_less de_Morgan_disj) blast
  then show thesis
    using new names by (intro that [of ?f]) (simp_all add: user_feature_def)
qed

lemma ParseUserFeatures_inv:
  assumes "ParseUserFeatures lower max_array rows = Inr features"
  shows "\<forall>f \<in> set features. feature_ok f \<and> user_defined f \<and> lower (cf_name f) \<notin> set (map lower generated_names)"
    and "distinct (map (lower \<circ> cf_name) features)"
proof -
  have "(\<forall>f \<in> set features. feature_ok f \<and> user_defined f \<and> lower (cf_name f) \<notin> set (map lower generated_names)) \<and>
      distinct (map (lower \<circ> cf_name) features)"
    using assms unfolding ParseUserFeatures_def
    by (rule foldE_invariant) (auto elim!: parse_user_feature_Inr)
  then show "\<forall>f \<in> set features. feature_ok f \<and> user_defined f \<and> lower (cf_name f) \<notin> set (map lower generated_names)"
    "distinct (map (lower \<circ> cf_name) features)" by auto
qed

lemma DefaultFeature_ok:
  assumes "DefaultFeature name dtype = Inr f" and "dtype \<notin> {''image'', ''video'', ''string''}"
  shows "feature_ok f \<and> \<not> user_defined f \<and> \<not> is_video f \<and> \<not> is_image f \<and> cf_name f = name"
  using assms
  by (auto simp: DefaultFeature_def feature_ok_def LerobotFeatureOutputType_def LerobotFeatureStorageType_def
      simp del: One_nat_def)

lemma default_features_ok:
  assumes "default_features = Inr features"
  shows "\<forall>f \<in> set features. feature_ok f \<and> \<not> user_defined f \<and> \<not> is_video f \<and> \<not> is_image f"
proof
  fix f
  assume "f \<in> set features"
  from mapE_set [OF assms [unfolded default_features_def] this]
  obtain name dtype where "DefaultFeature name dtype = Inr f" "dtype \<in> {''float32'', ''int64''}"
    by (auto simp del: insert_iff intro: that)
  then show "feature_ok f \<and> \<not> user_defined f \<and> \<not> is_video f \<and> \<not> is_image f"
    using DefaultFeature_ok [of name dtype f] by auto
qed

text \<open>The binding sets the two indices of a feature and leaves the rest.\<close>

definition same_feature :: "copy_feature \<Rightarrow> copy_feature \<Rightarrow> bool" where
  "same_feature f g \<longleftrightarrow> g\<lparr>input_index := input_index f, output_index := output_index f\<rparr> = f"

lemma same_feature_fields:
  assumes "same_feature f g"
  shows "cf_name g = cf_name f" "cf_dtype g = cf_dtype f" "cf_shape g = cf_shape f" "output_type g = output_type f"
    "storage_type g = storage_type f" "user_defined g = user_defined f" "is_string g = is_string f"
    "is_image g = is_image f" "is_video g = is_video f" "is_depth g = is_depth f"
  using assms by (cases f; cases g; simp add: same_feature_def)+

lemma same_feature_ok:
  assumes "same_feature f g" and "feature_ok f"
  shows "feature_ok g"
  using assms(2) unfolding feature_ok_def same_feature_fields [OF assms(1)] .

definition bound_ok :: "(string \<Rightarrow> string) \<Rightarrow> string list \<Rightarrow> logical_type list \<Rightarrow> copy_feature list \<times> scan_schema \<times> nat \<Rightarrow> bool" where
  "bound_ok lower names types = (\<lambda>(bound, columns, expected).
     expected = 2 + length (filter user_defined bound) \<and>
     columns = map (\<lambda>f. (cf_name f, output_type f)) (filter (Not \<circ> is_video) bound) \<and>
     (\<forall>f \<in> set bound. user_defined f \<longrightarrow>
        (\<exists>i. input_index f = Some i \<and> input_position lower names (cf_name f) = Some i \<and> types ! i = storage_type f)) \<and>
     (\<forall>f \<in> set bound. \<not> is_video f \<longrightarrow>
        (\<exists>k. output_index f = Some k \<and> k < length columns \<and> columns ! k = (cf_name f, output_type f))))"

lemma bind_input_Inr:
  assumes "bind_input lower names types f expected = Inr (f1, expected')"
  shows "same_feature f f1 \<and> expected' = (if user_defined f then expected + 1 else expected) \<and>
    (user_defined f \<longrightarrow>
      (\<exists>i. input_index f1 = Some i \<and> input_position lower names (cf_name f) = Some i \<and> types ! i = storage_type f))"
  using assms by (auto simp: bind_input_def same_feature_def split: if_splits option.splits)

lemma same_feature_output: "same_feature f g \<Longrightarrow> same_feature f (g\<lparr>output_index := k\<rparr>)"
  by (cases f; cases g) (simp add: same_feature_def)

lemma bound_ok_snoc:
  assumes "bound_ok lower names types (bound, columns, expected)"
    and "expected' = (if user_defined g then expected + 1 else expected)"
    and "user_defined g \<Longrightarrow>
      (\<exists>i. input_index g = Some i \<and> input_position lower names (cf_name g) = Some i \<and> types ! i = storage_type g)"
    and "if is_video g then columns' = columns
      else columns' = columns @ [(cf_name g, output_type g)] \<and> output_index g = Some (length columns)"
  shows "bound_ok lower names types (bound @ [g], columns', expected')"
proof -
  note old = assms(1) [unfolded bound_ok_def prod.case]
  have "\<exists>k. output_index f = Some k \<and> k < length columns' \<and> columns' ! k = (cf_name f, output_type f)"
    if "f \<in> set (bound @ [g])" "\<not> is_video f" for f
  proof (cases "f \<in> set bound")
    case True
    with old that(2) obtain k where "output_index f = Some k" "k < length columns" "columns ! k = (cf_name f, output_type f)"
      by blast
    then show ?thesis using assms(4) by (cases "is_video g") (auto simp: nth_append)
  next
    case False
    with that assms(4) show ?thesis by auto
  qed
  then show ?thesis
    unfolding bound_ok_def prod.case using old assms(2-4) by (cases "is_video g") auto
qed

lemma bind_feature_step:
  assumes "bind_feature lower names types f (bound, columns, expected) = Inr (bound', columns', expected')"
    and "bound_ok lower names types (bound, columns, expected)"
  obtains g where "bound' = bound @ [g]" "same_feature f g" "bound_ok lower names types (bound', columns', expected')"
proof -
  from assms(1) obtain f1 where f1: "bind_input lower names types f expected = Inr (f1, expected')"
    and out: "(bound', columns') = (if is_video f1 then (bound @ [f1], columns)
      else (bound @ [f1\<lparr>output_index := Some (length columns)\<rparr>], columns @ [(cf_name f1, output_type f1)]))"
    unfolding bind_feature_def by (auto split: if_splits)
  note in1 = bind_input_Inr [OF f1]
  note fields = same_feature_fields [OF conjunct1 [OF in1]]
  have inv: "bound_ok lower names types (bound', columns', expected')"
  proof (cases "is_video f1")
    case True
    then show ?thesis using out in1 fields by (auto intro!: bound_ok_snoc [OF assms(2)])
  next
    case False
    then show ?thesis using out in1 fields by (auto intro!: bound_ok_snoc [OF assms(2)])
  qed
  show thesis
    using in1 out inv same_feature_output [OF conjunct1 [OF in1]]
    by (cases "is_video f1") (auto intro: that)
qed

lemma bind_features_fold:
  assumes "foldE (bind_feature lower names types) fs (bound, columns, expected) = Inr (bound', columns', expected')"
    and "bound_ok lower names types (bound, columns, expected)"
  shows "\<exists>gs. bound' = bound @ gs \<and> list_all2 same_feature fs gs \<and> bound_ok lower names types (bound', columns', expected')"
  using assms
proof (induction fs arbitrary: bound columns expected)
  case Nil
  then show ?case by simp
next
  case (Cons f fs)
  from Cons.prems(1) obtain b c e where step: "bind_feature lower names types f (bound, columns, expected) = Inr (b, c, e)"
    and rest: "foldE (bind_feature lower names types) fs (b, c, e) = Inr (bound', columns', expected')"
    by (auto split: sum.splits)
  obtain g where g: "b = bound @ [g]" "same_feature f g" "bound_ok lower names types (b, c, e)"
    by (rule bind_feature_step [OF step Cons.prems(2)])
  from Cons.IH [OF rest g(3)] g(1,2) show ?case by auto
qed

lemma list_all2_fields: "list_all2 same_feature fs gs \<Longrightarrow> map cf_name gs = map cf_name fs \<and> map user_defined gs = map user_defined fs"
  by (induction rule: list_all2_induct) (auto simp: same_feature_fields)

lemma list_all2_ok: "list_all2 same_feature fs gs \<Longrightarrow> \<forall>f \<in> set fs. feature_ok f \<Longrightarrow> \<forall>g \<in> set gs. feature_ok g"
  by (induction rule: list_all2_induct) (auto intro: same_feature_ok)

lemma LerobotCopyBind_Inr:
  assumes "LerobotCopyBind c log_d threads lower max_array query options names types = Inr b"
  obtains user defaults gs hs where
    "\<forall>f \<in> set user. feature_ok f \<and> user_defined f \<and> lower (cf_name f) \<notin> set (map lower generated_names)"
    "distinct (map (lower \<circ> cf_name) user)"
    "\<forall>f \<in> set defaults. feature_ok f \<and> \<not> user_defined f \<and> \<not> is_video f \<and> \<not> is_image f"
    "defaults \<noteq> []"
    "bd_features b = gs @ hs" "list_all2 same_feature user gs" "list_all2 same_feature defaults hs"
    "bound_ok lower names types (bd_features b, bd_data b, length names)"
    "distinct (map lower names)" "length names = length types"
    "input_position lower names ''episode_index'' = Some (bd_episode_input b)" "types ! bd_episode_input b = BIGINT"
    "input_position lower names ''task'' = Some (bd_task_input b)" "types ! bd_task_input b = VARCHAR"
    "\<exists>cols. foldE AppendStatColumns (bd_features b)
        (foldl (\<lambda>columns f. AppendVideoColumns f columns) episode_base_columns (bd_features b)) = Inr cols \<and>
      bd_episode b = cols @ [(''meta/episodes/chunk_index'', BIGINT), (''meta/episodes/file_index'', BIGINT)]"
proof -
  have len: "length names = length types" using assms by (auto simp: LerobotCopyBind_def split: if_splits)
  from assms obtain config0 rows user defaults config where
    user: "ParseUserFeatures lower max_array rows = Inr user" and
    defaults: "default_features = Inr defaults" and
    rest: "bind_columns lower names types config (user @ defaults) = Inr b"
    using len unfolding LerobotCopyBind_def by auto
  from rest obtain ep tk where pos: "input_position lower names ''episode_index'' = Some ep"
    "input_position lower names ''task'' = Some tk"
    unfolding bind_columns_def require_Inr_iff
    by (cases "input_position lower names ''episode_index''"; cases "input_position lower names ''task''") simp_all
  from rest obtain bound columns expected cols where
    d: "distinct (map lower names)" and t: "types ! ep = BIGINT" "types ! tk = VARCHAR" and
    f: "foldE (bind_feature lower names types) (user @ defaults) ([], [], 2) = Inr (bound, columns, expected)" and
    n: "length names = expected" and
    e: "foldE AppendStatColumns bound (foldl (\<lambda>columns f. AppendVideoColumns f columns) episode_base_columns bound) = Inr cols" and
    b: "b = \<lparr>bd_input_names = names, bd_input_types = types, bd_features = bound, bd_data = columns,
                 bd_episode = cols @ [(''meta/episodes/chunk_index'', BIGINT), (''meta/episodes/file_index'', BIGINT)],
                 bd_episode_input = ep, bd_task_input = tk, bd_config = config,
                 bd_features_json = FullFeaturesJSON (user @ defaults)\<rparr>"
    unfolding bind_columns_def require_Inr_iff bindE_Inr_iff pos prod.case option.case sum.inject split_paired_Ex
    by (elim exE conjE) (rule that; (assumption | erule sym))
  have "bound_ok lower names types ([], [], 2)" by (simp add: bound_ok_def)
  from bind_features_fold [OF f this]
  have bound: "list_all2 same_feature (user @ defaults) bound" "bound_ok lower names types (bound, columns, expected)"
    by auto
  then obtain gs hs where split: "bound = gs @ hs" "list_all2 same_feature user gs" "list_all2 same_feature defaults hs"
    by (auto simp: list_all2_append1)
  have "length defaults = 5" using mapE_length [OF defaults [unfolded default_features_def]] by simp
  then have "defaults \<noteq> []" by auto
  then show thesis
    using ParseUserFeatures_inv [OF user] default_features_ok [OF defaults] split bound(2) d len pos t e n b
    by (intro that [of user defaults gs hs]) simp_all
qed

lemma LerobotCopyBind_features:
  assumes "LerobotCopyBind c log_d threads lower max_array query options names types = Inr b"
  shows "\<forall>f \<in> set (bd_features b). feature_ok f" and "bd_features b \<noteq> []"
proof -
  obtain user defaults gs hs where f: "\<forall>f \<in> set user. feature_ok f" "\<forall>f \<in> set defaults. feature_ok f" "defaults \<noteq> []"
    "bd_features b = gs @ hs" "list_all2 same_feature user gs" "list_all2 same_feature defaults hs"
    by (rule LerobotCopyBind_Inr [OF assms]) blast
  show "\<forall>f \<in> set (bd_features b). feature_ok f"
    using list_all2_ok [OF f(5,1)] list_all2_ok [OF f(6,2)] f(4) by auto
  show "bd_features b \<noteq> []" using f(3,4,6) by (cases hs) auto
qed

section \<open>The columns the reader rebuilds\<close>

text \<open>A feature as the reader parses it from \<open>info.json\<close>.\<close>

definition as_parsed :: "copy_feature \<Rightarrow> parsed_feature" where
  "as_parsed f = \<lparr>feature_name = cf_name f, feature_dtype = cf_dtype f, feature_shape = cf_shape f,
     feature_is_depth = is_depth f\<rparr>"

lemma not_language: "feature_ok f \<Longrightarrow> cf_dtype f \<noteq> ''language''"
  by (auto simp: feature_ok_def LerobotFeatureOutputType_def LerobotFeatureStorageType_def LerobotDtypeToLogicalType_def)

lemma scan_type_of_output:
  assumes "feature_ok f" and "\<not> is_video f"
  shows "LerobotFeatureScanType (cf_dtype f) (cf_shape f) = Inr (erase_arrays (output_type f))"
proof (cases "cf_dtype f = ''image''")
  case True
  then have "output_type f = image_struct"
    using assms(1) by (simp add: feature_ok_def LerobotFeatureOutputType_def)
  then show ?thesis using True by (simp add: LerobotFeatureScanType_def image_struct_def)
next
  case False
  then have "LerobotFeatureStorageType (cf_dtype f) (cf_shape f) = Inr (output_type f)"
    using assms(1) by (simp add: feature_ok_def LerobotFeatureOutputType_def)
  then show ?thesis
    using scan_type_matches_storage [of "cf_dtype f" "cf_shape f"] False assms by (auto simp: feature_ok_def)
qed

lemma frame_column_written:
  assumes "feature_ok f"
  shows "frame_column info (as_parsed f) schema =
    Inr (if is_video f then schema else schema @ [(cf_name f, erase_arrays (output_type f))])"
proof -
  have flags: "is_image f = (cf_dtype f = ''image'')" "is_video f = (cf_dtype f = ''video'')"
    using assms by (auto simp: feature_ok_def)
  show ?thesis
  proof (cases "is_video f")
    case True
    with assms flags show ?thesis
      by (simp add: frame_column_def as_parsed_def Let_def require_def feature_ok_def)
  next
    case False
    then show ?thesis
      using assms flags not_language [OF assms] scan_type_of_output [OF assms False]
      by (simp add: frame_column_def as_parsed_def Let_def require_def feature_ok_def AppendColumn_def)
  qed
qed

lemma frame_columns_written:
  assumes "\<forall>f \<in> set fs. feature_ok f"
  shows "foldE (frame_column info) (map as_parsed fs) schema =
    Inr (schema @ map (\<lambda>f. (cf_name f, erase_arrays (output_type f))) (filter (Not \<circ> is_video) fs))"
  using assms by (induction fs arbitrary: schema) (auto simp: frame_column_written)

lemma stat_columns_written:
  assumes "feature_ok f"
  shows "stat_columns (as_parsed f) schema = AppendStatColumns f schema"
proof -
  have flags: "is_string f = (cf_dtype f = ''string'')" "is_image f = (cf_dtype f = ''image'')"
    "is_video f = (cf_dtype f = ''video'')"
    using assms by (auto simp: feature_ok_def)
  have "(if cf_dtype f = ''image'' \<or> cf_dtype f = ''video'' then 3 else length (cf_shape f)) = length (stat_shape f)"
    using flags by (simp add: stat_shape_def)
  moreover have "stat_names = stat_column_names" by (simp add: stat_names_def stat_column_names_def)
  ultimately show ?thesis
    using flags(1)
    by (cases "is_string f"; cases "LerobotStatExtremaLeafType (cf_dtype f)";
        cases "cf_dtype f = ''image''"; cases "cf_dtype f = ''video''")
      (simp_all add: stat_columns_def AppendStatColumns_def as_parsed_def HasStatistics_def Let_def)
qed

lemma stat_fold_written:
  "\<forall>f \<in> set fs. feature_ok f \<Longrightarrow> foldE stat_columns (map as_parsed fs) schema = foldE AppendStatColumns fs schema"
  by (induction fs arbitrary: schema) (auto simp: stat_columns_written split: sum.splits)

lemma video_column_written: "feature_ok f \<Longrightarrow> AppendVideoColumns f schema = schema @ video_columns (as_parsed f)"
  by (simp add: AppendVideoColumns_def video_columns_def as_parsed_def feature_ok_def Let_def)

lemma video_columns_written:
  "\<forall>f \<in> set fs. feature_ok f \<Longrightarrow>
   foldl (\<lambda>columns f. AppendVideoColumns f columns) schema fs = schema @ concat (map video_columns (map as_parsed fs))"
  by (induction fs arbitrary: schema) (simp_all add: video_column_written)

section \<open>Input columns\<close>

lemma input_position_Some:
  assumes "input_position lower names n = Some i"
  shows "i < length names \<and> lower (names ! i) = lower n"
proof -
  have "(lower n, i) \<in> set (zip (map lower names) [0 ..< length names])"
    using assms unfolding input_position_def by (rule map_of_SomeD)
  then show ?thesis by (auto simp: set_zip)
qed

lemma ball_map_eq: "map f xs = map f ys \<Longrightarrow> \<forall>y \<in> set ys. P (f y) \<Longrightarrow> \<forall>x \<in> set xs. P (f x)"
  by (metis (mono_tags, lifting) imageE imageI list.set_map)

lemma positions_cover:
  assumes "\<forall>g \<in> set gs. \<exists>i. input_index g = Some i \<and> input_position lower names (cf_name g) = Some i"
    and "input_position lower names ''episode_index'' = Some e" and "input_position lower names ''task'' = Some t"
    and "distinct (lower ''task'' # lower ''episode_index'' # map (lower \<circ> cf_name) gs)"
    and "length names = 2 + length gs"
  shows "distinct (t # e # map (the \<circ> input_index) gs)"
    and "set (t # e # map (the \<circ> input_index) gs) = {..< length names}"
proof -
  let ?ps = "t # e # map (the \<circ> input_index) gs"
  have keys: "map (\<lambda>i. lower (names ! i)) ?ps = lower ''task'' # lower ''episode_index'' # map (lower \<circ> cf_name) gs"
    using assms(1-3) input_position_Some by (fastforce intro!: map_cong)
  have "distinct (map (\<lambda>i. lower (names ! i)) ?ps)" unfolding keys by (rule assms(4))
  then show d: "distinct ?ps" unfolding distinct_map by (rule conjunct1)
  have sub: "set ?ps \<subseteq> {..< length names}"
    using assms(1-3) input_position_Some by fastforce
  have "card (set ?ps) = length names" using distinct_card [OF d] assms(5) by simp
  then show "set ?ps = {..< length names}" using sub by (intro card_subset_eq) auto
qed


section \<open>An accepted binding\<close>

text \<open>A state vector and a camera, with the input columns in another order than the features.\<close>

definition example_rows :: "feature_row list" where
  "example_rows =
     [\<lparr>fr_key = Some ''state'', fr_dtype = Some ''float32'', fr_shape = Some [Some 6], fr_json = Some ''{}'',
       fr_is_depth = False, fr_names = ''null''\<rparr>,
      \<lparr>fr_key = Some ''camera'', fr_dtype = Some ''video'', fr_shape = Some [Some 4, Some 8, Some 3],
       fr_json = Some ''{}'', fr_is_depth = False, fr_names = ''null''\<rparr>]"

definition example_names :: "string list" where
  "example_names = [''camera'', ''task'', ''state'', ''episode_index'']"

definition example_types :: "logical_type list" where
  "example_types = [BLOB, VARCHAR, ARRAY FLOAT 6, BIGINT]"

lemma example_bind:
  "\<exists>b. LerobotCopyBind example_casts id 8 id 100000 (\<lambda>_. Inr example_rows) example_copy_options
        example_names example_types = Inr b \<and> length (bd_data b) = 6 \<and> length (bd_episode b) = 7 + 4 + 7 * 10 + 2 \<and>
        bd_episode_input b = 3"
proof -
  let ?user = "[user_feature ''state'' ''float32'' ''{}'' ''null'' [6] (ARRAY FLOAT 6) (ARRAY FLOAT 6) False,
      user_feature ''camera'' ''video'' ''{}'' ''null'' [4, 8, 3] BLOB BLOB False]"
  have dims: "mapE (feature_dimension 100000 ''float32'') [Some 6] = Inr [6]"
    "mapE (feature_dimension 100000 ''video'') [Some 4, Some 8, Some 3] = Inr [4, 8, 3]"
    by (simp_all add: feature_dimension_def require_def IDX_MAX_def)
  have widths: "ShapeWidth [6] = Inr 6" "ShapeWidth [4, 8, 3] = Inr 96"
    by (simp_all add: ShapeWidth_def require_def IDX_MAX_def)
  have names: "ValidateLerobotFeatureName id ''state'' = Inr ()" "ValidateLerobotFeatureName id ''camera'' = Inr ()"
    by code_simp+
  have types: "LerobotFeatureStorageType ''float32'' [6] = Inr (ARRAY FLOAT 6)"
    "LerobotFeatureOutputType ''float32'' [6] = Inr (ARRAY FLOAT 6)"
    "LerobotFeatureStorageType ''video'' [4, 8, 3] = Inr BLOB" "LerobotFeatureOutputType ''video'' [4, 8, 3] = Inr BLOB"
    by code_simp+
  have user: "ParseUserFeatures id 100000 example_rows = Inr ?user"
    by (simp add: ParseUserFeatures_def example_rows_def parse_user_feature_def dims names widths types require_def
        generated_names_def user_feature_def del: mapE.simps)
  have all: "case bindE default_features (\<lambda>d. bind_columns id example_names example_types config (?user @ d)) of
      Inl e \<Rightarrow> False
    | Inr b \<Rightarrow> length (bd_data b) = 6 \<and> length (bd_episode b) = 7 + 4 + 7 * 10 + 2 \<and> bd_episode_input b = 3" for config
    by code_simp
  obtain config0 config where config: "ParseLerobotCopyRequiredConfig example_casts example_copy_options = Inr config0"
    "ParseLerobotCopyOptionalConfig example_casts id 8 example_copy_options config0 = Inr config"
    using example_config by blast
  have "length example_names = length example_types" by code_simp
  then have "LerobotCopyBind example_casts id 8 id 100000 (\<lambda>_. Inr example_rows) example_copy_options example_names example_types =
      bindE default_features (\<lambda>d. bind_columns id example_names example_types config (?user @ d))"
    by (cases default_features) (simp_all add: LerobotCopyBind_def config user)
  then show ?thesis using all [of config] by (auto split: sum.splits simp del: bindE_Inr_iff)
qed


section \<open>Properties\<close>

text \<open>
  C31. Writer and reader agree on the columns: for every binding the writer accepts, the schemas the reader
  rebuilds from the features of an empty dataset are the columns the writer writes, in order, with the
  same names and with the types Parquet keeps (fixed-size arrays become lists); none of the reader's
  checks on features fails.
\<close>
theorem written_columns_read_back:
  assumes "LerobotCopyBind c log_d threads lower max_array query options names types = Inr b"
    and "frame_schema info = []" and "episode_schema info = []"
  shows "BuildEmptyDatasetSchemas info (map as_parsed (bd_features b)) =
    Inr (info\<lparr>frame_schema := map (\<lambda>(name, type). (name, erase_arrays type)) (bd_data b),
              episode_schema := bd_episode b\<rparr>)"
proof -
  note ok = LerobotCopyBind_features [OF assms(1)]
  obtain cols where data: "bd_data b = map (\<lambda>f. (cf_name f, output_type f)) (filter (Not \<circ> is_video) (bd_features b))"
    and cols: "foldE AppendStatColumns (bd_features b)
        (foldl (\<lambda>columns f. AppendVideoColumns f columns) episode_base_columns (bd_features b)) = Inr cols"
    and episode: "bd_episode b = cols @ [(''meta/episodes/chunk_index'', BIGINT), (''meta/episodes/file_index'', BIGINT)]"
    by (rule LerobotCopyBind_Inr [OF assms(1)]) (auto simp: bound_ok_def)
  have base: "episode_base_columns = base_episode_columns"
    by (simp add: episode_base_columns_def base_episode_columns_def)
  have frame: "BuildFrameSchema info (map as_parsed (bd_features b)) =
      Inr (info\<lparr>frame_schema := map (\<lambda>(name, type). (name, erase_arrays type)) (bd_data b)\<rparr>)"
    using ok(2) by (simp add: BuildFrameSchema_def require_def frame_columns_written [OF ok(1)] assms(2) data comp_def)
  show ?thesis
    using cols unfolding video_columns_written [OF ok(1)] base
    by (simp add: BuildEmptyDatasetSchemas_def frame assms(3) stat_fold_written [OF ok(1)] AppendColumn_def episode)
qed

theorem written_columns_read_back_witness:
  "\<exists>b. LerobotCopyBind example_casts id 8 id 100000 (\<lambda>_. Inr example_rows) example_copy_options
        example_names example_types = Inr b \<and> length (bd_data b) = 6 \<and>
     BuildEmptyDatasetSchemas empty_info (map as_parsed (bd_features b)) =
       Inr (empty_info\<lparr>frame_schema := map (\<lambda>(name, type). (name, erase_arrays type)) (bd_data b),
                        episode_schema := bd_episode b\<rparr>)"
proof -
  have "frame_schema empty_info = []" "episode_schema empty_info = []" by (simp_all add: empty_info_def)
  then show ?thesis using written_columns_read_back example_bind by blast
qed

text \<open>
  C38. An accepted binding uses every input column exactly once: the positions of episode_index, of task and of
  the user features are all the columns of the query, each with the required type, and every
  feature that is not a video is the data column its output index names.
\<close>
theorem bound_columns_exact:
  assumes "LerobotCopyBind c log_d threads lower max_array query options names types = Inr b"
    and "lower ''task'' \<noteq> lower ''episode_index''"
  shows "let user = filter user_defined (bd_features b);
             positions = bd_task_input b # bd_episode_input b # map (the \<circ> input_index) user
         in distinct positions \<and> set positions = {..< length names} \<and>
            types ! bd_episode_input b = BIGINT \<and> types ! bd_task_input b = VARCHAR \<and>
            list_all (\<lambda>f. types ! the (input_index f) = storage_type f) user \<and>
            list_all (\<lambda>f. is_video f \<or>
              (\<exists>k < length (bd_data b). output_index f = Some k \<and> bd_data b ! k = (cf_name f, output_type f)))
              (bd_features b)"
  using assms(1)
proof (cases rule: LerobotCopyBind_Inr)
  case (1 fs ds gs hs)
  note user = 1(1,2) and ds = 1(3) and gh = 1(5) and inv = 1(8) and pos = 1(11-14)
  have names: "map cf_name gs = map cf_name fs" "map user_defined gs = map user_defined fs" "map user_defined hs = map user_defined ds"
    using list_all2_fields [OF 1(6)] list_all2_fields [OF 1(7)] by auto
  have gs: "\<forall>g \<in> set gs. user_defined g"
    using user(1) by (intro ball_map_eq [OF names(2), of "\<lambda>u. u"]) blast
  have hs: "\<forall>h \<in> set hs. \<not> user_defined h"
    using ds by (intro ball_map_eq [OF names(3), of Not]) blast
  have filter: "filter user_defined (bd_features b) = gs" using gs hs by (simp add: gh)
  have lower_names: "map (lower \<circ> cf_name) gs = map (lower \<circ> cf_name) fs" using names(1) by (metis map_map)
  have gen: "lower (cf_name g) \<noteq> lower ''task''" "lower (cf_name g) \<noteq> lower ''episode_index''" if "g \<in> set gs" for g
  proof -
    have "lower (cf_name g) \<in> set (map (lower \<circ> cf_name) fs)" using that lower_names [symmetric] by auto
    then show "lower (cf_name g) \<noteq> lower ''task''" "lower (cf_name g) \<noteq> lower ''episode_index''"
      using user(1) by (auto simp: generated_names_def)
  qed
  have "distinct (map (lower \<circ> cf_name) gs)" unfolding lower_names by (rule user(2))
  moreover have "lower ''task'' \<notin> (lower \<circ> cf_name) ` set gs" "lower ''episode_index'' \<notin> (lower \<circ> cf_name) ` set gs"
    using gen by fastforce+
  ultimately have d: "distinct (lower ''task'' # lower ''episode_index'' # map (lower \<circ> cf_name) gs)"
    using assms(2) by simp
  have g: "\<exists>i. input_index x = Some i \<and> input_position lower names (cf_name x) = Some i \<and> types ! i = storage_type x"
    if "x \<in> set gs" for x
    using inv gs that by (simp add: bound_ok_def gh)
  then have g': "\<forall>x \<in> set gs. \<exists>i. input_index x = Some i \<and> input_position lower names (cf_name x) = Some i" by blast
  have n: "length names = 2 + length gs" using inv filter by (simp add: bound_ok_def)
  have used: "list_all (\<lambda>f. types ! the (input_index f) = storage_type f) gs"
    using g by (fastforce simp: list_all_iff)
  have data: "list_all (\<lambda>f. is_video f \<or>
      (\<exists>k < length (bd_data b). output_index f = Some k \<and> bd_data b ! k = (cf_name f, output_type f))) (bd_features b)"
    using inv unfolding bound_ok_def prod.case list_all_iff by blast
  show ?thesis
    unfolding Let_def filter
    using positions_cover [OF g' pos(1,3) d n] pos(2,4) used data by (intro conjI)
qed

theorem bound_columns_exact_witness:
  "\<exists>b. LerobotCopyBind example_casts id 8 id 100000 (\<lambda>_. Inr example_rows) example_copy_options
        example_names example_types = Inr b \<and>
     set (bd_task_input b # bd_episode_input b # map (the \<circ> input_index) (filter user_defined (bd_features b))) = {..< 4}"
proof -
  obtain b where b: "LerobotCopyBind example_casts id 8 id 100000 (\<lambda>_. Inr example_rows) example_copy_options
        example_names example_types = Inr b" using example_bind by blast
  have "length example_names = 4" by code_simp
  then show ?thesis using bound_columns_exact [OF b] b by (simp add: Let_def)
qed

end
