(* ===== verification/CopyValues.thy ===== *)
theory CopyValues
  imports CopyBind NumericStats
begin

text \<open>
  The values the writer computes per episode (\<open>src/function/copy/lerobot_copy.cpp\<close>): raw frames and their
  spool files, the readers from which statistics read collected columns and sampled frames, the
  normalisation of RGB statistics, and the two forms of a statistic, the nested value of an episode row
  and the text in \<open>stats.json\<close>. A string is a byte string, as \<open>std::string\<close> is.
\<close>

section \<open>Raw frames\<close>

datatype raw_visual_type = RGB24 | DEPTH_UINT16 | DEPTH_FLOAT32

definition raw_multiplier :: "raw_visual_type \<Rightarrow> nat" where
  "raw_multiplier raw_type = (case raw_type of RGB24 \<Rightarrow> 3 | DEPTH_UINT16 \<Rightarrow> 2 | DEPTH_FLOAT32 \<Rightarrow> 4)"

definition ExpectedFrameBytes :: "nat \<Rightarrow> nat \<Rightarrow> raw_visual_type \<Rightarrow> nat result" where
  "ExpectedFrameBytes w h raw_type =
     (if w = 0 \<or> h = 0 \<or> w > IDX_MAX div h
      then Inl (InvalidInputException ''LeRobot visual dimensions are empty or too large'')
      else
        let bytes = w * h; multiplier = raw_multiplier raw_type
        in if bytes > IDX_MAX div multiplier
           then Inl (InvalidInputException ''LeRobot visual frame byte size is too large'')
           else Inr (bytes * multiplier))"

definition InferRawVisualType :: "copy_feature \<Rightarrow> nat \<Rightarrow> raw_visual_type result" where
  "InferRawVisualType feature frame_bytes =
     (let w = cf_shape feature ! 1; h = cf_shape feature ! 0
      in if \<not> is_depth feature
         then bindE (ExpectedFrameBytes w h RGB24) (\<lambda>expected.
              if frame_bytes \<noteq> expected
              then Inl (InvalidInputException ''LeRobot RGB feature frame has another size'')
              else Inr RGB24)
         else bindE (ExpectedFrameBytes w h DEPTH_UINT16) (\<lambda>uint16_size.
              bindE (ExpectedFrameBytes w h DEPTH_FLOAT32) (\<lambda>float32_size.
              if frame_bytes = uint16_size then Inr DEPTH_UINT16
              else if frame_bytes = float32_size then Inr DEPTH_FLOAT32
              else Inl (InvalidInputException ''LeRobot depth feature frame has another size''))))"

text \<open>Little-endian integers, and the bits of a \<open>float\<close>.\<close>

fun bytes_value :: "string \<Rightarrow> int" where
  "bytes_value [] = 0"
| "bytes_value (b # bs) = int (of_char b) + 256 * bytes_value bs"

definition float_of_bits :: "int \<Rightarrow> fp" where
  "float_of_bits bits =
     (let negative = (bits div 2 ^ 31 mod 2 = 1);
          ex = bits div 2 ^ 23 mod 256;
          mantissa = bits mod 2 ^ 23
      in if ex = 255 then (if mantissa \<noteq> 0 then NaN else if negative then NInf else PInf)
         else
           let magnitude = (if ex = 0 then of_int mantissa * 2 powi (- 149)
                            else of_int (2 ^ 23 + mantissa) * 2 powi (ex - 150))
           in Fin (if negative then - magnitude else magnitude))"

definition ReadRawVisualValue :: "string \<Rightarrow> raw_visual_type \<Rightarrow> nat \<Rightarrow> fp" where
  "ReadRawVisualValue frame raw_type element_index =
     (case raw_type of
        RGB24 \<Rightarrow> Fin (of_nat (of_char (frame ! element_index)))
      | DEPTH_UINT16 \<Rightarrow> Fin (of_int (bytes_value (take 2 (drop (element_index * 2) frame))))
      | DEPTH_FLOAT32 \<Rightarrow> float_of_bits (bytes_value (take 4 (drop (element_index * 4) frame))))"

section \<open>Spool files\<close>

text \<open>\<open>spool_open\<close>: there is a write handle. The frames are those written to the file so far.\<close>

record visual_spool =
  spool_path :: string
  spool_open :: bool
  frame_size :: nat
  spool_frames :: "string list"

definition Initialize_spool :: "string \<Rightarrow> visual_spool" where
  "Initialize_spool path = \<lparr>spool_path = path, spool_open = False, frame_size = 0, spool_frames = []\<rparr>"

definition Append_spool :: "string \<Rightarrow> visual_spool \<Rightarrow> visual_spool result" where
  "Append_spool data spool =
     bindE (if \<not> spool_open spool then Inr (spool\<lparr>spool_open := True, frame_size := length data\<rparr>)
            else if length data \<noteq> frame_size spool
            then Inl (InvalidInputException ''LeRobot visual frames change size within an episode'')
            else Inr spool) (\<lambda>spool.
     if length (spool_frames spool) = IDX_MAX \<or> frame_size spool > IDX_MAX div (length (spool_frames spool) + 1)
     then Inl (InvalidInputException ''LeRobot visual spool is too large'')
     else Inr (spool\<lparr>spool_frames := spool_frames spool @ [data]\<rparr>))"

definition Close_spool :: "visual_spool \<Rightarrow> visual_spool" where
  "Close_spool spool = spool\<lparr>spool_open := False\<rparr>"

definition Remove_spool :: "visual_spool \<Rightarrow> visual_spool" where
  "Remove_spool spool = (Close_spool spool)\<lparr>spool_frames := []\<rparr>"

section \<open>Readers of statistics\<close>

text \<open>The exact values are read by passes over integer features only; other values have none.\<close>

fun exact_values :: "numeric list \<Rightarrow> int list" where
  "exact_values [] = []"
| "exact_values (NInt i # vs) = i # exact_values vs"
| "exact_values (_ # vs) = exact_values vs"

definition collection_row :: "nat \<Rightarrow> stats_vector \<Rightarrow> nat \<Rightarrow> stats_row result" where
  "collection_row w view i =
     bindE (AppendRow view i ([], Some [])) (\<lambda>(row, exact_row).
     if length row \<noteq> w then Inl (InvalidInputException ''LeRobot feature has another number of values'')
     else Inr (row, exact_values (the exact_row)))"

definition collection_chunk :: "nat \<Rightarrow> vec \<times> nat \<Rightarrow> stats_reader" where
  "collection_chunk w = (\<lambda>(column, size).
     case Initialize column of
       Inl e \<Rightarrow> replicate size (Inl e)
     | Inr view \<Rightarrow> map (collection_row w view) [0 ..< size])"

text \<open>
  \<open>LerobotCollectionStatsReader\<close>: \<open>chunks\<close> are the vectors a scan of the feature's column of the
  collection gives, with their sizes; \<open>row_count\<close> is the number of rows of the collection.
\<close>

definition CollectionStatsReader :: "copy_feature \<Rightarrow> nat \<Rightarrow> nat \<Rightarrow> nat \<Rightarrow> (vec \<times> nat) list \<Rightarrow> stats_reader" where
  "CollectionStatsReader feature w fps row_count chunks =
     (if \<not> user_defined feature \<and> cf_name feature = ''timestamp''
      then map (\<lambda>row. Inr ([ddiv (int_to_double (int row)) (int_to_double (int fps))], [])) [0 ..< row_count]
      else take row_count (concat (map (collection_chunk w) chunks) @
             replicate row_count (Inl (InternalException ''LeRobot statistics collection ended early''))))"

definition visual_next ::
  "copy_feature \<Rightarrow> visual_spool \<Rightarrow> raw_visual_type \<Rightarrow> nat list \<Rightarrow> nat \<Rightarrow> nat \<Rightarrow> nat \<Rightarrow> stats_row result" where
  "visual_next feature spool raw_type sampled_indices step values_per_frame row =
     (let sampled_width = 1 + (cf_shape feature ! 1 - 1) div step;
          frame_index = sampled_indices ! (row div values_per_frame)
      in if frame_index \<ge> length (spool_frames spool)
         then Inl (InternalException ''LeRobot visual statistics sampled an invalid frame'')
         else
           let frame = take (frame_size spool) (drop (frame_index * frame_size spool) (concat (spool_frames spool)));
               pixel_index = row mod values_per_frame;
               y = (pixel_index div sampled_width) * step;
               x = (pixel_index mod sampled_width) * step;
               first_element = (y * cf_shape feature ! 1 + x) * cf_shape feature ! 2
           in Inr (map (\<lambda>channel. ReadRawVisualValue frame raw_type (first_element + channel))
                     [0 ..< cf_shape feature ! 2], []))"

text \<open>\<open>LerobotVisualStatsReader\<close>: the constructor, and the rows of the reader it makes.\<close>

definition VisualStatsReader ::
  "copy_feature \<Rightarrow> visual_spool \<Rightarrow> raw_visual_type \<Rightarrow> nat list \<Rightarrow> nat \<Rightarrow> stats_reader result" where
  "VisualStatsReader feature spool raw_type sampled_indices step =
     (let sampled_height = 1 + (cf_shape feature ! 0 - 1) div step;
          sampled_width = 1 + (cf_shape feature ! 1 - 1) div step
      in bindE (ExpectedFrameBytes (cf_shape feature ! 1) (cf_shape feature ! 0) raw_type) (\<lambda>expected.
         if frame_size spool \<noteq> expected \<or> spool_frames spool = []
         then Inl (InvalidInputException ''LeRobot visual feature changes raw frame type or dimensions'')
         else if sampled_indices = []
         then Inl (InternalException ''LeRobot visual statistics sample cannot be empty'')
         else if sampled_height > IDX_MAX div sampled_width \<or>
                 sampled_height * sampled_width > IDX_MAX div length sampled_indices
         then Inl (InvalidInputException ''LeRobot visual statistics sample is too large'')
         else if length (spool_frames spool) > IDX_MAX div frame_size spool \<or>
                 length (concat (spool_frames spool)) \<noteq> length (spool_frames spool) * frame_size spool
         then Inl (IOException ''LeRobot visual spool has an invalid size'')
         else
           let values_per_frame = sampled_height * sampled_width
           in Inr (map (visual_next feature spool raw_type sampled_indices step values_per_frame)
                     [0 ..< values_per_frame * length sampled_indices])))"

section \<open>Normalisation\<close>

definition RGB_MAX :: fp where "RGB_MAX = Fin 255"

definition float32_normalized :: "fp \<Rightarrow> fp" where
  "float32_normalized v = sdiv (to_float v) (to_float RGB_MAX)"

definition normalize_quantiles :: "bool \<Rightarrow> fp list \<Rightarrow> fp list" where
  "normalize_quantiles is_float32 entries =
     map (\<lambda>v. if is_float32 then float32_normalized v else ddiv v RGB_MAX) entries"

definition NormalizeRGBStats :: "feature_stats \<Rightarrow> feature_stats" where
  "NormalizeRGBStats stats = stats\<lparr>
     fs_min := map float32_normalized (fs_min stats), fs_max := map float32_normalized (fs_max stats),
     fs_mean := map float32_normalized (fs_mean stats), fs_stddev := map float32_normalized (fs_stddev stats),
     q01 := normalize_quantiles (q01_is_float32 stats) (q01 stats),
     q10 := normalize_quantiles (q10_is_float32 stats) (q10 stats),
     q50 := normalize_quantiles (q50_is_float32 stats) (q50 stats),
     q90 := normalize_quantiles (q90_is_float32 stats) (q90 stats),
     q99 := normalize_quantiles (q99_is_float32 stats) (q99 stats)\<rparr>"

section \<open>Statistics as nested values and as text\<close>

datatype evalue = EInt int | EReal fp | EText string | EList logical_type "evalue list"

text \<open>
  The recursion the four printers of statistics share: \<open>leaf\<close> reads the value at an offset, \<open>node\<close> makes
  the list of a level, given the dimensions below it.
\<close>

fun nest_values ::
  "(nat \<Rightarrow> 'b result) \<Rightarrow> (nat list \<Rightarrow> 'b list \<Rightarrow> 'b) \<Rightarrow> nat list \<Rightarrow> nat \<Rightarrow> ('b \<times> nat) result" where
  "nest_values leaf node [] offset = Inl (InternalException ''vector index out of range'')"
| "nest_values leaf node [n] offset =
     bindE (foldE (\<lambda>_ (children, offset). bindE (leaf offset) (\<lambda>v. Inr (children @ [v], offset + 1)))
              [0 ..< n] ([], offset)) (\<lambda>(children, offset).
     Inr (node [] children, offset))"
| "nest_values leaf node (n # m # shape) offset =
     bindE (foldE (\<lambda>_ (children, offset). bindE (nest_values leaf node (m # shape) offset) (\<lambda>(v, offset).
                Inr (children @ [v], offset)))
              [0 ..< n] ([], offset)) (\<lambda>(children, offset).
     Inr (node (m # shape) children, offset))"

fun StatListType :: "nat list \<Rightarrow> logical_type \<Rightarrow> logical_type" where
  "StatListType [] leaf_type = leaf_type"
| "StatListType (n # shape) leaf_type = LIST (StatListType shape leaf_type)"

definition list_node :: "logical_type \<Rightarrow> nat list \<Rightarrow> evalue list \<Rightarrow> evalue" where
  "list_node leaf_type shape children = EList (StatListType shape leaf_type) children"

definition at_offset :: "'a list \<Rightarrow> ('a \<Rightarrow> 'b result) \<Rightarrow> nat \<Rightarrow> 'b result" where
  "at_offset values f offset =
     (if offset \<ge> length values then Inl (InternalException ''LeRobot statistic shape exceeds its value count'')
      else f (values ! offset))"

definition all_consumed :: "'a list \<Rightarrow> 'b \<times> nat \<Rightarrow> 'b result" where
  "all_consumed values = (\<lambda>(v, offset).
     if offset \<noteq> length values then Inl (InternalException ''LeRobot statistic shape did not consume all values'')
     else Inr v)"

definition BuildNestedStatValue :: "fp list \<Rightarrow> nat list \<Rightarrow> nat \<Rightarrow> (evalue \<times> nat) result" where
  "BuildNestedStatValue values = nest_values (at_offset values (\<lambda>v. Inr (EReal v))) (list_node DOUBLE)"

definition BuildStatValue :: "fp list \<Rightarrow> nat list \<Rightarrow> evalue result" where
  "BuildStatValue values shape = bindE (BuildNestedStatValue values shape 0) (all_consumed values)"

text \<open>\<open>DefaultCastAs\<close> to the two leaf types of integer extrema.\<close>

definition cast_integer :: "logical_type \<Rightarrow> int \<Rightarrow> int result" where
  "cast_integer leaf_type i =
     (if (if leaf_type = UBIGINT then 0 \<le> i \<and> i \<le> int IDX_MAX else is_int64 i) then Inr i
      else Inl (ConversionException ''integer statistic is out of range''))"

definition BuildNestedIntegerStatValue :: "int list \<Rightarrow> logical_type \<Rightarrow> nat list \<Rightarrow> nat \<Rightarrow> (evalue \<times> nat) result" where
  "BuildNestedIntegerStatValue values leaf_type =
     nest_values (at_offset values (\<lambda>i. bindE (cast_integer leaf_type i) (\<lambda>i. Inr (EInt i)))) (list_node leaf_type)"

definition BuildIntegerStatValue :: "int list \<Rightarrow> nat list \<Rightarrow> logical_type \<Rightarrow> evalue result" where
  "BuildIntegerStatValue values shape leaf_type =
     bindE (BuildNestedIntegerStatValue values leaf_type shape 0) (all_consumed values)"

subsection \<open>Numbers\<close>

text \<open>
  An output stream with precision 17: the shortest form of 17 significant digits, fixed for decimal
  exponents from -4 to 16 and scientific otherwise. A negative zero is printed as zero (the two zeros
  are one value here).
\<close>

function int_digits :: "int \<Rightarrow> string" where
  "int_digits n = (if n < 10 then [digit_char (nat n)] else int_digits (n div 10) @ [digit_char (nat (n mod 10))])"
  by pat_completeness auto

termination by (relation "measure nat") auto

declare int_digits.simps [simp del]

definition decimal_exponent :: "rat \<Rightarrow> int" where
  "decimal_exponent x =
     (if 1 \<le> x then int (length (int_digits \<lfloor>x\<rfloor>)) - 1
      else - int (length (int_digits (\<lceil>1 / x\<rceil> - 1))))"

definition strip_zeros :: "string \<Rightarrow> string" where
  "strip_zeros digits = rev (dropWhile (\<lambda>c. c = CHR ''0'') (rev digits))"

definition with_fraction :: "string \<Rightarrow> string \<Rightarrow> string" where
  "with_fraction whole fraction = (if fraction = [] then whole else whole @ ''.'' @ fraction)"

definition print_positive :: "rat \<Rightarrow> string" where
  "print_positive x =
     (let e0 = decimal_exponent x;
          m0 = rne (x / 10 powi (e0 - 16));
          (m, e) = (if m0 = 10 ^ 17 then (10 ^ 16, e0 + 1) else (m0, e0));
          digits = int_digits m
      in if 0 \<le> e \<and> e < 17
         then with_fraction (take (nat (e + 1)) digits) (strip_zeros (drop (nat (e + 1)) digits))
         else if - 4 \<le> e \<and> e < 0 then ''0.'' @ replicate (nat (- e - 1)) (CHR ''0'') @ strip_zeros digits
         else
           let exponent = int_digits \<bar>e\<bar>
           in with_fraction (take 1 digits) (strip_zeros (drop 1 digits)) @ ''e'' @ (if e < 0 then ''-'' else ''+'') @
              (if length exponent < 2 then ''0'' @ exponent else exponent))"

definition JsonNumber :: "fp \<Rightarrow> string result" where
  "JsonNumber v =
     (case v of
        Fin x \<Rightarrow> Inr (if x = 0 then ''0'' else if x < 0 then ''-'' @ print_positive (- x) else print_positive x)
      | _ \<Rightarrow> Inl (InvalidInputException ''LeRobot statistics cannot contain NaN or infinity''))"

definition json_node :: "nat list \<Rightarrow> string list \<Rightarrow> string" where
  "json_node shape children = ''['' @ join_comma children @ '']''"

definition NestedStatsJSON :: "fp list \<Rightarrow> nat list \<Rightarrow> nat \<Rightarrow> (string \<times> nat) result" where
  "NestedStatsJSON values = nest_values (at_offset values JsonNumber) json_node"

definition StatsJSONValue :: "fp list \<Rightarrow> nat list \<Rightarrow> string result" where
  "StatsJSONValue values shape = bindE (NestedStatsJSON values shape 0) (all_consumed values)"

definition NestedIntegerStatsJSON :: "int list \<Rightarrow> nat list \<Rightarrow> nat \<Rightarrow> (string \<times> nat) result" where
  "NestedIntegerStatsJSON values = nest_values (at_offset values (\<lambda>i. Inr (to_string_int i))) json_node"

definition IntegerStatsJSONValue :: "int list \<Rightarrow> nat list \<Rightarrow> string result" where
  "IntegerStatsJSONValue values shape = bindE (NestedIntegerStatsJSON values shape 0) (all_consumed values)"

section \<open>Sampled frames\<close>

text \<open>The reference: the values of a pixel, and the sampled pixels of a frame, row by row.\<close>

definition channel_bytes :: "raw_visual_type \<Rightarrow> nat" where
  "channel_bytes raw_type = (case raw_type of RGB24 \<Rightarrow> 1 | DEPTH_UINT16 \<Rightarrow> 2 | DEPTH_FLOAT32 \<Rightarrow> 4)"

definition pixel_values :: "raw_visual_type \<Rightarrow> nat \<Rightarrow> nat \<Rightarrow> string \<Rightarrow> nat \<times> nat \<Rightarrow> stats_row" where
  "pixel_values raw_type w c frame = (\<lambda>(y, x).
     (map (\<lambda>channel. ReadRawVisualValue frame raw_type ((y * w + x) * c + channel)) [0 ..< c], []))"

definition pixel_grid :: "nat \<Rightarrow> nat \<Rightarrow> nat \<Rightarrow> (nat \<times> nat) list" where
  "pixel_grid h w step =
     concat (map (\<lambda>i. map (\<lambda>j. (i * step, j * step)) [0 ..< 1 + (w - 1) div step]) [0 ..< 1 + (h - 1) div step])"

lemma map_divmod: "0 < m \<Longrightarrow> map (\<lambda>k. f (k div m) (k mod m)) [0 ..< n * m] = concat (map (\<lambda>i. map (f i) [0 ..< m]) [0 ..< n])"
proof (induction n)
  case (Suc n)
  have "[0 ..< Suc n * m] = [0 ..< n * m] @ map (\<lambda>j. n * m + j) [0 ..< m]"
    using upt_add_eq_append [of 0 "n * m" m] map_add_upt [of "n * m" m] by (simp add: add.commute)
  then have "map (\<lambda>k. f (k div m) (k mod m)) [0 ..< Suc n * m] =
      map (\<lambda>k. f (k div m) (k mod m)) [0 ..< n * m] @ map (f n) [0 ..< m]"
    using Suc.prems by simp
  then show ?case using Suc by simp
qed simp

lemma pixel_grid_flat:
  "pixel_grid h w step = map (\<lambda>k. (k div (1 + (w - 1) div step) * step, k mod (1 + (w - 1) div step) * step))
     [0 ..< (1 + (h - 1) div step) * (1 + (w - 1) div step)]"
  unfolding pixel_grid_def by (rule map_divmod [symmetric]) simp

lemma concat_slice:
  "list_all (\<lambda>s. length s = n) xs \<Longrightarrow> i < length xs \<Longrightarrow> take n (drop (i * n) (concat xs)) = xs ! i"
proof (induction xs arbitrary: i)
  case (Cons s xs)
  then show ?case by (cases i) (auto simp: drop_append)
qed simp

lemma length_concat_const: "list_all (\<lambda>s. length s = n) xs \<Longrightarrow> length (concat xs) = length xs * n"
  by (induction xs) auto

lemma Append_spool_Inr:
  assumes "Append_spool data spool = Inr spool'"
    and "list_all (\<lambda>s. length s = frame_size spool) (spool_frames spool)"
    and "spool_open spool \<or> spool_frames spool = []"
  shows "spool_frames spool' = spool_frames spool @ [data]" and "spool_open spool'"
    and "list_all (\<lambda>s. length s = frame_size spool') (spool_frames spool')"
    and "spool_path spool' = spool_path spool"
  using assms by (auto simp: Append_spool_def Let_def split: if_splits)

definition spool_ok :: "visual_spool \<Rightarrow> bool" where
  "spool_ok spool \<longleftrightarrow> list_all (\<lambda>s. length s = frame_size spool) (spool_frames spool) \<and>
     (spool_open spool \<or> spool_frames spool = [])"

lemma Append_spool_ok: "Append_spool data spool = Inr spool' \<Longrightarrow> spool_ok spool \<Longrightarrow>
    spool_ok spool' \<and> spool_frames spool' = spool_frames spool @ [data]"
  using Append_spool_Inr [of data spool spool'] by (simp add: spool_ok_def)

lemma spooled_frames:
  "foldE Append_spool frames spool = Inr spool' \<Longrightarrow> spool_ok spool \<Longrightarrow>
     spool_ok spool' \<and> spool_frames spool' = spool_frames spool @ frames"
proof (induction frames arbitrary: spool)
  case (Cons f fs)
  then obtain s where s: "Append_spool f spool = Inr s" "foldE Append_spool fs s = Inr spool'" by (auto split: sum.splits)
  from Append_spool_ok [OF s(1) Cons.prems(2)] Cons.IH [OF s(2)] show ?case by simp
qed simp

lemma sampled_pixel_bound: "0 < (h::nat) \<Longrightarrow> i < 1 + (h - 1) div step \<Longrightarrow> i * step < h"
proof -
  assume h: "0 < h" and "i < 1 + (h - 1) div step"
  then have "i * step \<le> (h - 1) div step * step" by simp
  also have "\<dots> \<le> h - 1" by simp
  finally show ?thesis using h by simp
qed

lemma pixel_in_frame:
  assumes "y < h" and "x < (w::nat)"
  shows "((y * w + x) * c + c) * b \<le> w * h * (c * b)"
proof -
  have "y * w + x + 1 \<le> y * w + w" using assms(2) by simp
  also have "\<dots> \<le> h * w" using mult_le_mono1 [of "Suc y" h w] assms(1) by simp
  finally have "(y * w + x + 1) * (c * b) \<le> h * w * (c * b)" by (rule mult_le_mono1)
  then show ?thesis by (simp add: algebra_simps)
qed

lemma ExpectedFrameBytes_Inr:
  assumes "ExpectedFrameBytes w h raw_type = Inr n"
  shows "n = w * h * raw_multiplier raw_type" "0 < w" "0 < h"
  using assms by (auto simp: ExpectedFrameBytes_def Let_def split: if_splits)

section \<open>Nested statistics\<close>

text \<open>The tree over the values from an offset on, in row-major order.\<close>

fun nest_tree :: "(nat \<Rightarrow> 'b) \<Rightarrow> (nat list \<Rightarrow> 'b list \<Rightarrow> 'b) \<Rightarrow> nat list \<Rightarrow> nat \<Rightarrow> 'b" where
  "nest_tree g node [] offset = g offset"
| "nest_tree g node (n # shape) offset =
     node shape (map (\<lambda>i. nest_tree g node shape (offset + i * prod_list shape)) [0 ..< n])"

lemma fold_children:
  assumes "\<And>i cs. i < n \<Longrightarrow> F i (cs, offset + i * m) = Inr (cs @ [t i], offset + i * m + m)"
  shows "foldE F [0 ..< n] ([], offset) = Inr (map t [0 ..< n], offset + n * m)"
  using assms by (induction n) (simp_all add: algebra_simps)

lemma nest_values_ok:
  assumes "shape \<noteq> []" and "\<And>i. i < offset + prod_list shape \<Longrightarrow> leaf i = Inr (g i)"
  shows "nest_values leaf node shape offset = Inr (nest_tree g node shape offset, offset + prod_list shape)"
  using assms
proof (induction leaf node shape offset rule: nest_values.induct)
  case (2 leaf node n offset)
  have "foldE (\<lambda>_ (children, offset). bindE (leaf offset) (\<lambda>v. Inr (children @ [v], offset + 1))) [0 ..< n] ([], offset) =
      Inr (map (\<lambda>i. g (offset + i)) [0 ..< n], offset + n * 1)"
    using 2 by (intro fold_children) simp
  then show ?case by simp
next
  case (3 leaf node n m shape offset)
  have step: "nest_values leaf node (m # shape) (offset + i * prod_list (m # shape)) =
      Inr (nest_tree g node (m # shape) (offset + i * prod_list (m # shape)),
           offset + i * prod_list (m # shape) + prod_list (m # shape))" if "i < n" for i
  proof (rule "3.IH")
    fix j
    assume "j < offset + i * prod_list (m # shape) + prod_list (m # shape)"
    also have "\<dots> \<le> offset + prod_list (n # m # shape)"
      using mult_le_mono1 [of "Suc i" n "prod_list (m # shape)"] that by simp
    finally show "leaf j = Inr (g j)" by (rule "3.prems"(2))
  qed (use that in simp_all)
  have "foldE (\<lambda>_ (children, offset). bindE (nest_values leaf node (m # shape) offset) (\<lambda>(v, offset).
        Inr (children @ [v], offset))) [0 ..< n] ([], offset) =
      Inr (map (\<lambda>i. nest_tree g node (m # shape) (offset + i * prod_list (m # shape))) [0 ..< n],
           offset + n * prod_list (m # shape))"
    by (intro fold_children) (simp add: step del: nest_values.simps nest_tree.simps prod_list.Cons)
  then show ?case by (simp del: nest_values.simps(2) nest_tree.simps add: nest_tree.simps(2) [of _ _ n])
qed simp

lemma fold_children_Inr:
  assumes "foldE F [0 ..< n] ([], offset) = Inr (cs, o')"
    and "\<And>i cs o1 cs' o2. i < n \<Longrightarrow> F i (cs, o1) = Inr (cs', o2) \<Longrightarrow> o2 = o1 + m \<and> list_all P [o1 ..< o2]"
  shows "o' = offset + n * m \<and> list_all P [offset ..< o']"
  using assms
proof (induction n arbitrary: cs o')
  case (Suc n)
  from Suc.prems(1) obtain cs1 o1 where 1: "foldE F [0 ..< n] ([], offset) = Inr (cs1, o1)" "F n (cs1, o1) = Inr (cs, o')"
    by (auto split: sum.splits)
  have "o1 = offset + n * m \<and> list_all P [offset ..< o1]"
    by (rule Suc.IH [OF 1(1)]) (use Suc.prems(2) less_SucI in blast)
  moreover have "o' = o1 + m \<and> list_all P [o1 ..< o']" by (rule Suc.prems(2) [OF lessI 1(2)])
  ultimately show ?case using upt_add_eq_append [of offset o1 m] by auto
qed simp

lemma nest_values_Inr:
  assumes "nest_values leaf node shape offset = Inr (v, o')"
  shows "o' = offset + prod_list shape \<and> list_all (\<lambda>i. \<exists>x. leaf i = Inr x) [offset ..< o']"
  using assms
proof (induction leaf node shape offset arbitrary: v o' rule: nest_values.induct)
  case (2 leaf node n offset)
  from "2.prems" obtain cs where
    "foldE (\<lambda>_ (children, offset). bindE (leaf offset) (\<lambda>v. Inr (children @ [v], offset + 1))) [0 ..< n] ([], offset) = Inr (cs, o')"
    by auto
  then have "o' = offset + n * 1 \<and> list_all (\<lambda>i. \<exists>x. leaf i = Inr x) [offset ..< o']"
    by (rule fold_children_Inr) auto
  then show ?case by auto
next
  case (3 leaf node n m shape offset)
  from "3.prems" obtain cs where f: "foldE (\<lambda>_ (children, offset). bindE (nest_values leaf node (m # shape) offset)
      (\<lambda>(v, offset). Inr (children @ [v], offset))) [0 ..< n] ([], offset) = Inr (cs, o')"
    by (auto simp del: nest_values.simps simp: nest_values.simps(3))
  have step: "o2 = o1 + prod_list (m # shape) \<and> list_all (\<lambda>i. \<exists>x. leaf i = Inr x) [o1 ..< o2]"
    if "i < n" and "(\<lambda>(children, offset). bindE (nest_values leaf node (m # shape) offset)
      (\<lambda>(v, offset). Inr (children @ [v], offset))) (cs', o1) = Inr (cs'', o2)" for i cs' o1 cs'' o2
  proof -
    from that(2) obtain v' where "nest_values leaf node (m # shape) o1 = Inr (v', o2)"
      by (auto simp del: nest_values.simps)
    then show ?thesis using that(1) by (auto simp del: nest_values.simps dest: "3.IH" [rotated -1])
  qed
  have "o' = offset + n * prod_list (m # shape) \<and> list_all (\<lambda>i. \<exists>x. leaf i = Inr x) [offset ..< o']"
    by (rule fold_children_Inr [OF f]) (rule step)
  then show ?case by auto
qed simp

fun leaves :: "evalue \<Rightarrow> evalue list" where
  "leaves (EList type vs) = concat (map leaves vs)"
| "leaves v = [v]"

fun typed :: "logical_type \<Rightarrow> evalue \<Rightarrow> bool" where
  "typed DOUBLE (EReal v) = True"
| "typed BIGINT (EInt i) = is_int64 i"
| "typed UBIGINT (EInt i) = (0 \<le> i \<and> i \<le> int IDX_MAX)"
| "typed VARCHAR (EText s) = True"
| "typed (LIST type) (EList type' vs) = (type' = type \<and> list_all (typed type) vs)"
| "typed _ _ = False"

fun has_shape :: "nat list \<Rightarrow> evalue \<Rightarrow> bool" where
  "has_shape [] v \<longleftrightarrow> (case v of EList type vs \<Rightarrow> False | _ \<Rightarrow> True)"
| "has_shape (n # shape) v \<longleftrightarrow> (case v of EList type vs \<Rightarrow> length vs = n \<and> list_all (has_shape shape) vs | _ \<Rightarrow> False)"

text \<open>The text of a nested value with finite numbers.\<close>

definition number_text :: "fp \<Rightarrow> string" where
  "number_text v = (case JsonNumber v of Inl e \<Rightarrow> '''' | Inr s \<Rightarrow> s)"

fun json_text :: "evalue \<Rightarrow> string" where
  "json_text (EInt i) = to_string_int i"
| "json_text (EReal v) = number_text v"
| "json_text (EText s) = JsonEscape s"
| "json_text (EList type vs) = ''['' @ join_comma (map json_text vs) @ '']''"

lemma StatListType_nested: "StatListType shape type = LerobotNestedListType type (length shape)"
  by (induction shape) simp_all

lemma concat_upt: "concat (map (\<lambda>i. map f [a + i * m ..< a + i * m + m]) [0 ..< n]) = map f [a ..< a + n * m]"
proof (induction n)
  case (Suc n)
  have "[a ..< a + Suc n * m] = [a ..< a + n * m] @ [a + n * m ..< a + n * m + m]"
    using upt_add_eq_append [of a "a + n * m" m] by (simp add: algebra_simps)
  then show ?case using Suc by simp
qed simp

lemma tree_leaves_list:
  assumes "\<And>i. i < offset + prod_list shape \<Longrightarrow> leaves (g i) = [h i]"
  shows "leaves (nest_tree g (list_node type) shape offset) = map h [offset ..< offset + prod_list shape]"
  using assms
proof (induction shape arbitrary: offset)
  case (Cons n shape)
  have "leaves (nest_tree g (list_node type) shape (offset + i * prod_list shape)) =
      map h [offset + i * prod_list shape ..< offset + i * prod_list shape + prod_list shape]" if "i < n" for i
  proof (rule Cons.IH)
    fix j
    assume "j < offset + i * prod_list shape + prod_list shape"
    also have "\<dots> \<le> offset + prod_list (n # shape)" using mult_le_mono1 [of "Suc i" n "prod_list shape"] that by simp
    finally show "leaves (g j) = [h j]" by (rule Cons.prems)
  qed
  then have "leaves (nest_tree g (list_node type) (n # shape) offset) =
      concat (map (\<lambda>i. map h [offset + i * prod_list shape ..< offset + i * prod_list shape + prod_list shape]) [0 ..< n])"
    by (auto simp: list_node_def comp_def intro!: arg_cong [where f = concat])
  then show ?case by (simp add: concat_upt)
qed simp

lemma typed_node:
  "typed (LIST (StatListType shape type)) (list_node type shape vs) = list_all (typed (StatListType shape type)) vs"
  by (simp add: list_node_def)

lemma tree_typed:
  assumes "\<And>i. i < offset + prod_list shape \<Longrightarrow> typed type (g i)"
  shows "typed (StatListType shape type) (nest_tree g (list_node type) shape offset)"
  using assms
proof (induction shape arbitrary: offset)
  case (Cons n shape)
  have "typed (StatListType shape type) (nest_tree g (list_node type) shape (offset + i * prod_list shape))" if "i < n" for i
  proof (rule Cons.IH)
    fix j
    assume "j < offset + i * prod_list shape + prod_list shape"
    also have "\<dots> \<le> offset + prod_list (n # shape)" using mult_le_mono1 [of "Suc i" n "prod_list shape"] that by simp
    finally show "typed type (g j)" by (rule Cons.prems)
  qed
  then show ?case by (simp add: typed_node list_all_iff)
qed simp

lemma tree_shape:
  "(\<And>i. has_shape [] (g i)) \<Longrightarrow> has_shape shape (nest_tree g (list_node type) shape offset)"
  by (induction shape arbitrary: offset) (auto simp: list_node_def list_all_iff)

lemma tree_text: "json_text (nest_tree g (list_node type) shape offset) = nest_tree (json_text \<circ> g) json_node shape offset"
  by (induction shape arbitrary: offset) (simp_all add: list_node_def json_node_def comp_def)

lemma nested_build:
  assumes "shape \<noteq> []"
  shows "bindE (nest_values (at_offset values f) node shape 0) (all_consumed values) = Inr v \<longleftrightarrow>
    length values = prod_list shape \<and> list_all (\<lambda>x. \<exists>y. f x = Inr y) values \<and>
    v = nest_tree (\<lambda>i. projr (f (values ! i))) node shape 0"
proof
  assume "bindE (nest_values (at_offset values f) node shape 0) (all_consumed values) = Inr v"
  then have n: "nest_values (at_offset values f) node shape 0 = Inr (v, length values)"
    by (auto simp: all_consumed_def split: if_splits)
  from nest_values_Inr [OF n] have len: "length values = prod_list shape"
    and leaf: "list_all (\<lambda>i. \<exists>x. at_offset values f i = Inr x) [0 ..< length values]" by auto
  have leaf': "\<exists>y. f (values ! i) = Inr y" if "i < length values" for i
    using leaf that by (simp add: list_all_iff at_offset_def)
  have "nest_values (at_offset values f) node shape 0 =
      Inr (nest_tree (\<lambda>i. projr (f (values ! i))) node shape 0, 0 + prod_list shape)"
    using assms leaf' len by (intro nest_values_ok) (fastforce simp: at_offset_def)+
  with n leaf' len show "length values = prod_list shape \<and> list_all (\<lambda>x. \<exists>y. f x = Inr y) values \<and>
      v = nest_tree (\<lambda>i. projr (f (values ! i))) node shape 0"
    by (simp add: list_all_length)
next
  assume r: "length values = prod_list shape \<and> list_all (\<lambda>x. \<exists>y. f x = Inr y) values \<and>
    v = nest_tree (\<lambda>i. projr (f (values ! i))) node shape 0"
  then have "nest_values (at_offset values f) node shape 0 =
      Inr (nest_tree (\<lambda>i. projr (f (values ! i))) node shape 0, 0 + prod_list shape)"
    using assms by (intro nest_values_ok) (fastforce simp: at_offset_def list_all_length)+
  then show "bindE (nest_values (at_offset values f) node shape 0) (all_consumed values) = Inr v"
    using r by (simp add: all_consumed_def)
qed

lemma nested_value:
  assumes "length xs = prod_list shape" and "list_all (\<lambda>x. typed type (e x)) xs"
    and "\<And>x. leaves (e x) = [e x]" and "\<And>x. has_shape [] (e x)"
    and v: "v = nest_tree (\<lambda>i. e (xs ! i)) (list_node type) shape 0"
  shows "leaves v = map e xs" and "typed (LerobotNestedListType type (length shape)) v" and "has_shape shape v"
    and "json_text v = nest_tree (\<lambda>i. json_text (e (xs ! i))) json_node shape 0"
proof -
  have "leaves v = map (\<lambda>i. e (xs ! i)) [0 ..< length xs]"
    unfolding v assms(1) using assms(3) by (subst tree_leaves_list [where h = "\<lambda>i. e (xs ! i)"]) simp_all
  also have "\<dots> = map e (map ((!) xs) [0 ..< length xs])" by (simp add: comp_def)
  finally show "leaves v = map e xs" unfolding map_nth .
  show "typed (LerobotNestedListType type (length shape)) v"
    unfolding v StatListType_nested [symmetric]
    by (rule tree_typed) (use assms(1,2) in \<open>simp add: list_all_length\<close>)
  show "has_shape shape v" unfolding v by (rule tree_shape) (rule assms(4))
  show "json_text v = nest_tree (\<lambda>i. json_text (e (xs ! i))) json_node shape 0"
    unfolding v tree_text comp_def ..
qed

lemma nest_tree_cong:
  "(\<And>i. i < offset + prod_list shape \<Longrightarrow> g i = h i) \<Longrightarrow> nest_tree g node shape offset = nest_tree h node shape offset"
proof (induction shape arbitrary: offset)
  case (Cons n shape)
  have "nest_tree g node shape (offset + i * prod_list shape) = nest_tree h node shape (offset + i * prod_list shape)"
    if "i < n" for i
  proof (rule Cons.IH)
    fix j
    assume "j < offset + i * prod_list shape + prod_list shape"
    also have "\<dots> \<le> offset + prod_list (n # shape)" using mult_le_mono1 [of "Suc i" n "prod_list shape"] that by simp
    finally show "g j = h j" by (rule Cons.prems)
  qed
  then show ?case by (auto intro!: arg_cong [where f = "node shape"] map_cong)
qed simp

section \<open>Properties\<close>

lemma BuildStatValue_Inr:
  assumes "shape \<noteq> []"
  shows "BuildStatValue values shape = Inr v \<longleftrightarrow>
    length values = prod_list shape \<and> v = nest_tree (\<lambda>i. EReal (values ! i)) (list_node DOUBLE) shape 0"
  using nested_build [OF assms, of "values" "\<lambda>v. Inr (EReal v)" "list_node DOUBLE",
      folded BuildNestedStatValue_def BuildStatValue_def, simplified] by (auto simp: list_all_iff)

lemma stats_text_of_value:
  assumes "shape \<noteq> []" "length values = prod_list shape" "list_all fis_finite values"
    and printed: "json_text v = nest_tree (\<lambda>i. json_text (EReal (values ! i))) json_node shape 0"
  shows "StatsJSONValue values shape = Inr (json_text v)"
proof -
  have number: "JsonNumber x = Inr (number_text x)" if "fis_finite x" for x
    using that by (cases x) (simp_all add: number_text_def JsonNumber_def fis_finite_def)
  have "json_text v = nest_tree (\<lambda>i. projr (JsonNumber (values ! i))) json_node shape 0"
    unfolding printed using assms(2,3) number by (intro nest_tree_cong) (simp add: list_all_length)
  moreover have "list_all (\<lambda>x. \<exists>y. JsonNumber x = Inr y) values"
    using assms(3) number by (fastforce simp: list_all_iff)
  ultimately show ?thesis
    unfolding StatsJSONValue_def NestedStatsJSON_def nested_build [OF assms(1)] using assms(2) by (intro conjI)
qed

lemma real_stat_nested:
  assumes "shape \<noteq> []" "BuildStatValue values shape = Inr v"
  shows "typed (LerobotNestedListType DOUBLE (length shape)) v \<and> has_shape shape v \<and> leaves v = map EReal values \<and>
    (list_all fis_finite values \<longrightarrow> StatsJSONValue values shape = Inr (json_text v))"
proof -
  have v: "v = nest_tree (\<lambda>i. EReal (values ! i)) (list_node DOUBLE) shape 0" and len: "length values = prod_list shape"
    using assms(2) BuildStatValue_Inr [OF assms(1)] by simp_all
  have "list_all (\<lambda>x. typed DOUBLE (EReal x)) values" "\<And>x. leaves (EReal x) = [EReal x]" "\<And>x. has_shape [] (EReal x)"
    by (simp_all add: list_all_iff)
  note nested = nested_value [OF len this v]
  show ?thesis using nested(1-3) by (intro conjI impI stats_text_of_value [OF assms(1) len _ nested(4)])
qed

lemma BuildIntegerStatValue_Inr:
  assumes "shape \<noteq> []"
  shows "BuildIntegerStatValue ints shape leaf_type = Inr w \<longleftrightarrow>
    length ints = prod_list shape \<and> list_all (\<lambda>i. cast_integer leaf_type i = Inr i) ints \<and>
    w = nest_tree (\<lambda>i. EInt (ints ! i)) (list_node leaf_type) shape 0"
proof -
  let ?leaf = "\<lambda>i. bindE (cast_integer leaf_type i) (\<lambda>i. Inr (EInt i))"
  have same: "?leaf i = Inr y \<longleftrightarrow> cast_integer leaf_type i = Inr i \<and> y = EInt i" for i y
    by (auto simp: cast_integer_def)
  have cast: "list_all (\<lambda>i. \<exists>y. ?leaf i = Inr y) ints \<longleftrightarrow> list_all (\<lambda>i. cast_integer leaf_type i = Inr i) ints"
    unfolding same by simp
  have "nest_tree (\<lambda>i. projr (?leaf (ints ! i))) (list_node leaf_type) shape 0 =
      nest_tree (\<lambda>i. EInt (ints ! i)) (list_node leaf_type) shape 0"
    if "length ints = prod_list shape" "list_all (\<lambda>i. cast_integer leaf_type i = Inr i) ints"
    using that by (intro nest_tree_cong) (simp add: list_all_length)
  then show ?thesis
    unfolding BuildIntegerStatValue_def BuildNestedIntegerStatValue_def nested_build [OF assms] cast by metis
qed

lemma integer_stat_nested:
  assumes "shape \<noteq> []" "BuildIntegerStatValue ints shape leaf_type = Inr w" "leaf_type \<in> {BIGINT, UBIGINT}"
  shows "typed (LerobotNestedListType leaf_type (length shape)) w \<and> has_shape shape w \<and> leaves w = map EInt ints \<and>
    IntegerStatsJSONValue ints shape = Inr (json_text w)"
proof -
  have len: "length ints = prod_list shape" and cast: "list_all (\<lambda>i. cast_integer leaf_type i = Inr i) ints"
    and w: "w = nest_tree (\<lambda>i. EInt (ints ! i)) (list_node leaf_type) shape 0"
    using assms(2) BuildIntegerStatValue_Inr [OF assms(1)] by simp_all
  have "list_all (\<lambda>i. typed leaf_type (EInt i)) ints"
    using cast assms(3) by (auto simp: list_all_iff cast_integer_def split: if_splits)
  then have "list_all (\<lambda>i. typed leaf_type (EInt i)) ints" "\<And>i. leaves (EInt i) = [EInt i]" "\<And>i. has_shape [] (EInt i)"
    by simp_all
  note nested = nested_value [OF len this w, unfolded json_text.simps]
  show ?thesis
    using nested len nested_build [OF assms(1), of ints "\<lambda>i. Inr (to_string_int i)" json_node,
        folded NestedIntegerStatsJSON_def IntegerStatsJSONValue_def, simplified] by (simp add: list_all_iff)
qed



text \<open>The positions of a reader count through the sampled frames, and in each through the grid of its pixels.\<close>

lemma sampled_grids_flat:
  fixes f :: "nat \<Rightarrow> nat \<times> nat \<Rightarrow> 'a"
  defines "sw w step \<equiv> 1 + (w - 1) div step"
  defines "M h w step \<equiv> (1 + (h - 1) div step) * sw w step"
  shows "map (\<lambda>k. f (sampled ! (k div M h w step)) ((k mod M h w step) div sw w step * step, (k mod M h w step) mod sw w step * step))
      [0 ..< length sampled * M h w step] = concat (map (\<lambda>i. map (f i) (pixel_grid h w step)) sampled)"
proof -
  define rows where "rows i = (\<lambda>k. f (sampled ! i) (k div sw w step * step, k mod sw w step * step))" for i
  have "map (\<lambda>k. rows (k div M h w step) (k mod M h w step)) [0 ..< length sampled * M h w step] =
      concat (map (\<lambda>i. map (rows i) [0 ..< M h w step]) [0 ..< length sampled])"
    by (subst map_divmod [symmetric]) (simp_all add: M_def sw_def comp_def del: mult_Suc mult_Suc_right)
  also have "\<dots> = concat (map (\<lambda>i. map (f i) (pixel_grid h w step)) (map ((!) sampled) [0 ..< length sampled]))"
    by (simp only: pixel_grid_flat rows_def map_map comp_def M_def sw_def)
  finally show ?thesis unfolding rows_def map_nth .
qed

text \<open>
  C33. Statistics of a camera read the right pixels: over frames spooled one by one, the reader gives, for
  every sampled frame in order, the channel values of every sampled pixel in row-major order, each value
  lies within its frame, and a frame of another size is refused.
\<close>
theorem visual_stats_pixels:
  assumes "foldE Append_spool frames (Initialize_spool path) = Inr spool"
    and "VisualStatsReader feature spool raw_type sampled step = Inr reader"
    and "cf_shape feature = [h, w, c]" and "c * channel_bytes raw_type = raw_multiplier raw_type"
    and "list_all (\<lambda>i. i < length frames) sampled"
  shows "reader = map Inr (concat (map (\<lambda>i. map (pixel_values raw_type w c (frames ! i)) (pixel_grid h w step)) sampled)) \<and>
    list_all (\<lambda>(y, x). y < h \<and> x < w \<and>
      list_all (\<lambda>frame. ((y * w + x) * c + c) * channel_bytes raw_type \<le> length frame) frames) (pixel_grid h w step)"
proof -
  have "spool_ok (Initialize_spool path)" by (simp add: spool_ok_def Initialize_spool_def)
  from spooled_frames [OF assms(1) this] have ok: "spool_ok spool" and frames: "spool_frames spool = frames"
    by (simp_all add: Initialize_spool_def)
  let ?sw = "1 + (w - 1) div step"
  define M where "M = (1 + (h - 1) div step) * ?sw"
  let ?next = "visual_next feature spool raw_type sampled step M"
  from assms(2,3) obtain expected where e: "ExpectedFrameBytes w h raw_type = Inr expected"
    and size: "frame_size spool = expected"
    and reader: "reader = map ?next [0 ..< M * length sampled]"
    by (auto simp: VisualStatsReader_def Let_def M_def split: if_splits)
  note bytes = ExpectedFrameBytes_Inr [OF e]
  have all: "list_all (\<lambda>s. length s = frame_size spool) frames" using ok frames by (simp add: spool_ok_def)
  let ?channels = "\<lambda>i. pixel_values raw_type w c (frames ! i)"
  have "?next k = Inr (?channels (sampled ! (k div M)) ((k mod M) div ?sw * step, (k mod M) mod ?sw * step))"
    if "k < length sampled * M" for k
  proof -
    have "sampled ! (k div M) < length frames" using that assms(5) by (simp add: list_all_length less_mult_imp_div_less)
    then show ?thesis
      using concat_slice [OF all] by (simp add: visual_next_def Let_def frames assms(3) pixel_values_def)
  qed
  then have "reader = map (\<lambda>k. Inr (?channels (sampled ! (k div M)) ((k mod M) div ?sw * step, (k mod M) mod ?sw * step)))
      [0 ..< length sampled * M]"
    unfolding reader mult.commute [of M] by (intro map_cong [OF refl]) simp
  also have "\<dots> = concat (map (\<lambda>i. map (\<lambda>p. Inr (?channels i p)) (pixel_grid h w step)) sampled)"
    unfolding M_def by (rule sampled_grids_flat)
  also have "\<dots> = map Inr (concat (map (\<lambda>i. map (?channels i) (pixel_grid h w step)) sampled))"
    by (simp add: map_concat comp_def)
  finally have all_channels: "reader = map Inr (concat (map (\<lambda>i. map (?channels i) (pixel_grid h w step)) sampled))" .
  have "((y * w + x) * c + c) * channel_bytes raw_type \<le> length frame"
    if "y < h" "x < w" "frame \<in> set frames" for y x frame
    using pixel_in_frame [OF that(1,2), of c "channel_bytes raw_type"] all that(3) bytes(1) size assms(4)
    by (simp add: list_all_iff)
  moreover have "y < h \<and> x < w" if "(y, x) \<in> set (pixel_grid h w step)" for y x
    using that bytes(2,3) sampled_pixel_bound by (auto simp: pixel_grid_def)
  ultimately show ?thesis using all_channels by (auto simp: list_all_iff)
qed

definition example_camera :: copy_feature where
  "example_camera = (user_feature ''camera'' ''video'' ''{}'' ''null'' [1, 2, 3] BLOB BLOB False)"

theorem visual_stats_pixels_witness:
  "\<exists>spool reader. foldE Append_spool [''abcdef'', ''ghijkl''] (Initialize_spool ''raw'') = Inr spool \<and>
     VisualStatsReader example_camera spool RGB24 [1, 0] 1 = Inr reader \<and>
     map projr reader = map (\<lambda>vs. (map Fin vs, [])) [[103, 104, 105], [106, 107, 108], [97, 98, 99], [100, 101, 102]]"
proof -
  let ?spool = "\<lparr>spool_path = ''raw'', spool_open = True, frame_size = 6, spool_frames = [''abcdef'', ''ghijkl'']\<rparr>"
  have len: "length ''abcdef'' = 6" "length ''ghijkl'' = 6" by simp_all
  have "6 \<le> IDX_MAX div 2" by (simp add: IDX_MAX_def)
  then have fits: "6 \<le> IDX_MAX div Suc (Suc 0)" "6 \<le> IDX_MAX" "IDX_MAX \<noteq> 0" "IDX_MAX \<noteq> Suc 0"
    by (simp_all add: IDX_MAX_def numeral_2_eq_2 [symmetric])
  have s: "foldE Append_spool [''abcdef'', ''ghijkl''] (Initialize_spool ''raw'') = Inr ?spool"
    using fits by (simp add: Append_spool_def Initialize_spool_def len del: length_Cons)
  have shape: "cf_shape example_camera = [1, 2, 3]" by (simp add: example_camera_def user_feature_def)
  have b: "ExpectedFrameBytes 2 1 RGB24 = Inr 6" "ExpectedFrameBytes 2 (Suc 0) RGB24 = Inr 6"
    by (simp_all add: ExpectedFrameBytes_def raw_multiplier_def IDX_MAX_def)
  have q: "\<not> IDX_MAX div 2 < 2" "\<not> IDX_MAX div 2 < Suc 0" "\<not> IDX_MAX div 6 < 2" "\<not> IDX_MAX div 2 = 0" by (simp_all add: IDX_MAX_def)
  have total: "length (concat [''abcdef'', ''ghijkl'']) = 12" "length [''abcdef'', ''ghijkl''] = 2" "length [1, 0 :: nat] = 2" "length [Suc 0, 0] = 2"
    by simp_all
  have two: "Suc (Suc 0) = 2" by simp
  obtain reader where r: "VisualStatsReader example_camera ?spool RGB24 [1, 0] 1 = Inr reader"
    using that by (simp add: VisualStatsReader_def b shape q total two Let_def del: length_Cons length_concat concat.simps)
  have "map (pixel_values RGB24 2 3 f) (pixel_grid 1 2 1) =
      [(map (\<lambda>k. ReadRawVisualValue f RGB24 k) [0, 1, 2], []), (map (\<lambda>k. ReadRawVisualValue f RGB24 k) [3, 4, 5], [])]" for f
    by (simp add: pixel_values_def pixel_grid_def upt_rec numeral_2_eq_2)
  then show ?thesis
    using visual_stats_pixels [OF s r shape] s r
    by (simp add: channel_bytes_def raw_multiplier_def ReadRawVisualValue_def)
qed

end
