(* ===== verification/CopyWriter.thy ===== *)
theory CopyWriter
  imports CopyValues
begin

text \<open>
  The writer of \<open>COPY ... (FORMAT lerobot)\<close> (\<open>LerobotCopyGlobalData\<close> in
  \<open>src/function/copy/lerobot_copy.cpp\<close>): a state that collects an episode, finishes it into data files,
  video shards and a row of episode metadata, and at the end writes the remaining files and publishes the
  staging directory. Paths are relative to the staging directory, which is renamed to the root. A write to
  the file system that fails ends the \<open>COPY\<close> with its exception; only the calls whose results the code
  inspects are modelled.
\<close>

section \<open>Parquet files\<close>

text \<open>
  \<open>DelegatedParquetWriter\<close>: the open file and the rows flushed to it, and the files closed before. DuckDB's
  \<open>rotate_next_file\<close> is a function of these rows and of a size limit.
\<close>

record 'r parquet =
  pq_open :: "string option"
  pq_rows :: "'r list"
  pq_files :: "(string \<times> 'r list) list"

definition new_parquet :: "'r parquet" where
  "new_parquet = \<lparr>pq_open = None, pq_rows = [], pq_files = []\<rparr>"

definition pq_Open :: "string \<Rightarrow> 'r parquet \<Rightarrow> 'r parquet result" where
  "pq_Open path p =
     (case pq_open p of
        Some _ \<Rightarrow> Inl (InternalException ''LeRobot delegated Parquet writer is already open'')
      | None \<Rightarrow> Inr (p\<lparr>pq_open := Some path, pq_rows := []\<rparr>))"

definition pq_Flush :: "'r list \<Rightarrow> 'r parquet \<Rightarrow> 'r parquet result" where
  "pq_Flush rows p =
     (if pq_open p = None \<or> rows = []
      then Inl (InternalException ''Cannot flush an empty or unopened LeRobot Parquet writer'')
      else Inr (p\<lparr>pq_rows := pq_rows p @ rows\<rparr>))"

definition pq_SizeAtLeast :: "('r list \<Rightarrow> nat \<Rightarrow> bool) \<Rightarrow> fp \<Rightarrow> 'r parquet \<Rightarrow> bool" where
  "pq_SizeAtLeast rotate_next_file bytes p =
     (case pq_open p of
        None \<Rightarrow> False
      | Some _ \<Rightarrow>
          if fle bytes (Fin 0) then True
          else
            case bytes of
              Fin x \<Rightarrow>
                if flt (int_to_double (int IDX_MAX)) bytes then False
                else let minimum_size = nat \<lceil>x\<rceil> in rotate_next_file (pq_rows p) (minimum_size - 1)
            | _ \<Rightarrow> False)"

definition pq_Close :: "'r parquet \<Rightarrow> 'r parquet" where
  "pq_Close p =
     (case pq_open p of
        None \<Rightarrow> p
      | Some path \<Rightarrow> p\<lparr>pq_open := None, pq_rows := [], pq_files := pq_files p @ [(path, pq_rows p)]\<rparr>)"

section \<open>Rows\<close>

text \<open>Values of the input, and of the data files; \<open>CValue\<close> is any value the writer only copies.\<close>

datatype 'v cell = CNull | CBigint int | CVarchar string | CBlob string | CValue 'v

datatype 'v out = ONull | OCopy "'v cell" | OImage string string | OFloat fp | OBigint int

type_synonym 'v input_row = "'v cell list"
type_synonym 'v data_row = "'v out list"

definition NumericCast :: "nat \<Rightarrow> int result" where
  "NumericCast n = (if int n \<le> INT64_MAX then Inr (int n) else Inl (InternalException ''Information loss on integer cast''))"

section \<open>Code outside\<close>

record encoded_info =
  ei_encoder :: string
  ei_codec :: string
  ei_pixel_format :: string
  ei_gop :: int
  ei_duration :: fp
  ei_frame_count :: nat

record encode_job =
  ej_feature_index :: nat
  ej_output_path :: string
  ej_raw_frames :: visual_spool
  ej_frame_count :: nat
  ej_width :: nat
  ej_height :: nat
  ej_fps :: nat
  ej_raw_type :: raw_visual_type
  ej_encoding :: video_encoding

record encode_result =
  er_feature_index :: nat
  er_output_path :: string
  er_encoded :: encoded_info

text \<open>
  The calls the writer makes: rotation of the two kinds of Parquet files, the image encoder for a width, a
  height and a type, the codec executor for the jobs of an episode (with its two limits), the size of a
  local file, the concatenation of fragments, the scan of a collected column, and the C library.
\<close>

record 'v copy_host =
  rotate_data :: "'v data_row list \<Rightarrow> nat \<Rightarrow> bool"
  rotate_episodes :: "evalue list list \<Rightarrow> nat \<Rightarrow> bool"
  Encode_image :: "nat \<Rightarrow> nat \<Rightarrow> raw_visual_type \<Rightarrow> string \<Rightarrow> string result"
  Execute_codecs :: "encode_job list \<Rightarrow> nat \<Rightarrow> nat \<Rightarrow> encode_result list result"
  GetLocalFileSize :: "string \<Rightarrow> nat result"
  ConcatenateVideos :: "string list \<Rightarrow> string \<Rightarrow> unit result"
  scan_column :: "'v data_row list \<Rightarrow> nat \<Rightarrow> (vec \<times> nat) list"
  host_sqrt :: "precision \<Rightarrow> fp \<Rightarrow> fp"
  host_pow75 :: "fp \<Rightarrow> fp"

section \<open>State\<close>

record route =
  rt_chunk_index :: nat
  rt_file_index :: nat
  rt_from_timestamp :: fp
  rt_to_timestamp :: fp

record shard =
  sh_initialized :: bool
  sh_chunk_index :: nat
  sh_file_index :: nat
  sh_duration :: fp
  sh_fragment_bytes :: nat
  sh_fragments :: "string list"

text \<open>
  \<open>LerobotCopyGlobalData\<close>. A vector with a presence flag per element is a list of options, the set of
  the tasks of the current episode is the set of the elements of their list, and \<open>metadata_buffer_rows\<close>
  is the length of the buffer. \<open>w_video_files\<close> are the video files written, each with the paths of the
  fragments it holds.
\<close>

record 'v writer =
  w_data :: "'v data_row parquet"
  w_episodes :: "evalue list parquet"
  w_tasks_file :: "(int \<times> string) parquet"
  w_current_data :: "'v data_row list"
  w_metadata_buffer :: "evalue list list"
  w_task_indexes :: "string \<Rightarrow> int option"
  w_tasks :: "string list"
  w_current_episode_tasks :: "string list"
  w_dataset_stats :: "feature_stats option list"
  w_spools :: "visual_spool list"
  w_raw_types :: "raw_visual_type option list"
  w_routes :: "route list"
  w_shards :: "shard list"
  w_encoded :: "encoded_info list"
  w_image_writers :: "raw_visual_type option list"
  w_video_files :: "(string \<times> string list) list"
  w_total_episodes :: nat
  w_total_frames :: nat
  w_current_episode :: int
  w_current_episode_frames :: nat
  w_data_index :: "nat \<times> nat"
  w_data_file_start_frame :: nat
  w_metadata_index :: "nat \<times> nat"
  w_has_current_episode :: bool

definition new_route :: route where
  "new_route = \<lparr>rt_chunk_index = 0, rt_file_index = 0, rt_from_timestamp = Fin 0, rt_to_timestamp = Fin 0\<rparr>"

definition new_shard :: shard where
  "new_shard = \<lparr>sh_initialized = False, sh_chunk_index = 0, sh_file_index = 0, sh_duration = Fin 0,
     sh_fragment_bytes = 0, sh_fragments = []\<rparr>"

definition new_encoded :: encoded_info where
  "new_encoded = \<lparr>ei_encoder = '''', ei_codec = '''', ei_pixel_format = '''', ei_gop = 0, ei_duration = Fin 0,
     ei_frame_count = 0\<rparr>"

definition is_visual :: "copy_feature \<Rightarrow> bool" where
  "is_visual feature \<longleftrightarrow> is_image feature \<or> is_video feature"

text \<open>The state the constructor leaves.\<close>

definition new_writer :: "copy_bind \<Rightarrow> 'v writer" where
  "new_writer b =
     (let n = length (bd_features b)
      in \<lparr>w_data = new_parquet, w_episodes = new_parquet, w_tasks_file = new_parquet, w_current_data = [],
          w_metadata_buffer = [], w_task_indexes = Map.empty, w_tasks = [], w_current_episode_tasks = [],
          w_dataset_stats = replicate n None, w_spools = [],
          w_raw_types = map (\<lambda>f. if is_visual f \<and> \<not> is_depth f then Some RGB24 else None) (bd_features b),
          w_routes = [], w_shards = replicate n new_shard, w_encoded = replicate n new_encoded,
          w_image_writers = replicate n None, w_video_files = [], w_total_episodes = 0, w_total_frames = 0,
          w_current_episode = -1, w_current_episode_frames = 0, w_data_index = (0, 0),
          w_data_file_start_frame = 0, w_metadata_index = (0, 0), w_has_current_episode = False\<rparr>)"

section \<open>Collecting an episode\<close>

definition StartEpisode :: "copy_bind \<Rightarrow> int \<Rightarrow> 'v writer \<Rightarrow> 'v writer result" where
  "StartEpisode b episode_index w =
     bindE (NumericCast (w_total_episodes w)) (\<lambda>expected.
     if episode_index \<noteq> expected
     then Inl (InvalidInputException ''LeRobot episodes must be contiguous and ordered from zero'')
     else Inr (w\<lparr>w_current_episode := episode_index, w_current_episode_frames := 0, w_current_episode_tasks := [],
            w_current_data := [],
            w_spools := map (\<lambda>(i, f). if is_visual f
                then Initialize_spool (''.tmp/raw/'' @ to_string i @ ''/episode-'' @ to_string_int episode_index @ ''.raw'')
                else Initialize_spool '''') (enumerate 0 (bd_features b)),
            w_routes := replicate (length (bd_features b)) new_route, w_has_current_episode := True\<rparr>))"

definition ResolveRawVisualType ::
  "copy_bind \<Rightarrow> nat \<Rightarrow> nat \<Rightarrow> 'v writer \<Rightarrow> (raw_visual_type \<times> 'v writer) result" where
  "ResolveRawVisualType b feature_index frame_bytes w =
     bindE (InferRawVisualType (bd_features b ! feature_index) frame_bytes) (\<lambda>inferred.
     case w_raw_types w ! feature_index of
       None \<Rightarrow> Inr (inferred, w\<lparr>w_raw_types := (w_raw_types w)[feature_index := Some inferred]\<rparr>)
     | Some raw_type \<Rightarrow>
         if raw_type \<noteq> inferred
         then Inl (InvalidInputException ''LeRobot visual feature changes raw dtype within the dataset'')
         else Inr (inferred, w))"

definition GetTaskIndex :: "string \<Rightarrow> 'v writer \<Rightarrow> (int \<times> 'v writer) result" where
  "GetTaskIndex task w =
     (case w_task_indexes w task of
        Some index \<Rightarrow> Inr (index, w)
      | None \<Rightarrow>
          bindE (NumericCast (length (w_tasks w))) (\<lambda>index.
          Inr (index, w\<lparr>w_task_indexes := (w_task_indexes w)(task \<mapsto> index), w_tasks := w_tasks w @ [task]\<rparr>)))"

definition AddEpisodeTask :: "string \<Rightarrow> 'v writer \<Rightarrow> 'v writer" where
  "AddEpisodeTask task w =
     (if task \<in> set (w_current_episode_tasks w) then w
      else w\<lparr>w_current_episode_tasks := w_current_episode_tasks w @ [task]\<rparr>)"

text \<open>The three parts of an output row: copied columns, images, generated columns.\<close>

definition copy_column :: "'v input_row \<Rightarrow> copy_feature \<Rightarrow> 'v data_row \<Rightarrow> 'v data_row" where
  "copy_column cells feature out =
     (if is_visual feature \<or> \<not> user_defined feature then out
      else out[the (output_index feature) := OCopy (cells ! the (input_index feature))])"

definition append_visual ::
  "'v copy_host \<Rightarrow> copy_bind \<Rightarrow> nat \<Rightarrow> 'v input_row \<Rightarrow> nat \<times> copy_feature \<Rightarrow> 'v writer \<times> 'v data_row \<Rightarrow>
     ('v writer \<times> 'v data_row) result" where
  "append_visual h b frame_index cells = (\<lambda>(feature_index, feature) (w, out).
     if \<not> is_visual feature then Inr (w, out)
     else
       (case cells ! the (input_index feature) of
          CNull \<Rightarrow> Inl (InvalidInputException ''LeRobot feature must not contain NULL'')
        | CBlob raw \<Rightarrow>
            if length raw > max_visual_frame_bytes (bd_config b)
            then Inl (InvalidInputException ''LeRobot visual feature frame exceeds MAX_VISUAL_FRAME_BYTES'')
            else
              bindE (ResolveRawVisualType b feature_index (length raw) w) (\<lambda>(raw_type, w).
              bindE (Append_spool raw (w_spools w ! feature_index)) (\<lambda>spool.
              let w = w\<lparr>w_spools := (w_spools w)[feature_index := spool]\<rparr>
              in if \<not> is_image feature then Inr (w, out)
                 else
                   let writer_type = (case w_image_writers w ! feature_index of None \<Rightarrow> raw_type | Some t \<Rightarrow> t);
                       w = w\<lparr>w_image_writers := (w_image_writers w)[feature_index := Some writer_type]\<rparr>
                   in bindE (Encode_image h (cf_shape feature ! 1) (cf_shape feature ! 0) writer_type raw) (\<lambda>encoded.
                      Inr (w, out[the (output_index feature) :=
                                    OImage encoded (FrameFileName frame_index (is_depth feature))]))))
        | _ \<Rightarrow> Inl (InternalException ''Expected a BLOB vector'')))"

definition set_generated ::
  "copy_bind \<Rightarrow> 'v writer \<Rightarrow> nat \<Rightarrow> int \<Rightarrow> copy_feature \<Rightarrow> 'v data_row \<Rightarrow> 'v data_row result" where
  "set_generated b w frame_index task_index feature out =
     (let column = the (output_index feature)
      in if cf_name feature = ''timestamp''
         then Inr (out[column := OFloat (to_float (ddiv (int_to_double (int frame_index))
                                                        (int_to_double (int (cc_fps (bd_config b))))))])
         else if cf_name feature = ''frame_index''
         then bindE (NumericCast frame_index) (\<lambda>i. Inr (out[column := OBigint i]))
         else if cf_name feature = ''episode_index''
         then Inr (out[column := OBigint (w_current_episode w)])
         else if cf_name feature = ''index''
         then bindE (NumericCast (w_total_frames w + frame_index)) (\<lambda>i. Inr (out[column := OBigint i]))
         else if cf_name feature = ''task_index'' then Inr (out[column := OBigint task_index])
         else Inr out)"

definition append_row ::
  "'v copy_host \<Rightarrow> copy_bind \<Rightarrow> nat \<times> 'v input_row \<Rightarrow> 'v writer \<times> 'v data_row list \<Rightarrow>
     ('v writer \<times> 'v data_row list) result" where
  "append_row h b = (\<lambda>(row, cells) (w, rows).
     let frame_index = w_current_episode_frames w + row;
         out = fold (copy_column cells) (bd_features b) (replicate (length (bd_data b)) ONull)
     in bindE (foldE (append_visual h b frame_index cells) (enumerate 0 (bd_features b)) (w, out)) (\<lambda>(w, out).
        case cells ! bd_task_input b of
          CNull \<Rightarrow> Inl (InvalidInputException ''LeRobot task values must not be NULL'')
        | CVarchar task \<Rightarrow>
            bindE (GetTaskIndex task w) (\<lambda>(task_index, w).
            let w = AddEpisodeTask task w
            in bindE (foldE (set_generated b w frame_index task_index) (bd_features b) out) (\<lambda>out.
               Inr (w, rows @ [out])))
        | _ \<Rightarrow> Inl (InternalException ''Expected a VARCHAR value'')))"

definition AppendRun :: "'v copy_host \<Rightarrow> copy_bind \<Rightarrow> 'v input_row list \<Rightarrow> 'v writer \<Rightarrow> 'v writer result" where
  "AppendRun h b run w =
     bindE (foldE (append_row h b) (enumerate 0 run) (w, [])) (\<lambda>(w, rows).
     Inr (w\<lparr>w_current_data := w_current_data w @ rows,
            w_current_episode_frames := w_current_episode_frames w + length run\<rparr>))"

section \<open>Files\<close>

definition size_limit :: "fp \<Rightarrow> fp" where
  "size_limit megabytes = dmul (dmul megabytes (Fin 1024)) (Fin 1024)"

definition EnsureDataWriter :: "'v copy_host \<Rightarrow> copy_bind \<Rightarrow> nat \<Rightarrow> 'v writer \<Rightarrow> 'v writer result" where
  "EnsureDataWriter h b episode_length w =
     (let frames_in_file = w_total_frames w - w_data_file_start_frame w;
          projection_factor = (if frames_in_file > 0
            then dadd (Fin 1) (ddiv (int_to_double (int episode_length)) (int_to_double (int frames_in_file)))
            else Fin 1);
          limit = ddiv (size_limit (data_file_size_mb (bd_config b))) projection_factor;
          w = (if pq_SizeAtLeast (rotate_data h) limit (w_data w)
               then w\<lparr>w_data := pq_Close (w_data w),
                      w_data_index := AdvanceFileIndex (chunks_size (bd_config b)) (w_data_index w),
                      w_data_file_start_frame := w_total_frames w\<rparr>
               else w)
      in if pq_open (w_data w) = None
         then bindE (pq_Open (DataRelativePath (fst (w_data_index w)) (snd (w_data_index w))) (w_data w)) (\<lambda>p.
              Inr (w\<lparr>w_data := p\<rparr>))
         else Inr w)"

definition FlushMetadataBuffer :: "'v writer \<Rightarrow> 'v writer result" where
  "FlushMetadataBuffer w =
     (if w_metadata_buffer w = [] then Inr w
      else
        bindE (if pq_open (w_episodes w) = None
               then pq_Open (EpisodesRelativePath (fst (w_metadata_index w)) (snd (w_metadata_index w))) (w_episodes w)
               else Inr (w_episodes w)) (\<lambda>p.
        bindE (pq_Flush (w_metadata_buffer w) p) (\<lambda>p.
        Inr (w\<lparr>w_episodes := p, w_metadata_buffer := []\<rparr>))))"

definition MaybeRotateEpisodesWriter :: "'v copy_host \<Rightarrow> copy_bind \<Rightarrow> nat \<Rightarrow> 'v writer \<Rightarrow> 'v writer result" where
  "MaybeRotateEpisodesWriter h b episode_length w =
     (let latest_episode_index = (if w_current_episode w > 0 then int_to_double (w_current_episode w - 1) else Fin 0);
          projection_factor = (if flt (Fin 0) latest_episode_index
            then dadd (Fin 1) (ddiv (int_to_double (int episode_length)) latest_episode_index) else Fin 1);
          limit = ddiv (size_limit (data_file_size_mb (bd_config b))) projection_factor
      in if \<not> pq_SizeAtLeast (rotate_episodes h) limit (w_episodes w) then Inr w
         else
           bindE (FlushMetadataBuffer w) (\<lambda>w.
           Inr (w\<lparr>w_episodes := pq_Close (w_episodes w),
                  w_metadata_index := AdvanceFileIndex (chunks_size (bd_config b)) (w_metadata_index w)\<rparr>)))"

section \<open>Videos\<close>

definition set_shard :: "nat \<Rightarrow> shard \<Rightarrow> 'v writer \<Rightarrow> 'v writer" where
  "set_shard i shard w = w\<lparr>w_shards := (w_shards w)[i := shard]\<rparr>"

definition MaterializeVideoShard :: "'v copy_host \<Rightarrow> copy_bind \<Rightarrow> nat \<Rightarrow> 'v writer \<Rightarrow> 'v writer result" where
  "MaterializeVideoShard h b feature_index w =
     (let shard = w_shards w ! feature_index
      in if sh_fragments shard = [] then Inr w
         else
           let shard_path = VideoRelativePath (cf_name (bd_features b ! feature_index)) (sh_chunk_index shard)
                 (sh_file_index shard);
               temporary_dir = ''.tmp/videos/'' @ to_string feature_index;
               concat_output = temporary_dir @ ''/shard-'' @ to_string (sh_chunk_index shard) @ ''-'' @
                 to_string (sh_file_index shard) @ ''.mp4''
           in if shard_path \<in> fst ` set (w_video_files w)
              then Inl (InternalException ''LeRobot video shard already exists before materialization'')
              else
                bindE (if length (sh_fragments shard) = 1 then Inr ()
                       else ConcatenateVideos h (sh_fragments shard) concat_output) (\<lambda>_.
                Inr (set_shard feature_index (shard\<lparr>sh_fragments := [], sh_fragment_bytes := 0\<rparr>)
                       (w\<lparr>w_video_files := w_video_files w @ [(shard_path, sh_fragments shard)]\<rparr>))))"

text \<open>The choice of the shard for the next fragment.\<close>

definition select_shard :: "'v copy_host \<Rightarrow> copy_bind \<Rightarrow> nat \<Rightarrow> nat \<Rightarrow> 'v writer \<Rightarrow> 'v writer result" where
  "select_shard h b feature_index episode_bytes w =
     (let shard = w_shards w ! feature_index
      in if \<not> sh_initialized shard
         then Inr (set_shard feature_index
           (shard\<lparr>sh_initialized := True, sh_chunk_index := 0, sh_file_index := 0, sh_duration := Fin 0\<rparr>) w)
         else if sh_fragments shard = [] then Inr w
         else
           let projected_size = dadd (int_to_double (int (sh_fragment_bytes shard))) (int_to_double (int episode_bytes))
           in if \<not> fle (size_limit (video_file_size_mb (bd_config b))) projected_size then Inr w
              else
                bindE (MaterializeVideoShard h b feature_index w) (\<lambda>w.
                let shard = w_shards w ! feature_index;
                    (chunk, file_i) = AdvanceFileIndex (chunks_size (bd_config b)) (sh_chunk_index shard, sh_file_index shard)
                in Inr (set_shard feature_index
                     (shard\<lparr>sh_chunk_index := chunk, sh_file_index := file_i, sh_duration := Fin 0\<rparr>) w)))"

definition RegisterEncodedVideo :: "'v copy_host \<Rightarrow> copy_bind \<Rightarrow> encode_result \<Rightarrow> 'v writer \<Rightarrow> 'v writer result" where
  "RegisterEncodedVideo h b result w =
     (let feature_index = er_feature_index result;
          encoded = er_encoded result
      in if feature_index \<ge> length (bd_features b) \<or> \<not> is_video (bd_features b ! feature_index)
         then Inl (InternalException ''LeRobot codec executor returned an invalid feature index'')
         else if ei_frame_count encoded \<noteq> w_current_episode_frames w
         then Inl (IOException ''LeRobot video encoder wrote another number of frames'')
         else
           let info = w_encoded w ! feature_index
           in if ei_codec info \<noteq> '''' \<and>
                 (ei_encoder info \<noteq> ei_encoder encoded \<or> ei_codec info \<noteq> ei_codec encoded \<or>
                  ei_pixel_format info \<noteq> ei_pixel_format encoded)
              then Inl (IOException ''LeRobot encoder changed the stream format between episodes'')
              else
                bindE (GetLocalFileSize h (er_output_path result)) (\<lambda>episode_bytes.
                bindE (select_shard h b feature_index episode_bytes
                         (w\<lparr>w_encoded := (w_encoded w)[feature_index := encoded]\<rparr>)) (\<lambda>w.
                let shard = w_shards w ! feature_index
                in if sh_fragment_bytes shard > IDX_MAX - episode_bytes
                   then Inl (InvalidInputException ''LeRobot pending video shard is too large'')
                   else
                     let from_timestamp = sh_duration shard;
                         shard = shard\<lparr>sh_fragments := sh_fragments shard @ [er_output_path result],
                                       sh_fragment_bytes := sh_fragment_bytes shard + episode_bytes,
                                       sh_duration := dadd (sh_duration shard) (ei_duration encoded)\<rparr>;
                         route = \<lparr>rt_chunk_index = sh_chunk_index shard, rt_file_index = sh_file_index shard,
                                  rt_from_timestamp = from_timestamp, rt_to_timestamp = sh_duration shard\<rparr>
                     in Inr ((set_shard feature_index shard w)\<lparr>w_routes := (w_routes w)[feature_index := route]\<rparr>))))"

definition encode_job_of :: "copy_bind \<Rightarrow> 'v writer \<Rightarrow> nat \<times> copy_feature \<Rightarrow> encode_job result" where
  "encode_job_of b w = (\<lambda>(feature_index, feature).
     case w_raw_types w ! feature_index of
       None \<Rightarrow> Inl (InternalException ''LeRobot video feature has no resolved raw dtype'')
     | Some raw_type \<Rightarrow>
         let spool = w_spools w ! feature_index
         in if length (spool_frames spool) \<noteq> w_current_episode_frames w
            then Inl (InternalException ''LeRobot video spool has another number of frames'')
            else Inr \<lparr>ej_feature_index = feature_index,
                   ej_output_path = ''.tmp/videos/'' @ to_string feature_index @ ''/episode-'' @
                     to_string_int (w_current_episode w) @ ''.mp4'',
                   ej_raw_frames = spool, ej_frame_count = length (spool_frames spool),
                   ej_width = cf_shape feature ! 1, ej_height = cf_shape feature ! 0, ej_fps = cc_fps (bd_config b),
                   ej_raw_type = raw_type, ej_encoding = encoding (bd_config b)\<rparr>)"

definition register_result ::
  "'v copy_host \<Rightarrow> copy_bind \<Rightarrow> encode_result \<Rightarrow> nat option \<times> 'v writer \<Rightarrow> (nat option \<times> 'v writer) result" where
  "register_result h b result = (\<lambda>(previous, w).
     if (case previous of None \<Rightarrow> False | Some i \<Rightarrow> er_feature_index result \<le> i)
     then Inl (InternalException ''LeRobot codec executor changed feature order'')
     else bindE (RegisterEncodedVideo h b result w) (\<lambda>w. Inr (Some (er_feature_index result), w)))"

definition EncodeEpisodeVideos :: "'v copy_host \<Rightarrow> copy_bind \<Rightarrow> 'v writer \<Rightarrow> 'v writer result" where
  "EncodeEpisodeVideos h b w =
     bindE (mapE (encode_job_of b w) (filter (\<lambda>(i, f). is_video f) (enumerate 0 (bd_features b)))) (\<lambda>jobs.
     if jobs = [] then Inr w
     else
       bindE (Execute_codecs h jobs (video_workers (bd_config b)) (encoder_threads (bd_config b))) (\<lambda>encoded.
       bindE (foldE (register_result h b) encoded (None, w)) (\<lambda>(_, w). Inr w)))"

definition MaterializeVideoShards :: "'v copy_host \<Rightarrow> copy_bind \<Rightarrow> 'v writer \<Rightarrow> 'v writer result" where
  "MaterializeVideoShards h b w =
     foldE (\<lambda>(i, f). if is_video f then MaterializeVideoShard h b i else Inr) (enumerate 0 (bd_features b)) w"

section \<open>Statistics and metadata of an episode\<close>

definition ComputeEpisodeStats :: "'v copy_host \<Rightarrow> copy_bind \<Rightarrow> 'v writer \<Rightarrow> nat \<Rightarrow> feature_stats result" where
  "ComputeEpisodeStats h b w feature_index =
     (let feature = bd_features b ! feature_index
      in if is_visual feature
         then
           let spool = w_spools w ! feature_index
           in case w_raw_types w ! feature_index of
                None \<Rightarrow> Inl (InternalException ''LeRobot visual feature has an incomplete episode spool'')
              | Some raw_type \<Rightarrow>
                  if length (spool_frames spool) \<noteq> w_current_episode_frames w
                  then Inl (InternalException ''LeRobot visual feature has an incomplete episode spool'')
                  else
                    let sampled_indices = SampleVisualFrameIndices (host_pow75 h) (length (spool_frames spool));
                        largest_dimension = max (cf_shape feature ! 0) (cf_shape feature ! 1);
                        step = (if largest_dimension \<ge> 300 then max 1 (largest_dimension div 150) else 1)
                    in bindE (VisualStatsReader feature spool raw_type sampled_indices step) (\<lambda>reader.
                       ComputeStats (host_sqrt h) (\<lambda>_. reader) (cf_shape feature ! 2) (length sampled_indices) feature)
         else
           bindE (ShapeWidth (cf_shape feature)) (\<lambda>value_width.
           ComputeStats (host_sqrt h)
             (\<lambda>_. CollectionStatsReader feature value_width (cc_fps (bd_config b)) (length (w_current_data w))
                    (scan_column h (w_current_data w) (the (output_index feature))))
             value_width (w_current_episode_frames w) feature))"

definition episode_stats_of :: "'v copy_host \<Rightarrow> copy_bind \<Rightarrow> 'v writer \<Rightarrow> nat \<times> copy_feature \<Rightarrow> feature_stats option result" where
  "episode_stats_of h b w = (\<lambda>(feature_index, feature).
     if \<not> HasStatistics feature then Inr None
     else
       bindE (ComputeEpisodeStats h b w feature_index) (\<lambda>stats.
       Inr (Some (if is_visual feature \<and> \<not> is_depth feature then NormalizeRGBStats stats else stats))))"

definition AddStatsToEpisodeRow :: "copy_feature \<Rightarrow> feature_stats \<Rightarrow> evalue list \<Rightarrow> evalue list result" where
  "AddStatsToEpisodeRow feature stats row =
     (let shape = stat_shape feature
      in bindE (HasIntegerExtrema feature) (\<lambda>integer_extrema.
         bindE (if integer_extrema
                then bindE (LerobotStatExtremaLeafType (cf_dtype feature)) (\<lambda>leaf_type.
                     bindE (BuildIntegerStatValue (integer_min stats) shape leaf_type) (\<lambda>minimum.
                     bindE (BuildIntegerStatValue (integer_max stats) shape leaf_type) (\<lambda>maximum.
                     Inr [minimum, maximum])))
                else bindE (BuildStatValue (fs_min stats) shape) (\<lambda>minimum.
                     bindE (BuildStatValue (fs_max stats) shape) (\<lambda>maximum.
                     Inr [minimum, maximum]))) (\<lambda>extrema.
         bindE (mapE (\<lambda>entries. BuildStatValue entries shape) [fs_mean stats, fs_stddev stats]) (\<lambda>moments.
         bindE (mapE (\<lambda>entries. BuildStatValue entries shape) [q01 stats, q10 stats, q50 stats, q90 stats, q99 stats]) (\<lambda>quantiles.
         Inr (row @ extrema @ moments @ [EList BIGINT [EInt (int (fs_count stats))]] @ quantiles))))))"

definition video_route_values :: "route \<Rightarrow> evalue list result" where
  "video_route_values route =
     bindE (NumericCast (rt_chunk_index route)) (\<lambda>chunk.
     bindE (NumericCast (rt_file_index route)) (\<lambda>file_i.
     Inr [EInt chunk, EInt file_i, EReal (rt_from_timestamp route), EReal (rt_to_timestamp route)]))"

definition episode_base_values :: "'v writer \<Rightarrow> nat \<times> nat \<Rightarrow> nat \<Rightarrow> nat \<Rightarrow> evalue list result" where
  "episode_base_values w data_index from_index to_index =
     bindE (NumericCast (w_current_episode_frames w)) (\<lambda>len.
     bindE (NumericCast (fst data_index)) (\<lambda>data_chunk.
     bindE (NumericCast (snd data_index)) (\<lambda>data_file.
     bindE (NumericCast from_index) (\<lambda>from_i.
     bindE (NumericCast to_index) (\<lambda>to_i.
     Inr [EInt (w_current_episode w), EList VARCHAR (map EText (w_current_episode_tasks w)), EInt len,
          EInt data_chunk, EInt data_file, EInt from_i, EInt to_i])))))"

definition AppendEpisodeMetadata ::
  "'v copy_host \<Rightarrow> copy_bind \<Rightarrow> feature_stats option list \<Rightarrow> nat \<times> nat \<Rightarrow> nat \<Rightarrow> nat \<Rightarrow> 'v writer \<Rightarrow> 'v writer result" where
  "AppendEpisodeMetadata h b episode_stats data_index from_index to_index w =
     bindE (MaybeRotateEpisodesWriter h b (w_current_episode_frames w) w) (\<lambda>w.
     bindE (episode_base_values w data_index from_index to_index) (\<lambda>base.
     bindE (mapE (\<lambda>(i, f). video_route_values (w_routes w ! i))
              (filter (\<lambda>(i, f). is_video f) (enumerate 0 (bd_features b)))) (\<lambda>routes.
     bindE (foldE (\<lambda>(i, f). AddStatsToEpisodeRow f (the (episode_stats ! i)))
              (filter (\<lambda>(i, f). HasStatistics f) (enumerate 0 (bd_features b))) (base @ concat routes)) (\<lambda>row.
     bindE (NumericCast (fst (w_metadata_index w))) (\<lambda>metadata_chunk.
     bindE (NumericCast (snd (w_metadata_index w))) (\<lambda>metadata_file.
     let row = row @ [EInt metadata_chunk, EInt metadata_file]
     in if length row \<noteq> length (bd_episode b)
        then Inl (InternalException ''LeRobot episode metadata row has another number of values'')
        else
          let w = w\<lparr>w_metadata_buffer := w_metadata_buffer w @ [row]\<rparr>
          in if length (w_metadata_buffer w) \<ge> metadata_buffer_size (bd_config b) then FlushMetadataBuffer w
             else Inr w))))))"

definition merge_episode_stats ::
  "'v copy_host \<Rightarrow> copy_feature \<times> feature_stats option \<times> feature_stats option \<Rightarrow> feature_stats option result" where
  "merge_episode_stats h = (\<lambda>(feature, dataset, episode).
     case episode of
       None \<Rightarrow> Inr dataset
     | Some stats \<Rightarrow>
         (case dataset of
            None \<Rightarrow> Inr (Some stats)
          | Some target \<Rightarrow>
              bindE (HasIntegerExtrema feature) (\<lambda>integer_extrema.
              bindE (MergeStats (host_sqrt h F64) target stats integer_extrema) (\<lambda>merged. Inr (Some merged)))))"

section \<open>Episodes and the whole dataset\<close>

definition FinishEpisode :: "'v copy_host \<Rightarrow> copy_bind \<Rightarrow> 'v writer \<Rightarrow> 'v writer result" where
  "FinishEpisode h b w =
     (if \<not> w_has_current_episode w then Inr w
      else if w_current_episode_frames w = 0
      then Inl (InvalidInputException ''LeRobot episodes cannot be empty'')
      else
        let w = w\<lparr>w_spools := map Close_spool (w_spools w)\<rparr>
        in bindE (mapE (episode_stats_of h b w) (enumerate 0 (bd_features b))) (\<lambda>episode_stats.
           bindE (EnsureDataWriter h b (w_current_episode_frames w) w) (\<lambda>w.
           let data_index = w_data_index w
           in bindE (pq_Flush (w_current_data w) (w_data w)) (\<lambda>p.
              bindE (EncodeEpisodeVideos h b (w\<lparr>w_data := p, w_current_data := []\<rparr>)) (\<lambda>w.
              let w = w\<lparr>w_spools := map Remove_spool (w_spools w)\<rparr> in
              bindE (mapE (merge_episode_stats h) (zip (bd_features b) (zip (w_dataset_stats w) episode_stats))) (\<lambda>stats.
              let w = w\<lparr>w_dataset_stats := stats\<rparr>;
                  from_index = w_total_frames w;
                  to_index = w_total_frames w + w_current_episode_frames w
              in bindE (AppendEpisodeMetadata h b episode_stats data_index from_index to_index w) (\<lambda>w.
                 Inr (w\<lparr>w_total_frames := to_index, w_total_episodes := w_total_episodes w + 1,
                        w_has_current_episode := False\<rparr>))))))))"

text \<open>The loop over the runs of a chunk: a run is the rows of one episode that follow each other.\<close>

fun episode_of :: "copy_bind \<Rightarrow> 'v input_row \<Rightarrow> int option" where
  "episode_of b cells = (case cells ! bd_episode_input b of CBigint e \<Rightarrow> Some e | _ \<Rightarrow> None)"

definition begin_episode :: "'v copy_host \<Rightarrow> copy_bind \<Rightarrow> int \<Rightarrow> 'v writer \<Rightarrow> 'v writer result" where
  "begin_episode h b episode_index w =
     (if \<not> w_has_current_episode w then StartEpisode b episode_index w
      else if episode_index \<noteq> w_current_episode w
      then bindE (FinishEpisode h b w) (StartEpisode b episode_index)
      else Inr w)"

function process_runs :: "'v copy_host \<Rightarrow> copy_bind \<Rightarrow> 'v input_row list \<Rightarrow> 'v writer \<Rightarrow> 'v writer result" where
  "process_runs h b [] w = Inr w"
| "process_runs h b (cells # rest) w =
     (case episode_of b cells of
        None \<Rightarrow> Inl (InvalidInputException ''LeRobot episode_index must not be NULL'')
      | Some episode_index \<Rightarrow>
          bindE (begin_episode h b episode_index w) (\<lambda>w.
          bindE (AppendRun h b (cells # takeWhile (\<lambda>r. episode_of b r = Some episode_index) rest) w)
            (process_runs h b (dropWhile (\<lambda>r. episode_of b r = Some episode_index) rest))))"
  by pat_completeness auto

termination
  by (relation "measure (\<lambda>(h, b, rows, w). length rows)") (auto simp: le_imp_less_Suc length_dropWhile_le)

definition Process :: "'v copy_host \<Rightarrow> copy_bind \<Rightarrow> 'v input_row list \<Rightarrow> 'v writer \<Rightarrow> 'v writer result" where
  "Process h b chunk w =
     (if \<exists>feature \<in> set (bd_features b). user_defined feature \<and>
           (\<exists>cells \<in> set chunk. case cells ! the (input_index feature) of CNull \<Rightarrow> True | _ \<Rightarrow> False)
      then Inl (InvalidInputException ''LeRobot feature must not contain NULL'')
      else process_runs h b chunk w)"

definition WriteTasks :: "'v writer \<Rightarrow> 'v writer result" where
  "WriteTasks w =
     (if w_tasks w = [] then Inr w
      else
        bindE (mapE (\<lambda>(i, task). bindE (NumericCast i) (\<lambda>i. Inr (i, task))) (enumerate 0 (w_tasks w))) (\<lambda>rows.
        bindE (pq_Open ''meta/tasks.parquet'' (w_tasks_file w)) (\<lambda>p.
        bindE (pq_Flush rows p) (\<lambda>p.
        Inr (w\<lparr>w_tasks_file := pq_Close p\<rparr>)))))"

end
