(* ===== verification/CopyPublish.thy ===== *)
theory CopyPublish
  imports CopyWriter
begin

text \<open>
  The end of \<open>COPY ... (FORMAT lerobot)\<close> (\<open>src/function/copy/lerobot_copy.cpp\<close>): the texts of
  \<open>meta/stats.json\<close> and \<open>meta/info.json\<close>, \<open>Finalize\<close>, and a whole run from the root to the published
  dataset.
\<close>

section \<open>stats.json\<close>

definition FeatureStatsJSON :: "copy_feature \<Rightarrow> feature_stats \<Rightarrow> string result" where
  "FeatureStatsJSON feature stats =
     (let shape = stat_shape feature
      in bindE (HasIntegerExtrema feature) (\<lambda>integer_extrema.
         bindE (if integer_extrema then IntegerStatsJSONValue (integer_min stats) shape
                else StatsJSONValue (fs_min stats) shape) (\<lambda>minimum.
         bindE (if integer_extrema then IntegerStatsJSONValue (integer_max stats) shape
                else StatsJSONValue (fs_max stats) shape) (\<lambda>maximum.
         bindE (mapE (\<lambda>(name, entries). bindE (StatsJSONValue entries shape) (\<lambda>text.
                  Inr (''\"'' @ name @ ''\":'' @ text)))
                [(''mean'', fs_mean stats), (''std'', fs_stddev stats)]) (\<lambda>moments.
         bindE (mapE (\<lambda>(name, entries). bindE (StatsJSONValue entries shape) (\<lambda>text.
                  Inr (''\"'' @ name @ ''\":'' @ text)))
                [(''q01'', q01 stats), (''q10'', q10 stats), (''q50'', q50 stats), (''q90'', q90 stats),
                 (''q99'', q99 stats)]) (\<lambda>quantiles.
         Inr (''{'' @ join_comma ([''\"min\":'' @ minimum, ''\"max\":'' @ maximum] @ moments @
                [''\"count\":['' @ to_string (fs_count stats) @ '']''] @ quantiles) @ ''}'')))))))"

definition StatsJSON :: "copy_bind \<Rightarrow> feature_stats option list \<Rightarrow> string result" where
  "StatsJSON b dataset_stats =
     bindE (mapE (\<lambda>(feature, stats). bindE (FeatureStatsJSON feature (the stats)) (\<lambda>text.
              Inr (JsonEscape (cf_name feature) @ '':'' @ text)))
            (filter (\<lambda>(feature, stats). stats \<noteq> None) (zip (bd_features b) dataset_stats))) (\<lambda>entries.
     Inr (''{'' @ join_comma entries @ ''}''))"

section \<open>info.json\<close>

definition bool_text :: "bool \<Rightarrow> string" where
  "bool_text v = (if v then ''true'' else ''false'')"

definition DepthQuantizerJSON :: "video_encoding \<Rightarrow> string result" where
  "DepthQuantizerJSON config =
     bindE (JsonNumber (enc_depth_min config)) (\<lambda>minimum.
     bindE (JsonNumber (enc_depth_max config)) (\<lambda>maximum.
     bindE (JsonNumber (enc_depth_shift config)) (\<lambda>shift.
     Inr (''\"video.depth_min\":'' @ minimum @ '',\"video.depth_max\":'' @ maximum @ '',\"video.shift\":'' @ shift @
          '',\"video.use_log\":'' @ bool_text (depth_use_log config)))))"

definition encoded_video_json :: "copy_bind \<Rightarrow> copy_feature \<Rightarrow> encoded_info \<Rightarrow> string" where
  "encoded_video_json b feature encoded =
     (let depth = is_depth feature; is_svt = (ei_encoder encoded = ''libsvtav1'')
      in ''{\"video.height\":'' @ to_string (cf_shape feature ! 0) @ '',\"video.width\":'' @ to_string (cf_shape feature ! 1) @
         '',\"video.codec\":'' @ JsonEscape (ei_codec encoded) @ '',\"video.pix_fmt\":'' @ JsonEscape (ei_pixel_format encoded) @
         '',\"video.fps\":'' @ to_string (cc_fps (bd_config b)) @ '',\"video.channels\":'' @ to_string (cf_shape feature ! 2) @
         '',\"has_audio\":false,\"video.g\":'' @ to_string_int (ei_gop encoded) @ '',\"video.crf\":'' @
         (if depth then ''30'' else to_string_int (rgb_crf (encoding (bd_config b)))) @ '',\"video.preset\":'' @
         (if depth \<or> \<not> is_svt then ''null'' else ''12'') @
         '',\"video.fast_decode\":0,\"video.video_backend\":\"pyav\",\"video.extra_options\":'' @
         (if depth then ''{\"bf\":0,\"x265-params\":\"lossless=1:open-gop=0\"}''
          else if is_svt then ''{}'' else ''{\"cpu-used\":8,\"b\":0}'') @
         '',\"is_depth_map\":'' @ bool_text depth)"

definition VisualInfoJSON ::
  "copy_bind \<Rightarrow> copy_feature \<Rightarrow> raw_visual_type option \<Rightarrow> encoded_info \<Rightarrow> string result" where
  "VisualInfoJSON b feature raw encoded =
     (if \<not> is_visual feature then Inr ''''
      else
        case raw of
          None \<Rightarrow>
            if \<not> is_depth feature then Inr ''''
            else if is_image feature then Inr ''{\"is_depth_map\":true}''
            else bindE (DepthQuantizerJSON (encoding (bd_config b))) (\<lambda>quantizer.
                 Inr (''{\"video.pix_fmt\":\"gray12le\",'' @ quantizer @ '',\"is_depth_map\":true}''))
        | Some raw_type \<Rightarrow>
            let depth_unit = (if raw_type = DEPTH_UINT16 then ''mm'' else ''m'')
            in if is_image feature
               then Inr (if is_depth feature
                    then ''{\"is_depth_map\":true,\"depth_unit\":'' @ JsonEscape depth_unit @ ''}'' else '''')
               else if ei_codec encoded = '''' then Inr ''''
               else
                 let result = encoded_video_json b feature encoded
                 in if \<not> is_depth feature then Inr (result @ ''}'')
                    else bindE (DepthQuantizerJSON (encoding (bd_config b))) (\<lambda>quantizer.
                         Inr (result @ '','' @ quantizer @ '',\"depth_unit\":'' @ JsonEscape depth_unit @ ''}'')))"

definition FeaturesJSON :: "copy_bind \<Rightarrow> 'v writer \<Rightarrow> string result" where
  "FeaturesJSON b w =
     bindE (mapE (\<lambda>(feature, raw, encoded).
              bindE (VisualInfoJSON b feature raw encoded) (\<lambda>visual_info.
              Inr (JsonEscape (cf_name feature) @ '':{\"dtype\":'' @ JsonEscape (cf_dtype feature) @ '',\"shape\":'' @
                   ShapeJSON (cf_shape feature) @ '',\"names\":'' @ names_json feature @
                   (if visual_info \<noteq> '''' then '',\"info\":'' @ visual_info else '''') @ ''}'')))
            (zip (bd_features b) (zip (w_raw_types w) (w_encoded w)))) (\<lambda>entries.
     Inr (''{'' @ join_comma entries @ ''}''))"

definition LEROBOT_CODEBASE_VERSION :: string where "LEROBOT_CODEBASE_VERSION = ''v3.0''"

definition InfoJSON :: "copy_bind \<Rightarrow> 'v writer \<Rightarrow> string result" where
  "InfoJSON b w =
     (let has_video = (\<exists>feature \<in> set (bd_features b). is_video feature); config = bd_config b
      in bindE (FeaturesJSON b w) (\<lambda>features.
         bindE (JsonNumber (data_file_size_mb config)) (\<lambda>data_size.
         bindE (JsonNumber (video_file_size_mb config)) (\<lambda>video_size.
         Inr (''{\"codebase_version\":\"'' @ LEROBOT_CODEBASE_VERSION @ ''\",\"fps\":'' @ to_string (cc_fps config) @
              '',\"features\":'' @ features @ '',\"total_episodes\":'' @ to_string (w_total_episodes w) @
              '',\"total_frames\":'' @ to_string (w_total_frames w) @ '',\"total_tasks\":'' @ to_string (length (w_tasks w)) @
              '',\"chunks_size\":'' @ to_string (chunks_size config) @ '',\"data_files_size_in_mb\":'' @ data_size @
              '',\"video_files_size_in_mb\":'' @ video_size @ '',\"data_path\":'' @ JsonEscape LEROBOT_DATA_PATH @
              '',\"video_path\":'' @ (if has_video then JsonEscape LEROBOT_VIDEO_PATH else ''null'') @
              '',\"robot_type\":'' @ (if has_robot_type config then JsonEscape (robot_type config) else ''null'') @
              '',\"splits\":{'' @ (if w_total_episodes w = 0 then ''''
                 else ''\"train\":\"0:'' @ to_string (w_total_episodes w) @ ''\"'') @ ''}}'')))))"

section \<open>The end of a run\<close>

text \<open>What is renamed to the root: the writer with all its files closed, and the two JSON files.\<close>

record 'v dataset =
  ds_writer :: "'v writer"
  ds_stats_json :: "string option"
  ds_info_json :: string

text \<open>\<open>interrupted\<close> tells what the two checks for an interruption see.\<close>

definition Finalize :: "'v copy_host \<Rightarrow> copy_bind \<Rightarrow> bool \<times> bool \<Rightarrow> 'v writer \<Rightarrow> 'v dataset result" where
  "Finalize h b interrupted w =
     (if fst interrupted then Inl InterruptException
      else
        bindE (FinishEpisode h b w) (\<lambda>w.
        bindE (MaterializeVideoShards h b w) (\<lambda>w.
        bindE (FlushMetadataBuffer w) (\<lambda>w.
        let w = w\<lparr>w_data := pq_Close (w_data w), w_episodes := pq_Close (w_episodes w)\<rparr>
        in bindE (WriteTasks w) (\<lambda>w.
           bindE (if w_total_episodes w > 0 then bindE (StatsJSON b (w_dataset_stats w)) (\<lambda>s. Inr (Some s)) else Inr None)
             (\<lambda>stats_json.
           bindE (InfoJSON b w) (\<lambda>info_json.
           if snd interrupted then Inl InterruptException
           else Inr \<lparr>ds_writer = w, ds_stats_json = stats_json, ds_info_json = info_json\<rparr>)))))))"

section \<open>A whole run\<close>

text \<open>
  The constructor strips trailing separators from the root and checks the place the dataset will have;
  \<open>sep\<close> is the separator of the file system.
\<close>

function strip_separators :: "string \<Rightarrow> string \<Rightarrow> string" where
  "strip_separators sep root_path =
     (if root_path = [] then []
      else if last root_path = CHR ''/'' then strip_separators sep (butlast root_path)
      else if sep \<noteq> [] \<and> suffix sep root_path
      then strip_separators sep (take (length root_path - length sep) root_path)
      else root_path)"
  by pat_completeness auto

termination
  by (relation "measure (\<lambda>(sep, root_path). length root_path)") (auto simp: suffix_def)

declare strip_separators.simps [simp del]

record root_state =
  root_separator :: string
  root_is_remote :: "string \<Rightarrow> bool"
  root_exists :: "string \<Rightarrow> bool"

definition InitializeGlobal :: "root_state \<Rightarrow> string \<Rightarrow> copy_bind \<Rightarrow> (string \<times> 'v writer) result" where
  "InitializeGlobal fs root_path b =
     (let root_path = strip_separators (root_separator fs) root_path
      in if root_path = [] then Inl (IOException ''LeRobot dataset root cannot be empty'')
         else if root_is_remote fs root_path
         then Inl (NotImplementedException ''FORMAT lerobot currently requires a local dataset root'')
         else if root_exists fs root_path then Inl (IOException ''LeRobot dataset root already exists'')
         else Inr (root_path, new_writer b))"

text \<open>A serial \<open>COPY\<close>: the sink gets the chunks of the query one after the other.\<close>

definition LerobotCopy ::
  "'v copy_host \<Rightarrow> root_state \<Rightarrow> string \<Rightarrow> copy_bind \<Rightarrow> bool \<times> bool \<Rightarrow> 'v input_row list list \<Rightarrow>
     (string \<times> 'v dataset) result" where
  "LerobotCopy h fs root_path b interrupted chunks =
     bindE (InitializeGlobal fs root_path b) (\<lambda>(root_path, w).
     bindE (foldE (Process h b) chunks w) (\<lambda>w.
     bindE (Finalize h b interrupted w) (\<lambda>dataset. Inr (root_path, dataset))))"

end
