(* ===== verification/CopyRun.thy ===== *)
theory CopyRun
  imports CopyPublish MetadataCache
begin

text \<open>
  What a run of \<open>COPY ... (FORMAT lerobot)\<close> writes: the data files hold the reference frames of the whole
  input, however it is split into chunks and files, and the reader loads the episode metadata and finds
  each episode in its file.
\<close>

section \<open>Facts about a binding\<close>

definition stored :: "copy_bind \<Rightarrow> copy_feature list" where
  "stored b = filter (Not \<circ> is_video) (bd_features b)"

definition bind_ok :: "copy_bind \<Rightarrow> bool" where
  "bind_ok b \<longleftrightarrow>
     distinct (map cf_name (bd_features b)) \<and>
     bd_data b = map (\<lambda>f. (cf_name f, output_type f)) (stored b) \<and>
     (\<forall>i < length (stored b). output_index (stored b ! i) = Some i) \<and>
     (\<forall>f \<in> set (bd_features b). user_defined f \<longrightarrow> cf_name f \<notin> set generated_names) \<and>
     (\<forall>f \<in> set (bd_features b). \<not> user_defined f \<longrightarrow> \<not> is_visual f \<and> \<not> is_string f) \<and>
     map cf_name (filter (Not \<circ> user_defined) (bd_features b)) =
       [''timestamp'', ''frame_index'', ''episode_index'', ''index'', ''task_index''] \<and>
     0 < chunks_size (bd_config b) \<and> (\<forall>f \<in> set (bd_features b). feature_ok f)"

lemma bind_ok_not_both: "bind_ok b \<Longrightarrow> f \<in> set (bd_features b) \<Longrightarrow> is_image f \<Longrightarrow> \<not> is_video f"
  by (auto simp: bind_ok_def feature_ok_def)

lemma default_feature_names:
  assumes "default_features = Inr ds"
  shows "map cf_name ds = [''timestamp'', ''frame_index'', ''episode_index'', ''index'', ''task_index'']"
    and "\<forall>f \<in> set ds. \<not> user_defined f \<and> \<not> is_visual f \<and> \<not> is_string f"
proof -
  have "case default_features of Inl e \<Rightarrow> False
      | Inr ds \<Rightarrow> map cf_name ds = [''timestamp'', ''frame_index'', ''episode_index'', ''index'', ''task_index''] \<and>
          list_all (\<lambda>f. \<not> user_defined f \<and> \<not> is_visual f \<and> \<not> is_string f) ds"
    by code_simp
  note this [unfolded assms sum.case list_all_iff]
  then show "map cf_name ds = [''timestamp'', ''frame_index'', ''episode_index'', ''index'', ''task_index'']"
    "\<forall>f \<in> set ds. \<not> user_defined f \<and> \<not> is_visual f \<and> \<not> is_string f"
    by blast+
qed

lemma list_all2_same:
  assumes "list_all2 same_feature fs gs" and "\<forall>f \<in> set fs. P (cf_name f) (user_defined f) (is_visual f) (is_string f)"
  shows "\<forall>g \<in> set gs. P (cf_name g) (user_defined g) (is_visual g) (is_string g)"
  using assms by (induction rule: list_all2_induct) (auto simp: same_feature_fields is_visual_def)

lemma output_positions:
  assumes "bound_ok lower names types (bound, columns, n)" and "distinct (map cf_name bound)"
    and "i < length (filter (Not \<circ> is_video) bound)"
  shows "output_index (filter (Not \<circ> is_video) bound ! i) = Some i"
proof -
  let ?s = "filter (Not \<circ> is_video) bound"
  have f: "?s ! i \<in> set bound" "\<not> is_video (?s ! i)" using nth_mem [OF assms(3)] by simp_all
  have columns: "columns = map (\<lambda>f. (cf_name f, output_type f)) ?s" using assms(1) by (simp add: bound_ok_def)
  obtain k where k: "output_index (?s ! i) = Some k" "k < length columns"
    "columns ! k = (cf_name (?s ! i), output_type (?s ! i))"
    using assms(1) f unfolding bound_ok_def prod.case by blast
  have "cf_name (?s ! k) = cf_name (?s ! i)" using k unfolding columns by simp
  moreover have "distinct (map cf_name ?s)" using assms(2) by (rule distinct_map_filter)
  ultimately have "k = i" using k(2) assms(3) by (simp add: columns nth_eq_iff_index_eq distinct_conv_nth) metis
  then show ?thesis using k(1) by simp
qed

lemma LerobotCopyBind_parts:
  assumes "LerobotCopyBind c log_d threads lower max_array query options names types = Inr b"
  obtains config0 user ds where "ParseLerobotCopyRequiredConfig c options = Inr config0"
    "ParseLerobotCopyOptionalConfig c log_d threads options config0 = Inr (bd_config b)"
    "default_features = Inr ds" "list_all2 same_feature (user @ ds) (bd_features b)"
    "\<forall>f \<in> set user. user_defined f \<and> lower (cf_name f) \<notin> set (map lower generated_names)"
    "distinct (map (lower \<circ> cf_name) user)"
proof -
  have len: "length names = length types" using assms by (auto simp: LerobotCopyBind_def split: if_splits)
  from assms obtain config0 rows user ds config where
    p: "ParseLerobotCopyRequiredConfig c options = Inr config0"
    "ParseLerobotCopyOptionalConfig c log_d threads options config0 = Inr config" and
    user: "ParseUserFeatures lower max_array rows = Inr user" and
    ds: "default_features = Inr ds" and
    rest: "bind_columns lower names types config (user @ ds) = Inr b"
    using len unfolding LerobotCopyBind_def by auto
  from rest obtain ep tk where pos: "input_position lower names ''episode_index'' = Some ep"
    "input_position lower names ''task'' = Some tk"
    unfolding bind_columns_def require_Inr_iff
    by (cases "input_position lower names ''episode_index''"; cases "input_position lower names ''task''") simp_all
  from rest obtain bound columns expected where
    f: "foldE (bind_feature lower names types) (user @ ds) ([], [], 2) = Inr (bound, columns, expected)" and
    b: "bd_config b = config" "bd_features b = bound"
    unfolding bind_columns_def require_Inr_iff bindE_Inr_iff pos prod.case option.case sum.inject split_paired_Ex
    by fastforce
  have "bound_ok lower names types ([], [], 2)" by (simp add: bound_ok_def)
  from bind_features_fold [OF f this] have "list_all2 same_feature (user @ ds) (bd_features b)" by (simp add: b)
  with p ds b ParseUserFeatures_inv [OF user] show thesis by (intro that) simp_all
qed

lemma LerobotCopyBind_ok:
  assumes "LerobotCopyBind c log_d threads lower max_array query options names types = Inr b"
    and "casts_in_range c"
  shows "bind_ok b"
proof -
  obtain config0 user ds where
    p: "ParseLerobotCopyRequiredConfig c options = Inr config0"
    "ParseLerobotCopyOptionalConfig c log_d threads options config0 = Inr (bd_config b)"
    and ds: "default_features = Inr ds" and same: "list_all2 same_feature (user @ ds) (bd_features b)"
    and user: "\<forall>f \<in> set user. user_defined f \<and> lower (cf_name f) \<notin> set (map lower generated_names)"
    "distinct (map (lower \<circ> cf_name) user)"
    by (rule LerobotCopyBind_parts [OF assms(1)])
  have "copy_config_ok threads (bd_config b)" using assms(2) p by (rule parsed_config_ok)
  then have chunks: "0 < chunks_size (bd_config b)" by (simp add: copy_config_ok_def)
  have names: "map cf_name (bd_features b) = map cf_name user @ map cf_name ds"
    using list_all2_fields [OF same] by simp
  have ds_names: "map cf_name ds = [''timestamp'', ''frame_index'', ''episode_index'', ''index'', ''task_index'']"
    using ds by (rule default_feature_names)
  have notin: "cf_name f \<notin> set generated_names" if "f \<in> set user" for f using user(1) that by force
  have "distinct (map cf_name user)" using user(2) by (simp add: distinct_map inj_on_def)
  moreover have "set (map cf_name user) \<inter> set (map cf_name ds) = {}"
    using notin unfolding ds_names by (fastforce simp: generated_names_def)
  moreover have "distinct (map cf_name ds)" unfolding ds_names by simp
  ultimately have distinct: "distinct (map cf_name (bd_features b))" unfolding names by simp
  obtain lnames ltypes n where bound: "bound_ok lower lnames ltypes (bd_features b, bd_data b, n)"
    by (rule LerobotCopyBind_Inr [OF assms(1)]) blast
  have positions: "\<forall>i < length (stored b). output_index (stored b ! i) = Some i"
    using output_positions [OF bound distinct] by (simp add: stored_def)
  have data: "bd_data b = map (\<lambda>f. (cf_name f, output_type f)) (stored b)"
    using bound by (simp add: bound_ok_def stored_def)
  from same obtain gs hs where split: "bd_features b = gs @ hs" "list_all2 same_feature user gs" "list_all2 same_feature ds hs"
    by (auto simp: list_all2_append1)
  have gs: "\<forall>g \<in> set gs. user_defined g \<and> cf_name g \<notin> set generated_names"
    using list_all2_same [OF split(2), of "\<lambda>n u v s. u \<and> n \<notin> set generated_names"] user(1) notin by blast
  have hs: "\<forall>h \<in> set hs. \<not> user_defined h \<and> \<not> is_visual h \<and> \<not> is_string h"
    using list_all2_same [OF split(3), of "\<lambda>n u v s. \<not> u \<and> \<not> v \<and> \<not> s"] default_feature_names(2) [OF ds] by blast
  have "filter (Not \<circ> user_defined) (bd_features b) = hs"
    using gs hs unfolding split(1) by (simp add: filter_empty_conv filter_id_conv)
  moreover have "map cf_name hs = map cf_name ds" using list_all2_fields [OF split(3)] by simp
  ultimately have generated: "map cf_name (filter (Not \<circ> user_defined) (bd_features b)) =
      [''timestamp'', ''frame_index'', ''episode_index'', ''index'', ''task_index'']"
    using ds_names by simp
  have "\<forall>f \<in> set (bd_features b). user_defined f \<longrightarrow> cf_name f \<notin> set generated_names"
    "\<forall>f \<in> set (bd_features b). \<not> user_defined f \<longrightarrow> \<not> is_visual f \<and> \<not> is_string f"
    using gs hs unfolding split(1) by auto
  then show ?thesis unfolding bind_ok_def using distinct data positions generated chunks
    LerobotCopyBind_features(1) [OF assms(1)] by blast
qed

section \<open>The reference frames\<close>

text \<open>
  The task index of a task is its rank among the tasks in the order of their first rows. The value of a
  stored feature in the frame \<open>j\<close> of episode \<open>e\<close>, which is the frame \<open>k\<close> of the dataset.
\<close>

definition add_new :: "'a list \<Rightarrow> 'a \<Rightarrow> 'a list" where
  "add_new xs x = (if x \<in> set xs then xs else xs @ [x])"

definition first_seen :: "'a list \<Rightarrow> 'a list" where
  "first_seen xs = foldl add_new [] xs"

definition task_rank :: "string list \<Rightarrow> string \<Rightarrow> int" where
  "task_rank ts t = int (length (takeWhile (\<lambda>s. s \<noteq> t) ts))"

definition image_bytes :: "'v cell \<Rightarrow> string" where
  "image_bytes c = (case c of CBlob raw \<Rightarrow> raw | _ \<Rightarrow> [])"

definition frame_cell ::
  "'v copy_host \<Rightarrow> copy_bind \<Rightarrow> int \<Rightarrow> nat \<Rightarrow> nat \<Rightarrow> int \<Rightarrow> 'v input_row \<Rightarrow> copy_feature \<Rightarrow> 'v out" where
  "frame_cell h b e j k task_index cells f =
     (let column = cells ! the (input_index f)
      in if is_image f
         then OImage (projr (Encode_image h (cf_shape f ! 1) (cf_shape f ! 0)
                (projr (InferRawVisualType f (length (image_bytes column)))) (image_bytes column)))
                (FrameFileName j (is_depth f))
         else if user_defined f then OCopy column
         else if cf_name f = ''timestamp''
         then OFloat (to_float (ddiv (int_to_double (int j)) (int_to_double (int (cc_fps (bd_config b))))))
         else if cf_name f = ''frame_index'' then OBigint (int j)
         else if cf_name f = ''episode_index'' then OBigint e
         else if cf_name f = ''index'' then OBigint (int k)
         else OBigint task_index)"

definition frame_row ::
  "'v copy_host \<Rightarrow> copy_bind \<Rightarrow> int \<Rightarrow> nat \<Rightarrow> nat \<Rightarrow> int \<Rightarrow> 'v input_row \<Rightarrow> 'v data_row" where
  "frame_row h b e j k task_index cells = map (frame_cell h b e j k task_index cells) (stored b)"

section \<open>Building a row\<close>

lemma stored_position:
  assumes "bind_ok b" and "f \<in> set (stored b)"
  obtains i where "i < length (stored b)" "stored b ! i = f" "output_index f = Some i"
  using assms by (auto simp: bind_ok_def in_set_conv_nth)

text \<open>A pass over the features sets the columns of the features in \<open>S\<close> and leaves the others.\<close>

definition filled :: "copy_bind \<Rightarrow> copy_feature set \<Rightarrow> (copy_feature \<Rightarrow> 'v out) \<Rightarrow> 'v data_row \<Rightarrow> 'v data_row \<Rightarrow> bool" where
  "filled b S v out out' \<longleftrightarrow> length out' = length out \<and>
     (\<forall>f \<in> set (stored b). out' ! the (output_index f) = (if f \<in> S then v f else out ! the (output_index f)))"

lemma filled_refl [simp]: "filled b {} v out out"
  by (simp add: filled_def)

lemma filledD:
  "filled b S v out out' \<Longrightarrow> f \<in> set (stored b) \<Longrightarrow>
     out' ! the (output_index f) = (if f \<in> S then v f else out ! the (output_index f))"
  by (simp add: filled_def)

lemma filled_skip: "filled b S v out out' \<Longrightarrow> T \<inter> set (stored b) = S \<inter> set (stored b) \<Longrightarrow> filled b T v out out'"
  unfolding filled_def by (metis IntE IntI)

lemma filled_update:
  assumes "bind_ok b" and "f \<in> set (stored b)" and "length out = length (stored b)" and "filled b S v out out'"
  shows "filled b (insert f S) v out (out'[the (output_index f) := v f])"
proof -
  obtain i where i: "i < length (stored b)" "stored b ! i = f" "output_index f = Some i"
    by (rule stored_position [OF assms(1,2)])
  have "out'[i := v f] ! the (output_index g) =
      (if g \<in> insert f S then v g else out ! the (output_index g))" if "g \<in> set (stored b)" for g
  proof -
    note g = that
    obtain k where k: "k < length (stored b)" "stored b ! k = g" "output_index g = Some k"
      by (rule stored_position [OF assms(1) g])
    show ?thesis
    proof (cases "k = i")
      case True
      then show ?thesis using i k assms(3,4) by (simp add: filled_def)
    next
      case False
      then have "g \<noteq> f" using i k by auto
      then show ?thesis using False k filledD [OF assms(4) g] by simp
    qed
  qed
  then show ?thesis using i assms(4) by (simp add: filled_def)
qed

lemma filled_all:
  assumes "bind_ok b" and "length out = length (stored b)" and "filled b S v out out'" and "set (stored b) \<subseteq> S"
  shows "out' = map v (stored b)"
proof (rule nth_equalityI)
  show "length out' = length (map v (stored b))" using assms(2,3) by (simp add: filled_def)
  fix i
  assume "i < length out'"
  then have i: "i < length (stored b)" using assms(2,3) by (simp add: filled_def)
  then have "output_index (stored b ! i) = Some i" using assms(1) by (simp add: bind_ok_def)
  moreover have "stored b ! i \<in> S" using nth_mem [OF i] assms(4) by blast
  moreover have "out' ! the (output_index (stored b ! i)) = (if stored b ! i \<in> S then v (stored b ! i) else out ! the (output_index (stored b ! i)))"
    using assms(3) nth_mem [OF i] unfolding filled_def by blast
  ultimately show "out' ! i = map v (stored b) ! i" using i by simp
qed

lemma filled_trans:
  "filled b S v out out' \<Longrightarrow> filled b T v out' out'' \<Longrightarrow> filled b (S \<union> T) v out out''"
  by (auto simp: filled_def)

lemma stored_iff: "f \<in> set (stored b) \<longleftrightarrow> f \<in> set (bd_features b) \<and> \<not> is_video f"
  by (auto simp: stored_def)

lemma copy_columns_fill:
  assumes "bind_ok b" and "length out = length (stored b)" and "set fs \<subseteq> set (bd_features b)"
    and "\<And>f. \<not> is_visual f \<Longrightarrow> user_defined f \<Longrightarrow> v f = OCopy (cells ! the (input_index f))"
  shows "filled b {f \<in> set fs. \<not> is_visual f \<and> user_defined f} v out (fold (copy_column cells) fs out)"
  using assms(3)
proof (induction fs rule: rev_induct)
  case (snoc f fs)
  then have IH: "filled b {f \<in> set fs. \<not> is_visual f \<and> user_defined f} v out (fold (copy_column cells) fs out)" by simp
  show ?case
  proof (cases "\<not> is_visual f \<and> user_defined f")
    case True
    then have "f \<in> set (stored b)" using snoc.prems by (auto simp: stored_iff is_visual_def)
    from filled_update [OF assms(1) this assms(2) IH]
    have "filled b (insert f {f \<in> set fs. \<not> is_visual f \<and> user_defined f}) v out (copy_column cells f (fold (copy_column cells) fs out))"
      using True assms(4) [of f] by (simp add: copy_column_def [of cells f])
    then show ?thesis using True by (auto elim!: filled_skip)
  next
    case False
    then have "copy_column cells f out1 = out1" for out1 by (auto simp: copy_column_def)
    then show ?thesis using IH False by (auto elim!: filled_skip)
  qed
qed simp

text \<open>The fields of the writer that reading the visual columns of a row changes.\<close>

definition visual_only :: "'v writer \<Rightarrow> 'v writer \<Rightarrow> bool" where
  "visual_only w w' \<longleftrightarrow>
     w' = w\<lparr>w_spools := w_spools w', w_raw_types := w_raw_types w', w_image_writers := w_image_writers w'\<rparr>"

lemma visual_only_refl [simp]: "visual_only w w"
  by (simp add: visual_only_def)

lemma visual_only_trans: "visual_only w w' \<Longrightarrow> visual_only w' w'' \<Longrightarrow> visual_only w w''"
  unfolding visual_only_def by (cases w; cases w'; cases w'') simp

lemma visual_only_updates:
  assumes "visual_only w w'"
  shows "visual_only w (w'\<lparr>w_spools := s\<rparr>)" and "visual_only w (w'\<lparr>w_raw_types := r\<rparr>)"
    and "visual_only w (w'\<lparr>w_image_writers := i\<rparr>)"
  using assms unfolding visual_only_def by (cases w; cases w'; simp)+

lemma visual_only_fields:
  assumes "visual_only w w'"
  shows "w_current_episode w' = w_current_episode w" "w_total_frames w' = w_total_frames w"
    "w_tasks w' = w_tasks w" "w_task_indexes w' = w_task_indexes w"
    "w_current_episode_tasks w' = w_current_episode_tasks w"
  using assms unfolding visual_only_def by (cases w; cases w'; simp)+

definition images_ok :: "copy_bind \<Rightarrow> 'v writer \<Rightarrow> bool" where
  "images_ok b w \<longleftrightarrow> length (w_image_writers w) = length (bd_features b) \<and>
     length (w_raw_types w) = length (bd_features b) \<and>
     (\<forall>i < length (bd_features b). \<forall>t. w_image_writers w ! i = Some t \<longrightarrow> w_raw_types w ! i = Some t)"

lemma ResolveRawVisualType_Inr:
  assumes "ResolveRawVisualType b i n w = Inr (t, w')" and "images_ok b w" and "i < length (bd_features b)"
  shows "InferRawVisualType (bd_features b ! i) n = Inr t" and "w_raw_types w' ! i = Some t"
    and "images_ok b w'" and "visual_only w w'" and "w_image_writers w' = w_image_writers w"
    and "w_spools w' = w_spools w"
proof -
  show "InferRawVisualType (bd_features b ! i) n = Inr t" "w_raw_types w' ! i = Some t"
    "w_image_writers w' = w_image_writers w" "w_spools w' = w_spools w"
    using assms by (auto simp: ResolveRawVisualType_def images_ok_def split: option.splits if_splits)
  from assms(1) have "w' = w \<or> w_raw_types w ! i = None \<and> w' = w\<lparr>w_raw_types := (w_raw_types w)[i := Some t]\<rparr>"
    by (cases "w_raw_types w ! i") (auto simp: ResolveRawVisualType_def split: if_splits)
  then show "visual_only w w'" "images_ok b w'"
    using assms(2,3) visual_only_updates(2) [OF visual_only_refl] by (auto simp: images_ok_def nth_list_update)
qed

lemma append_visual_Inr:
  assumes "append_visual h b j cells (i, f) (w, out) = Inr (w', out')"
    and "images_ok b w" and "i < length (bd_features b)" and "f = bd_features b ! i"
  shows "visual_only w w' \<and> images_ok b w' \<and>
    out' = (if is_image f then out[the (output_index f) := frame_cell h b e j k t cells f] else out)"
proof (cases "is_visual f")
  case False
  then show ?thesis using assms(1,2) by (simp add: append_visual_def is_visual_def)
next
  case True
  then obtain raw where raw: "cells ! the (input_index f) = CBlob raw"
    using assms(1) by (auto simp: append_visual_def split: cell.splits)
  from assms(1) True raw obtain t1 w1 spool where
    r: "ResolveRawVisualType b i (length raw) w = Inr (t1, w1)" and
    rest: "(let w2 = w1\<lparr>w_spools := (w_spools w1)[i := spool]\<rparr>
      in if \<not> is_image f then Inr (w2, out)
         else let writer_type = (case w_image_writers w2 ! i of None \<Rightarrow> t1 | Some t \<Rightarrow> t);
                  w3 = w2\<lparr>w_image_writers := (w_image_writers w2)[i := Some writer_type]\<rparr>
              in bindE (Encode_image h (cf_shape f ! 1) (cf_shape f ! 0) writer_type raw) (\<lambda>encoded.
                 Inr (w3, out[the (output_index f) := OImage encoded (FrameFileName j (is_depth f))]))) = Inr (w', out')"
    by (auto simp: append_visual_def split: if_splits)
  note rt = ResolveRawVisualType_Inr [OF r assms(2,3)]
  have type: "(case w_image_writers w1 ! i of None \<Rightarrow> t1 | Some t \<Rightarrow> t) = t1"
    using rt(2,3) assms(3) by (auto simp: images_ok_def split: option.splits)
  show ?thesis
  proof (cases "is_image f")
    case False
    then show ?thesis using rest rt(3) visual_only_updates(1) [OF rt(4)] by (auto simp: Let_def images_ok_def)
  next
    case True
    then obtain encoded where enc: "Encode_image h (cf_shape f ! 1) (cf_shape f ! 0) t1 raw = Inr encoded"
      and w': "w' = w1\<lparr>w_spools := (w_spools w1)[i := spool], w_image_writers := (w_image_writers w1)[i := Some t1]\<rparr>"
      and out': "out' = out[the (output_index f) := OImage encoded (FrameFileName j (is_depth f))]"
      using rest type by (auto simp: Let_def)
    have "frame_cell h b e j k t cells f = OImage encoded (FrameFileName j (is_depth f))"
      using True raw rt(1) enc assms(4) by (simp add: frame_cell_def image_bytes_def)
    moreover have "images_ok b w'"
      using rt(2,3) assms(3) unfolding w' by (auto simp: images_ok_def nth_list_update)
    moreover have "visual_only w w'" unfolding w' by (intro visual_only_updates rt(4))
    ultimately show ?thesis using True out' by simp
  qed
qed

lemma append_visuals_Inr:
  assumes "foldE (append_visual h b j cells) xs (w, out) = Inr (w', out')"
    and "set xs \<subseteq> set (enumerate 0 (bd_features b))" and "images_ok b w" and "bind_ok b"
    and "length out = length (stored b)"
  shows "visual_only w w' \<and> images_ok b w' \<and>
    filled b {f \<in> snd ` set xs. is_image f} (frame_cell h b e j k t cells) out out'"
  using assms(1,2)
proof (induction xs arbitrary: w' out' rule: rev_induct)
  case Nil
  then show ?case using assms(3) by simp
next
  case (snoc x xs)
  obtain i f where x: "x = (i, f)" by (cases x)
  with snoc.prems(2) have i: "i < length (bd_features b)" "f = bd_features b ! i"
    by (auto simp: in_set_enumerate_eq)
  from snoc.prems(1) obtain w1 out1 where 1: "foldE (append_visual h b j cells) xs (w, out) = Inr (w1, out1)"
    and 2: "append_visual h b j cells (i, f) (w1, out1) = Inr (w', out')"
    unfolding x by (auto split: sum.splits)
  from snoc.IH [OF 1] snoc.prems(2) have IH: "visual_only w w1" "images_ok b w1"
    "filled b {f \<in> snd ` set xs. is_image f} (frame_cell h b e j k t cells) out out1" by auto
  note step = append_visual_Inr [OF 2 IH(2) i, of e k t]
  have "filled b {f \<in> snd ` set (xs @ [x]). is_image f} (frame_cell h b e j k t cells) out out'"
  proof (cases "is_image f")
    case True
    then have f: "f \<in> set (stored b)" using i bind_ok_not_both [OF assms(4)] by (simp add: stored_iff)
    from filled_update [OF assms(4) f assms(5) IH(3)] step True show ?thesis
      unfolding x by (auto elim!: filled_skip)
  next
    case False
    then show ?thesis using IH(3) step unfolding x by (auto elim!: filled_skip)
  qed
  then show ?case using step visual_only_trans [OF IH(1)] by blast
qed

lemma set_generated_Inr:
  assumes "set_generated b w j t f out = Inr out'" and "bind_ok b" and "f \<in> set (bd_features b)"
  shows "out' = (if user_defined f then out
    else out[the (output_index f) := frame_cell h b (w_current_episode w) j (w_total_frames w + j) t cells f])"
proof (cases "user_defined f")
  case True
  then have "cf_name f \<notin> set generated_names" using assms(2,3) by (simp add: bind_ok_def)
  then show ?thesis using assms(1) True by (simp add: set_generated_def generated_names_def Let_def)
next
  case False
  then have "f \<in> set (filter (Not \<circ> user_defined) (bd_features b))" using assms(3) by simp
  then have "cf_name f \<in> set (map cf_name (filter (Not \<circ> user_defined) (bd_features b)))"
    unfolding set_map by (rule imageI)
  then have name: "cf_name f \<in> {''timestamp'', ''frame_index'', ''episode_index'', ''index'', ''task_index''}"
    using assms(2) unfolding bind_ok_def by simp
  have "\<not> is_image f" using False assms(2,3) by (auto simp: bind_ok_def is_visual_def)
  then show ?thesis
    using assms(1) name False by (auto simp: set_generated_def frame_cell_def Let_def NumericCast_def split: if_splits)
qed

lemma generated_fill:
  assumes "foldE (set_generated b w j t) fs out = Inr out'"
    and "set fs \<subseteq> set (bd_features b)" and "bind_ok b" and "length out = length (stored b)"
  shows "filled b {f \<in> set fs. \<not> user_defined f}
    (frame_cell h b (w_current_episode w) j (w_total_frames w + j) t cells) out out'"
  using assms(1,2)
proof (induction fs arbitrary: out' rule: rev_induct)
  case (snoc f fs)
  then obtain out1 where 1: "foldE (set_generated b w j t) fs out = Inr out1" and 2: "set_generated b w j t f out1 = Inr out'"
    by (auto split: sum.splits)
  have f: "f \<in> set (bd_features b)" using snoc.prems by simp
  from snoc.IH [OF 1] snoc.prems(2)
  have IH: "filled b {f \<in> set fs. \<not> user_defined f} (frame_cell h b (w_current_episode w) j (w_total_frames w + j) t cells) out out1"
    by simp
  note step = set_generated_Inr [OF 2 assms(3) f, of h cells]
  show ?case
  proof (cases "user_defined f")
    case True
    then show ?thesis using IH step by (auto elim!: filled_skip)
  next
    case False
    then have "f \<in> set (stored b)" using f assms(3) by (auto simp: stored_iff bind_ok_def is_visual_def)
    from filled_update [OF assms(3) this assms(4) IH] step False show ?thesis by (auto elim!: filled_skip)
  qed
qed simp

text \<open>Tasks.\<close>

definition tasks_ok :: "'v writer \<Rightarrow> bool" where
  "tasks_ok w \<longleftrightarrow> distinct (w_tasks w) \<and>
     w_task_indexes w = (\<lambda>t. if t \<in> set (w_tasks w) then Some (task_rank (w_tasks w) t) else None)"

lemma task_rank_append: "t \<in> set ts \<Longrightarrow> task_rank (ts @ us) t = task_rank ts t"
  by (simp add: task_rank_def takeWhile_append1)

lemma task_rank_new: "t \<notin> set ts \<Longrightarrow> task_rank (ts @ [t]) t = int (length ts)"
  unfolding task_rank_def by (subst takeWhile_append2) auto

lemma GetTaskIndex_Inr:
  assumes "GetTaskIndex task w = Inr (i, w')" and "tasks_ok w"
  shows "w' = w\<lparr>w_task_indexes := w_task_indexes w', w_tasks := add_new (w_tasks w) task\<rparr>"
    and "tasks_ok w'" and "i = task_rank (add_new (w_tasks w) task) task"
proof -
  show "w' = w\<lparr>w_task_indexes := w_task_indexes w', w_tasks := add_new (w_tasks w) task\<rparr>"
    using assms by (auto simp: GetTaskIndex_def tasks_ok_def add_new_def split: option.splits if_splits)
  show "tasks_ok w'" "i = task_rank (add_new (w_tasks w) task) task"
    using assms by (auto simp: GetTaskIndex_def tasks_ok_def add_new_def task_rank_new task_rank_append NumericCast_def
        split: option.splits if_splits)
qed

text \<open>What a row changes of the writer.\<close>

definition row_only :: "'v writer \<Rightarrow> 'v writer \<Rightarrow> bool" where
  "row_only w w' \<longleftrightarrow>
     w' = w\<lparr>w_spools := w_spools w', w_raw_types := w_raw_types w', w_image_writers := w_image_writers w',
            w_task_indexes := w_task_indexes w', w_tasks := w_tasks w',
            w_current_episode_tasks := w_current_episode_tasks w'\<rparr>"

lemma row_only_refl [simp]: "row_only w w"
  by (simp add: row_only_def)

lemma row_only_trans: "row_only w w' \<Longrightarrow> row_only w' w'' \<Longrightarrow> row_only w w''"
  unfolding row_only_def by (cases w; cases w'; cases w'') simp

lemma row_only_visual: "visual_only w w' \<Longrightarrow> row_only w w'"
  unfolding row_only_def visual_only_def by (cases w; cases w') simp

lemma row_only_tasks: "w' = w\<lparr>w_task_indexes := i, w_tasks := ts\<rparr> \<Longrightarrow> row_only w w'"
  unfolding row_only_def by (cases w) simp

lemma row_only_episode_tasks: "row_only w w' \<Longrightarrow> row_only w (w'\<lparr>w_current_episode_tasks := ts\<rparr>)"
  unfolding row_only_def by (cases w; cases w') simp

lemma append_row_Inr:
  assumes "append_row h b (r, cells) (w, rows) = Inr (w', rows')"
    and "bind_ok b" and "images_ok b w" and "tasks_ok w"
  obtains task where "cells ! bd_task_input b = CVarchar task"
    "rows' = rows @ [frame_row h b (w_current_episode w) (w_current_episode_frames w + r)
        (w_total_frames w + (w_current_episode_frames w + r)) (task_rank (w_tasks w') task) cells]"
    "row_only w w'" "images_ok b w'" "tasks_ok w'" "w_tasks w' = add_new (w_tasks w) task"
    "w_current_episode_tasks w' = add_new (w_current_episode_tasks w) task"
proof -
  let ?j = "w_current_episode_frames w + r"
  let ?out0 = "fold (copy_column cells) (bd_features b) (replicate (length (bd_data b)) ONull)"
  from assms(1) obtain w1 out1 where v: "foldE (append_visual h b ?j cells) (enumerate 0 (bd_features b)) (w, ?out0) = Inr (w1, out1)"
    by (auto simp: append_row_def Let_def)
  with assms(1) obtain task where task: "cells ! bd_task_input b = CVarchar task"
    by (auto simp: append_row_def Let_def split: cell.splits)
  from assms(1) v task obtain i w2 out3 where t: "GetTaskIndex task w1 = Inr (i, w2)"
    and g: "foldE (set_generated b (AddEpisodeTask task w2) ?j i) (bd_features b) out1 = Inr out3"
    and w': "w' = AddEpisodeTask task w2" and rows': "rows' = rows @ [out3]"
    by (auto simp: append_row_def Let_def)
  let ?v = "frame_cell h b (w_current_episode w) ?j (w_total_frames w + ?j) i cells"
  have len: "length (replicate (length (bd_data b)) (ONull :: 'a out)) = length (stored b)"
    using assms(2) by (simp add: bind_ok_def)
  have "filled b {f \<in> set (bd_features b). \<not> is_visual f \<and> user_defined f} ?v (replicate (length (bd_data b)) ONull) ?out0"
    using assms(2) len by (rule copy_columns_fill) (auto simp: frame_cell_def is_visual_def Let_def)
  note copied = this
  then have len0: "length ?out0 = length (stored b)" using len by (simp add: filled_def)
  note visual = append_visuals_Inr [OF v subset_refl assms(3,2) len0, of "w_current_episode w" "w_total_frames w + ?j" i]
  then have len1: "length out1 = length (stored b)" using len0 by (simp add: filled_def)
  note w1 = visual_only_fields [OF conjunct1 [OF visual]]
  have "tasks_ok w1" using assms(4) unfolding tasks_ok_def w1 .
  note index = GetTaskIndex_Inr [OF t this]
  have w2: "w_current_episode w2 = w_current_episode w" "w_total_frames w2 = w_total_frames w"
    "w_current_episode_tasks w2 = w_current_episode_tasks w" "w_tasks w2 = add_new (w_tasks w) task"
    "w_image_writers w2 = w_image_writers w1" "w_raw_types w2 = w_raw_types w1"
    by (subst index(1), simp add: w1)+
  have fields: "w_current_episode w' = w_current_episode w" "w_total_frames w' = w_total_frames w"
    "w_tasks w' = add_new (w_tasks w) task" "w_current_episode_tasks w' = add_new (w_current_episode_tasks w) task"
    "w_task_indexes w' = w_task_indexes w2" "w_image_writers w' = w_image_writers w1" "w_raw_types w' = w_raw_types w1"
    using w2 unfolding w' by (simp_all add: AddEpisodeTask_def add_new_def)
  have "filled b {f \<in> set (bd_features b). \<not> user_defined f} ?v out1 out3"
    using generated_fill [OF g subset_refl assms(2) len1, of h cells] fields(1,2) by (simp add: w')
  with filled_trans [OF filled_trans [OF copied] ] visual
  have "filled b ({f \<in> set (bd_features b). \<not> is_visual f \<and> user_defined f} \<union>
      {f \<in> snd ` set (enumerate 0 (bd_features b)). is_image f} \<union> {f \<in> set (bd_features b). \<not> user_defined f})
      ?v (replicate (length (bd_data b)) ONull) out3" by blast
  moreover have "snd ` set (enumerate 0 (bd_features b)) = set (bd_features b)"
    by (metis map_snd_enumerate set_map)
  ultimately have "out3 = map ?v (stored b)"
    by (intro filled_all [OF assms(2) len]) (auto simp: stored_iff is_visual_def)
  then have "rows' = rows @ [frame_row h b (w_current_episode w) ?j (w_total_frames w + ?j) (task_rank (w_tasks w') task) cells]"
    using rows' index(3) fields(3) w1(3) by (simp add: frame_row_def)
  moreover have "row_only w w2"
    using row_only_trans [OF row_only_visual, of w w1 w2] visual index(1) row_only_tasks by metis
  then have "row_only w w'" unfolding w' AddEpisodeTask_def by (auto intro: row_only_episode_tasks)
  moreover have "images_ok b w'" using visual fields by (simp add: images_ok_def)
  moreover have "tasks_ok w'" using index(2) unfolding tasks_ok_def fields(3,5) w2(4) .
  ultimately show thesis using that [OF task] fields by blast
qed

section \<open>The frames of an input\<close>

definition task_of :: "copy_bind \<Rightarrow> 'v input_row \<Rightarrow> string" where
  "task_of b cells = (case cells ! bd_task_input b of CVarchar t \<Rightarrow> t | _ \<Rightarrow> '''')"

definition episode_count :: "copy_bind \<Rightarrow> int option \<Rightarrow> 'v input_row list \<Rightarrow> nat" where
  "episode_count b e rows = length (filter (\<lambda>r. episode_of b r = e) rows)"

text \<open>
  The frame of the row at position \<open>k\<close> of the input: its frame index is the number of rows of its episode
  before it, its task index the rank of its task.
\<close>

definition ref_frame :: "'v copy_host \<Rightarrow> copy_bind \<Rightarrow> 'v input_row list \<Rightarrow> nat \<Rightarrow> 'v data_row" where
  "ref_frame h b rows k =
     frame_row h b (the (episode_of b (rows ! k))) (episode_count b (episode_of b (rows ! k)) (take k rows)) k
       (task_rank (first_seen (map (task_of b) rows)) (task_of b (rows ! k))) (rows ! k)"

definition ref_frames :: "'v copy_host \<Rightarrow> copy_bind \<Rightarrow> 'v input_row list \<Rightarrow> 'v data_row list" where
  "ref_frames h b rows = map (ref_frame h b rows) [0 ..< length rows]"

lemma set_add_new [simp]: "set (add_new xs x) = insert x (set xs)"
  by (auto simp: add_new_def)

lemma first_seen_snoc [simp]: "first_seen (xs @ [x]) = add_new (first_seen xs) x"
  by (simp add: first_seen_def)

lemma set_first_seen [simp]: "set (first_seen xs) = set xs"
  by (induction xs rule: rev_induct) (simp_all add: first_seen_def)

lemma distinct_first_seen [simp]: "distinct (first_seen xs)"
  by (induction xs rule: rev_induct) (auto simp: first_seen_def add_new_def)

lemma length_ref_frames [simp]: "length (ref_frames h b rows) = length rows"
  by (simp add: ref_frames_def)

lemma task_rank_add_new: "t \<in> set ts \<Longrightarrow> task_rank (add_new ts u) t = task_rank ts t"
  by (simp add: add_new_def task_rank_append)

lemma ref_frames_snoc:
  "ref_frames h b (rows @ [r]) = ref_frames h b rows @
     [frame_row h b (the (episode_of b r)) (episode_count b (episode_of b r) rows) (length rows)
        (task_rank (add_new (first_seen (map (task_of b) rows)) (task_of b r)) (task_of b r)) r]"
proof -
  have "ref_frame h b (rows @ [r]) k = ref_frame h b rows k" if "k < length rows" for k
  proof -
    have "task_of b (rows ! k) \<in> set (first_seen (map (task_of b) rows))" using that by simp
    then show ?thesis using that by (simp add: ref_frame_def nth_append task_rank_add_new)
  qed
  then have "map (ref_frame h b (rows @ [r])) [0 ..< length rows] = map (ref_frame h b rows) [0 ..< length rows]" by simp
  then show ?thesis unfolding ref_frames_def by (simp add: ref_frame_def)
qed

lemma ref_frames_prefix: "\<exists>new. ref_frames h b (rows @ rest) = ref_frames h b rows @ new \<and> length new = length rest"
proof (induction rest rule: rev_induct)
  case (snoc r rest)
  then obtain new where "ref_frames h b (rows @ rest) = ref_frames h b rows @ new" "length new = length rest" by blast
  then show ?case using ref_frames_snoc [of h b "rows @ rest" r] by simp
qed simp

lemma row_only_fields:
  assumes "row_only w w'"
  shows "w_current_episode w' = w_current_episode w" "w_current_episode_frames w' = w_current_episode_frames w"
    "w_total_frames w' = w_total_frames w"
  using assms unfolding row_only_def by (cases w; cases w'; simp)+

lemma append_rows_Inr:
  assumes "foldE (append_row h b) (enumerate 0 run) (w, []) = Inr (w', rows)"
    and b: "bind_ok b" and w: "images_ok b w" "tasks_ok w" "w_tasks w = first_seen (map (task_of b) past)"
    and episode: "\<forall>r \<in> set run. episode_of b r = Some (w_current_episode w)"
    and count: "w_total_frames w + w_current_episode_frames w = length past"
      "episode_count b (Some (w_current_episode w)) past = w_current_episode_frames w"
  shows "row_only w w' \<and> images_ok b w' \<and> tasks_ok w' \<and> w_tasks w' = first_seen (map (task_of b) (past @ run)) \<and>
    ref_frames h b (past @ run) = ref_frames h b past @ rows \<and> length rows = length run \<and>
    w_current_episode_tasks w' = foldl add_new (w_current_episode_tasks w) (map (task_of b) run)"
  using assms(1) episode
proof (induction run arbitrary: w' rows rule: rev_induct)
  case Nil
  then show ?case using w by simp
next
  case (snoc cells run)
  have "enumerate 0 (run @ [cells]) = enumerate 0 run @ [(length run, cells)]"
    by (simp add: enumerate_append_eq)
  with snoc.prems(1) obtain w1 rows1 where 1: "foldE (append_row h b) (enumerate 0 run) (w, []) = Inr (w1, rows1)"
    and 2: "append_row h b (length run, cells) (w1, rows1) = Inr (w', rows)"
    by (auto split: sum.splits)
  from snoc.IH [OF 1] snoc.prems(2) have IH: "row_only w w1" "images_ok b w1" "tasks_ok w1"
    "w_tasks w1 = first_seen (map (task_of b) (past @ run))" "ref_frames h b (past @ run) = ref_frames h b past @ rows1"
    "length rows1 = length run"
    "w_current_episode_tasks w1 = foldl add_new (w_current_episode_tasks w) (map (task_of b) run)" by simp_all
  note fields = row_only_fields [OF IH(1)]
  obtain task where task: "cells ! bd_task_input b = CVarchar task"
    and rows: "rows = rows1 @ [frame_row h b (w_current_episode w1) (w_current_episode_frames w1 + length run)
        (w_total_frames w1 + (w_current_episode_frames w1 + length run)) (task_rank (w_tasks w') task) cells]"
    and w': "row_only w1 w'" "images_ok b w'" "tasks_ok w'" "w_tasks w' = add_new (w_tasks w1) task"
      "w_current_episode_tasks w' = add_new (w_current_episode_tasks w1) task"
    by (rule append_row_Inr [OF 2 b IH(2,3)])
  have e: "episode_of b cells = Some (w_current_episode w)" using snoc.prems(2) by simp
  have "filter (\<lambda>r. episode_of b r = Some (w_current_episode w)) run = run"
    using snoc.prems(2) by (simp add: filter_id_conv)
  then have count': "episode_count b (Some (w_current_episode w)) (past @ run) = w_current_episode_frames w + length run"
    using count(2) by (simp add: episode_count_def del: episode_of.simps)
  have t: "task_of b cells = task" using task by (simp add: task_of_def)
  have total: "w_total_frames w + (w_current_episode_frames w + length run) = length (past @ run)"
    using count(1) by simp
  have ranks: "add_new (first_seen (map (task_of b) (past @ run))) task = w_tasks w'" using IH(4) w'(4) by simp
  have "ref_frames h b ((past @ run) @ [cells]) = ref_frames h b past @ rows"
    unfolding ref_frames_snoc rows fields total count' t ranks IH(5) e option.sel by (simp only: append_assoc)
  then have "ref_frames h b (past @ (run @ [cells])) = ref_frames h b past @ rows" by simp
  moreover have "w_tasks w' = first_seen (map (task_of b) (past @ (run @ [cells])))"
    using ranks first_seen_snoc [of "map (task_of b) (past @ run)" task] by (simp add: t)
  moreover have "length rows = length (run @ [cells])"
    "w_current_episode_tasks w' = foldl add_new (w_current_episode_tasks w) (map (task_of b) (run @ [cells]))"
    using rows w'(5) IH(6,7) t by simp_all
  ultimately show ?case using row_only_trans [OF IH(1) w'(1)] w'(2,3) by blast
qed

end
