(* ===== verification/CopyDataset.thy ===== *)
theory CopyDataset
  imports CopyRun
begin

text \<open>
  The files of a written dataset. The rows flushed to a sequence of Parquet files are one log; an
  invariant of the writer relates the log of the data files to the reference frames of the rows processed
  so far, and the rows of episode metadata to the episodes among them.
\<close>

section \<open>The files of a Parquet writer\<close>

definition pq_all :: "'r parquet \<Rightarrow> (string \<times> 'r list) list" where
  "pq_all p = pq_files p @ (case pq_open p of None \<Rightarrow> [] | Some path \<Rightarrow> [(path, pq_rows p)])"

definition log_of :: "(string \<times> 'r list) list \<Rightarrow> 'r list" where
  "log_of files = concat (map snd files)"

definition start :: "(string \<times> 'r list) list \<Rightarrow> nat \<Rightarrow> nat" where
  "start files k = length (log_of (take k files))"

definition file_at :: "nat \<Rightarrow> nat \<Rightarrow> nat \<times> nat" where
  "file_at chunk_size k = (AdvanceFileIndex chunk_size ^^ k) (0, 0)"

definition numbered :: "(nat \<Rightarrow> nat \<Rightarrow> string) \<Rightarrow> nat \<Rightarrow> (string \<times> 'r list) list \<Rightarrow> bool" where
  "numbered path chunk_size files \<longleftrightarrow>
     (\<forall>k < length files. fst (files ! k) = path (fst (file_at chunk_size k)) (snd (file_at chunk_size k)))"

definition shelf :: "(nat \<Rightarrow> nat \<Rightarrow> string) \<Rightarrow> nat \<Rightarrow> 'r parquet \<Rightarrow> nat \<times> nat \<Rightarrow> bool" where
  "shelf path chunk_size p index \<longleftrightarrow>
     numbered path chunk_size (pq_all p) \<and> index = file_at chunk_size (length (pq_files p))"

text \<open>Files only grow at the end: what lies in a file stays there.\<close>

definition extends :: "(string \<times> 'r list) list \<Rightarrow> (string \<times> 'r list) list \<Rightarrow> bool" where
  "extends files files' \<longleftrightarrow> length files \<le> length files' \<and>
     (\<forall>k < length files. start files' k = start files k \<and> start files (Suc k) \<le> start files' (Suc k))"

lemma log_of_simps [simp]:
  "log_of [] = []" "log_of (xs @ ys) = log_of xs @ log_of ys" "log_of [(p, rows)] = rows"
  by (simp_all add: log_of_def)

lemma extends_refl [simp]: "extends files files"
  by (simp add: extends_def)

lemma extends_trans:
  assumes "extends a b" and "extends b c"
  shows "extends a c"
proof -
  have le: "length a \<le> length b" "length b \<le> length c" using assms by (simp_all add: extends_def)
  have "start c k = start a k \<and> start a (Suc k) \<le> start c (Suc k)" if "k < length a" for k
  proof -
    have k: "k < length b" using that le by simp
    have "start b k = start a k" "start a (Suc k) \<le> start b (Suc k)" using assms(1) that by (simp_all add: extends_def)
    moreover have "start c k = start b k" "start b (Suc k) \<le> start c (Suc k)" using assms(2) k by (simp_all add: extends_def)
    ultimately show ?thesis by simp
  qed
  then show ?thesis using le by (simp add: extends_def)
qed

lemma extends_new_file: "extends files (files @ [f])"
  by (simp add: extends_def start_def)

lemma extends_last: "extends (files @ [(path, rows)]) (files @ [(path', rows @ new)])"
  by (auto simp: extends_def start_def less_Suc_eq)

lemma pq_all_Close [simp]: "pq_all (pq_Close p) = pq_all p" "pq_open (pq_Close p) = None"
  by (simp_all add: pq_all_def pq_Close_def split: option.splits)

lemma pq_all_new [simp]: "pq_all new_parquet = []"
  by (simp add: pq_all_def new_parquet_def)

lemma pq_Open_Inr:
  assumes "pq_Open path p = Inr p'"
  shows "pq_all p' = pq_all p @ [(path, [])]" "pq_files p' = pq_files p" "pq_open p' = Some path" "pq_open p = None"
  using assms by (auto simp: pq_Open_def pq_all_def split: option.splits)

lemma pq_Flush_Inr:
  assumes "pq_Flush rows p = Inr p'"
  obtains path where "pq_open p = Some path" "pq_all p = pq_files p @ [(path, pq_rows p)]"
    "pq_all p' = pq_files p @ [(path, pq_rows p @ rows)]" "pq_files p' = pq_files p" "pq_open p' = Some path" "rows \<noteq> []"
  using assms by (auto simp: pq_Flush_def pq_all_def split: if_splits)

lemma shelf_new: "shelf path cs new_parquet (0, 0)"
  by (simp add: shelf_def numbered_def pq_all_def new_parquet_def file_at_def)

lemma shelf_Open:
  assumes "shelf path cs p index" and "pq_Open (path (fst index) (snd index)) p = Inr p'"
  shows "shelf path cs p' index"
proof -
  note op = pq_Open_Inr [OF assms(2)]
  have "length (pq_files p) = length (pq_all p)" using op(4) by (simp add: pq_all_def)
  then show ?thesis
    using assms(1) unfolding shelf_def numbered_def op(1,2) by (auto simp: nth_append less_Suc_eq)
qed

lemma shelf_Flush:
  assumes "shelf path cs p index" and "pq_Flush rows p = Inr p'"
  shows "shelf path cs p' index"
proof -
  obtain q where "pq_all p = pq_files p @ [(q, pq_rows p)]" "pq_all p' = pq_files p @ [(q, pq_rows p @ rows)]"
    "pq_files p' = pq_files p"
    by (rule pq_Flush_Inr [OF assms(2)])
  then show ?thesis using assms(1) by (auto simp: shelf_def numbered_def nth_append less_Suc_eq)
qed

lemma shelf_rotate:
  assumes "shelf path cs p index" and "pq_open p \<noteq> None"
  shows "shelf path cs (pq_Close p) (AdvanceFileIndex cs index)"
  using assms by (auto simp: shelf_def pq_Close_def file_at_def pq_all_def)

lemma pq_SizeAtLeast_open: "pq_SizeAtLeast r limit p \<Longrightarrow> pq_open p \<noteq> None"
  by (auto simp: pq_SizeAtLeast_def split: option.splits)

section \<open>What the operations change\<close>

lemma EnsureDataWriter_Inr:
  assumes "EnsureDataWriter h b n w = Inr w'"
    and "shelf DataRelativePath (chunks_size (bd_config b)) (w_data w) (w_data_index w)"
  obtains p index frame where "w' = w\<lparr>w_data := p, w_data_index := index, w_data_file_start_frame := frame\<rparr>"
    "shelf DataRelativePath (chunks_size (bd_config b)) p index" "pq_open p \<noteq> None"
    "log_of (pq_all p) = log_of (pq_all (w_data w))" "extends (pq_all (w_data w)) (pq_all p)"
proof -
  define limit where "limit = ddiv (size_limit (data_file_size_mb (bd_config b)))
    (if w_total_frames w - w_data_file_start_frame w > 0
     then dadd (Fin 1) (ddiv (int_to_double (int n)) (int_to_double (int (w_total_frames w - w_data_file_start_frame w))))
     else Fin 1)"
  define w1 where "w1 = (if pq_SizeAtLeast (rotate_data h) limit (w_data w)
    then w\<lparr>w_data := pq_Close (w_data w), w_data_index := AdvanceFileIndex (chunks_size (bd_config b)) (w_data_index w),
           w_data_file_start_frame := w_total_frames w\<rparr>
    else w)"
  have run: "(if pq_open (w_data w1) = None
      then bindE (pq_Open (DataRelativePath (fst (w_data_index w1)) (snd (w_data_index w1))) (w_data w1)) (\<lambda>p.
           Inr (w1\<lparr>w_data := p\<rparr>))
      else Inr w1) = Inr w'"
    using assms(1) unfolding EnsureDataWriter_def Let_def limit_def w1_def .
  have 1: "w1 = w\<lparr>w_data := w_data w1, w_data_index := w_data_index w1, w_data_file_start_frame := w_data_file_start_frame w1\<rparr>"
    "shelf DataRelativePath (chunks_size (bd_config b)) (w_data w1) (w_data_index w1)" "pq_all (w_data w1) = pq_all (w_data w)"
    using assms(2) shelf_rotate [OF assms(2) pq_SizeAtLeast_open] by (auto simp: w1_def)
  show thesis
  proof (cases "pq_open (w_data w1) = None")
    case True
    then obtain p where p: "pq_Open (DataRelativePath (fst (w_data_index w1)) (snd (w_data_index w1))) (w_data w1) = Inr p"
      and w': "w' = w1\<lparr>w_data := p\<rparr>" using run by auto
    note op = pq_Open_Inr [OF p] shelf_Open [OF 1(2) p]
    have "w' = w\<lparr>w_data := p, w_data_index := w_data_index w1, w_data_file_start_frame := w_data_file_start_frame w1\<rparr>"
      unfolding w' by (subst 1(1)) simp
    moreover have "pq_open p \<noteq> None" using op(3) by simp
    moreover have "log_of (pq_all p) = log_of (pq_all (w_data w))" "extends (pq_all (w_data w)) (pq_all p)"
      unfolding op(1) 1(3) by (simp_all add: extends_new_file)
    ultimately show thesis using op(5) by (intro that)
  next
    case False
    then have w': "w' = w1" using run by auto
    show thesis using that [OF _ 1(2) False] 1 unfolding w' by simp
  qed
qed

text \<open>The codec and the shards.\<close>

definition videos_only :: "'v writer \<Rightarrow> 'v writer \<Rightarrow> bool" where
  "videos_only w w' \<longleftrightarrow>
     w' = w\<lparr>w_encoded := w_encoded w', w_shards := w_shards w', w_routes := w_routes w', w_video_files := w_video_files w'\<rparr>"

lemma videos_only_refl [simp]: "videos_only w w"
  by (simp add: videos_only_def)

lemma videos_only_trans: "videos_only w w' \<Longrightarrow> videos_only w' w'' \<Longrightarrow> videos_only w w''"
  unfolding videos_only_def by (cases w; cases w'; cases w'') simp

lemma videos_only_updates:
  assumes "videos_only w w'"
  shows "videos_only w (w'\<lparr>w_encoded := e\<rparr>)" and "videos_only w (w'\<lparr>w_routes := r\<rparr>)"
    and "videos_only w (set_shard i s w')" and "videos_only w (w'\<lparr>w_video_files := v\<rparr>)"
  using assms unfolding videos_only_def set_shard_def by (cases w; cases w'; simp)+

lemma MaterializeVideoShard_only: "MaterializeVideoShard h b i w = Inr w' \<Longrightarrow> videos_only w w'"
  by (auto simp: MaterializeVideoShard_def Let_def split: if_splits intro!: videos_only_updates)

lemma select_shard_only: "select_shard h b i n w = Inr w' \<Longrightarrow> videos_only w w'"
  by (auto simp: select_shard_def Let_def case_prod_beta split: if_splits
      intro!: videos_only_updates dest!: MaterializeVideoShard_only)

lemma RegisterEncodedVideo_only: "RegisterEncodedVideo h b result w = Inr w' \<Longrightarrow> videos_only w w'"
  by (auto simp: RegisterEncodedVideo_def Let_def split: if_splits
      intro!: videos_only_updates dest!: select_shard_only
      intro: videos_only_trans [OF videos_only_updates(1) [OF videos_only_refl]])

lemma register_result_only: "register_result h b result (i, w) = Inr (i', w') \<Longrightarrow> videos_only w w'"
  by (auto simp: register_result_def split: if_splits dest: RegisterEncodedVideo_only)

lemma EncodeEpisodeVideos_only:
  assumes "EncodeEpisodeVideos h b w = Inr w'"
  shows "videos_only w w'"
proof -
  have "videos_only w v" if "foldE (register_result h b) rs (None, w) = Inr (i, v)" for rs i v
    using foldE_invariant [OF that, of "\<lambda>(i, v). videos_only w v"]
    by (auto intro: videos_only_trans dest!: register_result_only)
  then show ?thesis using assms by (auto simp: EncodeEpisodeVideos_def split: if_splits)
qed

lemma MaterializeVideoShards_only:
  assumes "MaterializeVideoShards h b w = Inr w'"
  shows "videos_only w w'"
  using assms [unfolded MaterializeVideoShards_def]
proof (rule foldE_invariant [where P = "videos_only w"])
  fix x s s'
  assume "videos_only w s" and "(case x of (i, f) \<Rightarrow> if is_video f then MaterializeVideoShard h b i else Inr) s = Inr s'"
  then show "videos_only w s'"
    by (cases x) (auto split: if_splits intro: videos_only_trans dest!: MaterializeVideoShard_only)
qed simp

text \<open>
  The rows of episode metadata, flushed or still in the buffer. The last two values of a row name the
  file it lies in.
\<close>

definition ep_rows :: "'v writer \<Rightarrow> evalue list list" where
  "ep_rows w = log_of (pq_all (w_episodes w)) @ w_metadata_buffer w"

definition points_to :: "nat \<times> nat \<Rightarrow> evalue list \<Rightarrow> bool" where
  "points_to index row \<longleftrightarrow>
     (\<exists>front. row = front @ [EInt (int (fst index)), EInt (int (snd index))])"

definition located :: "nat \<Rightarrow> 'v writer \<Rightarrow> bool" where
  "located chunk_size w \<longleftrightarrow>
     shelf EpisodesRelativePath chunk_size (w_episodes w) (w_metadata_index w) \<and>
     (\<forall>k < length (pq_all (w_episodes w)). \<forall>row \<in> set (snd (pq_all (w_episodes w) ! k)).
        points_to (file_at chunk_size k) row) \<and>
     (\<forall>row \<in> set (w_metadata_buffer w). points_to (w_metadata_index w) row)"

definition episodes_only :: "'v writer \<Rightarrow> 'v writer \<Rightarrow> bool" where
  "episodes_only w w' \<longleftrightarrow>
     w' = w\<lparr>w_episodes := w_episodes w', w_metadata_buffer := w_metadata_buffer w', w_metadata_index := w_metadata_index w'\<rparr>"

lemma episodes_only_refl [simp]: "episodes_only w w"
  by (simp add: episodes_only_def)

lemma episodes_only_trans: "episodes_only w w' \<Longrightarrow> episodes_only w' w'' \<Longrightarrow> episodes_only w w''"
  unfolding episodes_only_def by (cases w; cases w'; cases w'') simp

lemma FlushMetadataBuffer_Inr:
  assumes "FlushMetadataBuffer w = Inr w'" and "located cs w"
  shows "located cs w' \<and> ep_rows w' = ep_rows w \<and> episodes_only w w' \<and> w_metadata_buffer w' = [] \<and>
    w_metadata_index w' = w_metadata_index w \<and> (pq_open (w_episodes w) \<noteq> None \<longrightarrow> pq_open (w_episodes w') \<noteq> None)"
proof (cases "w_metadata_buffer w = []")
  case True
  then show ?thesis using assms by (simp add: FlushMetadataBuffer_def)
next
  case False
  with assms(1) obtain p p' where p: "(if pq_open (w_episodes w) = None
      then pq_Open (EpisodesRelativePath (fst (w_metadata_index w)) (snd (w_metadata_index w))) (w_episodes w)
      else Inr (w_episodes w)) = Inr p" and p': "pq_Flush (w_metadata_buffer w) p = Inr p'"
    and w': "w' = w\<lparr>w_episodes := p', w_metadata_buffer := []\<rparr>"
    by (auto simp: FlushMetadataBuffer_def)
  have 1: "shelf EpisodesRelativePath cs p (w_metadata_index w) \<and> pq_files p = pq_files (w_episodes w) \<and>
    (pq_all p = pq_all (w_episodes w) \<or> (\<exists>path. pq_all p = pq_all (w_episodes w) @ [(path, [])]))"
  proof (cases "pq_open (w_episodes w) = None")
    case True
    then have "pq_Open (EpisodesRelativePath (fst (w_metadata_index w)) (snd (w_metadata_index w))) (w_episodes w) = Inr p"
      using p by simp
    note op = pq_Open_Inr [OF this] shelf_Open [where path = EpisodesRelativePath, OF _ this]
    then show ?thesis using assms(2) by (auto simp: located_def)
  next
    case False
    then show ?thesis using p assms(2) by (auto simp: located_def)
  qed
  obtain path where flush: "pq_all p = pq_files p @ [(path, pq_rows p)]" "pq_files p' = pq_files p"
    "pq_all p' = pq_files p @ [(path, pq_rows p @ w_metadata_buffer w)]" "pq_open p' = Some path"
    by (rule pq_Flush_Inr [OF p'])
  have old: "\<forall>k < length (pq_all p). \<forall>row \<in> set (snd (pq_all p ! k)). points_to (file_at cs k) row"
    using 1 assms(2) by (auto simp: located_def nth_append less_Suc_eq split: if_splits)
  have index: "w_metadata_index w = file_at cs (length (pq_files p))"
    using 1 by (simp add: shelf_def)
  have "points_to (file_at cs k) row" if "k < length (pq_all p')" "row \<in> set (snd (pq_all p' ! k))" for k row
  proof (cases "k < length (pq_files p)")
    case True
    then show ?thesis using old that(2) unfolding flush(1,3) by (auto simp: nth_append)
  next
    case False
    then have k: "k = length (pq_files p)" using that(1) by (simp add: flush(3))
    then have "row \<in> set (snd (pq_all p ! k)) \<or> row \<in> set (w_metadata_buffer w)"
      using that(2) unfolding flush(1,3) by auto
    then show ?thesis using old k index assms(2) by (auto simp: flush(1) located_def)
  qed
  moreover have "log_of (pq_all p) = log_of (pq_all (w_episodes w))" using 1 by auto
  then have "ep_rows w' = ep_rows w" unfolding ep_rows_def w' using flush(1,3) by simp
  ultimately show ?thesis
    using shelf_Flush [OF conjunct1 [OF 1] p'] flush(4) unfolding w' by (simp add: located_def episodes_only_def)
qed

lemma MaybeRotateEpisodesWriter_Inr:
  assumes "MaybeRotateEpisodesWriter h b n w = Inr w'" and "located (chunks_size (bd_config b)) w"
  shows "located (chunks_size (bd_config b)) w' \<and> ep_rows w' = ep_rows w \<and> episodes_only w w'"
proof -
  from assms(1) obtain limit where "(if \<not> pq_SizeAtLeast (rotate_episodes h) limit (w_episodes w) then Inr w
    else bindE (FlushMetadataBuffer w) (\<lambda>w. Inr (w\<lparr>w_episodes := pq_Close (w_episodes w),
           w_metadata_index := AdvanceFileIndex (chunks_size (bd_config b)) (w_metadata_index w)\<rparr>))) = Inr w'"
    unfolding MaybeRotateEpisodesWriter_def Let_def by blast
  then consider "w' = w" | w1 where "pq_open (w_episodes w) \<noteq> None" "FlushMetadataBuffer w = Inr w1"
    "w' = w1\<lparr>w_episodes := pq_Close (w_episodes w1),
             w_metadata_index := AdvanceFileIndex (chunks_size (bd_config b)) (w_metadata_index w1)\<rparr>"
    using pq_SizeAtLeast_open [of "rotate_episodes h" limit "w_episodes w"]
    by (cases "pq_SizeAtLeast (rotate_episodes h) limit (w_episodes w)") auto
  then show ?thesis
  proof cases
    case 1
    then show ?thesis using assms(2) by simp
  next
    case 2
    note fl = FlushMetadataBuffer_Inr [OF 2(2) assms(2)]
    have "shelf EpisodesRelativePath (chunks_size (bd_config b)) (pq_Close (w_episodes w1))
        (AdvanceFileIndex (chunks_size (bd_config b)) (w_metadata_index w1))"
      using fl 2(1) by (intro shelf_rotate) (auto simp: located_def)
    then have "located (chunks_size (bd_config b)) w'" using fl unfolding 2(3) by (simp add: located_def)
    moreover have "ep_rows w' = ep_rows w1" using fl unfolding 2(3) by (simp add: ep_rows_def)
    moreover have "episodes_only w w'" using fl unfolding 2(3) episodes_only_def by (cases w; cases w1) simp
    ultimately show ?thesis using fl by simp
  qed
qed

lemma episodes_only_fields:
  assumes "episodes_only w w'"
  shows "w_current_episode w' = w_current_episode w" "w_current_episode_frames w' = w_current_episode_frames w"
    "w_current_episode_tasks w' = w_current_episode_tasks w" "w_routes w' = w_routes w"
  using assms unfolding episodes_only_def by (cases w; cases w'; simp)+

lemma NumericCast_Inr: "NumericCast n = Inr i \<longleftrightarrow> i = int n \<and> int n \<le> INT64_MAX"
  by (auto simp: NumericCast_def)

lemma AddStatsToEpisodeRow_append:
  assumes "AddStatsToEpisodeRow f s row = Inr row'"
  shows "\<exists>new. row' = row @ new"
  using assms unfolding AddStatsToEpisodeRow_def Let_def bindE_Inr_iff by auto

lemma add_all_stats_append:
  assumes "foldE (\<lambda>(i, f). AddStatsToEpisodeRow f (stats i)) xs row = Inr row'"
  shows "\<exists>new. row' = row @ new"
  using assms
proof (rule foldE_invariant [where P = "\<lambda>r. \<exists>new. r = row @ new"])
  fix x s s'
  assume "\<exists>new. s = row @ new" and "(case x of (i, f) \<Rightarrow> AddStatsToEpisodeRow f (stats i)) s = Inr s'"
  then show "\<exists>new. s' = row @ new" by (cases x) (auto dest!: AddStatsToEpisodeRow_append)
qed simp

definition base_values :: "int \<Rightarrow> string list \<Rightarrow> nat \<times> nat \<Rightarrow> nat \<Rightarrow> nat \<Rightarrow> evalue list" where
  "base_values e tasks index from_index to_index =
     [EInt e, EList VARCHAR (map EText tasks), EInt (int (to_index - from_index)),
      EInt (int (fst index)), EInt (int (snd index)), EInt (int from_index), EInt (int to_index)]"

definition video_features :: "copy_bind \<Rightarrow> (nat \<times> copy_feature) list" where
  "video_features b = filter (\<lambda>(i, f). is_video f) (enumerate 0 (bd_features b))"

definition route_values :: "route \<Rightarrow> evalue list" where
  "route_values r = [EInt (int (rt_chunk_index r)), EInt (int (rt_file_index r)), EReal (rt_from_timestamp r), EReal (rt_to_timestamp r)]"

lemma AppendEpisodeMetadata_Inr:
  assumes "AppendEpisodeMetadata h b stats index from_i to_i w = Inr w'" and "located (chunks_size (bd_config b)) w"
    and "to_i - from_i = w_current_episode_frames w"
  obtains stat_columns meta where "located (chunks_size (bd_config b)) w'" "episodes_only w w'"
    "ep_rows w' = ep_rows w @ [base_values (w_current_episode w) (w_current_episode_tasks w) index from_i to_i @
       concat (map (\<lambda>(i, f). route_values (w_routes w ! i)) (video_features b)) @ stat_columns @ meta]"
    "int to_i \<le> INT64_MAX" "length meta = 2"
proof -
  from assms(1) obtain w1 base routes row mc mf where
    r: "MaybeRotateEpisodesWriter h b (w_current_episode_frames w) w = Inr w1" and
    base: "episode_base_values w1 index from_i to_i = Inr base" and
    routes: "mapE (\<lambda>(i, f). video_route_values (w_routes w1 ! i)) (video_features b) = Inr routes" and
    row: "foldE (\<lambda>(i, f). AddStatsToEpisodeRow f (the (stats ! i)))
      (filter (\<lambda>(i, f). HasStatistics f) (enumerate 0 (bd_features b))) (base @ concat routes) = Inr row" and
    meta: "NumericCast (fst (w_metadata_index w1)) = Inr mc" "NumericCast (snd (w_metadata_index w1)) = Inr mf" and
    rest: "(let w = w1\<lparr>w_metadata_buffer := w_metadata_buffer w1 @ [row @ [EInt mc, EInt mf]]\<rparr>
      in if length (w_metadata_buffer w) \<ge> metadata_buffer_size (bd_config b) then FlushMetadataBuffer w else Inr w) = Inr w'"
    unfolding AppendEpisodeMetadata_def bindE_Inr_iff Let_def video_features_def by (auto split: if_splits)
  note rot = MaybeRotateEpisodesWriter_Inr [OF r assms(2)]
  note fields = episodes_only_fields [OF conjunct2 [OF conjunct2 [OF rot]]]
  have base': "base = base_values (w_current_episode w) (w_current_episode_tasks w) index from_i to_i" "int to_i \<le> INT64_MAX"
    using base assms(3) by (auto simp: episode_base_values_def NumericCast_Inr base_values_def fields)
  have "mapE (\<lambda>(i, f). video_route_values (w_routes w ! i)) xs = Inr ys \<Longrightarrow>
      ys = map (\<lambda>(i, f). route_values (w_routes w ! i)) xs" for xs :: "(nat \<times> copy_feature) list" and ys
    unfolding mapE_Inr_iff
    by (induction xs arbitrary: ys) (auto simp: list_all2_Cons1 video_route_values_def NumericCast_Inr route_values_def)
  with routes have routes': "routes = map (\<lambda>(i, f). route_values (w_routes w ! i)) (video_features b)"
    by (simp add: fields)
  obtain stat_columns where row': "row = base @ concat routes @ stat_columns"
    using add_all_stats_append [OF row] by auto
  let ?row = "row @ [EInt mc, EInt mf]"
  let ?w = "w1\<lparr>w_metadata_buffer := w_metadata_buffer w1 @ [?row]\<rparr>"
  have "points_to (w_metadata_index w1) ?row" using meta by (auto simp: points_to_def NumericCast_Inr)
  then have l: "located (chunks_size (bd_config b)) ?w" using rot by (auto simp: located_def)
  have e: "episodes_only w ?w" using rot unfolding episodes_only_def by (cases w; cases w1) simp
  have rows: "ep_rows ?w = ep_rows w @ [?row]" using rot by (simp add: ep_rows_def)
  have "located (chunks_size (bd_config b)) w' \<and> episodes_only w w' \<and> ep_rows w' = ep_rows w @ [?row]"
  proof (cases "length (w_metadata_buffer ?w) \<ge> metadata_buffer_size (bd_config b)")
    case True
    then have "FlushMetadataBuffer ?w = Inr w'" using rest by (simp add: Let_def)
    from FlushMetadataBuffer_Inr [OF this l] show ?thesis using rows episodes_only_trans [OF e] by simp
  next
    case False
    then have "w' = ?w" using rest by (auto simp: Let_def)
    then show ?thesis using l e rows by simp
  qed
  then show thesis using that [of stat_columns "[EInt mc, EInt mf]"] base' routes' row' by simp
qed

section \<open>The invariant of the writer\<close>

declare episode_of.simps [simp del]

definition before :: "copy_bind \<Rightarrow> int \<Rightarrow> 'v input_row list \<Rightarrow> nat" where
  "before b e rows = length (filter (\<lambda>r. case episode_of b r of None \<Rightarrow> False | Some i \<Rightarrow> i < e) rows)"

definition episode_tasks :: "copy_bind \<Rightarrow> int \<Rightarrow> 'v input_row list \<Rightarrow> string list" where
  "episode_tasks b e rows = first_seen (map (task_of b) (filter (\<lambda>r. episode_of b r = Some e) rows))"

text \<open>
  The row of metadata of episode \<open>e\<close> has its tasks and its range of frames, and the data file it names holds
  that range.
\<close>

definition entry_ok ::
  "copy_bind \<Rightarrow> 'v input_row list \<Rightarrow> (string \<times> 'v data_row list) list \<Rightarrow> nat \<Rightarrow> evalue list \<Rightarrow> bool" where
  "entry_ok b rows files e row \<longleftrightarrow>
     (let from_i = before b (int e) rows; to_i = before b (int e + 1) rows
      in from_i < to_i \<and> int to_i \<le> INT64_MAX \<and>
         (\<exists>k rest. k < length files \<and> start files k \<le> from_i \<and> to_i \<le> start files (Suc k) \<and>
            row = base_values (int e) (episode_tasks b (int e) rows) (file_at (chunks_size (bd_config b)) k) from_i to_i @ rest))"

definition writer_inv :: "'v copy_host \<Rightarrow> copy_bind \<Rightarrow> 'v input_row list \<Rightarrow> 'v writer \<Rightarrow> bool" where
  "writer_inv h b past w \<longleftrightarrow>
     images_ok b w \<and> tasks_ok w \<and> w_tasks w = first_seen (map (task_of b) past) \<and>
     shelf DataRelativePath (chunks_size (bd_config b)) (w_data w) (w_data_index w) \<and>
     located (chunks_size (bd_config b)) w \<and> w_tasks_file w = new_parquet \<and>
     log_of (pq_all (w_data w)) = take (w_total_frames w) (ref_frames h b past) \<and>
     length (ep_rows w) = w_total_episodes w \<and>
     (\<forall>e < w_total_episodes w. entry_ok b past (pq_all (w_data w)) e (ep_rows w ! e)) \<and>
     length past = w_total_frames w + (if w_has_current_episode w then w_current_episode_frames w else 0) \<and>
     (\<forall>r \<in> set (take (w_total_frames w) past). \<exists>e < w_total_episodes w. episode_of b r = Some (int e)) \<and>
     sorted (map (\<lambda>r. the (episode_of b r)) past) \<and>
     (w_has_current_episode w \<longrightarrow>
        w_current_episode w = int (w_total_episodes w) \<and>
        w_current_data w = drop (w_total_frames w) (ref_frames h b past) \<and>
        (\<forall>r \<in> set (drop (w_total_frames w) past). episode_of b r = Some (w_current_episode w)) \<and>
        w_current_episode_tasks w = first_seen (map (task_of b) (drop (w_total_frames w) past)))"

lemma before_append: "before b e (rows @ rows') = before b e rows + before b e rows'"
  by (simp add: before_def)

lemma before_later: "\<forall>r \<in> set rows. episode_of b r = Some e \<Longrightarrow> i \<le> e \<Longrightarrow> before b i rows = 0"
  by (auto simp: before_def)

lemma episode_tasks_later: "\<forall>r \<in> set rows'. episode_of b r = Some e \<Longrightarrow> i < e \<Longrightarrow>
    episode_tasks b i (rows @ rows') = episode_tasks b i rows"
  by (auto simp: episode_tasks_def filter_empty_conv)

lemma entry_ok_append:
  assumes "entry_ok b rows files e row" and "\<forall>r \<in> set rows'. episode_of b r = Some (int n)" and "e < n"
  shows "entry_ok b (rows @ rows') files e row"
proof -
  have "before b (int e) (rows @ rows') = before b (int e) rows" "before b (int e + 1) (rows @ rows') = before b (int e + 1) rows"
    using assms(3) before_later [OF assms(2)] by (simp_all add: before_append)
  moreover have "episode_tasks b (int e) (rows @ rows') = episode_tasks b (int e) rows"
    using assms(3) by (intro episode_tasks_later [OF assms(2)]) simp
  ultimately show ?thesis using assms(1) by (simp add: entry_ok_def)
qed

lemma entry_ok_extends:
  assumes "entry_ok b rows files e row" and "extends files files'"
  shows "entry_ok b rows files' e row"
proof -
  from assms(1) obtain k rest where k: "k < length files" "start files k \<le> before b (int e) rows"
    "before b (int e + 1) rows \<le> start files (Suc k)"
    "row = base_values (int e) (episode_tasks b (int e) rows) (file_at (chunks_size (bd_config b)) k)
       (before b (int e) rows) (before b (int e + 1) rows) @ rest"
    by (auto simp: entry_ok_def Let_def)
  have "k < length files'" "start files' k \<le> before b (int e) rows" "before b (int e + 1) rows \<le> start files' (Suc k)"
    using assms(2) k(1,2,3) unfolding extends_def by (force, force, meson le_trans)
  with assms(1) k(4) show ?thesis unfolding entry_ok_def Let_def by blast
qed

lemma first_seen_Nil [simp]: "first_seen [] = []"
  by (simp add: first_seen_def)

lemma writer_inv_new: "writer_inv h b [] (new_writer b)"
  by (simp add: writer_inv_def new_writer_def Let_def images_ok_def tasks_ok_def located_def ep_rows_def
      shelf_new ref_frames_def fun_eq_iff)

lemma writer_inv_start:
  assumes "StartEpisode b e w = Inr w'" and "writer_inv h b past w" and "\<not> w_has_current_episode w"
  shows "writer_inv h b past w' \<and> w_has_current_episode w' \<and> w_current_episode w' = e"
proof -
  obtain s r where e: "e = int (w_total_episodes w)" and w': "w' = w\<lparr>w_current_episode := e, w_current_episode_frames := 0,
      w_current_episode_tasks := [], w_current_data := [], w_spools := s, w_routes := r, w_has_current_episode := True\<rparr>"
    using assms(1) by (auto simp: StartEpisode_def NumericCast_Inr split: if_splits)
  show ?thesis
    using assms(2,3) unfolding w' e
    by (simp add: writer_inv_def images_ok_def tasks_ok_def located_def ep_rows_def cong: if_cong)
qed

lemma current_count:
  assumes "writer_inv h b past w" and "w_has_current_episode w"
  shows "episode_count b (Some (w_current_episode w)) past = w_current_episode_frames w"
proof -
  let ?t = "w_total_frames w"
  have "\<forall>r \<in> set (take ?t past). \<exists>e < w_total_episodes w. episode_of b r = Some (int e)"
    and "w_current_episode w = int (w_total_episodes w)"
    and new: "\<forall>r \<in> set (drop ?t past). episode_of b r = Some (w_current_episode w)"
    and len: "length past = ?t + w_current_episode_frames w"
    using assms by (simp_all add: writer_inv_def)
  then have "filter (\<lambda>r. episode_of b r = Some (w_current_episode w)) (take ?t past) = []"
    by (fastforce simp: filter_empty_conv)
  moreover have "filter (\<lambda>r. episode_of b r = Some (w_current_episode w)) (drop ?t past) = drop ?t past"
    using new by (simp add: filter_id_conv)
  ultimately have "filter (\<lambda>r. episode_of b r = Some (w_current_episode w)) (take ?t past @ drop ?t past) = drop ?t past"
    by (simp del: append_take_drop_id)
  then show ?thesis using len by (simp add: episode_count_def)
qed

lemma writer_inv_append:
  assumes "AppendRun h b run w = Inr w'" and "writer_inv h b past w" and "w_has_current_episode w"
    and "bind_ok b" and "\<forall>r \<in> set run. episode_of b r = Some (w_current_episode w)"
  shows "writer_inv h b (past @ run) w' \<and> w_has_current_episode w'"
proof -
  let ?t = "w_total_frames w"
  note inv = assms(2) [unfolded writer_inv_def]
  from assms(1) obtain w1 rows where rows: "foldE (append_row h b) (enumerate 0 run) (w, []) = Inr (w1, rows)"
    and w1: "w' = w1\<lparr>w_current_data := w_current_data w1 @ rows,
      w_current_episode_frames := w_current_episode_frames w1 + length run\<rparr>"
    by (auto simp: AppendRun_def)
  have len: "length past = ?t + w_current_episode_frames w" using inv assms(3) by simp
  have new: "row_only w w1" "images_ok b w1" "tasks_ok w1" "w_tasks w1 = first_seen (map (task_of b) (past @ run))"
    "ref_frames h b (past @ run) = ref_frames h b past @ rows" "length rows = length run"
    "w_current_episode_tasks w1 = foldl add_new (w_current_episode_tasks w) (map (task_of b) run)"
    using append_rows_Inr [OF rows assms(4) _ _ _ assms(5) _ current_count [OF assms(2,3)]] inv len by simp_all
  obtain s r i ti ts ct where w1': "w1 = w\<lparr>w_spools := s, w_raw_types := r, w_image_writers := i,
      w_task_indexes := ti, w_tasks := ts, w_current_episode_tasks := ct\<rparr>"
    using new(1) unfolding row_only_def by blast
  have current: "w_current_episode w = int (w_total_episodes w)" using inv assms(3) by simp
  have "\<forall>e < w_total_episodes w. entry_ok b (past @ run) (pq_all (w_data w)) e (ep_rows w ! e)"
    using inv assms(5) unfolding current by (auto intro: entry_ok_append)
  moreover have "sorted (map (\<lambda>r. the (episode_of b r)) (past @ run))"
  proof -
    have "the (episode_of b x) \<le> int (w_total_episodes w)" if "x \<in> set past" for x
    proof -
      have "x \<in> set (take ?t past @ drop ?t past)" using that by simp
      then have "x \<in> set (take ?t past) \<or> x \<in> set (drop ?t past)" by (simp del: append_take_drop_id)
      moreover have "\<forall>x \<in> set (take ?t past). \<exists>e < w_total_episodes w. episode_of b x = Some (int e)"
        "\<forall>x \<in> set (drop ?t past). episode_of b x = Some (int (w_total_episodes w))"
        using inv assms(3) by simp_all
      ultimately show ?thesis by fastforce
    qed
    moreover have "sorted (map (\<lambda>r. the (episode_of b r)) past)" using inv by simp
    moreover have "map (\<lambda>r. the (episode_of b r)) run = replicate (length run) (int (w_total_episodes w))"
      using assms(5) current by (induction run) simp_all
    ultimately show ?thesis by (auto simp: sorted_append)
  qed
  moreover have "images_ok b w'" "tasks_ok w'" using new(2,3) unfolding w1 by (simp_all add: images_ok_def tasks_ok_def cong: if_cong)
  moreover have "w_current_data w' = drop ?t (ref_frames h b (past @ run))"
    using inv assms(3) len unfolding new(5) w1 w1' by simp
  moreover have "\<forall>r \<in> set (drop ?t (past @ run)). episode_of b r = Some (w_current_episode w)"
    using inv assms(3,5) by auto
  moreover have "w_current_episode_tasks w' = first_seen (map (task_of b) (drop ?t (past @ run)))"
    using inv assms(3) len new(7) unfolding w1 by (simp add: first_seen_def)
  moreover have "log_of (pq_all (w_data w)) = take ?t (ref_frames h b (past @ run))"
    using inv len unfolding new(5) by simp
  moreover have "w_tasks w' = first_seen (map (task_of b) (past @ run))" using new(4) unfolding w1 by simp
  moreover have "located (chunks_size (bd_config b)) w'" "ep_rows w' = ep_rows w" "w_tasks_file w' = new_parquet"
    using inv unfolding w1 w1' by (simp_all add: located_def ep_rows_def)
  moreover have "\<forall>r \<in> set (take ?t (past @ run)). \<exists>e < w_total_episodes w. episode_of b r = Some (int e)"
    using inv len by simp
  moreover have "length (past @ run) = ?t + w_current_episode_frames w'" using len unfolding w1 w1' by simp
  moreover have "w_data w' = w_data w" "w_data_index w' = w_data_index w" "w_total_frames w' = ?t"
    "w_total_episodes w' = w_total_episodes w" "w_has_current_episode w'" "w_current_episode w' = w_current_episode w"
    using assms(3) unfolding w1 w1' by simp_all
  ultimately show ?thesis using inv current unfolding writer_inv_def by simp
qed

lemma current_range:
  assumes "writer_inv h b past w" and "w_has_current_episode w"
  shows "before b (int (w_total_episodes w)) past = w_total_frames w"
    and "before b (int (w_total_episodes w) + 1) past = length past"
    and "episode_tasks b (int (w_total_episodes w)) past = w_current_episode_tasks w"
proof -
  let ?t = "w_total_frames w" and ?n = "w_total_episodes w"
  let ?old = "take ?t past" and ?new = "drop ?t past"
  have old: "\<forall>r \<in> set ?old. \<exists>e < ?n. episode_of b r = Some (int e)"
    and new: "\<forall>r \<in> set ?new. episode_of b r = Some (int ?n)"
    and len: "length past = ?t + w_current_episode_frames w"
    and tasks: "w_current_episode_tasks w = first_seen (map (task_of b) ?new)"
    using assms by (simp_all add: writer_inv_def)
  have lt: "filter (\<lambda>r. case episode_of b r of None \<Rightarrow> False | Some i \<Rightarrow> i < int ?n + k) ?old = ?old" if "0 \<le> k" for k
    using old that by (fastforce simp: filter_id_conv)
  have split: "before b i past = before b i ?old + before b i ?new" for i
    using before_append [of b i ?old ?new] by simp
  have "before b (int ?n) ?new = 0" using new by (rule before_later) simp
  moreover have "before b (int ?n) ?old = length ?old" unfolding before_def using lt [of 0] by (simp only: add_0_right)
  ultimately show "before b (int ?n) past = ?t" using len by (simp add: split)
  have "filter (\<lambda>r. case episode_of b r of None \<Rightarrow> False | Some i \<Rightarrow> i < int ?n + 1) ?new = ?new"
    using new by (simp add: filter_id_conv)
  then have "before b (int ?n + 1) ?new = length ?new" unfolding before_def by simp
  moreover have "before b (int ?n + 1) ?old = length ?old" unfolding before_def using lt [of 1] by simp
  ultimately show "before b (int ?n + 1) past = length past" using len unfolding split by simp
  have "filter (\<lambda>r. episode_of b r = Some (int ?n)) ?old = []" using old by (fastforce simp: filter_empty_conv)
  moreover have "filter (\<lambda>r. episode_of b r = Some (int ?n)) ?new = ?new" using new by (simp add: filter_id_conv)
  ultimately have "filter (\<lambda>r. episode_of b r = Some (int ?n)) (?old @ ?new) = ?new" by (simp del: append_take_drop_id)
  then show "episode_tasks b (int ?n) past = w_current_episode_tasks w" unfolding episode_tasks_def tasks by simp
qed

text \<open>The data of the current episode go to the end of the last data file.\<close>

lemma flush_episode:
  assumes "shelf path cs p index" and "pq_Flush rows p = Inr p'"
  shows "shelf path cs p' index" and "log_of (pq_all p') = log_of (pq_all p) @ rows"
    and "extends (pq_all p) (pq_all p')"
    and "\<exists>k < length (pq_all p'). index = file_at cs k \<and> start (pq_all p') k \<le> length (log_of (pq_all p)) \<and>
      start (pq_all p') (Suc k) = length (log_of (pq_all p)) + length rows"
proof -
  obtain q where f: "pq_all p = pq_files p @ [(q, pq_rows p)]" "pq_all p' = pq_files p @ [(q, pq_rows p @ rows)]"
    by (rule pq_Flush_Inr [OF assms(2)])
  show "shelf path cs p' index" by (rule shelf_Flush [OF assms])
  show "log_of (pq_all p') = log_of (pq_all p) @ rows" "extends (pq_all p) (pq_all p')"
    unfolding f by (simp_all add: extends_last)
  show "\<exists>k < length (pq_all p'). index = file_at cs k \<and> start (pq_all p') k \<le> length (log_of (pq_all p)) \<and>
      start (pq_all p') (Suc k) = length (log_of (pq_all p)) + length rows"
    using assms(1) unfolding f by (intro exI [of _ "length (pq_files p)"]) (simp add: shelf_def start_def)
qed

lemma FinishEpisode_steps:
  assumes "FinishEpisode h b w = Inr w'" and "w_has_current_episode w"
  obtains stats data_writer p v st w4 where
    "EnsureDataWriter h b (w_current_episode_frames w) (w\<lparr>w_spools := map Close_spool (w_spools w)\<rparr>) = Inr data_writer"
    "pq_Flush (w_current_data data_writer) (w_data data_writer) = Inr p"
    "EncodeEpisodeVideos h b (data_writer\<lparr>w_data := p, w_current_data := []\<rparr>) = Inr v"
    "AppendEpisodeMetadata h b stats (w_data_index data_writer) (w_total_frames v) (w_total_frames v + w_current_episode_frames v)
       (v\<lparr>w_spools := map Remove_spool (w_spools v), w_dataset_stats := st\<rparr>) = Inr w4"
    "w' = w4\<lparr>w_total_frames := w_total_frames v + w_current_episode_frames v, w_total_episodes := w_total_episodes w4 + 1,
       w_has_current_episode := False\<rparr>" "0 < w_current_episode_frames w"
  using assms by (auto simp: FinishEpisode_def Let_def split: if_splits)

lemma writer_inv_finish:
  assumes "FinishEpisode h b w = Inr w'" and "writer_inv h b past w" and "w_has_current_episode w"
  shows "writer_inv h b past w' \<and> \<not> w_has_current_episode w'"
proof -
  let ?t = "w_total_frames w" and ?n = "w_total_episodes w" and ?cs = "chunks_size (bd_config b)"
  let ?w0 = "w\<lparr>w_spools := map Close_spool (w_spools w)\<rparr>"
  note inv = assms(2) [unfolded writer_inv_def]
  have len: "length past = ?t + w_current_episode_frames w" using inv assms(3) by simp
  obtain stats w1 p v st w4 where
    1: "EnsureDataWriter h b (w_current_episode_frames w) ?w0 = Inr w1" and
    2: "pq_Flush (w_current_data w1) (w_data w1) = Inr p" and
    3: "EncodeEpisodeVideos h b (w1\<lparr>w_data := p, w_current_data := []\<rparr>) = Inr v" and
    4: "AppendEpisodeMetadata h b stats (w_data_index w1) (w_total_frames v) (w_total_frames v + w_current_episode_frames v)
       (v\<lparr>w_spools := map Remove_spool (w_spools v), w_dataset_stats := st\<rparr>) = Inr w4" and
    5: "w' = w4\<lparr>w_total_frames := w_total_frames v + w_current_episode_frames v, w_total_episodes := w_total_episodes w4 + 1,
       w_has_current_episode := False\<rparr>" and pos: "0 < w_current_episode_frames w"
    by (rule FinishEpisode_steps [OF assms(1,3)])
  have "shelf DataRelativePath ?cs (w_data ?w0) (w_data_index ?w0)" using inv by simp
  then obtain q index fr where
    w1: "w1 = ?w0\<lparr>w_data := q, w_data_index := index, w_data_file_start_frame := fr\<rparr>" and
    q: "shelf DataRelativePath ?cs q index" "pq_open q \<noteq> None" "log_of (pq_all q) = log_of (pq_all (w_data ?w0))"
      "extends (pq_all (w_data ?w0)) (pq_all q)"
    by (rule EnsureDataWriter_Inr [OF 1])
  have p: "pq_Flush (w_current_data w) q = Inr p" using 2 unfolding w1 by simp
  note fl = flush_episode [OF q(1) p]
  obtain en sh ro vf where v: "v = w1\<lparr>w_data := p, w_current_data := [], w_encoded := en, w_shards := sh, w_routes := ro, w_video_files := vf\<rparr>"
    using EncodeEpisodeVideos_only [OF 3] unfolding videos_only_def by blast
  let ?v = "v\<lparr>w_spools := map Remove_spool (w_spools v), w_dataset_stats := st\<rparr>"
  have l: "located ?cs ?v" "ep_rows ?v = ep_rows w" using inv unfolding v w1 by (simp_all add: located_def ep_rows_def)
  have "w_total_frames v + w_current_episode_frames v - w_total_frames v = w_current_episode_frames ?v" by simp
  then obtain st mt where w4: "located ?cs w4" "episodes_only ?v w4" and
    row: "ep_rows w4 = ep_rows ?v @ [base_values (w_current_episode ?v) (w_current_episode_tasks ?v) (w_data_index w1)
       (w_total_frames v) (w_total_frames v + w_current_episode_frames v) @
       concat (map (\<lambda>(i, f). route_values (w_routes ?v ! i)) (video_features b)) @ st @ mt]" and
    range: "int (w_total_frames v + w_current_episode_frames v) \<le> INT64_MAX" "length mt = 2"
    by (rule AppendEpisodeMetadata_Inr [OF 4 l(1)])
  obtain we mb mi where w4': "w4 = ?v\<lparr>w_episodes := we, w_metadata_buffer := mb, w_metadata_index := mi\<rparr>"
    using w4(2) unfolding episodes_only_def by blast
  define files where "files = pq_all p"
  define entry where "entry = base_values (int ?n) (w_current_episode_tasks w) index ?t (length past) @
       concat (map (\<lambda>(i, f). route_values (w_routes ?v ! i)) (video_features b)) @ st @ mt"
  note range' = current_range [OF assms(2,3)]
  have log: "log_of files = ref_frames h b past"
    using inv assms(3) unfolding files_def fl(2) q(3) by simp
  have total: "length (log_of (pq_all q)) = ?t" using inv len by (simp add: q(3))
  have "length (w_current_data w) = w_current_episode_frames w" using inv assms(3) len by simp
  with fl(4) total len obtain k where k: "k < length files" "index = file_at ?cs k" "start files k \<le> ?t"
    "start files (Suc k) = length past"
    unfolding files_def by auto
  have "entry_ok b past files ?n entry"
    using pos k len range unfolding entry_ok_def Let_def range' entry_def v w1 by auto
  moreover have "entry_ok b past files e (ep_rows w ! e)" if "e < ?n" for e
    using inv that extends_trans [OF q(4) fl(3)] unfolding files_def by (auto intro: entry_ok_extends)
  moreover have rows: "ep_rows w' = ep_rows w @ [entry]" "length (ep_rows w) = ?n"
    using row inv len assms(3) unfolding l(2) 5 entry_def v w1 by (simp_all add: ep_rows_def)
  ultimately have entries: "\<forall>e < Suc ?n. entry_ok b past files e (ep_rows w' ! e)"
    by (auto simp: nth_append less_Suc_eq)
  have done_ok: "\<forall>r \<in> set past. \<exists>e < Suc ?n. episode_of b r = Some (int e)"
  proof
    fix r
    assume "r \<in> set past"
    then have "r \<in> set (take ?t past @ drop ?t past)" by simp
    then have "r \<in> set (take ?t past) \<or> r \<in> set (drop ?t past)" by (simp del: append_take_drop_id)
    then show "\<exists>e < Suc ?n. episode_of b r = Some (int e)" using inv assms(3) by (auto intro: less_SucI)
  qed
  have fields: "w_data w' = p" "w_data_index w' = index" "w_total_frames w' = length past" "w_total_episodes w' = Suc ?n"
    "\<not> w_has_current_episode w'"
    using len unfolding 5 w4' v w1 by simp_all
  have "images_ok b w'" "tasks_ok w'" "w_tasks w' = w_tasks w" "w_tasks_file w' = new_parquet"
    using inv unfolding 5 w4' v w1 by (simp_all add: images_ok_def tasks_ok_def cong: if_cong)
  moreover have "located ?cs w'" using w4(1) unfolding 5 by (simp add: located_def)
  ultimately show ?thesis
    using inv entries rows fl(1) log done_ok fields(5) unfolding writer_inv_def fields(1-4) files_def by simp
qed

section \<open>Runs and chunks\<close>

lemma begin_episode_inv:
  assumes "begin_episode h b e w = Inr w'" and "writer_inv h b past w"
  shows "writer_inv h b past w' \<and> w_has_current_episode w' \<and> w_current_episode w' = e"
proof (cases "w_has_current_episode w")
  case False
  then have "StartEpisode b e w = Inr w'" using assms(1) by (simp add: begin_episode_def)
  then show ?thesis using assms(2) False by (rule writer_inv_start)
next
  case True
  show ?thesis
  proof (cases "e = w_current_episode w")
    case False
    then obtain w1 where f: "FinishEpisode h b w = Inr w1" and s: "StartEpisode b e w1 = Inr w'"
      using assms(1) True by (auto simp: begin_episode_def)
    from writer_inv_finish [OF f assms(2) True] show ?thesis using writer_inv_start [OF s] by blast
  qed (use assms True in \<open>auto simp: begin_episode_def\<close>)
qed

lemma process_runs_inv:
  assumes "process_runs h b rows w = Inr w'" and "writer_inv h b past w" and "bind_ok b"
  shows "writer_inv h b (past @ rows) w'"
  using assms
proof (induction h b rows w arbitrary: past w' rule: process_runs.induct)
  case (2 h b cells rest w)
  from 2(2) obtain e w1 w2 where e: "episode_of b cells = Some e" and begin_e: "begin_episode h b e w = Inr w1" and
    run: "AppendRun h b (cells # takeWhile (\<lambda>r. episode_of b r = Some e) rest) w1 = Inr w2" and
    more: "process_runs h b (dropWhile (\<lambda>r. episode_of b r = Some e) rest) w2 = Inr w'"
    by (auto split: option.splits)
  let ?run = "cells # takeWhile (\<lambda>r. episode_of b r = Some e) rest"
  note 1 = begin_episode_inv [OF begin_e 2(3)]
  have "\<forall>r \<in> set ?run. episode_of b r = Some (w_current_episode w1)"
    using 1 e by (auto dest: set_takeWhileD)
  then have "writer_inv h b (past @ ?run) w2" using writer_inv_append [OF run] 1 2(4) by blast
  from 2(1) [OF e more this 2(4)] show ?case by simp
qed simp

lemma Process_inv:
  assumes "Process h b chunk w = Inr w'" and "writer_inv h b past w" and "bind_ok b"
  shows "writer_inv h b (past @ chunk) w'"
proof -
  have "process_runs h b chunk w = Inr w'" using assms(1) by (simp add: Process_def split: if_splits)
  then show ?thesis using assms(2,3) by (rule process_runs_inv)
qed

lemma Process_chunks_inv:
  assumes "foldE (Process h b) chunks w = Inr w'" and "writer_inv h b past w" and "bind_ok b"
  shows "writer_inv h b (past @ concat chunks) w'"
  using assms(1,2)
proof (induction chunks arbitrary: past w)
  case (Cons chunk chunks)
  then obtain w1 where 1: "Process h b chunk w = Inr w1" and 2: "foldE (Process h b) chunks w1 = Inr w'"
    by (auto split: sum.splits)
  from Cons.IH [OF 2 Process_inv [OF 1 Cons.prems(2) assms(3)]] show ?case by simp
qed simp

end
