(* ===== verification/Evaluation.thy ===== *)
theory Evaluation
  imports Floats "HOL-Library.Code_Target_Nat"
begin

text \<open>
  Code equations for evaluation in the kernel: \<open>bindE\<close> as a case distinction, so that the continuation of a
  computation is evaluated after its argument only, natural numbers by binary arithmetic, and rounding by
  integer arithmetic on the numerator and the denominator, so that a result of \<open>Floats\<close> is a fraction of
  two numerals and not a tree of rational operations. Nothing here models code of the repository.
\<close>

lemma bindE_case [code_unfold]: "bindE m f = (case m of Inl e \<Rightarrow> Inl e | Inr x \<Rightarrow> f x)"
  by (cases m) simp_all

function pow2 :: "int \<Rightarrow> int" where
  "pow2 k = (if k \<le> 0 then 1 else Int.dup (pow2 (k - 1)))"
  by pat_completeness auto

termination by (relation "measure nat") auto

declare pow2.simps [simp del]

lemma pow2_power: "2 ^ nat k = pow2 k"
proof (induction k rule: pow2.induct)
  case (1 k)
  show ?case
  proof (cases "k \<le> 0")
    case False
    then have "nat k = Suc (nat (k - 1))" by simp
    then show ?thesis using 1 False by (subst pow2.simps) (simp add: Int.dup_def)
  qed (simp add: pow2.simps)
qed

definition exponent_pair :: "int \<Rightarrow> int \<Rightarrow> int" where
  "exponent_pair n d =
     (let k = bitlen n - bitlen d
      in if (if 0 \<le> k then pow2 k * d \<le> n else d \<le> n * pow2 (- k)) then k else k - 1)"

definition rne_div :: "int \<Rightarrow> int \<Rightarrow> int" where
  "rne_div n d =
     (let q = n div d; r = n mod d
      in if 2 * r < d then q else if d < 2 * r then q + 1 else if even q then q else q + 1)"

definition round_pair :: "nat \<Rightarrow> int \<Rightarrow> int \<Rightarrow> int \<Rightarrow> int \<Rightarrow> fp" where
  "round_pair p emin emax n d =
     (if n = 0 then Fin 0
      else
        let e = max (exponent_pair \<bar>n\<bar> d - int p + 1) emin
        in if 0 \<le> e
           then let m = rne_div n (d * pow2 e) * pow2 e
                in if emax < bitlen \<bar>m\<bar> then (if 0 < m then PInf else NInf) else Fin (of_int m)
           else let c = pow2 (- e); m = rne_div (n * c) d; g = gcd m c
                in if emax - e < bitlen \<bar>m\<bar> then (if 0 < m then PInf else NInf)
                   else if g = c then Fin (of_int (m div c)) else Fin (of_int (m div g) / of_int (c div g)))"

lemma rne_div: "0 < d \<Longrightarrow> rne (of_int n / of_int d) = rne_div n d"
proof -
  assume d: "0 < d"
  have f: "\<lfloor>of_int n / of_int d :: rat\<rfloor> = n div d" by (rule floor_divide_of_int_eq)
  have "(of_int n :: rat) = of_int (n div d) * of_int d + of_int (n mod d)"
    by (simp flip: of_int_mult of_int_add)
  then have r: "of_int n / of_int d - of_int (n div d) = (of_int (n mod d) / of_int d :: rat)"
    using d by (simp add: field_simps)
  have "(of_int (n mod d) / of_int d < (1 / 2 :: rat)) = (2 * (n mod d) < d)"
    "((1 / 2 :: rat) < of_int (n mod d) / of_int d) = (d < 2 * (n mod d))"
  proof -
    have "(of_int (n mod d) / of_int d < (1 / 2 :: rat)) = (of_int (2 * (n mod d)) < (of_int d :: rat))"
      using d by (simp add: field_simps)
    then show "(of_int (n mod d) / of_int d < (1 / 2 :: rat)) = (2 * (n mod d) < d)" by (simp only: of_int_less_iff)
    have "((1 / 2 :: rat) < of_int (n mod d) / of_int d) = ((of_int d :: rat) < of_int (2 * (n mod d)))"
      using d by (simp add: field_simps)
    then show "((1 / 2 :: rat) < of_int (n mod d) / of_int d) = (d < 2 * (n mod d))" by (simp only: of_int_less_iff)
  qed
  then show ?thesis unfolding rne_def rne_div_def Let_def f r by simp
qed

lemma exponent_pair:
  assumes "quotient_of x = (n, d)"
  shows "rat_exponent x = exponent_pair \<bar>n\<bar> d"
proof -
  have d: "0 < d" using assms by (rule quotient_of_denom_pos)
  have q: "quotient_of \<bar>x\<bar> = (\<bar>n\<bar>, d)" using assms by (simp add: rat_abs_code)
  have x: "\<bar>x\<bar> = of_int \<bar>n\<bar> / of_int d" using q by (rule quotient_of_div)
  have "2 powi k \<le> \<bar>x\<bar> \<longleftrightarrow> (if 0 \<le> k then 2 ^ nat k * d \<le> \<bar>n\<bar> else d \<le> \<bar>n\<bar> * 2 ^ nat (- k))" for k
  proof (cases "0 \<le> k")
    case True
    then have "2 powi k \<le> \<bar>x\<bar> \<longleftrightarrow> (of_int (2 ^ nat k * d) :: rat) \<le> of_int \<bar>n\<bar>"
      using d unfolding x by (simp add: power_int_def field_simps)
    then show ?thesis using True by (simp only: of_int_le_iff if_True)
  next
    case False
    then have "2 powi k \<le> \<bar>x\<bar> \<longleftrightarrow> (of_int d :: rat) \<le> of_int (\<bar>n\<bar> * 2 ^ nat (- k))"
      using d unfolding x by (simp add: power_int_def field_simps)
    then show ?thesis using False by (simp only: of_int_le_iff if_False)
  qed
  then show ?thesis by (simp add: rat_exponent_def exponent_pair_def q Let_def pow2_power)
qed

lemma overflow_iff:
  assumes "r \<noteq> 0" and "0 \<le> emax"
  shows "emax \<le> rat_exponent r \<longleftrightarrow> 2 ^ nat emax \<le> \<bar>r\<bar>"
proof -
  have "emax \<le> rat_exponent r \<longleftrightarrow> 2 powi emax \<le> \<bar>r\<bar>"
  proof
    assume "emax \<le> rat_exponent r"
    then have "(2::rat) powi emax \<le> 2 powi rat_exponent r" by (intro power_int_increasing) auto
    then show "2 powi emax \<le> \<bar>r\<bar>" using rat_exponent_bounds(1) [OF assms(1)] by simp
  next
    assume le: "2 powi emax \<le> \<bar>r\<bar>"
    show "emax \<le> rat_exponent r"
    proof (rule ccontr)
      assume "\<not> emax \<le> rat_exponent r"
      then have "(2::rat) powi (rat_exponent r + 1) \<le> 2 powi emax" by (intro power_int_increasing) auto
      with le rat_exponent_bounds(2) [OF assms(1)] show False by simp
    qed
  qed
  then show ?thesis using assms(2) by (simp add: power_int_def)
qed

lemma round_pair:
  assumes "quotient_of x = (n, d)" and "0 \<le> emax"
  shows "overflow_to emax (round_rat p emin x) = round_pair p emin emax n d"
proof (cases "n = 0")
  case True
  then have "x = 0" using quotient_of_div [OF assms(1)] by simp
  then show ?thesis using True by (simp add: round_rat_def overflow_to_def round_pair_def)
next
  case False
  have d: "0 < d" using assms(1) by (rule quotient_of_denom_pos)
  have x: "x = of_int n / of_int d" using assms(1) by (rule quotient_of_div)
  then have x0: "x \<noteq> 0" using False d by simp
  define e where "e = max (exponent_pair \<bar>n\<bar> d - int p + 1) emin"
  define c :: int where "c = 2 ^ nat (- e)"
  have c: "0 < c" by (simp add: c_def)
  define m where "m = (if 0 \<le> e then rne_div n (d * 2 ^ nat e) * 2 ^ nat e else rne_div (n * c) d)"
  have r: "round_rat p emin x = (if 0 \<le> e then of_int m else of_int m / of_int c)"
  proof (cases "0 \<le> e")
    case True
    have "x / 2 powi e = of_int n / of_int (d * 2 ^ nat e)" using True by (simp add: x power_int_def)
    moreover have "0 < d * 2 ^ nat e" using d by simp
    ultimately have "rne (x / 2 powi e) = rne_div n (d * 2 ^ nat e)" by (simp only: rne_div)
    then show ?thesis using True x0
      by (simp add: round_rat_def exponent_pair [OF assms(1)] e_def [symmetric] Let_def m_def) (simp add: power_int_def)
  next
    case False
    have "x / 2 powi e = of_int (n * c) / of_int d" using False by (simp add: x power_int_def c_def field_simps)
    then have "rne (x / 2 powi e) = rne_div (n * c) d" using d by (simp only: rne_div)
    then show ?thesis using False x0
      by (simp add: round_rat_def exponent_pair [OF assms(1)] e_def [symmetric] Let_def m_def)
         (simp add: power_int_def c_def field_simps)
  qed
  have big: "round_rat p emin x \<noteq> 0 \<and> emax \<le> rat_exponent (round_rat p emin x) \<longleftrightarrow>
      (if 0 \<le> e then emax < bitlen \<bar>m\<bar> else emax - e < bitlen \<bar>m\<bar>)"
  proof (cases "m = 0")
    case True
    then show ?thesis using assms(2) by (simp add: r)
  next
    case False
    have "(2 ^ nat emax \<le> \<bar>of_int m :: rat\<bar>) = (2 ^ nat emax \<le> \<bar>m\<bar>)"
      "(2 ^ nat emax \<le> \<bar>of_int m / of_int c :: rat\<bar>) = (2 ^ nat emax * c \<le> \<bar>m\<bar>)"
    proof -
      have "(2 ^ nat emax \<le> \<bar>of_int m :: rat\<bar>) = ((of_int (2 ^ nat emax) :: rat) \<le> of_int \<bar>m\<bar>)" by simp
      then show "(2 ^ nat emax \<le> \<bar>of_int m :: rat\<bar>) = (2 ^ nat emax \<le> \<bar>m\<bar>)" by (simp only: of_int_le_iff)
      have "(2 ^ nat emax \<le> \<bar>of_int m / of_int c :: rat\<bar>) = ((of_int (2 ^ nat emax * c) :: rat) \<le> of_int \<bar>m\<bar>)"
        using c by (simp add: abs_divide field_simps)
      then show "(2 ^ nat emax \<le> \<bar>of_int m / of_int c :: rat\<bar>) = (2 ^ nat emax * c \<le> \<bar>m\<bar>)" by (simp only: of_int_le_iff)
    qed
    moreover have "2 ^ nat emax \<le> \<bar>m\<bar> \<longleftrightarrow> emax < bitlen \<bar>m\<bar>"
      using bitlen_ge_iff_power [of "emax + 1" "\<bar>m\<bar>"] assms(2) by (auto simp: nat_add_distrib)
    moreover have "2 ^ nat emax * c \<le> \<bar>m\<bar> \<longleftrightarrow> emax - e < bitlen \<bar>m\<bar>" if "\<not> 0 \<le> e"
    proof -
      have "2 ^ nat emax * c = 2 ^ nat (emax - e)"
        using that assms(2) by (simp add: c_def nat_diff_distrib' flip: power_add)
      then show ?thesis using bitlen_ge_iff_power [of "emax - e + 1" "\<bar>m\<bar>"] that assms(2) by (auto simp: nat_add_distrib)
    qed
    ultimately show ?thesis using False c overflow_iff [OF _ assms(2)] by (simp add: r)
  qed
  have sign: "0 < round_rat p emin x \<longleftrightarrow> 0 < m" using c by (simp add: r zero_less_divide_iff)
  have fraction: "(of_int m / of_int c :: rat) =
      (if gcd m c = c then of_int (m div c) else of_int (m div gcd m c) / of_int (c div gcd m c))"
  proof (cases "gcd m c = c")
    case True
    then have "c dvd m" by (metis gcd_dvd1)
    then show ?thesis using True c by (auto simp: dvd_def)
  next
    case False
    define g where "g = gcd m c"
    obtain m' c' where mc: "m = g * m'" "c = g * c'" unfolding g_def by (metis gcd_dvd1 gcd_dvd2 dvd_def)
    have g: "g \<noteq> 0" using c mc(2) by auto
    have "(of_int m / of_int c :: rat) = of_int m' / of_int c'" using g by (simp add: mc)
    also have "\<dots> = of_int (m div g) / of_int (c div g)" using g by (simp add: mc)
    finally have "(of_int m / of_int c :: rat) = of_int (m div gcd m c) / of_int (c div gcd m c)" unfolding g_def .
    then show ?thesis using False by simp
  qed
  note n0 = False
  note defs = overflow_to_def round_pair_def pow2_power [symmetric] e_def [symmetric] Let_def c_def [symmetric]
  show ?thesis
  proof (cases "0 \<le> e")
    case True
    then show ?thesis using n0 unfolding defs by (simp only: big sign if_False if_True) (simp add: r m_def)
  next
    case False
    then have m: "rne_div (n * c) d = m" by (simp add: m_def)
    show ?thesis using n0 False unfolding defs m by (simp only: big sign if_False if_True) (simp add: r fraction)
  qed
qed

text \<open>Small integers are exact.\<close>

lemma round_small_int:
  assumes "\<bar>n\<bar> \<le> 2 ^ p" and "0 < p" and "emin \<le> 0" and "int p < emax"
  shows "overflow_to emax (round_rat p emin (of_int n)) = Fin (of_int n)"
proof -
  have "round_rat p emin (of_int n) = of_int n"
    using dyadic_int [OF assms(1,3)] assms(2) by (rule round_rat_exact)
  moreover have "rat_exponent (of_int n) < emax" if "n \<noteq> 0"
  proof (rule rat_exponent_less)
    have "(of_int \<bar>n\<bar> :: rat) \<le> of_int (2 ^ p)" using assms(1) by (simp only: of_int_le_iff)
    also have "\<dots> = 2 powi int p" by simp
    also have "\<dots> < 2 powi emax" using assms(4) by (intro power_int_strict_increasing) auto
    finally show "\<bar>of_int n :: rat\<bar> < 2 powi emax" by simp
  qed (use that in simp)
  ultimately show ?thesis by (auto simp: overflow_to_def)
qed

lemma round_code [code]:
  "rnd64 x = (case quotient_of x of (n, d) \<Rightarrow>
     if d = 1 \<and> \<bar>n\<bar> \<le> 9007199254740992 then Fin (of_int n) else round_pair 53 (-1074) 1024 n d)"
  "rnd32 x = (case quotient_of x of (n, d) \<Rightarrow>
     if d = 1 \<and> \<bar>n\<bar> \<le> 16777216 then Fin (of_int n) else round_pair 24 (-149) 128 n d)"
proof -
  obtain n d where q: "quotient_of x = (n, d)" by (cases "quotient_of x")
  then have x: "x = of_int n / of_int d" by (rule quotient_of_div)
  show "rnd64 x = (case quotient_of x of (n, d) \<Rightarrow>
     if d = 1 \<and> \<bar>n\<bar> \<le> 9007199254740992 then Fin (of_int n) else round_pair 53 (-1074) 1024 n d)"
  proof (cases "d = 1 \<and> \<bar>n\<bar> \<le> 9007199254740992")
    case True
    then show ?thesis using round_small_int [of n 53 "-1074" 1024] by (simp add: q rnd64_def) (simp add: x)
  qed (auto simp: q rnd64_def round_pair [OF q])
  show "rnd32 x = (case quotient_of x of (n, d) \<Rightarrow>
     if d = 1 \<and> \<bar>n\<bar> \<le> 16777216 then Fin (of_int n) else round_pair 24 (-149) 128 n d)"
  proof (cases "d = 1 \<and> \<bar>n\<bar> \<le> 16777216")
    case True
    then show ?thesis using round_small_int [of n 24 "-149" 128] by (simp add: q rnd32_def) (simp add: x)
  qed (auto simp: q rnd32_def round_pair [OF q])
qed

end
