(* ===== verification/CopyReload.thy ===== *)
theory CopyReload
  imports CopyDataset Evaluation
begin

text \<open>
  What a finished \<open>COPY\<close> has written, and that the reader accepts it: the rows of all data files are the
  reference frames of the input, and the routes that \<open>load_routes\<close> builds from the written episode metadata
  lead every episode to the data file that holds exactly its frames.
\<close>

section \<open>The files of a finished dataset\<close>

lemma WriteTasks_Inr:
  assumes "WriteTasks w = Inr w'" and "w_tasks_file w = new_parquet"
  shows "w' = w\<lparr>w_tasks_file := w_tasks_file w'\<rparr>"
    and "pq_files (w_tasks_file w') = (if w_tasks w = [] then []
      else [(''meta/tasks.parquet'', map (\<lambda>(i, task). (int i, task)) (enumerate 0 (w_tasks w)))])"
proof -
  have rows: "mapE (\<lambda>(i, task). bindE (NumericCast i) (\<lambda>i. Inr (i, task))) xs = Inr ys \<Longrightarrow>
      ys = map (\<lambda>(i, task). (int i, task)) xs" for xs :: "(nat \<times> string) list" and ys
    unfolding mapE_Inr_iff by (induction xs arbitrary: ys) (auto simp: list_all2_Cons1 NumericCast_Inr)
  show "w' = w\<lparr>w_tasks_file := w_tasks_file w'\<rparr>"
    using assms by (auto simp: WriteTasks_def split: if_splits)
  show "pq_files (w_tasks_file w') = (if w_tasks w = [] then []
      else [(''meta/tasks.parquet'', map (\<lambda>(i, task). (int i, task)) (enumerate 0 (w_tasks w)))])"
    using assms by (auto simp: WriteTasks_def pq_Open_def pq_Flush_def pq_Close_def new_parquet_def dest!: rows split: if_splits)
qed

definition files_written :: "'v copy_host \<Rightarrow> copy_bind \<Rightarrow> 'v input_row list \<Rightarrow> 'v writer \<Rightarrow> bool" where
  "files_written h b rows w \<longleftrightarrow>
     (let cs = chunks_size (bd_config b); data = pq_files (w_data w); episodes = pq_files (w_episodes w)
      in log_of data = ref_frames h b rows \<and> numbered DataRelativePath cs data \<and>
         numbered EpisodesRelativePath cs episodes \<and>
         (\<forall>k < length episodes. \<forall>row \<in> set (snd (episodes ! k)). points_to (file_at cs k) row) \<and>
         w_total_frames w = length rows \<and> length (log_of episodes) = w_total_episodes w \<and>
         (\<forall>e < w_total_episodes w. entry_ok b rows data e (log_of episodes ! e)) \<and>
         (\<forall>r \<in> set rows. \<exists>e < w_total_episodes w. episode_of b r = Some (int e)) \<and>
         sorted (map (\<lambda>r. the (episode_of b r)) rows) \<and>
         pq_files (w_tasks_file w) = (if rows = [] then []
           else [(''meta/tasks.parquet'', map (\<lambda>(i, task). (int i, task)) (enumerate 0 (first_seen (map (task_of b) rows))))]))"

lemma pq_files_Close [simp]: "pq_files (pq_Close p) = pq_all p"
  by (simp add: pq_Close_def pq_all_def split: option.splits)

lemma first_seen_empty_iff [simp]: "first_seen xs = [] \<longleftrightarrow> xs = []"
  using set_first_seen [of xs] by (metis set_empty)

lemma Finalize_files_written:
  assumes "Finalize h b interrupted w = Inr ds" and "writer_inv h b rows w"
  shows "files_written h b rows (ds_writer ds)"
proof -
  let ?cs = "chunks_size (bd_config b)"
  from assms(1) obtain w1 w2 w3 w4 where 1: "FinishEpisode h b w = Inr w1" and 2: "MaterializeVideoShards h b w1 = Inr w2" and
    3: "FlushMetadataBuffer w2 = Inr w3" and
    4: "WriteTasks (w3\<lparr>w_data := pq_Close (w_data w3), w_episodes := pq_Close (w_episodes w3)\<rparr>) = Inr w4" and
    ds: "ds_writer ds = w4"
    by (auto simp: Finalize_def Let_def split: if_splits)
  have "writer_inv h b rows w1 \<and> \<not> w_has_current_episode w1"
  proof (cases "w_has_current_episode w")
    case True
    with 1 assms(2) show ?thesis by (rule writer_inv_finish)
  next
    case False
    then show ?thesis using 1 assms(2) by (simp add: FinishEpisode_def)
  qed
  note inv = conjunct1 [OF this, unfolded writer_inv_def] conjunct2 [OF this]
  have len: "length rows = w_total_frames w1" using inv by simp
  obtain en sh ro vf where w2: "w2 = w1\<lparr>w_encoded := en, w_shards := sh, w_routes := ro, w_video_files := vf\<rparr>"
    using MaterializeVideoShards_only [OF 2] unfolding videos_only_def by blast
  have l2: "located ?cs w2" "ep_rows w2 = ep_rows w1" using inv unfolding w2 by (simp_all add: located_def ep_rows_def)
  note fl = FlushMetadataBuffer_Inr [OF 3 l2(1)]
  obtain we mb mi where w3: "w3 = w2\<lparr>w_episodes := we, w_metadata_buffer := mb, w_metadata_index := mi\<rparr>"
    using fl unfolding episodes_only_def by blast
  have "w_tasks_file (w3\<lparr>w_data := pq_Close (w_data w3), w_episodes := pq_Close (w_episodes w3)\<rparr>) = new_parquet"
    using inv unfolding w3 w2 by simp
  note tasks = WriteTasks_Inr [OF 4 this]
  have data: "pq_files (w_data w4) = pq_all (w_data w1)" by (subst tasks(1)) (simp add: w3 w2)
  have episodes: "pq_files (w_episodes w4) = pq_all (w_episodes w3)" by (subst tasks(1)) simp
  have "log_of (pq_all (w_episodes w3)) = ep_rows w3" using fl by (simp add: ep_rows_def [of w3])
  then have log: "log_of (pq_files (w_episodes w4)) = ep_rows w1" using fl l2(2) unfolding episodes by simp
  have totals: "w_total_frames w4 = w_total_frames w1" "w_total_episodes w4 = w_total_episodes w1"
    by (subst tasks(1), simp add: w3 w2)+
  have "pq_files (w_tasks_file w4) = (if rows = [] then []
      else [(''meta/tasks.parquet'', map (\<lambda>(i, task). (int i, task)) (enumerate 0 (first_seen (map (task_of b) rows))))])"
    using tasks(2) inv unfolding w3 w2 by simp
  moreover have "log_of (pq_files (w_data w4)) = ref_frames h b rows"
    using inv len unfolding data by simp
  moreover have "numbered EpisodesRelativePath ?cs (pq_files (w_episodes w4))"
    "\<forall>k < length (pq_files (w_episodes w4)). \<forall>row \<in> set (snd (pq_files (w_episodes w4) ! k)). points_to (file_at ?cs k) row"
    using fl unfolding episodes by (simp_all add: located_def shelf_def)
  ultimately show ?thesis
    using inv len unfolding files_written_def ds Let_def log totals data by (simp add: shelf_def)
qed

lemma LerobotCopy_files_written:
  assumes "LerobotCopy h fs root_path b interrupted chunks = Inr (root_p, ds)" and "bind_ok b"
  shows "files_written h b (concat chunks) (ds_writer ds)"
proof -
  from assms(1) obtain w where 1: "foldE (Process h b) chunks (new_writer b) = Inr w" and 2: "Finalize h b interrupted w = Inr ds"
    by (auto simp: LerobotCopy_def InitializeGlobal_def Let_def split: if_splits)
  have "writer_inv h b (concat chunks) w" using Process_chunks_inv [OF 1 writer_inv_new assms(2)] by simp
  with 2 show ?thesis by (rule Finalize_files_written)
qed

section \<open>Reading columns by name\<close>

text \<open>The reader's queries select columns of the Parquet files by their names.\<close>

definition int_value :: "evalue option \<Rightarrow> int option" where
  "int_value v = (case v of Some (EInt i) \<Rightarrow> Some i | _ \<Rightarrow> None)"

definition episode_value :: "copy_bind \<Rightarrow> string \<Rightarrow> evalue list \<Rightarrow> evalue option" where
  "episode_value b name row = map_of (zip (map fst (bd_episode b)) row) name"

definition episode_row_of :: "copy_bind \<Rightarrow> evalue list \<Rightarrow> episode_row" where
  "episode_row_of b row =
     \<lparr>er_index = int_value (episode_value b ''episode_index'' row), er_length = int_value (episode_value b ''length'' row),
      er_chunk = int_value (episode_value b ''data/chunk_index'' row),
      er_file = int_value (episode_value b ''data/file_index'' row)\<rparr>"

definition frame_episode :: "copy_bind \<Rightarrow> 'v data_row \<Rightarrow> int option" where
  "frame_episode b row =
     (case map_of (zip (map fst (bd_data b)) row) ''episode_index'' of Some (OBigint e) \<Rightarrow> Some e | _ \<Rightarrow> None)"

lemma LerobotCopyBind_episode:
  assumes "LerobotCopyBind c log_d threads lower max_array query options names types = Inr b"
  shows "\<exists>rest. bd_episode b = episode_base_columns @ rest"
proof -
  obtain cols where cols: "foldE AppendStatColumns (bd_features b)
      (foldl (\<lambda>columns f. AppendVideoColumns f columns) episode_base_columns (bd_features b)) = Inr cols"
    and b: "bd_episode b = cols @ [(''meta/episodes/chunk_index'', BIGINT), (''meta/episodes/file_index'', BIGINT)]"
    by (rule LerobotCopyBind_Inr [OF assms]) blast
  have video: "\<exists>rest. foldl (\<lambda>columns f. AppendVideoColumns f columns) start fs = start @ rest" for start fs
  proof (induction fs rule: rev_induct)
    case (snoc f fs)
    then show ?case by (auto simp: AppendVideoColumns_def Let_def)
  qed simp
  have "\<exists>rest. cols = episode_base_columns @ rest"
    using cols
  proof (rule foldE_invariant [where P = "\<lambda>columns. \<exists>rest. columns = episode_base_columns @ rest"])
    show "\<exists>rest. foldl (\<lambda>columns f. AppendVideoColumns f columns) episode_base_columns (bd_features b) =
        episode_base_columns @ rest" by (rule video)
    fix f s s'
    assume "\<exists>rest. s = episode_base_columns @ rest" and "AppendStatColumns f s = Inr s'"
    then show "\<exists>rest. s' = episode_base_columns @ rest" by (auto simp: AppendStatColumns_def Let_def split: if_splits)
  qed
  then show ?thesis unfolding b by auto
qed

lemma episode_row_of_entry:
  assumes "bd_episode b = episode_base_columns @ columns"
  shows "episode_row_of b (base_values e tasks index from_i to_i @ rest) =
    \<lparr>er_index = Some e, er_length = Some (int (to_i - from_i)), er_chunk = Some (int (fst index)),
     er_file = Some (int (snd index))\<rparr>"
  by (simp add: episode_row_of_def episode_value_def assms episode_base_columns_def base_values_def int_value_def)

lemma frame_episode_row:
  assumes "bind_ok b"
  shows "frame_episode b (frame_row h b e j k t cells) = Some e"
proof -
  have "''episode_index'' \<in> set (map cf_name (filter (Not \<circ> user_defined) (bd_features b)))"
    using assms unfolding bind_ok_def by simp
  then obtain f where f: "f \<in> set (bd_features b)" "\<not> user_defined f" "cf_name f = ''episode_index''" by auto
  then have v: "\<not> is_visual f" using assms by (simp add: bind_ok_def)
  then have stored: "f \<in> set (stored b)" using f by (simp add: stored_iff is_visual_def)
  have "distinct (map cf_name (stored b))" using assms unfolding bind_ok_def stored_def by (simp add: distinct_map_filter)
  then have "map_of (map (\<lambda>f. (cf_name f, frame_cell h b e j k t cells f)) (stored b)) (cf_name f) =
      Some (frame_cell h b e j k t cells f)"
    using stored by (intro map_of_is_SomeI) (simp_all add: comp_def)
  moreover have "zip (map fst (bd_data b)) (frame_row h b e j k t cells) =
      map (\<lambda>f. (cf_name f, frame_cell h b e j k t cells f)) (stored b)"
    using assms by (simp add: bind_ok_def frame_row_def comp_def zip_map_map zip_same_conv_map)
  moreover have "frame_cell h b e j k t cells f = OBigint e"
    using f(2,3) v by (simp add: frame_cell_def is_visual_def Let_def)
  ultimately show ?thesis unfolding frame_episode_def f(3) by simp
qed

section \<open>The frames of an episode\<close>

lemma sorted_filter_less:
  fixes e :: int
  assumes "sorted xs" and "i < length xs"
  shows "xs ! i < e \<longleftrightarrow> i < length (filter (\<lambda>x. x < e) xs)"
  using assms
proof (induction xs arbitrary: i)
  case (Cons x xs)
  show ?case
  proof (cases "x < e")
    case True
    then show ?thesis using Cons by (cases i) simp_all
  next
    case False
    then have "\<forall>y \<in> set (x # xs). \<not> y < e" using Cons.prems(1) by auto
    then have "filter (\<lambda>x. x < e) (x # xs) = []" by (simp add: filter_empty_conv)
    moreover have "\<not> (x # xs) ! i < e" using \<open>\<forall>y \<in> set (x # xs). \<not> y < e\<close> Cons.prems(2) nth_mem by blast
    ultimately show ?thesis by simp
  qed
qed simp

lemma before_position:
  assumes "sorted (map (\<lambda>r. the (episode_of b r)) rows)" and "\<forall>r \<in> set rows. episode_of b r \<noteq> None"
    and "i < length rows"
  shows "the (episode_of b (rows ! i)) < e \<longleftrightarrow> i < before b e rows"
proof -
  have "filter (\<lambda>r. case episode_of b r of None \<Rightarrow> False | Some i \<Rightarrow> i < e) rows =
      filter (\<lambda>r. the (episode_of b r) < e) rows"
    using assms(2) by (intro filter_cong) auto
  then have "before b e rows = length (filter (\<lambda>x. x < e) (map (\<lambda>r. the (episode_of b r)) rows))"
    by (simp add: before_def filter_map comp_def)
  with sorted_filter_less [OF assms(1), of i e] assms(3) show ?thesis by simp
qed

lemma filter_between:
  assumes "\<And>i. i < length xs \<Longrightarrow> P (xs ! i) \<longleftrightarrow> l \<le> i \<and> i < u" and "xs = as @ bs @ cs"
    and "length as \<le> l" and "u \<le> length as + length bs"
  shows "filter P bs = filter P xs"
proof -
  have "\<not> P (as ! i)" if "i < length as" for i
    using assms(1) [of i] that assms(2,3) by (simp add: nth_append)
  then have "filter P as = []" by (auto simp: filter_empty_conv in_set_conv_nth)
  moreover have "\<not> P (cs ! i)" if "i < length cs" for i
    using assms(1) [of "length as + length bs + i"] that assms(2,4) by (simp add: nth_append)
  then have "filter P cs = []" by (auto simp: filter_empty_conv in_set_conv_nth)
  ultimately show ?thesis by (simp add: assms(2))
qed

lemma file_slice:
  assumes "k < length files"
  shows "log_of files = log_of (take k files) @ snd (files ! k) @ log_of (drop (Suc k) files)"
    and "start files (Suc k) = start files k + length (snd (files ! k))"
proof -
  have "files = take k files @ [files ! k] @ drop (Suc k) files" using assms by (simp add: id_take_nth_drop)
  then have "log_of files = log_of (take k files @ [files ! k] @ drop (Suc k) files)" by simp
  then show "log_of files = log_of (take k files) @ snd (files ! k) @ log_of (drop (Suc k) files)"
    by (cases "files ! k") (simp only: log_of_simps snd_conv)
  show "start files (Suc k) = start files k + length (snd (files ! k))"
    using assms by (simp add: start_def take_Suc_conv_app_nth log_of_def)
qed

text \<open>The file an entry names holds the frames of its episode and no other frames of it.\<close>

lemma entry_frames:
  assumes w: "files_written h b rows w" and b: "bind_ok b" and e: "e < w_total_episodes w"
  obtains k rest where "k < length (pq_files (w_data w))"
    "log_of (pq_files (w_episodes w)) ! e = base_values (int e) (episode_tasks b (int e) rows)
       (file_at (chunks_size (bd_config b)) k) (before b (int e) rows) (before b (int e + 1) rows) @ rest"
    "before b (int e) rows < before b (int e + 1) rows" "int (before b (int e + 1) rows) \<le> INT64_MAX"
    "filter (\<lambda>r. frame_episode b r = Some (int e)) (snd (pq_files (w_data w) ! k)) =
       filter (\<lambda>r. frame_episode b r = Some (int e)) (ref_frames h b rows)"
    "length (filter (\<lambda>r. frame_episode b r = Some (int e)) (ref_frames h b rows)) =
       before b (int e + 1) rows - before b (int e) rows"
proof -
  let ?from = "before b (int e) rows" and ?to = "before b (int e + 1) rows"
  let ?files = "pq_files (w_data w)" and ?P = "\<lambda>r. frame_episode b r = Some (int e)"
  note written = w [unfolded files_written_def Let_def]
  have "entry_ok b rows ?files e (log_of (pq_files (w_episodes w)) ! e)" using written e by blast
  then obtain k rest where k: "?from < ?to" "int ?to \<le> INT64_MAX" "k < length ?files" "start ?files k \<le> ?from" "?to \<le> start ?files (Suc k)"
    "log_of (pq_files (w_episodes w)) ! e = base_values (int e) (episode_tasks b (int e) rows)
       (file_at (chunks_size (bd_config b)) k) ?from ?to @ rest"
    unfolding entry_ok_def Let_def by blast
  have all: "\<forall>r \<in> set rows. episode_of b r \<noteq> None" and sorted: "sorted (map (\<lambda>r. the (episode_of b r)) rows)"
    using written by fastforce+
  have P: "?P (ref_frames h b rows ! i) \<longleftrightarrow> ?from \<le> i \<and> i < ?to" if "i < length rows" for i
  proof -
    have "?P (ref_frames h b rows ! i) \<longleftrightarrow> the (episode_of b (rows ! i)) = int e"
      using that by (simp add: ref_frames_def ref_frame_def frame_episode_row [OF b])
    also have "\<dots> \<longleftrightarrow> \<not> the (episode_of b (rows ! i)) < int e \<and> the (episode_of b (rows ! i)) < int e + 1" by auto
    also have "\<dots> \<longleftrightarrow> ?from \<le> i \<and> i < ?to" unfolding before_position [OF sorted all that] by auto
    finally show ?thesis .
  qed
  have log: "ref_frames h b rows = log_of (take k ?files) @ snd (?files ! k) @ log_of (drop (Suc k) ?files)"
    using written file_slice(1) [OF k(3)] by simp
  have from_start: "length (log_of (take k ?files)) \<le> ?from" using k(4) by (simp add: start_def)
  have to_end: "?to \<le> length (log_of (take k ?files)) + length (snd (?files ! k))"
    using k(5) unfolding file_slice(2) [OF k(3)] by (simp add: start_def)
  have P': "?P (ref_frames h b rows ! i) \<longleftrightarrow> ?from \<le> i \<and> i < ?to" if "i < length (ref_frames h b rows)" for i
    using that by (intro P) simp
  have "filter ?P (snd (?files ! k)) = filter ?P (ref_frames h b rows)"
    by (rule filter_between [OF P' log from_start to_end])
  moreover have "length (filter ?P (ref_frames h b rows)) = ?to - ?from"
  proof -
    have "?to \<le> length rows" by (simp add: before_def)
    then have "{i. i < length rows \<and> ?P (ref_frames h b rows ! i)} = {?from ..< ?to}" using P by auto
    then show ?thesis unfolding length_filter_conv_card by simp
  qed
  ultimately show thesis using k by (intro that) simp_all
qed

section \<open>Loading the written metadata\<close>

lemma load_rows_accept:
  assumes "storage_format info \<noteq> ''lance''"
    and "\<And>row. row \<in> set rows \<Longrightarrow> \<exists>i l c f p. er_index row = Some i \<and> er_length row = Some l \<and> er_chunk row = Some c \<and>
      er_file row = Some f \<and> 0 \<le> i \<and> 0 < l \<and> ResolveDataPath lower root_p (data_path_template info) c f = Inr p"
  shows "\<exists>acc'. foldE (load_episode_row lower root_p info) rows acc = Inr acc'"
  using assms(2)
proof (induction rows arbitrary: acc)
  case (Cons row rows)
  from Cons.prems [of row] obtain i l c f p where "er_index row = Some i" "er_length row = Some l" "er_chunk row = Some c"
    "er_file row = Some f" "0 \<le> i" "0 < l" "ResolveDataPath lower root_p (data_path_template info) c f = Inr p" by auto
  then have "\<exists>acc'. load_episode_row lower root_p info row acc = Inr acc'"
    using assms(1) by (cases acc) (auto simp: load_episode_row_def require_def Let_def case_prod_beta)
  with Cons show ?case by (auto split: sum.splits)
qed simp

lemma sum_lengths_accept:
  assumes "list_all (\<lambda>r. 0 < episode_length r) rs" and "n + sum_list (map episode_length rs) \<le> INT64_MAX"
  shows "sum_lengths n rs = Inr (n + sum_list (map episode_length rs))"
  using assms
proof (induction rs arbitrary: n)
  case (Cons r rs)
  have "0 \<le> sum_list (map episode_length rs)" using Cons.prems(1) by (intro sum_list_nonneg) (auto simp: list_all_iff)
  then show ?case using Cons.IH [of "n + episode_length r"] Cons.prems by (auto simp: algebra_simps)
qed simp

lemma map_int_upt_distinct: "sorted (map int [0 ..< n])" "distinct (map int [0 ..< n])"
  by (simp_all add: sorted_iff_nth_mono distinct_map)

lemma telescope: "sum_list (map (\<lambda>e. f (Suc e) - f e) [0 ..< n]) = f n - (f 0 :: int)"
  by (induction n) simp_all

lemma sort_key_id: "sorted (map f xs) \<Longrightarrow> sort_key f xs = xs"
  by (induction xs) (auto simp: insort_is_Cons)

lemma written_routes:
  assumes w: "files_written h b rows w" and b: "bind_ok b" and names: "bd_episode b = episode_base_columns @ columns"
    and lower: "lower_keeps_plain lower"
    and info: "storage_format info = ''lerobot''" "data_path_template info = LEROBOT_DATA_PATH"
      "total_episodes info = int (w_total_episodes w)" "total_frames info = int (w_total_frames w)"
  obtains routes files where
    "load_routes lower root_p info (map (episode_row_of b) (log_of (pq_files (w_episodes w)))) = Inr (routes, files)"
    "map episode_index routes = map int [0 ..< w_total_episodes w]"
    "\<forall>e < w_total_episodes w. \<exists>k < length (pq_files (w_data w)).
       files ! data_file_index (routes ! e) = root_p @ ''/'' @ fst (pq_files (w_data w) ! k) \<and>
       filter (\<lambda>r. frame_episode b r = Some (int e)) (snd (pq_files (w_data w) ! k)) =
         filter (\<lambda>r. frame_episode b r = Some (int e)) (ref_frames h b rows) \<and>
       episode_length (routes ! e) = int (length (filter (\<lambda>r. frame_episode b r = Some (int e)) (ref_frames h b rows)))"
proof -
  let ?n = "w_total_episodes w" and ?cs = "chunks_size (bd_config b)" and ?log = "log_of (pq_files (w_episodes w))"
  let ?er = "map (episode_row_of b) ?log"
  note written = w [unfolded files_written_def Let_def]
  have len: "length ?er = ?n" using written by simp
  have nolance: "storage_format info \<noteq> ''lance''" using info(1) by simp
  have path: "ResolveDataPath lower root_p (data_path_template info) (int (fst (file_at ?cs k))) (int (snd (file_at ?cs k))) =
      Inr (root_p @ ''/'' @ fst (pq_files (w_data w) ! k))" if "k < length (pq_files (w_data w))" for k
    using written that unfolding info(2) resolve_data_path [OF lower] by (simp add: numbered_def)
  have row: "\<exists>k < length (pq_files (w_data w)).
      ?er ! e = \<lparr>er_index = Some (int e), er_length = Some (int (before b (int e + 1) rows - before b (int e) rows)),
         er_chunk = Some (int (fst (file_at ?cs k))), er_file = Some (int (snd (file_at ?cs k)))\<rparr> \<and>
      before b (int e) rows < before b (int e + 1) rows \<and> int (before b (int e + 1) rows) \<le> INT64_MAX \<and>
      filter (\<lambda>r. frame_episode b r = Some (int e)) (snd (pq_files (w_data w) ! k)) =
        filter (\<lambda>r. frame_episode b r = Some (int e)) (ref_frames h b rows) \<and>
      length (filter (\<lambda>r. frame_episode b r = Some (int e)) (ref_frames h b rows)) =
        before b (int e + 1) rows - before b (int e) rows" if "e < ?n" for e
    by (rule entry_frames [OF w b that]) (use len that in \<open>auto simp: episode_row_of_entry [OF names]\<close>)
  have "\<exists>acc'. foldE (load_episode_row lower root_p info) ?er ([], []) = Inr acc'"
  proof (rule load_rows_accept [OF nolance])
    fix r
    assume "r \<in> set ?er"
    then obtain e where e: "e < ?n" "r = ?er ! e" using len by (metis in_set_conv_nth)
    from row [OF e(1)] show "\<exists>i l c f p. er_index r = Some i \<and> er_length r = Some l \<and> er_chunk r = Some c \<and>
      er_file r = Some f \<and> 0 \<le> i \<and> 0 < l \<and> ResolveDataPath lower root_p (data_path_template info) c f = Inr p"
      using path unfolding e(2) by fastforce
  qed
  then obtain routes files where f: "foldE (load_episode_row lower root_p info) ?er ([], []) = Inr (routes, files)" by auto
  then have rel: "list_all2 (row_route lower root_p info files) ?er routes"
    using load_rows [OF f] nolance by simp
  then have rl: "length routes = ?n" using len by (auto dest: list_all2_lengthD)
  have route: "row_route lower root_p info files (?er ! e) (routes ! e)" if "e < ?n" for e
    using rel that len by (simp add: list_all2_conv_all_nth)
  have index: "map episode_index routes = map int [0 ..< ?n]"
  proof (rule nth_equalityI)
    fix e
    assume "e < length (map episode_index routes)"
    then have "e < ?n" using rl by simp
    from route [OF this] row [OF this] show "map episode_index routes ! e = map int [0 ..< ?n] ! e"
      using \<open>e < ?n\<close> rl by (auto simp: row_route_def)
  qed (simp add: rl)
  have lengths: "map episode_length routes = map (\<lambda>e. int (before b (int (Suc e)) rows) - int (before b (int e) rows)) [0 ..< ?n]"
  proof (rule nth_equalityI)
    fix e
    assume "e < length (map episode_length routes)"
    then have "e < ?n" using rl by simp
    from route [OF this] row [OF this] show "map episode_length routes ! e =
        map (\<lambda>e. int (before b (int (Suc e)) rows) - int (before b (int e) rows)) [0 ..< ?n] ! e"
      using \<open>e < ?n\<close> rl by (auto simp: row_route_def of_nat_diff add.commute)
  qed (simp add: rl)
  have rows_n: "\<forall>r \<in> set rows. \<exists>e < ?n. episode_of b r = Some (int e)" using written by blast
  have all: "before b (int ?n) rows = length rows"
    unfolding before_def using rows_n by (auto simp: filter_id_conv [THEN iffD2] intro!: arg_cong [where f = length] filter_True)
  have none: "before b (int 0) rows = 0"
    using rows_n by (auto simp: before_def filter_empty_conv)
  have sum_all: "sum_list (map episode_length routes) = total_frames info"
    unfolding lengths telescope [where f = "\<lambda>e. int (before b (int e) rows)"] all none using info(4) written by simp
  have bound: "total_frames info \<le> INT64_MAX"
  proof (cases ?n)
    case 0
    then show ?thesis using rows_n info(4) written by (cases rows) (auto simp: INT64_MAX_def)
  next
    case (Suc m)
    then show ?thesis using row [of m] all info(4) written by (auto simp: add.commute)
  qed
  have pos: "list_all (\<lambda>r. 0 < episode_length r) routes"
    using row_route_sets(2) [OF rel] by (auto simp: list_all_iff row_route_def)
  have "distinct (map episode_index routes)" "sorted (map episode_index routes)"
    unfolding index by (rule map_int_upt_distinct)+
  then have "\<not> has_adjacent (\<lambda>a b. episode_index a = episode_index b) routes" "sort_key episode_index routes = routes"
    by (simp_all add: distinct_no_adjacent sort_key_id)
  moreover have "sum_lengths 0 routes = Inr (total_frames info)"
    using sum_lengths_accept [OF pos, of 0] sum_all bound by simp
  ultimately have "load_routes lower root_p info ?er = Inr (routes, files)"
    using nolance f rl info(3) by (simp add: load_routes_def check_routes_def)
  then show thesis
  proof (rule that [OF _ index], intro allI impI)
    fix e
    assume e: "e < ?n"
    from row [OF e] obtain k where k: "k < length (pq_files (w_data w))"
      "?er ! e = \<lparr>er_index = Some (int e), er_length = Some (int (before b (int e + 1) rows - before b (int e) rows)),
         er_chunk = Some (int (fst (file_at ?cs k))), er_file = Some (int (snd (file_at ?cs k)))\<rparr>"
      "filter (\<lambda>r. frame_episode b r = Some (int e)) (snd (pq_files (w_data w) ! k)) =
        filter (\<lambda>r. frame_episode b r = Some (int e)) (ref_frames h b rows)"
      "length (filter (\<lambda>r. frame_episode b r = Some (int e)) (ref_frames h b rows)) =
        before b (int e + 1) rows - before b (int e) rows" by blast
    have "files ! data_file_index (routes ! e) = root_p @ ''/'' @ fst (pq_files (w_data w) ! k)"
      "episode_length (routes ! e) = int (before b (int e + 1) rows - before b (int e) rows)"
      using route [OF e] path [OF k(1)] nolance unfolding k(2) by (auto simp: row_route_def)
    with k show "\<exists>k < length (pq_files (w_data w)).
       files ! data_file_index (routes ! e) = root_p @ ''/'' @ fst (pq_files (w_data w) ! k) \<and>
       filter (\<lambda>r. frame_episode b r = Some (int e)) (snd (pq_files (w_data w) ! k)) =
         filter (\<lambda>r. frame_episode b r = Some (int e)) (ref_frames h b rows) \<and>
       episode_length (routes ! e) = int (length (filter (\<lambda>r. frame_episode b r = Some (int e)) (ref_frames h b rows)))"
      by auto
  qed
qed

lemma tasks_written:
  assumes "files_written h b rows w"
  shows "concat (map snd (pq_files (w_tasks_file w))) =
    map (\<lambda>(i, task). (int i, task)) (enumerate 0 (first_seen (map (task_of b) rows)))"
  using assms unfolding files_written_def Let_def by (cases rows) simp_all

lemma written_episode_iff:
  assumes "files_written h b rows w"
  shows "(\<forall>cells \<in> set rows. episode_of b cells \<noteq> Some e) \<longleftrightarrow> e \<notin> set (map int [0 ..< w_total_episodes w])"
proof -
  note written = assms [unfolded files_written_def Let_def]
  have "\<exists>cells \<in> set rows. episode_of b cells = Some (int i)" if i: "i < w_total_episodes w" for i
  proof (rule ccontr)
    assume "\<not> ?thesis"
    then have "filter (\<lambda>r. case episode_of b r of None \<Rightarrow> False | Some j \<Rightarrow> j < int i + 1) rows =
        filter (\<lambda>r. case episode_of b r of None \<Rightarrow> False | Some j \<Rightarrow> j < int i) rows"
      by (intro filter_cong) (auto split: option.splits)
    moreover have "before b (int i) rows < before b (int i + 1) rows"
      using written i by (simp add: entry_ok_def Let_def)
    ultimately show False unfolding before_def by simp
  qed
  moreover have "\<forall>r \<in> set rows. \<exists>i < w_total_episodes w. episode_of b r = Some (int i)" using written by blast
  ultimately show ?thesis by fastforce
qed

section \<open>A run\<close>

text \<open>
  Two episodes of one frame each, in two chunks, with a data file and a row of metadata per episode; the
  state is the only feature besides the generated ones.
\<close>

definition demo_options :: copy_options where
  "demo_options = [''fps'' \<mapsto> [VInt 10], ''features'' \<mapsto> [VString ''{}''], ''depth_use_log'' \<mapsto> [VBool False],
     ''chunks_size'' \<mapsto> [VInt 1], ''metadata_buffer_size'' \<mapsto> [VInt 1]]"

definition demo_features :: "feature_row list" where
  "demo_features =
     [\<lparr>fr_key = Some ''state'', fr_dtype = Some ''float32'', fr_shape = Some [Some 2], fr_json = Some ''{}'',
       fr_is_depth = False, fr_names = ''null''\<rparr>]"

definition demo_bind :: "copy_bind result" where
  "demo_bind = LerobotCopyBind example_casts id 8 id 100000 (\<lambda>_. Inr demo_features) demo_options
     [''task'', ''state'', ''episode_index''] [VARCHAR, ARRAY FLOAT 2, BIGINT]"

definition flat :: unified_format where
  "flat = \<lparr>get_index = (\<lambda>i. i), RowIsValid = (\<lambda>i. True)\<rparr>"

definition demo_scan :: "fp list data_row list \<Rightarrow> nat \<Rightarrow> (vec \<times> nat) list" where
  "demo_scan rows i =
     map (\<lambda>row.
       (case row ! i of
          OCopy (CValue xs) \<Rightarrow> ArrayVec flat 2 (LeafVec FLOAT flat (\<lambda>i. NReal (xs ! i)))
        | OBigint i \<Rightarrow> LeafVec BIGINT flat (\<lambda>_. NInt i)
        | OFloat x \<Rightarrow> LeafVec FLOAT flat (\<lambda>_. NReal x)
        | _ \<Rightarrow> LeafVec VARCHAR flat (\<lambda>_. NBool False), 1)) rows"

definition demo_host :: "fp list copy_host" where
  "demo_host = \<lparr>rotate_data = (\<lambda>_ _. True), rotate_episodes = (\<lambda>_ _. False), Encode_image = (\<lambda>_ _ _ _. Inr []),
     Execute_codecs = (\<lambda>_ _ _. Inr []), GetLocalFileSize = (\<lambda>_. Inr 0), ConcatenateVideos = (\<lambda>_ _. Inr ()),
     scan_column = demo_scan, host_sqrt = (\<lambda>_ x. x), host_pow75 = (\<lambda>x. x)\<rparr>"

definition demo_fs :: root_state where
  "demo_fs = \<lparr>root_separator = ''/'', root_is_remote = (\<lambda>_. False), root_exists = (\<lambda>_. False)\<rparr>"

definition demo_chunks :: "fp list input_row list list" where
  "demo_chunks = [[[CVarchar ''pick'', CValue [Fin 0, Fin 0], CBigint 0]],
     [[CVarchar ''place'', CValue [Fin 0, Fin 0], CBigint 1]]]"

definition demo_copy :: "copy_bind \<Rightarrow> (string \<times> fp list dataset) result" where
  "demo_copy b = LerobotCopy demo_host demo_fs ''/out/'' b (False, False) demo_chunks"

lemma demo_run:
  "case demo_bind of
     Inl e \<Rightarrow> False
   | Inr b \<Rightarrow>
       (case demo_copy b of
          Inl e \<Rightarrow> False
        | Inr (root_p, ds) \<Rightarrow>
            root_p = ''/out'' \<and> w_total_episodes (ds_writer ds) = 2 \<and> w_total_frames (ds_writer ds) = 2 \<and>
            map (\<lambda>(path, rows). (path, length rows)) (pq_files (w_data (ds_writer ds))) =
              [(''data/chunk-000/file-000.parquet'', 1), (''data/chunk-001/file-000.parquet'', 1)])"
  by code_simp

lemma demo_accepted:
  obtains b ds where "demo_bind = Inr b" "demo_copy b = Inr (''/out'', ds)" "w_total_episodes (ds_writer ds) = 2"
    "w_total_frames (ds_writer ds) = 2" "map fst (pq_files (w_data (ds_writer ds))) =
       [''data/chunk-000/file-000.parquet'', ''data/chunk-001/file-000.parquet'']"
proof -
  have "\<exists>b ds. demo_bind = Inr b \<and> demo_copy b = Inr (''/out'', ds) \<and> w_total_episodes (ds_writer ds) = 2 \<and>
      w_total_frames (ds_writer ds) = 2 \<and> map (\<lambda>(path, rows). (path, length rows)) (pq_files (w_data (ds_writer ds))) =
        [(''data/chunk-000/file-000.parquet'', 1), (''data/chunk-001/file-000.parquet'', 1)]"
    using demo_run by (auto split: sum.splits)
  then obtain b ds where ds: "demo_bind = Inr b" "demo_copy b = Inr (''/out'', ds)" "w_total_episodes (ds_writer ds) = 2"
    "w_total_frames (ds_writer ds) = 2" "map (\<lambda>(path, rows). (path, length rows)) (pq_files (w_data (ds_writer ds))) =
      [(''data/chunk-000/file-000.parquet'', 1), (''data/chunk-001/file-000.parquet'', 1)]"
    by (elim exE conjE) (rule that)
  have "map fst (pq_files (w_data (ds_writer ds))) =
      map fst (map (\<lambda>(path, rows). (path, length rows)) (pq_files (w_data (ds_writer ds))))"
    by (simp add: comp_def case_prod_beta)
  also have "\<dots> = [''data/chunk-000/file-000.parquet'', ''data/chunk-001/file-000.parquet'']"
    unfolding ds(5) by simp
  finally show thesis using ds(1-4) by (intro that)
qed

lemma file_at_div: "0 < cs \<Longrightarrow> file_at cs k = (k div cs, k mod cs)"
  by (simp add: file_at_def AdvanceFileIndex_iterate)

section \<open>Properties\<close>

text \<open>
  C2. A finished \<open>COPY\<close> has written the reference frames: however its input is split into chunks and its
  output into files, the rows of the data files one after the other are the input rows in order, each with
  its copied columns and encoded images, with the number of its predecessors in the episode as frame index
  and as timestamp over the rate, with its position as index and with the rank of its task in the order of
  first appearance as task index; the tasks file lists the tasks in that order, and the files are those of
  the consecutive chunk and file indices, all different.
\<close>
theorem copy_writes_reference_frames:
  assumes "LerobotCopyBind c log_d threads lower max_array query options names types = Inr b" and "casts_in_range c"
    and "LerobotCopy h fs root_path b interrupted chunks = Inr (root_p, ds)"
  shows "concat (map snd (pq_files (w_data (ds_writer ds)))) = ref_frames h b (concat chunks) \<and>
    map fst (pq_files (w_data (ds_writer ds))) =
      map (\<lambda>k. DataRelativePath (k div chunks_size (bd_config b)) (k mod chunks_size (bd_config b)))
        [0 ..< length (pq_files (w_data (ds_writer ds)))] \<and>
    distinct (map fst (pq_files (w_data (ds_writer ds)))) \<and>
    concat (map snd (pq_files (w_tasks_file (ds_writer ds)))) =
      map (\<lambda>(i, task). (int i, task)) (enumerate 0 (first_seen (map (task_of b) (concat chunks)))) \<and>
    w_total_frames (ds_writer ds) = length (concat chunks)"
proof -
  let ?w = "ds_writer ds" and ?cs = "chunks_size (bd_config b)"
  have b: "bind_ok b" using assms(1,2) by (rule LerobotCopyBind_ok)
  then have cs: "0 < ?cs" by (simp add: bind_ok_def)
  note written = LerobotCopy_files_written [OF assms(3) b, unfolded files_written_def Let_def]
  have paths: "map fst (pq_files (w_data ?w)) =
      map (\<lambda>k. DataRelativePath (k div ?cs) (k mod ?cs)) [0 ..< length (pq_files (w_data ?w))]"
    using written by (intro nth_equalityI) (simp_all add: numbered_def file_at_div [OF cs])
  have "inj (\<lambda>k. DataRelativePath (k div ?cs) (k mod ?cs))"
    by (intro injI) (metis DataRelativePath_inj div_mult_mod_eq)
  then have "distinct (map fst (pq_files (w_data ?w)))"
    unfolding paths distinct_map by (auto intro: inj_on_subset)
  moreover have "concat (map snd (pq_files (w_tasks_file ?w))) =
      map (\<lambda>(i, task). (int i, task)) (enumerate 0 (first_seen (map (task_of b) (concat chunks))))"
    using LerobotCopy_files_written [OF assms(3) b] by (rule tasks_written)
  ultimately show ?thesis using written paths by (simp add: log_of_def)
qed

theorem copy_writes_reference_frames_witness:
  "\<exists>b ds. demo_bind = Inr b \<and> demo_copy b = Inr (''/out'', ds) \<and> length (pq_files (w_data (ds_writer ds))) = 2 \<and>
     concat (map snd (pq_files (w_data (ds_writer ds)))) = ref_frames demo_host b (concat demo_chunks)"
proof -
  obtain b ds where d: "demo_bind = Inr b" "demo_copy b = Inr (''/out'', ds)" and paths:
    "map fst (pq_files (w_data (ds_writer ds))) = [''data/chunk-000/file-000.parquet'', ''data/chunk-001/file-000.parquet'']"
    by (rule demo_accepted)
  have "casts_in_range example_casts"
    by (auto simp: casts_in_range_def example_casts_def split: sqlvalue.splits if_splits)
  from copy_writes_reference_frames [OF d(1) [unfolded demo_bind_def] this d(2) [unfolded demo_copy_def]]
  have "concat (map snd (pq_files (w_data (ds_writer ds)))) = ref_frames demo_host b (concat demo_chunks)" by blast
  moreover have "length (pq_files (w_data (ds_writer ds))) = 2" using arg_cong [OF paths, of length] by simp
  ultimately show ?thesis using d by blast
qed

lemma numbered_route_found:
  assumes inv: "routes_inv m" and index: "map episode_index (md_routes m) = map int [0 ..< n]" and r: "FindEpisodeRoute m e = Some r"
  obtains i where "i < n" "r = md_routes m ! i" "e = int i"
proof -
  have "r \<in> set (md_routes m)" "episode_index r = e" using r by (simp_all add: FindEpisodeRoute_iff [OF inv])
  then obtain i where i: "i < length (md_routes m)" "r = md_routes m ! i" by (metis in_set_conv_nth)
  have len: "length (md_routes m) = n" using arg_cong [OF index, of length] by simp
  have "episode_index (md_routes m ! i) = int i" using arg_cong [OF index, of "\<lambda>xs. xs ! i"] i(1) len by simp
  with i len \<open>episode_index r = e\<close> show thesis by (intro that [of i]) simp_all
qed

text \<open>
  C1. The reader loads what \<open>COPY\<close> wrote: \<open>load_routes\<close> accepts the written episode metadata with the totals
  and the path template of the written \<open>info.json\<close>; an episode is found exactly if the input has rows of it;
  and the data file of its route is a written file in which the rows of the episode are its reference
  frames, as many as the length of the route.
\<close>
theorem written_dataset_loads:
  assumes "LerobotCopyBind c log_d threads lower max_array query options names types = Inr b" and "casts_in_range c"
    and "LerobotCopy h fs root_path b interrupted chunks = Inr (root_p, ds)" and "lower_keeps_plain lower"
    and "storage_format info = ''lerobot''" and "data_path_template info = LEROBOT_DATA_PATH"
    and "total_episodes info = int (w_total_episodes (ds_writer ds))"
    and "total_frames info = int (w_total_frames (ds_writer ds))"
  shows "\<exists>routes files.
    load_routes lower root_p info (map (episode_row_of b) (concat (map snd (pq_files (w_episodes (ds_writer ds)))))) =
      Inr (routes, files) \<and>
    (\<forall>m. md_routes m = routes \<longrightarrow> md_data_files m = files \<longrightarrow>
      (\<forall>e. FindEpisodeRoute m e = None \<longleftrightarrow> (\<forall>cells \<in> set (concat chunks). episode_of b cells \<noteq> Some e)) \<and>
      (\<forall>e r. FindEpisodeRoute m e = Some r \<longrightarrow>
        (\<exists>(path, rows) \<in> set (pq_files (w_data (ds_writer ds))).
           files ! data_file_index r = root_p @ ''/'' @ path \<and>
           filter (\<lambda>row. frame_episode b row = Some e) rows =
             filter (\<lambda>row. frame_episode b row = Some e) (ref_frames h b (concat chunks)) \<and>
           episode_length r =
             int (length (filter (\<lambda>row. frame_episode b row = Some e) (ref_frames h b (concat chunks)))))))"
    (is "\<exists>routes files. ?load routes files \<and> (\<forall>m. ?routes m routes \<longrightarrow> ?files m files \<longrightarrow> ?ok m files)")
proof -
  let ?w = "ds_writer ds" and ?rows = "concat chunks"
  have b: "bind_ok b" using assms(1,2) by (rule LerobotCopyBind_ok)
  obtain rest where names: "bd_episode b = episode_base_columns @ rest" using LerobotCopyBind_episode [OF assms(1)] by blast
  note written = LerobotCopy_files_written [OF assms(3) b]
  obtain routes files where
    load: "load_routes lower root_p info (map (episode_row_of b) (log_of (pq_files (w_episodes ?w)))) = Inr (routes, files)" and
    index: "map episode_index routes = map int [0 ..< w_total_episodes ?w]" and
    frames: "\<forall>e < w_total_episodes ?w. \<exists>k < length (pq_files (w_data ?w)).
       files ! data_file_index (routes ! e) = root_p @ ''/'' @ fst (pq_files (w_data ?w) ! k) \<and>
       filter (\<lambda>r. frame_episode b r = Some (int e)) (snd (pq_files (w_data ?w) ! k)) =
         filter (\<lambda>r. frame_episode b r = Some (int e)) (ref_frames h b ?rows) \<and>
       episode_length (routes ! e) = int (length (filter (\<lambda>r. frame_episode b r = Some (int e)) (ref_frames h b ?rows)))"
    by (rule written_routes [where root_p = root_p, OF written b names assms(4-8)])
  have "?ok m files" if m: "md_routes m = routes" "md_data_files m = files" for m
  proof (intro conjI allI impI)
    fix e r
    have inv: "routes_inv m" using load m by (intro load_routes_inv) simp
    show "FindEpisodeRoute m e = None \<longleftrightarrow> (\<forall>cells \<in> set ?rows. episode_of b cells \<noteq> Some e)"
      unfolding written_episode_iff [OF written] episodes.find_none_iff [OF inv] by (simp only: m(1) index set_map [symmetric])
    assume "FindEpisodeRoute m e = Some r"
    then obtain i where i: "i < w_total_episodes ?w" "r = routes ! i" "e = int i"
      using numbered_route_found [OF inv, of "w_total_episodes ?w" e r] index m(1) by metis
    with frames obtain k where k: "k < length (pq_files (w_data ?w))"
      "case pq_files (w_data ?w) ! k of (path, rows) \<Rightarrow> files ! data_file_index r = root_p @ ''/'' @ path \<and>
        filter (\<lambda>row. frame_episode b row = Some e) rows = filter (\<lambda>row. frame_episode b row = Some e) (ref_frames h b ?rows) \<and>
        episode_length r = int (length (filter (\<lambda>row. frame_episode b row = Some e) (ref_frames h b ?rows)))"
      by (auto simp: case_prod_beta)
    then show "\<exists>(path, rows) \<in> set (pq_files (w_data ?w)). files ! data_file_index r = root_p @ ''/'' @ path \<and>
        filter (\<lambda>row. frame_episode b row = Some e) rows = filter (\<lambda>row. frame_episode b row = Some e) (ref_frames h b ?rows) \<and>
        episode_length r = int (length (filter (\<lambda>row. frame_episode b row = Some e) (ref_frames h b ?rows)))"
      using nth_mem [OF k(1)] by (intro bexI [of _ "pq_files (w_data ?w) ! k"])
  qed
  then show ?thesis using load by (intro exI [of _ routes] exI [of _ files]) (simp add: log_of_def)
qed

theorem written_dataset_loads_witness:
  "\<exists>b ds routes files. demo_bind = Inr b \<and> demo_copy b = Inr (''/out'', ds) \<and>
     load_routes id ''/out'' (example_info\<lparr>storage_format := ''lerobot'', data_path_template := LEROBOT_DATA_PATH,
         total_episodes := 2, total_frames := 2\<rparr>)
       (map (episode_row_of b) (concat (map snd (pq_files (w_episodes (ds_writer ds)))))) = Inr (routes, files)"
proof -
  obtain b ds where d: "demo_bind = Inr b" "demo_copy b = Inr (''/out'', ds)" and
    n: "w_total_episodes (ds_writer ds) = 2" "w_total_frames (ds_writer ds) = 2"
    by (rule demo_accepted)
  let ?info = "example_info\<lparr>storage_format := ''lerobot'', data_path_template := LEROBOT_DATA_PATH,
      total_episodes := 2, total_frames := 2\<rparr>"
  have c: "casts_in_range example_casts"
    by (auto simp: casts_in_range_def example_casts_def split: sqlvalue.splits if_splits)
  have l: "lower_keeps_plain id" by (simp add: lower_keeps_plain_def)
  have i: "storage_format ?info = ''lerobot''" "data_path_template ?info = LEROBOT_DATA_PATH"
    "total_episodes ?info = int (w_total_episodes (ds_writer ds))" "total_frames ?info = int (w_total_frames (ds_writer ds))"
    by (simp_all add: n)
  from written_dataset_loads [OF d(1) [unfolded demo_bind_def] c d(2) [unfolded demo_copy_def] l i]
  show ?thesis using d by blast
qed

end
