(* ===== verification/VideoBuffers.thy ===== *)
theory VideoBuffers
  imports MetadataCache
begin

text \<open>
  The targets of the video table functions (\<open>src/function/video/lerobot_video_frames.cpp\<close>): decode targets
  made from the rows of the frame queries, and the buffers of targets of one video file that a decoder
  works on, sorted by time and cut into clusters that are decoded after one seek each.
\<close>

section \<open>Decode targets\<close>

record decode_target =
  dt_request_id :: int
  dt_target_id :: int
  dt_request_ordinal :: nat
  dt_delta_ordinal :: nat
  dt_delta_timestamp :: fp
  dt_delta_frame_offset :: int
  dt_is_padding :: bool
  dt_episode_index :: int
  dt_frame_index :: int
  dt_target_frame_index :: int
  dt_frame_timestamp :: fp
  dt_video_timestamp :: fp
  dt_route_index :: nat

text \<open>\<open>LerobotVideoProducerConfig\<close>, with the options that the producers use.\<close>

record producer_config =
  pc_metadata :: video_metadata
  pc_routes :: "video_route list"
  pc_frame_queries :: "string list"
  pc_window_mode :: bool
  pc_tolerance :: fp
  pc_cluster_gap :: fp
  pc_target_buffer_size :: nat
  pc_max_pending_targets :: nat

text \<open>The columns of a row of a frame query and of a window query; the type of a column is fixed by its cast.\<close>

record source_row =
  sr_request_id :: "int option"
  sr_request_ordinal :: "int option"
  sr_delta_ordinal :: "int option"
  sr_delta_timestamp :: "fp option"
  sr_delta_frame_offset :: "int option"
  sr_is_padding :: "bool option"
  sr_episode_index :: "int option"
  sr_frame_index :: "int option"
  sr_target_frame_index :: "int option"
  sr_timestamp :: "fp option"
  sr_match_count :: "int option"

definition invalid_row :: "string \<Rightarrow> 'a result" where
  "invalid_row message = Inl (InvalidInputException message)"

text \<open>The first part of \<open>BuildTargets\<close>: the target of a row before its routes are known.\<close>

definition window_target :: "source_row \<Rightarrow> decode_target result" where
  "window_target r =
     (case (sr_request_id r, sr_request_ordinal r, sr_delta_ordinal r, sr_delta_timestamp r, sr_delta_frame_offset r,
            sr_is_padding r, sr_episode_index r, sr_frame_index r, sr_target_frame_index r) of
        (Some request, Some request_number, Some delta_number, Some delta, Some offset,
         Some padded, Some episode, Some frame, Some target_frame) \<Rightarrow>
          (case sr_match_count r of
             None \<Rightarrow> invalid_row ''LeRobot video window match count must not be NULL''
           | Some matches \<Rightarrow>
               (case if matches = 1 then sr_timestamp r else None of
                  None \<Rightarrow>
                    if matches = 0 then invalid_row ''LeRobot episode has no Parquet row for the frame''
                    else invalid_row ''LeRobot episode has several Parquet rows for the frame''
                | Some time \<Rightarrow>
                    if request_number < 0 \<or> delta_number < 0
                    then invalid_row ''Invalid LeRobot video window ordinals''
                    else Inr \<lparr>dt_request_id = request, dt_target_id = 0, dt_request_ordinal = nat request_number,
                      dt_delta_ordinal = nat delta_number, dt_delta_timestamp = delta,
                      dt_delta_frame_offset = offset, dt_is_padding = padded,
                      dt_episode_index = episode, dt_frame_index = frame,
                      dt_target_frame_index = target_frame, dt_frame_timestamp = time,
                      dt_video_timestamp = Fin 0, dt_route_index = 0\<rparr>))
      | _ \<Rightarrow> invalid_row ''LeRobot video window request columns must not contain NULL'')"

definition frame_target :: "source_row \<Rightarrow> decode_target result" where
  "frame_target r =
     (case (sr_episode_index r, sr_frame_index r, sr_timestamp r) of
        (Some episode, Some frame, Some time) \<Rightarrow>
          Inr \<lparr>dt_request_id = 0, dt_target_id = 0, dt_request_ordinal = 0, dt_delta_ordinal = 0, dt_delta_timestamp = Fin 0,
            dt_delta_frame_offset = 0, dt_is_padding = False, dt_episode_index = episode,
            dt_frame_index = frame, dt_target_frame_index = frame, dt_frame_timestamp = time,
            dt_video_timestamp = Fin 0, dt_route_index = 0\<rparr>
      | _ \<Rightarrow> invalid_row ''LeRobot frame alignment columns must not contain NULL'')"

text \<open>\<open>routes_by_episode\<close>: the indices of the routes of an episode, in ascending order.\<close>

definition routes_by_episode :: "producer_config \<Rightarrow> int \<Rightarrow> nat list" where
  "routes_by_episode c episode =
     filter (\<lambda>i. vr_episode_index (pc_routes c ! i) = episode) [0 ..< length (pc_routes c)]"

definition route_target :: "producer_config \<Rightarrow> decode_target \<Rightarrow> nat \<Rightarrow> decode_target result" where
  "route_target c t route_index =
     (let route = pc_routes c ! route_index;
          video_timestamp = dadd (vr_from route) (dt_frame_timestamp t)
      in if \<not> fis_finite video_timestamp \<or> flt video_timestamp (dsub (vr_from route) (pc_tolerance c)) \<or>
            flt (dadd (vr_to route) (pc_tolerance c)) video_timestamp
         then invalid_row ''LeRobot frame timestamp falls outside video route''
         else Inr (t\<lparr>dt_video_timestamp := video_timestamp, dt_route_index := route_index\<rparr>))"

definition BuildTargets :: "producer_config \<Rightarrow> source_row \<Rightarrow> decode_target list result" where
  "BuildTargets c row =
     bindE (if pc_window_mode c then window_target row else frame_target row) (\<lambda>t.
     if dt_episode_index t < 0 \<or> dt_frame_index t < 0 \<or> dt_target_frame_index t < 0 \<or>
        \<not> fis_finite (dt_frame_timestamp t) \<or> flt (dt_frame_timestamp t) (Fin 0) \<or>
        \<not> fis_finite (dt_delta_timestamp t)
     then invalid_row ''Invalid LeRobot frame alignment metadata''
     else mapE (route_target c t) (routes_by_episode c (dt_episode_index t)))"

section \<open>Buffers\<close>

text \<open>
  \<open>long double\<close> is the 80-bit format of x86-64, with 64 bits of precision. \<open>std::ceil\<close> of it is exact.
\<close>

definition rnd80 :: "rat \<Rightarrow> fp" where
  "rnd80 x = overflow_to 16384 (round_rat 64 (-16445) x)"

fun fceil :: "fp \<Rightarrow> fp" where
  "fceil (Fin x) = Fin (of_int \<lceil>x\<rceil>)"
| "fceil x = x"

definition LEROBOT_MAX_CLUSTER_FRAME_SPAN :: nat where "LEROBOT_MAX_CLUSTER_FRAME_SPAN = 20000"
definition LEROBOT_DECODE_FRAME_SAFETY_MARGIN :: nat where "LEROBOT_DECODE_FRAME_SAFETY_MARGIN = 20000"

definition EstimateFrameSpan :: "fp \<Rightarrow> fp \<Rightarrow> int \<Rightarrow> nat" where
  "EstimateFrameSpan first_timestamp last_timestamp fps =
     (if fle last_timestamp first_timestamp then 1
      else
        let difference = add_with rnd80 last_timestamp (fneg first_timestamp);
            frame_span = add_with rnd80 (fceil (mul_with rnd80 difference (Fin (of_int fps)))) (Fin 1)
        in if fle (rnd80 (of_nat IDX_MAX)) frame_span then IDX_MAX
           else case frame_span of Fin x \<Rightarrow> nat \<lfloor>x\<rfloor> | _ \<Rightarrow> 0)"

definition DecodeFrameBudget :: "fp \<Rightarrow> fp \<Rightarrow> int \<Rightarrow> nat" where
  "DecodeFrameBudget first_timestamp last_timestamp fps =
     (let expected_frames = EstimateFrameSpan first_timestamp last_timestamp fps
      in if expected_frames > IDX_MAX - LEROBOT_DECODE_FRAME_SAFETY_MARGIN then IDX_MAX
         else expected_frames + LEROBOT_DECODE_FRAME_SAFETY_MARGIN)"

record decode_buffer =
  db_shard_index :: nat
  db_fps :: int
  db_targets :: "decode_target list"
  db_clusters :: "nat list list"

text \<open>
  The order of the targets. Their timestamps are finite, so they compare as rationals; targets that agree
  in all six keys are the same request for the same frame, their order is left to \<open>std::sort\<close>.
\<close>

definition fp_value :: "fp \<Rightarrow> rat" where
  "fp_value x = (case x of Fin v \<Rightarrow> v | _ \<Rightarrow> 0)"

definition target_key :: "decode_target \<Rightarrow> rat \<times> int \<times> int \<times> nat \<times> nat \<times> nat" where
  "target_key t = (fp_value (dt_video_timestamp t), dt_episode_index t, dt_frame_index t, dt_route_index t,
     dt_request_ordinal t, dt_delta_ordinal t)"

definition starts_cluster :: "fp \<Rightarrow> int \<Rightarrow> decode_target list \<Rightarrow> nat list \<Rightarrow> nat \<Rightarrow> bool" where
  "starts_cluster gap fps targets cluster target_index =
     (let timestamp = (\<lambda>i. dt_video_timestamp (targets ! i));
          adjacent_gap = dsub (timestamp target_index) (timestamp (last cluster));
          frame_span = EstimateFrameSpan (timestamp (hd cluster)) (timestamp target_index) fps
      in flt gap adjacent_gap \<or> frame_span > LEROBOT_MAX_CLUSTER_FRAME_SPAN)"

definition add_to_cluster :: "fp \<Rightarrow> int \<Rightarrow> decode_target list \<Rightarrow> nat \<Rightarrow> nat list list \<Rightarrow> nat list list" where
  "add_to_cluster gap fps targets target_index clusters =
     (if clusters = [] \<or> starts_cluster gap fps targets (last clusters) target_index
      then clusters @ [[target_index]]
      else butlast clusters @ [last clusters @ [target_index]])"

definition FinalizeDecodeBuffer :: "fp \<Rightarrow> decode_buffer \<Rightarrow> decode_buffer" where
  "FinalizeDecodeBuffer gap buffer =
     (let targets = sort_key target_key (db_targets buffer)
      in buffer\<lparr>db_targets := targets,
           db_clusters := fold (add_to_cluster gap (db_fps buffer) targets) [0 ..< length targets] []\<rparr>)"


section \<open>Clusters\<close>

text \<open>
  What clustering promises: a cluster goes on as long as \<open>starts_cluster\<close> says no, and ends where it says
  yes.
\<close>

definition linked :: "fp \<Rightarrow> int \<Rightarrow> decode_target list \<Rightarrow> nat list \<Rightarrow> bool" where
  "linked gap fps targets c \<longleftrightarrow>
     c \<noteq> [] \<and> (\<forall>k. Suc k < length c \<longrightarrow> \<not> starts_cluster gap fps targets (take (Suc k) c) (c ! Suc k))"

fun separated :: "fp \<Rightarrow> int \<Rightarrow> decode_target list \<Rightarrow> nat list list \<Rightarrow> bool" where
  "separated gap fps targets (c # d # cs) \<longleftrightarrow>
     starts_cluster gap fps targets c (hd d) \<and> separated gap fps targets (d # cs)"
| "separated gap fps targets cs \<longleftrightarrow> True"

lemma linked_single [simp]: "linked gap fps targets [i]"
  by (simp add: linked_def)

lemma linked_snoc:
  assumes "linked gap fps targets c" and "\<not> starts_cluster gap fps targets c i"
  shows "linked gap fps targets (c @ [i])"
  unfolding linked_def
proof (intro conjI allI impI)
  fix k assume "Suc k < length (c @ [i])"
  then consider "Suc k < length c" | "Suc k = length c" by fastforce
  then show "\<not> starts_cluster gap fps targets (take (Suc k) (c @ [i])) ((c @ [i]) ! Suc k)"
    using assms by cases (auto simp: linked_def nth_append)
qed simp

lemma separated_snoc:
  "separated gap fps targets (cs @ [c, d]) \<longleftrightarrow>
     separated gap fps targets (cs @ [c]) \<and> starts_cluster gap fps targets c (hd d)"
proof (induction cs)
  case (Cons b bs)
  then show ?case by (cases bs) simp_all
qed simp

lemma separated_last:
  assumes "d \<noteq> []"
  shows "separated gap fps targets (cs @ [d @ [i]]) \<longleftrightarrow> separated gap fps targets (cs @ [d])"
  using assms by (cases cs rule: rev_cases) (simp_all add: separated_snoc)

text \<open>The invariant of the clustering loop.\<close>

lemma add_to_cluster_inv:
  fixes i :: nat
  assumes "\<forall>c\<in>set cs. linked gap fps targets c" and "separated gap fps targets cs"
  defines "ds \<equiv> add_to_cluster gap fps targets i cs"
  shows "concat ds = concat cs @ [i] \<and> (\<forall>c\<in>set ds. linked gap fps targets c) \<and> separated gap fps targets ds"
proof (cases cs rule: rev_cases)
  case Nil
  then show ?thesis by (simp add: ds_def add_to_cluster_def)
next
  case (snoc bs c)
  then have "linked gap fps targets c" "c \<noteq> []" using assms(1) by (auto simp: linked_def)
  then show ?thesis
    using assms(1,2) snoc linked_snoc
    by (auto simp: ds_def add_to_cluster_def separated_snoc separated_last)
qed

lemma clusters_inv:
  "concat (fold (add_to_cluster gap fps targets) [0..<n] []) = [0..<n] \<and>
   (\<forall>c\<in>set (fold (add_to_cluster gap fps targets) [0..<n] []). linked gap fps targets c) \<and>
   separated gap fps targets (fold (add_to_cluster gap fps targets) [0..<n] [])"
proof (induction n)
  case (Suc n)
  then show ?case
    using add_to_cluster_inv [of "fold (add_to_cluster gap fps targets) [0..<n] []" gap fps targets n] by simp
qed simp

lemma FinalizeDecodeBuffer_targets:
  "mset (db_targets (FinalizeDecodeBuffer gap b)) = mset (db_targets b)"
  "sorted (map target_key (db_targets (FinalizeDecodeBuffer gap b)))"
  "db_shard_index (FinalizeDecodeBuffer gap b) = db_shard_index b"
  "db_fps (FinalizeDecodeBuffer gap b) = db_fps b"
  "length (db_targets (FinalizeDecodeBuffer gap b)) = length (db_targets b)"
  by (simp_all add: FinalizeDecodeBuffer_def Let_def)

lemma FinalizeDecodeBuffer_clusters:
  defines "b' \<equiv> \<lambda>gap b. FinalizeDecodeBuffer gap b"
  shows "concat (db_clusters (b' gap b)) = [0..<length (db_targets (b' gap b))]"
    and "c \<in> set (db_clusters (b' gap b)) \<Longrightarrow> linked gap (db_fps b) (db_targets (b' gap b)) c"
    and "separated gap (db_fps b) (db_targets (b' gap b)) (db_clusters (b' gap b))"
  using clusters_inv [of gap "db_fps b" "sort_key target_key (db_targets b)" "length (db_targets b)"]
  by (auto simp: b'_def FinalizeDecodeBuffer_def Let_def)

text \<open>The frame span of a cluster, and with it the frames that are decoded after its seek, is bounded.\<close>

lemma flt_NaN [simp]: "\<not> flt x NaN"
  by (cases x) simp_all

lemma EstimateFrameSpan_same: "EstimateFrameSpan x x fps \<le> 1"
proof -
  have "fle x x \<or> x = NaN" by (cases x) (simp_all add: fle_def feq_def)
  then show ?thesis by (auto simp: EstimateFrameSpan_def Let_def fle_def feq_def)
qed

lemma linked_span:
  assumes "linked gap fps targets c"
  shows "EstimateFrameSpan (dt_video_timestamp (targets ! hd c)) (dt_video_timestamp (targets ! last c)) fps
           \<le> LEROBOT_MAX_CLUSTER_FRAME_SPAN"
proof (cases "length c = 1")
  case True
  then obtain i where "c = [i]" by (auto simp: length_Suc_conv)
  then show ?thesis
    using EstimateFrameSpan_same [of "dt_video_timestamp (targets ! i)" fps]
    by (simp add: LEROBOT_MAX_CLUSTER_FRAME_SPAN_def)
next
  case False
  with assms obtain k where k: "length c = Suc (Suc k)"
    by (metis One_nat_def linked_def list.size(3) length_0_conv not0_implies_Suc)
  with assms have "\<not> starts_cluster gap fps targets (take (Suc k) c) (c ! Suc k)"
    by (simp add: linked_def)
  moreover have "last c = c ! Suc k" "hd (take (Suc k) c) = hd c"
    using k by (cases c; auto simp: last_conv_nth)+
  ultimately show ?thesis by (simp add: starts_cluster_def Let_def)
qed

lemma linked_budget:
  assumes "linked gap fps targets c"
  shows "DecodeFrameBudget (dt_video_timestamp (targets ! hd c)) (dt_video_timestamp (targets ! last c)) fps \<le> 40000"
  using linked_span [OF assms]
  by (simp add: DecodeFrameBudget_def Let_def IDX_MAX_def LEROBOT_MAX_CLUSTER_FRAME_SPAN_def
      LEROBOT_DECODE_FRAME_SAFETY_MARGIN_def)

text \<open>C22. A buffer handed to a decoder holds the queued targets sorted by time. Its clusters partition them in
  order; within a cluster neighbours are at most the gap apart and the decode budget is at most 40000 frames,
  and a new cluster starts only where the gap or the span of 20000 frames is exceeded.\<close>

theorem buffers_clustered:
  "let buffer = FinalizeDecodeBuffer gap b; targets = db_targets buffer; time = (\<lambda>i. dt_video_timestamp (targets ! i)) in
   mset targets = mset (db_targets b) \<and> sorted (map target_key targets) \<and>
   concat (db_clusters buffer) = [0..<length targets] \<and>
   list_all (\<lambda>c. c \<noteq> [] \<and> DecodeFrameBudget (time (hd c)) (time (last c)) (db_fps b) \<le> 40000 \<and>
       list_all (\<lambda>k. \<not> flt gap (dsub (time (c ! Suc k)) (time (c ! k)))) [0..<length c - 1]) (db_clusters buffer) \<and>
   separated gap (db_fps b) targets (db_clusters buffer)"
proof -
  have gaps: "\<not> flt gap (dsub (dt_video_timestamp (ts ! (c ! Suc k))) (dt_video_timestamp (ts ! (c ! k))))"
    if "linked gap fps ts c" "k < length c - 1" for fps ts c k
  proof -
    have "\<not> starts_cluster gap fps ts (take (Suc k) c) (c ! Suc k)" using that by (simp add: linked_def)
    moreover have "last (take (Suc k) c) = c ! k" using that by (simp add: take_Suc_conv_app_nth)
    ultimately show ?thesis by (simp add: starts_cluster_def Let_def)
  qed
  define buffer where "buffer = FinalizeDecodeBuffer gap b"
  have linked: "linked gap (db_fps b) (db_targets buffer) c" if "c \<in> set (db_clusters buffer)" for c
    using FinalizeDecodeBuffer_clusters(2) that unfolding buffer_def .
  then have "[] \<notin> set (db_clusters buffer)" by (auto simp: linked_def)
  with linked show ?thesis
    using FinalizeDecodeBuffer_clusters(1,3) [of gap b] FinalizeDecodeBuffer_targets(1,2) [of gap b]
    by (auto simp: Let_def list_all_iff buffer_def [symmetric] intro: linked_budget dest: gaps [OF linked])
qed

end
