(* ===== verification/VideoQueue.thy ===== *)
theory VideoQueue
  imports VideoBuffers Machine
begin

text \<open>
  The bounded queue between the producers of the video table functions, which run the frame queries, and
  the consumers, which decode buffers of targets (\<open>src/function/video/lerobot_video_frames.cpp\<close>). Each
  critical section under the lock of \<open>LerobotVideoProducerState\<close> is a step of a state machine.
\<close>

section \<open>The queue\<close>

text \<open>
  \<open>LerobotVideoProducerState\<close> without its counters. The iterators of \<open>partial_lru_entries\<close> are positions in
  \<open>partial_lru\<close>, front first. A weak pointer to a task is the index of its producer.
\<close>

record video_queue =
  active_producers :: nat
  source_exhausted :: bool
  stop_requested :: bool
  queue_error :: "exn option"
  partial_buffers :: "nat \<Rightarrow> decode_target list option"
  partial_lru :: "nat list"
  ready_buffers :: "decode_buffer list"
  busy_shards :: "nat set"
  blocked_producers :: "nat list"
  pending_target_count :: nat

datatype queue_result = Queued | QueueBlocked | QueueStopped
datatype claim_result = Claimed decode_buffer | ClaimBlocked | ClaimFinished

definition target_shard :: "producer_config \<Rightarrow> decode_target \<Rightarrow> nat" where
  "target_shard c t = vr_file_index (pc_routes c ! dt_route_index t)"

definition TouchPartialBuffer :: "nat \<Rightarrow> video_queue \<Rightarrow> video_queue" where
  "TouchPartialBuffer shard q = q\<lparr>partial_lru := shard # remove1 shard (partial_lru q)\<rparr>"

definition new_buffer :: "producer_config \<Rightarrow> nat \<Rightarrow> decode_target list \<Rightarrow> decode_buffer" where
  "new_buffer c shard targets =
     \<lparr>db_shard_index = shard, db_fps = vm_fps (pc_metadata c), db_targets = targets, db_clusters = []\<rparr>"

definition FlushPartialBuffer :: "producer_config \<Rightarrow> nat \<Rightarrow> video_queue \<Rightarrow> video_queue" where
  "FlushPartialBuffer c shard q =
     (case partial_buffers q shard of
        None \<Rightarrow> q
      | Some targets \<Rightarrow>
          if targets = [] then q
          else q\<lparr>partial_buffers := (partial_buffers q)(shard := None),
                 partial_lru := remove1 shard (partial_lru q),
                 ready_buffers := ready_buffers q @ [FinalizeDecodeBuffer (pc_cluster_gap c) (new_buffer c shard targets)]\<rparr>)"

definition FlushOldestPartialBuffer :: "producer_config \<Rightarrow> video_queue \<Rightarrow> video_queue" where
  "FlushOldestPartialBuffer c q =
     (if partial_lru q = [] then q else FlushPartialBuffer c (last (partial_lru q)) q)"

text \<open>The map of partial buffers is flushed in the order of its hash table, which is a parameter.\<close>

definition FlushAllPartialBuffers :: "producer_config \<Rightarrow> nat list \<Rightarrow> video_queue \<Rightarrow> video_queue" where
  "FlushAllPartialBuffers c order q = fold (FlushPartialBuffer c) order q"

definition QueueTarget :: "producer_config \<Rightarrow> decode_target \<Rightarrow> video_queue \<Rightarrow> video_queue" where
  "QueueTarget c t q =
     (let shard = target_shard c t;
          targets = (case partial_buffers q shard of None \<Rightarrow> [] | Some ts \<Rightarrow> ts) @ [t];
          q1 = TouchPartialBuffer shard (q\<lparr>partial_buffers := (partial_buffers q)(shard \<mapsto> targets)\<rparr>);
          q2 = q1\<lparr>pending_target_count := pending_target_count q1 + 1\<rparr>
      in if length targets \<ge> pc_target_buffer_size c then FlushPartialBuffer c shard q2 else q2)"

text \<open>The targets from \<open>target_position\<close> on are queued while there is room; the rest is returned.\<close>

fun queue_while :: "producer_config \<Rightarrow> decode_target list \<Rightarrow> video_queue \<Rightarrow> decode_target list \<times> video_queue" where
  "queue_while c [] q = ([], q)"
| "queue_while c (t # ts) q =
     (if pending_target_count q < pc_max_pending_targets c then queue_while c ts (QueueTarget c t q) else (t # ts, q))"

definition QueueTargets ::
  "producer_config \<Rightarrow> nat \<Rightarrow> decode_target list \<Rightarrow> video_queue \<Rightarrow> queue_result \<times> decode_target list \<times> video_queue" where
  "QueueTargets c producer targets q =
     (if stop_requested q then (QueueStopped, targets, q)
      else
        let (rest, q1) = queue_while c targets q
        in if rest = [] then (Queued, [], q1)
           else
             let q2 = FlushOldestPartialBuffer c q1
             in (QueueBlocked, rest, q2\<lparr>blocked_producers := blocked_producers q2 @ [producer]\<rparr>))"

definition ProducerFinished :: "producer_config \<Rightarrow> nat list \<Rightarrow> bool \<Rightarrow> video_queue \<Rightarrow> video_queue" where
  "ProducerFinished c order abandoned q =
     (let q1 = q\<lparr>stop_requested := (stop_requested q \<or> abandoned), active_producers := active_producers q - 1\<rparr>;
          q2 = (if stop_requested q1
                then q1\<lparr>partial_buffers := \<lambda>_. None, partial_lru := [], ready_buffers := [], pending_target_count := 0\<rparr>
                else if active_producers q1 = 0 then FlushAllPartialBuffers c order q1
                else q1)
      in if active_producers q2 = 0 then q2\<lparr>source_exhausted := True\<rparr> else q2)"

text \<open>\<open>RequestStop\<close> and \<open>Fail\<close>, which also return the producers they wake.\<close>

definition TakeBlockedProducers :: "video_queue \<Rightarrow> nat list \<times> video_queue" where
  "TakeBlockedProducers q = (blocked_producers q, q\<lparr>blocked_producers := []\<rparr>)"

definition RequestStop :: "video_queue \<Rightarrow> nat list \<times> video_queue" where
  "RequestStop q = TakeBlockedProducers (q\<lparr>stop_requested := True\<rparr>)"

definition Fail :: "exn \<Rightarrow> video_queue \<Rightarrow> nat list \<times> video_queue" where
  "Fail e q = TakeBlockedProducers (q\<lparr>queue_error := (case queue_error q of None \<Rightarrow> Some e | err \<Rightarrow> err),
     stop_requested := True\<rparr>)"

fun claim_ready :: "nat set \<Rightarrow> decode_buffer list \<Rightarrow> (decode_buffer \<times> decode_buffer list) option" where
  "claim_ready busy [] = None"
| "claim_ready busy (b # bs) =
     (if db_shard_index b \<in> busy
      then (case claim_ready busy bs of None \<Rightarrow> None | Some (b', bs') \<Rightarrow> Some (b', b # bs'))
      else Some (b, bs))"

definition TryClaimReady :: "video_queue \<Rightarrow> (decode_buffer \<times> video_queue) option" where
  "TryClaimReady q =
     (case claim_ready (busy_shards q) (ready_buffers q) of
        None \<Rightarrow> None
      | Some (b, bs) \<Rightarrow>
          Some (b, q\<lparr>ready_buffers := bs, busy_shards := insert (db_shard_index b) (busy_shards q),
                     pending_target_count := pending_target_count q - length (db_targets b)\<rparr>))"

definition ClaimBuffer :: "video_queue \<Rightarrow> claim_result result \<times> nat list \<times> video_queue" where
  "ClaimBuffer q =
     (case queue_error q of
        Some e \<Rightarrow> (Inl e, [], q)
      | None \<Rightarrow>
          (case TryClaimReady q of
             Some (b, q1) \<Rightarrow> (let (woken, q2) = TakeBlockedProducers q1 in (Inr (Claimed b), woken, q2))
           | None \<Rightarrow> (Inr (if source_exhausted q \<or> stop_requested q then ClaimFinished else ClaimBlocked), [], q)))"

definition FinishBuffer :: "nat \<Rightarrow> video_queue \<Rightarrow> video_queue" where
  "FinishBuffer shard q = q\<lparr>busy_shards := busy_shards q - {shard}\<rparr>"

text \<open>What a waiting consumer polls: \<open>WaitForConsumer\<close> and \<open>WaitForBuffer\<close> return once it holds.\<close>

definition ConsumerCanProgress :: "video_queue \<Rightarrow> bool" where
  "ConsumerCanProgress q \<longleftrightarrow> queue_error q \<noteq> None \<or> source_exhausted q \<or> stop_requested q \<or>
     (\<exists>b\<in>set (ready_buffers q). db_shard_index b \<notin> busy_shards q)"

section \<open>Producers and consumers\<close>

text \<open>
  A producer runs its share of the frame queries. The rows of a query and the error it may end with are
  \<open>frame_result\<close>; \<open>pending_targets\<close> are those from \<open>pending_target_position\<close> on. A task that returned
  \<open>TASK_BLOCKED\<close> is \<open>Waiting\<close> until it is rescheduled; \<open>Leaving\<close> is the time between the decision to end and the
  call of \<open>Finish\<close>.
\<close>

datatype phase = Running | Waiting | Leaving | Finished

record video_producer =
  phase :: phase
  frame_result :: "(source_row list \<times> exn option) option"
  pending_targets :: "decode_target list"
  next_query :: nat

text \<open>\<open>Failed\<close> is a consumer whose call threw, or that the query does not call again.\<close>

datatype consumer = Idle | Holding decode_buffer | Ended | Failed

text \<open>\<open>delivered\<close> records the buffers that consumers have worked off; the code has no such variable.\<close>

record video_system =
  vqueue :: video_queue
  producers :: "nat \<Rightarrow> video_producer"
  consumers :: "nat \<Rightarrow> consumer"
  delivered :: "decode_buffer list"

text \<open>The setting of a run; DuckDB's answer to a query is a parameter.\<close>

record video_run =
  run_config :: producer_config
  run_query :: "string \<Rightarrow> source_row list \<times> exn option"
  producer_threads :: nat
  consumer_count :: nat

definition producer_count :: "video_run \<Rightarrow> nat" where
  "producer_count R = min (producer_threads R) (length (pc_frame_queries (run_config R)))"

definition new_queue :: "video_run \<Rightarrow> video_queue" where
  "new_queue R = \<lparr>active_producers = producer_count R, source_exhausted = (producer_count R = 0), stop_requested = False,
     queue_error = None, partial_buffers = (\<lambda>_. None), partial_lru = [], ready_buffers = [], busy_shards = {},
     blocked_producers = [], pending_target_count = 0\<rparr>"

definition new_system :: "video_run \<Rightarrow> video_system" where
  "new_system R = \<lparr>vqueue = new_queue R,
     producers = (\<lambda>i. \<lparr>phase = Running, frame_result = None, pending_targets = [], next_query = i\<rparr>),
     consumers = (\<lambda>_. Idle), delivered = []\<rparr>"

definition resume :: "video_producer \<Rightarrow> video_producer" where
  "resume p = (if phase p = Waiting then p\<lparr>phase := Running\<rparr> else p)"

definition wake :: "nat list \<Rightarrow> (nat \<Rightarrow> video_producer) \<Rightarrow> nat \<Rightarrow> video_producer" where
  "wake woken ps = (\<lambda>i. if i \<in> set woken then resume (ps i) else ps i)"

definition GetQuery :: "video_run \<Rightarrow> nat \<Rightarrow> video_queue \<Rightarrow> string option" where
  "GetQuery R query_index q =
     (if stop_requested q \<or> query_index \<ge> length (pc_frame_queries (run_config R)) then None
      else Some (pc_frame_queries (run_config R) ! query_index))"

text \<open>A producer that observes the request to stop, and one that catches an exception.\<close>

definition stop_producer :: "nat \<Rightarrow> video_system \<Rightarrow> video_system" where
  "stop_producer i s =
     (let (woken, q) = RequestStop (vqueue s)
      in s\<lparr>vqueue := q, producers := (wake woken (producers s))(i := (producers s i)\<lparr>phase := Leaving\<rparr>)\<rparr>)"

definition fail_producer :: "exn \<Rightarrow> nat \<Rightarrow> video_system \<Rightarrow> video_system" where
  "fail_producer e i s =
     (let (woken, q) = Fail e (vqueue s)
      in s\<lparr>vqueue := q, producers := (wake woken (producers s))(i := (producers s i)\<lparr>phase := Leaving\<rparr>)\<rparr>)"

text \<open>One round of the loop of \<open>ExecuteTask\<close>, after its test of the stop flag.\<close>

definition queue_pending :: "video_run \<Rightarrow> nat \<Rightarrow> video_system \<Rightarrow> video_system" where
  "queue_pending R i s =
     (let p = producers s i;
          (outcome, rest, q) = QueueTargets (run_config R) i (pending_targets p) (vqueue s);
          p1 = (case outcome of
                  Queued \<Rightarrow> p\<lparr>pending_targets := []\<rparr>
                | QueueBlocked \<Rightarrow> p\<lparr>pending_targets := rest, phase := Waiting\<rparr>
                | QueueStopped \<Rightarrow> p\<lparr>phase := Leaving\<rparr>)
      in s\<lparr>vqueue := q, producers := (producers s)(i := p1)\<rparr>)"

definition next_result :: "video_run \<Rightarrow> nat \<Rightarrow> video_system \<Rightarrow> video_system" where
  "next_result R i s =
     (let p = producers s i
      in case GetQuery R (next_query p) (vqueue s) of
           None \<Rightarrow> s\<lparr>producers := (producers s)(i := p\<lparr>phase := Leaving\<rparr>)\<rparr>
         | Some query \<Rightarrow>
             s\<lparr>producers := (producers s)(i := p\<lparr>frame_result := Some (run_query R query),
                next_query := next_query p + producer_count R\<rparr>)\<rparr>)"

definition next_row :: "video_run \<Rightarrow> nat \<Rightarrow> source_row list \<Rightarrow> exn option \<Rightarrow> video_system \<Rightarrow> video_system" where
  "next_row R i rows err s =
     (let p = producers s i
      in case rows of
           [] \<Rightarrow> (case err of
                    Some e \<Rightarrow> fail_producer e i s
                  | None \<Rightarrow> s\<lparr>producers := (producers s)(i := p\<lparr>frame_result := None\<rparr>)\<rparr>)
         | row # rest \<Rightarrow>
             (case BuildTargets (run_config R) row of
                Inl e \<Rightarrow> fail_producer e i s
              | Inr targets \<Rightarrow>
                  s\<lparr>producers := (producers s)(i := p\<lparr>frame_result := Some (rest, err), pending_targets := targets\<rparr>)\<rparr>))"

definition ExecuteTask_round :: "video_run \<Rightarrow> nat \<Rightarrow> video_system \<Rightarrow> video_system" where
  "ExecuteTask_round R i s =
     (let p = producers s i
      in if pending_targets p \<noteq> [] then queue_pending R i s
         else case frame_result p of
                None \<Rightarrow> next_result R i s
              | Some (rows, err) \<Rightarrow> next_row R i rows err s)"

definition finish_producer :: "video_run \<Rightarrow> nat list \<Rightarrow> bool \<Rightarrow> nat \<Rightarrow> video_system \<Rightarrow> video_system" where
  "finish_producer R order abandoned i s =
     s\<lparr>vqueue := ProducerFinished (run_config R) order abandoned (vqueue s),
       producers := (producers s)(i := (producers s i)\<lparr>phase := Finished\<rparr>)\<rparr>"

text \<open>
  A consumer in \<open>ProduceLerobotVideoFrames\<close>: it claims a buffer, or ends; when it has worked the buffer off
  it releases its file. A consumer that throws while decoding releases the file too.
\<close>

definition claim :: "nat \<Rightarrow> video_system \<Rightarrow> video_system" where
  "claim j s =
     (let (outcome, woken, q) = ClaimBuffer (vqueue s);
          state = (case outcome of
                     Inl e \<Rightarrow> Failed
                   | Inr (Claimed b) \<Rightarrow> Holding b
                   | Inr ClaimBlocked \<Rightarrow> consumers s j
                   | Inr ClaimFinished \<Rightarrow> Ended)
      in s\<lparr>vqueue := q, producers := wake woken (producers s), consumers := (consumers s)(j := state)\<rparr>)"

definition release :: "nat \<Rightarrow> decode_buffer \<Rightarrow> video_system \<Rightarrow> video_system" where
  "release j b s = s\<lparr>vqueue := FinishBuffer (db_shard_index b) (vqueue s), consumers := (consumers s)(j := Idle),
     delivered := delivered s @ [b]\<rparr>"

definition discard :: "nat \<Rightarrow> decode_buffer \<Rightarrow> video_system \<Rightarrow> video_system" where
  "discard j b s = s\<lparr>vqueue := FinishBuffer (db_shard_index b) (vqueue s), consumers := (consumers s)(j := Failed)\<rparr>"

section \<open>Interleavings\<close>

definition hash_order :: "video_queue \<Rightarrow> nat list \<Rightarrow> bool" where
  "hash_order q order \<longleftrightarrow> distinct order \<and> set order = dom (partial_buffers q)"

text \<open>
  The steps of the tasks and of the scans. A claim that would block is no step: the consumer waits until
  \<open>ConsumerCanProgress\<close>.
\<close>

inductive video_step :: "video_run \<Rightarrow> video_system \<Rightarrow> video_system \<Rightarrow> bool" for R where
  run_round: "i < producer_count R \<Longrightarrow> phase (producers s i) = Running \<Longrightarrow> video_step R s (ExecuteTask_round R i s)"
| observe_stop: "i < producer_count R \<Longrightarrow> phase (producers s i) = Running \<Longrightarrow> stop_requested (vqueue s) \<Longrightarrow>
    video_step R s (stop_producer i s)"
| finish: "i < producer_count R \<Longrightarrow> phase (producers s i) = Leaving \<Longrightarrow> hash_order (vqueue s) order \<Longrightarrow>
    video_step R s (finish_producer R order False i s)"
| claim: "j < consumer_count R \<Longrightarrow> consumers s j = Idle \<Longrightarrow> ConsumerCanProgress (vqueue s) \<Longrightarrow>
    video_step R s (claim j s)"
| release: "j < consumer_count R \<Longrightarrow> consumers s j = Holding b \<Longrightarrow> video_step R s (release j b s)"

text \<open>
  What the surroundings may do at any time: interrupt the query, make the connection of a producer throw,
  destroy a task, make decoding throw, and stop calling a consumer, with or without a buffer in its hands.
\<close>

inductive disturbance :: "video_run \<Rightarrow> video_system \<Rightarrow> video_system \<Rightarrow> bool" for R where
  interrupt: "\<not> stop_requested (vqueue s) \<or> blocked_producers (vqueue s) \<noteq> [] \<Longrightarrow> RequestStop (vqueue s) = (woken, q) \<Longrightarrow>
    disturbance R s (s\<lparr>vqueue := q, producers := wake woken (producers s)\<rparr>)"
| interrupted_task: "i < producer_count R \<Longrightarrow> phase (producers s i) = Running \<Longrightarrow> disturbance R s (stop_producer i s)"
| producer_throws: "i < producer_count R \<Longrightarrow> phase (producers s i) = Running \<Longrightarrow> disturbance R s (fail_producer e i s)"
| abandon: "i < producer_count R \<Longrightarrow> phase (producers s i) \<noteq> Finished \<Longrightarrow> disturbance R s (finish_producer R order True i s)"
| consumer_throws: "j < consumer_count R \<Longrightarrow> consumers s j = Holding b \<Longrightarrow> disturbance R s (discard j b s)"
| consumer_leaves: "j < consumer_count R \<Longrightarrow> consumers s j = Idle \<or> consumers s j = Holding b \<Longrightarrow>
    disturbance R s (s\<lparr>consumers := (consumers s)(j := Failed)\<rparr>)"

definition any_step :: "video_run \<Rightarrow> video_system \<Rightarrow> video_system \<Rightarrow> bool" where
  "any_step R s t \<longleftrightarrow> video_step R s t \<or> disturbance R s t"

inductive_cases video_stepE: "video_step R s t"
inductive_cases disturbanceE: "disturbance R s t"

section \<open>The invariant of the queue\<close>

definition buffer_ok :: "producer_config \<Rightarrow> decode_buffer \<Rightarrow> bool" where
  "buffer_ok c b \<longleftrightarrow> (\<exists>shard targets. b = FinalizeDecodeBuffer (pc_cluster_gap c) (new_buffer c shard targets) \<and>
     targets \<noteq> [] \<and> length targets \<le> max 1 (pc_target_buffer_size c) \<and> (\<forall>t\<in>set targets. target_shard c t = shard))"

definition queued :: "video_queue \<Rightarrow> decode_target multiset" where
  "queued q = (\<Sum>shard\<in>set (partial_lru q). mset (the (partial_buffers q shard))) +
     (\<Sum>b\<leftarrow>ready_buffers q. mset (db_targets b))"

text \<open>The shape of the queue while a buffer may be full, and between the critical sections.\<close>

definition queue_shape :: "producer_config \<Rightarrow> video_queue \<Rightarrow> bool" where
  "queue_shape c q \<longleftrightarrow>
     distinct (partial_lru q) \<and> set (partial_lru q) = dom (partial_buffers q) \<and>
     (\<forall>shard targets. partial_buffers q shard = Some targets \<longrightarrow>
        targets \<noteq> [] \<and> length targets \<le> max 1 (pc_target_buffer_size c) \<and> (\<forall>t\<in>set targets. target_shard c t = shard)) \<and>
     (\<forall>b\<in>set (ready_buffers q). buffer_ok c b) \<and> pending_target_count q = size (queued q)"

definition queue_ok :: "producer_config \<Rightarrow> video_queue \<Rightarrow> bool" where
  "queue_ok c q \<longleftrightarrow> queue_shape c q \<and> pending_target_count q \<le> pc_max_pending_targets c \<and>
     (\<forall>shard targets. partial_buffers q shard = Some targets \<longrightarrow> length targets < pc_target_buffer_size c)"

text \<open>The part of the queue that putting and flushing leave alone.\<close>

definition control :: "video_queue \<Rightarrow> nat \<times> bool \<times> bool \<times> exn option \<times> nat set \<times> nat list" where
  "control q = (active_producers q, source_exhausted q, stop_requested q, queue_error q, busy_shards q, blocked_producers q)"

lemma queue_shapeI:
  assumes "distinct (partial_lru q)" "set (partial_lru q) = dom (partial_buffers q)"
    and "\<And>shard targets. partial_buffers q shard = Some targets \<Longrightarrow> targets \<noteq> [] \<and>
      length targets \<le> max 1 (pc_target_buffer_size c) \<and> (\<forall>t\<in>set targets. target_shard c t = shard)"
    and "\<And>b. b \<in> set (ready_buffers q) \<Longrightarrow> buffer_ok c b" "pending_target_count q = size (queued q)"
  shows "queue_shape c q"
  using assms by (simp add: queue_shape_def)

lemma queue_shapeD:
  assumes "queue_shape c q"
  shows "distinct (partial_lru q)" "set (partial_lru q) = dom (partial_buffers q)"
    and "partial_buffers q shard = Some targets \<Longrightarrow> targets \<noteq> []"
    and "partial_buffers q shard = Some targets \<Longrightarrow> length targets \<le> max 1 (pc_target_buffer_size c)"
    and "partial_buffers q shard = Some targets \<Longrightarrow> t \<in> set targets \<Longrightarrow> target_shard c t = shard"
    and "b \<in> set (ready_buffers q) \<Longrightarrow> buffer_ok c b" "pending_target_count q = size (queued q)"
  using assms by (auto simp: queue_shape_def)

lemma buffer_ok_nonempty: "buffer_ok c b \<Longrightarrow> db_targets b \<noteq> []"
  unfolding buffer_ok_def new_buffer_def
  by (metis FinalizeDecodeBuffer_targets(5) decode_buffer.select_convs(3) length_0_conv)

lemma buffer_ok_new:
  assumes "targets \<noteq> []" "length targets \<le> max 1 (pc_target_buffer_size c)" "\<And>t. t \<in> set targets \<Longrightarrow> target_shard c t = shard"
  shows "buffer_ok c (FinalizeDecodeBuffer (pc_cluster_gap c) (new_buffer c shard targets))"
  using assms unfolding buffer_ok_def by blast

lemma FlushPartialBuffer_shape:
  assumes "queue_shape c q"
  defines "q' \<equiv> \<lambda>shard. FlushPartialBuffer c shard q"
  shows "queue_shape c (q' shard)" "queued (q' shard) = queued q" "control (q' shard) = control q"
    "partial_buffers (q' shard) = (partial_buffers q)(shard := None)" "pending_target_count (q' shard) = pending_target_count q"
    "\<exists>bs. ready_buffers (q' shard) = ready_buffers q @ bs \<and> (partial_buffers q shard \<noteq> None \<longrightarrow> bs \<noteq> [])"
proof -
  note q = queue_shapeD [OF assms(1)]
  have "queue_shape c (q' shard) \<and> queued (q' shard) = queued q \<and> control (q' shard) = control q \<and>
    partial_buffers (q' shard) = (partial_buffers q)(shard := None) \<and>
    pending_target_count (q' shard) = pending_target_count q \<and>
    (\<exists>bs. ready_buffers (q' shard) = ready_buffers q @ bs \<and> (partial_buffers q shard \<noteq> None \<longrightarrow> bs \<noteq> []))"
  proof (cases "partial_buffers q shard")
    case None
    then show ?thesis using assms(1) by (auto simp: q'_def FlushPartialBuffer_def)
  next
    case (Some targets)
    let ?b = "FinalizeDecodeBuffer (pc_cluster_gap c) (new_buffer c shard targets)"
    have "targets \<noteq> []" using q(3) [OF Some] .
    then have eq: "q' shard = q\<lparr>partial_buffers := (partial_buffers q)(shard := None),
        partial_lru := remove1 shard (partial_lru q), ready_buffers := ready_buffers q @ [?b]\<rparr>"
      using Some by (simp add: q'_def FlushPartialBuffer_def)
    have "shard \<in> set (partial_lru q)" using q(2) Some by auto
    then have queued: "queued (q' shard) = queued q"
      using q(1) Some
      by (simp add: eq queued_def set_remove1_eq sum.remove FinalizeDecodeBuffer_targets(1) new_buffer_def ac_simps)
    moreover have "queue_shape c (q' shard)"
    proof (rule queue_shapeI)
      show "set (partial_lru (q' shard)) = dom (partial_buffers (q' shard))" using q(1,2) by (auto simp: eq)
      fix b assume "b \<in> set (ready_buffers (q' shard))"
      moreover have "buffer_ok c ?b" using q(3,4,5) [OF Some] by (rule buffer_ok_new)
      ultimately show "buffer_ok c b" using q(6) by (auto simp: eq)
    next
      fix x ts assume "partial_buffers (q' shard) x = Some ts"
      then show "ts \<noteq> [] \<and> length ts \<le> max 1 (pc_target_buffer_size c) \<and> (\<forall>t\<in>set ts. target_shard c t = x)"
        using q(3,4,5) [of x ts] by (auto simp: eq split: if_splits)
    qed (use q queued in \<open>simp_all add: eq\<close>)
    ultimately show ?thesis by (simp add: eq control_def)
  qed
  then show "queue_shape c (q' shard)" "queued (q' shard) = queued q" "control (q' shard) = control q"
    "partial_buffers (q' shard) = (partial_buffers q)(shard := None)" "pending_target_count (q' shard) = pending_target_count q"
    "\<exists>bs. ready_buffers (q' shard) = ready_buffers q @ bs \<and> (partial_buffers q shard \<noteq> None \<longrightarrow> bs \<noteq> [])"
    by blast+
qed

lemma FlushAllPartialBuffers_ok:
  assumes "queue_ok c q" and "hash_order q order"
  shows "queue_ok c (FlushAllPartialBuffers c order q)" "queued (FlushAllPartialBuffers c order q) = queued q"
    "control (FlushAllPartialBuffers c order q) = control q" "partial_lru (FlushAllPartialBuffers c order q) = []"
    "\<exists>bs. ready_buffers (FlushAllPartialBuffers c order q) = ready_buffers q @ bs"
proof -
  have *: "queue_shape c (fold (FlushPartialBuffer c) xs q) \<and> queued (fold (FlushPartialBuffer c) xs q) = queued q \<and>
    control (fold (FlushPartialBuffer c) xs q) = control q \<and>
    partial_buffers (fold (FlushPartialBuffer c) xs q) = partial_buffers q |` (- set xs) \<and>
    pending_target_count (fold (FlushPartialBuffer c) xs q) = pending_target_count q \<and>
    (\<exists>bs. ready_buffers (fold (FlushPartialBuffer c) xs q) = ready_buffers q @ bs)" for xs
  proof (induction xs rule: rev_induct)
    case Nil
    then show ?case using assms(1) by (simp add: queue_ok_def)
  next
    case (snoc x xs)
    then have shape: "queue_shape c (fold (FlushPartialBuffer c) xs q)" by blast
    have "(partial_buffers q |` (- set xs))(x := None) = partial_buffers q |` (- set (xs @ [x]))"
      by (auto simp: restrict_map_def)
    with snoc FlushPartialBuffer_shape [OF shape, of x] show ?case by auto
  qed
  have "partial_buffers q |` (- set order) = (\<lambda>_. None)"
    using assms(2) by (auto simp: hash_order_def restrict_map_def fun_eq_iff)
  then have "partial_buffers (fold (FlushPartialBuffer c) order q) = (\<lambda>_. None)" using * [of order] by auto
  moreover from this have "set (partial_lru (fold (FlushPartialBuffer c) order q)) = {}"
    using * [of order] queue_shapeD(2) by fastforce
  ultimately show "queue_ok c (FlushAllPartialBuffers c order q)" "queued (FlushAllPartialBuffers c order q) = queued q"
    "control (FlushAllPartialBuffers c order q) = control q" "partial_lru (FlushAllPartialBuffers c order q) = []"
    "\<exists>bs. ready_buffers (FlushAllPartialBuffers c order q) = ready_buffers q @ bs"
    using * [of order] assms(1) by (auto simp: FlushAllPartialBuffers_def queue_ok_def)
qed

lemma QueueTarget_ok:
  assumes "queue_ok c q" and "pending_target_count q < pc_max_pending_targets c"
  shows "queue_ok c (QueueTarget c t q)" "queued (QueueTarget c t q) = add_mset t (queued q)"
    "control (QueueTarget c t q) = control q" "\<exists>bs. ready_buffers (QueueTarget c t q) = ready_buffers q @ bs"
proof -
  let ?s = "target_shard c t"
  define old where "old = (case partial_buffers q ?s of None \<Rightarrow> [] | Some ts \<Rightarrow> ts)"
  have shape: "queue_shape c q" using assms(1) by (simp add: queue_ok_def)
  note q = queue_shapeD [OF shape]
  have strict: "length ts < pc_target_buffer_size c" if "partial_buffers q x = Some ts" for x ts
    using assms(1) that by (simp add: queue_ok_def)
  have old: "length old + 1 \<le> max 1 (pc_target_buffer_size c)" "\<forall>x\<in>set (old @ [t]). target_shard c x = ?s"
    using strict [of ?s] q(5) [of ?s] by (cases "partial_buffers q ?s"; force simp: old_def)+
  define q2 where "q2 = q\<lparr>partial_buffers := (partial_buffers q)(?s \<mapsto> old @ [t]),
     partial_lru := ?s # remove1 ?s (partial_lru q), pending_target_count := pending_target_count q + 1\<rparr>"
  have eq: "QueueTarget c t q = (if length (old @ [t]) \<ge> pc_target_buffer_size c then FlushPartialBuffer c ?s q2 else q2)"
    by (simp add: QueueTarget_def Let_def old_def TouchPartialBuffer_def q2_def)
  have lru: "set (partial_lru q2) = insert ?s (set (partial_lru q))" "distinct (partial_lru q2)"
    using q(1) by (auto simp: q2_def)
  let ?A = "set (partial_lru q)" and ?f = "\<lambda>x. mset (the (partial_buffers q x))"
  have split: "(\<Sum>x\<in>insert ?s ?A. mset (the (partial_buffers q2 x))) = mset (old @ [t]) + sum ?f (?A - {?s})"
    by (subst sum.insert_remove) (auto simp: q2_def intro!: sum.cong)
  have "sum ?f ?A = mset old + sum ?f (?A - {?s})"
  proof (cases "?s \<in> ?A")
    case True
    then have "partial_buffers q ?s = Some old" using q(2) by (auto simp: old_def)
    with True show ?thesis by (simp add: sum.remove)
  next
    case False
    then have "partial_buffers q ?s = None" using q(2) by auto
    with False show ?thesis by (simp add: old_def)
  qed
  then have queued: "queued q2 = add_mset t (queued q)"
    using split lru(1) by (simp add: queued_def) (simp add: q2_def)
  have shape2: "queue_shape c q2"
  proof (rule queue_shapeI)
    fix x ts assume x: "partial_buffers q2 x = Some ts"
    show "ts \<noteq> [] \<and> length ts \<le> max 1 (pc_target_buffer_size c) \<and> (\<forall>t\<in>set ts. target_shard c t = x)"
    proof (cases "x = ?s")
      case True
      then have "ts = old @ [t]" using x by (simp add: q2_def)
      with old True show ?thesis by simp
    next
      case False
      then have "partial_buffers q x = Some ts" using x by (simp add: q2_def)
      then show ?thesis using q(3,4,5) [of x ts] by blast
    qed
  next
    show "set (partial_lru q2) = dom (partial_buffers q2)" using lru(1) q(2) by (simp add: q2_def)
    show "pending_target_count q2 = size (queued q2)" using queued q(7) by (simp add: q2_def)
    show "buffer_ok c b" if "b \<in> set (ready_buffers q2)" for b using that q(6) by (simp add: q2_def)
  qed (rule lru(2))
  have control: "control q2 = control q" "ready_buffers q2 = ready_buffers q"
    "pending_target_count q2 = pending_target_count q + 1"
    by (simp_all add: q2_def control_def)
  note flush = FlushPartialBuffer_shape [OF shape2, of ?s]
  show "queue_ok c (QueueTarget c t q)"
  proof (cases "length (old @ [t]) \<ge> pc_target_buffer_size c")
    case True
    with flush(1,4,5) control(3) assms(2) strict show ?thesis by (simp add: eq queue_ok_def) (simp add: q2_def)
  next
    case False
    have "partial_buffers q2 x = Some ts \<Longrightarrow> length ts < pc_target_buffer_size c" for x ts
      using strict [of x ts] False by (auto simp: q2_def split: if_splits)
    with False shape2 control(3) assms(2) show ?thesis by (simp add: eq queue_ok_def)
  qed
  show "queued (QueueTarget c t q) = add_mset t (queued q)" "control (QueueTarget c t q) = control q"
    "\<exists>bs. ready_buffers (QueueTarget c t q) = ready_buffers q @ bs"
    using flush(2,3,6) queued control by (auto simp: eq)
qed

lemma queue_while_ok:
  assumes "queue_while c ts q = (rest, q')" and "queue_ok c q"
  shows "queue_ok c q'" "queued q' + mset rest = queued q + mset ts" "control q' = control q"
    "\<exists>bs. ready_buffers q' = ready_buffers q @ bs" "rest \<noteq> [] \<Longrightarrow> pc_max_pending_targets c \<le> pending_target_count q'"
proof -
  have "queue_ok c q' \<and> queued q' + mset rest = queued q + mset ts \<and> control q' = control q \<and>
    (\<exists>bs. ready_buffers q' = ready_buffers q @ bs) \<and> (rest \<noteq> [] \<longrightarrow> pc_max_pending_targets c \<le> pending_target_count q')"
    using assms
  proof (induction c ts q rule: queue_while.induct)
    case (2 c t ts q)
    show ?case
    proof (cases "pending_target_count q < pc_max_pending_targets c")
      case True
      note one = QueueTarget_ok [OF 2(3) True, of t]
      from True 2(2) have "queue_while c ts (QueueTarget c t q) = (rest, q')" by simp
      from 2(1) [OF True this one(1)] one(2,3,4) show ?thesis by auto
    qed (use 2 in auto)
  qed simp
  then show "queue_ok c q'" "queued q' + mset rest = queued q + mset ts" "control q' = control q"
    "\<exists>bs. ready_buffers q' = ready_buffers q @ bs" "rest \<noteq> [] \<Longrightarrow> pc_max_pending_targets c \<le> pending_target_count q'"
    by blast+
qed

lemma FlushOldestPartialBuffer_ok:
  assumes "queue_ok c q"
  shows "queue_ok c (FlushOldestPartialBuffer c q)" "queued (FlushOldestPartialBuffer c q) = queued q"
    "control (FlushOldestPartialBuffer c q) = control q"
    "\<exists>bs. ready_buffers (FlushOldestPartialBuffer c q) = ready_buffers q @ bs"
    "pending_target_count q > 0 \<Longrightarrow> ready_buffers (FlushOldestPartialBuffer c q) \<noteq> []"
proof -
  have shape: "queue_shape c q" using assms by (simp add: queue_ok_def)
  note flush = FlushPartialBuffer_shape [OF shape]
  have "partial_buffers q (last (partial_lru q)) \<noteq> None" if "partial_lru q \<noteq> []"
    using queue_shapeD(2) [OF shape] that last_in_set by blast
  then show "queue_ok c (FlushOldestPartialBuffer c q)" "queued (FlushOldestPartialBuffer c q) = queued q"
    "control (FlushOldestPartialBuffer c q) = control q"
    "\<exists>bs. ready_buffers (FlushOldestPartialBuffer c q) = ready_buffers q @ bs"
    "pending_target_count q > 0 \<Longrightarrow> ready_buffers (FlushOldestPartialBuffer c q) \<noteq> []"
    using assms flush [of "last (partial_lru q)"] queue_shapeD(7) [OF shape]
    by (auto simp: FlushOldestPartialBuffer_def queue_ok_def queued_def split: if_splits)
qed

text \<open>What the three outcomes of \<open>QueueTargets\<close> mean.\<close>

lemma QueueTargets_cases:
  assumes "queue_ok c q" and "QueueTargets c i ts q = (outcome, rest, q')"
  obtains (stopped) "stop_requested q" "outcome = QueueStopped" "q' = q"
  | (queued) "\<not> stop_requested q" "outcome = Queued" "rest = []" "queue_ok c q'" "queued q' = queued q + mset ts"
      "control q' = control q" "\<exists>bs. ready_buffers q' = ready_buffers q @ bs"
  | (blocked) "\<not> stop_requested q" "outcome = QueueBlocked" "rest \<noteq> []" "queue_ok c q'" "queued q' + mset rest = queued q + mset ts"
      "control (q'\<lparr>blocked_producers := blocked_producers q\<rparr>) = control q" "blocked_producers q' = blocked_producers q @ [i]"
      "\<exists>bs. ready_buffers q' = ready_buffers q @ bs" "0 < pc_max_pending_targets c \<Longrightarrow> ready_buffers q' \<noteq> []"
proof -
  obtain r q1 where while: "queue_while c ts q = (r, q1)" by fastforce
  note w = queue_while_ok [OF while assms(1)]
  note f = FlushOldestPartialBuffer_ok [OF w(1)]
  have blocked: "queue_ok c (x\<lparr>blocked_producers := bs\<rparr>) \<longleftrightarrow> queue_ok c x" "queued (x\<lparr>blocked_producers := bs\<rparr>) = queued x" for x bs
    by (simp_all add: queue_ok_def queue_shape_def queued_def)
  show thesis
  proof (cases "stop_requested q")
    case True
    then show thesis using assms(2) by (intro that(1)) (auto simp: QueueTargets_def)
  next
    case running: False
    show thesis
    proof (cases "r = []")
      case True
      then have "outcome = Queued" "rest = []" "q' = q1"
        using assms(2) while running by (auto simp: QueueTargets_def)
      with running w(1-4) True show thesis by (intro that(2)) simp_all
    next
      case False
      let ?f = "FlushOldestPartialBuffer c q1"
      have q': "q' = ?f\<lparr>blocked_producers := blocked_producers ?f @ [i]\<rparr>" "rest = r" "outcome = QueueBlocked"
        using assms(2) while running False by (auto simp: QueueTargets_def Let_def)
      show thesis
      proof (rule that(3) [OF running q'(3)])
        show "control (q'\<lparr>blocked_producers := blocked_producers q\<rparr>) = control q"
          "blocked_producers q' = blocked_producers q @ [i]"
          using f(3) w(3) by (simp_all add: q' control_def)
        show "0 < pc_max_pending_targets c \<Longrightarrow> ready_buffers q' \<noteq> []" using f(5) w(5) False by (simp add: q')
        show "queue_ok c q'" "queued q' + mset rest = queued q + mset ts" using f(1,2) w(2) by (simp_all add: q' blocked)
        show "\<exists>bs. ready_buffers q' = ready_buffers q @ bs" using f(4) w(4) by (auto simp: q')
      qed (use False q' in simp)
    qed
  qed
qed

section \<open>What is left to deliver\<close>

text \<open>The queries of a producer from \<open>next_query\<close> on, by the stride of the producer count.\<close>

function left_queries :: "nat \<Rightarrow> nat \<Rightarrow> nat \<Rightarrow> nat list" where
  "left_queries stride len k = (if k < len \<and> 0 < stride then k # left_queries stride len (k + stride) else [])"
  by auto
termination by (relation "measure (\<lambda>(stride, len, k). len - k)") auto

declare left_queries.simps [simp del]

definition query_count :: "video_run \<Rightarrow> nat" where
  "query_count R = length (pc_frame_queries (run_config R))"

definition row_targets :: "producer_config \<Rightarrow> source_row \<Rightarrow> decode_target multiset" where
  "row_targets c row = (case BuildTargets c row of Inl e \<Rightarrow> {#} | Inr targets \<Rightarrow> mset targets)"

definition query_rows :: "video_run \<Rightarrow> nat \<Rightarrow> source_row list" where
  "query_rows R k = fst (run_query R (pc_frame_queries (run_config R) ! k))"

definition query_targets :: "video_run \<Rightarrow> nat \<Rightarrow> decode_target multiset" where
  "query_targets R k = (\<Sum>row\<leftarrow>query_rows R k. row_targets (run_config R) row)"

text \<open>All targets of a run: those of every row of every frame query.\<close>

definition all_targets :: "video_run \<Rightarrow> decode_target multiset" where
  "all_targets R = (\<Sum>k<query_count R. query_targets R k)"

definition producer_left :: "video_run \<Rightarrow> video_producer \<Rightarrow> decode_target multiset" where
  "producer_left R p = mset (pending_targets p) +
     (case frame_result p of None \<Rightarrow> {#} | Some (rows, err) \<Rightarrow> (\<Sum>row\<leftarrow>rows. row_targets (run_config R) row)) +
     (\<Sum>k\<leftarrow>left_queries (producer_count R) (query_count R) (next_query p). query_targets R k)"

definition source_left :: "video_run \<Rightarrow> video_system \<Rightarrow> decode_target multiset" where
  "source_left R s = (\<Sum>i<producer_count R. producer_left R (producers s i))"

definition consumer_targets :: "consumer \<Rightarrow> decode_target multiset" where
  "consumer_targets x = (case x of Holding b \<Rightarrow> mset (db_targets b) | _ \<Rightarrow> {#})"

definition held_targets :: "video_run \<Rightarrow> video_system \<Rightarrow> decode_target multiset" where
  "held_targets R s = (\<Sum>j<consumer_count R. consumer_targets (consumers s j))"

definition delivered_targets :: "video_system \<Rightarrow> decode_target multiset" where
  "delivered_targets s = (\<Sum>b\<leftarrow>delivered s. mset (db_targets b))"

section \<open>The invariant of the system\<close>

definition live :: "video_run \<Rightarrow> video_system \<Rightarrow> nat set" where
  "live R s = {i. i < producer_count R \<and> phase (producers s i) \<noteq> Finished}"

definition none_failed :: "video_run \<Rightarrow> video_system \<Rightarrow> bool" where
  "none_failed R s \<longleftrightarrow> (\<forall>j<consumer_count R. consumers s j \<noteq> Failed)"

definition consumer_inv :: "video_run \<Rightarrow> video_system \<Rightarrow> bool" where
  "consumer_inv R s \<longleftrightarrow>
     (\<forall>j<consumer_count R. \<forall>b. consumers s j = Holding b \<longrightarrow>
        buffer_ok (run_config R) b \<and> db_shard_index b \<in> busy_shards (vqueue s)) \<and>
     (\<forall>j<consumer_count R. \<forall>k<consumer_count R. \<forall>b b'. consumers s j = Holding b \<longrightarrow> consumers s k = Holding b' \<longrightarrow>
        db_shard_index b = db_shard_index b' \<longrightarrow> j = k) \<and>
     (none_failed R s \<longrightarrow> (\<forall>x\<in>busy_shards (vqueue s). \<exists>j<consumer_count R. \<exists>b. consumers s j = Holding b \<and> db_shard_index b = x))"

definition producer_inv :: "video_run \<Rightarrow> video_system \<Rightarrow> bool" where
  "producer_inv R s \<longleftrightarrow>
     active_producers (vqueue s) = card (live R s) \<and> (source_exhausted (vqueue s) \<longleftrightarrow> live R s = {}) \<and>
     (source_exhausted (vqueue s) \<longrightarrow> partial_lru (vqueue s) = []) \<and>
     (queue_error (vqueue s) \<noteq> None \<longrightarrow> stop_requested (vqueue s)) \<and>
     (\<forall>i<producer_count R. phase (producers s i) = Waiting \<longrightarrow> i \<in> set (blocked_producers (vqueue s)))"

definition running_inv :: "video_run \<Rightarrow> video_system \<Rightarrow> bool" where
  "running_inv R s \<longleftrightarrow> (\<not> stop_requested (vqueue s) \<longrightarrow>
     (\<forall>i\<in>set (blocked_producers (vqueue s)). i < producer_count R \<and> phase (producers s i) = Waiting) \<and>
     (blocked_producers (vqueue s) \<noteq> [] \<longrightarrow> ready_buffers (vqueue s) \<noteq> []) \<and>
     (\<forall>i<producer_count R. phase (producers s i) \<in> {Leaving, Finished} \<longrightarrow> producer_left R (producers s i) = {#}) \<and>
     (\<forall>j<consumer_count R. consumers s j = Ended \<longrightarrow> source_exhausted (vqueue s)) \<and>
     (none_failed R s \<longrightarrow>
        (ready_buffers (vqueue s) \<noteq> [] \<longrightarrow> (\<exists>j<consumer_count R. consumers s j \<noteq> Ended)) \<and>
        source_left R s + queued (vqueue s) + held_targets R s + delivered_targets s = all_targets R))"

definition run_ok :: "video_run \<Rightarrow> bool" where
  "run_ok R \<longleftrightarrow> 0 < pc_max_pending_targets (run_config R) \<and> 0 < consumer_count R \<and> 0 < producer_threads R"

definition video_inv :: "video_run \<Rightarrow> video_system \<Rightarrow> bool" where
  "video_inv R s \<longleftrightarrow> run_ok R \<and> queue_ok (run_config R) (vqueue s) \<and> consumer_inv R s \<and> producer_inv R s \<and> running_inv R s"

text \<open>Sums over the producers and the consumers, when one of them changes.\<close>

lemma sum_fun_upd:
  fixes f :: "'a \<Rightarrow> 'b :: comm_monoid_add" and n :: nat
  assumes "i < n"
  shows "(\<Sum>k<n. f ((g(i := x)) k)) + f (g i) = (\<Sum>k<n. f (g k)) + f x"
proof -
  have "(\<Sum>k<n. f ((g(i := x)) k)) = f x + (\<Sum>k\<in>{..<n} - {i}. f (g k))"
    using assms by (subst sum.remove [of _ i]) (auto intro!: sum.cong)
  moreover have "(\<Sum>k<n. f (g k)) = f (g i) + (\<Sum>k\<in>{..<n} - {i}. f (g k))"
    using assms by (subst sum.remove [of _ i]) auto
  ultimately show ?thesis by (simp add: ac_simps)
qed

lemma wake_simps [simp]:
  "phase (wake w ps i) = (if i \<in> set w \<and> phase (ps i) = Waiting then Running else phase (ps i))"
  "producer_left R (wake w ps i) = producer_left R (ps i)" "wake [] ps = ps"
  "frame_result (wake w ps i) = frame_result (ps i)"
  by (auto simp: wake_def resume_def producer_left_def)

lemma queued_simps [simp]:
  "queued (q\<lparr>active_producers := a\<rparr>) = queued q" "queued (q\<lparr>source_exhausted := e\<rparr>) = queued q"
  "queued (q\<lparr>stop_requested := e\<rparr>) = queued q" "queued (q\<lparr>queue_error := err\<rparr>) = queued q"
  "queued (q\<lparr>busy_shards := B\<rparr>) = queued q" "queued (q\<lparr>blocked_producers := bl\<rparr>) = queued q"
  "queued (q\<lparr>pending_target_count := k\<rparr>) = queued q"
  by (simp_all add: queued_def)

lemma queue_ok_simps [simp]:
  "queue_ok c (q\<lparr>active_producers := a\<rparr>) = queue_ok c q" "queue_ok c (q\<lparr>source_exhausted := e\<rparr>) = queue_ok c q"
  "queue_ok c (q\<lparr>stop_requested := e\<rparr>) = queue_ok c q" "queue_ok c (q\<lparr>queue_error := err\<rparr>) = queue_ok c q"
  "queue_ok c (q\<lparr>busy_shards := B\<rparr>) = queue_ok c q" "queue_ok c (q\<lparr>blocked_producers := bl\<rparr>) = queue_ok c q"
  by (simp_all add: queue_ok_def queue_shape_def)

text \<open>The initial state: every query belongs to one producer.\<close>

lemma left_queries_set:
  assumes "0 < stride"
  shows "set (left_queries stride len k) = {x. k \<le> x \<and> x < len \<and> x mod stride = k mod stride} \<and> distinct (left_queries stride len k)"
  using assms
proof (induction stride len k rule: left_queries.induct)
  case (1 stride len k)
  show ?case
  proof (cases "k < len \<and> 0 < stride")
    case True
    have "{x. k \<le> x \<and> x < len \<and> x mod stride = k mod stride} =
        insert k {x. k + stride \<le> x \<and> x < len \<and> x mod stride = (k + stride) mod stride}"
    proof (intro equalityI subsetI)
      fix x assume x: "x \<in> {x. k \<le> x \<and> x < len \<and> x mod stride = k mod stride}"
      show "x \<in> insert k {x. k + stride \<le> x \<and> x < len \<and> x mod stride = (k + stride) mod stride}"
      proof (cases "x = k")
        case False
        have "stride dvd x - k" using x mod_eq_dvd_iff_nat [of k x stride] by auto
        then obtain d where "x - k = stride * d" by (elim dvdE)
        moreover have "x = k + (x - k)" using x by simp
        ultimately have d: "x = k + d * stride" by (simp only: mult.commute)
        with False have "0 < d" by (cases d) auto
        then have "stride \<le> d * stride" by simp
        with x d show ?thesis by auto
      qed simp
    qed (use True in auto)
    with True 1 show ?thesis by (subst (1 2) left_queries.simps) auto
  next
    case False
    then show ?thesis using 1(2) by (subst (1 2) left_queries.simps) auto
  qed
qed

lemma left_queries_all:
  fixes f :: "nat \<Rightarrow> 'a multiset"
  assumes "0 < n \<or> len = 0"
  shows "(\<Sum>i<n. \<Sum>k\<leftarrow>left_queries n len i. f k) = (\<Sum>k<len. f k)"
proof (cases "0 < n")
  case True
  have "(\<Sum>k\<leftarrow>left_queries n len i. f k) = (\<Sum>k | k < len \<and> k mod n = i. f k)" if "i < n" for i
  proof -
    have "{x. i \<le> x \<and> x < len \<and> x mod n = i mod n} = {k. k < len \<and> k mod n = i}"
      using that by (auto simp: mod_less_eq_dividend)
    then show ?thesis using left_queries_set [OF True, of len i] by (simp add: sum.distinct_set_conv_list [symmetric])
  qed
  then have "(\<Sum>i<n. \<Sum>k\<leftarrow>left_queries n len i. f k) = (\<Sum>i<n. \<Sum>k\<in>{k \<in> {..<len}. k mod n = i}. f k)"
    by simp
  also have "\<dots> = (\<Sum>k<len. f k)" using True by (intro sum.group) auto
  finally show ?thesis .
qed (use assms in simp)

end
