(* ===== verification/VideoRun.thy ===== *)
theory VideoRun
  imports VideoQueue
begin

text \<open>
  Every interleaving of producers, consumers and outside events keeps the invariant of the target queue,
  and every run ends with each target delivered once (\<open>src/function/video/lerobot_video_frames.cpp\<close>).
\<close>

section \<open>The invariant holds at the start\<close>

lemma video_invD:
  assumes "video_inv R s"
  shows "run_ok R" "queue_ok (run_config R) (vqueue s)" "consumer_inv R s" "producer_inv R s" "running_inv R s"
  using assms by (simp_all add: video_inv_def)

lemma producer_invD:
  assumes "producer_inv R s"
  shows "active_producers (vqueue s) = card (live R s)" "source_exhausted (vqueue s) \<longleftrightarrow> live R s = {}"
    and "source_exhausted (vqueue s) \<Longrightarrow> partial_lru (vqueue s) = []"
    and "queue_error (vqueue s) \<noteq> None \<Longrightarrow> stop_requested (vqueue s)"
    and "i < producer_count R \<Longrightarrow> phase (producers s i) = Waiting \<Longrightarrow> i \<in> set (blocked_producers (vqueue s))"
  using assms by (auto simp: producer_inv_def)

lemma consumer_invD:
  assumes "consumer_inv R s"
  shows "j < consumer_count R \<Longrightarrow> consumers s j = Holding b \<Longrightarrow> buffer_ok (run_config R) b"
    and "j < consumer_count R \<Longrightarrow> consumers s j = Holding b \<Longrightarrow> db_shard_index b \<in> busy_shards (vqueue s)"
    and "j < consumer_count R \<Longrightarrow> k < consumer_count R \<Longrightarrow> consumers s j = Holding b \<Longrightarrow> consumers s k = Holding b' \<Longrightarrow>
      db_shard_index b = db_shard_index b' \<Longrightarrow> j = k"
    and "none_failed R s \<Longrightarrow> x \<in> busy_shards (vqueue s) \<Longrightarrow>
      \<exists>j<consumer_count R. \<exists>b. consumers s j = Holding b \<and> db_shard_index b = x"
  using assms by (auto simp: consumer_inv_def)

lemma consumer_invI:
  assumes "\<And>j b. j < consumer_count R \<Longrightarrow> consumers s j = Holding b \<Longrightarrow>
      buffer_ok (run_config R) b \<and> db_shard_index b \<in> busy_shards (vqueue s)"
    and "\<And>j k b b'. j < consumer_count R \<Longrightarrow> k < consumer_count R \<Longrightarrow> consumers s j = Holding b \<Longrightarrow>
      consumers s k = Holding b' \<Longrightarrow> db_shard_index b = db_shard_index b' \<Longrightarrow> j = k"
    and "\<And>x. none_failed R s \<Longrightarrow> x \<in> busy_shards (vqueue s) \<Longrightarrow>
      \<exists>j<consumer_count R. \<exists>b. consumers s j = Holding b \<and> db_shard_index b = x"
  shows "consumer_inv R s"
  unfolding consumer_inv_def using assms by blast

lemma running_invD:
  assumes "running_inv R s" and "\<not> stop_requested (vqueue s)"
  shows "i \<in> set (blocked_producers (vqueue s)) \<Longrightarrow> i < producer_count R \<and> phase (producers s i) = Waiting"
    and "blocked_producers (vqueue s) \<noteq> [] \<Longrightarrow> ready_buffers (vqueue s) \<noteq> []"
    and "i < producer_count R \<Longrightarrow> phase (producers s i) \<in> {Leaving, Finished} \<Longrightarrow> producer_left R (producers s i) = {#}"
    and "j < consumer_count R \<Longrightarrow> consumers s j = Ended \<Longrightarrow> source_exhausted (vqueue s)"
    and "none_failed R s \<Longrightarrow> ready_buffers (vqueue s) \<noteq> [] \<Longrightarrow> \<exists>j<consumer_count R. consumers s j \<noteq> Ended"
    and "none_failed R s \<Longrightarrow>
      source_left R s + queued (vqueue s) + held_targets R s + delivered_targets s = all_targets R"
  using assms by (auto simp: running_inv_def)

lemma new_system_inv: "run_ok R \<Longrightarrow> video_inv R (new_system R)"
proof -
  assume R: "run_ok R"
  have "live R (new_system R) = {..<producer_count R}" by (auto simp: live_def new_system_def)
  then have "producer_inv R (new_system R)"
    by (auto simp: producer_inv_def new_system_def new_queue_def lessThan_empty_iff)
  moreover have "0 < producer_count R \<or> query_count R = 0"
    using R by (auto simp: run_ok_def producer_count_def query_count_def)
  then have "source_left R (new_system R) = all_targets R"
    using left_queries_all [of "producer_count R" "query_count R" "query_targets R"]
    by (simp add: source_left_def new_system_def producer_left_def all_targets_def)
  then have "running_inv R (new_system R)"
    by (simp add: running_inv_def queued_def held_targets_def delivered_targets_def)
      (simp add: new_system_def new_queue_def consumer_targets_def)
  moreover have "queue_ok (run_config R) (vqueue (new_system R))"
    by (simp add: new_system_def new_queue_def queue_ok_def queue_shape_def queued_def)
  moreover have "consumer_inv R (new_system R)"
    by (simp add: consumer_inv_def new_system_def new_queue_def)
  ultimately show ?thesis using R by (simp add: video_inv_def)
qed

section \<open>Every step keeps the invariant\<close>

text \<open>A request to stop, by whom ever.\<close>

lemma video_stop_inv:
  assumes inv: "video_inv R s"
    and q: "q = (vqueue s)\<lparr>queue_error := err, stop_requested := True, blocked_producers := []\<rparr>"
    and ps: "\<And>i. i < producer_count R \<Longrightarrow>
      (phase (ps i) = Finished \<longleftrightarrow> phase (producers s i) = Finished) \<and> phase (ps i) \<noteq> Waiting"
  shows "video_inv R (s\<lparr>vqueue := q, producers := ps\<rparr>)"
proof -
  note inv = video_invD [OF inv]
  have "live R (s\<lparr>vqueue := q, producers := ps\<rparr>) = live R s" using ps by (auto simp: live_def)
  then have "producer_inv R (s\<lparr>vqueue := q, producers := ps\<rparr>)"
    using inv(4) ps by (auto simp: producer_inv_def q)
  moreover have "consumer_inv R (s\<lparr>vqueue := q, producers := ps\<rparr>)"
    using inv(3) by (simp add: consumer_inv_def none_failed_def q)
  ultimately show ?thesis using inv(1,2) by (simp add: video_inv_def running_inv_def q)
qed

lemma stop_producer_inv:
  assumes "video_inv R s" and "phase (producers s i) = Running"
  shows "video_inv R (stop_producer i s)" "video_inv R (fail_producer e i s)"
proof -
  have "video_inv R (s\<lparr>vqueue := (vqueue s)\<lparr>queue_error := err, stop_requested := True, blocked_producers := []\<rparr>,
      producers := (wake (blocked_producers (vqueue s)) (producers s))(i := (producers s i)\<lparr>phase := Leaving\<rparr>)\<rparr>)" for err
    using producer_invD(5) [OF video_invD(4) [OF assms(1)]] assms(2) by (intro video_stop_inv [OF assms(1) refl]) auto
  from this [of "queue_error (vqueue s)"] this [of "(case queue_error (vqueue s) of None \<Rightarrow> Some e | err \<Rightarrow> err)"]
  show "video_inv R (stop_producer i s)" "video_inv R (fail_producer e i s)"
    by (simp_all add: stop_producer_def fail_producer_def RequestStop_def Fail_def TakeBlockedProducers_def)
qed

text \<open>A producer that works on its own.\<close>

lemma source_left_upd:
  assumes "i < producer_count R"
  shows "source_left R (s\<lparr>vqueue := q, producers := (producers s)(i := p)\<rparr>) + producer_left R (producers s i) =
    source_left R s + producer_left R p"
  using sum_fun_upd [OF assms, of "producer_left R" "producers s" p] by (simp add: source_left_def)

lemma own_producer_inv:
  assumes inv: "video_inv R s" and i: "i < producer_count R" "phase (producers s i) = Running"
    and p: "phase p \<in> {Running, Leaving}"
    and left: "\<not> stop_requested (vqueue s) \<Longrightarrow> producer_left R p = producer_left R (producers s i) \<and>
      (phase p = Leaving \<longrightarrow> producer_left R p = {#})"
  shows "video_inv R (s\<lparr>producers := (producers s)(i := p)\<rparr>)" (is "video_inv R ?t")
proof -
  note inv = video_invD [OF inv]
  have "live R ?t = live R s" using i p by (auto simp: live_def)
  then have "producer_inv R ?t"
    using inv(4) p by (auto simp: producer_inv_def)
  moreover have "consumer_inv R ?t" using inv(3) by (simp add: consumer_inv_def none_failed_def)
  moreover have "running_inv R ?t"
  proof (cases "stop_requested (vqueue s)")
    case False
    note run = running_invD [OF inv(5) False]
    have "source_left R ?t = source_left R s"
      using source_left_upd [OF i(1), where s = s and q = "vqueue s" and p = p] left [OF False] by simp
    moreover have "i \<notin> set (blocked_producers (vqueue s))" using run(1) i(2) by auto
    ultimately show ?thesis
      using inv(5) left [OF False] False p
      by (auto simp: running_inv_def held_targets_def delivered_targets_def none_failed_def)
  qed (simp add: running_inv_def)
  ultimately show ?thesis using inv(1,2) by (simp add: video_inv_def)
qed

lemma left_queries_Cons:
  "k < len \<Longrightarrow> 0 < stride \<Longrightarrow> left_queries stride len k = k # left_queries stride len (k + stride)"
  "len \<le> k \<Longrightarrow> left_queries stride len k = []"
  by (subst left_queries.simps, simp)+

lemma next_result_inv:
  assumes inv: "video_inv R s" and i: "i < producer_count R" "phase (producers s i) = Running"
    and p: "pending_targets (producers s i) = []" "frame_result (producers s i) = None"
  shows "video_inv R (next_result R i s)"
proof (cases "GetQuery R (next_query (producers s i)) (vqueue s)")
  case None
  then have "\<not> stop_requested (vqueue s) \<Longrightarrow> query_count R \<le> next_query (producers s i)"
    by (auto simp: GetQuery_def query_count_def split: if_splits)
  then have "\<not> stop_requested (vqueue s) \<Longrightarrow> producer_left R (producers s i) = {#}"
    using p by (simp add: producer_left_def left_queries_Cons)
  with None show ?thesis
    by (auto simp: next_result_def producer_left_def intro!: own_producer_inv [OF inv i])
next
  case (Some query)
  let ?k = "next_query (producers s i)"
  have "?k < query_count R" "query = pc_frame_queries (run_config R) ! ?k"
    using Some by (auto simp: GetQuery_def query_count_def split: if_splits)
  then have "producer_left R ((producers s i)\<lparr>frame_result := Some (run_query R query), next_query := ?k + producer_count R\<rparr>) =
      producer_left R (producers s i)"
    using p i by (auto simp: producer_left_def left_queries_Cons query_targets_def query_rows_def split: prod.split)
  then show ?thesis
    using i(2) by (auto simp: next_result_def Let_def Some intro!: own_producer_inv [OF inv i])
qed

lemma next_row_inv:
  assumes inv: "video_inv R s" and i: "i < producer_count R" "phase (producers s i) = Running"
    and p: "pending_targets (producers s i) = []" "frame_result (producers s i) = Some (rows, err)"
  shows "video_inv R (next_row R i rows err s)"
proof (cases rows)
  case Nil
  show ?thesis
  proof (cases err)
    case None
    with Nil p i(2) show ?thesis
      by (auto simp: next_row_def producer_left_def intro!: own_producer_inv [OF inv i])
  qed (simp add: next_row_def Nil stop_producer_inv [OF inv i(2)])
next
  case (Cons row rest)
  show ?thesis
  proof (cases "BuildTargets (run_config R) row")
    case (Inr targets)
    with Cons p i(2) show ?thesis
      by (auto simp: next_row_def producer_left_def row_targets_def intro!: own_producer_inv [OF inv i])
  qed (simp add: next_row_def Cons stop_producer_inv [OF inv i(2)])
qed

text \<open>A producer that puts its targets into the queue.\<close>

lemma controlD:
  assumes "control q' = control q"
  shows "active_producers q' = active_producers q" "source_exhausted q' = source_exhausted q"
    "stop_requested q' = stop_requested q" "queue_error q' = queue_error q" "busy_shards q' = busy_shards q"
    "blocked_producers q' = blocked_producers q"
  using assms by (simp_all add: control_def)

lemma consumer_inv_cong:
  assumes "consumer_inv R s" and "consumers t = consumers s" "busy_shards (vqueue t) = busy_shards (vqueue s)"
  shows "consumer_inv R t"
  using assms by (simp add: consumer_inv_def none_failed_def)

lemma queue_pending_inv:
  assumes inv: "video_inv R s" and i: "i < producer_count R" "phase (producers s i) = Running"
    and pending: "pending_targets (producers s i) \<noteq> []"
  shows "video_inv R (queue_pending R i s)"
proof -
  let ?p = "producers s i"
  obtain outcome rest q where out: "QueueTargets (run_config R) i (pending_targets ?p) (vqueue s) = (outcome, rest, q)"
    by (metis prod_cases3)
  note inv' = video_invD [OF inv]
  have "i \<in> live R s" using i by (simp add: live_def)
  then have running: "\<not> source_exhausted (vqueue s)" using producer_invD(2) [OF inv'(4)] by auto
  have ended: "consumers s j \<noteq> Ended" if "j < consumer_count R" "\<not> stop_requested (vqueue s)" for j
    using running_invD(4) [OF inv'(5) that(2,1)] running by auto
  have max: "0 < pc_max_pending_targets (run_config R)" "0 < consumer_count R" using inv'(1) by (simp_all add: run_ok_def)
  show ?thesis
    using inv'(2) out
  proof (cases rule: QueueTargets_cases)
    case stopped
    then have "queue_pending R i s = s\<lparr>producers := (producers s)(i := ?p\<lparr>phase := Leaving\<rparr>)\<rparr>"
      using out by (simp add: queue_pending_def)
    then show ?thesis using stopped by (auto intro!: own_producer_inv [OF inv i])
  next
    case queued
    let ?t = "s\<lparr>vqueue := q, producers := (producers s)(i := ?p\<lparr>pending_targets := []\<rparr>)\<rparr>"
    have t: "queue_pending R i s = ?t" using out queued by (simp add: queue_pending_def)
    note c = controlD [OF queued(6)]
    note run = running_invD [OF inv'(5) queued(1)]
    have "live R ?t = live R s" using i by (auto simp: live_def)
    then have "producer_inv R ?t"
      using inv'(4) running by (auto simp: producer_inv_def c)
    moreover have "running_inv R ?t"
    proof -
      have left: "source_left R ?t + mset (pending_targets ?p) = source_left R s"
        using source_left_upd [OF i(1), where s = s and q = q and p = "?p\<lparr>pending_targets := []\<rparr>"]
        by (simp add: producer_left_def)
      have "source_left R ?t + queued q + held_targets R s + delivered_targets s = all_targets R" if "none_failed R s"
        using run(6) [OF that] by (simp add: left [symmetric] queued(5) ac_simps)
      then show ?thesis
        using run queued(7) i ended [OF _ queued(1)] max
        by (auto simp: running_inv_def c held_targets_def delivered_targets_def none_failed_def)
    qed
    ultimately show ?thesis
      using inv'(1) queued(4) consumer_inv_cong [OF inv'(3), of ?t] by (simp add: video_inv_def t c)
  next
    case blocked
    let ?t = "s\<lparr>vqueue := q, producers := (producers s)(i := ?p\<lparr>pending_targets := rest, phase := Waiting\<rparr>)\<rparr>"
    have t: "queue_pending R i s = ?t" using out blocked by (simp add: queue_pending_def)
    have c: "active_producers q = active_producers (vqueue s)" "source_exhausted q = source_exhausted (vqueue s)"
      "stop_requested q = stop_requested (vqueue s)" "queue_error q = queue_error (vqueue s)"
      "busy_shards q = busy_shards (vqueue s)"
      using blocked(6) by (simp_all add: control_def)
    note run = running_invD [OF inv'(5) blocked(1)]
    have "live R ?t = live R s" using i by (auto simp: live_def)
    then have "producer_inv R ?t"
      using inv'(4) running by (auto simp: producer_inv_def c blocked(7))
    moreover have "running_inv R ?t"
    proof -
      have left: "source_left R ?t + mset (pending_targets ?p) = source_left R s + mset rest"
        using source_left_upd [OF i(1), where s = s and q = q and p = "?p\<lparr>pending_targets := rest, phase := Waiting\<rparr>"]
        by (simp add: producer_left_def)
      have "source_left R ?t + queued q + held_targets R s + delivered_targets s = all_targets R" if "none_failed R s"
      proof -
        have "(source_left R ?t + mset (pending_targets ?p)) + (queued q + mset rest) =
            (source_left R s + mset rest) + (queued (vqueue s) + mset (pending_targets ?p))"
          by (simp only: left blocked(5))
        then have "source_left R ?t + queued q = source_left R s + queued (vqueue s)" by (simp add: ac_simps)
        then show ?thesis using run(6) [OF that] by simp
      qed
      then show ?thesis
        using run blocked(7-9) i ended [OF _ blocked(1)] max
        by (auto simp: running_inv_def c held_targets_def delivered_targets_def none_failed_def)
    qed
    ultimately show ?thesis
      using inv'(1) blocked(4) consumer_inv_cong [OF inv'(3), of ?t] by (simp add: video_inv_def t c)
  qed
qed

lemma ExecuteTask_round_inv:
  assumes "video_inv R s" "i < producer_count R" "phase (producers s i) = Running"
  shows "video_inv R (ExecuteTask_round R i s)"
  using assms
  by (auto simp: ExecuteTask_round_def Let_def queue_pending_inv next_result_inv next_row_inv split: option.splits)

text \<open>A producer that finishes, with or without publishing.\<close>

lemma finish_producer_inv:
  assumes inv: "video_inv R s" and i: "i < producer_count R" "phase (producers s i) \<noteq> Finished"
    and order: "\<not> abandoned \<Longrightarrow> phase (producers s i) = Leaving \<and> hash_order (vqueue s) order"
  shows "video_inv R (finish_producer R order abandoned i s)" (is "video_inv R ?t")
proof -
  note inv' = video_invD [OF inv]
  note prod = producer_invD [OF inv'(4)]
  let ?q = "vqueue s" and ?c = "run_config R"
  have live: "live R ?t = live R s - {i}" "i \<in> live R s" "finite (live R s)"
    using i by (auto simp: live_def finish_producer_def)
  have active: "active_producers ?q - 1 = card (live R ?t)" using live prod(1) by simp
  have none_live: "card (live R ?t) = 0 \<longleftrightarrow> live R ?t = {}" by (rule card_0_eq) (simp add: live(1,3))
  have running: "\<not> source_exhausted ?q" using live(2) prod(2) by auto
  have phases: "phase (producers ?t k) = (if k = i then Finished else phase (producers s k))"
    "producer_left R (producers ?t k) = producer_left R (producers s k)" for k
    by (auto simp: finish_producer_def producer_left_def)
  have left: "source_left R ?t = source_left R s" using phases(2) by (simp add: source_left_def)
  show ?thesis
  proof (cases "stop_requested ?q \<or> abandoned")
    case True
    define q' where "q' = ?q\<lparr>stop_requested := True, active_producers := card (live R ?t), partial_buffers := \<lambda>_. None,
      partial_lru := [], ready_buffers := [], pending_target_count := 0, source_exhausted := (card (live R ?t) = 0)\<rparr>"
    have q': "vqueue ?t = q'"
      using True running active by (auto simp: finish_producer_def ProducerFinished_def Let_def q'_def)
    have "queue_ok ?c q'" by (simp add: q'_def queue_ok_def queue_shape_def queued_def)
    moreover have "producer_inv R ?t"
      using prod(5) none_live by (simp add: producer_inv_def q' phases) (simp add: q'_def)
    moreover have "consumer_inv R ?t"
      by (rule consumer_inv_cong [OF inv'(3)]) (auto simp: q', auto simp: q'_def finish_producer_def)
    ultimately show ?thesis using inv'(1) by (simp add: video_inv_def running_inv_def q' del: split_paired_All) (simp add: q'_def)
  next
    case False
    then have phase: "phase (producers s i) = Leaving" and order: "hash_order ?q order" using order by auto
    have no_error: "queue_error ?q = None" using prod(4) False by blast
    define q1 where "q1 = ?q\<lparr>stop_requested := False, active_producers := card (live R ?t)\<rparr>"
    define q' where "q' = (if card (live R ?t) = 0 then FlushAllPartialBuffers ?c order q1 else q1)"
    have ok1: "queue_ok ?c q1" "hash_order q1 order" "queued q1 = queued ?q" "ready_buffers q1 = ready_buffers ?q"
      using inv'(2) order by (simp_all add: q1_def hash_order_def)
    note flush = FlushAllPartialBuffers_ok [OF ok1(1,2)]
    have c: "control q' = control q1" "queue_ok ?c q'" "queued q' = queued ?q"
      "\<exists>bs. ready_buffers q' = ready_buffers ?q @ bs" "card (live R ?t) = 0 \<Longrightarrow> partial_lru q' = []"
      using flush ok1 by (auto simp: q'_def)
    note c' = controlD [OF c(1)]
    have q': "vqueue ?t = q'\<lparr>source_exhausted := (card (live R ?t) = 0)\<rparr>"
    proof -
      have q1: "?q\<lparr>stop_requested := stop_requested ?q \<or> abandoned, active_producers := active_producers ?q - 1\<rparr> = q1"
        "stop_requested q1 = False" "active_producers q1 = card (live R ?t)"
        using False active by (simp_all add: q1_def)
      have "ProducerFinished ?c order abandoned ?q =
          (if active_producers q' = 0 then q'\<lparr>source_exhausted := True\<rparr> else q')"
        unfolding ProducerFinished_def Let_def q1(1) q'_def by (simp only: q1(2,3) if_False)
      moreover have "active_producers q' = card (live R ?t)" "source_exhausted q' = False"
        using running c' by (simp_all add: q1_def)
      moreover have "q'\<lparr>source_exhausted := False\<rparr> = q'" if "source_exhausted q' = False"
        using that by (cases q') simp
      moreover have "vqueue ?t = ProducerFinished ?c order abandoned ?q" by (simp add: finish_producer_def)
      ultimately show ?thesis by (cases "card (live R ?t) = 0") simp_all
    qed
    have "producer_inv R ?t"
      using prod(5) none_live c' c(5) no_error by (simp add: producer_inv_def q' phases q1_def)
    moreover have "consumer_inv R ?t"
      by (rule consumer_inv_cong [OF inv'(3)]) (auto simp: q' c' q1_def, simp add: finish_producer_def)
    moreover have "running_inv R ?t"
    proof -
      have stop: "\<not> stop_requested ?q" using False by blast
      note run = running_invD [OF inv'(5) stop]
      have ended: "consumers s j \<noteq> Ended" if "j < consumer_count R" for j
        using run(4) [OF that] running by auto
      have t: "consumers ?t = consumers s" "delivered ?t = delivered s" by (simp_all add: finish_producer_def)
      have "i \<notin> set (blocked_producers ?q)" using run(1) phase by auto
      moreover have "blocked_producers q' = blocked_producers ?q" using c' by (simp add: q1_def)
      ultimately show ?thesis
        using run c(3,4) ended phase inv'(1)
        by (auto simp: running_inv_def q' t left phases(2) none_failed_def held_targets_def delivered_targets_def run_ok_def)
          (auto simp: phases split: if_splits)
    qed
    ultimately show ?thesis using inv'(1) c(2) by (simp add: video_inv_def q')
  qed
qed

text \<open>Consumers.\<close>

lemma claim_ready_Some:
  "claim_ready busy bs = Some (b, bs') \<Longrightarrow>
     db_shard_index b \<notin> busy \<and> set bs = insert b (set bs') \<and>
     (\<Sum>x\<leftarrow>bs. f x) = f b + (\<Sum>x\<leftarrow>bs'. (f x :: 'a :: comm_monoid_add))"
  by (induction bs arbitrary: bs') (auto split: if_splits option.splits simp: ac_simps)

lemma claim_ready_None: "claim_ready busy bs = None \<longleftrightarrow> (\<forall>b\<in>set bs. db_shard_index b \<in> busy)"
  by (induction bs) (auto split: option.splits)

text \<open>The outcomes of \<open>ClaimBuffer\<close>.\<close>

lemma ClaimBuffer_cases:
  assumes "queue_ok c q" and "ClaimBuffer q = (outcome, woken, q')"
  obtains (error) e where "queue_error q = Some e" "outcome = Inl e" "woken = []" "q' = q"
  | (claimed) b bs where "queue_error q = None" "outcome = Inr (Claimed b)" "woken = blocked_producers q"
      "db_shard_index b \<notin> busy_shards q" "buffer_ok c b" "set (ready_buffers q) = insert b (set bs)"
      "q' = q\<lparr>ready_buffers := bs, busy_shards := insert (db_shard_index b) (busy_shards q),
         pending_target_count := pending_target_count q - length (db_targets b), blocked_producers := []\<rparr>"
      "queue_ok c q'" "queued q = queued q' + mset (db_targets b)"
  | (none) "queue_error q = None" "\<forall>b\<in>set (ready_buffers q). db_shard_index b \<in> busy_shards q" "woken = []" "q' = q"
      "outcome = Inr (if source_exhausted q \<or> stop_requested q then ClaimFinished else ClaimBlocked)"
proof (cases "queue_error q")
  case (Some e)
  then have "outcome = Inl e" "woken = []" "q' = q" using assms(2) by (auto simp: ClaimBuffer_def)
  with Some show thesis by (rule that(1))
next
  case None
  note no_error = this
  show thesis
  proof (cases "claim_ready (busy_shards q) (ready_buffers q)")
    case None
    then have "outcome = Inr (if source_exhausted q \<or> stop_requested q then ClaimFinished else ClaimBlocked)" "woken = []" "q' = q"
      using assms(2) no_error by (auto simp: ClaimBuffer_def TryClaimReady_def)
    moreover have "\<forall>b\<in>set (ready_buffers q). db_shard_index b \<in> busy_shards q" using None claim_ready_None by blast
    ultimately show thesis using no_error by (intro that(3))
  next
    case (Some bb)
    obtain b bs where bb: "bb = (b, bs)" by fastforce
    note ready = claim_ready_Some [OF Some [unfolded bb], where f = "\<lambda>x. mset (db_targets x)"]
    let ?q' = "q\<lparr>ready_buffers := bs, busy_shards := insert (db_shard_index b) (busy_shards q),
         pending_target_count := pending_target_count q - length (db_targets b), blocked_producers := []\<rparr>"
    have q': "q' = ?q'" "outcome = Inr (Claimed b)" "woken = blocked_producers q"
      using assms(2) no_error Some bb by (auto simp: ClaimBuffer_def TryClaimReady_def TakeBlockedProducers_def)
    have queued: "queued q = queued q' + mset (db_targets b)"
      using ready by (simp add: q' queued_def ac_simps)
    have shape: "queue_shape c q" using assms(1) by (simp add: queue_ok_def)
    have "pending_target_count q = size (queued q') + length (db_targets b)"
      using queue_shapeD(7) [OF shape] by (simp add: queued)
    then have "pending_target_count q' = size (queued q')" by (simp add: q'(1))
    moreover have "set bs \<subseteq> set (ready_buffers q)" using ready by blast
    moreover have "pending_target_count q' \<le> pc_max_pending_targets c"
      using assms(1) by (auto simp: queue_ok_def q'(1))
    ultimately have "queue_ok c q'"
      using assms(1) unfolding queue_ok_def queue_shape_def by (simp add: q'(1) subset_iff)
    moreover have "buffer_ok c b" using queue_shapeD(6) [OF shape] ready by blast
    ultimately show thesis
      using ready queued by (intro that(2) [OF no_error q'(2,3) _ _ _ q'(1)]) auto
  qed
qed

text \<open>A consumer changes its state; producers are woken and the queue may lose a ready buffer.\<close>

lemma held_upd:
  assumes "j < consumer_count R"
  shows "held_targets R (s\<lparr>vqueue := q, producers := ps, consumers := (consumers s)(j := x), delivered := ds\<rparr>) +
    consumer_targets (consumers s j) = held_targets R s + consumer_targets x"
  using sum_fun_upd [OF assms, of consumer_targets "consumers s" x] by (simp add: held_targets_def)

lemma none_failed_upd:
  assumes "consumers t = (consumers s)(j := x)" "consumers s j \<noteq> Failed" "x \<noteq> Failed"
  shows "none_failed R t \<longleftrightarrow> none_failed R s"
  using assms unfolding none_failed_def by (metis fun_upd_apply)

lemma claim_inv:
  assumes inv: "video_inv R s" and j: "j < consumer_count R" "consumers s j = Idle"
  shows "video_inv R (claim j s)"
proof -
  note inv' = video_invD [OF inv]
  obtain outcome woken q where out: "ClaimBuffer (vqueue s) = (outcome, woken, q)" by (metis prod_cases3)
  show ?thesis
    using inv'(2) out
  proof (cases rule: ClaimBuffer_cases)
    case (error e)
    have stop: "stop_requested (vqueue s)" using producer_invD(4) [OF inv'(4)] error(1) by auto
    have "claim j s = s\<lparr>consumers := (consumers s)(j := Failed)\<rparr>"
      using out error by (simp add: claim_def)
    moreover have "consumer_inv R (s\<lparr>consumers := (consumers s)(j := Failed)\<rparr>)"
      using inv'(3) j by (auto simp: consumer_inv_def none_failed_def)
    moreover have "producer_inv R (s\<lparr>consumers := (consumers s)(j := Failed)\<rparr>)"
      using inv'(4) by (simp add: producer_inv_def live_def)
    ultimately show ?thesis using inv' stop by (simp add: video_inv_def running_inv_def)
  next
    case (claimed b bs)
    let ?t = "s\<lparr>vqueue := q, producers := wake woken (producers s), consumers := (consumers s)(j := Holding b)\<rparr>"
    have t: "claim j s = ?t" using out claimed by (simp add: claim_def)
    have fields: "active_producers q = active_producers (vqueue s)" "source_exhausted q = source_exhausted (vqueue s)"
      "stop_requested q = stop_requested (vqueue s)" "queue_error q = queue_error (vqueue s)"
      "partial_lru q = partial_lru (vqueue s)" "blocked_producers q = []" "ready_buffers q = bs"
      "busy_shards q = insert (db_shard_index b) (busy_shards (vqueue s))"
      by (simp_all add: claimed(7))
    have live: "live R ?t = live R s" by (auto simp: live_def)
    have waiting: "phase (wake woken (producers s) i) \<noteq> Waiting" if "i < producer_count R" for i
      using producer_invD(5) [OF inv'(4) that] claimed(3) by auto
    have "producer_inv R ?t"
      using producer_invD(1-4) [OF inv'(4)] waiting live by (auto simp: producer_inv_def fields)
    moreover have "consumer_inv R ?t"
    proof (rule consumer_invI)
      fix k b' assume k: "k < consumer_count R" "consumers ?t k = Holding b'"
      show "buffer_ok (run_config R) b' \<and> db_shard_index b' \<in> busy_shards (vqueue ?t)"
        using k consumer_invD(1,2) [OF inv'(3), of k b'] claimed(5) by (cases "k = j") (auto simp: fields)
    next
      fix k l b' b'' assume *: "k < consumer_count R" "l < consumer_count R" "consumers ?t k = Holding b'"
        "consumers ?t l = Holding b''" "db_shard_index b' = db_shard_index b''"
      have "db_shard_index x \<noteq> db_shard_index b" if "i < consumer_count R" "consumers s i = Holding x" for i x
        using consumer_invD(2) [OF inv'(3) that] claimed(4) by auto
      with * show "k = l"
        using consumer_invD(3) [OF inv'(3), of k l b' b''] by (cases "k = j"; cases "l = j") force+
    next
      fix x assume *: "none_failed R ?t" "x \<in> busy_shards (vqueue ?t)"
      have "none_failed R s" using *(1) none_failed_upd [of ?t s j "Holding b" R] j(2) by simp
      then have "\<exists>k<consumer_count R. \<exists>b'. consumers s k = Holding b' \<and> db_shard_index b' = x" if "x \<noteq> db_shard_index b"
        using consumer_invD(4) [OF inv'(3)] *(2) that by (simp add: fields)
      then show "\<exists>k<consumer_count R. \<exists>b'. consumers ?t k = Holding b' \<and> db_shard_index b' = x"
        using j by (cases "x = db_shard_index b") (auto, metis consumer.distinct(1))
    qed
    moreover have "running_inv R ?t"
    proof (cases "stop_requested (vqueue s)")
      case False
      note run = running_invD [OF inv'(5) False]
      have "held_targets R ?t = held_targets R s + mset (db_targets b)"
        using held_upd [OF j(1), where s = s and q = q and ps = "wake woken (producers s)" and x = "Holding b" and ds = "delivered s"] j(2)
        by (simp add: consumer_targets_def)
      moreover have "source_left R ?t = source_left R s" by (simp add: source_left_def)
      moreover have "none_failed R ?t \<longleftrightarrow> none_failed R s" using j by (intro none_failed_upd) auto
      ultimately show ?thesis
        using run(3-6) claimed(9) j(1) by (auto simp: running_inv_def fields delivered_targets_def ac_simps split: if_splits)
    qed (simp add: running_inv_def fields)
    ultimately show ?thesis using inv'(1) claimed(8) by (simp add: video_inv_def t)
  next
    case none
    show ?thesis
    proof (cases "source_exhausted (vqueue s) \<or> stop_requested (vqueue s)")
      case True
      let ?t = "s\<lparr>consumers := (consumers s)(j := Ended)\<rparr>"
      have t: "claim j s = ?t" using out none True by (simp add: claim_def)
      have failed: "none_failed R ?t \<longleftrightarrow> none_failed R s" using j by (intro none_failed_upd) auto
      have "consumer_inv R ?t"
        using inv'(3) j failed by (fastforce simp: consumer_inv_def)
      moreover have "producer_inv R ?t" using inv'(4) by (simp add: producer_inv_def live_def)
      moreover have "running_inv R ?t"
      proof (cases "stop_requested (vqueue s)")
        case False
        note run = running_invD [OF inv'(5) False]
        have "held_targets R ?t = held_targets R s"
          using held_upd [OF j(1), where s = s and q = "vqueue s" and ps = "producers s" and x = Ended and ds = "delivered s"] j(2)
          by (simp add: consumer_targets_def)
        moreover have "\<exists>k<consumer_count R. consumers ?t k \<noteq> Ended" if ok: "none_failed R s" and ready: "ready_buffers (vqueue s) \<noteq> []"
        proof -
          from ready obtain b where "b \<in> set (ready_buffers (vqueue s))" by (cases "ready_buffers (vqueue s)") auto
          then obtain k b' where "k < consumer_count R" "consumers s k = Holding b'"
            using none(2) consumer_invD(4) [OF inv'(3) ok] by metis
          then show ?thesis using j(2) by (intro exI [of _ k]) auto
        qed
        moreover have "source_left R ?t = source_left R s" by (simp add: source_left_def)
        ultimately show ?thesis
          using run True False by (auto simp: running_inv_def failed delivered_targets_def)
      qed (simp add: running_inv_def)
      ultimately show ?thesis using inv' by (simp add: video_inv_def t)
    next
      case False
      then have "claim j s = s" using out none by (simp add: claim_def)
      with inv show ?thesis by simp
    qed
  qed
qed

lemma finish_buffer_inv:
  assumes inv: "video_inv R s" and j: "j < consumer_count R" "consumers s j = Holding b"
    and x: "(x = Idle \<and> ds = delivered s @ [b]) \<or> (x = Failed \<and> ds = delivered s)"
  shows "video_inv R (s\<lparr>vqueue := FinishBuffer (db_shard_index b) (vqueue s), consumers := (consumers s)(j := x), delivered := ds\<rparr>)"
    (is "video_inv R ?t")
proof -
  note inv' = video_invD [OF inv]
  have other: "db_shard_index b' \<noteq> db_shard_index b" if "k < consumer_count R" "consumers s k = Holding b'" "k \<noteq> j" for k b'
    using consumer_invD(3) [OF inv'(3) that(1) j(1) that(2) j(2)] that(3) by auto
  have fields: "busy_shards (vqueue ?t) = busy_shards (vqueue s) - {db_shard_index b}"
    by (simp add: FinishBuffer_def)
  have "consumer_inv R ?t"
  proof (rule consumer_invI)
    fix k b' assume k: "k < consumer_count R" "consumers ?t k = Holding b'"
    then have "k \<noteq> j" "consumers s k = Holding b'" using x by (auto split: if_splits)
    then show "buffer_ok (run_config R) b' \<and> db_shard_index b' \<in> busy_shards (vqueue ?t)"
      using consumer_invD(1,2) [OF inv'(3) k(1)] other [OF k(1)] unfolding fields by blast
  next
    fix k l b' b'' assume *: "k < consumer_count R" "l < consumer_count R" "consumers ?t k = Holding b'"
      "consumers ?t l = Holding b''" "db_shard_index b' = db_shard_index b''"
    then have "consumers s k = Holding b'" "consumers s l = Holding b''" using x by (auto split: if_splits)
    then show "k = l" using consumer_invD(3) [OF inv'(3) *(1,2)] *(5) by blast
  next
    fix y assume *: "none_failed R ?t" "y \<in> busy_shards (vqueue ?t)"
    have "x \<noteq> Failed" using *(1) j(1) by (auto simp: none_failed_def)
    then have "none_failed R s" using *(1) none_failed_upd [of ?t s j x R] j(2) by simp
    then obtain k b' where k: "k < consumer_count R" "consumers s k = Holding b'" "db_shard_index b' = y"
      using consumer_invD(4) [OF inv'(3)] *(2) unfolding fields by blast
    then have "k \<noteq> j" using *(2) j(2) unfolding fields by auto
    with k show "\<exists>k<consumer_count R. \<exists>b'. consumers ?t k = Holding b' \<and> db_shard_index b' = y" by auto
  qed
  moreover have "producer_inv R ?t" using inv'(4) by (simp add: producer_inv_def live_def FinishBuffer_def)
  moreover have "running_inv R ?t"
  proof (cases "stop_requested (vqueue s)")
    case False
    note run = running_invD [OF inv'(5) False]
    have "held_targets R ?t + delivered_targets ?t = held_targets R s + delivered_targets s" if "x = Idle"
      using held_upd [OF j(1), where s = s and q = "FinishBuffer (db_shard_index b) (vqueue s)" and ps = "producers s" and x = x and ds = ds]
        j(2) x that by (simp add: consumer_targets_def delivered_targets_def ac_simps)
    then have all: "source_left R ?t + queued (vqueue ?t) + held_targets R ?t + delivered_targets ?t = all_targets R"
      if "x = Idle" "none_failed R s"
      using run(6) that by (simp add: source_left_def FinishBuffer_def add.assoc)
    have failed: "none_failed R ?t \<Longrightarrow> x = Idle \<and> none_failed R s"
      using x j none_failed_upd [of ?t s j x R] by (auto simp: none_failed_def)
    show ?thesis
      unfolding running_inv_def
    proof (intro impI conjI)
      assume "none_failed R ?t"
      note f = failed [OF this]
      show "\<exists>k<consumer_count R. consumers ?t k \<noteq> Ended" using j(1) f by (intro exI [of _ j]) simp
      show "source_left R ?t + queued (vqueue ?t) + held_targets R ?t + delivered_targets ?t = all_targets R"
        using all f by blast
    qed (use run(1-4) x in \<open>auto simp: FinishBuffer_def\<close>)
  qed (simp add: running_inv_def FinishBuffer_def)
  moreover have "queue_ok (run_config R) (vqueue ?t)" using inv'(2) by (simp add: FinishBuffer_def)
  ultimately show ?thesis using inv'(1) by (simp add: video_inv_def)
qed

lemma leave_inv:
  assumes inv: "video_inv R s" and j: "j < consumer_count R" "consumers s j = Idle \<or> consumers s j = Holding b"
  shows "video_inv R (s\<lparr>consumers := (consumers s)(j := Failed)\<rparr>)" (is "video_inv R ?t")
proof -
  note inv' = video_invD [OF inv]
  have failed: "\<not> none_failed R ?t" using j(1) by (auto simp: none_failed_def)
  have "consumer_inv R ?t"
  proof (rule consumer_invI)
    fix k b' assume "k < consumer_count R" "consumers ?t k = Holding b'"
    then show "buffer_ok (run_config R) b' \<and> db_shard_index b' \<in> busy_shards (vqueue ?t)"
      using consumer_invD(1,2) [OF inv'(3)] by (auto split: if_splits)
  next
    fix k l b' b'' assume "k < consumer_count R" "l < consumer_count R" "consumers ?t k = Holding b'"
      "consumers ?t l = Holding b''" "db_shard_index b' = db_shard_index b''"
    then show "k = l" using consumer_invD(3) [OF inv'(3), of k l b' b''] by (auto split: if_splits)
  qed (use failed in blast)
  moreover have "producer_inv R ?t" using inv'(4) by (simp add: producer_inv_def live_def)
  moreover have "running_inv R ?t"
    using inv'(5) failed by (auto simp: running_inv_def)
  ultimately show ?thesis using inv' by (simp add: video_inv_def)
qed

lemma video_step_inv: "video_step R s t \<Longrightarrow> video_inv R s \<Longrightarrow> video_inv R t"
proof (induction rule: video_step.induct)
  case (finish i s order)
  then show ?case by (intro finish_producer_inv) auto
next
  case (release j s b)
  then show ?case using finish_buffer_inv [of R s j b Idle "delivered s @ [b]"] by (simp add: release_def)
qed (simp_all add: ExecuteTask_round_inv stop_producer_inv claim_inv)

lemma disturbance_inv: "disturbance R s t \<Longrightarrow> video_inv R s \<Longrightarrow> video_inv R t"
proof (induction rule: disturbance.induct)
  case (interrupt s woken q)
  have "video_inv R (s\<lparr>vqueue := (vqueue s)\<lparr>queue_error := queue_error (vqueue s), stop_requested := True,
      blocked_producers := []\<rparr>, producers := wake (blocked_producers (vqueue s)) (producers s)\<rparr>)"
    using producer_invD(5) [OF video_invD(4) [OF interrupt(3)]] by (intro video_stop_inv [OF interrupt(3) refl]) auto
  then show ?case using interrupt(2) by (auto simp: RequestStop_def TakeBlockedProducers_def)
next
  case (abandon i s order)
  then show ?case by (intro finish_producer_inv) auto
next
  case (consumer_throws j s b)
  then show ?case using finish_buffer_inv [of R s j b Failed "delivered s"] by (simp add: discard_def)
next
  case (consumer_leaves j s b)
  then show ?case by (intro leave_inv)
qed (simp_all add: stop_producer_inv)

lemma any_step_inv: "video_inv R s \<Longrightarrow> any_step R s t \<Longrightarrow> video_inv R t"
  by (auto simp: any_step_def intro: video_step_inv disturbance_inv)

end
