(* ===== verification/VideoDelivery.thy ===== *)
theory VideoDelivery
  imports VideoRun Evaluation
begin

text \<open>
  The runs of producers and consumers end, and they end with every target delivered once
  (\<open>src/function/video/lerobot_video_frames.cpp\<close>).
\<close>

section \<open>Work\<close>

definition phase_work :: "nat \<Rightarrow> phase \<Rightarrow> nat" where
  "phase_work n x = (case x of Running \<Rightarrow> n + 3 | Waiting \<Rightarrow> n + 2 | Leaving \<Rightarrow> 1 | Finished \<Rightarrow> 0)"

definition producer_work :: "video_run \<Rightarrow> video_producer \<Rightarrow> nat" where
  "producer_work R p = phase_work (producer_count R) (phase p) + (if pending_targets p = [] then 0 else 1) +
     (case frame_result p of None \<Rightarrow> 0 | Some (rows, err) \<Rightarrow> 1 + 2 * length rows) +
     (\<Sum>k\<leftarrow>left_queries (producer_count R) (query_count R) (next_query p). 2 + 2 * length (query_rows R k))"

definition consumer_work :: "consumer \<Rightarrow> nat" where
  "consumer_work x = (case x of Idle \<Rightarrow> 1 | Holding b \<Rightarrow> 2 | _ \<Rightarrow> 0)"

text \<open>A claim may wake all producers, so a target that is not claimed yet weighs more than all of them.\<close>

definition video_work :: "video_run \<Rightarrow> video_system \<Rightarrow> nat" where
  "video_work R s =
     (producer_count R + 2) * (size (source_left R s) + size (queued (vqueue s))) +
     (\<Sum>i<producer_count R. producer_work R (producers s i)) +
     (\<Sum>j<consumer_count R. consumer_work (consumers s j)) +
     (if stop_requested (vqueue s) \<and> blocked_producers (vqueue s) = [] then 0 else producer_count R + 1)"

lemma wake_work: "(\<Sum>i<n. producer_work R (wake w ps i)) \<le> (\<Sum>i<n. producer_work R (ps i)) + n"
proof -
  have "producer_work R (wake w ps i) \<le> producer_work R (ps i) + 1" for i
    by (auto simp: producer_work_def wake_def resume_def phase_work_def)
  then have "(\<Sum>i<n. producer_work R (wake w ps i)) \<le> (\<Sum>i<n. producer_work R (ps i) + 1)"
    by (intro sum_mono)
  then show ?thesis by (simp only: sum.distrib) simp
qed

text \<open>A sum over all producers, when one changes and the others may be woken.\<close>

lemma producer_work_upd:
  assumes "i < producer_count R" "producer_work R p < producer_work R (ps i)"
  shows "(\<Sum>k<producer_count R. producer_work R ((ps(i := p)) k)) < (\<Sum>k<producer_count R. producer_work R (ps k))"
  using sum_fun_upd [OF assms(1), of "producer_work R" ps p] assms(2) by simp

lemma leaving_work:
  assumes i: "i < producer_count R" and p: "phase (ps i) = Running"
  shows "(\<Sum>k<producer_count R. producer_work R (((wake w ps)(i := (ps i)\<lparr>phase := Leaving\<rparr>)) k)) + 1 <
    (\<Sum>k<producer_count R. producer_work R (ps k))"
proof -
  let ?n = "producer_count R"
  have "wake w ps i = ps i" using p by (simp add: wake_def resume_def)
  then have eq: "(\<Sum>k<?n. producer_work R (((wake w ps)(i := (ps i)\<lparr>phase := Leaving\<rparr>)) k)) + producer_work R (ps i) =
      (\<Sum>k<?n. producer_work R (wake w ps k)) + producer_work R ((ps i)\<lparr>phase := Leaving\<rparr>)"
    using sum_fun_upd [OF i, of "producer_work R" "wake w ps"] by simp
  have "producer_work R (ps i) = producer_work R ((ps i)\<lparr>phase := Leaving\<rparr>) + ?n + 2"
    using p by (simp add: producer_work_def phase_work_def)
  with eq wake_work [of R w ps ?n] show ?thesis by linarith
qed

lemma producer_left_phase [simp]: "producer_left R (p\<lparr>phase := x\<rparr>) = producer_left R p"
  by (simp add: producer_left_def)

lemma source_left_cong:
  assumes "\<And>i. i < producer_count R \<Longrightarrow> producer_left R (producers t i) = producer_left R (producers s i)"
  shows "source_left R t = source_left R s"
  using assms by (simp add: source_left_def)

lemma stop_producer_work:
  assumes i: "i < producer_count R" "phase (producers s i) = Running"
  shows "video_work R (stop_producer i s) < video_work R s" "video_work R (fail_producer e i s) < video_work R s"
proof -
  let ?t = "\<lambda>err. s\<lparr>vqueue := (vqueue s)\<lparr>queue_error := err, stop_requested := True, blocked_producers := []\<rparr>,
      producers := (wake (blocked_producers (vqueue s)) (producers s))(i := (producers s i)\<lparr>phase := Leaving\<rparr>)\<rparr>"
  have less: "video_work R (?t err) < video_work R s" for err
  proof -
    have "source_left R (?t err) = source_left R s"
      by (rule source_left_cong) simp
    then show ?thesis
      using leaving_work [of i R "producers s" "blocked_producers (vqueue s)"] i by (simp add: video_work_def)
  qed
  from less [of "queue_error (vqueue s)"] less [of "(case queue_error (vqueue s) of None \<Rightarrow> Some e | err \<Rightarrow> err)"]
  show "video_work R (stop_producer i s) < video_work R s" "video_work R (fail_producer e i s) < video_work R s"
    by (simp_all add: stop_producer_def fail_producer_def RequestStop_def Fail_def TakeBlockedProducers_def)
qed

lemma own_producer_work:
  assumes i: "i < producer_count R" and p: "producer_work R p < producer_work R (producers s i)"
    and left: "size (producer_left R p) \<le> size (producer_left R (producers s i))"
  shows "video_work R (s\<lparr>producers := (producers s)(i := p)\<rparr>) < video_work R s"
proof -
  have "size (source_left R (s\<lparr>producers := (producers s)(i := p)\<rparr>)) \<le> size (source_left R s)"
    using arg_cong [OF source_left_upd [OF i, where s = s and q = "vqueue s" and p = p], of size] left by simp
  then show ?thesis
    using producer_work_upd [where ps = "producers s" and p = p and i = i] i p by (simp add: video_work_def add_le_less_mono)
qed

lemma queue_pending_work:
  assumes inv: "video_inv R s" and i: "i < producer_count R" "phase (producers s i) = Running"
    and pending: "pending_targets (producers s i) \<noteq> []"
  shows "video_work R (queue_pending R i s) < video_work R s"
proof -
  let ?p = "producers s i"
  obtain outcome rest q where out: "QueueTargets (run_config R) i (pending_targets ?p) (vqueue s) = (outcome, rest, q)"
    by (metis prod_cases3)
  have moved: "video_work R (s\<lparr>vqueue := q, producers := (producers s)(i := p)\<rparr>) < video_work R s"
    if p: "producer_work R p < producer_work R ?p" and left: "producer_left R p + mset (pending_targets ?p) = producer_left R ?p + mset rest"
      and queued: "queued q + mset rest = queued (vqueue s) + mset (pending_targets ?p)" and "\<not> stop_requested (vqueue s)" for p
  proof -
    have "size (source_left R (s\<lparr>vqueue := q, producers := (producers s)(i := p)\<rparr>)) + size (queued q) =
        size (source_left R s) + size (queued (vqueue s))"
      using arg_cong [OF source_left_upd [OF i(1), where s = s and q = q and p = p], of size]
        arg_cong [OF left, of size] arg_cong [OF queued, of size] by simp
    moreover have "(\<Sum>k<producer_count R. producer_work R (((producers s)(i := p)) k)) <
        (\<Sum>k<producer_count R. producer_work R (producers s k))"
      using producer_work_upd [of i R p "producers s"] i(1) p by blast
    ultimately show ?thesis using that(4) by (simp add: video_work_def)
  qed
  show ?thesis
    using video_invD(2) [OF inv] out
  proof (cases rule: QueueTargets_cases)
    case stopped
    then have "queue_pending R i s = s\<lparr>producers := (producers s)(i := ?p\<lparr>phase := Leaving\<rparr>)\<rparr>"
      using out by (simp add: queue_pending_def)
    then show ?thesis
      using i by (auto intro!: own_producer_work simp: producer_work_def phase_work_def)
  next
    case queued
    have "queue_pending R i s = s\<lparr>vqueue := q, producers := (producers s)(i := ?p\<lparr>pending_targets := []\<rparr>)\<rparr>"
      using out queued by (simp add: queue_pending_def)
    moreover have "producer_work R (?p\<lparr>pending_targets := []\<rparr>) < producer_work R ?p"
      using pending by (simp add: producer_work_def)
    ultimately show ?thesis
      using queued by (auto intro!: moved simp: producer_left_def)
  next
    case blocked
    have "queue_pending R i s = s\<lparr>vqueue := q, producers := (producers s)(i := ?p\<lparr>pending_targets := rest, phase := Waiting\<rparr>)\<rparr>"
      using out blocked by (simp add: queue_pending_def)
    moreover have "producer_work R (?p\<lparr>pending_targets := rest, phase := Waiting\<rparr>) < producer_work R ?p"
      using pending blocked(3) i(2) by (simp add: producer_work_def phase_work_def)
    ultimately show ?thesis
      using blocked by (auto intro!: moved simp: producer_left_def)
  qed
qed

lemma next_result_work:
  assumes i: "i < producer_count R" "phase (producers s i) = Running"
    and p: "pending_targets (producers s i) = []" "frame_result (producers s i) = None"
  shows "video_work R (next_result R i s) < video_work R s"
proof (cases "GetQuery R (next_query (producers s i)) (vqueue s)")
  case None
  then show ?thesis
    using i by (auto simp: next_result_def producer_work_def phase_work_def intro!: own_producer_work)
next
  case (Some query)
  let ?k = "next_query (producers s i)"
  let ?p = "(producers s i)\<lparr>frame_result := Some (run_query R query), next_query := ?k + producer_count R\<rparr>"
  have k: "?k < query_count R" "query = pc_frame_queries (run_config R) ! ?k"
    using Some by (auto simp: GetQuery_def query_count_def split: if_splits)
  have "producer_work R ?p < producer_work R (producers s i)"
    using p i k by (auto simp: producer_work_def phase_work_def left_queries_Cons query_rows_def split: prod.split)
  moreover have "producer_left R ?p = producer_left R (producers s i)"
    using p i k by (auto simp: producer_left_def left_queries_Cons query_targets_def query_rows_def split: prod.split)
  ultimately show ?thesis
    using i by (auto simp: next_result_def Let_def Some intro!: own_producer_work)
qed

lemma next_row_work:
  assumes i: "i < producer_count R" "phase (producers s i) = Running"
    and p: "pending_targets (producers s i) = []" "frame_result (producers s i) = Some (rows, err)"
  shows "video_work R (next_row R i rows err s) < video_work R s"
proof (cases rows)
  case Nil
  with i p show ?thesis
    by (auto simp: next_row_def producer_work_def producer_left_def stop_producer_work intro!: own_producer_work split: option.split)
next
  case (Cons row rest)
  with i p show ?thesis
    by (auto simp: next_row_def producer_work_def producer_left_def row_targets_def stop_producer_work
        intro!: own_producer_work split: sum.split)
qed

lemma ExecuteTask_round_work:
  assumes "video_inv R s" "i < producer_count R" "phase (producers s i) = Running"
  shows "video_work R (ExecuteTask_round R i s) < video_work R s"
  using assms
  by (auto simp: ExecuteTask_round_def Let_def queue_pending_work next_result_work next_row_work split: option.splits)

lemma ProducerFinished_queued:
  assumes "queue_ok c q" and "\<not> abandoned \<Longrightarrow> hash_order q order"
  shows "size (queued (ProducerFinished c order abandoned q)) \<le> size (queued q)"
    and "stop_requested (ProducerFinished c order abandoned q) \<longleftrightarrow> stop_requested q \<or> abandoned"
    and "blocked_producers (ProducerFinished c order abandoned q) = blocked_producers q"
proof -
  define q1 where "q1 = q\<lparr>stop_requested := (stop_requested q \<or> abandoned), active_producers := active_producers q - 1\<rparr>"
  have q1: "queue_ok c q1" "queued q1 = queued q" "stop_requested q1 \<longleftrightarrow> stop_requested q \<or> abandoned"
    "blocked_producers q1 = blocked_producers q" "partial_buffers q1 = partial_buffers q"
    using assms(1) by (simp_all add: q1_def)
  have "hash_order q1 order" if "\<not> abandoned" using assms(2) [OF that] q1(5) by (simp add: hash_order_def)
  note flush = FlushAllPartialBuffers_ok(2,3) [OF q1(1) this]
  have cleared: "queued (x\<lparr>partial_buffers := \<lambda>_. None, partial_lru := [], ready_buffers := [], pending_target_count := 0\<rparr>) = {#}" for x
    by (simp add: queued_def)
  define q2 where "q2 = (if stop_requested q1
     then q1\<lparr>partial_buffers := \<lambda>_. None, partial_lru := [], ready_buffers := [], pending_target_count := 0\<rparr>
     else if active_producers q1 = 0 then FlushAllPartialBuffers c order q1 else q1)"
  have "ProducerFinished c order abandoned q = (if active_producers q2 = 0 then q2\<lparr>source_exhausted := True\<rparr> else q2)"
    by (simp only: ProducerFinished_def Let_def q2_def q1_def)
  moreover have "size (queued q2) \<le> size (queued q)"
    using flush(1) cleared [of q1] q1(2,3) by (auto simp: q2_def)
  moreover have "stop_requested q2 \<longleftrightarrow> stop_requested q \<or> abandoned" "blocked_producers q2 = blocked_producers q"
    using controlD(3,6) [OF flush(2)] q1(3,4) by (auto simp: q2_def)
  ultimately show "size (queued (ProducerFinished c order abandoned q)) \<le> size (queued q)"
    "stop_requested (ProducerFinished c order abandoned q) \<longleftrightarrow> stop_requested q \<or> abandoned"
    "blocked_producers (ProducerFinished c order abandoned q) = blocked_producers q"
    by simp_all
qed

lemma finish_producer_work:
  assumes inv: "video_inv R s" and i: "i < producer_count R" "phase (producers s i) \<noteq> Finished"
    and order: "\<not> abandoned \<Longrightarrow> hash_order (vqueue s) order"
  shows "video_work R (finish_producer R order abandoned i s) < video_work R s"
proof -
  note q = ProducerFinished_queued [where abandoned = abandoned and order = order, OF video_invD(2) [OF inv] order]
  let ?p = "(producers s i)\<lparr>phase := Finished\<rparr>" and ?t = "finish_producer R order abandoned i s"
  have t: "producers ?t = (producers s)(i := ?p)" "consumers ?t = consumers s"
    "vqueue ?t = ProducerFinished (run_config R) order abandoned (vqueue s)"
    by (simp_all add: finish_producer_def)
  have "producer_work R ?p < producer_work R (producers s i)"
    using i(2) by (cases "phase (producers s i)") (simp_all add: producer_work_def phase_work_def)
  from producer_work_upd [where ps = "producers s" and p = ?p and i = i, OF i(1) this]
  have work: "(\<Sum>k<producer_count R. producer_work R (producers ?t k)) < (\<Sum>k<producer_count R. producer_work R (producers s k))"
    by (simp add: t)
  have "source_left R ?t = source_left R s" by (rule source_left_cong) (simp add: t)
  then have "(producer_count R + 2) * (size (source_left R ?t) + size (queued (vqueue ?t))) \<le>
      (producer_count R + 2) * (size (source_left R s) + size (queued (vqueue s)))"
    using q(1) by (intro mult_le_mono2 add_mono) (simp_all add: t)
  with work q(2,3) show ?thesis unfolding video_work_def t(2,3) by (auto split: if_splits)
qed

lemma consumer_work_upd:
  assumes "j < consumer_count R"
  shows "(\<Sum>k<consumer_count R. consumer_work (((consumers s)(j := x)) k)) + consumer_work (consumers s j) =
    (\<Sum>k<consumer_count R. consumer_work (consumers s k)) + consumer_work x"
  by (rule sum_fun_upd [OF assms])

lemma consumer_only_work:
  assumes j: "j < consumer_count R" and x: "consumer_work x < consumer_work (consumers s j)"
    and q: "queued q = queued (vqueue s)" "stop_requested q = stop_requested (vqueue s)"
      "blocked_producers q = blocked_producers (vqueue s)"
  shows "video_work R (s\<lparr>vqueue := q, consumers := (consumers s)(j := x), delivered := ds\<rparr>) < video_work R s"
proof -
  have "source_left R (s\<lparr>vqueue := q, consumers := (consumers s)(j := x), delivered := ds\<rparr>) = source_left R s"
    by (rule source_left_cong) simp
  then show ?thesis using consumer_work_upd [OF j, of s x] x q by (simp add: video_work_def)
qed

lemma claim_work:
  assumes inv: "video_inv R s" and j: "j < consumer_count R" "consumers s j = Idle"
    and progress: "ConsumerCanProgress (vqueue s)"
  shows "video_work R (claim j s) < video_work R s"
proof -
  obtain outcome woken q where out: "ClaimBuffer (vqueue s) = (outcome, woken, q)" by (metis prod_cases3)
  have keep: "video_work R (s\<lparr>consumers := (consumers s)(j := x)\<rparr>) < video_work R s" if "x = Ended \<or> x = Failed" for x
    using consumer_only_work [where s = s and q = "vqueue s" and x = x and j = j and ds = "delivered s" and R = R] j that
    by (auto simp: consumer_work_def)
  show ?thesis
    using video_invD(2) [OF inv] out
  proof (cases rule: ClaimBuffer_cases)
    case (error e)
    then have "claim j s = s\<lparr>consumers := (consumers s)(j := Failed)\<rparr>" using out by (simp add: claim_def)
    with keep show ?thesis by simp
  next
    case (claimed b bs)
    let ?t = "s\<lparr>vqueue := q, producers := wake woken (producers s), consumers := (consumers s)(j := Holding b)\<rparr>"
    have t: "claim j s = ?t" using out claimed by (simp add: claim_def)
    have "source_left R ?t = source_left R s" by (rule source_left_cong) simp
    moreover have "db_targets b \<noteq> []" using claimed(5) by (rule buffer_ok_nonempty)
    then have "size (queued q) + 1 \<le> size (queued (vqueue s))"
      using claimed(9) by (cases "db_targets b") auto
    then have "(producer_count R + 2) * (size (source_left R s) + size (queued q)) + (producer_count R + 2) \<le>
        (producer_count R + 2) * (size (source_left R s) + size (queued (vqueue s)))"
      by (metis add.assoc add_le_cancel_left mult_le_mono2 mult.right_neutral distrib_left)
    moreover have "stop_requested q = stop_requested (vqueue s)" "blocked_producers q = []"
      by (simp_all add: claimed(7))
    moreover have "(\<Sum>k<consumer_count R. consumer_work (consumers ?t k)) = (\<Sum>k<consumer_count R. consumer_work (consumers s k)) + 1"
      using consumer_work_upd [OF j(1), of s "Holding b"] j(2) by (simp add: consumer_work_def)
    ultimately show ?thesis
      using wake_work [of R woken "producers s" "producer_count R"] unfolding t video_work_def by (auto split: if_splits)
  next
    case none
    have "source_exhausted (vqueue s) \<or> stop_requested (vqueue s)"
      using progress none(1,2) by (auto simp: ConsumerCanProgress_def)
    then have "claim j s = s\<lparr>consumers := (consumers s)(j := Ended)\<rparr>" using out none by (simp add: claim_def)
    with keep show ?thesis by simp
  qed
qed

lemma any_step_work:
  assumes inv: "video_inv R s" and "any_step R s t"
  shows "video_work R t < video_work R s"
  using assms(2) unfolding any_step_def
proof (elim disjE)
  assume "video_step R s t"
  then show ?thesis
  proof (cases rule: video_step.cases)
    case (finish i order)
    then show ?thesis using finish_producer_work [OF inv, of i False order] by simp
  next
    case (release j b)
    then show ?thesis
      using consumer_only_work [where s = s and q = "FinishBuffer (db_shard_index b) (vqueue s)" and x = Idle and j = j
          and ds = "delivered s @ [b]" and R = R] by (simp add: release_def FinishBuffer_def consumer_work_def)
  qed (simp_all add: ExecuteTask_round_work [OF inv] stop_producer_work claim_work [OF inv])
next
  assume "disturbance R s t"
  then show ?thesis
  proof (cases rule: disturbance.cases)
    case (interrupt woken q)
    note t = interrupt(1) and guard = interrupt(2) and q = interrupt(3)
    have "source_left R t = source_left R s" by (rule source_left_cong) (simp add: t)
    then show ?thesis
      using guard q wake_work [of R woken "producers s" "producer_count R"]
      by (auto simp: video_work_def t RequestStop_def TakeBlockedProducers_def)
  next
    case (abandon i order)
    then show ?thesis using finish_producer_work [OF inv, of i True order] by simp
  next
    case (consumer_throws j b)
    then show ?thesis
      using consumer_only_work [where s = s and q = "FinishBuffer (db_shard_index b) (vqueue s)" and x = Failed and j = j
          and ds = "delivered s" and R = R] by (simp add: discard_def FinishBuffer_def consumer_work_def)
  next
    case (consumer_leaves j b)
    then show ?thesis
      using consumer_only_work [where s = s and q = "vqueue s" and x = Failed and j = j and ds = "delivered s" and R = R]
      by (auto simp: consumer_work_def)
  qed (simp_all add: stop_producer_work)
qed

text \<open>Two machines: the tasks and scans alone, and with everything the surroundings may do.\<close>

interpretation disturbed: terminating_machine "\<lambda>s. run_ok R \<and> s = new_system R" "any_step R" "video_inv R" "video_work R" for R
  by unfold_locales (auto simp: new_system_inv intro: any_step_inv any_step_work)

interpretation undisturbed: terminating_machine "\<lambda>s. run_ok R \<and> s = new_system R" "video_step R" "video_inv R" "video_work R" for R
  by unfold_locales (auto simp: new_system_inv any_step_def intro: video_step_inv any_step_work)

section \<open>A run that has come to its end\<close>

lemma stuck_queue:
  assumes inv: "video_inv R s" and stuck: "\<nexists>t. video_step R s t"
  shows "i < producer_count R \<Longrightarrow> phase (producers s i) \<in> {Waiting, Finished}"
    and "j < consumer_count R \<Longrightarrow> consumers s j \<noteq> Holding b"
    and "j < consumer_count R \<Longrightarrow> consumers s j = Idle \<Longrightarrow> \<not> ConsumerCanProgress (vqueue s)"
proof -
  have "queue_shape (run_config R) (vqueue s)" using video_invD(2) [OF inv] by (simp add: queue_ok_def)
  then have order: "hash_order (vqueue s) (partial_lru (vqueue s))"
    using queue_shapeD(1,2) by (simp add: hash_order_def)
  show "phase (producers s i) \<in> {Waiting, Finished}" if "i < producer_count R"
    using stuck run_round [of i R s] finish [of i R s, OF _ _ order] that by (cases "phase (producers s i)") blast+
  show "consumers s j \<noteq> Holding b" if "j < consumer_count R"
    using stuck release [of j R s b] that by blast
  show "\<not> ConsumerCanProgress (vqueue s)" if "j < consumer_count R" "consumers s j = Idle"
    using stuck video_step.claim [of j R s] that by blast
qed

lemma stuck_delivered:
  assumes inv: "video_inv R s" and stuck: "\<nexists>t. video_step R s t"
    and stop: "\<not> stop_requested (vqueue s)" and failed: "none_failed R s"
  shows "delivered_targets s = all_targets R"
    and "i < producer_count R \<Longrightarrow> phase (producers s i) = Finished"
    and "j < consumer_count R \<Longrightarrow> consumers s j = Ended"
proof -
  note inv' = video_invD [OF inv]
  note run = running_invD [OF inv'(5) stop]
  note stuck' = stuck_queue [OF inv stuck]
  have idle: "consumers s j = Idle \<or> consumers s j = Ended" if "j < consumer_count R" for j
    using stuck'(2) [OF that] failed that by (cases "consumers s j") (auto simp: none_failed_def)
  have "busy_shards (vqueue s) = {}"
    using consumer_invD(4) [OF inv'(3) failed] stuck'(2) by blast
  then have "ready_buffers (vqueue s) = []" 
    using run(5) [OF failed] idle stuck'(3) by (cases "ready_buffers (vqueue s)") (auto simp: ConsumerCanProgress_def)
  then have ready: "ready_buffers (vqueue s) = []" "blocked_producers (vqueue s) = []" using run(2) by blast+
  show finished: "phase (producers s i) = Finished" if "i < producer_count R" for i
    using stuck'(1) [OF that] producer_invD(5) [OF inv'(4) that] ready(2) by auto
  then have "live R s = {}" by (auto simp: live_def)
  then have exhausted: "source_exhausted (vqueue s)" "partial_lru (vqueue s) = []"
    using producer_invD(2,3) [OF inv'(4)] by blast+
  show "consumers s j = Ended" if "j < consumer_count R" for j
    using idle [OF that] stuck'(3) [OF that] exhausted(1) by (auto simp: ConsumerCanProgress_def)
  have "source_left R s = {#}" using run(3) finished by (simp add: source_left_def)
  moreover have "queued (vqueue s) = {#}" by (simp add: queued_def ready(1) exhausted(2))
  moreover have "held_targets R s = {#}"
    using idle by (fastforce simp: held_targets_def consumer_targets_def intro!: sum.neutral)
  ultimately show "delivered_targets s = all_targets R" using run(6) [OF failed] by simp
qed

text \<open>A stopped run leaves no task behind, save those that \<open>RequestStop\<close> still has to wake.\<close>

lemma stuck_stopped:
  assumes inv: "video_inv R s" and stuck: "\<nexists>t. video_step R s t" and stop: "stop_requested (vqueue s)"
  shows "i < producer_count R \<Longrightarrow> phase (producers s i) = Finished \<or> i \<in> set (blocked_producers (vqueue s))"
    and "j < consumer_count R \<Longrightarrow> consumers s j \<in> {Ended, Failed}"
proof -
  note stuck' = stuck_queue [OF inv stuck]
  show "phase (producers s i) = Finished \<or> i \<in> set (blocked_producers (vqueue s))" if "i < producer_count R"
    using stuck'(1) [OF that] producer_invD(5) [OF video_invD(4) [OF inv] that] by auto
  show "consumers s j \<in> {Ended, Failed}" if "j < consumer_count R"
    using stuck'(2,3) [OF that] stop by (cases "consumers s j") (auto simp: ConsumerCanProgress_def)
qed

section \<open>A source without errors\<close>

definition rows_ok :: "producer_config \<Rightarrow> source_row list \<Rightarrow> bool" where
  "rows_ok c rows \<longleftrightarrow> list_all (\<lambda>row. case BuildTargets c row of Inl e \<Rightarrow> False | Inr targets \<Rightarrow> True) rows"

definition source_ok :: "video_run \<Rightarrow> bool" where
  "source_ok R \<longleftrightarrow> list_all (\<lambda>query. snd (run_query R query) = None \<and> rows_ok (run_config R) (fst (run_query R query)))
     (pc_frame_queries (run_config R))"

definition quiet :: "video_run \<Rightarrow> video_system \<Rightarrow> bool" where
  "quiet R s \<longleftrightarrow> \<not> stop_requested (vqueue s) \<and> none_failed R s \<and>
     (\<forall>i<producer_count R. \<forall>rows err. frame_result (producers s i) = Some (rows, err) \<longrightarrow>
        err = None \<and> rows_ok (run_config R) rows)"

lemma quiet_producer:
  assumes "quiet R s" and "\<not> stop_requested q"
    and "\<And>rows err. frame_result p = Some (rows, err) \<Longrightarrow> err = None \<and> rows_ok (run_config R) rows"
  shows "quiet R (s\<lparr>vqueue := q, producers := (producers s)(i := p)\<rparr>)"
    "vqueue s = q \<Longrightarrow> quiet R (s\<lparr>producers := (producers s)(i := p)\<rparr>)"
  using assms by (auto simp: quiet_def none_failed_def)

lemma ExecuteTask_round_quiet:
  assumes inv: "video_inv R s" and ok: "source_ok R" "quiet R s" and i: "i < producer_count R"
  shows "quiet R (ExecuteTask_round R i s)"
proof -
  let ?p = "producers s i"
  have stop: "\<not> stop_requested (vqueue s)" using ok(2) by (simp add: quiet_def)
  have result: "frame_result ?p = Some (rows, err) \<Longrightarrow> err = None \<and> rows_ok (run_config R) rows" for rows err
    using ok(2) i by (simp add: quiet_def)
  consider "pending_targets ?p \<noteq> []" | "pending_targets ?p = []" "frame_result ?p = None"
    | rows err where "pending_targets ?p = []" "frame_result ?p = Some (rows, err)"
    by (cases "frame_result ?p") auto
  then show ?thesis
  proof cases
    case 1
    obtain outcome rest q where out: "QueueTargets (run_config R) i (pending_targets ?p) (vqueue s) = (outcome, rest, q)"
      by (metis prod_cases3)
    have "\<not> stop_requested q"
      using video_invD(2) [OF inv] out stop by (cases rule: QueueTargets_cases) (auto simp: control_def)
    then show ?thesis
      using 1 out result by (auto simp: ExecuteTask_round_def queue_pending_def Let_def intro!: quiet_producer [OF ok(2)] split: queue_result.split)
  next
    case 2
    show ?thesis
    proof (cases "GetQuery R (next_query ?p) (vqueue s)")
      case None
      with 2 result stop show ?thesis
        by (auto simp: ExecuteTask_round_def next_result_def intro!: quiet_producer(2) [OF ok(2)])
    next
      case (Some query)
      then have "query \<in> set (pc_frame_queries (run_config R))" by (auto simp: GetQuery_def split: if_splits)
      then have "snd (run_query R query) = None \<and> rows_ok (run_config R) (fst (run_query R query))"
        using ok(1) by (simp add: source_ok_def list_all_iff)
      with 2 Some stop show ?thesis
        by (auto simp: ExecuteTask_round_def next_result_def Let_def intro!: quiet_producer(2) [OF ok(2)])
    qed
  next
    case (3 rows err)
    note rows = result [OF 3(2)]
    show ?thesis
      using 3 rows stop
      by (cases rows) (auto simp: ExecuteTask_round_def next_row_def Let_def rows_ok_def
          intro!: quiet_producer(2) [OF ok(2)] split: sum.splits)
  qed
qed

lemma video_step_quiet:
  assumes inv: "video_inv R s" and ok: "source_ok R" "quiet R s" and "video_step R s t"
  shows "quiet R t"
  using assms(4)
proof (cases rule: video_step.cases)
  case (run_round i)
  with ExecuteTask_round_quiet [OF inv ok] show ?thesis by simp
next
  case (finish i order)
  have "\<not> stop_requested (ProducerFinished (run_config R) order False (vqueue s))"
    using ProducerFinished_queued(2) [OF video_invD(2) [OF inv] finish(4)] ok(2) by (simp add: quiet_def)
  moreover have "frame_result ((producers s i)\<lparr>phase := Finished\<rparr>) = Some (rows, err) \<Longrightarrow>
      err = None \<and> rows_ok (run_config R) rows" for rows err
    using ok(2) finish(2) by (auto simp: quiet_def)
  ultimately show ?thesis
    unfolding finish(1) finish_producer_def by (rule quiet_producer(1) [OF ok(2)])
next
  case (claim j)
  obtain outcome woken q where out: "ClaimBuffer (vqueue s) = (outcome, woken, q)" by (metis prod_cases3)
  have stop: "\<not> stop_requested (vqueue s)" "none_failed R s" using ok(2) by (simp_all add: quiet_def)
  have no_error: "queue_error (vqueue s) = None" using producer_invD(4) [OF video_invD(4) [OF inv]] stop by blast
  have "stop_requested q = stop_requested (vqueue s) \<and> (\<forall>e. outcome \<noteq> Inl e)"
    using video_invD(2) [OF inv] out by (cases rule: ClaimBuffer_cases) (use no_error in auto)
  then have q: "\<not> stop_requested q" "\<And>e. outcome \<noteq> Inl e" using stop by auto
  have "\<exists>x. consumers t = (consumers s)(j := x) \<and> x \<noteq> Failed"
    using out q(2) claim(1,3) by (auto simp: claim_def split: sum.splits claim_result.splits)
  then obtain x where "consumers t = (consumers s)(j := x)" "x \<noteq> Failed" by blast
  then have "none_failed R t" using none_failed_upd [of t s j x R] claim(3) stop(2) by simp
  then show ?thesis
    using ok(2) out q(1) claim(1) by (auto simp: quiet_def claim_def)
next
  case (release j b)
  then show ?thesis using ok(2) by (auto simp: quiet_def none_failed_def release_def FinishBuffer_def)
qed (use ok(2) in \<open>simp add: quiet_def\<close>)

lemma undisturbed_quiet:
  assumes "run_ok R" "source_ok R" and "(video_step R)\<^sup>*\<^sup>* (new_system R) s"
  shows "quiet R s"
  using assms(3)
proof (induction rule: rtranclp_induct)
  case base
  show ?case by (simp add: quiet_def none_failed_def new_system_def new_queue_def)
next
  case (step s t)
  have "video_inv R s" by (rule undisturbed.reachable_inv [OF _ step(1)]) (simp add: assms(1))
  with step assms(2) show ?case by (blast intro: video_step_quiet)
qed

section \<open>Properties\<close>

lemma buffer_ok_props:
  assumes "buffer_ok c b"
  shows "b = FinalizeDecodeBuffer (pc_cluster_gap c) b \<and> 0 < length (db_targets b) \<and>
    length (db_targets b) \<le> max 1 (pc_target_buffer_size c) \<and> (\<forall>t\<in>set (db_targets b). target_shard c t = db_shard_index b)"
proof -
  obtain shard targets where b: "b = FinalizeDecodeBuffer (pc_cluster_gap c) (new_buffer c shard targets)"
    "targets \<noteq> []" "length targets \<le> max 1 (pc_target_buffer_size c)" "\<forall>t\<in>set targets. target_shard c t = shard"
    using assms unfolding buffer_ok_def by blast
  have "sort_key target_key (sort_key target_key targets) = sort_key target_key targets"
    by (simp add: sort_key_id_if_sorted)
  with b show ?thesis by (simp add: FinalizeDecodeBuffer_def new_buffer_def Let_def)
qed

text \<open>A run to apply them to: two producers, two consumers, two queries with three rows over one video file.\<close>

definition demo_metadata :: video_metadata where
  "demo_metadata = \<lparr>vm_root = ''/d'', vm_path_template = ''videos/{video_key}.mp4'', vm_fps = 10, vm_keys = [''cam''],
     vm_features = [rgb_video_feature], vm_routes = [], vm_files = [''/d/videos/cam.mp4''],
     vm_fingerprint = \<lparr>fp_size = 1, last_modified = 1, version_tag = ''''\<rparr>, vm_episode_files = []\<rparr>"

definition demo_route :: video_route where
  "demo_route = \<lparr>vr_episode_index = 3, vr_episode_length = 20, vr_key_index = 0, vr_file_index = 0, vr_chunk = 0,
     vr_file = 0, vr_from = Fin 5, vr_to = Fin 7\<rparr>"

definition demo_config :: producer_config where
  "demo_config = \<lparr>pc_metadata = demo_metadata, pc_routes = [demo_route], pc_frame_queries = [''first'', ''second''],
     pc_window_mode = False, pc_tolerance = Fin (1 / 1024), pc_cluster_gap = Fin 1, pc_target_buffer_size = 2,
     pc_max_pending_targets = 1\<rparr>"

definition demo_row :: "int \<Rightarrow> rat \<Rightarrow> source_row" where
  "demo_row frame time = \<lparr>sr_request_id = None, sr_request_ordinal = None, sr_delta_ordinal = None,
     sr_delta_timestamp = None, sr_delta_frame_offset = None, sr_is_padding = None, sr_episode_index = Some 3,
     sr_frame_index = Some frame, sr_target_frame_index = None, sr_timestamp = Some (Fin time), sr_match_count = None\<rparr>"

definition demo_run :: video_run where
  "demo_run = \<lparr>run_config = demo_config,
     run_query = (\<lambda>query. (if query = ''first'' then [demo_row 0 0, demo_row 5 (1 / 2)] else [demo_row 10 1], None)),
     producer_threads = 2, consumer_count = 2\<rparr>"

lemma demo_run_ok: "run_ok demo_run" "source_ok demo_run" "size (all_targets demo_run) = 3"
    apply (simp add: run_ok_def demo_run_def demo_config_def)
   apply code_simp
  apply code_simp
  done

text \<open>C3. If no query fails and every row has its place in the video, then, however the producers and consumers
  interleave, a run that can go no further has delivered exactly the targets of all rows of all queries, each
  once, and all producers and consumers have ended.\<close>

theorem video_targets_delivered:
  assumes "run_ok R" and "source_ok R"
    and "(video_step R)\<^sup>*\<^sup>* (new_system R) s" and "\<nexists>t. video_step R s t"
  shows "(\<Sum>b\<leftarrow>delivered s. mset (db_targets b)) =
      (\<Sum>k<length (pc_frame_queries (run_config R)).
         \<Sum>row\<leftarrow>fst (run_query R (pc_frame_queries (run_config R) ! k)). row_targets (run_config R) row) \<and>
    (\<forall>i<producer_count R. phase (producers s i) = Finished) \<and> (\<forall>j<consumer_count R. consumers s j = Ended)"
proof -
  have inv: "video_inv R s" using assms(1) by (intro undisturbed.reachable_inv [OF _ assms(3)]) simp
  have "quiet R s" by (rule undisturbed_quiet [OF assms(1-3)])
  then have "\<not> stop_requested (vqueue s)" "none_failed R s" by (simp_all add: quiet_def)
  from stuck_delivered [OF inv assms(4) this] show ?thesis
    by (simp add: delivered_targets_def all_targets_def query_targets_def query_rows_def query_count_def)
qed

theorem video_targets_delivered_witness:
  "\<exists>s. (video_step demo_run)\<^sup>*\<^sup>* (new_system demo_run) s \<and> size (\<Sum>b\<leftarrow>delivered s. mset (db_targets b)) = 3"
proof -
  obtain s where s: "(video_step demo_run)\<^sup>*\<^sup>* (new_system demo_run) s" "\<nexists>t. video_step demo_run s t"
    using undisturbed.runs_end [of demo_run "new_system demo_run"] demo_run_ok(1) new_system_inv by blast
  then show ?thesis
    using video_targets_delivered [OF demo_run_ok(1,2) s] demo_run_ok(3)
    by (intro exI [of _ s]) (simp add: all_targets_def query_targets_def query_rows_def query_count_def)
qed



text \<open>C18. In every reachable state, whatever the surroundings do, the queue counts its targets exactly and holds
  at most \<open>max_pending_targets\<close>; every ready or claimed buffer is a sorted, clustered buffer of targets of one
  video file, not empty and at most \<open>target_buffer_size\<close> (at least one) long; and no two consumers hold buffers
  of the same file.\<close>

theorem video_queue_bounded:
  assumes "run_ok R" and "(any_step R)\<^sup>*\<^sup>* (new_system R) s"
  shows "pending_target_count (vqueue s) = size (queued (vqueue s)) \<and>
    pending_target_count (vqueue s) \<le> pc_max_pending_targets (run_config R) \<and>
    (\<forall>b. b \<in> set (ready_buffers (vqueue s)) \<or> (\<exists>j<consumer_count R. consumers s j = Holding b) \<longrightarrow>
       b = FinalizeDecodeBuffer (pc_cluster_gap (run_config R)) b \<and>
       0 < length (db_targets b) \<and> length (db_targets b) \<le> max 1 (pc_target_buffer_size (run_config R)) \<and>
       (\<forall>t\<in>set (db_targets b). target_shard (run_config R) t = db_shard_index b)) \<and>
    (\<forall>j<consumer_count R. \<forall>k<consumer_count R. \<forall>b b'. consumers s j = Holding b \<longrightarrow> consumers s k = Holding b' \<longrightarrow>
       j \<noteq> k \<longrightarrow> db_shard_index b \<noteq> db_shard_index b')"
proof -
  have inv: "video_inv R s" using assms(1) by (intro disturbed.reachable_inv [OF _ assms(2)]) simp
  note inv' = video_invD [OF inv]
  have ok: "b = FinalizeDecodeBuffer (pc_cluster_gap (run_config R)) b \<and> 0 < length (db_targets b) \<and>
      length (db_targets b) \<le> max 1 (pc_target_buffer_size (run_config R)) \<and>
      (\<forall>t\<in>set (db_targets b). target_shard (run_config R) t = db_shard_index b)" if "buffer_ok (run_config R) b" for b
    using that by (rule buffer_ok_props)
  have "buffer_ok (run_config R) b"
    if "b \<in> set (ready_buffers (vqueue s)) \<or> (\<exists>j<consumer_count R. consumers s j = Holding b)" for b
    using that inv'(2) consumer_invD(1) [OF inv'(3)] by (auto simp: queue_ok_def queue_shape_def)
  moreover have "pending_target_count (vqueue s) = size (queued (vqueue s))"
    "pending_target_count (vqueue s) \<le> pc_max_pending_targets (run_config R)"
    using inv'(2) by (auto simp: queue_ok_def queue_shape_def)
  ultimately show ?thesis using ok consumer_invD(3) [OF inv'(3)] by blast
qed

fun rounds :: "video_run \<Rightarrow> nat list \<Rightarrow> video_system \<Rightarrow> video_system option" where
  "rounds R [] s = Some s"
| "rounds R (i # is) s =
     (if i < producer_count R \<and> phase (producers s i) = Running then rounds R is (ExecuteTask_round R i s) else None)"

lemma rounds_steps: "rounds R is s = Some t \<Longrightarrow> (any_step R)\<^sup>*\<^sup>* s t"
proof (induction R "is" s rule: rounds.induct)
  case (2 R i "is" s)
  then have "any_step R s (ExecuteTask_round R i s)"
    by (auto simp: any_step_def intro: run_round split: if_splits)
  moreover have "(any_step R)\<^sup>*\<^sup>* (ExecuteTask_round R i s) t" using 2 by (auto split: if_splits)
  ultimately show ?case by (rule converse_rtranclp_into_rtranclp)
qed simp

theorem video_queue_bounded_witness:
  "\<exists>s b. (any_step demo_run)\<^sup>*\<^sup>* (new_system demo_run) s \<and> consumers s 0 = Holding b \<and>
     0 < length (db_targets b) \<and> length (db_targets b) \<le> 2"
proof -
  have "case rounds demo_run [0, 0, 0, 0, 0] (new_system demo_run) of
      None \<Rightarrow> False
    | Some s \<Rightarrow> consumers s 0 = Idle \<and> ConsumerCanProgress (vqueue s) \<and>
        (case consumers (claim 0 s) 0 of Holding b \<Rightarrow> True | _ \<Rightarrow> False)"
    by code_simp
  then obtain s b where s: "rounds demo_run [0, 0, 0, 0, 0] (new_system demo_run) = Some s" "consumers s 0 = Idle"
    "ConsumerCanProgress (vqueue s)" "consumers (claim 0 s) 0 = Holding b"
    by (auto split: option.splits consumer.splits)
  have "0 < consumer_count demo_run" by (simp add: demo_run_def)
  then have "any_step demo_run s (claim 0 s)" using s(2,3) by (auto simp: any_step_def intro: video_step.claim)
  with rounds_steps [OF s(1)] have reach: "(any_step demo_run)\<^sup>*\<^sup>* (new_system demo_run) (claim 0 s)"
    by (rule rtranclp.rtrancl_into_rtrancl)
  have "0 < length (db_targets b) \<and> length (db_targets b) \<le> max 1 (pc_target_buffer_size (run_config demo_run))"
    using video_queue_bounded [OF demo_run_ok(1) reach] s(4) \<open>0 < consumer_count demo_run\<close> by blast
  moreover have "pc_target_buffer_size (run_config demo_run) = 2" by (simp add: demo_run_def demo_config_def)
  ultimately show ?thesis using reach s(4) by auto
qed

end
