(* ===== verification/Rounding.thy ===== *)
theory Rounding
  imports Floats
begin

text \<open>
  Rounding is monotone. The decoder compares rounded distances and rounded positions, and this is what its
  properties rest on. Nothing here models code of the repository.
\<close>

lemma rne_mono:
  assumes "x \<le> y"
  shows "rne x \<le> rne y"
proof (cases "\<lfloor>x\<rfloor> = \<lfloor>y\<rfloor>")
  case True
  with assms show ?thesis by (simp add: rne_def Let_def)
next
  case False
  with assms have "\<lfloor>x\<rfloor> + 1 \<le> \<lfloor>y\<rfloor>" using floor_mono [OF assms] by linarith
  moreover have "rne x \<le> \<lfloor>x\<rfloor> + 1" "\<lfloor>y\<rfloor> \<le> rne y" by (simp_all add: rne_def Let_def)
  ultimately show ?thesis by linarith
qed

lemma rne_minus: "rne (- x) = - rne x"
proof (cases "x = of_int \<lfloor>x\<rfloor>")
  case True
  then have "rne x = \<lfloor>x\<rfloor>" "rne (- x) = - \<lfloor>x\<rfloor>" using rne_of_int by (metis, metis of_int_minus rne_of_int)
  then show ?thesis by simp
next
  case False
  define r where "r = x - of_int \<lfloor>x\<rfloor>"
  have r: "0 < r" "r < 1" unfolding r_def using False by linarith+
  have floor: "\<lfloor>- x\<rfloor> = - \<lfloor>x\<rfloor> - 1" using r by (intro floor_unique) (auto simp: r_def)
  have rest: "- x - of_int \<lfloor>- x\<rfloor> = 1 - r" by (simp add: floor r_def)
  show ?thesis unfolding rne_def Let_def rest unfolding floor r_def [symmetric] by auto
qed

lemma rat_exponent_minus [simp]: "rat_exponent (- x) = rat_exponent x"
  by (simp add: rat_exponent_def)

lemma round_rat_minus: "round_rat p emin (- x) = - round_rat p emin x"
  by (simp add: round_rat_def Let_def rne_minus)

lemma rat_exponent_mono:
  assumes "0 < x" "x \<le> y"
  shows "rat_exponent x \<le> rat_exponent y"
proof (rule ccontr)
  assume "\<not> ?thesis"
  then have "(2::rat) powi (rat_exponent y + 1) \<le> 2 powi rat_exponent x" by (intro power_int_increasing) auto
  moreover have "2 powi rat_exponent x \<le> \<bar>x\<bar>" "\<bar>y\<bar> < 2 powi (rat_exponent y + 1)"
    using rat_exponent_bounds(1) [of x] rat_exponent_bounds(2) [of y] assms by simp_all
  ultimately show False using assms by linarith
qed

lemma round_rat_sign: "0 \<le> x \<Longrightarrow> 0 \<le> round_rat p emin x" "x \<le> 0 \<Longrightarrow> round_rat p emin x \<le> 0"
proof -
  show pos: "0 \<le> round_rat p emin x" if "0 \<le> x" for x
  proof -
    define e where "e = max (rat_exponent x - int p + 1) emin"
    have "of_int 0 \<le> x / 2 powi e" using that by simp
    from rne_ge [OF this] show ?thesis by (simp add: round_rat_def Let_def e_def)
  qed
  show "round_rat p emin x \<le> 0" if "x \<le> 0" using pos [of "- x"] that by (simp add: round_rat_minus)
qed

text \<open>A power of two within the range of the exponents is a bound that rounding keeps.\<close>

lemma powi_int: "0 \<le> k \<Longrightarrow> (2::rat) powi k = of_int (2 ^ nat k)"
  by (simp add: power_int_def)

lemma powi_times: "0 \<le> k \<Longrightarrow> (2::rat) ^ nat k * 2 powi a = 2 powi (k + a)"
  using powi_int [of k] by (simp add: power_int_add)

lemma round_rat_mono_pos:
  assumes "0 < p" "0 < x" "x \<le> y"
  shows "round_rat p emin x \<le> round_rat p emin y"
proof -
  define ex where "ex = rat_exponent x"
  define ey where "ey = rat_exponent y"
  define a where "a = max (ex - int p + 1) emin"
  define b where "b = max (ey - int p + 1) emin"
  have le: "ex \<le> ey" unfolding ex_def ey_def by (rule rat_exponent_mono [OF assms(2,3)])
  have round: "round_rat p emin x = of_int (rne (x / 2 powi a)) * 2 powi a"
    "round_rat p emin y = of_int (rne (y / 2 powi b)) * 2 powi b"
    using assms by (simp_all add: round_rat_def Let_def a_def b_def ex_def ey_def)
  show ?thesis
  proof (cases "a = b")
    case True
    have "x / 2 powi a \<le> y / 2 powi a" using assms by (simp add: divide_right_mono)
    then show ?thesis using round True by (simp add: rne_mono mult_right_mono)
  next
    case False
    then have ab: "a < b" "b = ey - int p + 1" "ex < ey" using le by (auto simp: a_def b_def max_def split: if_splits)
    have "x < 2 powi (ex + 1)" using rat_exponent_bounds(2) [of x] assms by (simp add: ex_def)
    also have "\<dots> \<le> (2::rat) powi ey" using ab by (intro power_int_increasing) auto
    finally have "x \<le> 2 powi ey" by simp
    then have "x / 2 powi a \<le> 2 powi (ey - a)"
      by (simp add: pos_divide_le_eq power_int_add [symmetric])
    then have "x / 2 powi a \<le> of_int (2 ^ nat (ey - a))" using ab assms(1) by (simp add: powi_int)
    then have "rne (x / 2 powi a) \<le> 2 ^ nat (ey - a)" by (rule rne_le)
    then have "round_rat p emin x \<le> of_int (2 ^ nat (ey - a)) * 2 powi a"
      unfolding round(1) by (intro mult_right_mono) (simp_all only: of_int_le_iff, simp)
    also have "\<dots> = 2 powi ey" using ab assms(1) powi_times [of "ey - a" a] by simp
    finally have upper: "round_rat p emin x \<le> 2 powi ey" .
    have "2 powi ey \<le> y" using rat_exponent_bounds(1) [of y] assms by (simp add: ey_def)
    then have "2 powi (ey - b) \<le> y / 2 powi b"
      by (simp add: pos_le_divide_eq power_int_add [symmetric])
    then have "of_int (2 ^ nat (ey - b)) \<le> y / 2 powi b" using ab assms(1) by (simp add: powi_int)
    then have "2 ^ nat (ey - b) \<le> rne (y / 2 powi b)" by (rule rne_ge)
    then have "of_int (2 ^ nat (ey - b)) * 2 powi b \<le> round_rat p emin y"
      unfolding round(2) by (intro mult_right_mono) (simp_all only: of_int_le_iff, simp)
    also have "of_int (2 ^ nat (ey - b)) * 2 powi b = (2::rat) powi ey"
      using ab assms(1) powi_times [of "ey - b" b] by simp
    finally show ?thesis using upper by simp
  qed
qed

lemma round_rat_mono:
  assumes "0 < p" "x \<le> y"
  shows "round_rat p emin x \<le> round_rat p emin y"
proof -
  consider "0 < x" | "x \<le> 0" "0 \<le> y" | "y < 0" by linarith
  then show ?thesis
  proof cases
    case 2
    then show ?thesis using round_rat_sign(2) [of x p emin] round_rat_sign(1) [of y p emin] by linarith
  next
    case 3
    then have "round_rat p emin (- y) \<le> round_rat p emin (- x)" using assms by (intro round_rat_mono_pos) auto
    then show ?thesis by (simp add: round_rat_minus)
  qed (use assms round_rat_mono_pos in blast)
qed

lemma overflow_to_mono:
  assumes "r \<le> s"
  shows "fle (overflow_to emax r) (overflow_to emax s)"
proof -
  have "emax \<le> rat_exponent s" if "0 < r" "emax \<le> rat_exponent r"
    using rat_exponent_mono [OF that(1) assms] that(2) by simp
  moreover have "emax \<le> rat_exponent r" if "s < 0" "emax \<le> rat_exponent s"
    using rat_exponent_mono [of "- s" "- r"] assms that by simp
  ultimately show ?thesis using assms
    by (auto simp: overflow_to_def fle_def feq_def)
qed

lemma rnd64_mono: "x \<le> y \<Longrightarrow> fle (rnd64 x) (rnd64 y)"
  by (simp add: rnd64_def overflow_to_mono round_rat_mono)

lemma rnd32_mono: "x \<le> y \<Longrightarrow> fle (rnd32 x) (rnd32 y)"
  by (simp add: rnd32_def overflow_to_mono round_rat_mono)

text \<open>A double between two doubles rounds between them.\<close>

lemma rnd64_between:
  assumes "is_double a" "is_double b" "a \<le> x" "x \<le> b"
  obtains y where "rnd64 x = Fin y" "a \<le> y" "y \<le> b"
proof -
  have "fle (Fin a) (rnd64 x)" "fle (rnd64 x) (Fin b)"
    using rnd64_mono [OF assms(3)] rnd64_mono [OF assms(4)] assms(1,2) by (simp_all add: rnd64_exact)
  then show thesis by (cases "rnd64 x") (auto simp: fle_def feq_def intro: that)
qed

lemma rnd64_is_double: "rnd64 x = Fin y \<Longrightarrow> is_double y"
proof -
  assume *: "rnd64 x = Fin y"
  then have "y = 0 \<or> rat_exponent y < 1024"
    by (auto simp: rnd64_def overflow_to_def split: if_splits)
  then have "\<bar>y\<bar> < 2 ^ 1024"
  proof
    assume less: "rat_exponent y < 1024"
    show ?thesis
    proof (cases "y = 0")
      case False
      then have "\<bar>y\<bar> < 2 powi (rat_exponent y + 1)" by (rule rat_exponent_bounds(2))
      also have "\<dots> \<le> 2 powi 1024" using less by (intro power_int_increasing) auto
      finally show ?thesis by simp
    qed simp
  qed simp
  with rnd64_dyadic [OF *] show ?thesis by (simp add: is_double_def)
qed

lemma rnd32_exact: "dyadic 24 (- 149) x \<Longrightarrow> \<bar>x\<bar> < 2 ^ 128 \<Longrightarrow> rnd32 x = Fin x"
  using rat_exponent_less [of x 128] by (force simp: rnd32_def round_rat_exact overflow_to_def)

lemma rnd32_dyadic: "rnd32 x = Fin y \<Longrightarrow> dyadic 24 (- 149) y"
  using round_rat_dyadic [of 24 "- 149" x] by (simp add: rnd32_def overflow_to_def split: if_splits)

lemma rnd32_int: "\<bar>n\<bar> \<le> 2 ^ 24 \<Longrightarrow> rnd32 (of_int n) = Fin (of_int n)"
proof (rule rnd32_exact)
  assume n: "\<bar>n\<bar> \<le> 2 ^ 24"
  then show "dyadic 24 (- 149) (of_int n)" by (intro dyadic_int) auto
  have "of_int \<bar>n\<bar> \<le> (of_int (2 ^ 24) :: rat)" using n by (simp only: of_int_le_iff)
  then show "\<bar>of_int n :: rat\<bar> < 2 ^ 128" by simp
qed

text \<open>The fraction of a float that is not negative is a float.\<close>

lemma dyadic_frac_part:
  assumes "dyadic p emin v" "0 \<le> v" "emin \<le> 0"
  shows "dyadic p emin (v - of_int \<lfloor>v\<rfloor>)"
proof -
  obtain m e where me: "v = of_int m * 2 powi e" "\<bar>m\<bar> \<le> 2 ^ p" "emin \<le> e"
    using assms(1) by (auto simp: dyadic_def)
  show ?thesis
  proof (cases "0 \<le> e")
    case True
    then have "v = of_int (m * 2 ^ nat e)" using me(1) by (simp add: powi_int)
    then have "v - of_int \<lfloor>v\<rfloor> = 0" by (metis diff_self floor_of_int)
    then show ?thesis unfolding dyadic_def using assms(3) by (intro exI [of _ 0]) auto
  next
    case False
    define n where "n = m - \<lfloor>v\<rfloor> * 2 ^ nat (- e)"
    have "(2::rat) ^ nat (- e) * 2 powi e = 1" using False powi_times [of "- e" e] by simp
    then have eq: "v - of_int \<lfloor>v\<rfloor> = of_int n * 2 powi e"
      by (simp add: n_def me(1) left_diff_distrib mult.assoc)
    have "0 * 2 powi e \<le> of_int n * (2::rat) powi e" unfolding eq [symmetric] by simp
    then have "0 \<le> (of_int n :: rat)" by (rule mult_right_le_imp_le) simp
    moreover have "0 \<le> \<lfloor>v\<rfloor>" using assms(2) by simp
    then have "n \<le> m" by (simp add: n_def)
    ultimately have "\<bar>n\<bar> \<le> 2 ^ p" using me(2) by simp
    then show ?thesis unfolding dyadic_def eq using me(3) by blast
  qed
qed

text \<open>The order of the values of a double.\<close>

lemma fle_order_trans: "fle x y \<Longrightarrow> fle y z \<Longrightarrow> fle x z"
  by (cases x; cases y; cases z) (auto simp: fle_def feq_def)

lemma fle_total: "x \<noteq> NaN \<Longrightarrow> y \<noteq> NaN \<Longrightarrow> fle x y \<or> fle y x"
  by (cases x; cases y) (auto simp: fle_def feq_def)

lemma fle_refl_iff: "fle x x \<longleftrightarrow> x \<noteq> NaN"
  by (cases x) (simp_all add: fle_def feq_def)

text \<open>Rounded distances compare as the distances do.\<close>

lemma fabs_rnd64: "fabs (rnd64 x) = rnd64 \<bar>x\<bar>"
proof -
  have sign: "0 \<le> round_rat 53 (- 1074) \<bar>x\<bar>" by (rule round_rat_sign) simp
  have "round_rat 53 (- 1074) \<bar>x\<bar> = \<bar>round_rat 53 (- 1074) x\<bar>"
  proof (cases "0 \<le> x")
    case True
    then show ?thesis using sign by simp
  next
    case False
    then have "\<bar>x\<bar> = - x" by simp
    then show ?thesis using sign round_rat_minus [of 53 "- 1074" x] by simp
  qed
  moreover have "rat_exponent \<bar>r\<bar> = rat_exponent r" for r by (simp add: rat_exponent_def)
  ultimately show ?thesis by (auto simp: rnd64_def overflow_to_def)
qed

lemma fabs_dsub_mono:
  assumes "\<bar>a - x\<bar> \<le> \<bar>b - x\<bar>"
  shows "fle (fabs (dsub (Fin a) (Fin x))) (fabs (dsub (Fin b) (Fin x)))"
  using rnd64_mono [OF assms] by (simp add: dsub_def fabs_rnd64)

end
