(* ===== verification/VideoPixels.thy ===== *)
theory VideoPixels
  imports VideoBuffers Rounding Evaluation
begin

text \<open>
  The conversion of a decoded frame to pixels (\<open>LerobotShardDecoder\<close> in
  \<open>src/function/video/lerobot_video_frames.cpp\<close>): nearest-neighbour resizing, dequantisation of depth codes
  and the reuse of the frame converted last.
\<close>

section \<open>Decoded frames\<close>

text \<open>
  The members of FFmpeg's \<open>AVFrame\<close> that the code reads. A missing time stamp is \<open>AV_NOPTS_VALUE\<close>;
  \<open>fr_plane\<close> is \<open>data[0]\<close> with \<open>height * linesize[0]\<close> bytes, and None if the pointer is null.
\<close>

record av_frame =
  fr_pts :: "int option"
  fr_best_effort :: "int option"
  fr_width :: int
  fr_height :: int
  fr_format :: int
  fr_linesize :: int
  fr_plane :: "8 word list option"

text \<open>\<open>DecodedVideoFrame\<close>; the pixels of a depth frame are its floats, those of an RGB frame its bytes.\<close>

datatype pixels = RGB "8 word list" | Depth "fp list"

record decoded_frame =
  df_target_index :: nat
  df_timestamp :: fp
  df_width :: int
  df_height :: int
  df_pixels :: "pixels option"

text \<open>
  The parts of FFmpeg and of the C++ library that conversion calls: the conversion of a frame to packed RGB
  rows (None if \<open>sws_getContext\<close> or \<open>sws_scale\<close> fails), \<open>std::log\<close> of a double and \<open>std::exp\<close> of a float.
\<close>

record pixel_host =
  gray12le :: int
  rgb_rows :: "av_frame \<Rightarrow> exn + 8 word list"
  log_double :: "fp \<Rightarrow> fp"
  exp_float :: "fp \<Rightarrow> fp"

definition LEROBOT_DEPTH_QMAX :: nat where "LEROBOT_DEPTH_QMAX = 4095"

section \<open>Resizing\<close>

text \<open>\<open>static_cast<int32_t>\<close> of a double that is in range.\<close>

definition to_int32 :: "fp \<Rightarrow> int" where
  "to_int32 x = (case x of Fin v \<Rightarrow> if v < 0 then - \<lfloor>- v\<rfloor> else \<lfloor>v\<rfloor> | _ \<Rightarrow> - 2147483648)"

fun axis_indices :: "nat \<Rightarrow> int \<Rightarrow> fp \<Rightarrow> fp \<Rightarrow> int list" where
  "axis_indices 0 source scale x = []"
| "axis_indices (Suc n) source scale x = min (source - 1) (to_int32 x) # axis_indices n source scale (dadd x scale)"

definition axis_scale :: "int \<Rightarrow> int \<Rightarrow> fp" where
  "axis_scale source target = ddiv (rnd32 (of_int source)) (int_to_double target)"

definition resize_axis :: "int \<Rightarrow> int \<Rightarrow> int list" where
  "resize_axis source target =
     (let scale = axis_scale source target in axis_indices (nat target) source scale (dmul scale (Fin (1 / 2))))"

record resize_state =
  rs_sizes :: "int \<times> int \<times> int \<times> int"
  rs_x_indices :: "int list"
  rs_y_indices :: "int list"

definition PrepareResizeIndices :: "int \<Rightarrow> int \<Rightarrow> int \<Rightarrow> int \<Rightarrow> resize_state \<Rightarrow> resize_state" where
  "PrepareResizeIndices source_width source_height target_width target_height st =
     (if rs_sizes st = (source_width, source_height, target_width, target_height) then st
      else \<lparr>rs_sizes = (source_width, source_height, target_width, target_height),
             rs_x_indices = resize_axis source_width target_width,
             rs_y_indices = resize_axis source_height target_height\<rparr>)"

section \<open>Depth\<close>

text \<open>The scale and offset that the constructor of the decoder computes.\<close>

definition depth_scale_offset :: "pixel_host \<Rightarrow> video_feature \<Rightarrow> fp \<times> fp" where
  "depth_scale_offset host m =
     (if \<not> is_depth_map m then (Fin 0, Fin 0)
      else if use_log m then
        let log_min = log_double host (dadd (depth_min m) (depth_shift m));
            log_max = log_double host (dadd (depth_max m) (depth_shift m))
        in (to_float (ddiv (dsub log_max log_min) (Fin (of_nat LEROBOT_DEPTH_QMAX))), to_float log_min)
      else (to_float (ddiv (dsub (depth_max m) (depth_min m)) (Fin (of_nat LEROBOT_DEPTH_QMAX))), to_float (depth_min m)))"

text \<open>DuckDB's \<open>MaxValue\<close> and \<open>MinValue\<close>.\<close>

definition max_value :: "fp \<Rightarrow> fp \<Rightarrow> fp" where "max_value a b = (if flt b a then a else b)"
definition min_value :: "fp \<Rightarrow> fp \<Rightarrow> fp" where "min_value a b = (if flt a b then a else b)"

definition clamp_depth :: "pixel_host \<Rightarrow> video_feature \<Rightarrow> nat \<Rightarrow> fp" where
  "clamp_depth host m quantized =
     (let (scale, offset) = depth_scale_offset host m;
          depth = sadd (smul (rnd32 (of_nat quantized)) scale) offset;
          depth = (if use_log m then ssub (exp_float host depth) (to_float (depth_shift m)) else depth)
      in max_value (to_float (depth_min m)) (min_value (to_float (depth_max m)) depth))"

definition lower_is_odd :: "fp \<Rightarrow> bool" where
  "lower_is_odd x = (case x of Fin v \<Rightarrow> odd (nat \<lfloor>v\<rfloor>) | _ \<Rightarrow> False)"

definition DequantizeDepth :: "pixel_host \<Rightarrow> video_feature \<Rightarrow> depth_unit \<Rightarrow> nat \<Rightarrow> fp" where
  "DequantizeDepth host m unit quantized =
     (let depth = clamp_depth host m quantized
      in if unit = MILLIMETERS then
           let depth = smul depth (Fin 1000)
           in if fle depth (Fin 0) then Fin 0
              else if fle (Fin 65535) depth then Fin 65535
              else
                let lower = ffloor depth;
                    fraction = ssub depth lower
                in if flt (Fin (1 / 2)) fraction \<or> (feq fraction (Fin (1 / 2)) \<and> lower_is_odd lower)
                   then sadd lower (Fin 1) else lower
         else depth)"

definition LoadLE16 :: "8 word list \<Rightarrow> nat \<Rightarrow> nat" where
  "LoadLE16 plane offset = unat (plane ! offset) + 256 * unat (plane ! (offset + 1))"

section \<open>Conversion\<close>

definition depth_pixel ::
  "pixel_host \<Rightarrow> video_feature \<Rightarrow> depth_unit \<Rightarrow> 8 word list \<Rightarrow> int \<Rightarrow> int \<Rightarrow> int \<Rightarrow> fp result" where
  "depth_pixel host m unit plane linesize source_y source_x =
     (let quantized = LoadLE16 plane (nat source_y * nat linesize + nat source_x * 2)
      in if quantized > LEROBOT_DEPTH_QMAX then invalid_row ''LeRobot depth video contains a code above the 12-bit range''
         else Inr (DequantizeDepth host m unit quantized))"

definition source_indices :: "bool \<Rightarrow> int list \<Rightarrow> int \<Rightarrow> int list" where
  "source_indices resize indices target = (if resize then indices else [0 .. target - 1])"

definition ConvertDepthPixels ::
  "pixel_host \<Rightarrow> video_feature \<Rightarrow> depth_unit \<Rightarrow> av_frame \<Rightarrow> int \<Rightarrow> int \<Rightarrow> resize_state \<Rightarrow> (fp list \<times> resize_state) result" where
  "ConvertDepthPixels host m unit source target_width target_height st =
     (if fr_format source \<noteq> gray12le host
      then invalid_row ''LeRobot depth video decoded as another pixel format instead of gray12le''
      else case fr_plane source of
        None \<Rightarrow> invalid_row ''FFmpeg returned an invalid gray12le plane for LeRobot depth video''
      | Some plane \<Rightarrow>
          if fr_linesize source < fr_width source * 2
          then invalid_row ''FFmpeg returned an invalid gray12le plane for LeRobot depth video''
          else
            let resize = (target_width \<noteq> fr_width source \<or> target_height \<noteq> fr_height source);
                st = (if resize then PrepareResizeIndices (fr_width source) (fr_height source) target_width target_height st else st);
                xs = source_indices resize (rs_x_indices st) target_width;
                ys = source_indices resize (rs_y_indices st) target_height
            in bindE (mapE (\<lambda>y. mapE (depth_pixel host m unit plane (fr_linesize source) y) xs) ys)
                 (\<lambda>rows. Inr (concat rows, st)))"

definition ConvertRGBPixels ::
  "pixel_host \<Rightarrow> av_frame \<Rightarrow> int \<Rightarrow> int \<Rightarrow> resize_state \<Rightarrow> (8 word list \<times> resize_state) result" where
  "ConvertRGBPixels host source target_width target_height st =
     bindE (rgb_rows host source) (\<lambda>rgb.
     if target_width \<noteq> fr_width source \<or> target_height \<noteq> fr_height source then
       let st = PrepareResizeIndices (fr_width source) (fr_height source) target_width target_height st
       in Inr (concat (map (\<lambda>y. concat (map (\<lambda>x.
                 take 3 (drop ((nat y * nat (fr_width source) + nat x) * 3) rgb)) (rs_x_indices st))) (rs_y_indices st)), st)
     else Inr (rgb, st))"

text \<open>The frame that was converted last, with what identifies it, and the resize indices.\<close>

record convert_state =
  cv_last :: "((fp \<times> int \<times> int \<times> int) \<times> pixels) option"
  cv_resize :: resize_state

definition new_convert_state :: convert_state where
  "new_convert_state = \<lparr>cv_last = None, cv_resize = \<lparr>rs_sizes = (0, 0, 0, 0), rs_x_indices = [], rs_y_indices = []\<rparr>\<rparr>"

definition convert_pixels ::
  "pixel_host \<Rightarrow> video_feature \<Rightarrow> video_options \<Rightarrow> av_frame \<Rightarrow> int \<Rightarrow> int \<Rightarrow> resize_state \<Rightarrow> (pixels \<times> resize_state) result" where
  "convert_pixels host m options source target_width target_height rs =
     (if is_depth_map m
      then bindE (ConvertDepthPixels host m (depth_output_unit options) source target_width target_height rs)
             (\<lambda>(depth, rs). Inr (Depth depth, rs))
      else bindE (ConvertRGBPixels host source target_width target_height rs) (\<lambda>(rgb, rs). Inr (RGB rgb, rs)))"

definition ConvertFrame ::
  "pixel_host \<Rightarrow> video_feature \<Rightarrow> video_options \<Rightarrow> bool \<Rightarrow> av_frame \<Rightarrow> fp \<Rightarrow> nat \<Rightarrow> convert_state \<Rightarrow>
   (decoded_frame \<times> convert_state) result" where
  "ConvertFrame host m options needs_pixels source decoded_timestamp target_index st =
     (let target_width = (if width options > 0 then width options else fr_width source);
          target_height = (if height options > 0 then height options else fr_height source);
          frame = \<lparr>df_target_index = target_index, df_timestamp = decoded_timestamp, df_width = target_width,
                    df_height = target_height, df_pixels = None\<rparr>;
          identity = (decoded_timestamp, fr_width source, fr_height source, fr_format source)
      in if fr_width source \<le> 0 \<or> fr_height source \<le> 0 \<or> target_width \<le> 0 \<or> target_height \<le> 0
         then invalid_row ''FFmpeg returned invalid dimensions for LeRobot video''
         else if is_depth_map m \<and> fr_format source \<noteq> gray12le host
         then invalid_row ''LeRobot depth video decoded as another pixel format instead of gray12le''
         else if \<not> needs_pixels then Inr (frame, st)
         else case cv_last st of
           Some (last_identity, pixels) \<Rightarrow>
             if last_identity = identity then Inr (frame\<lparr>df_pixels := Some pixels\<rparr>, st)
             else bindE (convert_pixels host m options source target_width target_height (cv_resize st)) (\<lambda>(pixels, rs).
               Inr (frame\<lparr>df_pixels := Some pixels\<rparr>, \<lparr>cv_last = Some (identity, pixels), cv_resize = rs\<rparr>))
         | None \<Rightarrow> bindE (convert_pixels host m options source target_width target_height (cv_resize st)) (\<lambda>(pixels, rs).
               Inr (frame\<lparr>df_pixels := Some pixels\<rparr>, \<lparr>cv_last = Some (identity, pixels), cv_resize = rs\<rparr>)))"

section \<open>Resized positions stay inside the frame\<close>

lemma is_double_scaled: "0 \<le> k \<Longrightarrow> k \<le> 2 ^ 53 \<Longrightarrow> is_double (of_int k * 2 ^ 31)"
proof -
  assume k: "0 \<le> k" "k \<le> 2 ^ 53"
  have "dyadic 53 (- 1074) (of_int k * 2 ^ 31)"
    unfolding dyadic_def using k by (intro exI [of _ k] exI [of _ 31]) simp
  moreover have "of_int k \<le> (of_int (2 ^ 53) :: rat)" using k(2) by (simp only: of_int_le_iff)
  then have "\<bar>of_int k * 2 ^ 31 :: rat\<bar> < 2 ^ 1024" using k(1) by simp
  ultimately show ?thesis by (simp add: is_double_def)
qed

lemma axis_scale_bounds:
  assumes "0 < source" "source < 2 ^ 31" "0 < target" "target < 2 ^ 31"
  obtains v where "axis_scale source target = Fin v" "0 \<le> v" "v \<le> 2 ^ 31" "is_double v"
proof -
  have "fle (Fin 0) (rnd32 (of_int source))" using rnd32_mono [of 0 "of_int source"] assms(1) rnd32_int [of 0] by simp
  moreover have "dyadic 24 (- 149) (2 ^ 31)"
    unfolding dyadic_def by (intro exI [of _ 1] exI [of _ 31]) simp
  then have "rnd32 (of_int (2 ^ 31)) = Fin (2 ^ 31)" using rnd32_exact [of "2 ^ 31"] by simp
  then have "fle (rnd32 (of_int source)) (Fin (2 ^ 31))"
    using rnd32_mono [of "of_int source" "of_int (2 ^ 31)"] assms(2) by simp
  ultimately obtain s where s: "rnd32 (of_int source) = Fin s" "0 \<le> s" "s \<le> 2 ^ 31"
    by (cases "rnd32 (of_int source)") (auto simp: fle_def feq_def)
  have t: "int_to_double target = Fin (of_int target)" using assms by (intro int_to_double_exact) auto
  have one: "1 \<le> (of_int target :: rat)" using assms(3) by simp
  have "0 \<le> s / of_int target" "s / of_int target \<le> 2 ^ 31"
    using s one assms(3) by (auto simp: pos_divide_le_eq intro: order_trans mult_left_mono)
  then obtain v where v: "rnd64 (s / of_int target) = Fin v" "0 \<le> v" "v \<le> 2 ^ 31"
    using rnd64_between [of 0 "2 ^ 31" "s / of_int target"] is_double_scaled [of 0] is_double_scaled [of 1] by auto
  moreover have "axis_scale source target = rnd64 (s / of_int target)"
    using assms(3) by (simp add: axis_scale_def s(1) t ddiv_def)
  ultimately show thesis using rnd64_is_double [OF v(1)] that by simp
qed

lemma to_int32_mono: "0 \<le> x \<Longrightarrow> x \<le> y \<Longrightarrow> 0 \<le> to_int32 (Fin x) \<and> to_int32 (Fin x) \<le> to_int32 (Fin y)"
  by (simp add: to_int32_def floor_mono)

lemma axis_indices_bounds:
  assumes "0 < source" "0 \<le> v" "v \<le> 2 ^ 31" "0 \<le> x" "is_double x" "x \<le> of_int k * 2 ^ 31" "0 \<le> k" "k + int n \<le> 2 ^ 53"
  shows "length (axis_indices n source (Fin v) (Fin x)) = n \<and> sorted (axis_indices n source (Fin v) (Fin x)) \<and>
    (\<forall>i\<in>set (axis_indices n source (Fin v) (Fin x)). 0 \<le> i \<and> i < source \<and> min (source - 1) (to_int32 (Fin x)) \<le> i)"
  using assms(4-8)
proof (induction n arbitrary: x k)
  case (Suc n)
  have "x \<le> x + v" "x + v \<le> of_int (k + 1) * 2 ^ 31" using assms(2,3) Suc.prems(3) by (simp_all add: algebra_simps)
  moreover have "is_double (of_int (k + 1) * 2 ^ 31)" using Suc.prems(4,5) by (intro is_double_scaled) auto
  ultimately obtain y where y: "rnd64 (x + v) = Fin y" "x \<le> y" "y \<le> of_int (k + 1) * 2 ^ 31"
    using rnd64_between [OF Suc.prems(2)] by blast
  have rest: "axis_indices (Suc n) source (Fin v) (Fin x) =
      min (source - 1) (to_int32 (Fin x)) # axis_indices n source (Fin v) (Fin y)"
    by (simp add: dadd_def y(1))
  note IH = Suc.IH [of y "k + 1", OF _ rnd64_is_double [OF y(1)] y(3)]
  have x: "0 \<le> to_int32 (Fin x)" "to_int32 (Fin x) \<le> to_int32 (Fin y)"
    using to_int32_mono [OF Suc.prems(1) y(2)] by auto
  have IH': "length (axis_indices n source (Fin v) (Fin y)) = n \<and> sorted (axis_indices n source (Fin v) (Fin y)) \<and>
      (\<forall>i\<in>set (axis_indices n source (Fin v) (Fin y)). 0 \<le> i \<and> i < source \<and> min (source - 1) (to_int32 (Fin y)) \<le> i)"
    using IH Suc.prems y(2) by simp
  let ?h = "min (source - 1) (to_int32 (Fin x))"
  have h: "0 \<le> ?h" "?h < source" "?h \<le> min (source - 1) (to_int32 (Fin y))" using x assms(1) by linarith+
  then have "\<forall>i\<in>set (axis_indices n source (Fin v) (Fin y)). 0 \<le> i \<and> i < source \<and> ?h \<le> i" using IH' by fastforce
  then show ?case using IH' h(1,2) unfolding rest by simp
qed simp

lemma resize_axis_bounds:
  assumes "0 < source" "source < 2 ^ 31" "0 < target" "target < 2 ^ 31"
  shows "length (resize_axis source target) = nat target \<and> sorted (resize_axis source target) \<and>
    (\<forall>i\<in>set (resize_axis source target). 0 \<le> i \<and> i < source)"
proof -
  obtain v where v: "axis_scale source target = Fin v" "0 \<le> v" "v \<le> 2 ^ 31" "is_double v"
    using axis_scale_bounds [OF assms] .
  have "0 \<le> v * (1 / 2)" "v * (1 / 2) \<le> 2 ^ 31" using v by auto
  moreover have "is_double 0" "is_double (2 ^ 31)" using is_double_scaled [of 0] is_double_scaled [of 1] by auto
  ultimately obtain x where x: "rnd64 (v * (1 / 2)) = Fin x" "0 \<le> x" "x \<le> 2 ^ 31"
    using rnd64_between [of 0 "2 ^ 31" "v * (1 / 2)"] by blast
  have "axis_scale source target = Fin v \<Longrightarrow> resize_axis source target = axis_indices (nat target) source (Fin v) (Fin x)"
    using x(1) by (simp add: resize_axis_def Let_def dmul_def)
  then show ?thesis
    using axis_indices_bounds [of source v x 1 "nat target"] v x rnd64_is_double [OF x(1)] assms by simp
qed

section \<open>Depth in millimetres\<close>

lemma millimetres_between:
  assumes "0 < v" "v < 65535" "dyadic 24 (- 149) v"
  shows "(let lower = ffloor (Fin v); fraction = ssub (Fin v) lower
          in if flt (Fin (1 / 2)) fraction \<or> (feq fraction (Fin (1 / 2)) \<and> lower_is_odd lower)
             then sadd lower (Fin 1) else lower) = Fin (of_int (rne v))"
proof -
  have floor: "0 \<le> \<lfloor>v\<rfloor>" "\<lfloor>v\<rfloor> < 65535" using assms(1,2) by (auto simp: floor_less_iff)
  have "dyadic 24 (- 149) (v - of_int \<lfloor>v\<rfloor>)" using assms by (intro dyadic_frac_part) auto
  moreover have "\<bar>v - of_int \<lfloor>v\<rfloor>\<bar> < 2 ^ 128"
  proof -
    have "0 \<le> v - of_int \<lfloor>v\<rfloor>" "v - of_int \<lfloor>v\<rfloor> < 1" by linarith+
    then show ?thesis by simp
  qed
  ultimately have fraction: "rnd32 (v - of_int \<lfloor>v\<rfloor>) = Fin (v - of_int \<lfloor>v\<rfloor>)" by (rule rnd32_exact)
  have "rnd32 (of_int (\<lfloor>v\<rfloor> + 1)) = Fin (of_int (\<lfloor>v\<rfloor> + 1))" using floor by (intro rnd32_int) auto
  then have up: "sadd (Fin (of_int \<lfloor>v\<rfloor>)) (Fin 1) = Fin (of_int (\<lfloor>v\<rfloor> + 1))" by (simp add: sadd_def)
  have odd: "lower_is_odd (Fin (of_int \<lfloor>v\<rfloor>)) \<longleftrightarrow> odd \<lfloor>v\<rfloor>"
    using floor by (simp add: lower_is_odd_def even_nat_iff)
  show ?thesis
    by (auto simp: Let_def ssub_def fraction up odd rne_def feq_def)
qed

lemma rne_clamp: "v \<le> 0 \<Longrightarrow> rne v \<le> 0" "65535 \<le> v \<Longrightarrow> 65535 \<le> rne v"
  using rne_le [of v 0] rne_ge [of 65535 v] by simp_all

text \<open>A depth in millimetres is the depth in float metres, limited to the range of the feature and multiplied
  by 1000, rounded to the nearest integer with ties to even, and saturated to 0 and 65535.\<close>

lemma depth_millimetres_rounded:
  assumes "smul (clamp_depth host m quantized) (Fin 1000) = Fin v"
  shows "DequantizeDepth host m MILLIMETERS quantized = Fin (of_int (max 0 (min 65535 (rne v))))"
proof -
  obtain d where d: "clamp_depth host m quantized = Fin d" "rnd32 (d * 1000) = Fin v"
    using assms by (cases "clamp_depth host m quantized") (auto simp: smul_def inf_signed_def split: if_splits)
  have le: "fle (Fin a) (Fin b) \<longleftrightarrow> a \<le> b" for a b by (auto simp: fle_def feq_def)
  consider "v \<le> 0" | "65535 \<le> v" | "0 < v" "v < 65535" by linarith
  then show ?thesis
  proof cases
    case 3
    have "0 \<le> rne v" "rne v \<le> 65535" using 3 rne_ge [of 0 v] rne_le [of v 65535] by simp_all
    then show ?thesis
      using millimetres_between [OF 3 rnd32_dyadic [OF d(2)]] 3
      by (simp add: DequantizeDepth_def assms le Let_def)
  qed (use rne_clamp [of v] in \<open>simp_all add: DequantizeDepth_def assms le\<close>)
qed

section \<open>Depth frames\<close>

definition resize_ok :: "resize_state \<Rightarrow> bool" where
  "resize_ok st \<longleftrightarrow> (case rs_sizes st of (sw, sh, tw, th) \<Rightarrow>
     rs_x_indices st = resize_axis sw tw \<and> rs_y_indices st = resize_axis sh th)"

lemma PrepareResizeIndices_ok:
  assumes "resize_ok st"
  shows "resize_ok (PrepareResizeIndices sw sh tw th st)"
    and "rs_x_indices (PrepareResizeIndices sw sh tw th st) = resize_axis sw tw"
    and "rs_y_indices (PrepareResizeIndices sw sh tw th st) = resize_axis sh th"
  using assms by (auto simp: resize_ok_def PrepareResizeIndices_def)

lemma resize_ok_new: "resize_ok (cv_resize new_convert_state)"
  by (simp add: resize_ok_def new_convert_state_def resize_axis_def Let_def)

definition sampled_axis :: "bool \<Rightarrow> int \<Rightarrow> int \<Rightarrow> int list" where
  "sampled_axis resize source target = (if resize then resize_axis source target else [0 .. target - 1])"

lemma sampled_axis_bounds:
  assumes "0 < source" "source < 2 ^ 31" "0 < target" "target < 2 ^ 31" "resize \<or> source = target"
  shows "length (sampled_axis resize source target) = nat target"
    and "i \<in> set (sampled_axis resize source target) \<Longrightarrow> 0 \<le> i \<and> i < source"
  using resize_axis_bounds [OF assms(1-4)] assms(5) by (cases resize; auto simp: sampled_axis_def)+

lemma length_concat_rows: "(\<And>ys. ys \<in> set yss \<Longrightarrow> length ys = n) \<Longrightarrow> length (concat yss) = length yss * n"
  by (induction yss) auto

lemma concat_nth:
  assumes "\<And>ys. ys \<in> set yss \<Longrightarrow> length ys = n" "y < length yss" "x < n"
  shows "concat yss ! (y * n + x) = yss ! y ! x \<and> y * n + x < length (concat yss)"
  using assms
proof (induction yss arbitrary: y)
  case (Cons ys yss)
  have ys: "length ys = n" using Cons.prems(1) by simp
  show ?case
  proof (cases y)
    case 0
    then show ?thesis using ys Cons.prems(3) by (simp add: nth_append)
  next
    case (Suc k)
    have IH: "concat yss ! (k * n + x) = yss ! k ! x \<and> k * n + x < length (concat yss)"
      using Cons.IH [of k] Cons.prems Suc by auto
    then show ?thesis using ys by (simp add: nth_append Suc)
  qed
qed simp

text \<open>C23. A converted depth frame has exactly the requested number of pixels. Each is the dequantised 12-bit code of
  the source pixel that nearest-neighbour sampling assigns to its row and column; that pixel lies inside the source
  frame and its two bytes inside the plane that FFmpeg returned.\<close>

theorem depth_frame_sampled:
  assumes "ConvertDepthPixels host m unit f tw th st = Inr (pixels, st')" and "resize_ok st"
    and "0 < fr_width f" "fr_width f < 2 ^ 31" "0 < fr_height f" "fr_height f < 2 ^ 31"
    and "0 < tw" "tw < 2 ^ 31" "0 < th" "th < 2 ^ 31"
    and "fr_plane f = Some plane" "length plane = nat (fr_height f) * nat (fr_linesize f)"
    and "y < nat th" "x < nat tw"
  defines "resize \<equiv> tw \<noteq> fr_width f \<or> th \<noteq> fr_height f"
  shows "length pixels = nat th * nat tw \<and>
    (let sx = sampled_axis resize (fr_width f) tw ! x; sy = sampled_axis resize (fr_height f) th ! y;
         offset = nat sy * nat (fr_linesize f) + nat sx * 2
     in 0 \<le> sx \<and> sx < fr_width f \<and> 0 \<le> sy \<and> sy < fr_height f \<and> offset + 1 < length plane \<and>
        LoadLE16 plane offset \<le> 4095 \<and>
        pixels ! (y * nat tw + x) = DequantizeDepth host m unit (LoadLE16 plane offset))"
proof -
  let ?xs = "sampled_axis resize (fr_width f) tw" and ?ys = "sampled_axis resize (fr_height f) th"
  let ?px = "depth_pixel host m unit plane (fr_linesize f)"
  have line: "fr_width f * 2 \<le> fr_linesize f"
    using assms(1,11) by (auto simp: ConvertDepthPixels_def invalid_row_def split: if_splits)
  have "rs_x_indices (PrepareResizeIndices (fr_width f) (fr_height f) tw th st) = resize_axis (fr_width f) tw"
    "rs_y_indices (PrepareResizeIndices (fr_width f) (fr_height f) tw th st) = resize_axis (fr_height f) th"
    using PrepareResizeIndices_ok [OF assms(2)] by blast+
  then obtain rows where rows: "mapE (\<lambda>y. mapE (?px y) ?xs) ?ys = Inr rows" "pixels = concat rows"
    using assms(1,11) line
    by (auto simp: ConvertDepthPixels_def invalid_row_def source_indices_def sampled_axis_def resize_def Let_def split: if_splits)
  have xs: "length ?xs = nat tw" "i \<in> set ?xs \<Longrightarrow> 0 \<le> i \<and> i < fr_width f" for i
    using sampled_axis_bounds [of "fr_width f" tw resize] assms(3,4,7,8) by (auto simp: resize_def)
  have ys: "length ?ys = nat th" "i \<in> set ?ys \<Longrightarrow> 0 \<le> i \<and> i < fr_height f" for i
    using sampled_axis_bounds [of "fr_height f" th resize] assms(5,6,9,10) by (auto simp: resize_def)
  have row: "length r = nat tw" if "r \<in> set rows" for r
    using mapE_set [OF rows(1) that] mapE_length xs(1) by metis
  have len: "length rows = nat th" using mapE_length [OF rows(1)] ys(1) by simp
  have at: "pixels ! (y * nat tw + x) = rows ! y ! x" using concat_nth [of rows "nat tw" y x] row len assms(13,14) rows(2) by simp
  have "mapE (?px (?ys ! y)) ?xs = Inr (rows ! y)" using mapE_nth [OF rows(1), of y] ys(1) assms(13) by simp
  then have px: "?px (?ys ! y) (?xs ! x) = Inr (rows ! y ! x)" using mapE_nth [of "?px (?ys ! y)" ?xs "rows ! y" x] xs(1) assms(14) by simp
  have sx: "0 \<le> ?xs ! x" "?xs ! x < fr_width f" using xs(2) [OF nth_mem, of x] xs(1) assms(14) by auto
  have sy: "0 \<le> ?ys ! y" "?ys ! y < fr_height f" using ys(2) [OF nth_mem, of y] ys(1) assms(13) by auto
  have "nat (?ys ! y) + 1 \<le> nat (fr_height f)" using sy by linarith
  then have "(nat (?ys ! y) + 1) * nat (fr_linesize f) \<le> length plane" unfolding assms(12) by (rule mult_le_mono1)
  moreover have "nat (?xs ! x) * 2 + 1 < nat (fr_linesize f)" using sx line by linarith
  ultimately have "nat (?ys ! y) * nat (fr_linesize f) + nat (?xs ! x) * 2 + 1 < length plane" by simp
  moreover have "length pixels = nat th * nat tw"
    using length_concat_rows [of rows "nat tw"] row len rows(2) by simp
  ultimately show ?thesis
    using px sx sy at
    by (auto simp: depth_pixel_def Let_def invalid_row_def LEROBOT_DEPTH_QMAX_def split: if_splits)
qed

text \<open>A host and a depth frame of two by two pixels to apply the properties to.\<close>

definition demo_host :: pixel_host where
  "demo_host = \<lparr>gray12le = 7, rgb_rows = (\<lambda>f. Inr []), log_double = (\<lambda>x. x), exp_float = (\<lambda>x. x)\<rparr>"

definition demo_depth :: video_feature where
  "demo_depth = \<lparr>is_depth_map = True, depth_min = Fin 0, depth_max = Fin 10, depth_shift = Fin 0, use_log = False\<rparr>"

definition demo_frame :: av_frame where
  "demo_frame = \<lparr>fr_pts = Some 0, fr_best_effort = None, fr_width = 2, fr_height = 2, fr_format = 7, fr_linesize = 4,
     fr_plane = Some [1, 0, 2, 0, 3, 1, 4, 2]\<rparr>"

lemma depth_millimetres_rounded_witness:
  "\<exists>v. smul (clamp_depth demo_host demo_depth 1000) (Fin 1000) = Fin v \<and>
     DequantizeDepth demo_host demo_depth MILLIMETERS 1000 = Fin (of_int (max 0 (min 65535 (rne v))))"
proof -
  have "case smul (clamp_depth demo_host demo_depth 1000) (Fin 1000) of Fin v \<Rightarrow> True | _ \<Rightarrow> False" by code_simp
  then obtain v where "smul (clamp_depth demo_host demo_depth 1000) (Fin 1000) = Fin v" by (auto split: fp.splits)
  with depth_millimetres_rounded [OF this] show ?thesis by blast
qed

theorem depth_frame_sampled_witness:
  "\<exists>pixels st'. ConvertDepthPixels demo_host demo_depth METERS demo_frame 1 1 (cv_resize new_convert_state) = Inr (pixels, st') \<and>
     length pixels = 1 \<and> sampled_axis True 2 1 ! 0 < 2"
proof -
  have "case ConvertDepthPixels demo_host demo_depth METERS demo_frame 1 1 (cv_resize new_convert_state) of
      Inl e \<Rightarrow> False | Inr r \<Rightarrow> True" by code_simp
  then obtain pixels st' where c: "ConvertDepthPixels demo_host demo_depth METERS demo_frame 1 1 (cv_resize new_convert_state) =
      Inr (pixels, st')" by (auto split: sum.splits)
  from depth_frame_sampled [OF this resize_ok_new, of "[1, 0, 2, 0, 3, 1, 4, 2]" 0 0]
  show ?thesis using c by (auto simp: demo_frame_def Let_def)
qed

end
