(* ===== verification/VideoDecoder.thy ===== *)
theory VideoDecoder
  imports VideoPixels
begin

text \<open>
  \<open>LerobotShardDecoder\<close> of \<open>src/function/video/lerobot_video_frames.cpp\<close>: one seek per cluster of targets, then
  the frames of the video in order, of which the one nearest to each target is chosen. FFmpeg is a parameter.
\<close>

section \<open>FFmpeg\<close>

text \<open>
  The calls of the decoder on a state \<open>'f\<close> that stands for the demuxer, the codec and the file handle.
  \<open>ff_io_error\<close> is what \<open>ThrowIOError\<close> finds after a call, \<open>ff_interrupted\<close> what \<open>CheckForInterrupt\<close> does.
\<close>

datatype received = Received av_frame | TryAgain | EndOfStream | ReceiveFailed
datatype packet_read = PacketRead bool | ReadEof | ReadFailed

record 'f ffmpeg =
  ff_receive :: "'f \<Rightarrow> received \<times> 'f"
  ff_read :: "'f \<Rightarrow> packet_read \<times> 'f"
  ff_send_packet :: "'f \<Rightarrow> bool \<times> 'f"
  ff_send_flush :: "'f \<Rightarrow> bool \<times> 'f"
  ff_seek :: "int \<Rightarrow> 'f \<Rightarrow> bool \<times> 'f"
  ff_flush_buffers :: "'f \<Rightarrow> 'f"
  ff_io_error :: "'f \<Rightarrow> exn option"
  ff_interrupted :: "'f \<Rightarrow> bool"
  ff_time_base :: fp

section \<open>Reading frames\<close>

text \<open>
  The members of the decoder that \<open>ReadFrame\<close> uses. \<open>previous\<close> is \<open>have_previous\<close>, \<open>previous_frame\<close> and
  \<open>previous_timestamp\<close>.
\<close>

record 'f frame_stream =
  fs_ffmpeg :: 'f
  demux_eof :: bool
  flush_sent :: bool
  decoded_frames_since_seek :: nat
  decode_frame_budget :: nat
  previous :: "(av_frame \<times> fp) option"

definition NANOSECOND :: fp where "NANOSECOND = rnd64 (1 / 10 ^ 9)"

definition frame_time :: "'f ffmpeg \<Rightarrow> av_frame \<Rightarrow> fp option" where
  "frame_time ff frame =
     (case (case fr_pts frame of None \<Rightarrow> fr_best_effort frame | pts \<Rightarrow> pts) of
        None \<Rightarrow> None
      | Some ticks \<Rightarrow>
          let t = dmul (int_to_double ticks) (ff_time_base ff) in if fis_finite t then Some t else None)"

definition accept_frame ::
  "'f ffmpeg \<Rightarrow> av_frame \<Rightarrow> fp \<Rightarrow> 'f frame_stream \<Rightarrow> ((av_frame \<times> fp) option \<times> 'f frame_stream) result" where
  "accept_frame ff frame t s =
     (let count = decoded_frames_since_seek s + 1
      in if (case previous s of None \<Rightarrow> False | Some (_, before) \<Rightarrow> flt (dadd t NANOSECOND) before)
         then invalid_row ''FFmpeg returned non-monotonic timestamps for LeRobot video''
         else if count mod 256 = 0 \<and> ff_interrupted ff (fs_ffmpeg s) then Inl InterruptException
         else if count > decode_frame_budget s
         then invalid_row ''Exceeded the per-seek decode budget while aligning LeRobot video''
         else Inr (Some (frame, t), s\<lparr>decoded_frames_since_seek := count\<rparr>))"

text \<open>Packets are read until one of the video stream has been sent to the codec, or the file ends.\<close>

partial_function (option) read_packets :: "'f ffmpeg \<Rightarrow> 'f frame_stream \<Rightarrow> 'f frame_stream result option" where
  "read_packets ff s =
     (case ff_read ff (fs_ffmpeg s) of (status, f) \<Rightarrow>
        (case ff_io_error ff f of
           Some e \<Rightarrow> Some (Inl e)
         | None \<Rightarrow>
             (case status of
                ReadFailed \<Rightarrow> Some (Inl (IOException ''FFmpeg failed while reading LeRobot video''))
              | ReadEof \<Rightarrow> Some (Inr (s\<lparr>fs_ffmpeg := f, demux_eof := True\<rparr>))
              | PacketRead video \<Rightarrow>
                  if \<not> video then read_packets ff (s\<lparr>fs_ffmpeg := f\<rparr>)
                  else (case ff_send_packet ff f of (ok, f') \<Rightarrow>
                    if ok then Some (Inr (s\<lparr>fs_ffmpeg := f'\<rparr>))
                    else Some (Inl (IOException ''FFmpeg failed to submit a packet for LeRobot video''))))))"

partial_function (option) ReadFrame ::
  "'f ffmpeg \<Rightarrow> 'f frame_stream \<Rightarrow> ((av_frame \<times> fp) option \<times> 'f frame_stream) result option" where
  "ReadFrame ff s =
     (case ff_receive ff (fs_ffmpeg s) of (status, f) \<Rightarrow>
        (case status of
           Received frame \<Rightarrow>
             (case frame_time ff frame of
                None \<Rightarrow> ReadFrame ff (s\<lparr>fs_ffmpeg := f\<rparr>)
              | Some t \<Rightarrow> Some (accept_frame ff frame t (s\<lparr>fs_ffmpeg := f\<rparr>)))
         | EndOfStream \<Rightarrow> Some (Inr (None, s\<lparr>fs_ffmpeg := f\<rparr>))
         | ReceiveFailed \<Rightarrow> Some (Inl (IOException ''FFmpeg failed while decoding LeRobot video''))
         | TryAgain \<Rightarrow>
             if demux_eof s then
               if flush_sent s then Some (Inr (None, s\<lparr>fs_ffmpeg := f\<rparr>))
               else (case ff_send_flush ff f of (ok, f') \<Rightarrow>
                 if ok then ReadFrame ff (s\<lparr>fs_ffmpeg := f', flush_sent := True\<rparr>)
                 else Some (Inl (IOException ''FFmpeg failed to flush LeRobot video'')))
             else Option.bind (read_packets ff (s\<lparr>fs_ffmpeg := f\<rparr>)) (\<lambda>r.
               case r of Inl e \<Rightarrow> Some (Inl e) | Inr s' \<Rightarrow> ReadFrame ff s')))"

section \<open>The decoder\<close>

text \<open>\<open>last_target\<close>, \<open>cluster_start\<close> and \<open>current\<close> join a flag \<open>have_...\<close> with what it guards.\<close>

record 'f shard_decoder =
  sd_shard_index :: nat
  sd_stream :: "'f frame_stream"
  sd_buffer :: "decode_buffer option"
  cluster_position :: nat
  sd_target_position :: nat
  decoder_eof :: bool
  current :: "(av_frame \<times> fp) option"
  last_target :: "fp option"
  cluster_start :: "fp option"
  sd_convert :: convert_state

record 'f decoder_setup =
  ds_ffmpeg :: "'f ffmpeg"
  ds_host :: pixel_host
  ds_feature :: video_feature
  ds_options :: video_options
  ds_needs_pixels :: bool

definition target_time :: "decode_buffer \<Rightarrow> nat \<Rightarrow> fp" where
  "target_time b i = dt_video_timestamp (db_targets b ! i)"

text \<open>\<open>std::llround\<close> of a finite double, and \<open>std::max(0.0, x)\<close>.\<close>

definition llround :: "fp \<Rightarrow> int" where
  "llround x = (case x of Fin v \<Rightarrow> if v < 0 then - \<lfloor>- v + 1 / 2\<rfloor> else \<lfloor>v + 1 / 2\<rfloor> | _ \<Rightarrow> INT64_MIN)"

definition seek_ticks :: "fp \<Rightarrow> fp \<Rightarrow> int" where
  "seek_ticks time_base earliest =
     (let ticks = llround (ddiv (if flt (Fin 0) earliest then earliest else Fin 0) time_base)
      in if ticks > 0 then ticks - 1 else ticks)"

definition StartCluster :: "'f decoder_setup \<Rightarrow> decode_buffer \<Rightarrow> 'f shard_decoder \<Rightarrow> 'f shard_decoder result" where
  "StartCluster ds b d =
     (let ff = ds_ffmpeg ds; cluster = db_clusters b ! cluster_position d;
          earliest = target_time b (hd cluster); latest = target_time b (last cluster);
          time_base = ff_time_base ff
      in if \<not> fis_finite time_base \<or> fle time_base (Fin 0) \<or> flt (dmul (int_to_double INT64_MAX) time_base) earliest
         then invalid_row ''LeRobot video timestamp is too large to seek''
         else
           (case ff_seek ff (seek_ticks time_base earliest) (fs_ffmpeg (sd_stream d)) of (ok, f) \<Rightarrow>
              case ff_io_error ff f of
                Some e \<Rightarrow> Inl e
              | None \<Rightarrow>
                  if \<not> ok then Inl (IOException ''FFmpeg could not seek LeRobot video'')
                  else Inr (d\<lparr>sd_stream := \<lparr>fs_ffmpeg = ff_flush_buffers ff f, demux_eof = False, flush_sent = False,
                                decoded_frames_since_seek = 0,
                                decode_frame_budget = DecodeFrameBudget earliest latest (db_fps b), previous = None\<rparr>,
                              sd_target_position := 0, decoder_eof := False, current := None,
                              cluster_start := Some earliest, sd_convert := (sd_convert d)\<lparr>cv_last := None\<rparr>\<rparr>)))"

text \<open>Whether the decoder may go on from where it is instead of seeking.\<close>

definition continue_decode :: "'f decoder_setup \<Rightarrow> decode_buffer \<Rightarrow> 'f shard_decoder \<Rightarrow> bool" where
  "continue_decode ds b d =
     (let first_cluster = hd (db_clusters b);
          earliest = target_time b (hd first_cluster); latest = target_time b (last first_cluster)
      in case (last_target d, cluster_start d) of
           (Some before, Some start) \<Rightarrow>
             \<not> decoder_eof d \<and> fle before (dadd earliest NANOSECOND) \<and>
             fle (dsub earliest before) (cluster_gap (ds_options ds)) \<and>
             EstimateFrameSpan start latest (db_fps b) \<le> LEROBOT_MAX_CLUSTER_FRAME_SPAN
         | _ \<Rightarrow> False)"

definition BeginBuffer :: "'f decoder_setup \<Rightarrow> decode_buffer \<Rightarrow> 'f shard_decoder \<Rightarrow> 'f shard_decoder result" where
  "BeginBuffer ds b d =
     (if db_shard_index b \<noteq> sd_shard_index d \<or> db_targets b = [] \<or> db_clusters b = []
      then Inl (InternalException ''Invalid LeRobot target buffer for video shard'')
      else
        let d1 = d\<lparr>sd_buffer := Some b, cluster_position := 0, sd_target_position := 0\<rparr>
        in if \<not> continue_decode ds b d1 then StartCluster ds b d1
           else
             let latest = target_time b (last (hd (db_clusters b)))
             in case cluster_start d1 of
                  None \<Rightarrow> StartCluster ds b d1
                | Some start \<Rightarrow>
                    Inr (d1\<lparr>sd_stream := (sd_stream d1)\<lparr>decode_frame_budget := DecodeFrameBudget start latest (db_fps b)\<rparr>\<rparr>))"

definition ValidateTolerance :: "'f decoder_setup \<Rightarrow> fp \<Rightarrow> fp \<Rightarrow> bool" where
  "ValidateTolerance ds target_timestamp decoded_timestamp \<longleftrightarrow>
     \<not> flt (tolerance (ds_options ds)) (fabs (dsub target_timestamp decoded_timestamp))"

text \<open>What \<open>Next\<close> returns for a target, once a frame is selected.\<close>

definition convert_selected ::
  "'f decoder_setup \<Rightarrow> av_frame \<times> fp \<Rightarrow> fp \<Rightarrow> nat \<Rightarrow> convert_state \<Rightarrow> (decoded_frame \<times> convert_state) result" where
  "convert_selected ds selected target_timestamp target_index cv =
     (if \<not> ValidateTolerance ds target_timestamp (snd selected)
      then invalid_row ''No frame in LeRobot video matched timestamp within tolerance''
      else ConvertFrame (ds_host ds) (ds_feature ds) (ds_options ds) (ds_needs_pixels ds) (fst selected) (snd selected)
             target_index cv)"

definition deliver ::
  "'f decoder_setup \<Rightarrow> av_frame \<times> fp \<Rightarrow> fp \<Rightarrow> nat \<Rightarrow> 'f shard_decoder \<Rightarrow> (decoded_frame option \<times> 'f shard_decoder) result" where
  "deliver ds selected target_timestamp target_index d =
     bindE (convert_selected ds selected target_timestamp target_index (sd_convert d)) (\<lambda>(frame, cv).
       Inr (Some frame, d\<lparr>sd_target_position := sd_target_position d + 1, last_target := Some target_timestamp,
                          sd_convert := cv\<rparr>))"

definition closer :: "(av_frame \<times> fp) option \<Rightarrow> av_frame \<times> fp \<Rightarrow> fp \<Rightarrow> av_frame \<times> fp" where
  "closer before now target_timestamp =
     (case before of
        Some p \<Rightarrow>
          if fle (fabs (dsub (snd p) target_timestamp)) (fabs (dsub (snd now) target_timestamp)) then p else now
      | None \<Rightarrow> now)"

definition reached :: "'f shard_decoder \<Rightarrow> fp \<Rightarrow> bool" where
  "reached d target_timestamp \<longleftrightarrow> (case current d of Some now \<Rightarrow> fle target_timestamp (snd now) | None \<Rightarrow> False)"

definition shift_current :: "'f shard_decoder \<Rightarrow> 'f shard_decoder" where
  "shift_current d =
     (case current d of
        Some now \<Rightarrow> d\<lparr>sd_stream := (sd_stream d)\<lparr>previous := Some now\<rparr>, current := None\<rparr>
      | None \<Rightarrow> d)"

text \<open>At the end of the video the last frame is taken.\<close>

definition at_end ::
  "'f decoder_setup \<Rightarrow> fp \<Rightarrow> nat \<Rightarrow> 'f shard_decoder \<Rightarrow> (decoded_frame option \<times> 'f shard_decoder) result" where
  "at_end ds target_timestamp target_index d =
     (case previous (sd_stream d) of
        None \<Rightarrow> invalid_row ''No frames decoded from LeRobot video''
      | Some selected \<Rightarrow> deliver ds selected target_timestamp target_index d)"

partial_function (option) next_loop ::
  "'f decoder_setup \<Rightarrow> decode_buffer \<Rightarrow> 'f shard_decoder \<Rightarrow> (decoded_frame option \<times> 'f shard_decoder) result option" where
  "next_loop ds b d =
     (if cluster_position d \<ge> length (db_clusters b) then Some (Inr (None, d))
      else
        let cluster = db_clusters b ! cluster_position d
        in if sd_target_position d \<ge> length cluster then
             let d1 = d\<lparr>cluster_position := cluster_position d + 1\<rparr>
             in if cluster_position d1 \<ge> length (db_clusters b) then Some (Inr (None, d1))
                else (case StartCluster ds b d1 of Inl e \<Rightarrow> Some (Inl e) | Inr d2 \<Rightarrow> next_loop ds b d2)
           else if ff_interrupted (ds_ffmpeg ds) (fs_ffmpeg (sd_stream d)) then Some (Inl InterruptException)
           else
             let target_index = cluster ! sd_target_position d; target_timestamp = target_time b target_index
             in if reached d target_timestamp
                then Some (deliver ds (closer (previous (sd_stream d)) (the (current d)) target_timestamp) target_timestamp
                       target_index d)
                else
                  let d1 = shift_current d
                  in if decoder_eof d1 then Some (at_end ds target_timestamp target_index d1)
                     else Option.bind (ReadFrame (ds_ffmpeg ds) (sd_stream d1)) (\<lambda>r.
                       case r of
                         Inl e \<Rightarrow> Some (Inl e)
                       | Inr (None, stream) \<Rightarrow>
                           Some (at_end ds target_timestamp target_index (d1\<lparr>sd_stream := stream, decoder_eof := True\<rparr>))
                       | Inr (Some now, stream) \<Rightarrow> next_loop ds b (d1\<lparr>sd_stream := stream, current := Some now\<rparr>)))"

definition Next :: "'f decoder_setup \<Rightarrow> 'f shard_decoder \<Rightarrow> (decoded_frame option \<times> 'f shard_decoder) result option" where
  "Next ds d =
     (case sd_buffer d of
        None \<Rightarrow> Some (Inl (InternalException ''LeRobot decoder has no target buffer''))
      | Some b \<Rightarrow> next_loop ds b d)"

section \<open>The frames of a seek\<close>

text \<open>\<open>yields ff s frames\<close>: \<open>ReadFrame\<close> returns these frames one after the other, as the decoder calls it, and then
  the end of the video.\<close>

inductive yields :: "'f ffmpeg \<Rightarrow> 'f frame_stream \<Rightarrow> (av_frame \<times> fp) list \<Rightarrow> bool" for ff where
  yields_end: "ReadFrame ff s = Some (Inr (None, s')) \<Longrightarrow> yields ff s []"
| yields_frame: "ReadFrame ff s = Some (Inr (Some frame, s')) \<Longrightarrow> yields ff (s'\<lparr>previous := Some frame\<rparr>) frames \<Longrightarrow>
    yields ff s (frame # frames)"

inductive_cases yields_NilE: "yields ff s []"
inductive_cases yields_ConsE: "yields ff s (frame # frames)"

lemma read_packets_previous:
  assumes "read_packets ff s = Some r" "r = Inr s'"
  shows "previous s' = previous s"
  using assms
proof (induction arbitrary: s' rule: read_packets.raw_induct [rotated, consumes 1, case_names 1])
  case (1 read_packets ff s r)
  show ?case
    using 1(2,3) 1(1) [of ff "s\<lparr>fs_ffmpeg := snd (ff_read ff (fs_ffmpeg s))\<rparr>" r s']
    by (auto split: prod.splits option.splits packet_read.splits if_splits)
qed

lemma accept_frame_Inr:
  "accept_frame ff frame t s = Inr (r, s') \<Longrightarrow> r = Some (frame, t) \<and> previous s' = previous s"
  by (auto simp: accept_frame_def Let_def invalid_row_def split: if_splits)

lemma ReadFrame_Inr:
  assumes "ReadFrame ff s = Some r" "r = Inr (x, s')"
  shows "previous s' = previous s \<and> (\<forall>frame t. x = Some (frame, t) \<longrightarrow> fis_finite t)"
  using assms
proof (induction arbitrary: x s' rule: ReadFrame.raw_induct [rotated, consumes 1, case_names 1])
  case (1 ReadFrame ff s r)
  obtain status f where recv: "ff_receive ff (fs_ffmpeg s) = (status, f)" by fastforce
  note IH = 1(1) [OF _ 1(3)]
  show ?case
  proof (cases status)
    case (Received frame)
    show ?thesis
    proof (cases "frame_time ff frame")
      case None
      then show ?thesis using 1(2) IH [of ff "s\<lparr>fs_ffmpeg := f\<rparr>"] recv Received by simp
    next
      case (Some t)
      then have "accept_frame ff frame t (s\<lparr>fs_ffmpeg := f\<rparr>) = Inr (x, s')" using 1(2,3) recv Received by simp
      from accept_frame_Inr [OF this] Some show ?thesis
        by (auto simp: frame_time_def Let_def split: option.splits if_splits)
    qed
  next
    case TryAgain
    show ?thesis
    proof (cases "demux_eof s")
      case True
      then show ?thesis
        using 1(2,3) recv TryAgain IH [of ff "s\<lparr>fs_ffmpeg := snd (ff_send_flush ff f), flush_sent := True\<rparr>"]
        by (auto split: if_splits prod.splits)
    next
      case False
      then obtain r' where r': "read_packets ff (s\<lparr>fs_ffmpeg := f\<rparr>) = Some r'"
        "(case r' of Inl e \<Rightarrow> Some (Inl e) | Inr s1 \<Rightarrow> ReadFrame ff s1) = Some r"
        using 1(2) recv TryAgain by (auto simp: bind_eq_Some_conv)
      then obtain s1 where s1: "r' = Inr s1" "ReadFrame ff s1 = Some r"
        using 1(3) by (cases r') auto
      then show ?thesis using IH [of ff s1] read_packets_previous [OF r'(1) s1(1)] by simp
    qed
  qed (use 1(2,3) recv in auto)
qed

lemma yields_finite: "yields ff s frames \<Longrightarrow> frame \<in> set frames \<Longrightarrow> fis_finite (snd frame)"
proof (induction rule: yields.induct)
  case (yields_frame s frame' s' frames)
  then show ?case using ReadFrame_Inr [OF yields_frame(1) refl] by (cases frame') auto
qed simp

section \<open>Selection\<close>

text \<open>The frame for a target among the frames that follow \<open>before\<close>, as if all were at hand.\<close>

fun pick :: "(av_frame \<times> fp) option \<Rightarrow> (av_frame \<times> fp) list \<Rightarrow> fp \<Rightarrow> (av_frame \<times> fp) option" where
  "pick before [] x = before"
| "pick before (now # later) x = (if fle x (snd now) then Some (closer before now x) else pick (Some now) later x)"

text \<open>Where the decoder stands: the frame before, the frame at hand, and the frames to come.\<close>

definition window ::
  "'f ffmpeg \<Rightarrow> 'f shard_decoder \<Rightarrow> (av_frame \<times> fp) option \<Rightarrow> (av_frame \<times> fp) option \<Rightarrow> (av_frame \<times> fp) list \<Rightarrow> bool" where
  "window ff d before now later \<longleftrightarrow> previous (sd_stream d) = before \<and> current d = now \<and>
     (if decoder_eof d then now = None \<and> later = []
      else yields ff ((sd_stream d)\<lparr>previous := (case now of None \<Rightarrow> before | Some f \<Rightarrow> Some f)\<rparr>) later)"

definition upcoming :: "(av_frame \<times> fp) option \<Rightarrow> (av_frame \<times> fp) list \<Rightarrow> (av_frame \<times> fp) list" where
  "upcoming now later = (case now of None \<Rightarrow> later | Some f \<Rightarrow> f # later)"

definition same_place :: "'f shard_decoder \<Rightarrow> 'f shard_decoder \<Rightarrow> bool" where
  "same_place d d' \<longleftrightarrow> sd_buffer d' = sd_buffer d \<and> cluster_position d' = cluster_position d \<and>
     sd_target_position d' = sd_target_position d \<and> sd_convert d' = sd_convert d"

definition advance ::
  "'f decoder_setup \<Rightarrow> decode_buffer \<Rightarrow> fp \<Rightarrow> nat \<Rightarrow> 'f shard_decoder \<Rightarrow> (decoded_frame option \<times> 'f shard_decoder) result option" where
  "advance ds b x i d1 =
     (if decoder_eof d1 then Some (at_end ds x i d1)
      else Option.bind (ReadFrame (ds_ffmpeg ds) (sd_stream d1)) (\<lambda>r.
        case r of
          Inl e \<Rightarrow> Some (Inl e)
        | Inr (None, stream) \<Rightarrow> Some (at_end ds x i (d1\<lparr>sd_stream := stream, decoder_eof := True\<rparr>))
        | Inr (Some now, stream) \<Rightarrow> next_loop ds b (d1\<lparr>sd_stream := stream, current := Some now\<rparr>)))"

definition selected ::
  "'f decoder_setup \<Rightarrow> (av_frame \<times> fp) option \<Rightarrow> fp \<Rightarrow> nat \<Rightarrow> 'f shard_decoder \<Rightarrow> (decoded_frame option \<times> 'f shard_decoder) result" where
  "selected ds choice x i d =
     (case choice of None \<Rightarrow> invalid_row ''No frames decoded from LeRobot video'' | Some f \<Rightarrow> deliver ds f x i d)"

text \<open>The state that a search for \<open>x\<close> reaches serves later targets as the first state did.\<close>

definition reaches ::
  "'f decoder_setup \<Rightarrow> 'f shard_decoder \<Rightarrow> (av_frame \<times> fp) option \<Rightarrow> (av_frame \<times> fp) list \<Rightarrow> fp \<Rightarrow> 'f shard_decoder \<Rightarrow> bool" where
  "reaches ds d before frames x d' \<longleftrightarrow> same_place d d' \<and> (\<exists>before' now' later'.
     window (ds_ffmpeg ds) d' before' now' later' \<and>
     (\<forall>y. fle x y \<longrightarrow> pick before' (upcoming now' later') y = pick before frames y))"

lemma next_loop_advance:
  assumes "cluster_position d < length (db_clusters b)" "sd_target_position d < length (db_clusters b ! cluster_position d)"
    and "\<And>f. \<not> ff_interrupted (ds_ffmpeg ds) f"
  defines "i \<equiv> db_clusters b ! cluster_position d ! sd_target_position d"
  shows "next_loop ds b d =
     (if reached d (target_time b i)
      then Some (deliver ds (closer (previous (sd_stream d)) (the (current d)) (target_time b i)) (target_time b i) i d)
      else advance ds b (target_time b i) i (shift_current d))"
  using assms by (subst next_loop.simps) (simp add: Let_def advance_def)

lemma advance_picks:
  assumes "window (ds_ffmpeg ds) d before None later"
    and "cluster_position d < length (db_clusters b)" "sd_target_position d < length (db_clusters b ! cluster_position d)"
    and "\<And>f. \<not> ff_interrupted (ds_ffmpeg ds) f"
    and "i = db_clusters b ! cluster_position d ! sd_target_position d" "x = target_time b i"
  shows "\<exists>d'. advance ds b x i d = Some (selected ds (pick before later x) x i d') \<and> reaches ds d before later x d'"
  using assms
proof (induction later arbitrary: d before)
  case Nil
  show ?case
  proof (cases "decoder_eof d")
    case True
    have "advance ds b x i d = Some (selected ds before x i d)"
      using True Nil(1) by (auto simp: advance_def at_end_def selected_def window_def split: option.splits)
    moreover have "reaches ds d before [] x d"
      unfolding reaches_def same_place_def using Nil(1) by (intro conjI exI [of _ before] exI [of _ None] exI [of _ "[]"]) (simp_all add: upcoming_def)
    ultimately show ?thesis by auto
  next
    case False
    have prev: "previous (sd_stream d) = before" "(sd_stream d)\<lparr>previous := before\<rparr> = sd_stream d"
      using Nil(1) by (auto simp: window_def)
    with False Nil(1) have "yields (ds_ffmpeg ds) (sd_stream d) []" by (simp add: window_def)
    then obtain s' where read: "ReadFrame (ds_ffmpeg ds) (sd_stream d) = Some (Inr (None, s'))" by (elim yields_NilE)
    have s': "previous s' = before" using ReadFrame_Inr [OF read refl] prev(1) by simp
    let ?d = "d\<lparr>sd_stream := s', decoder_eof := True\<rparr>"
    have "advance ds b x i d = Some (selected ds before x i ?d)"
      using False read s' by (auto simp: advance_def at_end_def selected_def split: option.splits)
    moreover have "window (ds_ffmpeg ds) ?d before None []" using s' Nil(1) by (simp add: window_def)
    then have "reaches ds d before [] x ?d"
      unfolding reaches_def same_place_def by (intro conjI exI [of _ before] exI [of _ None] exI [of _ "[]"]) (simp_all add: upcoming_def)
    ultimately show ?thesis by auto
  qed
next
  case (Cons now later)
  have eof: "\<not> decoder_eof d" and prev: "previous (sd_stream d) = before" "(sd_stream d)\<lparr>previous := before\<rparr> = sd_stream d"
    using Cons.prems(1) by (auto simp: window_def split: if_splits)
  have "yields (ds_ffmpeg ds) (sd_stream d) (now # later)" using Cons.prems(1) eof prev(2) by (simp add: window_def)
  then obtain s' where read: "ReadFrame (ds_ffmpeg ds) (sd_stream d) = Some (Inr (Some now, s'))"
    "yields (ds_ffmpeg ds) (s'\<lparr>previous := Some now\<rparr>) later" by (elim yields_ConsE)
  have s': "previous s' = before" using ReadFrame_Inr [OF read(1) refl] prev(1) by simp
  let ?d = "d\<lparr>sd_stream := s', current := Some now\<rparr>"
  have go: "advance ds b x i d = next_loop ds b ?d" using eof read(1) by (simp add: advance_def)
  have window: "window (ds_ffmpeg ds) ?d before (Some now) later" using eof read(2) s' by (simp add: window_def)
  show ?case
  proof (cases "fle x (snd now)")
    case True
    then have "next_loop ds b ?d = Some (selected ds (pick before (now # later) x) x i ?d)"
      using Cons.prems s' by (subst next_loop_advance) (auto simp: reached_def selected_def)
    moreover have "reaches ds d before (now # later) x ?d"
      unfolding reaches_def same_place_def using window by (intro conjI exI [of _ before] exI [of _ "Some now"] exI [of _ later]) (simp_all add: upcoming_def)
    ultimately show ?thesis using go by auto
  next
    case False
    let ?e = "shift_current ?d"
    have e: "?e = ?d\<lparr>sd_stream := s'\<lparr>previous := Some now\<rparr>, current := None\<rparr>" by (simp add: shift_current_def)
    have step: "next_loop ds b ?d = advance ds b x i ?e"
      using False Cons.prems by (subst next_loop_advance) (auto simp: reached_def)
    have "window (ds_ffmpeg ds) ?e (Some now) None later" using eof read(2) by (simp add: window_def e)
    from Cons.IH [OF this] Cons.prems obtain d' where d': "advance ds b x i ?e = Some (selected ds (pick (Some now) later x) x i d')"
      "reaches ds ?e (Some now) later x d'" by (auto simp: e)
    have "pick before (now # later) y = pick (Some now) later y" if "fle x y" for y
      using False that fle_order_trans [OF that, of "snd now"] by auto
    then have "reaches ds d before (now # later) x d'"
      using d'(2) unfolding reaches_def by (auto simp: same_place_def e)
    then show ?thesis using go step d'(1) False by auto
  qed
qed

section \<open>One call of Next\<close>

definition ready :: "'f decoder_setup \<Rightarrow> decode_buffer \<Rightarrow> (av_frame \<times> fp) list \<Rightarrow> 'f shard_decoder \<Rightarrow> bool" where
  "ready ds b frames d \<longleftrightarrow> sd_buffer d = Some b \<and> cluster_position d < length (db_clusters b) \<and>
     (\<exists>before now later. window (ds_ffmpeg ds) d before now later \<and>
       (\<forall>i \<in> set (drop (sd_target_position d) (db_clusters b ! cluster_position d)).
          pick before (upcoming now later) (target_time b i) = pick None frames (target_time b i)))"

lemma window_selects:
  assumes w: "window (ds_ffmpeg ds) d before now later"
    and pos: "cluster_position d < length (db_clusters b)" "sd_target_position d < length (db_clusters b ! cluster_position d)"
    and quiet: "\<And>f. \<not> ff_interrupted (ds_ffmpeg ds) f"
    and x: "i = db_clusters b ! cluster_position d ! sd_target_position d" "x = target_time b i"
  shows "\<exists>d'. next_loop ds b d = Some (selected ds (pick before (upcoming now later) x) x i d') \<and>
     reaches ds d before (upcoming now later) x d'"
proof (cases now)
  case None
  then have "next_loop ds b d = advance ds b x i d"
    using w next_loop_advance [OF pos quiet] x by (simp add: reached_def shift_current_def window_def)
  then show ?thesis using advance_picks [of ds d before later b i x] w None pos quiet x by (simp add: upcoming_def)
next
  case (Some f)
  show ?thesis
  proof (cases "fle x (snd f)")
    case True
    then have "next_loop ds b d = Some (selected ds (pick before (upcoming now later) x) x i d)"
      using w Some next_loop_advance [OF pos quiet] x by (simp add: reached_def window_def upcoming_def selected_def)
    moreover have "reaches ds d before (upcoming now later) x d"
      unfolding reaches_def same_place_def using w by blast
    ultimately show ?thesis by blast
  next
    case False
    let ?e = "shift_current d"
    have e: "?e = d\<lparr>sd_stream := (sd_stream d)\<lparr>previous := Some f\<rparr>, current := None\<rparr>"
      using w Some by (simp add: shift_current_def window_def)
    have "window (ds_ffmpeg ds) ?e (Some f) None later" using w Some by (auto simp: window_def e split: if_splits)
    from advance_picks [OF this, of b i x] pos quiet x
    obtain d' where d': "advance ds b x i ?e = Some (selected ds (pick (Some f) later x) x i d')"
      "reaches ds ?e (Some f) later x d'" by (auto simp: e)
    have "next_loop ds b d = advance ds b x i ?e"
      using False w Some next_loop_advance [OF pos quiet] x by (simp add: reached_def window_def)
    moreover have "pick before (f # later) y = pick (Some f) later y" if "fle x y" for y
      using False fle_order_trans [OF that, of "snd f"] by auto
    then have "reaches ds d before (upcoming now later) x d'"
      using d'(2) Some unfolding reaches_def by (auto simp: same_place_def e upcoming_def)
    ultimately show ?thesis using d'(1) False Some by (auto simp: upcoming_def)
  qed
qed

definition advanced :: "fp \<Rightarrow> convert_state \<Rightarrow> 'f shard_decoder \<Rightarrow> 'f shard_decoder" where
  "advanced x cv d = d\<lparr>sd_target_position := sd_target_position d + 1, last_target := Some x, sd_convert := cv\<rparr>"

lemma Next_ready:
  assumes "ready ds b frames d" "sd_target_position d < length (db_clusters b ! cluster_position d)"
    and quiet: "\<And>f. \<not> ff_interrupted (ds_ffmpeg ds) f"
    and sorted: "sorted_wrt (\<lambda>i j. fle (target_time b i) (target_time b j)) (db_clusters b ! cluster_position d)"
    and x: "i = db_clusters b ! cluster_position d ! sd_target_position d" "x = target_time b i"
  obtains d' where "Next ds d = Some (selected ds (pick None frames x) x i d')" "same_place d d'"
    "\<And>cv. ready ds b frames (advanced x cv d')"
proof -
  let ?rest = "drop (sd_target_position d) (db_clusters b ! cluster_position d)"
  from assms(1) obtain before now later where w: "window (ds_ffmpeg ds) d before now later"
    and same: "\<And>j. j \<in> set ?rest \<Longrightarrow> pick before (upcoming now later) (target_time b j) = pick None frames (target_time b j)"
    and d: "sd_buffer d = Some b" "cluster_position d < length (db_clusters b)"
    unfolding ready_def by blast
  have rest: "?rest = i # drop (Suc (sd_target_position d)) (db_clusters b ! cluster_position d)"
    using assms(2) x by (simp add: Cons_nth_drop_Suc)
  from window_selects [OF w d(2) assms(2) quiet x]
  obtain d' where d': "next_loop ds b d = Some (selected ds (pick before (upcoming now later) x) x i d')"
    "reaches ds d before (upcoming now later) x d'" by blast
  then have "Next ds d = Some (selected ds (pick None frames x) x i d')"
    using same [of i] rest d(1) x by (simp add: Next_def)
  moreover have place: "same_place d d'" using d'(2) by (simp add: reaches_def)
  moreover have "ready ds b frames (advanced x cv d')" for cv
  proof -
    from d'(2) obtain before' now' later' where w': "window (ds_ffmpeg ds) d' before' now' later'"
      "\<And>y. fle x y \<Longrightarrow> pick before' (upcoming now' later') y = pick before (upcoming now later) y"
      unfolding reaches_def by blast
    have "sorted_wrt (\<lambda>i j. fle (target_time b i) (target_time b j)) ?rest" by (rule sorted_wrt_drop [OF sorted])
    then have "fle x (target_time b j)" if "j \<in> set (drop (Suc (sd_target_position d)) (db_clusters b ! cluster_position d))" for j
      using that rest x by simp
    then show ?thesis
      using place w' same d rest unfolding ready_def same_place_def advanced_def
      by (intro conjI exI [of _ before'] exI [of _ now'] exI [of _ later']) (auto simp: window_def)
  qed
  ultimately show thesis by (rule that)
qed

section \<open>A buffer and its reference\<close>

text \<open>Calls of \<open>Next\<close> until it has no more frame.\<close>

partial_function (option) drain :: "'f decoder_setup \<Rightarrow> 'f shard_decoder \<Rightarrow> decoded_frame list result option" where
  "drain ds d = Option.bind (Next ds d) (\<lambda>r.
     case r of
       Inl e \<Rightarrow> Some (Inl e)
     | Inr (None, d') \<Rightarrow> Some (Inr [])
     | Inr (Some frame, d') \<Rightarrow> Option.bind (drain ds d') (\<lambda>r'. Some (bindE r' (\<lambda>frames. Inr (frame # frames)))))"

text \<open>The reference takes for every target the best of all frames of the seek.\<close>

fun reference_cluster ::
  "'f decoder_setup \<Rightarrow> decode_buffer \<Rightarrow> (av_frame \<times> fp) list \<Rightarrow> nat list \<Rightarrow> convert_state \<Rightarrow>
   (decoded_frame list \<times> convert_state) result" where
  "reference_cluster ds b frames [] cv = Inr ([], cv)"
| "reference_cluster ds b frames (i # later) cv =
     (case pick None frames (target_time b i) of
        None \<Rightarrow> invalid_row ''No frames decoded from LeRobot video''
      | Some f \<Rightarrow> bindE (convert_selected ds f (target_time b i) i cv) (\<lambda>(frame, cv').
          bindE (reference_cluster ds b frames later cv') (\<lambda>(out, cv''). Inr (frame # out, cv''))))"

fun reference_buffer ::
  "'f decoder_setup \<Rightarrow> decode_buffer \<Rightarrow> ((av_frame \<times> fp) list \<times> nat list) list \<Rightarrow> convert_state \<Rightarrow>
   decoded_frame list result" where
  "reference_buffer ds b [] cv = Inr []"
| "reference_buffer ds b ((frames, cluster) # later) cv =
     bindE (reference_cluster ds b frames cluster (cv\<lparr>cv_last := None\<rparr>)) (\<lambda>(out, cv').
       bindE (reference_buffer ds b later cv') (\<lambda>out'. Inr (out @ out')))"

text \<open>A seek to cluster \<open>c\<close> succeeds from wherever FFmpeg stands, and then these frames come.\<close>

definition seeks_to :: "'f decoder_setup \<Rightarrow> decode_buffer \<Rightarrow> nat \<Rightarrow> (av_frame \<times> fp) list \<Rightarrow> bool" where
  "seeks_to ds b c frames \<longleftrightarrow> (\<forall>d. cluster_position d = c \<longrightarrow>
     (\<exists>d1. StartCluster ds b d = Inr d1 \<and> yields (ds_ffmpeg ds) (sd_stream d1) frames))"

lemma seeks_toD:
  "seeks_to ds b c frames \<Longrightarrow> cluster_position d = c \<Longrightarrow>
     \<exists>d1. StartCluster ds b d = Inr d1 \<and> yields (ds_ffmpeg ds) (sd_stream d1) frames"
  by (simp add: seeks_to_def)

lemma StartCluster_Inr:
  assumes "StartCluster ds b d = Inr d1" "yields (ds_ffmpeg ds) (sd_stream d1) frames" "sd_buffer d = Some b"
    and "cluster_position d < length (db_clusters b)"
  shows "ready ds b frames d1" "cluster_position d1 = cluster_position d" "sd_target_position d1 = 0"
    "sd_convert d1 = (sd_convert d)\<lparr>cv_last := None\<rparr>" "sd_buffer d1 = Some b"
proof -
  obtain f n where d1: "d1 = d\<lparr>sd_stream := \<lparr>fs_ffmpeg = f, demux_eof = False, flush_sent = False,
      decoded_frames_since_seek = 0, decode_frame_budget = n, previous = None\<rparr>, sd_target_position := 0,
      decoder_eof := False, current := None, cluster_start := Some (target_time b (hd (db_clusters b ! cluster_position d))),
      sd_convert := (sd_convert d)\<lparr>cv_last := None\<rparr>\<rparr>"
    using assms(1) unfolding StartCluster_def Let_def by (auto simp: invalid_row_def split: if_splits prod.splits option.splits)
  have "window (ds_ffmpeg ds) d1 None None frames" using assms(2) by (simp add: window_def d1)
  then show "ready ds b frames d1"
    using assms(3,4) unfolding ready_def
    by (intro conjI exI [of _ None] exI [of _ frames]) (simp_all add: d1 upcoming_def)
qed (use assms in \<open>auto simp: StartCluster_def Let_def invalid_row_def split: if_splits prod.splits option.splits\<close>)

definition drains_rest :: "'f decoder_setup \<Rightarrow> decode_buffer \<Rightarrow> (av_frame \<times> fp) list list \<Rightarrow> nat \<Rightarrow> bool" where
  "drains_rest ds b fss c \<longleftrightarrow> (\<forall>d. sd_buffer d = Some b \<and> cluster_position d = c \<and>
     sd_target_position d = length (db_clusters b ! c) \<longrightarrow>
     drain ds d = Some (reference_buffer ds b (drop (c + 1) (zip fss (db_clusters b))) (sd_convert d)))"

lemma cluster_drained:
  assumes "drains_rest ds b fss c" "ready ds b frames d" "cluster_position d = c"
    and quiet: "\<And>f. \<not> ff_interrupted (ds_ffmpeg ds) f"
    and sorted: "sorted_wrt (\<lambda>i j. fle (target_time b i) (target_time b j)) (db_clusters b ! c)"
    and "sd_target_position d + length later = length (db_clusters b ! c)" "later = drop (sd_target_position d) (db_clusters b ! c)"
  shows "drain ds d = Some (bindE (reference_cluster ds b frames later (sd_convert d)) (\<lambda>(out, cv).
     bindE (reference_buffer ds b (drop (c + 1) (zip fss (db_clusters b))) cv) (\<lambda>out'. Inr (out @ out'))))"
  using assms(2,3,6,7)
proof (induction later arbitrary: d)
  case Nil
  then have "drain ds d = Some (reference_buffer ds b (drop (c + 1) (zip fss (db_clusters b))) (sd_convert d))"
    using assms(1) by (auto simp: drains_rest_def ready_def)
  then show ?case by (cases "reference_buffer ds b (drop (c + 1) (zip fss (db_clusters b))) (sd_convert d)") auto
next
  case (Cons i later)
  have pos: "sd_target_position d < length (db_clusters b ! cluster_position d)" using Cons.prems(2,3) by simp
  have i: "i = db_clusters b ! cluster_position d ! sd_target_position d" "later = drop (sd_target_position d + 1) (db_clusters b ! c)"
    using Cons.prems(2,4) pos by (auto simp: Cons_nth_drop_Suc [symmetric])
  let ?x = "target_time b i"
  obtain d' where d': "Next ds d = Some (selected ds (pick None frames ?x) ?x i d')" "same_place d d'"
    "\<And>cv. ready ds b frames (advanced ?x cv d')"
    using Next_ready [OF Cons.prems(1) pos quiet _ i(1) refl] sorted Cons.prems(2) by blast
  show ?case
  proof (cases "pick None frames ?x")
    case None
    then show ?thesis by (subst drain.simps) (simp add: d'(1) selected_def invalid_row_def)
  next
    case (Some f)
    show ?thesis
    proof (cases "convert_selected ds f ?x i (sd_convert d)")
      case (Inl e)
      then show ?thesis
        using Some d'(2) by (subst drain.simps) (simp add: d'(1) selected_def deliver_def same_place_def)
    next
      case (Inr r)
      obtain frame cv where r: "r = (frame, cv)" by fastforce
      have n: "Next ds d = Some (Inr (Some frame, advanced ?x cv d'))"
        using Some Inr r d'(1,2) by (simp add: selected_def deliver_def same_place_def advanced_def)
      have at: "cluster_position (advanced ?x cv d') = c" "sd_target_position (advanced ?x cv d') = sd_target_position d + 1"
        "sd_convert (advanced ?x cv d') = cv"
        using d'(2) Cons.prems(2) by (simp_all add: same_place_def advanced_def)
      have "drain ds (advanced ?x cv d') = Some (bindE (reference_cluster ds b frames later cv) (\<lambda>(out, cv).
          bindE (reference_buffer ds b (drop (c + 1) (zip fss (db_clusters b))) cv) (\<lambda>out'. Inr (out @ out'))))"
        using Cons.IH [OF d'(3) at(1)] Cons.prems(3) i(2) by (simp add: at)
      then show ?thesis
        by (subst drain.simps)
          (cases "reference_cluster ds b frames later cv", simp_all add: n Some Inr r split: prod.splits,
           metis (no_types, lifting) bindE.simps sum.exhaust append_Cons)
    qed
  qed
qed

lemma Next_seek:
  assumes "sd_buffer d = Some b" "sd_target_position d = length (db_clusters b ! cluster_position d)"
    and "cluster_position d + 1 < length (db_clusters b)"
    and "StartCluster ds b (d\<lparr>cluster_position := cluster_position d + 1\<rparr>) = Inr d2" "sd_buffer d2 = Some b"
  shows "drain ds d = drain ds d2"
proof -
  have "Next ds d = Next ds d2" using assms by (simp add: Next_def next_loop.simps [of ds b d])
  then show ?thesis by (subst (1 2) drain.simps) simp
qed

lemma rest_drained:
  fixes ds :: "'f decoder_setup"
  assumes "length fss = length (db_clusters b)" "\<And>c. c < length fss \<Longrightarrow> seeks_to ds b c (fss ! c)"
    and "\<And>f. \<not> ff_interrupted (ds_ffmpeg ds) f"
    and "\<And>cluster. cluster \<in> set (db_clusters b) \<Longrightarrow> sorted_wrt (\<lambda>i j. fle (target_time b i) (target_time b j)) cluster"
  shows "c < length fss \<Longrightarrow> drains_rest ds b fss c"
proof (induction "length fss - c" arbitrary: c)
  case (Suc n)
  show ?case
    unfolding drains_rest_def
  proof (intro allI impI, elim conjE)
    fix d :: "'f shard_decoder"
    assume d: "sd_buffer d = Some b" "cluster_position d = c" "sd_target_position d = length (db_clusters b ! c)"
    show "drain ds d = Some (reference_buffer ds b (drop (c + 1) (zip fss (db_clusters b))) (sd_convert d))"
    proof (cases "c + 1 < length fss")
      case False
      then have "Next ds d = Some (Inr (None, d\<lparr>cluster_position := c + 1\<rparr>))"
        using d assms(1) Suc.prems by (simp add: Next_def next_loop.simps)
      then show ?thesis using False assms(1) by (subst drain.simps) simp
    next
      case True
      obtain d2 where d2: "StartCluster ds b (d\<lparr>cluster_position := c + 1\<rparr>) = Inr d2"
        "yields (ds_ffmpeg ds) (sd_stream d2) (fss ! (c + 1))"
        using seeks_toD [OF assms(2) [OF True], of "d\<lparr>cluster_position := c + 1\<rparr>"] by auto
      note at = StartCluster_Inr [OF d2, simplified]
      have "drain ds d = drain ds d2" using d d2(1) True assms(1) at by (intro Next_seek) simp_all
      also have "\<dots> = Some (bindE (reference_cluster ds b (fss ! (c + 1)) (db_clusters b ! (c + 1)) (sd_convert d2)) (\<lambda>(out, cv).
          bindE (reference_buffer ds b (drop (c + 1 + 1) (zip fss (db_clusters b))) cv) (\<lambda>out'. Inr (out @ out'))))"
        using Suc.hyps True assms at d by (intro cluster_drained) auto
      also have "\<dots> = Some (reference_buffer ds b (drop (c + 1) (zip fss (db_clusters b))) (sd_convert d))"
        using True assms(1) at d by (simp add: Cons_nth_drop_Suc [symmetric])
      finally show ?thesis .
    qed
  qed
qed simp

lemma buffer_drained:
  assumes "db_shard_index b = sd_shard_index d" "db_targets b \<noteq> []" "db_clusters b \<noteq> []" "\<not> continue_decode ds b d"
    and "length fss = length (db_clusters b)" "\<And>c. c < length fss \<Longrightarrow> seeks_to ds b c (fss ! c)"
    and "\<And>f. \<not> ff_interrupted (ds_ffmpeg ds) f"
    and "\<And>cluster. cluster \<in> set (db_clusters b) \<Longrightarrow> sorted_wrt (\<lambda>i j. fle (target_time b i) (target_time b j)) cluster"
  shows "\<exists>d1. BeginBuffer ds b d = Inr d1 \<and>
     drain ds d1 = Some (reference_buffer ds b (zip fss (db_clusters b)) (sd_convert d))"
proof -
  let ?d = "d\<lparr>sd_buffer := Some b, cluster_position := 0, sd_target_position := 0\<rparr>"
  have zero: "0 < length fss" using assms(3,5) by simp
  obtain d1 where d1: "StartCluster ds b ?d = Inr d1" "yields (ds_ffmpeg ds) (sd_stream d1) (fss ! 0)"
    using seeks_toD [OF assms(6) [OF zero], of ?d] by auto
  have "continue_decode ds b ?d = continue_decode ds b d" by (simp add: continue_decode_def Let_def split: option.split)
  then have started: "BeginBuffer ds b d = Inr d1" using assms(1-4) d1(1) by (simp add: BeginBuffer_def Let_def)
  note at = StartCluster_Inr [OF d1, simplified]
  have "drain ds d1 = Some (bindE (reference_cluster ds b (fss ! 0) (db_clusters b ! 0) (sd_convert d1)) (\<lambda>(out, cv).
      bindE (reference_buffer ds b (drop (0 + 1) (zip fss (db_clusters b))) cv) (\<lambda>out'. Inr (out @ out'))))"
    using rest_drained [OF assms(5-8) zero] at assms(3,7,8) by (intro cluster_drained) auto
  also have "\<dots> = Some (reference_buffer ds b (zip fss (db_clusters b)) (sd_convert d))"
    using zero assms(5) at by (cases fss; cases "db_clusters b") auto
  finally show ?thesis using started by blast
qed

section \<open>The nearest frame\<close>

definition nearest :: "(av_frame \<times> fp) list \<Rightarrow> fp \<Rightarrow> fp \<Rightarrow> bool" where
  "nearest frames x t \<longleftrightarrow> t \<in> snd ` set frames \<and>
     (\<forall>g \<in> set frames. fle (fabs (dsub t x)) (fabs (dsub (snd g) x)))"

lemma distance_refl: "fle (fabs (dsub (Fin a) (Fin x))) (fabs (dsub (Fin a) (Fin x)))"
  by (rule fabs_dsub_mono) simp

lemma distance_total:
  "fle (fabs (dsub (Fin a) (Fin x))) (fabs (dsub (Fin b) (Fin x))) \<or>
   fle (fabs (dsub (Fin b) (Fin x))) (fabs (dsub (Fin a) (Fin x)))"
  using distance_refl [of a x] distance_refl [of b x] by (intro fle_total) (simp_all add: fle_refl_iff)

lemma distance_mono:
  "fle (Fin x) (Fin a) \<Longrightarrow> fle (Fin a) (Fin b) \<Longrightarrow> fle (fabs (dsub (Fin a) (Fin x))) (fabs (dsub (Fin b) (Fin x)))"
  "\<not> fle (Fin x) (Fin a) \<Longrightarrow> fle (Fin b) (Fin a) \<Longrightarrow> fle (fabs (dsub (Fin a) (Fin x))) (fabs (dsub (Fin b) (Fin x)))"
  by (rule fabs_dsub_mono; simp add: fle_def feq_def; linarith)+

definition all_frames :: "(av_frame \<times> fp) option \<Rightarrow> (av_frame \<times> fp) list \<Rightarrow> (av_frame \<times> fp) list" where
  "all_frames before frames = (case before of None \<Rightarrow> frames | Some p \<Rightarrow> p # frames)"

lemma pick_nearest:
  assumes "\<And>f. f \<in> set (all_frames before frames) \<Longrightarrow> \<exists>v. snd f = Fin v"
    and "sorted_wrt (\<lambda>f g. fle (snd f) (snd g)) (all_frames before frames)"
    and "pick before frames (Fin x) = Some f"
  shows "f \<in> set (all_frames before frames) \<and> nearest (all_frames before frames) (Fin x) (snd f)"
  using assms
proof (induction frames arbitrary: before)
  case Nil
  then show ?case using distance_refl by (cases before) (auto simp: all_frames_def nearest_def)
next
  case (Cons now later)
  obtain n where n: "snd now = Fin n" using Cons.prems(1) [of now] by (cases before) (auto simp: all_frames_def)
  have later: "\<exists>v. snd g = Fin v \<and> fle (Fin n) (Fin v)" if "g \<in> set later" for g
    using Cons.prems(1) [of g] Cons.prems(2) that n by (cases before) (auto simp: all_frames_def)
  show ?case
  proof (cases "fle (Fin x) (snd now)")
    case True
    have near: "fle (fabs (dsub (Fin n) (Fin x))) (fabs (dsub (snd g) (Fin x)))" if "g \<in> set later" for g
      using later [OF that] True n distance_mono(1) [of x n] by auto
    show ?thesis
    proof (cases before)
      case None
      then show ?thesis
        using Cons.prems(3) True n near distance_refl by (auto simp: all_frames_def nearest_def closer_def)
    next
      case (Some p)
      obtain v where v: "snd p = Fin v" using Cons.prems(1) [of p] Some by (auto simp: all_frames_def)
      have f: "f = (if fle (fabs (dsub (Fin v) (Fin x))) (fabs (dsub (Fin n) (Fin x))) then p else now)"
        using Cons.prems(3) True n v Some by (simp add: closer_def)
      have "fle (fabs (dsub (snd f) (Fin x))) (fabs (dsub (snd g) (Fin x)))" if "g = p \<or> g = now \<or> g \<in> set later" for g
        using that f v n near [of g] distance_refl distance_total [of v x n]
        by (auto intro: fle_order_trans split: if_splits)
      then show ?thesis using f Some by (auto simp: all_frames_def nearest_def)
    qed
  next
    case False
    then have IH: "f \<in> set (now # later) \<and> nearest (now # later) (Fin x) (snd f)"
      using Cons.IH [of "Some now"] Cons.prems by (auto simp: all_frames_def split: option.splits)
    show ?thesis
    proof (cases before)
      case (Some p)
      obtain v where v: "snd p = Fin v" using Cons.prems(1) [of p] Some by (auto simp: all_frames_def)
      have "fle (Fin v) (Fin n)" using Cons.prems(2) Some v n by (simp add: all_frames_def)
      with False n have "fle (fabs (dsub (Fin n) (Fin x))) (fabs (dsub (Fin v) (Fin x)))" by (intro distance_mono(2)) auto
      moreover have "fle (fabs (dsub (snd f) (Fin x))) (fabs (dsub (Fin n) (Fin x)))" using IH n by (auto simp: nearest_def)
      ultimately show ?thesis using IH Some v by (auto simp: all_frames_def nearest_def intro: fle_order_trans)
    qed (use IH in \<open>simp add: all_frames_def\<close>)
  qed
qed

text \<open>
  C6. The decoder streams: it seeks once per cluster, keeps one frame before and one at hand, and never goes back.
  Draining a buffer on which it has to seek ends and gives, errors included, what the reference gives that looks
  at all frames of each seek for every target.
\<close>

theorem decoder_equals_reference:
  assumes "db_shard_index b = sd_shard_index d" "db_targets b \<noteq> []" "db_clusters b \<noteq> []" "\<not> continue_decode ds b d"
    and "length fss = length (db_clusters b)" "\<And>c. c < length fss \<Longrightarrow> seeks_to ds b c (fss ! c)"
    and "\<And>f. \<not> ff_interrupted (ds_ffmpeg ds) f"
    and "\<And>cluster. cluster \<in> set (db_clusters b) \<Longrightarrow> sorted_wrt (\<lambda>i j. fle (target_time b i) (target_time b j)) cluster"
  shows "\<exists>d1. BeginBuffer ds b d = Inr d1 \<and>
     drain ds d1 = Some (reference_buffer ds b (zip fss (db_clusters b)) (sd_convert d))"
  by (rule buffer_drained) (use assms in auto)

text \<open>What a target is given.\<close>

definition answers :: "'f decoder_setup \<Rightarrow> decode_buffer \<Rightarrow> (av_frame \<times> fp) list \<Rightarrow> nat \<Rightarrow> decoded_frame \<Rightarrow> bool" where
  "answers ds b frames i out \<longleftrightarrow> df_target_index out = i \<and> nearest frames (target_time b i) (df_timestamp out) \<and>
     \<not> flt (tolerance (ds_options ds)) (fabs (dsub (target_time b i) (df_timestamp out)))"

lemma ConvertFrame_fields:
  "ConvertFrame host m options needs_pixels source t i st = Inr (frame, st') \<Longrightarrow> df_target_index frame = i \<and> df_timestamp frame = t"
  unfolding ConvertFrame_def Let_def by (auto simp: invalid_row_def split: if_splits option.splits prod.splits)

lemma convert_selected_Inr:
  "convert_selected ds f x i cv = Inr (frame, cv') \<Longrightarrow> df_target_index frame = i \<and> df_timestamp frame = snd f \<and>
     \<not> flt (tolerance (ds_options ds)) (fabs (dsub x (snd f)))"
  by (auto simp: convert_selected_def ValidateTolerance_def invalid_row_def dest: ConvertFrame_fields split: if_splits)

lemma fis_finiteE: "fis_finite t \<Longrightarrow> \<exists>v. t = Fin v"
  by (cases t) (simp_all add: fis_finite_def)

lemma reference_cluster_answers:
  assumes "\<And>f. f \<in> set frames \<Longrightarrow> fis_finite (snd f)" "sorted_wrt (\<lambda>f g. fle (snd f) (snd g)) frames"
  shows "(\<And>i. i \<in> set cluster \<Longrightarrow> fis_finite (target_time b i)) \<Longrightarrow>
     reference_cluster ds b frames cluster cv = Inr (out, cv') \<Longrightarrow> list_all2 (answers ds b frames) cluster out"
proof (induction cluster arbitrary: cv out)
  case (Cons i cluster)
  from Cons.prems(2) obtain f frame cv1 out1 where f: "pick None frames (target_time b i) = Some f"
    "convert_selected ds f (target_time b i) i cv = Inr (frame, cv1)"
    "reference_cluster ds b frames cluster cv1 = Inr (out1, cv')" "out = frame # out1"
    by (auto simp: invalid_row_def split: option.splits)
  obtain x where x: "target_time b i = Fin x" using fis_finiteE Cons.prems(1) [of i] by auto
  have finite: "\<exists>v. snd g = Fin v" if "g \<in> set (all_frames None frames)" for g
    using assms(1) [of g] that by (auto simp: all_frames_def intro: fis_finiteE)
  have "nearest frames (target_time b i) (snd f)"
    using pick_nearest [of None frames x f] finite assms(2) f(1) x by (simp add: all_frames_def)
  then have "answers ds b frames i frame" using convert_selected_Inr [OF f(2)] by (simp add: answers_def)
  moreover have "list_all2 (answers ds b frames) cluster out1" using Cons.IH [OF _ f(3)] Cons.prems(1) by simp
  ultimately show ?case by (simp add: f(4))
qed simp

definition decode_tasks :: "decode_buffer \<Rightarrow> (av_frame \<times> fp) list list \<Rightarrow> ((av_frame \<times> fp) list \<times> nat) list" where
  "decode_tasks b fss = concat (map (\<lambda>(frames, cluster). map (Pair frames) cluster) (zip fss (db_clusters b)))"

lemma reference_buffer_answers:
  assumes "\<And>frames cluster f. (frames, cluster) \<in> set tasks \<Longrightarrow> f \<in> set frames \<Longrightarrow> fis_finite (snd f)"
    and "\<And>frames cluster. (frames, cluster) \<in> set tasks \<Longrightarrow> sorted_wrt (\<lambda>f g. fle (snd f) (snd g)) frames"
    and "\<And>frames cluster i. (frames, cluster) \<in> set tasks \<Longrightarrow> i \<in> set cluster \<Longrightarrow> fis_finite (target_time b i)"
    and "reference_buffer ds b tasks cv = Inr out"
  shows "list_all2 (\<lambda>(frames, i). answers ds b frames i) (concat (map (\<lambda>(frames, cluster). map (Pair frames) cluster) tasks)) out"
  using assms
proof (induction tasks arbitrary: cv out)
  case (Cons task tasks)
  obtain frames cluster where task: "task = (frames, cluster)" by fastforce
  from Cons.prems(4) obtain out1 cv1 out2 where
    one: "reference_cluster ds b frames cluster (cv\<lparr>cv_last := None\<rparr>) = Inr (out1, cv1)" and
    two: "reference_buffer ds b tasks cv1 = Inr out2" and out: "out = out1 @ out2" by (auto simp: task)
  have "list_all2 (answers ds b frames) cluster out1"
    using Cons.prems(1-3) [of frames cluster] by (intro reference_cluster_answers [OF _ _ _ one]) (simp_all add: task)
  then have "list_all2 (\<lambda>(frames, i). answers ds b frames i) (map (Pair frames) cluster) out1"
    by (simp add: list_all2_map1)
  moreover have "list_all2 (\<lambda>(frames, i). answers ds b frames i)
      (concat (map (\<lambda>(frames, cluster). map (Pair frames) cluster) tasks)) out2"
    by (rule Cons.IH [OF _ _ _ two]; use Cons.prems(1-3) list.set_intros(2) in metis)
  ultimately show ?case by (simp add: task out list_all2_appendI)
qed simp

text \<open>
  C7. When FFmpeg gives the frames of a seek in the order of their time, every target of a buffer is answered in
  order, and with a frame that is nearest to it among all frames of the seek, in the double arithmetic of the
  code, and is within the tolerance.
\<close>

theorem decoder_frames_nearest:
  assumes "db_shard_index b = sd_shard_index d" "db_targets b \<noteq> []" "db_clusters b \<noteq> []" "\<not> continue_decode ds b d"
    and "length fss = length (db_clusters b)" "\<And>c. c < length fss \<Longrightarrow> seeks_to ds b c (fss ! c)"
    and "\<And>f. \<not> ff_interrupted (ds_ffmpeg ds) f"
    and "\<And>cluster. cluster \<in> set (db_clusters b) \<Longrightarrow> sorted_wrt (\<lambda>i j. fle (target_time b i) (target_time b j)) cluster"
    and "\<And>cluster i. cluster \<in> set (db_clusters b) \<Longrightarrow> i \<in> set cluster \<Longrightarrow> fis_finite (target_time b i)"
    and "\<And>frames. frames \<in> set fss \<Longrightarrow> sorted_wrt (\<lambda>f g. fle (snd f) (snd g)) frames"
    and "BeginBuffer ds b d = Inr d1" "drain ds d1 = Some (Inr out)"
  shows "list_all2 (\<lambda>(frames, i). answers ds b frames i) (decode_tasks b fss) out"
proof -
  have "reference_buffer ds b (zip fss (db_clusters b)) (sd_convert d) = Inr out"
    using buffer_drained [OF assms(1-8)] assms(11,12) by auto
  moreover have "fis_finite (snd f)" if "frames \<in> set fss" "f \<in> set frames" for frames f
  proof -
    from that(1) obtain c where c: "c < length fss" "frames = fss ! c" by (auto simp: in_set_conv_nth)
    show ?thesis
      using seeks_toD [OF assms(6) [OF c(1)], of "d\<lparr>cluster_position := c\<rparr>"] that(2) c(2) by (auto intro: yields_finite)
  qed
  ultimately show ?thesis
    unfolding decode_tasks_def
    using assms(9,10) by (intro reference_buffer_answers) (auto dest: set_zip_leftD set_zip_rightD)
qed

text \<open>A video of three frames, of which every seek gives all, and a buffer of two targets to apply the properties to.\<close>

definition reel_frame :: "int \<Rightarrow> av_frame" where
  "reel_frame ticks = demo_frame\<lparr>fr_pts := Some ticks\<rparr>"

definition reel :: "av_frame list ffmpeg" where
  "reel = \<lparr>ff_receive = (\<lambda>f. case f of [] \<Rightarrow> (EndOfStream, []) | frame # later \<Rightarrow> (Received frame, later)),
     ff_read = (\<lambda>f. (ReadEof, f)), ff_send_packet = (\<lambda>f. (True, f)), ff_send_flush = (\<lambda>f. (True, f)),
     ff_seek = (\<lambda>ticks f. (True, [reel_frame 0, reel_frame 1, reel_frame 2])), ff_flush_buffers = (\<lambda>f. f),
     ff_io_error = (\<lambda>f. None), ff_interrupted = (\<lambda>f. False), ff_time_base = Fin (1 / 4)\<rparr>"

definition reel_setup :: "av_frame list decoder_setup" where
  "reel_setup = \<lparr>ds_ffmpeg = reel, ds_host = demo_host, ds_feature = demo_depth,
     ds_options = \<lparr>tolerance = Fin (1 / 8), cluster_gap = Fin 1, width = 0, height = 0, output_batch_size = 1,
       target_buffer_size = 2, max_cached_decoders = 1, decode_threads = 1, producer_threads = 1, max_pending_targets = 2,
       max_output_bytes = 1, codec_threads = 1, depth_output_unit = METERS\<rparr>, ds_needs_pixels = False\<rparr>"

definition reel_target :: "rat \<Rightarrow> decode_target" where
  "reel_target time = \<lparr>dt_request_id = 0, dt_target_id = 0, dt_request_ordinal = 0, dt_delta_ordinal = 0, dt_delta_timestamp = Fin 0,
     dt_delta_frame_offset = 0, dt_is_padding = False, dt_episode_index = 0, dt_frame_index = 0, dt_target_frame_index = 0,
     dt_frame_timestamp = Fin time, dt_video_timestamp = Fin time, dt_route_index = 0\<rparr>"

definition reel_buffer :: decode_buffer where
  "reel_buffer = \<lparr>db_shard_index = 0, db_fps = 4, db_targets = [reel_target (5 / 16), reel_target (1 / 2)], db_clusters = [[0, 1]]\<rparr>"

definition reel_decoder :: "av_frame list shard_decoder" where
  "reel_decoder = \<lparr>sd_shard_index = 0, sd_stream = \<lparr>fs_ffmpeg = [], demux_eof = False, flush_sent = False,
     decoded_frames_since_seek = 0, decode_frame_budget = 0, previous = None\<rparr>, sd_buffer = None, cluster_position = 0,
     sd_target_position = 0, decoder_eof = False, current = None, last_target = None, cluster_start = None,
     sd_convert = new_convert_state\<rparr>"

definition reel_frames :: "(av_frame \<times> fp) list" where
  "reel_frames = [(reel_frame 0, Fin 0), (reel_frame 1, Fin (1 / 4)), (reel_frame 2, Fin (1 / 2))]"

lemma reel_read:
  assumes "fs_ffmpeg s = reel_frame k # later" "decoded_frames_since_seek s + 1 < 256" "decoded_frames_since_seek s < decode_frame_budget s"
    and "dmul (int_to_double k) (Fin (1 / 4)) = Fin t"
    and "case previous s of None \<Rightarrow> True | Some (_, before) \<Rightarrow> \<not> flt (dadd (Fin t) NANOSECOND) before"
  shows "ReadFrame reel s = Some (Inr (Some (reel_frame k, Fin t),
     s\<lparr>fs_ffmpeg := later, decoded_frames_since_seek := decoded_frames_since_seek s + 1\<rparr>))"
proof -
  have "frame_time reel (reel_frame k) = Some (Fin t)"
    using assms(4) by (simp add: frame_time_def reel_def reel_frame_def demo_frame_def fis_finite_def)
  then show ?thesis
    using assms by (subst ReadFrame.simps)
      (auto simp: reel_def accept_frame_def invalid_row_def Let_def split: option.splits)
qed

lemma reel_seeks_from:
  assumes "db_clusters b = [[0, 1]]" "target_time b 0 = Fin (5 / 16)" "target_time b 1 = Fin (1 / 2)"
  shows "seeks_to reel_setup b 0 reel_frames"
  unfolding seeks_to_def
proof (intro allI impI)
  fix d :: "av_frame list shard_decoder"
  assume c: "cluster_position d = 0"
  have ok: "\<not> flt (dmul (int_to_double INT64_MAX) (Fin (1 / 4))) (Fin (5 / 16))"
    "\<not> (\<not> fis_finite (Fin (1 / 4)) \<or> fle (Fin (1 / 4)) (Fin 0))" by code_simp+
  let ?budget = "DecodeFrameBudget (Fin (5 / 16)) (Fin (1 / 2)) (db_fps b)"
  have budget: "2 < ?budget"
    by (simp add: DecodeFrameBudget_def Let_def IDX_MAX_def LEROBOT_DECODE_FRAME_SAFETY_MARGIN_def)
  have times: "dmul (int_to_double 0) (Fin (1 / 4)) = Fin 0" "dmul (int_to_double 1) (Fin (1 / 4)) = Fin (1 / 4)"
    "dmul (int_to_double 2) (Fin (1 / 4)) = Fin (1 / 2)" by code_simp+
  have up: "\<not> flt (dadd (Fin (1 / 4)) NANOSECOND) (Fin 0)" "\<not> flt (dadd (Fin (1 / 2)) NANOSECOND) (Fin (1 / 4))" by code_simp+
  let ?stream = "\<lparr>fs_ffmpeg = [reel_frame 0, reel_frame 1, reel_frame 2], demux_eof = False, flush_sent = False,
     decoded_frames_since_seek = 0, decode_frame_budget = ?budget, previous = None\<rparr>"
  have "\<exists>d1. StartCluster reel_setup b d = Inr d1 \<and> sd_stream d1 = ?stream"
    using ok c assms by (simp add: StartCluster_def Let_def reel_setup_def reel_def)
  moreover have "yields reel ?stream reel_frames"
    unfolding reel_frames_def
    apply (rule yields_frame, rule reel_read [OF _ _ _ times(1)]; use budget in simp)
    apply (rule yields_frame, rule reel_read [OF _ _ _ times(2)]; use budget up in simp)
    apply (rule yields_frame, rule reel_read [OF _ _ _ times(3)]; use budget up in simp)
    apply (rule yields_end, subst ReadFrame.simps, simp add: reel_def)
    done
  ultimately show "\<exists>d1. StartCluster reel_setup b d = Inr d1 \<and> yields (ds_ffmpeg reel_setup) (sd_stream d1) reel_frames"
    by (auto simp: reel_setup_def)
qed

lemma reel_seeks: "seeks_to reel_setup reel_buffer 0 reel_frames"
  by (rule reel_seeks_from) (simp_all add: reel_buffer_def target_time_def reel_target_def)

lemma reel_ok:
  "db_shard_index reel_buffer = sd_shard_index reel_decoder" "db_targets reel_buffer \<noteq> []" "db_clusters reel_buffer \<noteq> []"
  "\<not> continue_decode reel_setup reel_buffer reel_decoder" "length [reel_frames] = length (db_clusters reel_buffer)"
  "\<not> ff_interrupted (ds_ffmpeg reel_setup) f"
  "cluster \<in> set (db_clusters reel_buffer) \<Longrightarrow> sorted_wrt (\<lambda>i j. fle (target_time reel_buffer i) (target_time reel_buffer j)) cluster"
  "cluster \<in> set (db_clusters reel_buffer) \<Longrightarrow> i \<in> set cluster \<Longrightarrow> fis_finite (target_time reel_buffer i)"
  "frames \<in> set [reel_frames] \<Longrightarrow> sorted_wrt (\<lambda>f g. fle (snd f) (snd g)) frames"
  by (auto simp: reel_buffer_def reel_decoder_def continue_decode_def Let_def reel_setup_def reel_def target_time_def reel_target_def
      reel_frames_def fis_finite_def fle_def feq_def)

lemma reel_seeks_all: "c < length [reel_frames] \<Longrightarrow> seeks_to reel_setup reel_buffer c ([reel_frames] ! c)"
  using reel_seeks by simp

theorem decoder_equals_reference_witness:
  "\<exists>d1. BeginBuffer reel_setup reel_buffer reel_decoder = Inr d1 \<and>
     drain reel_setup d1 = Some (reference_buffer reel_setup reel_buffer [(reel_frames, [0, 1])] new_convert_state)"
  using decoder_equals_reference [OF reel_ok(1-5) reel_seeks_all reel_ok(6,7)]
  by (simp add: reel_buffer_def reel_decoder_def)

text \<open>The targets at 5/16 and 1/2 get the frames at 1/4 and 1/2.\<close>

lemma reel_reference:
  "(case reference_buffer reel_setup reel_buffer (zip [reel_frames] (db_clusters reel_buffer)) (sd_convert reel_decoder) of
      Inl e \<Rightarrow> False | Inr out \<Rightarrow> map df_timestamp out = [Fin (1 / 4), Fin (1 / 2)])"
  by code_simp

theorem decoder_frames_nearest_witness:
  "\<exists>out. map df_timestamp out = [Fin (1 / 4), Fin (1 / 2)] \<and>
     list_all2 (\<lambda>(frames, i). answers reel_setup reel_buffer frames i) (decode_tasks reel_buffer [reel_frames]) out"
proof -
  obtain out where out: "map df_timestamp out = [Fin (1 / 4), Fin (1 / 2)]"
    "reference_buffer reel_setup reel_buffer (zip [reel_frames] (db_clusters reel_buffer)) (sd_convert reel_decoder) = Inr out"
    using reel_reference by (auto split: sum.splits)
  obtain d1 where d1: "BeginBuffer reel_setup reel_buffer reel_decoder = Inr d1" "drain reel_setup d1 = Some (Inr out)"
    using buffer_drained [OF reel_ok(1-5) reel_seeks_all reel_ok(6,7)] out(2) by auto
  have "list_all2 (\<lambda>(frames, i). answers reel_setup reel_buffer frames i) (decode_tasks reel_buffer [reel_frames]) out"
    by (rule decoder_frames_nearest [OF reel_ok(1-5) reel_seeks_all reel_ok(6,7) _ _ d1]; use reel_ok(8,9) in blast)
  with out(1) show ?thesis by (intro exI [of _ out] conjI)
qed

end
