(* ===== verification/VideoTargets.thy ===== *)
theory VideoTargets
  imports Temporal TimestampLookup VideoDecoder
begin

text \<open>
  \<open>lerobot_video_targets\<close> of \<open>src/function/video/lerobot_video_frames.cpp\<close>: its binding, the targets of a batch of
  input rows with the timestamps that the lookup finds for them, and the buffers that the decoder gets.
\<close>

section \<open>Binding\<close>

text \<open>\<open>LerobotVideoTargetsBindData\<close>.\<close>

record targets_bind =
  tg_dataset :: dataset_metadata
  tg_metadata :: video_metadata
  tg_deltas :: "temporal_delta list"
  tg_columns :: "nat list"
  tg_options :: video_options

definition FindTargetInputColumn :: "(string \<Rightarrow> string) \<Rightarrow> string list \<Rightarrow> string \<Rightarrow> nat result" where
  "FindTargetInputColumn lower names name =
     (case foldE (find_column_step lower name) (zip [0 ..< length names] names) None of
        Inl e \<Rightarrow> Inl e
      | Inr None \<Rightarrow> Inl (BinderException ''lerobot_video_targets input relation requires column'')
      | Inr (Some i) \<Rightarrow> Inr i)"

definition video_target_columns :: "(string \<times> logical_type) list" where
  "video_target_columns =
     [(''request_id'', BIGINT), (''target_ordinal'', BIGINT), (''episode_index'', BIGINT), (''frame_index'', BIGINT),
      (''video_key'', VARCHAR), (''delta_index'', BIGINT), (''delta_timestamp'', DOUBLE), (''delta_frame_offset'', BIGINT),
      (''is_padding'', BOOLEAN), (''target_frame_index'', BIGINT), (''timestamp'', DOUBLE), (''video_path'', VARCHAR),
      (''video_timestamp'', DOUBLE), (''decoded_timestamp'', DOUBLE), (''width'', INTEGER), (''height'', INTEGER),
      (''channels'', INTEGER), (''image'', BLOB)]"

text \<open>The columns of the input that the operator reads, in its order, and the types DuckDB casts them to.\<close>

definition required_types :: "logical_type list" where
  "required_types = [BIGINT, BIGINT, BIGINT, VARCHAR, BIGINT, BIGINT]"

definition target_input_columns :: "(string \<Rightarrow> string) \<Rightarrow> string list \<Rightarrow> nat \<Rightarrow> nat list result" where
  "target_input_columns lower names n_types =
     require (\<not> (n_types \<noteq> 5 \<and> n_types \<noteq> 6 \<or> n_types \<noteq> length names)) ''input relation columns'' (
     bindE (mapE (FindTargetInputColumn lower names)
              [''request_id'', ''episode_index'', ''frame_index'', ''video_key'', ''delta_index'']) (\<lambda>columns.
     if n_types = 6
     then require (list_ex (\<lambda>name. lower name = lower ''target_id'') names) ''input relation columns'' (
            bindE (FindTargetInputColumn lower names ''target_id'') (\<lambda>c. Inr (columns @ [c])))
     else Inr columns))"

definition cast_input_types :: "nat list \<Rightarrow> logical_type list \<Rightarrow> logical_type list" where
  "cast_input_types columns types = fold (\<lambda>(column, required) ts. ts[column := required]) (zip columns required_types) types"

text \<open>\<open>get_videos\<close> and \<open>get_dataset\<close> are the two \<open>Get\<close> functions on the normalised root.\<close>

definition LerobotVideoTargetsBind ::
  "(string \<Rightarrow> string) \<Rightarrow> (string \<Rightarrow> bool \<Rightarrow> video_metadata result) \<Rightarrow> (string \<Rightarrow> bool \<Rightarrow> dataset_metadata result) \<Rightarrow>
   sqlvalue list \<Rightarrow> string list \<Rightarrow> logical_type list \<Rightarrow> named_params \<Rightarrow>
   (targets_bind \<times> logical_type list \<times> (string \<times> logical_type) list) result" where
  "LerobotVideoTargetsBind lower get_videos get_dataset inputs names types params =
     (case inputs of
        VString given_root # _ \<Rightarrow>
          bindE (target_input_columns lower names (length types)) (\<lambda>columns.
          bindE (NormalizeLerobotRoot given_root) (\<lambda>root.
          bindE (GetRefreshParameter params) (\<lambda>refresh.
          bindE (get_videos root refresh) (\<lambda>metadata.
          bindE (get_dataset root False) (\<lambda>dataset.
          bindE (GetLerobotVideoOptions params) (\<lambda>options.
          bindE (GetLerobotTemporalDeltas params (vm_fps metadata) (tolerance options)) (\<lambda>deltas.
          Inr (\<lparr>tg_dataset = dataset, tg_metadata = metadata, tg_deltas = deltas, tg_columns = columns, tg_options = options\<rparr>,
               cast_input_types columns types,
               video_target_columns @ (if length columns = 6 then [(''target_id'', BIGINT)] else [])))))))))
      | _ \<Rightarrow> Inl (BinderException ''lerobot_video_targets root must not be NULL''))"

section \<open>Rows\<close>

text \<open>A value of a row; the numbers are those of the integral vector types.\<close>

datatype input_value = Number "int option" | Text "string option"

definition ReadUnifiedInteger :: "input_value list \<Rightarrow> nat \<Rightarrow> int result" where
  "ReadUnifiedInteger row column =
     (case row ! column of
        Number None \<Rightarrow> invalid_row ''lerobot_video_targets input column must not contain NULL''
      | Text None \<Rightarrow> invalid_row ''lerobot_video_targets input column must not contain NULL''
      | Number (Some v) \<Rightarrow>
          if v > INT64_MAX then invalid_row ''lerobot_video_targets input column is too large'' else Inr v
      | Text (Some _) \<Rightarrow> Inl (InternalException ''Expected integral vector''))"

text \<open>The binding casts the column of the keys to text.\<close>

definition ReadUnifiedValue :: "input_value list \<Rightarrow> nat \<Rightarrow> string result" where
  "ReadUnifiedValue row column =
     (case row ! column of
        Text (Some s) \<Rightarrow> Inr s
      | Number (Some _) \<Rightarrow> Inl (InternalException ''Expected text vector'')
      | _ \<Rightarrow> invalid_row ''lerobot_video_targets input column must not contain NULL'')"

text \<open>The target of the row at \<open>offset\<close> of a batch, whose route gets the same position among the routes.\<close>

definition read_target ::
  "targets_bind \<Rightarrow> 64 word \<Rightarrow> nat \<Rightarrow> input_value list \<Rightarrow> (decode_target \<times> video_route) result" where
  "read_target bind first_ordinal offset row =
     (let columns = tg_columns bind
      in bindE (ReadUnifiedInteger row (columns ! 0)) (\<lambda>request_id.
         bindE (ReadUnifiedInteger row (columns ! 1)) (\<lambda>episode.
         bindE (ReadUnifiedInteger row (columns ! 2)) (\<lambda>frame.
         bindE (ReadUnifiedValue row (columns ! 3)) (\<lambda>video_key.
         bindE (ReadUnifiedInteger row (columns ! 4)) (\<lambda>delta_index.
         bindE (if length columns = 6 then ReadUnifiedInteger row (columns ! 5) else Inr 0) (\<lambda>target_id.
         invalid_unless (\<not> (episode < 0 \<or> frame < 0)) ''episode_index and frame_index must be non-negative'' (
         invalid_unless (\<not> (delta_index < 0 \<or> delta_index \<ge> int (length (tg_deltas bind))))
           ''delta_index is outside delta_timestamps'' (
         invalid_unless (video_key \<noteq> []) ''video_key must not be empty'' (
         case FindRoute (tg_metadata bind) episode video_key of
           None \<Rightarrow> invalid_row ''LeRobot episode has no video route for key''
         | Some route \<Rightarrow>
             invalid_unless (\<not> frame \<ge> vr_episode_length route) ''LeRobot frame is outside the episode'' (
             let delta = tg_deltas bind ! nat delta_index;
                 (target_frame, padding) = clamp_target (vr_episode_length route) frame (frame_offset delta)
             in Inr (\<lparr>dt_request_id = request_id, dt_target_id = target_id,
                      dt_request_ordinal = unat (first_ordinal + of_nat offset), dt_delta_ordinal = nat delta_index,
                      dt_delta_timestamp = delta_timestamp delta, dt_delta_frame_offset = frame_offset delta,
                      dt_is_padding = padding, dt_episode_index = episode, dt_frame_index = frame,
                      dt_target_frame_index = target_frame, dt_frame_timestamp = Fin 0, dt_video_timestamp = Fin 0,
                      dt_route_index = offset\<rparr>, route))))))))))))"

definition read_batch ::
  "targets_bind \<Rightarrow> 64 word \<Rightarrow> input_value list list \<Rightarrow> (decode_target \<times> video_route) list result" where
  "read_batch bind first_ordinal rows =
     mapE (\<lambda>(offset, row). read_target bind first_ordinal offset row) (zip [0 ..< length rows] rows)"

section \<open>Timestamps\<close>

definition LerobotFrameKey :: "int \<Rightarrow> int \<Rightarrow> string" where
  "LerobotFrameKey episode frame = to_string_int episode @ CHR '':'' # to_string_int frame"

definition check_match :: "timestamp_key \<times> timestamp_match \<Rightarrow> (string \<times> fp) result" where
  "check_match = (\<lambda>((episode, frame), found).
     if mt_count found \<noteq> 1 \<or> \<not> mt_has_timestamp found
     then invalid_row ''LeRobot episode has no row or many rows for frame''
     else if \<not> fis_finite (mt_timestamp found) \<or> flt (mt_timestamp found) (Fin 0)
     then invalid_row ''Invalid LeRobot timestamp''
     else Inr (LerobotFrameKey episode frame, mt_timestamp found))"

text \<open>\<open>lookup\<close> is \<open>LerobotTimestampLookup::Lookup\<close> on files and keys.\<close>

definition target_keys :: "decode_target list \<Rightarrow> timestamp_key list" where
  "target_keys targets = sort_unique (map (\<lambda>t. (dt_episode_index t, dt_target_frame_index t)) targets)"

definition target_files :: "targets_bind \<Rightarrow> decode_target list \<Rightarrow> string list" where
  "target_files bind targets = ResolveDataFiles (tg_dataset bind) (sort_unique (map dt_episode_index targets))"

definition ReadTargetTimestamps ::
  "targets_bind \<Rightarrow> (string list \<Rightarrow> timestamp_key list \<Rightarrow> timestamp_match list result) \<Rightarrow> decode_target list \<Rightarrow>
   (string \<times> fp) list result" where
  "ReadTargetTimestamps bind lookup targets =
     (let files = target_files bind targets
      in if files = [] then invalid_row ''LeRobot target episodes do not resolve to a data shard''
         else bindE (lookup files (target_keys targets)) (\<lambda>matches. mapE check_match (zip (target_keys targets) matches)))"

definition resolve_target ::
  "targets_bind \<Rightarrow> video_route list \<Rightarrow> (string \<times> fp) list \<Rightarrow> decode_target \<Rightarrow> decode_target result" where
  "resolve_target bind routes timestamps t =
     (case map_of timestamps (LerobotFrameKey (dt_episode_index t) (dt_target_frame_index t)) of
        None \<Rightarrow> Inl (InternalException ''Missing resolved LeRobot target timestamp'')
      | Some time \<Rightarrow>
          let route = routes ! dt_route_index t; video_timestamp = dadd (vr_from route) time;
              tol = tolerance (tg_options bind)
          in if \<not> fis_finite video_timestamp \<or> flt video_timestamp (dsub (vr_from route) tol) \<or>
                flt (dadd (vr_to route) tol) video_timestamp
             then invalid_row ''LeRobot timestamp falls outside the video route''
             else Inr (t\<lparr>dt_frame_timestamp := time, dt_video_timestamp := video_timestamp\<rparr>))"

section \<open>Buffers\<close>

text \<open>The targets of a video file are cut into buffers; the options give a size of at least 1.\<close>

function split_buffers :: "nat \<Rightarrow> 'a list \<Rightarrow> 'a list list" where
  "split_buffers n [] = []"
| "split_buffers n (x # xs) = (x # take (n - 1) xs) # split_buffers n (drop (n - 1) xs)"
  by pat_completeness auto
termination by (relation "measure (\<lambda>(n, xs). length xs)") auto

text \<open>\<open>LerobotVideoTargetsLocalState\<close>, as far as \<open>BuildTargetBuffers\<close> uses it.\<close>

record targets_state =
  ts_position :: nat
  ts_routes :: "video_route list"
  ts_buffers :: "decode_buffer list"

definition shard_of :: "video_route list \<Rightarrow> decode_target \<Rightarrow> nat" where
  "shard_of routes t = vr_file_index (routes ! dt_route_index t)"

definition shard_buffers :: "targets_bind \<Rightarrow> video_route list \<Rightarrow> decode_target list \<Rightarrow> nat \<Rightarrow> decode_buffer list" where
  "shard_buffers bind routes targets shard =
     map (\<lambda>ts. FinalizeDecodeBuffer (cluster_gap (tg_options bind))
            \<lparr>db_shard_index = shard, db_fps = vm_fps (tg_metadata bind), db_targets = ts, db_clusters = []\<rparr>)
       (split_buffers (target_buffer_size (tg_options bind)) (filter (\<lambda>t. shard_of routes t = shard) targets))"

text \<open>
  \<open>order\<close> is the order in which the hash table of the video files is walked. The second result is the counter of
  the ordinals, which is claimed before a row is read.
\<close>

definition BuildTargetBuffers ::
  "targets_bind \<Rightarrow> (string list \<Rightarrow> timestamp_key list \<Rightarrow> timestamp_match list result) \<Rightarrow> (nat list \<Rightarrow> nat list) \<Rightarrow>
   input_value list list \<Rightarrow> targets_state \<Rightarrow> 64 word \<Rightarrow> targets_state result \<times> 64 word" where
  "BuildTargetBuffers bind lookup order input st counter =
     (let n = min (length input - ts_position st) (max_pending_targets (tg_options bind))
      in if n = 0 then (Inr st, counter)
         else
           let (first_ordinal, counter') = ClaimTargetOrdinals n counter
           in (if first_ordinal > of_int INT64_MAX - of_nat n
               then invalid_row ''lerobot_video_targets produced too many rows for target_ordinal''
               else
                 bindE (read_batch bind first_ordinal (take n (drop (ts_position st) input))) (\<lambda>read.
                 let routes = map snd read
                 in bindE (ReadTargetTimestamps bind lookup (map fst read)) (\<lambda>timestamps.
                    bindE (mapE (resolve_target bind routes timestamps) (map fst read)) (\<lambda>targets.
                    Inr (st\<lparr>ts_position := ts_position st + n, ts_routes := routes,
                            ts_buffers := ts_buffers st @
                              concat (map (shard_buffers bind routes targets) (order (remdups (map (shard_of routes) targets))))\<rparr>)))),
               counter'))"

section \<open>Splitting\<close>

lemma split_buffers_concat: "1 \<le> n \<Longrightarrow> concat (split_buffers n xs) = xs"
  by (induction n xs rule: split_buffers.induct) simp_all

lemma split_buffers_sizes: "1 \<le> n \<Longrightarrow> ys \<in> set (split_buffers n xs) \<Longrightarrow> ys \<noteq> [] \<and> length ys \<le> n \<and> set ys \<subseteq> set xs"
proof (induction n xs rule: split_buffers.induct)
  case (2 n x xs)
  then show ?case using set_drop_subset [of "n - 1" xs] set_take_subset [of "n - 1" xs] by auto
qed simp

lemma mset_filter_parts:
  assumes "distinct ss" "f ` set xs \<subseteq> set ss"
  shows "mset (concat (map (\<lambda>s. filter (\<lambda>x. f x = s) xs) ss)) = mset xs"
  using assms
proof (induction ss arbitrary: xs)
  case (Cons s ss)
  let ?rest = "filter (\<lambda>x. f x \<noteq> s) xs"
  have "filter (\<lambda>x. f x = s') xs = filter (\<lambda>x. f x = s') ?rest" if "s' \<in> set ss" for s'
    using that Cons.prems(1) by (auto intro!: filter_cong)
  then have same: "map (\<lambda>s'. filter (\<lambda>x. f x = s') xs) ss = map (\<lambda>s'. filter (\<lambda>x. f x = s') ?rest) ss"
    by (intro map_cong refl)
  have "mset (concat (map (\<lambda>s'. filter (\<lambda>x. f x = s') ?rest) ss)) = mset ?rest"
    using Cons.prems by (intro Cons.IH) auto
  then have "mset (concat (map (\<lambda>s'. filter (\<lambda>x. f x = s') xs) (s # ss))) = mset (filter (\<lambda>x. f x = s) xs) + mset ?rest"
    by (simp only: list.map concat.simps mset_append same)
  also have "\<dots> = mset xs" by (simp add: multiset_partition [of "mset xs" "\<lambda>x. f x = s", symmetric])
  finally show ?case .
qed simp

lemma shard_buffers_targets:
  assumes "1 \<le> target_buffer_size (tg_options bind)"
  shows "mset (concat (map db_targets (shard_buffers bind routes targets s))) = mset (filter (\<lambda>t. shard_of routes t = s) targets)"
proof -
  have finals: "mset (concat (map (\<lambda>ts. db_targets (FinalizeDecodeBuffer gap (b ts))) tss)) = mset (concat tss)"
    if "\<And>ts. db_targets (b ts) = ts" for gap b tss
    by (induction tss) (simp_all add: FinalizeDecodeBuffer_targets(1) that)
  show ?thesis
    unfolding shard_buffers_def map_map comp_def
    by (subst finals) (simp_all add: split_buffers_concat [OF assms])
qed

lemma shards_targets:
  "1 \<le> target_buffer_size (tg_options bind) \<Longrightarrow>
     mset (concat (map db_targets (concat (map (shard_buffers bind routes targets) ss)))) =
     mset (concat (map (\<lambda>s. filter (\<lambda>t. shard_of routes t = s) targets) ss))"
  by (induction ss) (simp_all add: shard_buffers_targets)

lemma shard_buffers_each:
  assumes "1 \<le> target_buffer_size (tg_options bind)" "b \<in> set (shard_buffers bind routes targets s)"
  shows "db_shard_index b = s" "db_fps b = vm_fps (tg_metadata bind)" "db_targets b \<noteq> []"
    "length (db_targets b) \<le> target_buffer_size (tg_options bind)"
    "set (db_targets b) \<subseteq> {t \<in> set targets. shard_of routes t = s}"
    "\<exists>b'. b = FinalizeDecodeBuffer (cluster_gap (tg_options bind)) b'"
proof -
  from assms(2) obtain ts where ts: "ts \<in> set (split_buffers (target_buffer_size (tg_options bind)) (filter (\<lambda>t. shard_of routes t = s) targets))"
    "b = FinalizeDecodeBuffer (cluster_gap (tg_options bind))
       \<lparr>db_shard_index = s, db_fps = vm_fps (tg_metadata bind), db_targets = ts, db_clusters = []\<rparr>"
    by (auto simp: shard_buffers_def)
  note sizes = split_buffers_sizes [OF assms(1) ts(1)]
  have m: "mset (db_targets b) = mset ts" by (simp add: ts(2) FinalizeDecodeBuffer_targets)
  show "db_targets b \<noteq> []" using m sizes by auto
  show "set (db_targets b) \<subseteq> {t \<in> set targets. shard_of routes t = s}" using mset_eq_setD [OF m] sizes by auto
  show "db_shard_index b = s" "db_fps b = vm_fps (tg_metadata bind)" by (simp_all add: ts(2) FinalizeDecodeBuffer_targets)
  show "length (db_targets b) \<le> target_buffer_size (tg_options bind)" using mset_eq_length [OF m] sizes by simp
  show "\<exists>b'. b = FinalizeDecodeBuffer (cluster_gap (tg_options bind)) b'" using ts(2) by blast
qed

section \<open>The keys of frames\<close>

lemma to_string_int_inj [simp]: "to_string_int i = to_string_int j \<longleftrightarrow> i = j"
proof -
  have minus: "to_string n \<noteq> CHR ''-'' # to_string m" for n m
    using to_string_digits [of "CHR ''-''" n] by (auto simp: is_digit_def less_eq_char_def)
  show ?thesis
    using minus [of "nat i" "nat (- j)"] minus [of "nat j" "nat (- i)"] by (auto simp: to_string_int_def dest: sym)
qed

lemma LerobotFrameKey_inj: "LerobotFrameKey e f = LerobotFrameKey e' f' \<longleftrightarrow> e = e' \<and> f = f'"
proof -
  have "CHR '':'' \<notin> set (to_string_int i)" for i using colon_not_digit by (simp add: to_string_int_def)
  then show ?thesis by (simp add: LerobotFrameKey_def append_eq_append_sep)
qed

section \<open>What is read\<close>

text \<open>The target of a row as the documentation describes it, with the ordinal of the row.\<close>

definition row_target ::
  "targets_bind \<Rightarrow> nat \<Rightarrow> input_value list \<Rightarrow> video_route \<Rightarrow> decode_target \<Rightarrow> bool" where
  "row_target bind ordinal row route t \<longleftrightarrow>
     (let columns = tg_columns bind; delta = tg_deltas bind ! dt_delta_ordinal t;
          wanted = dt_frame_index t + frame_offset delta
      in row ! (columns ! 0) = Number (Some (dt_request_id t)) \<and> row ! (columns ! 1) = Number (Some (dt_episode_index t)) \<and>
         row ! (columns ! 2) = Number (Some (dt_frame_index t)) \<and> row ! (columns ! 4) = Number (Some (int (dt_delta_ordinal t))) \<and>
         (length columns = 6 \<longrightarrow> row ! (columns ! 5) = Number (Some (dt_target_id t))) \<and>
         (\<exists>key. row ! (columns ! 3) = Text (Some key) \<and> FindRoute (tg_metadata bind) (dt_episode_index t) key = Some route) \<and>
         0 \<le> dt_frame_index t \<and> dt_frame_index t < vr_episode_length route \<and> dt_delta_ordinal t < length (tg_deltas bind) \<and>
         dt_request_ordinal t = ordinal \<and> dt_delta_timestamp t = delta_timestamp delta \<and>
         dt_target_frame_index t = max 0 (min (vr_episode_length route - 1) wanted) \<and>
         (dt_is_padding t \<longleftrightarrow> \<not> (0 \<le> wanted \<and> wanted < vr_episode_length route)))"

lemma ReadUnifiedInteger_Inr: "ReadUnifiedInteger row c = Inr v \<Longrightarrow> row ! c = Number (Some v)"
  by (auto simp: ReadUnifiedInteger_def invalid_row_def split: input_value.splits option.splits if_splits)

lemma ReadUnifiedValue_Inr: "ReadUnifiedValue row c = Inr s \<Longrightarrow> row ! c = Text (Some s)"
  by (auto simp: ReadUnifiedValue_def invalid_row_def split: input_value.splits option.splits)

lemma read_target_Inr:
  assumes "read_target bind first offset row = Inr (t, route)"
  shows "row_target bind (unat (first + of_nat offset)) row route t" "dt_route_index t = offset"
proof -
  from assms obtain request episode frame key delta_index target_id where
    cols: "ReadUnifiedInteger row (tg_columns bind ! 0) = Inr request" "ReadUnifiedInteger row (tg_columns bind ! 1) = Inr episode"
      "ReadUnifiedInteger row (tg_columns bind ! 2) = Inr frame" "ReadUnifiedValue row (tg_columns bind ! 3) = Inr key"
      "ReadUnifiedInteger row (tg_columns bind ! 4) = Inr delta_index"
      "(if length (tg_columns bind) = 6 then ReadUnifiedInteger row (tg_columns bind ! 5) else Inr 0) = Inr target_id"
    and ok: "0 \<le> frame" "0 \<le> delta_index" "delta_index < int (length (tg_deltas bind))"
      "FindRoute (tg_metadata bind) episode key = Some route" "frame < vr_episode_length route"
    and t: "t = (case clamp_target (vr_episode_length route) frame (frame_offset (tg_deltas bind ! nat delta_index)) of
        (target_frame, padding) \<Rightarrow>
          \<lparr>dt_request_id = request, dt_target_id = target_id, dt_request_ordinal = unat (first + of_nat offset),
           dt_delta_ordinal = nat delta_index, dt_delta_timestamp = delta_timestamp (tg_deltas bind ! nat delta_index),
           dt_delta_frame_offset = frame_offset (tg_deltas bind ! nat delta_index), dt_is_padding = padding,
           dt_episode_index = episode, dt_frame_index = frame, dt_target_frame_index = target_frame,
           dt_frame_timestamp = Fin 0, dt_video_timestamp = Fin 0, dt_route_index = offset\<rparr>)"
    unfolding read_target_def Let_def
    by (simp only: bindE_Inr_iff invalid_unless_Inr, elim exE conjE)
      (auto simp: invalid_row_def split: option.splits prod.splits)
  show "dt_route_index t = offset" by (simp add: t case_prod_beta)
  show "row_target bind (unat (first + of_nat offset)) row route t"
    using cols ok clamp_target_spec [OF ok(1,5)]
    by (auto simp: t row_target_def Let_def dest!: ReadUnifiedInteger_Inr ReadUnifiedValue_Inr)
qed

section \<open>What is found\<close>

lemma timestamps_found:
  assumes "ReadTargetTimestamps bind lookup targets = Inr tm" "map_of tm (LerobotFrameKey e f) = Some time"
  obtains ms i where "lookup (target_files bind targets) (target_keys targets) = Inr ms" "i < length (target_keys targets)"
    "i < length ms" "target_keys targets ! i = (e, f)" "mt_count (ms ! i) = 1" "mt_has_timestamp (ms ! i)"
    "mt_timestamp (ms ! i) = time"
proof -
  from assms(1) obtain ms where ms: "lookup (target_files bind targets) (target_keys targets) = Inr ms"
    "mapE check_match (zip (target_keys targets) ms) = Inr tm"
    by (auto simp: ReadTargetTimestamps_def Let_def invalid_row_def split: if_splits)
  from mapE_set [OF ms(2) map_of_SomeD [OF assms(2)]] obtain e' f' found where found:
    "((e', f'), found) \<in> set (zip (target_keys targets) ms)" "check_match ((e', f'), found) = Inr (LerobotFrameKey e f, time)"
    by (auto split: prod.splits)
  then have "(e', f') = (e, f)" "mt_count found = 1" "mt_has_timestamp found" "mt_timestamp found = time"
    by (auto simp: check_match_def invalid_row_def LerobotFrameKey_inj split: if_splits)
  with found(1) ms(1) show thesis by (auto simp: in_set_zip intro: that)
qed

text \<open>A target in the video file of its route.\<close>

definition in_route :: "targets_bind \<Rightarrow> video_route \<Rightarrow> decode_target \<Rightarrow> bool" where
  "in_route bind route t \<longleftrightarrow> dt_video_timestamp t = dadd (vr_from route) (dt_frame_timestamp t) \<and>
     fis_finite (dt_video_timestamp t) \<and> \<not> flt (dt_video_timestamp t) (dsub (vr_from route) (tolerance (tg_options bind))) \<and>
     \<not> flt (dadd (vr_to route) (tolerance (tg_options bind))) (dt_video_timestamp t)"

lemma resolve_target_Inr:
  assumes "resolve_target bind routes tm t = Inr t'"
  obtains time where "map_of tm (LerobotFrameKey (dt_episode_index t) (dt_target_frame_index t)) = Some time"
    "t' = t\<lparr>dt_frame_timestamp := time, dt_video_timestamp := dadd (vr_from (routes ! dt_route_index t)) time\<rparr>"
    "in_route bind (routes ! dt_route_index t) t'"
  using assms by (auto simp: resolve_target_def Let_def invalid_row_def in_route_def split: option.splits if_splits)

lemma batch_ordinal:
  assumes "\<not> first > of_int INT64_MAX - (of_nat n :: 64 word)" "n < 2 ^ 63" "k < n"
  shows "unat (first + of_nat k) = unat first + k"
proof -
  have "(of_int INT64_MAX :: 64 word) - of_nat n = of_nat (2 ^ 63 - 1 - n)"
    using assms(2) by (subst of_nat_diff) (auto simp: INT64_MAX_def)
  then have "unat first \<le> 2 ^ 63 - 1 - n"
    using assms(1,2) unat_of_nat_small [of "2 ^ 63 - 1 - n"] by (simp add: word_less_nat_alt)
  then have "unat first + k < 2 ^ 64" using assms(2,3) by simp
  moreover have "unat (of_nat k :: 64 word) = k" using assms(2,3) by (intro unat_of_nat_small) simp
  ultimately show ?thesis by (simp add: unat_word_ariths)
qed

definition batch_size :: "targets_bind \<Rightarrow> input_value list list \<Rightarrow> targets_state \<Rightarrow> nat" where
  "batch_size bind input st = min (length input - ts_position st) (max_pending_targets (tg_options bind))"

definition batch_rows :: "targets_bind \<Rightarrow> input_value list list \<Rightarrow> targets_state \<Rightarrow> input_value list list" where
  "batch_rows bind input st = take (batch_size bind input st) (drop (ts_position st) input)"

lemma batch_rows_nth:
  "length (batch_rows bind input st) = batch_size bind input st"
  "k < batch_size bind input st \<Longrightarrow> batch_rows bind input st ! k = input ! (ts_position st + k)"
  by (auto simp: batch_rows_def batch_size_def intro!: nth_drop)

lemma BuildTargetBuffers_Inr:
  assumes "BuildTargetBuffers bind lookup order input st counter = (Inr st', counter')" "0 < batch_size bind input st"
  obtains read tm targets where "read_batch bind counter (batch_rows bind input st) = Inr read"
    "ReadTargetTimestamps bind lookup (map fst read) = Inr tm"
    "mapE (resolve_target bind (map snd read) tm) (map fst read) = Inr targets"
    "st' = st\<lparr>ts_position := ts_position st + batch_size bind input st, ts_routes := map snd read,
       ts_buffers := ts_buffers st @ concat (map (shard_buffers bind (map snd read) targets)
         (order (remdups (map (shard_of (map snd read)) targets))))\<rparr>"
    "counter' = counter + of_nat (batch_size bind input st)"
    "\<not> counter > of_int INT64_MAX - of_nat (batch_size bind input st)"
proof -
  let ?n = "batch_size bind input st"
  have first: "\<not> counter > of_int INT64_MAX - of_nat ?n" "counter' = counter + of_nat ?n"
    using assms by (auto simp: BuildTargetBuffers_def batch_size_def [symmetric] ClaimTargetOrdinals_def Let_def
        invalid_row_def split: if_splits)
  from assms have "\<exists>read tm targets. read_batch bind counter (batch_rows bind input st) = Inr read \<and>
      ReadTargetTimestamps bind lookup (map fst read) = Inr tm \<and>
      mapE (resolve_target bind (map snd read) tm) (map fst read) = Inr targets \<and>
      st\<lparr>ts_position := ts_position st + ?n, ts_routes := map snd read,
         ts_buffers := ts_buffers st @ concat (map (shard_buffers bind (map snd read) targets)
           (order (remdups (map (shard_of (map snd read)) targets))))\<rparr> = st'"
    by (simp add: BuildTargetBuffers_def batch_size_def [symmetric] batch_rows_def [symmetric] ClaimTargetOrdinals_def Let_def
        invalid_row_def split: if_splits)
  with first show thesis by (elim exE conjE) (rule that; (assumption | (rule sym, assumption)))
qed

lemma batch_target:
  assumes read: "read_batch bind counter (batch_rows bind input st) = Inr read"
    and tm: "ReadTargetTimestamps bind lookup (map fst read) = Inr tm"
    and targets: "mapE (resolve_target bind (map snd read) tm) (map fst read) = Inr targets"
    and k: "k < batch_size bind input st"
  shows "row_target bind (unat (counter + of_nat k)) (input ! (ts_position st + k)) (map snd read ! k) (targets ! k)"
    "in_route bind (map snd read ! k) (targets ! k)" "dt_route_index (targets ! k) = k" "length targets = batch_size bind input st"
    "map_of tm (LerobotFrameKey (dt_episode_index (targets ! k)) (dt_target_frame_index (targets ! k))) =
       Some (dt_frame_timestamp (targets ! k))"
proof -
  have len: "length read = batch_size bind input st"
    using mapE_length [OF read [unfolded read_batch_def]] batch_rows_nth(1) [of bind input st] by simp
  show "length targets = batch_size bind input st" using mapE_length [OF targets] len by simp
  obtain t route where t: "read ! k = (t, route)" by fastforce
  have "read_target bind counter k (input ! (ts_position st + k)) = Inr (t, route)"
    using mapE_nth [OF read [unfolded read_batch_def], of k] k t batch_rows_nth(1) [of bind input st] batch_rows_nth(2) [OF k] by simp
  note row = read_target_Inr [OF this]
  have "resolve_target bind (map snd read) tm t = Inr (targets ! k)"
    using mapE_nth [OF targets, of k] len k t by simp
  then obtain time where found: "map_of tm (LerobotFrameKey (dt_episode_index t) (dt_target_frame_index t)) = Some time"
    "targets ! k = t\<lparr>dt_frame_timestamp := time, dt_video_timestamp := dadd (vr_from (map snd read ! dt_route_index t)) time\<rparr>"
    "in_route bind (map snd read ! dt_route_index t) (targets ! k)" by (rule resolve_target_Inr)
  have route: "map snd read ! k = route" using t len k by simp
  show "row_target bind (unat (counter + of_nat k)) (input ! (ts_position st + k)) (map snd read ! k) (targets ! k)"
    using row(1) by (simp add: route found(2) row_target_def Let_def)
  show "in_route bind (map snd read ! k) (targets ! k)" using found(3) row(2) by simp
  show "dt_route_index (targets ! k) = k" using row(2) by (simp add: found(2))
  show "map_of tm (LerobotFrameKey (dt_episode_index (targets ! k)) (dt_target_frame_index (targets ! k))) =
      Some (dt_frame_timestamp (targets ! k))" using found(1) by (simp add: found(2))
qed

lemma batch_buffers:
  fixes routes :: "video_route list" and targets :: "decode_target list"
  assumes "1 \<le> target_buffer_size (tg_options bind)" "\<And>ss. mset (order ss) = mset ss"
  defines "bs \<equiv> concat (map (shard_buffers bind routes targets) (order (remdups (map (shard_of routes) targets))))"
  shows "mset (concat (map db_targets bs)) = mset targets"
    "b \<in> set bs \<Longrightarrow> db_targets b \<noteq> [] \<and> length (db_targets b) \<le> target_buffer_size (tg_options bind) \<and>
       db_fps b = vm_fps (tg_metadata bind) \<and>
       set (db_targets b) \<subseteq> {t \<in> set targets. shard_of routes t = db_shard_index b} \<and>
       (\<exists>b'. b = FinalizeDecodeBuffer (cluster_gap (tg_options bind)) b')"
proof -
  let ?ss = "order (remdups (map (shard_of routes) targets))"
  have ss: "distinct ?ss" "set ?ss = shard_of routes ` set targets"
    using assms(2) [of "remdups (map (shard_of routes) targets)"] mset_eq_imp_distinct_iff mset_eq_setD by (fastforce, fastforce)
  have "mset (concat (map db_targets bs)) = mset (concat (map (\<lambda>s. filter (\<lambda>t. shard_of routes t = s) targets) ?ss))"
    unfolding bs_def by (rule shards_targets [OF assms(1)])
  also have "\<dots> = mset targets" using ss by (intro mset_filter_parts) auto
  finally show "mset (concat (map db_targets bs)) = mset targets" .
  show "db_targets b \<noteq> [] \<and> length (db_targets b) \<le> target_buffer_size (tg_options bind) \<and>
       db_fps b = vm_fps (tg_metadata bind) \<and>
       set (db_targets b) \<subseteq> {t \<in> set targets. shard_of routes t = db_shard_index b} \<and>
       (\<exists>b'. b = FinalizeDecodeBuffer (cluster_gap (tg_options bind)) b')" if "b \<in> set bs"
  proof -
    from that obtain s where "b \<in> set (shard_buffers bind routes targets s)" by (auto simp: bs_def)
    note each = shard_buffers_each [OF assms(1) this]
    show ?thesis using each by simp
  qed
qed

text \<open>
  C8. A batch of input rows becomes buffers that hold exactly one target per row: the target that the row asks for,
  clamped to its episode, with the ordinal of the row and a video timestamp inside its route up to the tolerance.
  Every buffer belongs to one video file and is neither empty nor larger than the buffer size.
\<close>

theorem target_batch_buffered:
  assumes "BuildTargetBuffers bind lookup order input st counter = (Inr st', counter')" "ts_buffers st = []"
    and "1 \<le> target_buffer_size (tg_options bind)" "\<And>ss. mset (order ss) = mset ss" "length input < 2 ^ 63"
  defines "n \<equiv> batch_size bind input st"
  shows "ts_position st' = ts_position st + n \<and> counter' = counter + of_nat n \<and>
    (\<exists>targets. length targets = n \<and> mset (concat (map db_targets (ts_buffers st'))) = mset targets \<and>
       (\<forall>k < n. row_target bind (unat counter + k) (input ! (ts_position st + k)) (ts_routes st' ! k) (targets ! k) \<and>
          in_route bind (ts_routes st' ! k) (targets ! k) \<and> dt_route_index (targets ! k) = k)) \<and>
    (\<forall>b \<in> set (ts_buffers st'). db_targets b \<noteq> [] \<and> length (db_targets b) \<le> target_buffer_size (tg_options bind) \<and>
       (\<forall>t \<in> set (db_targets b). vr_file_index (ts_routes st' ! dt_route_index t) = db_shard_index b))"
proof (cases "n = 0")
  case True
  then have "st' = st" "counter' = counter"
    using assms(1) by (auto simp: BuildTargetBuffers_def batch_size_def [symmetric] n_def)
  then show ?thesis using True assms(2) by simp
next
  case False
  then obtain read tm targets where b: "read_batch bind counter (batch_rows bind input st) = Inr read"
    "ReadTargetTimestamps bind lookup (map fst read) = Inr tm"
    "mapE (resolve_target bind (map snd read) tm) (map fst read) = Inr targets"
    "st' = st\<lparr>ts_position := ts_position st + batch_size bind input st, ts_routes := map snd read,
       ts_buffers := ts_buffers st @ concat (map (shard_buffers bind (map snd read) targets)
         (order (remdups (map (shard_of (map snd read)) targets))))\<rparr>"
    "counter' = counter + of_nat (batch_size bind input st)"
    "\<not> counter > of_int INT64_MAX - of_nat (batch_size bind input st)"
    using BuildTargetBuffers_Inr [OF assms(1)] by (auto simp: n_def)
  have n: "n < 2 ^ 63" using assms(5) by (simp add: n_def batch_size_def)
  have "row_target bind (unat counter + k) (input ! (ts_position st + k)) (ts_routes st' ! k) (targets ! k) \<and>
      in_route bind (ts_routes st' ! k) (targets ! k) \<and> dt_route_index (targets ! k) = k" if "k < n" for k
    using batch_target [OF b(1-3), of k] that batch_ordinal [OF b(6), of k] n by (simp add: n_def b(4))
  moreover have "length targets = n" using batch_target(4) [OF b(1-3), of 0] False by (simp add: n_def)
  ultimately show ?thesis
    using batch_buffers(1) [OF assms(3,4), where routes = "map snd read" and targets = targets]
      batch_buffers(2) [OF assms(3,4), where routes = "map snd read" and targets = targets] assms(2)
    by (intro conjI exI [of _ targets]) (force simp: n_def b(4,5) shard_of_def)+
qed

lemma batch_empty: "batch_size bind input st = 0 \<Longrightarrow> BuildTargetBuffers bind lookup order input st counter = (Inr st, counter)"
  by (auto simp: BuildTargetBuffers_def batch_size_def)

lemma buffered_target:
  assumes "BuildTargetBuffers bind lookup order input st counter = (Inr st', counter')" "ts_buffers st = []"
    and "1 \<le> target_buffer_size (tg_options bind)" "\<And>ss. mset (order ss) = mset ss" "b \<in> set (ts_buffers st')"
  obtains read tm targets where "read_batch bind counter (batch_rows bind input st) = Inr read"
    "ReadTargetTimestamps bind lookup (map fst read) = Inr tm"
    "mapE (resolve_target bind (map snd read) tm) (map fst read) = Inr targets"
    "\<exists>b'. b = FinalizeDecodeBuffer (cluster_gap (tg_options bind)) b'" "db_targets b \<noteq> []"
    "\<And>t. t \<in> set (db_targets b) \<Longrightarrow> \<exists>k < batch_size bind input st. targets ! k = t"
proof -
  have n: "0 < batch_size bind input st"
    using assms(1,2,5) batch_empty [of bind input st lookup order counter] by (cases "batch_size bind input st = 0") auto
  from assms(1) n obtain read tm targets where r:
    "read_batch bind counter (batch_rows bind input st) = Inr read" "ReadTargetTimestamps bind lookup (map fst read) = Inr tm"
    "mapE (resolve_target bind (map snd read) tm) (map fst read) = Inr targets"
    "ts_buffers st' = ts_buffers st @ concat (map (shard_buffers bind (map snd read) targets)
       (order (remdups (map (shard_of (map snd read)) targets))))"
    by (rule BuildTargetBuffers_Inr) (simp add: that)
  have b: "db_targets b \<noteq> []" "set (db_targets b) \<subseteq> set targets" "\<exists>b'. b = FinalizeDecodeBuffer (cluster_gap (tg_options bind)) b'"
    using batch_buffers(2) [OF assms(3,4), where routes = "map snd read" and targets = targets] assms(2,5) r(4) by force+
  have "\<exists>k < batch_size bind input st. targets ! k = t" if "t \<in> set (db_targets b)" for t
    using that b(2) batch_target(4) [OF r(1-3) n] by (force simp: in_set_conv_nth)
  then show thesis by (rule that [OF r(1-3) b(3,1)])
qed

text \<open>
  C9. The timestamp of a target is that of the only row with its episode and frame among all rows of the data files of
  the batch, whichever files are indexed; a batch with a target that has no row, or several, gives no buffers.
\<close>

theorem target_timestamps_exact:
  assumes "BuildTargetBuffers bind (\<lambda>files keys. LookupTimestamps sql_literal run False lance keys (visits files)) order
      input st counter = (Inr st', counter')" "ts_buffers st = []"
    and "1 \<le> target_buffer_size (tg_options bind)" "\<And>ss. mset (order ss) = mset ss"
    and "read_batch bind counter (batch_rows bind input st) = Inr read"
    and "files = target_files bind (map fst read)" "map fst (visits files) = files"
    and "\<forall>v \<in> set (visits files). good_visit content v"
    and "native_reader sql_literal run content min_of lance (target_keys (map fst read)) (uncached_files lance (visits files))"
    and "lance \<longrightarrow> length (visits files) = 1" "int (length (all_rows content files)) \<le> INT64_MAX"
    and "b \<in> set (ts_buffers st')" "t \<in> set (db_targets b)"
  shows "\<exists>r. rows_with (all_rows content files) (dt_episode_index t, dt_target_frame_index t) = {#r#} \<and>
    ir_has_timestamp r \<and> dt_frame_timestamp t = ir_timestamp r"
proof -
  let ?lookup = "\<lambda>files keys. LookupTimestamps sql_literal run False lance keys (visits files)"
  from buffered_target [OF assms(1-4,12)] assms(5,13) obtain tm targets k where b:
    "ReadTargetTimestamps bind ?lookup (map fst read) = Inr tm"
    "mapE (resolve_target bind (map snd read) tm) (map fst read) = Inr targets"
    and k: "k < batch_size bind input st" "targets ! k = t"
    by (metis sum.inject(2))
  obtain ms i where ms: "?lookup files (target_keys (map fst read)) = Inr ms" "i < length (target_keys (map fst read))"
    "target_keys (map fst read) ! i = (dt_episode_index t, dt_target_frame_index t)" "mt_count (ms ! i) = 1"
    "mt_has_timestamp (ms ! i)" "mt_timestamp (ms ! i) = dt_frame_timestamp t"
    using batch_target(5) [OF assms(5) b(1,2) k(1)] k(2) assms(6) by (auto elim: timestamps_found [OF b(1)])
  have "sorted (target_keys (map fst read))" "distinct (target_keys (map fst read))" by (simp_all add: target_keys_def)
  from LookupTimestamps_agrees [OF this assms(8-10)] assms(7,11) ms(1)
  have "agrees_all (target_keys (map fst read)) ms (rows_with (all_rows content files))" by auto
  with ms(2,3) have agree: "agrees (ms ! i) (rows_with (all_rows content files) (dt_episode_index t, dt_target_frame_index t))"
    by (auto simp: agrees_all_def)
  with ms(4) have "size (rows_with (all_rows content files) (dt_episode_index t, dt_target_frame_index t)) = 1"
    by (simp add: agrees_def)
  then obtain r where "rows_with (all_rows content files) (dt_episode_index t, dt_target_frame_index t) = {#r#}"
    using size_1_singleton_mset by blast
  with agree ms(5,6) show ?thesis by (auto simp: agrees_def)
qed

section \<open>From rows to frames\<close>

lemma sorted_wrt_concatD: "sorted_wrt P (concat xss) \<Longrightarrow> xs \<in> set xss \<Longrightarrow> sorted_wrt P xs"
  by (induction xss) (auto simp: sorted_wrt_append)

lemma finalized_decodable:
  assumes b: "b = FinalizeDecodeBuffer gap b'" and finite: "\<And>t. t \<in> set (db_targets b) \<Longrightarrow> fis_finite (dt_video_timestamp t)"
    and "db_targets b \<noteq> []"
  shows "db_clusters b \<noteq> []" "concat (db_clusters b) = [0 ..< length (db_targets b)]"
    "c \<in> set (db_clusters b) \<Longrightarrow> sorted_wrt (\<lambda>i j. fle (target_time b i) (target_time b j)) c"
    "c \<in> set (db_clusters b) \<Longrightarrow> i \<in> set c \<Longrightarrow> fis_finite (target_time b i)"
proof -
  show all: "concat (db_clusters b) = [0 ..< length (db_targets b)]" by (simp add: b FinalizeDecodeBuffer_clusters(1))
  then have "length (concat (db_clusters b)) = length (db_targets b)" by (simp only: length_upt)
  then show "db_clusters b \<noteq> []" using assms(3) by auto
  have bound: "i < length (db_targets b)" if "c \<in> set (db_clusters b)" "i \<in> set c" for c i
    using that all by (metis UN_I atLeastLessThan_iff set_concat set_upt)
  then show "fis_finite (target_time b i)" if "c \<in> set (db_clusters b)" "i \<in> set c"
    using that by (auto simp: target_time_def intro: finite)
  have le: "fle (target_time b i) (target_time b j)" if ij: "i < j" "j < length (db_targets b)" for i j
  proof -
    have "target_key (db_targets b ! i) \<le> target_key (db_targets b ! j)"
      using FinalizeDecodeBuffer_targets(2) [of gap b'] ij by (auto simp: b sorted_iff_nth_mono)
    then have "fp_value (target_time b i) \<le> fp_value (target_time b j)"
      by (auto simp: target_key_def target_time_def less_eq_prod_def)
    moreover obtain x y where "target_time b i = Fin x" "target_time b j = Fin y"
      using fis_finiteE [OF finite [OF nth_mem, of i]] fis_finiteE [OF finite [OF nth_mem, of j]] less_trans [OF ij] ij(2)
      by (auto simp: target_time_def)
    ultimately show ?thesis by (auto simp: fp_value_def fle_def feq_def)
  qed
  show "sorted_wrt (\<lambda>i j. fle (target_time b i) (target_time b j)) c" if c: "c \<in> set (db_clusters b)"
  proof (rule sorted_wrt_mono_rel)
    have "sorted_wrt (<) (concat (db_clusters b))" by (simp only: all sorted_wrt_upt)
    from sorted_wrt_concatD [OF this c] show "sorted_wrt (<) c" .
    show "fle (target_time b i) (target_time b j)" if "i \<in> set c" "j \<in> set c" "i < j" for i j
      using that bound [OF c] le by simp
  qed
qed

lemma decode_tasks_indices: "length fss = length (db_clusters b) \<Longrightarrow> map snd (decode_tasks b fss) = concat (db_clusters b)"
proof -
  have "map snd (concat (map (\<lambda>(frames, cluster). map (Pair frames) cluster) (zip xs cs))) = concat cs"
    if "length xs = length cs" for xs :: "(av_frame \<times> fp) list list" and cs
    using that by (induction xs cs rule: list_induct2) (simp_all add: comp_def)
  then show "length fss = length (db_clusters b) \<Longrightarrow> map snd (decode_tasks b fss) = concat (db_clusters b)"
    unfolding decode_tasks_def .
qed


text \<open>A dataset with one indexed data file, and two rows that ask for the frames 1 and 2 of episode 0.\<close>

definition reel_content :: "string \<Rightarrow> raw_row list" where
  "reel_content path = [(Some 0, Some 1, Some (Fin (5 / 16))), (Some 0, Some 2, Some (Fin (1 / 2)))]"

definition reel_visits :: "string list \<Rightarrow> file_visit list" where
  "reel_visits files = map (\<lambda>path. (path, Inr (Some [index_row_of 0 1 (Some (Fin (5 / 16))), index_row_of 0 2 (Some (Fin (1 / 2)))]),
     False)) files"

definition reel_run :: "string \<Rightarrow> native_row list result" where
  "reel_run sql = Inr (map (native_answer hd []) [(0, 1), (0, 2)])"

definition reel_lookup :: "string list \<Rightarrow> timestamp_key list \<Rightarrow> timestamp_match list result" where
  "reel_lookup files keys = LookupTimestamps (\<lambda>s. s) reel_run False False keys (reel_visits files)"

definition reel_bind :: targets_bind where
  "reel_bind = \<lparr>tg_dataset = example_metadata, tg_metadata = example_videos,
     tg_deltas = [\<lparr>delta_timestamp = Fin 0, frame_offset = 0\<rparr>], tg_columns = [0, 1, 2, 3, 4], tg_options = ds_options reel_setup\<rparr>"

definition reel_input :: "input_value list list" where
  "reel_input = [[Number (Some 7), Number (Some 0), Number (Some 1), Text (Some ''cam.a''), Number (Some 0)],
     [Number (Some 8), Number (Some 0), Number (Some 2), Text (Some ''cam.a''), Number (Some 0)]]"

definition reel_state :: targets_state where
  "reel_state = \<lparr>ts_position = 0, ts_routes = [], ts_buffers = []\<rparr>"

lemma reel_batch:
  "(case BuildTargetBuffers reel_bind reel_lookup (\<lambda>ss. ss) reel_input reel_state 0 of
      (Inr st, counter) \<Rightarrow> map (\<lambda>b. (map dt_video_timestamp (db_targets b), db_clusters b, db_shard_index b)) (ts_buffers st) =
        [([Fin (5 / 16), Fin (1 / 2)], [[0, 1]], 0)]
    | (Inl e, counter) \<Rightarrow> False)"
  by code_simp

lemma reel_built:
  obtains st' counter' b where "BuildTargetBuffers reel_bind reel_lookup (\<lambda>ss. ss) reel_input reel_state 0 = (Inr st', counter')"
    "ts_buffers st' = [b]" "map dt_video_timestamp (db_targets b) = [Fin (5 / 16), Fin (1 / 2)]" "db_clusters b = [[0, 1]]"
    "db_shard_index b = 0"
  using reel_batch by (auto split: prod.splits sum.splits)

lemma reel_fits:
  "1 \<le> target_buffer_size (tg_options reel_bind)" "ts_buffers reel_state = []" "length reel_input < 2 ^ 63"
  "batch_size reel_bind reel_input reel_state = 2"
  by (simp_all add: reel_bind_def reel_setup_def reel_state_def reel_input_def batch_size_def)

theorem target_batch_buffered_witness:
  "\<exists>st' counter'. BuildTargetBuffers reel_bind reel_lookup (\<lambda>ss. ss) reel_input reel_state 0 = (Inr st', counter') \<and>
     ts_position st' = 2 \<and> counter' = 2 \<and> size (mset (concat (map db_targets (ts_buffers st')))) = 2"
proof -
  obtain st' counter' b where b: "BuildTargetBuffers reel_bind reel_lookup (\<lambda>ss. ss) reel_input reel_state 0 = (Inr st', counter')"
    by (rule reel_built)
  have zero: "ts_position reel_state = 0" by (simp add: reel_state_def)
  from target_batch_buffered [OF b reel_fits(2,1) _ reel_fits(3)] obtain targets where
    "ts_position st' = 2" "counter' = 2" "length targets = 2" "mset (concat (map db_targets (ts_buffers st'))) = mset targets"
    unfolding reel_fits(4) zero by auto
  with b show ?thesis by (metis size_mset)
qed

lemma reel_read_batch:
  "(case read_batch reel_bind 0 (batch_rows reel_bind reel_input reel_state) of
      Inl e \<Rightarrow> False
    | Inr read \<Rightarrow> target_keys (map fst read) = [(0, 1), (0, 2)] \<and>
        target_files reel_bind (map fst read) = [''/d/data/chunk-000/file-007.parquet''])"
  by code_simp

theorem target_timestamps_exact_witness:
  "\<exists>st' counter' b r. BuildTargetBuffers reel_bind reel_lookup (\<lambda>ss. ss) reel_input reel_state 0 = (Inr st', counter') \<and>
     ts_buffers st' = [b] \<and> dt_frame_timestamp (hd (db_targets b)) = ir_timestamp (r :: index_row)"
proof -
  obtain st' counter' b where b: "BuildTargetBuffers reel_bind reel_lookup (\<lambda>ss. ss) reel_input reel_state 0 = (Inr st', counter')"
    "ts_buffers st' = [b]" "map dt_video_timestamp (db_targets b) = [Fin (5 / 16), Fin (1 / 2)]" by (rule reel_built)
  obtain read where read: "read_batch reel_bind 0 (batch_rows reel_bind reel_input reel_state) = Inr read"
    "target_keys (map fst read) = [(0, 1), (0, 2)]" "target_files reel_bind (map fst read) = [''/d/data/chunk-000/file-007.parquet'']"
    using reel_read_batch by (auto split: sum.splits)
  let ?files = "[''/d/data/chunk-000/file-007.parquet'']"
  have "hd (db_targets b) \<in> set (db_targets b)" using b(3) by (cases "db_targets b") simp_all
  note hd = this
  have index: "index_of (reel_content path) [index_row_of 0 1 (Some (Fin (5 / 16))), index_row_of 0 2 (Some (Fin (1 / 2)))]" for path
    by (simp add: index_of_def reel_content_def Key_def index_row_of_def)
  have visits: "map fst (reel_visits ?files) = ?files" "\<forall>v \<in> set (reel_visits ?files). good_visit reel_content v"
    using index by (simp_all add: reel_visits_def good_visit_def)
  have native: "native_reader (\<lambda>s. s) reel_run reel_content hd False (target_keys (map fst read)) (uncached_files False (reel_visits ?files))"
    by (auto simp: native_reader_def reel_run_def read(2) uncached_files_def reel_visits_def without_index_def all_rows_def
        intro!: exI [of _ "[(0, 1), (0, 2)]"])
  have "\<exists>r. rows_with (all_rows reel_content ?files) (dt_episode_index (hd (db_targets b)), dt_target_frame_index (hd (db_targets b))) =
      {#r#} \<and> ir_has_timestamp r \<and> dt_frame_timestamp (hd (db_targets b)) = ir_timestamp r"
    by (rule target_timestamps_exact [where visits = reel_visits and sql_literal = "\<lambda>s. s" and run = reel_run and lance = False
          and order = "\<lambda>ss. ss" and bind = reel_bind and input = reel_input and st = reel_state and counter = 0 and b = b,
          OF b(1) [unfolded reel_lookup_def [abs_def]] reel_fits(2,1) _ read(1) read(3) [symmetric] visits native])
      (use b(2) hd in \<open>auto simp: all_rows_def reel_content_def INT64_MAX_def\<close>)
  with b(1,2) show ?thesis by (elim exE conjE) (intro exI conjI, assumption+)
qed


end
