(* ===== verification/VideoRequests.thy ===== *)
theory VideoRequests
  imports Temporal TimestampLookup VideoBuffers Evaluation
begin

text \<open>
  The bindings of \<open>lerobot_video_frames\<close> and \<open>lerobot_video_windows\<close> in
  \<open>src/function/video/lerobot_video_frames.cpp\<close>: what they accept, how they split a request over the data files,
  and the frame queries whose rows the producers turn into targets.
\<close>

section \<open>Parameters\<close>

definition GetNonNegativeIndices :: "sqlvalue \<Rightarrow> int list result" where
  "GetNonNegativeIndices value =
     (case value of
        VNull \<Rightarrow> Inl (BinderException ''lerobot_video_frames indices must not be NULL'')
      | VList children \<Rightarrow>
          bindE (mapE (\<lambda>child. case child of
              VNull \<Rightarrow> Inl (BinderException ''lerobot_video_frames indices must not contain NULL'')
            | VInt index \<Rightarrow> require (\<not> index < 0) ''LeRobot indices must be non-negative'' (Inr index)
            | _ \<Rightarrow> Inl wrong_type) children) (\<lambda>indices. Inr (sort_unique indices))
      | _ \<Rightarrow> Inl wrong_type)"

definition GetVideoKeys :: "named_params \<Rightarrow> video_metadata \<Rightarrow> string list result" where
  "GetVideoKeys params metadata =
     (case params ''video_keys'' of
        None \<Rightarrow> Inr (vm_keys metadata)
      | Some VNull \<Rightarrow> Inl (BinderException ''video_keys must not be NULL'')
      | Some (VList children) \<Rightarrow>
          bindE (mapE (\<lambda>child. case child of
              VNull \<Rightarrow> Inl (BinderException ''video_keys must not contain NULL'')
            | VString key \<Rightarrow> require (key \<noteq> []) ''video_keys must not contain an empty key'' (Inr key)
            | _ \<Rightarrow> Inl wrong_type) children) (\<lambda>keys. Inr (sort_unique keys))
      | Some _ \<Rightarrow> Inl wrong_type)"

definition separated_by :: "string \<Rightarrow> string list \<Rightarrow> string" where
  "separated_by sep xs = concat (map (\<lambda>(i, x). (if i = 0 then x else sep @ x)) (zip [0 ..< length xs] xs))"

definition IntegerListSQL :: "int list \<Rightarrow> string" where
  "IntegerListSQL values = ''('' @ separated_by '', '' (map to_string_int values) @ '')''"

text \<open>
  A \<open>std::map\<close> from data files to what belongs to them, in the order of the files and, within a file, of the input.
\<close>

definition group_by_file :: "dataset_metadata \<Rightarrow> ('a \<Rightarrow> int) \<Rightarrow> 'a list \<Rightarrow> (nat \<times> 'a list) list" where
  "group_by_file metadata episode xs =
     (let file = (\<lambda>x. map_option data_file_index (FindEpisodeRoute metadata (episode x)))
      in map (\<lambda>f. (f, filter (\<lambda>x. file x = Some f) xs)) (sort_unique (List.map_filter file xs)))"

definition GroupEpisodesByDataFile :: "dataset_metadata \<Rightarrow> int list \<Rightarrow> (nat \<times> int list) list" where
  "GroupEpisodesByDataFile metadata episodes = group_by_file metadata (\<lambda>e. e) episodes"

section \<open>Binding of frames\<close>

text \<open>\<open>LerobotVideoFramesBindData\<close>.\<close>

record frames_bind =
  fb_metadata :: video_metadata
  fb_routes :: "video_route list"
  fb_frame_queries :: "string list"
  fb_window_mode :: bool
  fb_options :: video_options

text \<open>\<open>LerobotVideoProducerConfig\<close> of a binding.\<close>

definition producer_config_of :: "frames_bind \<Rightarrow> producer_config" where
  "producer_config_of bind = \<lparr>pc_metadata = fb_metadata bind, pc_routes = fb_routes bind,
     pc_frame_queries = fb_frame_queries bind, pc_window_mode = fb_window_mode bind, pc_tolerance = tolerance (fb_options bind),
     pc_cluster_gap = cluster_gap (fb_options bind), pc_target_buffer_size = target_buffer_size (fb_options bind),
     pc_max_pending_targets = max_pending_targets (fb_options bind)\<rparr>"

definition video_frame_columns :: "(string \<times> logical_type) list" where
  "video_frame_columns =
     [(''episode_index'', BIGINT), (''frame_index'', BIGINT), (''timestamp'', DOUBLE), (''video_key'', VARCHAR),
      (''video_path'', VARCHAR), (''video_timestamp'', DOUBLE), (''decoded_timestamp'', DOUBLE), (''width'', INTEGER),
      (''height'', INTEGER), (''channels'', INTEGER), (''image'', BLOB)]"

definition frame_query ::
  "(string \<Rightarrow> string) \<Rightarrow> bool \<Rightarrow> string \<Rightarrow> int list \<Rightarrow> int list option \<Rightarrow> string result" where
  "frame_query sql_literal lance data_file episodes frames =
     bindE (LerobotFrameSourceSQL sql_literal [data_file] lance) (\<lambda>source.
       Inr (''SELECT CAST(episode_index AS BIGINT), CAST(frame_index AS BIGINT), CAST(timestamp AS DOUBLE) FROM '' @ source @
            '' WHERE episode_index IN '' @ IntegerListSQL episodes @
            (case frames of None \<Rightarrow> [] | Some indices \<Rightarrow> '' AND frame_index IN '' @ IntegerListSQL indices)))"

text \<open>The functions \<open>get_videos\<close> and \<open>get_dataset\<close> are the two \<open>Get\<close> functions on the normalised root.\<close>

definition LerobotVideoFramesBind ::
  "(string \<Rightarrow> string) \<Rightarrow> (string \<Rightarrow> bool \<Rightarrow> video_metadata result) \<Rightarrow> (string \<Rightarrow> bool \<Rightarrow> dataset_metadata result) \<Rightarrow>
   sqlvalue list \<Rightarrow> named_params \<Rightarrow> frames_bind result" where
  "LerobotVideoFramesBind sql_literal get_videos get_dataset inputs params =
     (case inputs of
        [VString given_root, episode_values] \<Rightarrow>
          bindE (NormalizeLerobotRoot given_root) (\<lambda>root.
          bindE (GetNonNegativeIndices episode_values) (\<lambda>episodes.
          bindE (GetRefreshParameter params) (\<lambda>refresh.
          bindE (get_videos root refresh) (\<lambda>videos.
          bindE (GetVideoKeys params videos) (\<lambda>keys.
          bindE (ResolveRoutes videos episodes keys) (\<lambda>routes.
          bindE (GetLerobotVideoOptions params) (\<lambda>options.
          bindE (case params ''frame_indices'' of
                   None \<Rightarrow> Inr None
                 | Some value \<Rightarrow> bindE (GetNonNegativeIndices value) (\<lambda>frames. Inr (Some frames))) (\<lambda>frames.
          bindE (if episodes \<noteq> [] \<and> routes \<noteq> [] \<and> frames \<noteq> Some []
                 then bindE (get_dataset root False) (\<lambda>dataset.
                        mapE (\<lambda>(file, part). frame_query sql_literal (IsLance dataset) (md_data_files dataset ! file) part frames)
                          (GroupEpisodesByDataFile dataset episodes))
                 else Inr []) (\<lambda>queries.
          Inr \<lparr>fb_metadata = videos, fb_routes = routes, fb_frame_queries = queries, fb_window_mode = False,
               fb_options = options\<rparr>)))))))))
      | _ \<Rightarrow> Inl (BinderException ''lerobot_video_frames root must not be NULL''))"

section \<open>Window requests\<close>

record window_request =
  wr_request_id :: int
  wr_ordinal :: nat
  wr_episode :: int
  wr_frame :: int

text \<open>A struct is the list of its fields here.\<close>

definition window_request_of :: "nat \<Rightarrow> sqlvalue \<Rightarrow> window_request result" where
  "window_request_of ordinal value =
     (case value of
        VNull \<Rightarrow> Inl (BinderException ''lerobot_video_windows requests must not contain NULL'')
      | VList parts \<Rightarrow>
          (case parts of
             [VInt request_id, VInt episode, VInt frame] \<Rightarrow>
               require (\<not> (episode < 0 \<or> frame < 0)) ''episode_index and frame_index must be non-negative''
                 (Inr \<lparr>wr_request_id = request_id, wr_ordinal = ordinal, wr_episode = episode, wr_frame = frame\<rparr>)
           | _ \<Rightarrow> if length parts \<noteq> 3 \<or> VNull \<in> set parts
                 then Inl (BinderException ''lerobot_video_windows request fields must not be NULL'')
                 else Inl wrong_type)
      | _ \<Rightarrow> Inl wrong_type)"

definition GetVideoWindowRequests :: "sqlvalue \<Rightarrow> window_request list result" where
  "GetVideoWindowRequests value =
     (case value of
        VNull \<Rightarrow> Inl (BinderException ''lerobot_video_windows requests must not be NULL'')
      | VList requests \<Rightarrow> mapE (\<lambda>(ordinal, request). window_request_of ordinal request) (zip [0 ..< length requests] requests)
      | _ \<Rightarrow> Inl wrong_type)"

definition GroupWindowRequestsByDataFile :: "dataset_metadata \<Rightarrow> window_request list \<Rightarrow> (nat \<times> window_request list) list" where
  "GroupWindowRequestsByDataFile metadata requests = group_by_file metadata wr_episode requests"

text \<open>A row of the \<open>VALUES\<close> of a window query: a request and one of its deltas.\<close>

record window_value =
  wv_request :: window_request
  wv_delta_ordinal :: nat
  wv_delta :: temporal_delta
  wv_is_padding :: bool
  wv_target_frame :: int

definition window_value_of :: "(int \<Rightarrow> int option) \<Rightarrow> window_request \<Rightarrow> nat \<times> temporal_delta \<Rightarrow> window_value" where
  "window_value_of lengths request = (\<lambda>(delta_index, delta).
     let (target, padding) = clamp_target (the (lengths (wr_episode request))) (wr_frame request) (frame_offset delta)
     in \<lparr>wv_request = request, wv_delta_ordinal = delta_index, wv_delta = delta, wv_is_padding = padding,
         wv_target_frame = target\<rparr>)"

definition window_values :: "window_request list \<Rightarrow> temporal_delta list \<Rightarrow> (int \<Rightarrow> int option) \<Rightarrow> window_value list" where
  "window_values requests deltas lengths =
     concat (map (\<lambda>request. map (window_value_of lengths request) (zip [0 ..< length deltas] deltas)) requests)"

definition window_value_sql :: "(fp \<Rightarrow> string) \<Rightarrow> window_value \<Rightarrow> string" where
  "window_value_sql double_literal v =
     ''('' @ separated_by '', ''
       [to_string_int (wr_request_id (wv_request v)), to_string (wr_ordinal (wv_request v)), to_string (wv_delta_ordinal v),
        double_literal (delta_timestamp (wv_delta v)), to_string_int (frame_offset (wv_delta v)),
        (if wv_is_padding v then ''TRUE'' else ''FALSE''), to_string_int (wr_episode (wv_request v)),
        to_string_int (wr_frame (wv_request v)), to_string_int (wv_target_frame v)] @ '')''"

definition BuildVideoWindowQuery ::
  "(string \<Rightarrow> string) \<Rightarrow> (fp \<Rightarrow> string) \<Rightarrow> window_request list \<Rightarrow> temporal_delta list \<Rightarrow> (int \<Rightarrow> int option) \<Rightarrow>
   string list \<Rightarrow> int list \<Rightarrow> bool \<Rightarrow> string result" where
  "BuildVideoWindowQuery sql_literal double_literal requests deltas lengths data_files episodes lance =
     (if requests = [] \<or> deltas = [] \<or> data_files = [] then Inr []
      else
        let values = window_values requests deltas lengths
        in bindE (LerobotFrameSourceSQL sql_literal data_files lance) (\<lambda>source.
           Inr (''WITH requested(request_id, request_ordinal, delta_ordinal, delta_timestamp, delta_frame_offset, '' @
                ''is_padding, episode_index, frame_index, target_frame_index) AS (VALUES '' @
                separated_by '', '' (map (window_value_sql double_literal) values) @
                '') SELECT CAST(requested.request_id AS BIGINT), CAST(requested.request_ordinal AS BIGINT), '' @
                ''CAST(requested.delta_ordinal AS BIGINT), CAST(requested.delta_timestamp AS DOUBLE), '' @
                ''CAST(requested.delta_frame_offset AS BIGINT), CAST(requested.is_padding AS BOOLEAN), '' @
                ''CAST(requested.episode_index AS BIGINT), CAST(requested.frame_index AS BIGINT), '' @
                ''CAST(requested.target_frame_index AS BIGINT), CAST(frames.timestamp AS DOUBLE), '' @
                ''CAST(count(frames.frame_index) OVER (PARTITION BY requested.request_ordinal, requested.delta_ordinal) '' @
                ''AS BIGINT) FROM requested LEFT JOIN (SELECT episode_index, frame_index, timestamp FROM '' @ source @
                '' WHERE episode_index IN '' @ IntegerListSQL episodes @ '' AND frame_index IN '' @
                IntegerListSQL (sort_unique (map wv_target_frame values)) @
                '') frames ON frames.episode_index = requested.episode_index AND '' @
                ''frames.frame_index = requested.target_frame_index ORDER BY requested.request_ordinal, '' @
                ''requested.delta_ordinal'')))"

section \<open>Binding of windows\<close>

definition LEROBOT_MAX_WINDOW_TARGETS :: nat where "LEROBOT_MAX_WINDOW_TARGETS = 100000"

text \<open>\<open>episode_lengths\<close>: the routes of an episode must agree on its length.\<close>

definition add_route_length :: "video_route \<Rightarrow> (int \<Rightarrow> int option) \<Rightarrow> (int \<Rightarrow> int option) result" where
  "add_route_length route lengths =
     require (\<not> (lengths (vr_episode_index route) \<noteq> None \<and> lengths (vr_episode_index route) \<noteq> Some (vr_episode_length route)))
       ''LeRobot video routes disagree on the length of episode''
       (Inr (lengths(vr_episode_index route \<mapsto> vr_episode_length route)))"

definition episode_route_count :: "video_route list \<Rightarrow> int \<Rightarrow> nat" where
  "episode_route_count routes episode = length (filter (\<lambda>r. vr_episode_index r = episode) routes)"

definition check_window_routes ::
  "string list \<Rightarrow> window_request list \<Rightarrow> int list \<Rightarrow> video_route list \<Rightarrow> (int \<Rightarrow> int option) result" where
  "check_window_routes keys requests episodes routes =
     bindE (foldE add_route_length routes Map.empty) (\<lambda>lengths.
     if keys = [] then Inr lengths
     else
       require (list_all (\<lambda>e. episode_route_count routes e = length keys) episodes)
         ''LeRobot episode does not have every requested video route'' (
       require (list_all (\<lambda>r. \<not> wr_frame r \<ge> (case lengths (wr_episode r) of None \<Rightarrow> 0 | Some n \<Rightarrow> n)) requests)
         ''LeRobot frame is outside the episode'' (Inr lengths)))"

text \<open>The checks of the binding, once its parameters are read: the routes and the lengths of the episodes.\<close>

definition resolve_windows ::
  "video_metadata \<Rightarrow> string list \<Rightarrow> temporal_delta list \<Rightarrow> window_request list \<Rightarrow>
   (video_route list \<times> (int \<Rightarrow> int option)) result" where
  "resolve_windows videos keys deltas requests =
     require (\<not> (deltas \<noteq> [] \<and> length requests > LEROBOT_MAX_WINDOW_TARGETS div length deltas))
       ''lerobot_video_windows expands to too many frame targets'' (
     let episodes = sort_unique (map wr_episode requests)
     in bindE (ResolveRoutes videos episodes keys) (\<lambda>routes.
        bindE (check_window_routes keys requests episodes routes) (\<lambda>lengths. Inr (routes, lengths))))"

definition window_queries ::
  "(string \<Rightarrow> string) \<Rightarrow> (fp \<Rightarrow> string) \<Rightarrow> dataset_metadata \<Rightarrow> window_request list \<Rightarrow> temporal_delta list \<Rightarrow>
   (int \<Rightarrow> int option) \<Rightarrow> string list result" where
  "window_queries sql_literal double_literal dataset requests deltas lengths =
     mapE (\<lambda>(file, part). BuildVideoWindowQuery sql_literal double_literal part deltas lengths
             [md_data_files dataset ! file] (sort_unique (map wr_episode part)) (IsLance dataset))
       (GroupWindowRequestsByDataFile dataset requests)"

definition video_window_columns :: "(string \<times> logical_type) list" where
  "video_window_columns =
     [(''request_id'', BIGINT), (''request_ordinal'', BIGINT), (''delta_ordinal'', BIGINT), (''delta_timestamp'', DOUBLE),
      (''delta_frame_offset'', BIGINT), (''is_padding'', BOOLEAN), (''episode_index'', BIGINT), (''frame_index'', BIGINT),
      (''target_frame_index'', BIGINT), (''timestamp'', DOUBLE), (''video_key'', VARCHAR), (''video_path'', VARCHAR),
      (''video_timestamp'', DOUBLE), (''decoded_timestamp'', DOUBLE), (''width'', INTEGER), (''height'', INTEGER),
      (''channels'', INTEGER), (''image'', BLOB)]"

definition LerobotVideoWindowsBind ::
  "(string \<Rightarrow> string) \<Rightarrow> (fp \<Rightarrow> string) \<Rightarrow> (string \<Rightarrow> bool \<Rightarrow> video_metadata result) \<Rightarrow>
   (string \<Rightarrow> bool \<Rightarrow> dataset_metadata result) \<Rightarrow> sqlvalue list \<Rightarrow> named_params \<Rightarrow> frames_bind result" where
  "LerobotVideoWindowsBind sql_literal double_literal get_videos get_dataset inputs params =
     (case inputs of
        [VString given_root, request_values] \<Rightarrow>
          bindE (NormalizeLerobotRoot given_root) (\<lambda>root.
          bindE (GetVideoWindowRequests request_values) (\<lambda>requests.
          bindE (GetRefreshParameter params) (\<lambda>refresh.
          bindE (get_videos root refresh) (\<lambda>videos.
          bindE (GetVideoKeys params videos) (\<lambda>keys.
          bindE (GetLerobotVideoOptions params) (\<lambda>options.
          bindE (GetLerobotTemporalDeltas params (vm_fps videos) (tolerance options)) (\<lambda>deltas.
          bindE (resolve_windows videos keys deltas requests) (\<lambda>(routes, lengths).
          bindE (if requests \<noteq> [] \<and> deltas \<noteq> [] \<and> routes \<noteq> []
                 then bindE (get_dataset root False) (\<lambda>dataset.
                        window_queries sql_literal double_literal dataset requests deltas lengths)
                 else Inr []) (\<lambda>queries.
          Inr \<lparr>fb_metadata = videos, fb_routes = routes, fb_frame_queries = queries, fb_window_mode = True,
               fb_options = options\<rparr>)))))))))
      | _ \<Rightarrow> Inl (BinderException ''lerobot_video_windows root must not be NULL''))"

section \<open>Grouping\<close>

lemma group_by_file_spec:
  assumes "routes_inv metadata"
  shows "sorted (map fst (group_by_file metadata episode xs))" "distinct (map fst (group_by_file metadata episode xs))"
    "mset (concat (map snd (group_by_file metadata episode xs))) =
       mset (filter (\<lambda>x. FindEpisodeRoute metadata (episode x) \<noteq> None) xs)"
    "(f, part) \<in> set (group_by_file metadata episode xs) \<Longrightarrow> x \<in> set part \<Longrightarrow>
       x \<in> set xs \<and> f < length (md_data_files metadata) \<and>
       (\<exists>route. FindEpisodeRoute metadata (episode x) = Some route \<and> data_file_index route = f)"
proof -
  let ?file = "\<lambda>x. map_option data_file_index (FindEpisodeRoute metadata (episode x))"
  have keys: "map fst (group_by_file metadata episode xs) = sort_unique (List.map_filter ?file xs)"
    by (simp add: group_by_file_def Let_def comp_def)
  show "sorted (map fst (group_by_file metadata episode xs))" "distinct (map fst (group_by_file metadata episode xs))"
    by (simp_all add: keys)
  have parts: "mset (concat (map (\<lambda>f. filter (\<lambda>x. ?file x = Some f) ys) fs)) = mset (filter (\<lambda>x. ?file x \<noteq> None) ys)"
    if "distinct fs" "set (List.map_filter ?file ys) \<subseteq> set fs" for fs ys
    using that
  proof (induction ys)
    case (Cons y ys)
    show ?case
    proof (cases "?file y")
      case None
      then show ?thesis using Cons by (simp add: List.map_filter_simps)
    next
      case (Some g)
      then have g: "g \<in> set fs" using Cons.prems(2) by (auto simp: List.map_filter_simps)
      have "mset (concat (map (\<lambda>f. filter (\<lambda>x. ?file x = Some f) (y # ys)) fs)) =
          add_mset y (mset (concat (map (\<lambda>f. filter (\<lambda>x. ?file x = Some f) ys) fs)))"
        using g that(1) Some
      proof (induction fs)
        case (Cons f fs)
        then show ?case by (cases "f = g") (auto intro!: arg_cong [where f = mset] arg_cong [where f = concat] map_cong)
      qed simp
      then show ?thesis using Cons Some by (auto simp: List.map_filter_simps)
    qed
  qed simp
  have "concat (map snd (group_by_file metadata episode xs)) =
      concat (map (\<lambda>f. filter (\<lambda>x. ?file x = Some f) xs) (sort_unique (List.map_filter ?file xs)))"
    by (simp add: group_by_file_def Let_def comp_def)
  then show "mset (concat (map snd (group_by_file metadata episode xs))) =
      mset (filter (\<lambda>x. FindEpisodeRoute metadata (episode x) \<noteq> None) xs)"
    using parts [of "sort_unique (List.map_filter ?file xs)" xs] by simp
  show "x \<in> set xs \<and> f < length (md_data_files metadata) \<and>
       (\<exists>route. FindEpisodeRoute metadata (episode x) = Some route \<and> data_file_index route = f)"
    if "(f, part) \<in> set (group_by_file metadata episode xs)" "x \<in> set part"
  proof -
    from that have x: "x \<in> set xs" "?file x = Some f" by (auto simp: group_by_file_def Let_def)
    then obtain route where "FindEpisodeRoute metadata (episode x) = Some route" "data_file_index route = f" by auto
    with x(1) assms show ?thesis by (auto simp: FindEpisodeRoute_iff [OF assms] routes_inv_def list_all_iff)
  qed
qed

section \<open>What the binding of windows accepts\<close>

definition lengths_agree :: "video_route list \<Rightarrow> bool" where
  "lengths_agree routes \<longleftrightarrow> (\<forall>r \<in> set routes. \<forall>s \<in> set routes. vr_episode_index r = vr_episode_index s \<longrightarrow>
     vr_episode_length r = vr_episode_length s)"

definition fits_lengths :: "video_route \<Rightarrow> (int \<Rightarrow> int option) \<Rightarrow> bool" where
  "fits_lengths r m \<longleftrightarrow> m (vr_episode_index r) = None \<or> m (vr_episode_index r) = Some (vr_episode_length r)"

lemma add_route_length_fits [simp]:
  "fits_lengths r m \<Longrightarrow> add_route_length r m = Inr (m(vr_episode_index r \<mapsto> vr_episode_length r))"
  "\<not> fits_lengths r m \<Longrightarrow> \<exists>e. add_route_length r m = Inl e"
  by (auto simp: add_route_length_def fits_lengths_def require_def)

lemma route_lengths:
  "foldE add_route_length routes m = Inr m' \<Longrightarrow> m \<subseteq>\<^sub>m m' \<and>
     (\<forall>r \<in> set routes. m' (vr_episode_index r) = Some (vr_episode_length r)) \<and>
     (\<forall>e. e \<notin> vr_episode_index ` set routes \<longrightarrow> m' e = m e)"
proof (induction routes arbitrary: m)
  case (Cons r routes)
  let ?m = "m(vr_episode_index r \<mapsto> vr_episode_length r)"
  from Cons.prems have fits: "fits_lengths r m" and rest: "foldE add_route_length routes ?m = Inr m'"
    using add_route_length_fits(2) [of r m] by (cases "fits_lengths r m"; fastforce)+
  note IH = Cons.IH [OF rest]
  have "m \<subseteq>\<^sub>m ?m" using fits by (auto simp: fits_lengths_def map_le_def)
  then have "m \<subseteq>\<^sub>m m'" using IH by (blast intro: map_le_trans)
  moreover have "m' (vr_episode_index r) = Some (vr_episode_length r)"
    using IH by (metis domIff fun_upd_same map_le_def option.distinct(1))
  ultimately show ?case using IH by simp
qed simp

lemma route_lengths_exist:
  "lengths_agree routes \<Longrightarrow> \<forall>r \<in> set routes. fits_lengths r m \<Longrightarrow> \<exists>m'. foldE add_route_length routes m = Inr m'"
proof (induction routes arbitrary: m)
  case (Cons r routes)
  let ?m = "m(vr_episode_index r \<mapsto> vr_episode_length r)"
  have "fits_lengths s ?m" if "s \<in> set routes" for s
  proof (cases "vr_episode_index s = vr_episode_index r")
    case True
    then have "vr_episode_length s = vr_episode_length r"
      using Cons.prems(1) that unfolding lengths_agree_def by (metis list.set_intros)
    then show ?thesis using True by (simp add: fits_lengths_def)
  next
    case False
    then show ?thesis using Cons.prems(2) that by (simp add: fits_lengths_def)
  qed
  moreover have "lengths_agree routes" using Cons.prems(1) unfolding lengths_agree_def list.set by blast
  ultimately obtain m' where "foldE add_route_length routes ?m = Inr m'" using Cons.IH [of ?m] by blast
  then show ?case using Cons.prems(2) by simp
qed simp

lemma route_lengths_iff: "(\<exists>m'. foldE add_route_length routes Map.empty = Inr m') \<longleftrightarrow> lengths_agree routes"
proof
  assume "\<exists>m'. foldE add_route_length routes Map.empty = Inr m'"
  then obtain m' where "foldE add_route_length routes Map.empty = Inr m'" by blast
  from route_lengths [OF this] have at: "m' (vr_episode_index r) = Some (vr_episode_length r)" if "r \<in> set routes" for r
    using that by blast
  show "lengths_agree routes"
    unfolding lengths_agree_def using at by (metis option.inject)
qed (use route_lengths_exist in \<open>auto simp: fits_lengths_def\<close>)

section \<open>The routes of an episode\<close>

definition episode_routes :: "video_metadata \<Rightarrow> string list \<Rightarrow> int \<Rightarrow> video_route list" where
  "episode_routes videos keys e =
     filter (\<lambda>r. vr_episode_index r = e \<and> vm_keys videos ! vr_key_index r \<in> set keys) (vm_routes videos)"

lemma episode_routes_count:
  assumes inv: "video_routes_inv videos" and keys: "distinct keys"
  shows "length (episode_routes videos keys e) = length keys \<longleftrightarrow> (\<forall>key \<in> set keys. FindRoute videos e key \<noteq> None)"
proof -
  note D = video_routes_invD [OF inv]
  let ?key = "\<lambda>r. vm_keys videos ! vr_key_index r"
  have "inj_on ?key (set (episode_routes videos keys e))"
  proof (rule inj_onI)
    fix r s
    assume rs: "r \<in> set (episode_routes videos keys e)" "s \<in> set (episode_routes videos keys e)" "?key r = ?key s"
    then have "vr_key_index r = vr_key_index s"
      using D(2,5) by (auto simp: episode_routes_def nth_eq_iff_index_eq)
    with rs have "route_key r = route_key s" by (auto simp: route_key_def episode_routes_def)
    with D(4) rs show "r = s" by (auto simp: episode_routes_def distinct_map inj_on_def)
  qed
  moreover have "distinct (episode_routes videos keys e)" using D(4) by (simp add: episode_routes_def distinct_map)
  ultimately have card: "card (?key ` set (episode_routes videos keys e)) = length (episode_routes videos keys e)"
    by (simp add: card_image distinct_card)
  have sub: "?key ` set (episode_routes videos keys e) \<subseteq> set keys" by (auto simp: episode_routes_def)
  have "length (episode_routes videos keys e) = length keys \<longleftrightarrow> ?key ` set (episode_routes videos keys e) = set keys"
    using card distinct_card [OF keys] card_subset_eq [OF finite_set sub] by auto
  also have "\<dots> \<longleftrightarrow> (\<forall>key \<in> set keys. FindRoute videos e key \<noteq> None)"
  proof -
    have "key \<in> ?key ` set (episode_routes videos keys e) \<longleftrightarrow> FindRoute videos e key \<noteq> None" if "key \<in> set keys" for key
      using that by (auto simp: episode_routes_def FindRoute_iff [OF inv] not_None_eq)
    then show ?thesis using sub by blast
  qed
  finally show ?thesis .
qed

lemma routes_of_episodes:
  assumes "distinct es"
  shows "filter (\<lambda>r. vr_episode_index r = e) (concat (map (episode_routes videos keys) es)) =
    (if e \<in> set es then episode_routes videos keys e else [])"
  using assms
proof (induction es)
  case (Cons e' es)
  have "filter (\<lambda>r. vr_episode_index r = e) (episode_routes videos keys e') = (if e = e' then episode_routes videos keys e' else [])"
    by (cases "e = e'") (auto simp: episode_routes_def filter_empty_conv intro!: filter_cong)
  with Cons show ?case by auto
qed simp

lemma lengths_agree_parts:
  assumes "distinct es"
  shows "lengths_agree (concat (map (episode_routes videos keys) es)) \<longleftrightarrow>
    (\<forall>e \<in> set es. lengths_agree (episode_routes videos keys e))"
  by (auto simp: lengths_agree_def episode_routes_def)

lemma resolve_windows_unfold:
  assumes "video_routes_inv videos" "set keys \<subseteq> set (vm_keys videos)"
  defines "es \<equiv> \<lambda>requests. sort_unique (map wr_episode requests)"
  defines "routes \<equiv> \<lambda>requests. concat (map (episode_routes videos keys) (es requests))"
  shows "resolve_windows videos keys deltas requests = Inr (rs, lengths) \<longleftrightarrow>
    \<not> (deltas \<noteq> [] \<and> length requests > LEROBOT_MAX_WINDOW_TARGETS div length deltas) \<and> rs = routes requests \<and>
    check_window_routes keys requests (es requests) (routes requests) = Inr lengths"
proof -
  have "ResolveRoutes videos (sort_unique (map wr_episode requests)) keys = Inr (routes requests)"
    by (simp add: ResolveRoutes_spec [OF assms(1,2)] es_def routes_def episode_routes_def [abs_def])
  then show ?thesis by (auto simp: resolve_windows_def Let_def es_def)
qed

lemma window_limit: "\<not> (deltas \<noteq> [] \<and> n > LEROBOT_MAX_WINDOW_TARGETS div length deltas) \<longleftrightarrow> n * length deltas \<le> 100000"
  by (cases "deltas = []") (simp_all add: LEROBOT_MAX_WINDOW_TARGETS_def not_less less_eq_div_iff_mult_less_eq)

text \<open>The length of a route of a requested episode is the one that the checks compare with.\<close>

lemma window_length:
  assumes inv: "video_routes_inv videos"
    and lengths: "foldE add_route_length (concat (map (episode_routes videos keys) es)) Map.empty = Inr lengths"
    and route: "FindRoute videos e key = Some route" "key \<in> set keys" "e \<in> set es"
  shows "lengths e = Some (vr_episode_length route)"
proof -
  have "route \<in> set (concat (map (episode_routes videos keys) es))" "vr_episode_index route = e"
    using route by (auto simp: episode_routes_def FindRoute_iff [OF inv])
  with route_lengths [OF lengths] show ?thesis by metis
qed

lemma window_frames_checked:
  assumes inv: "video_routes_inv videos" and keys: "keys \<noteq> []" "distinct keys" and es: "distinct es" "set es = wr_episode ` set requests"
  defines "routes \<equiv> concat (map (episode_routes videos keys) es)"
  shows "check_window_routes keys requests es routes = Inr lengths \<longleftrightarrow>
    foldE add_route_length routes Map.empty = Inr lengths \<and>
    (\<forall>q \<in> set requests. \<forall>key \<in> set keys. \<exists>route.
       FindRoute videos (wr_episode q) key = Some route \<and> wr_frame q < vr_episode_length route)" (is "_ \<longleftrightarrow> _ \<and> ?inside")
proof -
  have "episode_route_count routes e = length keys \<longleftrightarrow> (\<forall>key \<in> set keys. FindRoute videos e key \<noteq> None)" if "e \<in> set es" for e
    using routes_of_episodes [OF es(1), of e videos keys] that episode_routes_count [OF inv keys(2)]
    by (simp add: episode_route_count_def routes_def)
  then have "check_window_routes keys requests es routes = Inr lengths \<longleftrightarrow>
      foldE add_route_length routes Map.empty = Inr lengths \<and> (\<forall>e \<in> set es. \<forall>key \<in> set keys. FindRoute videos e key \<noteq> None) \<and>
      (\<forall>q \<in> set requests. wr_frame q < (case lengths (wr_episode q) of None \<Rightarrow> 0 | Some n \<Rightarrow> n))"
    using keys(1) by (auto simp: check_window_routes_def list_all_iff not_le require_def split: if_splits)
  moreover have "(\<forall>e \<in> set es. \<forall>key \<in> set keys. FindRoute videos e key \<noteq> None) \<and>
      (\<forall>q \<in> set requests. wr_frame q < (case lengths (wr_episode q) of None \<Rightarrow> 0 | Some n \<Rightarrow> n)) \<longleftrightarrow> ?inside"
    if "foldE add_route_length routes Map.empty = Inr lengths"
  proof -
    have len: "lengths (wr_episode q) = Some (vr_episode_length route)"
      if "q \<in> set requests" "key \<in> set keys" "FindRoute videos (wr_episode q) key = Some route" for q key route
      using window_length [OF inv \<open>foldE _ _ _ = _\<close> [unfolded routes_def] that(3,2)] that(1) es(2) by blast
    have "hd keys \<in> set keys" using keys(1) by simp
    then show ?thesis unfolding es(2) using len by (fastforce simp: not_None_eq)
  qed
  ultimately show ?thesis by blast
qed

lemma resolve_windows_iff:
  assumes inv: "video_routes_inv videos" and keys: "set keys \<subseteq> set (vm_keys videos)" "keys \<noteq> []" "distinct keys"
  shows "(\<exists>r. resolve_windows videos keys deltas requests = Inr r) \<longleftrightarrow>
    length requests * length deltas \<le> 100000 \<and>
    (\<forall>q \<in> set requests. lengths_agree (episode_routes videos keys (wr_episode q))) \<and>
    (\<forall>q \<in> set requests. \<forall>key \<in> set keys. \<exists>route.
       FindRoute videos (wr_episode q) key = Some route \<and> wr_frame q < vr_episode_length route)"
proof -
  define es where "es = sort_unique (map wr_episode requests)"
  define routes where "routes = concat (map (episode_routes videos keys) es)"
  have es: "distinct es" "set es = wr_episode ` set requests" by (simp_all add: es_def)
  have "(\<exists>r. resolve_windows videos keys deltas requests = Inr r) \<longleftrightarrow> length requests * length deltas \<le> 100000 \<and>
      (\<exists>lengths. check_window_routes keys requests es routes = Inr lengths)"
    using resolve_windows_unfold [OF inv keys(1), of deltas requests] window_limit [of deltas "length requests"]
    by (auto simp: es_def routes_def)
  moreover have "(\<exists>lengths. foldE add_route_length routes Map.empty = Inr lengths) \<longleftrightarrow>
      (\<forall>q \<in> set requests. lengths_agree (episode_routes videos keys (wr_episode q)))"
    unfolding route_lengths_iff using lengths_agree_parts [OF es(1), of videos keys] es(2) by (simp add: routes_def)
  ultimately show ?thesis using window_frames_checked [OF inv keys(2,3) es] by (simp add: routes_def)
qed

text \<open>
  C21. The binding of windows rejects exactly what cannot be served: it accepts requests if and only if they expand to at
  most 100000 targets, the requested routes of an episode agree on its length, and for every request each requested video
  has a route of the episode with the frame inside it.
\<close>

theorem window_requests_checked:
  assumes "video_routes_inv videos" "set keys \<subseteq> set (vm_keys videos)" "keys \<noteq> []" "distinct keys"
  shows "(\<exists>r. resolve_windows videos keys deltas requests = Inr r) \<longleftrightarrow>
    length requests * length deltas \<le> 100000 \<and>
    (\<forall>q \<in> set requests. lengths_agree (episode_routes videos keys (wr_episode q))) \<and>
    (\<forall>q \<in> set requests. \<forall>key \<in> set keys. \<exists>route.
       FindRoute videos (wr_episode q) key = Some route \<and> wr_frame q < vr_episode_length route)"
  by (rule resolve_windows_iff [OF assms])

section \<open>From windows to targets\<close>

text \<open>
  What DuckDB answers for a value of the \<open>VALUES\<close> of a window query over the rows of its data file: the left join
  gives a row for each match, or one without a match, and the window function counts the matches.
\<close>

definition window_source_row :: "window_value \<Rightarrow> fp option \<Rightarrow> nat \<Rightarrow> source_row" where
  "window_source_row v timestamp matches =
     (let q = wv_request v
      in \<lparr>sr_request_id = Some (wr_request_id q), sr_request_ordinal = Some (int (wr_ordinal q)),
          sr_delta_ordinal = Some (int (wv_delta_ordinal v)), sr_delta_timestamp = Some (delta_timestamp (wv_delta v)),
          sr_delta_frame_offset = Some (frame_offset (wv_delta v)), sr_is_padding = Some (wv_is_padding v),
          sr_episode_index = Some (wr_episode q), sr_frame_index = Some (wr_frame q),
          sr_target_frame_index = Some (wv_target_frame v), sr_timestamp = timestamp, sr_match_count = Some (int matches)\<rparr>)"

definition window_matches :: "index_row list \<Rightarrow> window_value \<Rightarrow> index_row list" where
  "window_matches rows v = filter (\<lambda>r. Key r = (wr_episode (wv_request v), wv_target_frame v)) rows"

definition window_answer :: "index_row list \<Rightarrow> window_value \<Rightarrow> source_row list" where
  "window_answer rows v =
     (let found = window_matches rows v
      in if found = [] then [window_source_row v None 0]
         else map (\<lambda>r. window_source_row v (if ir_has_timestamp r then Some (ir_timestamp r) else None) (length found)) found)"

text \<open>The targets that a value asks for, given the only row that it matches.\<close>

definition window_served :: "producer_config \<Rightarrow> index_row list \<Rightarrow> window_value \<Rightarrow> decode_target list \<Rightarrow> bool" where
  "window_served c rows v targets \<longleftrightarrow> (\<exists>r. window_matches rows v = [r] \<and> ir_has_timestamp r \<and>
     map dt_route_index targets = routes_by_episode c (wr_episode (wv_request v)) \<and>
     (\<forall>t \<in> set targets. dt_request_id t = wr_request_id (wv_request v) \<and> dt_request_ordinal t = wr_ordinal (wv_request v) \<and>
        dt_delta_ordinal t = wv_delta_ordinal v \<and> dt_episode_index t = wr_episode (wv_request v) \<and>
        dt_frame_index t = wr_frame (wv_request v) \<and> dt_target_frame_index t = wv_target_frame v \<and>
        dt_is_padding t = wv_is_padding v \<and> dt_frame_timestamp t = ir_timestamp r \<and>
        dt_video_timestamp t = dadd (vr_from (pc_routes c ! dt_route_index t)) (ir_timestamp r)))"

lemma window_target_Inr:
  assumes "window_target (window_source_row v timestamp n) = Inr t"
  obtains time where "n = 1" "timestamp = Some time" "dt_request_id t = wr_request_id (wv_request v)"
    "dt_request_ordinal t = wr_ordinal (wv_request v)" "dt_delta_ordinal t = wv_delta_ordinal v"
    "dt_episode_index t = wr_episode (wv_request v)" "dt_frame_index t = wr_frame (wv_request v)"
    "dt_target_frame_index t = wv_target_frame v" "dt_is_padding t = wv_is_padding v" "dt_frame_timestamp t = time"
  using assms
  by (auto simp: window_target_def window_source_row_def Let_def invalid_row_def split: if_splits option.splits)

lemma route_targets_Inr:
  assumes "mapE (route_target c t) indices = Inr targets"
  shows "map dt_route_index targets = indices \<and>
    (\<forall>u \<in> set targets. dt_video_timestamp u = dadd (vr_from (pc_routes c ! dt_route_index u)) (dt_frame_timestamp t) \<and>
       (\<exists>i v. u = t\<lparr>dt_video_timestamp := v, dt_route_index := i\<rparr>))"
  using assms
proof (induction indices arbitrary: targets)
  case (Cons i indices)
  then obtain u us where u: "route_target c t i = Inr u" "mapE (route_target c t) indices = Inr us" "targets = u # us"
    by (auto split: sum.splits)
  from u(1) have "u = t\<lparr>dt_video_timestamp := dadd (vr_from (pc_routes c ! i)) (dt_frame_timestamp t), dt_route_index := i\<rparr>"
    by (auto simp: route_target_def Let_def invalid_row_def split: if_splits)
  then show ?case using Cons.IH [OF u(2)] u(3) by auto
qed simp

lemma window_row_served:
  assumes "pc_window_mode c" "row \<in> set (window_answer rows v)" "BuildTargets c row = Inr targets"
  shows "window_answer rows v = [row] \<and> window_served c rows v targets"
proof -
  from assms(2) obtain timestamp n where row: "row = window_source_row v timestamp n"
    and from_match: "if window_matches rows v = [] then n = 0
      else \<exists>r \<in> set (window_matches rows v). n = length (window_matches rows v) \<and>
        timestamp = (if ir_has_timestamp r then Some (ir_timestamp r) else None)"
    by (auto simp: window_answer_def Let_def split: if_splits)
  from assms(1,3) obtain t where t: "window_target row = Inr t"
    "mapE (route_target c t) (routes_by_episode c (dt_episode_index t)) = Inr targets"
    by (auto simp: BuildTargets_def invalid_row_def split: if_splits)
  from t(1) [unfolded row] obtain time where time: "n = 1" "timestamp = Some time" and
    f: "dt_request_id t = wr_request_id (wv_request v)" "dt_request_ordinal t = wr_ordinal (wv_request v)"
    "dt_delta_ordinal t = wv_delta_ordinal v" "dt_episode_index t = wr_episode (wv_request v)"
    "dt_frame_index t = wr_frame (wv_request v)" "dt_target_frame_index t = wv_target_frame v"
    "dt_is_padding t = wv_is_padding v" "dt_frame_timestamp t = time" by (rule window_target_Inr)
  then obtain r where r: "window_matches rows v = [r]" "ir_has_timestamp r" "time = ir_timestamp r"
    using from_match by (cases "window_matches rows v") (auto split: if_splits)
  have "window_answer rows v = [row]" using r time by (simp add: window_answer_def row)
  moreover have "window_served c rows v targets"
    using route_targets_Inr [OF t(2)] r f unfolding window_served_def by force
  ultimately show ?thesis by blast
qed

lemma windows_served:
  assumes "pc_window_mode c" "mapE (BuildTargets c) (concat (map (window_answer rows) vs)) = Inr tss"
  shows "list_all2 (window_served c rows) vs tss"
  using assms(2)
proof (induction vs arbitrary: tss)
  case (Cons v vs)
  have "window_answer rows v \<noteq> []" by (simp add: window_answer_def Let_def)
  then obtain row more where answer: "window_answer rows v = row # more" by (cases "window_answer rows v") auto
  with Cons.prems obtain targets where "BuildTargets c row = Inr targets" by (auto split: sum.splits)
  from window_row_served [OF assms(1) _ this, of rows v] answer have "more = []" "window_served c rows v targets" by auto
  with Cons answer \<open>BuildTargets c row = Inr targets\<close> show ?case by (auto split: sum.splits)
qed simp

lemma GetVideoWindowRequests_frames:
  assumes "GetVideoWindowRequests value = Inr requests" "q \<in> set requests"
  shows "0 \<le> wr_frame q" "0 \<le> wr_episode q"
proof -
  from assms(1) obtain children where "mapE (\<lambda>(ordinal, request). window_request_of ordinal request) (zip [0 ..< length children] children) =
      Inr requests" by (auto simp: GetVideoWindowRequests_def split: sqlvalue.splits)
  from mapE_set [OF this assms(2)] obtain ordinal request where "window_request_of ordinal request = Inr q" by auto
  then show "0 \<le> wr_frame q" "0 \<le> wr_episode q"
    by (auto simp: window_request_of_def require_def split: sqlvalue.splits list.splits if_splits)
qed

lemma resolved_lengths:
  assumes "resolve_windows videos keys deltas requests = Inr (routes, lengths)" "keys \<noteq> []" "q \<in> set requests" "0 \<le> wr_frame q"
  obtains n where "lengths (wr_episode q) = Some n" "wr_frame q < n"
    "\<And>route. route \<in> set routes \<Longrightarrow> vr_episode_index route = wr_episode q \<Longrightarrow> vr_episode_length route = n"
proof -
  from assms(1) have "check_window_routes keys requests (sort_unique (map wr_episode requests)) routes = Inr lengths"
    by (auto simp: resolve_windows_def Let_def require_def split: if_splits)
  then have l: "foldE add_route_length routes Map.empty = Inr lengths"
    "\<forall>q \<in> set requests. wr_frame q < (case lengths (wr_episode q) of None \<Rightarrow> 0 | Some n \<Rightarrow> n)"
    using assms(2) by (auto simp: check_window_routes_def list_all_iff not_le require_def split: if_splits)
  then obtain n where n: "lengths (wr_episode q) = Some n" "wr_frame q < n"
    using assms(3,4) by (cases "lengths (wr_episode q)") fastforce+
  have "vr_episode_length route = n" if "route \<in> set routes" "vr_episode_index route = wr_episode q" for route
    using route_lengths [OF l(1)] that n(1) by (metis option.inject)
  then show thesis by (rule that [OF n])
qed

lemma window_values_product:
  "window_values requests deltas lengths =
     map (\<lambda>(q, k). window_value_of lengths q (k, deltas ! k)) (List.product requests [0 ..< length deltas])"
proof -
  have "zip [0 ..< length deltas] deltas = map (\<lambda>k. (k, deltas ! k)) [0 ..< length deltas]"
    by (rule nth_equalityI) auto
  then show ?thesis by (induction requests) (simp_all add: window_values_def comp_def)
qed

text \<open>What the delta \<open>k\<close> of a request asks for in an episode of \<open>n\<close> frames.\<close>

definition window_value_ok :: "window_request \<Rightarrow> nat \<Rightarrow> temporal_delta \<Rightarrow> int \<Rightarrow> window_value \<Rightarrow> bool" where
  "window_value_ok q k delta n v \<longleftrightarrow> wv_request v = q \<and> wv_delta_ordinal v = k \<and> wv_delta v = delta \<and>
     wv_target_frame v = max 0 (min (n - 1) (wr_frame q + frame_offset delta)) \<and>
     (wv_is_padding v \<longleftrightarrow> \<not> (0 \<le> wr_frame q + frame_offset delta \<and> wr_frame q + frame_offset delta < n))"

lemma window_value_of_ok:
  assumes "lengths (wr_episode q) = Some n" "0 \<le> wr_frame q" "wr_frame q < n"
  shows "window_value_ok q k delta n (window_value_of lengths q (k, delta))"
  using clamp_target_spec [OF assms(2,3)] assms(1) by (simp add: window_value_of_def window_value_ok_def)

text \<open>
  C20. Every request and delta of a data file gives, in order, exactly the targets it asks for: the frame clamped to the
  length on which the routes of the episode agree, the timestamp of the only row of the file with that frame, and one
  target for each requested video of the episode; a frame without a row or with several is an error.
\<close>

theorem window_targets_exact:
  assumes "GetVideoWindowRequests value = Inr requests" "resolve_windows videos keys deltas requests = Inr (routes, lengths)"
    and "keys \<noteq> []" "(file, part) \<in> set (GroupWindowRequestsByDataFile dataset requests)" "pc_window_mode c"
    and "mapE (BuildTargets c) (concat (map (window_answer rows) (window_values part deltas lengths))) = Inr tss"
  shows "list_all2 (\<lambda>(q, k) targets. \<exists>n v.
      (\<forall>route \<in> set routes. vr_episode_index route = wr_episode q \<longrightarrow> vr_episode_length route = n) \<and>
      window_value_ok q k (deltas ! k) n v \<and> window_served c rows v targets)
    (List.product part [0 ..< length deltas]) tss"
proof -
  have part: "set part \<subseteq> set requests" using assms(4) by (auto simp: GroupWindowRequestsByDataFile_def group_by_file_def Let_def)
  have "\<exists>n. (\<forall>route \<in> set routes. vr_episode_index route = wr_episode q \<longrightarrow> vr_episode_length route = n) \<and>
      window_value_ok q k (deltas ! k) n (window_value_of lengths q (k, deltas ! k))" if "q \<in> set part" for q k
  proof -
    have q: "q \<in> set requests" "0 \<le> wr_frame q" using that part GetVideoWindowRequests_frames [OF assms(1)] by auto
    show ?thesis by (rule resolved_lengths [OF assms(2,3) q]) (use q(2) window_value_of_ok in blast)
  qed
  moreover have "list_all2 (\<lambda>(q, k). window_served c rows (window_value_of lengths q (k, deltas ! k)))
      (List.product part [0 ..< length deltas]) tss"
    using windows_served [OF assms(5,6)] by (simp add: window_values_product list_all2_map1 case_prod_unfold)
  ultimately show ?thesis
    by (elim list.rel_mono_strong) (auto, blast)
qed

text \<open>Two requests for episode 0, and a data file with two of its rows.\<close>

lemma example_videos_inv: "video_routes_inv example_videos" by code_simp

lemma example_keys: "set [''cam.a'', ''cam.b''] \<subseteq> set (vm_keys example_videos)" "distinct [''cam.a'', ''cam.b'']"
  by code_simp+

definition demo_requests :: sqlvalue where
  "demo_requests = VList [VList [VInt 7, VInt 0, VInt 1], VList [VInt 8, VInt 0, VInt 2]]"

definition demo_deltas :: "temporal_delta list" where
  "demo_deltas = [\<lparr>delta_timestamp = Fin 0, frame_offset = 0\<rparr>, \<lparr>delta_timestamp = Fin 1, frame_offset = 30\<rparr>]"

definition demo_rows :: "index_row list" where
  "demo_rows = [index_row_of 0 1 (Some (Fin (1 / 4))), index_row_of 0 2 (Some (Fin (1 / 2)))]"

definition demo_parsed :: "window_request list" where
  "demo_parsed = [\<lparr>wr_request_id = 7, wr_ordinal = 0, wr_episode = 0, wr_frame = 1\<rparr>,
     \<lparr>wr_request_id = 8, wr_ordinal = 1, wr_episode = 0, wr_frame = 2\<rparr>]"

definition demo_window_config :: "video_route list \<Rightarrow> producer_config" where
  "demo_window_config routes = \<lparr>pc_metadata = example_videos, pc_routes = routes, pc_frame_queries = [], pc_window_mode = True,
     pc_tolerance = Fin 1, pc_cluster_gap = Fin 1, pc_target_buffer_size = 1, pc_max_pending_targets = 1\<rparr>"

lemma demo_requests_parsed: "GetVideoWindowRequests demo_requests = Inr demo_parsed" by code_simp

lemma demo_resolved:
  "(case resolve_windows example_videos [''cam.a'', ''cam.b''] demo_deltas demo_parsed of
      Inl e \<Rightarrow> False
    | Inr (routes, lengths) \<Rightarrow> length routes = 2 \<and>
        (case mapE (BuildTargets (demo_window_config routes)) (concat (map (window_answer demo_rows)
             (window_values demo_parsed demo_deltas lengths))) of Inl e \<Rightarrow> False | Inr tss \<Rightarrow> map length tss = [2, 2, 2, 2]))"
  by code_simp

lemma demo_group: "(1, demo_parsed) \<in> set (GroupWindowRequestsByDataFile example_metadata demo_parsed)"
  by code_simp

lemma Inr_caseD: "(case x of Inl e \<Rightarrow> False | Inr y \<Rightarrow> P y) \<Longrightarrow> \<exists>y. x = Inr y \<and> P y"
  by (cases x) simp_all

lemma demo_window_run:
  obtains routes lengths tss where
    "resolve_windows example_videos [''cam.a'', ''cam.b''] demo_deltas demo_parsed = Inr (routes, lengths)"
    "mapE (BuildTargets (demo_window_config routes)) (concat (map (window_answer demo_rows) (window_values demo_parsed demo_deltas lengths))) = Inr tss"
    "map length tss = [2, 2, 2, 2]"
proof -
  from Inr_caseD [OF demo_resolved] obtain routes lengths where r:
    "resolve_windows example_videos [''cam.a'', ''cam.b''] demo_deltas demo_parsed = Inr (routes, lengths)"
    "case mapE (BuildTargets (demo_window_config routes)) (concat (map (window_answer demo_rows)
       (window_values demo_parsed demo_deltas lengths))) of Inl e \<Rightarrow> False | Inr tss \<Rightarrow> map length tss = [2, 2, 2, 2]"
    unfolding case_prod_beta by (metis prod.collapse)
  from Inr_caseD [OF r(2)] r(1) show thesis by (elim exE conjE) (rule that)
qed

theorem window_requests_checked_witness:
  "\<exists>q route. q \<in> set demo_parsed \<and> wr_frame q = 2 \<and>
     FindRoute example_videos (wr_episode q) ''cam.b'' = Some route \<and> wr_frame q < vr_episode_length route"
proof -
  have "\<exists>r. resolve_windows example_videos [''cam.a'', ''cam.b''] demo_deltas demo_parsed = Inr r"
    using demo_window_run by metis
  moreover have "[''cam.a'', ''cam.b''] \<noteq> []" "''cam.b'' \<in> set [''cam.a'', ''cam.b'']" by simp_all
  ultimately have "\<exists>route. FindRoute example_videos (wr_episode q) ''cam.b'' = Some route \<and> wr_frame q < vr_episode_length route"
    if "q \<in> set demo_parsed" for q
    using that window_requests_checked [OF example_videos_inv example_keys(1) _ example_keys(2), of demo_deltas demo_parsed] by blast
  moreover have "\<exists>q \<in> set demo_parsed. wr_frame q = 2" by (simp add: demo_parsed_def)
  ultimately show ?thesis by blast
qed

theorem window_targets_exact_witness:
  "\<exists>routes tss. length tss = 4 \<and> list_all2 (\<lambda>(q, k) targets. \<exists>n v.
      (\<forall>route \<in> set routes. vr_episode_index route = wr_episode q \<longrightarrow> vr_episode_length route = n) \<and>
      window_value_ok q k (demo_deltas ! k) n v \<and> window_served (demo_window_config routes) demo_rows v targets)
    (List.product demo_parsed [0 ..< length demo_deltas]) tss"
proof -
  obtain routes lengths tss where r: "resolve_windows example_videos [''cam.a'', ''cam.b''] demo_deltas demo_parsed = Inr (routes, lengths)"
    "mapE (BuildTargets (demo_window_config routes)) (concat (map (window_answer demo_rows) (window_values demo_parsed demo_deltas lengths))) = Inr tss"
    "map length tss = [2, 2, 2, 2]" by (rule demo_window_run)
  have "length tss = 4" using arg_cong [OF r(3), of length] by simp
  moreover have "pc_window_mode (demo_window_config routes)" by (simp add: demo_window_config_def)
  note window_targets_exact [OF demo_requests_parsed r(1) _ demo_group this r(2)]
  ultimately show ?thesis by (intro exI [of _ routes] exI [of _ tss]) simp
qed

end
