(* ===== verification/DecoderCache.thy ===== *)
theory DecoderCache
  imports Machine "HOL-Library.Multiset"
begin

text \<open>
  \<open>LerobotDecoderCache\<close> of \<open>src/function/video/lerobot_video_frames.cpp\<close>: the open decoders that no thread uses, by
  video file and in the order of their last use, and the threads that share them.
\<close>

section \<open>The cache\<close>

text \<open>\<open>idle\<close> gives the deque of a file, empty if the hash table has no entry.\<close>

record 'd decoder_cache =
  open_count :: nat
  idle_lru :: "nat list"
  idle :: "nat \<Rightarrow> 'd list"

definition new_decoder_cache :: "'d decoder_cache" where
  "new_decoder_cache = \<lparr>open_count = 0, idle_lru = [], idle = (\<lambda>shard. [])\<rparr>"

text \<open>
  What \<open>Acquire\<close> leaves its critical section with: a decoder, the right to open one (after closing another), or
  nothing, when it waits for \<open>state_changed\<close>.
\<close>

datatype 'd acquired = Reuse 'd | OpenNew | OpenEvicting 'd | WaitForDecoder

definition Acquire :: "nat \<Rightarrow> nat \<Rightarrow> 'd decoder_cache \<Rightarrow> 'd acquired \<times> 'd decoder_cache" where
  "Acquire max_cached_decoders shard c =
     (if idle c shard \<noteq> []
      then (Reuse (last (idle c shard)),
            c\<lparr>idle := (idle c)(shard := butlast (idle c shard)), idle_lru := remove1 shard (idle_lru c)\<rparr>)
      else if open_count c < max_cached_decoders then (OpenNew, c\<lparr>open_count := open_count c + 1\<rparr>)
      else if idle_lru c = [] then (WaitForDecoder, c)
      else
        let stale = last (idle_lru c)
        in (OpenEvicting (hd (idle c stale)),
            c\<lparr>idle_lru := butlast (idle_lru c), idle := (idle c)(stale := tl (idle c stale))\<rparr>))"

text \<open>The handler of an opening that throws.\<close>

definition OpenFailed :: "'d decoder_cache \<Rightarrow> 'd decoder_cache" where
  "OpenFailed c = c\<lparr>open_count := open_count c - 1\<rparr>"

definition Release :: "nat \<Rightarrow> 'd \<Rightarrow> 'd decoder_cache \<Rightarrow> 'd decoder_cache" where
  "Release shard d c = c\<lparr>idle_lru := shard # idle_lru c, idle := (idle c)(shard := idle c shard @ [d])\<rparr>"

definition Discard :: "'d decoder_cache \<Rightarrow> 'd decoder_cache" where
  "Discard c = c\<lparr>open_count := open_count c - 1\<rparr>"

section \<open>A list of decoders by recency\<close>

text \<open>The cache stands for one list of files and decoders, the decoder used last in front.\<close>

definition by_recency :: "'d decoder_cache \<Rightarrow> (nat \<times> 'd) list \<Rightarrow> bool" where
  "by_recency c ds \<longleftrightarrow> idle_lru c = map fst ds \<and>
     (\<forall>shard. idle c shard = rev (map snd (filter (\<lambda>p. fst p = shard) ds)))"

lemma new_by_recency: "by_recency new_decoder_cache []"
  by (simp add: by_recency_def new_decoder_cache_def)

lemma Release_by_recency: "by_recency c ds \<Longrightarrow> by_recency (Release shard d c) ((shard, d) # ds)"
  by (auto simp: by_recency_def Release_def)

lemma find_split:
  "find P xs = Some x \<Longrightarrow> \<exists>us vs. xs = us @ x # vs \<and> P x \<and> (\<forall>u \<in> set us. \<not> P u)"
proof (induction xs)
  case (Cons y ys)
  show ?case
  proof (cases "P y")
    case True
    with Cons.prems show ?thesis by (intro exI [of _ "[]"] exI [of _ ys]) simp
  next
    case False
    with Cons obtain us vs where "ys = us @ x # vs" "P x" "\<forall>u \<in> set us. \<not> P u" by auto
    with False show ?thesis by (intro exI [of _ "y # us"] exI [of _ vs]) simp
  qed
qed simp

lemma remove1_first: "x \<notin> set us \<Longrightarrow> remove1 x (us @ x # vs) = us @ vs"
  by (induction us) auto

lemma Acquire_reuse:
  assumes "by_recency c ds" "find (\<lambda>p. fst p = shard) ds = Some p"
  shows "fst (Acquire n shard c) = Reuse (snd p)" "by_recency (snd (Acquire n shard c)) (remove1 p ds)"
    "open_count (snd (Acquire n shard c)) = open_count c"
proof -
  from find_split [OF assms(2)] obtain us vs where ds: "ds = us @ p # vs" "fst p = shard" "\<forall>u \<in> set us. fst u \<noteq> shard" by blast
  have idle: "idle c shard = rev (map snd (filter (\<lambda>p. fst p = shard) vs)) @ [snd p]"
    using assms(1) ds by (simp add: by_recency_def)
  have rest: "remove1 p ds = us @ vs" using ds by (auto simp: remove1_first)
  have "shard \<notin> set (map fst us)" using ds(3) by auto
  from remove1_first [OF this, of "map fst vs"] have lru: "remove1 shard (idle_lru c) = map fst us @ map fst vs"
    using assms(1) ds(1,2) by (simp add: by_recency_def)
  show "fst (Acquire n shard c) = Reuse (snd p)" "open_count (snd (Acquire n shard c)) = open_count c"
    by (simp_all add: Acquire_def idle)
  have "snd (Acquire n shard c) = c\<lparr>idle := (idle c)(shard := rev (map snd (filter (\<lambda>p. fst p = shard) vs))),
      idle_lru := map fst us @ map fst vs\<rparr>"
    by (simp add: Acquire_def idle lru)
  then show "by_recency (snd (Acquire n shard c)) (remove1 p ds)"
    unfolding rest using assms(1) ds by (auto simp: by_recency_def)
qed

lemma Acquire_evict:
  assumes "by_recency c ds" "find (\<lambda>p. fst p = shard) ds = None" "\<not> open_count c < n" "ds \<noteq> []"
  shows "fst (Acquire n shard c) = OpenEvicting (snd (last ds))" "by_recency (snd (Acquire n shard c)) (butlast ds)"
    "open_count (snd (Acquire n shard c)) = open_count c"
proof -
  obtain us p where ds: "ds = us @ [p]" using assms(4) by (metis append_butlast_last_id)
  have none: "idle c shard = []" using assms(1,2) by (auto simp: by_recency_def find_None_iff filter_empty_conv)
  have lru: "idle_lru c = map fst us @ [fst p]" using assms(1) ds by (simp add: by_recency_def)
  have idle: "idle c (fst p) = snd p # rev (map snd (filter (\<lambda>q. fst q = fst p) us))"
    using assms(1) ds by (simp add: by_recency_def)
  have "Acquire n shard c = (OpenEvicting (snd p),
      c\<lparr>idle_lru := map fst us, idle := (idle c)(fst p := rev (map snd (filter (\<lambda>q. fst q = fst p) us)))\<rparr>)"
    using assms(3) by (simp add: Acquire_def none lru idle Let_def)
  then show "fst (Acquire n shard c) = OpenEvicting (snd (last ds))" "by_recency (snd (Acquire n shard c)) (butlast ds)"
    "open_count (snd (Acquire n shard c)) = open_count c"
    using assms(1) ds by (auto simp: by_recency_def)
qed

lemma Acquire_missing:
  assumes "by_recency c ds" "find (\<lambda>p. fst p = shard) ds = None"
  shows "open_count c < n \<Longrightarrow> Acquire n shard c = (OpenNew, c\<lparr>open_count := open_count c + 1\<rparr>)"
    "\<not> open_count c < n \<Longrightarrow> ds = [] \<Longrightarrow> Acquire n shard c = (WaitForDecoder, c)"
proof -
  have "idle c shard = []" using assms by (auto simp: by_recency_def find_None_iff filter_empty_conv)
  then show "open_count c < n \<Longrightarrow> Acquire n shard c = (OpenNew, c\<lparr>open_count := open_count c + 1\<rparr>)"
    "\<not> open_count c < n \<Longrightarrow> ds = [] \<Longrightarrow> Acquire n shard c = (WaitForDecoder, c)"
    using assms(1) by (auto simp: Acquire_def by_recency_def)
qed

section \<open>Threads\<close>

text \<open>
  A thread asks for a decoder of a file, opens one when it may, uses it and gives it back or discards it. A decoder is
  its number (a ghost, new for every opening) and the file it was opened for.
\<close>

type_synonym decoder = "nat \<times> nat"

datatype decoding = Free | Acquiring nat | Opening nat | Using nat decoder

record decoder_system =
  cache :: "decoder decoder_cache"
  decoding_of :: "nat \<Rightarrow> decoding"
  opened :: nat

definition new_decoder_system :: decoder_system where
  "new_decoder_system = \<lparr>cache = new_decoder_cache, decoding_of = (\<lambda>t. Free), opened = 0\<rparr>"

definition set_thread :: "nat \<Rightarrow> decoding \<Rightarrow> decoder_system \<Rightarrow> decoder_system" where
  "set_thread t p S = S\<lparr>decoding_of := (decoding_of S)(t := p)\<rparr>"

inductive decoder_step :: "nat \<Rightarrow> nat \<Rightarrow> decoder_system \<Rightarrow> decoder_system \<Rightarrow> bool" for threads n where
  request: "t < threads \<Longrightarrow> decoding_of S t = Free \<Longrightarrow> decoder_step threads n S (set_thread t (Acquiring shard) S)"
| reuse: "t < threads \<Longrightarrow> decoding_of S t = Acquiring shard \<Longrightarrow> Acquire n shard (cache S) = (Reuse d, c) \<Longrightarrow>
    decoder_step threads n S (set_thread t (Using shard d) (S\<lparr>cache := c\<rparr>))"
| start_open: "t < threads \<Longrightarrow> decoding_of S t = Acquiring shard \<Longrightarrow> Acquire n shard (cache S) = (a, c) \<Longrightarrow>
    a = OpenNew \<or> (\<exists>stale. a = OpenEvicting stale) \<Longrightarrow>
    decoder_step threads n S (set_thread t (Opening shard) (S\<lparr>cache := c\<rparr>))"
| open_done: "t < threads \<Longrightarrow> decoding_of S t = Opening shard \<Longrightarrow>
    decoder_step threads n S (set_thread t (Using shard (opened S, shard)) (S\<lparr>opened := opened S + 1\<rparr>))"
| open_failed: "t < threads \<Longrightarrow> decoding_of S t = Opening shard \<Longrightarrow>
    decoder_step threads n S (set_thread t Free (S\<lparr>cache := OpenFailed (cache S)\<rparr>))"
| release: "t < threads \<Longrightarrow> decoding_of S t = Using shard d \<Longrightarrow>
    decoder_step threads n S (set_thread t Free (S\<lparr>cache := Release shard d (cache S)\<rparr>))"
| discard: "t < threads \<Longrightarrow> decoding_of S t = Using shard d \<Longrightarrow>
    decoder_step threads n S (set_thread t Free (S\<lparr>cache := Discard (cache S)\<rparr>))"

inductive_cases decoder_stepE: "decoder_step threads n S T"

section \<open>The invariant\<close>

fun in_use :: "decoding \<Rightarrow> (nat \<times> decoder) multiset" where
  "in_use (Using shard d) = {#(shard, d)#}"
| "in_use p = {#}"

fun takes :: "decoding \<Rightarrow> nat" where
  "takes (Using shard d) = 1"
| "takes (Opening shard) = 1"
| "takes p = 0"

definition decoders_in_use :: "nat \<Rightarrow> decoder_system \<Rightarrow> (nat \<times> decoder) multiset" where
  "decoders_in_use threads S = (\<Sum>t<threads. in_use (decoding_of S t))"

definition places_taken :: "nat \<Rightarrow> decoder_system \<Rightarrow> nat" where
  "places_taken threads S = (\<Sum>t<threads. takes (decoding_of S t))"

text \<open>The decoders at hand, with the file under which they are kept or used.\<close>

definition all_decoders :: "nat \<Rightarrow> decoder_system \<Rightarrow> (nat \<times> decoder) list \<Rightarrow> (nat \<times> decoder) multiset" where
  "all_decoders threads S ds = mset ds + decoders_in_use threads S"

definition decoders_ok :: "decoder_system \<Rightarrow> (nat \<times> decoder) multiset \<Rightarrow> bool" where
  "decoders_ok S all \<longleftrightarrow> (\<forall>(shard, d) \<in># all. snd d = shard \<and> fst d < opened S) \<and>
     (\<forall>k. count (image_mset (fst \<circ> snd) all) k \<le> 1)"

definition decoder_inv :: "nat \<Rightarrow> nat \<Rightarrow> decoder_system \<Rightarrow> bool" where
  "decoder_inv threads n S \<longleftrightarrow> (\<exists>ds. by_recency (cache S) ds \<and>
     open_count (cache S) = length ds + places_taken threads S \<and> open_count (cache S) \<le> n \<and>
     decoders_ok S (all_decoders threads S ds))"

lemma sum_update:
  fixes f :: "decoding \<Rightarrow> 'a::comm_monoid_add"
  assumes "t < (m::nat)"
  shows "(\<Sum>i<m. f ((g(t := p)) i)) + f (g t) = (\<Sum>i<m. f (g i)) + f p"
proof -
  have "(\<Sum>i<m. f (h i)) = f (h t) + (\<Sum>i\<in>{..<m} - {t}. f (h i))" for h
    using assms by (intro sum.remove) auto
  note split = this
  have "(\<Sum>i\<in>{..<m} - {t}. f ((g(t := p)) i)) = (\<Sum>i\<in>{..<m} - {t}. f (g i))" by (rule sum.cong) auto
  then show ?thesis using split [of "g(t := p)"] split [of g] by (simp add: algebra_simps)
qed

lemma thread_update:
  assumes "t < threads"
  shows "decoders_in_use threads (set_thread t p S) + in_use (decoding_of S t) = decoders_in_use threads S + in_use p"
    "places_taken threads (set_thread t p S) + takes (decoding_of S t) = places_taken threads S + takes p"
  using sum_update [OF assms, of in_use "decoding_of S" p] sum_update [OF assms, of takes "decoding_of S" p]
  by (simp_all add: decoders_in_use_def places_taken_def set_thread_def)

lemma frame_updates [simp]:
  "decoders_in_use threads (S\<lparr>cache := c\<rparr>) = decoders_in_use threads S"
  "decoders_in_use threads (S\<lparr>opened := k\<rparr>) = decoders_in_use threads S"
  "places_taken threads (S\<lparr>cache := c\<rparr>) = places_taken threads S"
  "places_taken threads (S\<lparr>opened := k\<rparr>) = places_taken threads S"
  "cache (set_thread t p S) = cache S" "opened (set_thread t p S) = opened S"
  by (simp_all add: decoders_in_use_def places_taken_def set_thread_def)

lemma decoder_invI:
  assumes "by_recency (cache S) ds" "open_count (cache S) = length ds + places_taken threads S" "open_count (cache S) \<le> n"
    and "decoders_ok S (all_decoders threads S ds)"
  shows "decoder_inv threads n S"
  using assms unfolding decoder_inv_def by blast

lemma decoders_ok_subset:
  "decoders_ok S all \<Longrightarrow> sub \<subseteq># all \<Longrightarrow> opened S \<le> opened T \<Longrightarrow> decoders_ok T sub"
  unfolding decoders_ok_def
  by (metis (mono_tags, lifting) case_prodD case_prodI2 dual_order.trans image_mset_subseteq_mono less_le_trans
      mset_subset_eqD mset_subset_eq_count)

section \<open>Every step keeps the invariant\<close>

lemma keep_inv:
  assumes "t < threads" "by_recency c ds'" "open_count c + takes (decoding_of S t) = length ds' + places_taken threads S + takes p"
    and "open_count c \<le> n" "opened S \<le> k"
    and "decoders_ok (S\<lparr>opened := k\<rparr>) (mset ds' + (decoders_in_use threads S - in_use (decoding_of S t) + in_use p))"
  shows "decoder_inv threads n (set_thread t p (S\<lparr>cache := c, opened := k\<rparr>))"
proof -
  let ?T = "set_thread t p (S\<lparr>cache := c, opened := k\<rparr>)"
  have "in_use (decoding_of S t) \<subseteq># decoders_in_use threads S"
    unfolding decoders_in_use_def using assms(1) by (metis finite_lessThan lessThan_iff mset_subset_eq_add_left sum.remove)
  then have use: "decoders_in_use threads ?T = decoders_in_use threads S - in_use (decoding_of S t) + in_use p"
    using thread_update(1) [OF assms(1), of p "S\<lparr>cache := c, opened := k\<rparr>"]
    by (simp add: multiset_diff_union_assoc) (metis add_diff_cancel_right' subset_mset.diff_add_assoc2)
  have places: "places_taken threads ?T + takes (decoding_of S t) = places_taken threads S + takes p"
    using thread_update(2) [OF assms(1), of p "S\<lparr>cache := c, opened := k\<rparr>"] by simp
  show ?thesis
  proof (rule decoder_invI)
    show "by_recency (cache ?T) ds'" "open_count (cache ?T) \<le> n" using assms(2,4) by simp_all
    show "open_count (cache ?T) = length ds' + places_taken threads ?T" using assms(3) places by simp
    show "decoders_ok ?T (all_decoders threads ?T ds')"
      using assms(6) by (simp add: all_decoders_def use decoders_ok_def)
  qed
qed

lemma new_decoder_ok:
  assumes "decoders_ok S all"
  shows "decoders_ok (S\<lparr>opened := opened S + 1\<rparr>) (add_mset (shard, opened S, shard) all)"
proof -
  have "count (image_mset (fst \<circ> snd) all) (opened S) = 0"
    using assms by (auto simp: decoders_ok_def not_in_iff [symmetric])
  then show ?thesis using assms by (fastforce simp: decoders_ok_def)
qed

lemma decoder_invE:
  assumes "decoder_inv threads n S"
  obtains ds where "by_recency (cache S) ds" "open_count (cache S) = length ds + places_taken threads S"
    "open_count (cache S) \<le> n" "decoders_ok S (mset ds + decoders_in_use threads S)"
  using assms by (auto simp: decoder_inv_def all_decoders_def)

lemma thread_counted:
  assumes "t < threads"
  shows "in_use (decoding_of S t) \<subseteq># decoders_in_use threads S" "takes (decoding_of S t) \<le> places_taken threads S"
proof -
  show "in_use (decoding_of S t) \<subseteq># decoders_in_use threads S"
    unfolding decoders_in_use_def using assms by (metis finite_lessThan lessThan_iff mset_subset_eq_add_left sum.remove)
  show "takes (decoding_of S t) \<le> places_taken threads S"
    unfolding places_taken_def using assms by (intro member_le_sum) auto
qed

lemma reuse_inv:
  assumes inv: "decoder_inv threads n S" and t: "t < threads" "decoding_of S t = Acquiring shard"
    and acquire: "Acquire n shard (cache S) = (Reuse d, c)"
  shows "decoder_inv threads n (set_thread t (Using shard d) (S\<lparr>cache := c\<rparr>))"
proof -
  from inv obtain ds where ds: "by_recency (cache S) ds" "open_count (cache S) = length ds + places_taken threads S"
    "open_count (cache S) \<le> n" "decoders_ok S (mset ds + decoders_in_use threads S)" by (rule decoder_invE)
  have "find (\<lambda>p. fst p = shard) ds = None \<Longrightarrow> False"
    using acquire Acquire_missing [OF ds(1), of shard n] Acquire_evict(1) [OF ds(1), of shard n]
    by (cases "open_count (cache S) < n"; cases "ds = []") simp_all
  then obtain p where p: "find (\<lambda>p. fst p = shard) ds = Some p" by (cases "find (\<lambda>p. fst p = shard) ds") auto
  note re = Acquire_reuse [OF ds(1) p, of n, unfolded acquire, simplified]
  have mem: "p \<in> set ds" "fst p = shard" using find_split [OF p] by auto
  have "mset ds = add_mset p (mset (remove1 p ds))" using mem(1) by simp
  moreover have "p = (shard, d)" using mem(2) re(1) by (cases p) simp
  ultimately have all: "mset ds + decoders_in_use threads S = mset (remove1 p ds) + (decoders_in_use threads S + {#(shard, d)#})"
    by (metis add_mset_add_single union_commute union_mset_add_mset_left)
  have ok: "decoders_ok (S\<lparr>opened := opened S\<rparr>)
      (mset (remove1 p ds) + (decoders_in_use threads S - in_use (decoding_of S t) + in_use (Using shard d)))"
    using ds(4) unfolding all by (simp only: t(2) in_use.simps diff_empty decoder_system.surjective simp_thms) simp
  have "length ds = Suc (length (remove1 p ds))" using mem(1) by (simp add: length_remove1) (metis length_pos_if_in_set Suc_pred)
  then have "decoder_inv threads n (set_thread t (Using shard d) (S\<lparr>cache := c, opened := opened S\<rparr>))"
    using t ds(1-3) re by (intro keep_inv [where ds' = "remove1 p ds", OF _ _ _ _ _ ok]) simp_all
  then show ?thesis by simp
qed

lemma start_open_inv:
  assumes inv: "decoder_inv threads n S" and t: "t < threads" "decoding_of S t = Acquiring shard"
    and acquire: "Acquire n shard (cache S) = (a, c)" "a = OpenNew \<or> (\<exists>stale. a = OpenEvicting stale)"
  shows "decoder_inv threads n (set_thread t (Opening shard) (S\<lparr>cache := c\<rparr>))"
proof -
  from inv obtain ds where ds: "by_recency (cache S) ds" "open_count (cache S) = length ds + places_taken threads S"
    "open_count (cache S) \<le> n" "decoders_ok S (mset ds + decoders_in_use threads S)" by (rule decoder_invE)
  have none: "find (\<lambda>p. fst p = shard) ds = None"
    using acquire Acquire_reuse(1) [OF ds(1), of shard _ n] by (cases "find (\<lambda>p. fst p = shard) ds") auto
  have "decoder_inv threads n (set_thread t (Opening shard) (S\<lparr>cache := c, opened := opened S\<rparr>))"
  proof (cases "open_count (cache S) < n")
    case True
    then have "c = cache S\<lparr>open_count := open_count (cache S) + 1\<rparr>" using Acquire_missing(1) [OF ds(1) none] acquire by simp
    then show ?thesis using True t ds by (intro keep_inv [where ds' = ds]) (simp_all add: by_recency_def)
  next
    case False
    have some: "ds \<noteq> []" using Acquire_missing(2) [OF ds(1) none False] acquire by auto
    note ev = Acquire_evict [OF ds(1) none False some, unfolded acquire(1), simplified]
    have "decoders_ok S (mset (butlast ds) + decoders_in_use threads S)"
      using append_butlast_last_id [OF some] by (intro decoders_ok_subset [OF ds(4)]) (metis mset_append mset_subset_eq_add_left subset_mset.add_right_mono, simp)
    moreover have "length ds = Suc (length (butlast ds))" using some by simp
    ultimately show ?thesis using t ds ev by (intro keep_inv [where ds' = "butlast ds"]) simp_all
  qed
  then show ?thesis by simp
qed

lemma leave_decoder_inv:
  assumes inv: "decoder_inv threads n S" and t: "t < threads" "takes (decoding_of S t) = 1"
    and c: "c = OpenFailed (cache S) \<or> c = Discard (cache S)"
  shows "decoder_inv threads n (set_thread t Free (S\<lparr>cache := c\<rparr>))"
proof -
  from inv obtain ds where ds: "by_recency (cache S) ds" "open_count (cache S) = length ds + places_taken threads S"
    "open_count (cache S) \<le> n" "decoders_ok S (mset ds + decoders_in_use threads S)" by (rule decoder_invE)
  have c': "c = cache S\<lparr>open_count := open_count (cache S) - 1\<rparr>" using c by (auto simp: OpenFailed_def Discard_def)
  have "1 \<le> open_count (cache S)" using thread_counted(2) [OF t(1), of S] t(2) ds(2) by simp
  moreover have "decoders_ok S (mset ds + (decoders_in_use threads S - in_use (decoding_of S t)))"
    by (rule decoders_ok_subset [OF ds(4)]) simp_all
  ultimately have "decoder_inv threads n (set_thread t Free (S\<lparr>cache := c, opened := opened S\<rparr>))"
    using t ds by (intro keep_inv [where ds' = ds]) (simp_all add: c' by_recency_def)
  then show ?thesis by simp
qed

lemma release_decoder_inv:
  assumes inv: "decoder_inv threads n S" and t: "t < threads" "decoding_of S t = Using shard d"
  shows "decoder_inv threads n (set_thread t Free (S\<lparr>cache := Release shard d (cache S)\<rparr>))"
proof -
  from inv obtain ds where ds: "by_recency (cache S) ds" "open_count (cache S) = length ds + places_taken threads S"
    "open_count (cache S) \<le> n" "decoders_ok S (mset ds + decoders_in_use threads S)" by (rule decoder_invE)
  have "(shard, d) \<in># decoders_in_use threads S" using thread_counted(1) [OF t(1), of S] t(2) by simp
  then obtain others where others: "decoders_in_use threads S = add_mset (shard, d) others" by (metis mset_add)
  then have "decoders_ok (S\<lparr>opened := opened S\<rparr>) (mset ((shard, d) # ds) + (decoders_in_use threads S - {#(shard, d)#}))"
    using ds(4) by (simp add: others)
  then have "decoder_inv threads n (set_thread t Free (S\<lparr>cache := Release shard d (cache S), opened := opened S\<rparr>))"
    using t ds Release_by_recency [OF ds(1), of shard d] by (intro keep_inv [where ds' = "(shard, d) # ds"]) (simp_all add: Release_def)
  then show ?thesis by simp
qed

lemma open_done_inv:
  assumes inv: "decoder_inv threads n S" and t: "t < threads" "decoding_of S t = Opening shard"
  shows "decoder_inv threads n (set_thread t (Using shard (opened S, shard)) (S\<lparr>opened := opened S + 1\<rparr>))"
proof -
  from inv obtain ds where ds: "by_recency (cache S) ds" "open_count (cache S) = length ds + places_taken threads S"
    "open_count (cache S) \<le> n" "decoders_ok S (mset ds + decoders_in_use threads S)" by (rule decoder_invE)
  have "decoder_inv threads n (set_thread t (Using shard (opened S, shard)) (S\<lparr>cache := cache S, opened := opened S + 1\<rparr>))"
    using t ds new_decoder_ok [OF ds(4), of shard] by (intro keep_inv [where ds' = ds]) simp_all
  then show ?thesis by simp
qed

lemma decoder_step_inv: "decoder_inv threads n S \<Longrightarrow> decoder_step threads n S T \<Longrightarrow> decoder_inv threads n T"
proof (erule decoder_stepE)
  fix t shard
  assume inv: "decoder_inv threads n S" and T: "T = set_thread t (Acquiring shard) S" "t < threads" "decoding_of S t = Free"
  from inv obtain ds where ds: "by_recency (cache S) ds" "open_count (cache S) = length ds + places_taken threads S"
    "open_count (cache S) \<le> n" "decoders_ok S (mset ds + decoders_in_use threads S)" by (rule decoder_invE)
  have "decoder_inv threads n (set_thread t (Acquiring shard) (S\<lparr>cache := cache S, opened := opened S\<rparr>))"
    using T(2,3) ds by (intro keep_inv [where ds' = ds]) simp_all
  then show "decoder_inv threads n T" by (simp add: T(1))
qed (use open_done_inv [of threads n S] in \<open>simp_all add: reuse_inv start_open_inv leave_decoder_inv release_decoder_inv\<close>)

interpretation decoder_cache: state_machine "\<lambda>S. S = new_decoder_system" "decoder_step threads n" "decoder_inv threads n" for threads n
proof unfold_locales
  show "decoder_inv threads n S" if "S = new_decoder_system" for S
    using that
    by (intro decoder_invI [where ds = "[]"])
      (simp_all add: new_decoder_system_def new_by_recency places_taken_def all_decoders_def decoders_in_use_def decoders_ok_def,
       simp_all add: new_decoder_cache_def)
qed (rule decoder_step_inv)

lemma in_use_once:
  assumes ok: "decoders_ok S (all + decoders_in_use threads S)" and t: "t < threads" "decoding_of S t = Using shard d"
    and u: "u < threads" "decoding_of S u = Using shard' d"
  shows "u = t"
proof (rule ccontr)
  assume other: "u \<noteq> t"
  have "decoders_in_use threads S = in_use (decoding_of S t) + (\<Sum>i\<in>{..<threads} - {t}. in_use (decoding_of S i))"
    unfolding decoders_in_use_def using t(1) by (intro sum.remove) auto
  also have "(\<Sum>i\<in>{..<threads} - {t}. in_use (decoding_of S i)) =
      in_use (decoding_of S u) + (\<Sum>i\<in>{..<threads} - {t} - {u}. in_use (decoding_of S i))"
    using u(1) other by (intro sum.remove) auto
  finally have "2 \<le> count (image_mset (fst \<circ> snd) (all + decoders_in_use threads S)) (fst d)"
    using t(2) u(2) by simp
  moreover have "count (image_mset (fst \<circ> snd) (all + decoders_in_use threads S)) (fst d) \<le> 1"
    using ok unfolding decoders_ok_def by blast
  ultimately show False by linarith
qed

lemma places_free:
  assumes "t < threads" "takes (decoding_of S t) = 0"
  shows "places_taken threads S < threads"
proof -
  have "takes p \<le> 1" for p by (cases p) simp_all
  then have "(\<Sum>i\<in>{..<threads} - {t}. takes (decoding_of S i)) \<le> (\<Sum>i\<in>{..<threads} - {t}. 1)" by (intro sum_mono)
  moreover have "places_taken threads S = takes (decoding_of S t) + (\<Sum>i\<in>{..<threads} - {t}. takes (decoding_of S i))"
    unfolding places_taken_def using assms(1) by (intro sum.remove) auto
  ultimately show ?thesis using assms by simp
qed

section \<open>Properties\<close>

text \<open>The same cache on the list.\<close>

definition lru_acquire :: "nat \<Rightarrow> nat \<Rightarrow> nat \<Rightarrow> (nat \<times> 'd) list \<Rightarrow> 'd acquired \<times> nat \<times> (nat \<times> 'd) list" where
  "lru_acquire n shard k ds =
     (case find (\<lambda>p. fst p = shard) ds of
        Some p \<Rightarrow> (Reuse (snd p), k, remove1 p ds)
      | None \<Rightarrow>
          if k < n then (OpenNew, k + 1, ds)
          else if ds = [] then (WaitForDecoder, k, ds)
          else (OpenEvicting (snd (last ds)), k, butlast ds))"

text \<open>
  C24. The deques per file and the list of files together are one list of idle decoders by recency. Acquiring takes the
  decoder of the file that was used last, opens one while the limit allows it, evicts the decoder that was used least
  recently of all, and waits only if the limit is reached and no decoder is idle; releasing puts a decoder in front.
\<close>

theorem decoder_cache_refines_lru:
  assumes "by_recency c ds"
  shows "(case (Acquire n shard c, lru_acquire n shard (open_count c) ds) of
      ((a, c'), (a', k, ds')) \<Rightarrow> a = a' \<and> open_count c' = k \<and> by_recency c' ds') \<and>
    by_recency (Release shard d c) ((shard, d) # ds) \<and> by_recency (Discard c) ds \<and> by_recency (OpenFailed c) ds"
proof -
  have "case (Acquire n shard c, lru_acquire n shard (open_count c) ds) of
      ((a, c'), (a', k, ds')) \<Rightarrow> a = a' \<and> open_count c' = k \<and> by_recency c' ds'"
  proof (cases "find (\<lambda>p. fst p = shard) ds")
    case (Some p)
    then show ?thesis using Acquire_reuse [OF assms Some, of n] by (simp add: lru_acquire_def case_prod_beta)
  next
    case None
    note missing = Acquire_missing [OF assms None, of n] and evict = Acquire_evict [OF assms None, of n]
    show ?thesis
    proof (cases "open_count c < n")
      case True
      then show ?thesis using missing(1) assms None by (simp add: lru_acquire_def by_recency_def)
    next
      case False
      then show ?thesis using missing(2) evict assms None by (cases "ds = []") (simp_all add: lru_acquire_def case_prod_beta)
    qed
  qed
  then show ?thesis using assms Release_by_recency [OF assms] by (simp add: by_recency_def Discard_def OpenFailed_def)
qed

theorem decoder_cache_refines_lru_witness:
  "fst (Acquire 1 5 (Release 3 ''d'' (new_decoder_cache\<lparr>open_count := 1\<rparr>))) = OpenEvicting ''d''"
proof -
  have "by_recency (Release 3 ''d'' (new_decoder_cache\<lparr>open_count := 1\<rparr>)) [(3, ''d'')]"
    by (rule Release_by_recency) (simp add: by_recency_def new_decoder_cache_def)
  from decoder_cache_refines_lru [OF this, of 1 5] show ?thesis
    by (simp add: lru_acquire_def Release_def case_prod_beta)
qed

text \<open>
  C19. However threads acquire, open, release and discard decoders, the count of open decoders is exact and never exceeds
  the limit, a thread only uses a decoder that was opened for its file, no two threads use the same decoder, and with at
  most as many threads as decoders, which is how many the functions allow, no thread ever has to wait.
\<close>

theorem decoders_exclusive:
  assumes "(decoder_step threads n)\<^sup>*\<^sup>* new_decoder_system S"
  shows "open_count (cache S) = length (idle_lru (cache S)) + places_taken threads S \<and> open_count (cache S) \<le> n \<and>
    (\<forall>t < threads. \<forall>shard d. decoding_of S t = Using shard d \<longrightarrow> snd d = shard \<and>
       (\<forall>u < threads. \<forall>shard'. decoding_of S u = Using shard' d \<longrightarrow> u = t)) \<and>
    (threads \<le> n \<longrightarrow> (\<forall>t < threads. \<forall>shard. decoding_of S t = Acquiring shard \<longrightarrow>
       fst (Acquire n shard (cache S)) \<noteq> WaitForDecoder))"
proof -
  have "decoder_inv threads n S" by (rule decoder_cache.reachable_inv [OF refl assms])
  then obtain ds where ds: "by_recency (cache S) ds" "open_count (cache S) = length ds + places_taken threads S"
    "open_count (cache S) \<le> n" "decoders_ok S (mset ds + decoders_in_use threads S)" by (rule decoder_invE)
  have len: "length (idle_lru (cache S)) = length ds" using ds(1) by (simp add: by_recency_def)
  have own: "snd d = shard" if t: "t < threads" "decoding_of S t = Using shard d" for t shard d
  proof -
    have "(shard, d) \<in># mset ds + decoders_in_use threads S" using thread_counted(1) [OF t(1), of S] t(2) by simp
    then show ?thesis using ds(4) unfolding decoders_ok_def by blast
  qed
  have one: "u = t" if t: "t < threads" "decoding_of S t = Using shard d" "u < threads" "decoding_of S u = Using shard' d"
    for t u shard shard' d
    by (rule in_use_once [OF ds(4) t])
  have never: "fst (Acquire n shard (cache S)) \<noteq> WaitForDecoder"
    if t: "threads \<le> n" "t < threads" "decoding_of S t = Acquiring shard" for t shard
  proof
    assume "fst (Acquire n shard (cache S)) = WaitForDecoder"
    then have "open_count (cache S) = n" "idle_lru (cache S) = []"
      using ds(3) by (auto simp: Acquire_def Let_def split: if_splits)
    moreover have "places_taken threads S < threads" by (rule places_free [OF t(2)]) (simp add: t(3))
    ultimately show False using ds(2) len t(1) by simp
  qed
  have "\<forall>t < threads. \<forall>shard d. decoding_of S t = Using shard d \<longrightarrow> snd d = shard \<and>
      (\<forall>u < threads. \<forall>shard'. decoding_of S u = Using shard' d \<longrightarrow> u = t)"
    by (intro allI impI conjI; (rule own one; assumption))
  moreover have "threads \<le> n \<longrightarrow> (\<forall>t < threads. \<forall>shard. decoding_of S t = Acquiring shard \<longrightarrow>
      fst (Acquire n shard (cache S)) \<noteq> WaitForDecoder)"
    by (intro allI impI never)
  moreover have "open_count (cache S) = length (idle_lru (cache S)) + places_taken threads S" using ds(2) len by simp
  ultimately show ?thesis using ds(3) by (intro conjI)
qed

theorem decoders_exclusive_witness:
  "\<exists>S. (decoder_step 1 1)\<^sup>*\<^sup>* new_decoder_system S \<and> decoding_of S 0 = Acquiring 5 \<and>
     fst (Acquire 1 5 (cache S)) \<noteq> WaitForDecoder"
proof -
  let ?S = "set_thread 0 (Acquiring 5) new_decoder_system"
  have "decoder_step 1 1 new_decoder_system ?S" by (rule request) (simp_all add: new_decoder_system_def)
  then have run: "(decoder_step 1 1)\<^sup>*\<^sup>* new_decoder_system ?S" by blast
  moreover have "decoding_of ?S 0 = Acquiring 5" by (simp add: set_thread_def)
  moreover have "fst (Acquire 1 5 (cache ?S)) \<noteq> WaitForDecoder"
    using decoders_exclusive [OF run] \<open>decoding_of ?S 0 = Acquiring 5\<close> by (metis less_one order_refl)
  ultimately show ?thesis by blast
qed

end
