(* ===== verification/Spec2Isabelle.thy ===== *)
theory Spec2Isabelle
  imports Prelude Paths Templates Floats Schema Lookup DatasetInfo MetadataCache CacheProtocol Temporal
    Machine TimestampLookup IndexCache CodecExecutor CopyOptions NumericStats CopyStats CopyBind CopyValues CopyWriter CopyPublish
    CopyRun CopyDataset Evaluation CopyReload VideoBuffers VideoQueue VideoRun VideoDelivery Rounding VideoPixels VideoDecoder
    VideoTargets VideoRequests DecoderCache
begin

text \<open>
  Verification development for the DuckDB extension that reads and writes LeRobot datasets: table
  functions find a dataset, load and cache its metadata, map requests to frames and video targets, look
  up their timestamps and decode them; \<open>COPY ... (FORMAT lerobot)\<close> writes a dataset, with statistics
  and encoded videos. File names are below \<open>src/src/\<close>.

  \<^bold>\<open>Foundations.\<close> \<open>Prelude\<close>: exceptions as values of a sum, loops that may throw (\<open>foldE\<close>,
  \<open>mapE\<close>), integer bounds, decimal numbers, sorted containers. \<open>Floats\<close>: \<open>double\<close> and \<open>float\<close> as rationals
  with correct rounding, executable, with exactness and error lemmas. \<open>Lookup\<close>: searches in sorted
  vectors and the interning of file names. \<open>Machine\<close>: locales for state machines (an invariant kept by
  every step holds in all reachable states) and for machines whose own steps decrease a measure and can
  always run until they are idle.

  \<^bold>\<open>Finding a dataset.\<close> \<open>Paths\<close> (\<open>lerobot_path.cpp\<close>): normalisation of roots, search directories,
  portability of relative paths, and the digest of secrets that keeps cached metadata apart. The file
  system, the secrets and the settings are the record \<open>path_host\<close>. \<open>Templates\<close>: the path templates of
  \<open>info.json\<close> as the reader expands them (\<open>storage/lerobot_metadata_cache.cpp\<close>) and the paths, JSON strings
  and identifiers the writer prints (\<open>function/copy/lerobot_copy.cpp\<close>); reader and writer meet in a round
  trip.

  \<^bold>\<open>Metadata.\<close> \<open>Schema\<close> (\<open>function/lerobot_schema.cpp\<close>, \<open>function/video/lerobot_video_options.cpp\<close>,
  \<open>lerobot_depth.hpp\<close>): types of features and named parameters. \<open>DatasetInfo\<close>, \<open>MetadataCache\<close> and
  \<open>CacheProtocol\<close> (\<open>storage/lerobot_metadata_cache.cpp\<close>): the rows of \<open>info.json\<close>, the routes of episodes
  and videos with their lookups, and the protocol that serves cached metadata while files change. A
  world gives a snapshot of all external state at each clock tick, and every access of the code takes
  one; a theorem therefore holds for every interleaving of accesses with outside changes. The results of
  the SQL queries over the metadata files are part of a snapshot.

  \<^bold>\<open>Requests.\<close> \<open>Temporal\<close> (\<open>function/temporal/lerobot_temporal_targets.cpp\<close>): time deltas, frame offsets
  and target rows. \<open>TimestampLookup\<close> and \<open>IndexCache\<close> (\<open>storage/lerobot_timestamp_lookup.cpp\<close>): what a lookup
  returns whichever files are indexed, and the cache of shared indexes as a state machine whose steps
  are the critical sections, with shared pointers as addresses of a heap.

  \<^bold>\<open>Writing.\<close> \<open>CopyOptions\<close> (\<open>function/copy/lerobot_copy_options.cpp\<close>), \<open>NumericStats\<close>
  (\<open>function/copy/lerobot_numeric_stats.cpp\<close>), \<open>CopyStats\<close> (the statistics in
  \<open>function/copy/lerobot_copy.cpp\<close>), \<open>CopyBind\<close> (its binding: the features, the columns of the input and of
  the files, compared with the schemas the reader rebuilds), \<open>CopyValues\<close> (raw frames, their spools, and
  statistics as nested values and as JSON), \<open>CopyWriter\<close> and \<open>CopyPublish\<close> (\<open>LerobotCopyGlobalData\<close>: the state of
  a writer with one definition per method, from the first chunk to the published \<open>stats.json\<close> and
  \<open>info.json\<close>), and \<open>CodecExecutor\<close> (\<open>function/copy/lerobot_codec_executor.cpp\<close>), the executor shared by all
  writers of a process, again a state machine of its critical sections.

  \<^bold>\<open>A written dataset.\<close> \<open>CopyRun\<close> defines the reference frames of an input and proves that a run of rows of
  an episode appends them; \<open>CopyDataset\<close> has the invariant of the writer between any two chunks (the data
  files so far hold the reference frames so far, each row of episode metadata names the range of its
  episode and the file that holds it) and its preservation by every operation; \<open>CopyReload\<close> draws the
  conclusions for the finished dataset and for the reader that loads it. \<open>Evaluation\<close> has code equations for
  the evaluation of witnesses in the kernel and models nothing.

  \<^bold>\<open>Video frames\<close> (\<open>function/video/lerobot_video_frames.cpp\<close>). \<open>VideoBuffers\<close>: targets, their order, the
  clusters of a buffer and the budgets of decoding. \<open>VideoQueue\<close>: producers read the rows of frame queries and
  put targets into a bounded queue of buffers per video file, consumers claim buffers; each critical section of
  \<open>LerobotVideoProducerState\<close> is a definition and the threads form a state machine, with the errors,
  interrupts and departures of threads as disturbances. The result of a frame query is a parameter
  (\<open>run_query\<close>), the history \<open>delivered\<close> is a ghost. \<open>VideoRun\<close> has the invariant and the measure of work,
  \<open>VideoDelivery\<close> the conclusions. \<open>VideoDecoder\<close>: \<open>LerobotShardDecoder\<close>, which seeks once per cluster and
  streams through the frames, over a record \<open>ffmpeg\<close> of the calls into FFmpeg, whose state is a type
  parameter; loops whose end depends on FFmpeg are \<open>partial_function (option)\<close>, and the properties prove that
  they end. \<open>VideoPixels\<close>: resizing, dequantised depth, conversion and its reuse. \<open>Rounding\<close>: rounding of
  doubles and floats is monotone and odd.

  \<open>VideoRequests\<close>: the bindings of \<open>lerobot_video_frames\<close> and \<open>lerobot_video_windows\<close>, their checks and the text of
  the frame queries; \<open>window_answer\<close> is what DuckDB answers for one requested row, so that the requests of a user
  can be followed to the targets of the producers. \<open>VideoTargets\<close>: \<open>lerobot_video_targets\<close>, from its binding over
  the targets of a batch of input rows and their timestamps to the buffers, composed with the lookup of
  \<open>TimestampLookup\<close> and the decoder of \<open>VideoDecoder\<close>; the walk over a hash table is a parameter \<open>order\<close> that
  permutes its argument. \<open>DecoderCache\<close>: \<open>LerobotDecoderCache\<close> refines a list of idle decoders ordered by
  recency, and the threads that acquire, open, release and discard decoders form a state machine; the numbers of
  the decoders are ghosts.

  \<^bold>\<open>Lemmas.\<close> Every component has its invariant or well-formedness predicate, a preservation lemma per
  operation, and the specification its clients use (\<open>..._iff\<close>, \<open>..._spec\<close>, \<open>..._ready\<close>). The properties
  are the numbered theorems at the end of each theory: a witness with the same name and the suffix
  \<open>_witness\<close> applies a property with hypotheses at concrete values.

  \<^bold>\<open>Bounds and fuel.\<close> The two attempts of the cache protocol are the loop of the source. No other
  definition has fuel: recursion is structural or has a measure (\<open>NumpyPairwiseStats\<close>: the number of
  rows, of which both halves are smaller; \<open>stats_batches\<close>: the dimensions left; \<open>upper_bound_loop\<close>: the
  length searched). \<open>int64_t\<close> values are integers whose range is checked where the source checks it,
  counters that may wrap are words.

  \<^bold>\<open>Parameters.\<close> Code that is not in the repository is an argument: the file system and settings, SQL
  results, DuckDB value casts (their results are in the range of their type), \<open>log\<close>, \<open>sqrt\<close> and \<open>pow\<close> of
  the C library, case folding of names, the encoder.

  \<^bold>\<open>Not modelled.\<close> The staging directory of \<open>COPY\<close> and its removal after an error, and calls of the file
  system whose results the code does not inspect; the SQL text of queries; FFmpeg encoding and decoding
  (\<open>function/copy/lerobot_video_writer.cpp\<close>, \<open>function/copy/lerobot_video_io.cpp\<close>,
  \<open>function/image/lerobot_decode_image.cpp\<close>, and of \<open>function/video/lerobot_video_frames.cpp\<close> the opening and
  closing of FFmpeg contexts, the file callbacks, the metrics and the output columns); the bindings of scans
  (\<open>function/scan/lerobot_scan.cpp\<close>); wrappers of DuckDB connections, registration and the licence probe.
\<close>

end
